(* ===== verification/Prelude.thy ===== *)
theory Prelude
  imports Main "HOL-Library.Word" "HOL-Library.Char_ord" "HOL-Library.List_Lexorder"
begin

text \<open>
  Shared vocabulary of the development: bytes and big/little-endian integers
  (package encoding/binary), the handful of functions of Go's strings and
  strconv packages the supervisor calls, the result type of a fallible Go
  function, and the generic list and map lemmas the components share.

  Go strings are modelled as HOL strings over ASCII text: a Go string that only
  holds bytes below 128 is its list of characters. On such strings
  strings.TrimSpace, strings.ToLower and strconv.Atoi are the functions below.
\<close>

named_theorems codec_simps \<open>encode/decode equations of the wire formats\<close>
named_theorems go_strings \<open>facts about the modelled string functions\<close>

unbundle bit_operations_syntax

type_synonym byte = "8 word"
type_synonym bytes = "8 word list"

text \<open>A Go function returning (T, error): Inl is the error, Inr the value.\<close>

type_synonym ('e, 'a) result = "'e + 'a"

section \<open>encoding/binary\<close>

definition put_be16 :: "16 word \<Rightarrow> bytes" where
  "put_be16 w = [ucast (drop_bit 8 w), ucast w]"

definition be16 :: "byte \<Rightarrow> byte \<Rightarrow> 16 word" where
  "be16 b0 b1 = push_bit 8 (ucast b0) OR ucast b1"

definition put_be32 :: "32 word \<Rightarrow> bytes" where
  "put_be32 w = [ucast (drop_bit 24 w), ucast (drop_bit 16 w), ucast (drop_bit 8 w), ucast w]"

definition be32 :: "byte \<Rightarrow> byte \<Rightarrow> byte \<Rightarrow> byte \<Rightarrow> 32 word" where
  "be32 b0 b1 b2 b3 =
     push_bit 24 (ucast b0) OR push_bit 16 (ucast b1) OR push_bit 8 (ucast b2) OR ucast b3"

definition put_be64 :: "64 word \<Rightarrow> bytes" where
  "put_be64 w = put_be32 (ucast (drop_bit 32 w)) @ put_be32 (ucast w)"

definition be64 :: "byte list \<Rightarrow> 64 word" where
  "be64 bs = push_bit 32 (ucast (be32 (bs ! 0) (bs ! 1) (bs ! 2) (bs ! 3)))
             OR ucast (be32 (bs ! 4) (bs ! 5) (bs ! 6) (bs ! 7))"

definition put_le16 :: "16 word \<Rightarrow> bytes" where
  "put_le16 w = [ucast w, ucast (drop_bit 8 w)]"

definition le16 :: "byte \<Rightarrow> byte \<Rightarrow> 16 word" where
  "le16 b0 b1 = ucast b0 OR push_bit 8 (ucast b1)"

definition put_le32 :: "32 word \<Rightarrow> bytes" where
  "put_le32 w = [ucast w, ucast (drop_bit 8 w), ucast (drop_bit 16 w), ucast (drop_bit 24 w)]"

definition le32 :: "byte \<Rightarrow> byte \<Rightarrow> byte \<Rightarrow> byte \<Rightarrow> 32 word" where
  "le32 b0 b1 b2 b3 =
     ucast b0 OR push_bit 8 (ucast b1) OR push_bit 16 (ucast b2) OR push_bit 24 (ucast b3)"

lemma be16_split [codec_simps, simp]:
  "be16 (ucast (drop_bit 8 w)) (ucast (w :: 16 word)) = w"
  unfolding be16_def by (rule bit_word_eqI) (auto simp: bit_simps)

lemma byte_cases4:
  assumes "n < (32 :: nat)"
  obtains "n < 8" | "8 \<le> n" "n < 16" | "16 \<le> n" "n < 24" | "24 \<le> n" "n < 32"
  using assms by linarith

lemma be32_split [codec_simps, simp]:
  "be32 (ucast (drop_bit 24 w)) (ucast (drop_bit 16 w)) (ucast (drop_bit 8 w))
     (ucast (w :: 32 word)) = w"
proof (rule bit_word_eqI)
  fix n assume "n < LENGTH(32)"
  then have "n < 32" by simp
  then show "bit (be32 (ucast (drop_bit 24 w)) (ucast (drop_bit 16 w)) (ucast (drop_bit 8 w))
     (ucast w)) n = bit w n"
    by (cases rule: byte_cases4) (auto simp: be32_def bit_simps)
qed

lemma le16_split [codec_simps, simp]:
  "le16 (ucast (w :: 16 word)) (ucast (drop_bit 8 w)) = w"
  unfolding le16_def by (rule bit_word_eqI) (auto simp: bit_simps)

lemma le32_split [codec_simps, simp]:
  "le32 (ucast (w :: 32 word)) (ucast (drop_bit 8 w)) (ucast (drop_bit 16 w))
     (ucast (drop_bit 24 w)) = w"
proof (rule bit_word_eqI)
  fix n assume "n < LENGTH(32)"
  then have "n < 32" by simp
  then show "bit (le32 (ucast w) (ucast (drop_bit 8 w)) (ucast (drop_bit 16 w))
     (ucast (drop_bit 24 w))) n = bit w n"
    by (cases rule: byte_cases4) (auto simp: le32_def bit_simps)
qed

lemma put_be16_be16 [codec_simps, simp]: "put_be16 (be16 a b) = [a, b]"
proof -
  have "ucast (drop_bit 8 (be16 a b)) = a"
    unfolding be16_def by (rule bit_word_eqI) (auto simp: bit_simps dest: bit_imp_le_length)
  moreover have "ucast (be16 a b) = b"
    unfolding be16_def by (rule bit_word_eqI) (auto simp: bit_simps)
  ultimately show ?thesis by (simp add: put_be16_def)
qed

lemma length_put_be16 [simp]: "length (put_be16 w) = 2"
  by (simp add: put_be16_def)

lemma length_put_be32 [simp]: "length (put_be32 w) = 4"
  by (simp add: put_be32_def)

lemma length_put_be64 [simp]: "length (put_be64 w) = 8"
  by (simp add: put_be64_def)

lemma length_put_le16 [simp]: "length (put_le16 w) = 2"
  by (simp add: put_le16_def)

lemma length_put_le32 [simp]: "length (put_le32 w) = 4"
  by (simp add: put_le32_def)

lemma nth_split8:
  assumes "8 \<le> length d"
  shows "d ! 0 # d ! 1 # d ! 2 # d ! 3 # d ! 4 # d ! 5 # d ! 6 # d ! 7 # drop 8 d = d"
proof -
  have "d \<noteq> []" using assms by auto
  then show ?thesis
    using assms Cons_nth_drop_Suc [of 7 d] Cons_nth_drop_Suc [of 6 d] Cons_nth_drop_Suc [of 5 d]
      Cons_nth_drop_Suc [of 4 d] Cons_nth_drop_Suc [of 3 d] Cons_nth_drop_Suc [of 2 d]
      Cons_nth_drop_Suc [of 1 d] Cons_nth_drop_Suc [of 0 d]
    by (auto simp: eval_nat_numeral)
qed

section \<open>Indexing\<close>

text \<open>An index or slice expression that would panic in Go is None.  A slice is required to
  stay within the length (Go would let it reach the capacity).\<close>

definition at :: "'a list \<Rightarrow> nat \<Rightarrow> 'a option" where
  "at xs i = (if i < length xs then Some (xs ! i) else None)"

definition slice :: "'a list \<Rightarrow> nat \<Rightarrow> nat \<Rightarrow> 'a list option" where
  "slice xs a b = (if a \<le> b \<and> b \<le> length xs then Some (take (b - a) (drop a xs)) else None)"

definition be16_at :: "bytes \<Rightarrow> nat \<Rightarrow> 16 word option" where
  "be16_at xs i = (if i + 2 \<le> length xs then Some (be16 (xs ! i) (xs ! (i + 1))) else None)"

definition be32_at :: "bytes \<Rightarrow> nat \<Rightarrow> 32 word option" where
  "be32_at xs i = (if i + 4 \<le> length xs
     then Some (be32 (xs ! i) (xs ! (i + 1)) (xs ! (i + 2)) (xs ! (i + 3))) else None)"

text \<open>Overwriting a range that lies within the list.\<close>

definition put_at :: "nat \<Rightarrow> 'a list \<Rightarrow> 'a list \<Rightarrow> 'a list" where
  "put_at i bs xs = take i xs @ bs @ drop (i + length bs) xs"

lemma at_Some [simp]: "i < length xs \<Longrightarrow> at xs i = Some (xs ! i)"
  by (simp add: at_def)

lemma slice_Some [simp]: "a \<le> b \<Longrightarrow> b \<le> length xs \<Longrightarrow> slice xs a b = Some (take (b - a) (drop a xs))"
  by (simp add: slice_def)

lemma be16_at_Some [simp]: "i + 2 \<le> length xs \<Longrightarrow> be16_at xs i = Some (be16 (xs ! i) (xs ! (i + 1)))"
  by (simp add: be16_at_def)

lemma be32_at_Some [simp]: "i + 4 \<le> length xs \<Longrightarrow>
   be32_at xs i = Some (be32 (xs ! i) (xs ! (i + 1)) (xs ! (i + 2)) (xs ! (i + 3)))"
  by (simp add: be32_at_def)

lemma at_append [simp]: "at (pre @ xs) (length pre + i) = at xs i"
  by (simp add: at_def nth_append)

lemma be16_at_append [simp]: "be16_at (pre @ xs) (length pre + i) = be16_at xs i"
  by (simp add: be16_at_def nth_append)

lemma slice_append [simp]: "slice (pre @ xs) (length pre + a) (length pre + b) = slice xs a b"
  by (simp add: slice_def)

lemma at_append_Suc [simp]: "at (pre @ xs) (Suc (length pre + i)) = at xs (Suc i)"
  "at (pre @ xs) (Suc (Suc (length pre + i))) = at xs (Suc (Suc i))"
  using at_append [of pre xs "Suc i"] at_append [of pre xs "Suc (Suc i)"] by simp_all

lemma be16_at_append_Suc [simp]: "be16_at (pre @ xs) (Suc (length pre + i)) = be16_at xs (Suc i)"
  "be16_at (pre @ xs) (Suc (Suc (length pre + i))) = be16_at xs (Suc (Suc i))"
  using be16_at_append [of pre xs "Suc i"] be16_at_append [of pre xs "Suc (Suc i)"] by simp_all

lemma length_put_at [simp]: "i + length bs \<le> length xs \<Longrightarrow> length (put_at i bs xs) = length xs"
  by (simp add: put_at_def)

section \<open>strings and strconv\<close>

definition is_space :: "char \<Rightarrow> bool" where
  "is_space c \<longleftrightarrow> (of_char c :: nat) \<in> {9, 10, 11, 12, 13, 32}"

definition trim_space :: "string \<Rightarrow> string" where
  "trim_space s = rev (dropWhile is_space (rev (dropWhile is_space s)))"

definition lower_char :: "char \<Rightarrow> char" where
  "lower_char c = (if (of_char c :: nat) \<in> {65 .. 90} then char_of (of_char c + 32 :: nat) else c)"

definition to_lower :: "string \<Rightarrow> string" where
  "to_lower = map lower_char"

fun has_prefix :: "string \<Rightarrow> string \<Rightarrow> bool" where
  "has_prefix s [] = True"
| "has_prefix [] (p # ps) = False"
| "has_prefix (c # cs) (p # ps) = (c = p \<and> has_prefix cs ps)"

text \<open>strings.IndexByte together with the split at the byte it finds.\<close>

fun cut_byte :: "char \<Rightarrow> string \<Rightarrow> (string \<times> string) option" where
  "cut_byte x [] = None"
| "cut_byte x (c # cs) = (if c = x then Some ([], cs)
     else map_option (\<lambda>(a, b). (c # a, b)) (cut_byte x cs))"

definition digit_char :: "nat \<Rightarrow> char" where
  "digit_char d = char_of (48 + d)"

definition digit_val :: "char \<Rightarrow> nat option" where
  "digit_val c = (let n = of_char c :: nat in if 48 \<le> n \<and> n \<le> 57 then Some (n - 48) else None)"

fun dec_digits :: "nat \<Rightarrow> string" where
  "dec_digits n = (if n < 10 then [digit_char n] else dec_digits (n div 10) @ [digit_char (n mod 10)])"

declare dec_digits.simps [simp del]

definition itoa :: "int \<Rightarrow> string" where
  "itoa i = (if i < 0 then CHR ''-'' # dec_digits (nat (- i)) else dec_digits (nat i))"

fun parse_digits :: "nat \<Rightarrow> string \<Rightarrow> nat option" where
  "parse_digits acc [] = Some acc"
| "parse_digits acc (c # cs) =
     (case digit_val c of None \<Rightarrow> None | Some d \<Rightarrow> parse_digits (10 * acc + d) cs)"

definition int_range :: "int \<Rightarrow> bool" where
  "int_range i \<longleftrightarrow> - (2 ^ 63) \<le> i \<and> i < 2 ^ 63"

text \<open>strconv.Atoi on a 64-bit platform: an optional sign, at least one decimal
  digit, nothing else, and a value that fits the int.\<close>

definition atoi :: "string \<Rightarrow> int option" where
  "atoi s =
     (let neg = (s \<noteq> [] \<and> hd s = CHR ''-'');
          body = (if s \<noteq> [] \<and> hd s \<in> {CHR ''-'', CHR ''+''} then tl s else s)
      in if body = [] then None
         else case parse_digits 0 body of
           None \<Rightarrow> None
         | Some n \<Rightarrow> (let v = (if neg then - int n else int n)
                      in if int_range v then Some v else None))"

text \<open>[]byte(s) and string(b): a char of the model is one byte of the Go string.\<close>

definition to_bytes :: "string \<Rightarrow> bytes" where
  "to_bytes = map (\<lambda>c. of_nat (of_char c))"

definition of_bytes :: "bytes \<Rightarrow> string" where
  "of_bytes = map (\<lambda>b. char_of (unat b))"

lemma of_to_bytes [simp]: "of_bytes (to_bytes t) = t"
proof -
  have "char_of (unat (of_nat (of_char c) :: byte)) = c" for c :: char
    by (simp add: unat_of_nat take_bit_nat_eq_self)
  then show ?thesis by (simp add: of_bytes_def to_bytes_def comp_def)
qed

lemma to_of_bytes [simp]: "to_bytes (of_bytes b) = b"
proof -
  have "(of_nat (of_char (char_of (unat w) :: char)) :: byte) = w" for w :: byte
    using unsigned_less [of w, where ?'a = nat] by simp
  then show ?thesis by (simp add: of_bytes_def to_bytes_def comp_def)
qed

lemma length_to_bytes [simp]: "length (to_bytes t) = length t"
  by (simp add: to_bytes_def)

lemma length_of_bytes [simp]: "length (of_bytes b) = length b"
  by (simp add: of_bytes_def)

lemma to_bytes_inject [simp]: "to_bytes s = to_bytes t \<longleftrightarrow> s = t"
  by (metis of_to_bytes)

lemma of_bytes_inject [simp]: "of_bytes s = of_bytes t \<longleftrightarrow> s = t"
  by (metis to_of_bytes)

lemma digit_val_digit_char [simp, go_strings]: "d < 10 \<Longrightarrow> digit_val (digit_char d) = Some d"
  by (simp add: digit_val_def digit_char_def Let_def)

lemma parse_digits_append [go_strings]:
  "parse_digits acc (xs @ ys) = Option.bind (parse_digits acc xs) (\<lambda>n. parse_digits n ys)"
  by (induction acc xs rule: parse_digits.induct) (auto split: option.splits)

lemma parse_leading_zeros: "parse_digits 0 (replicate n CHR ''0'' @ s) = parse_digits 0 s"
  by (induction n) (simp_all add: digit_val_def)

lemma parse_digits_dec_digits [simp, go_strings]: "parse_digits 0 (dec_digits n) = Some n"
proof (induction n rule: dec_digits.induct)
  case (1 n)
  show ?case
  proof (cases "n < 10")
    case True
    then show ?thesis by (subst dec_digits.simps) simp
  next
    case False
    then show ?thesis using 1 by (subst dec_digits.simps) (simp add: parse_digits_append)
  qed
qed

lemma dec_digits_not_Nil [simp]: "dec_digits n \<noteq> []"
  by (subst dec_digits.simps) simp

lemma set_dec_digits: "c \<in> set (dec_digits n) \<Longrightarrow> \<exists>d<10. c = digit_char d"
proof (induction n rule: dec_digits.induct)
  case (1 n)
  show ?case
  proof (cases "n < 10")
    case True
    then show ?thesis using "1.prems" by (subst (asm) dec_digits.simps) auto
  next
    case False
    then have "dec_digits n = dec_digits (n div 10) @ [digit_char (n mod 10)]"
      by (subst dec_digits.simps) simp
    then have "c \<in> set (dec_digits (n div 10)) \<or> c = digit_char (n mod 10)"
      using "1.prems" by auto
    then show ?thesis using "1.IH" False by (metis mod_less_divisor zero_less_numeral)
  qed
qed

lemma of_char_digit_char [simp]: "d < 10 \<Longrightarrow> (of_char (digit_char d) :: nat) = 48 + d"
  by (simp add: digit_char_def)

lemma digit_char_neq:
  assumes "d < 10" and "(of_char c :: nat) \<notin> {48..57}"
  shows "digit_char d \<noteq> c"
  using assms of_char_digit_char [of d] by auto

lemma set_dec_digits_of_char: "c \<in> set (dec_digits n) \<Longrightarrow> 48 \<le> (of_char c :: nat) \<and> (of_char c :: nat) \<le> 57"
  using set_dec_digits by fastforce

lemma hd_dec_digits: "48 \<le> (of_char (hd (dec_digits n)) :: nat) \<and> (of_char (hd (dec_digits n)) :: nat) \<le> 57"
  by (rule set_dec_digits_of_char [of _ n]) simp

lemma set_itoa [go_strings]:
  "c \<in> set (itoa i) \<Longrightarrow> (of_char c :: nat) = 45 \<or> 48 \<le> (of_char c :: nat) \<and> (of_char c :: nat) \<le> 57"
  by (auto simp: itoa_def dest: set_dec_digits_of_char split: if_splits)

lemma itoa_not_Nil [simp]: "itoa i \<noteq> []"
  by (simp add: itoa_def)

lemma atoi_itoa [simp, go_strings]:
  assumes "int_range i" shows "atoi (itoa i) = Some i"
proof (cases "i < 0")
  case True
  then show ?thesis using assms by (simp add: itoa_def atoi_def Let_def)
next
  case False
  have "hd (dec_digits (nat i)) \<noteq> CHR ''-''" "hd (dec_digits (nat i)) \<noteq> CHR ''+''"
    using hd_dec_digits [of "nat i"] by auto
  then show ?thesis using False assms by (simp add: itoa_def atoi_def Let_def)
qed

lemma dec_digits_inject [simp]: "dec_digits m = dec_digits n \<longleftrightarrow> m = n"
  by (metis option.inject parse_digits_dec_digits)

lemma itoa_inject [simp]: "itoa i = itoa j \<longleftrightarrow> i = j"
proof -
  have "CHR ''-'' # dec_digits m \<noteq> dec_digits n" for m n
    using hd_dec_digits [of n] by (cases "dec_digits n") auto
  from this this [symmetric] show ?thesis by (auto simp: itoa_def)
qed

lemma cut_byte_append [simp]: "x \<notin> set a \<Longrightarrow> cut_byte x (a @ x # b) = Some (a, b)"
  by (induction a) auto

lemma cut_byte_Some: "cut_byte x s = Some (a, b) \<Longrightarrow> s = a @ x # b \<and> x \<notin> set a"
  by (induction s arbitrary: a) (auto split: if_splits)

lemma append_sep_inject:
  assumes "(x :: char) \<notin> set a" and "x \<notin> set c"
  shows "a @ x # b = c @ x # d \<longleftrightarrow> a = c \<and> b = d"
  using cut_byte_append [OF assms(1), of b] cut_byte_append [OF assms(2), of d]
  by (metis option.inject prod.inject)

lemma dropWhile_none: "\<forall>c \<in> set s. \<not> P c \<Longrightarrow> dropWhile P s = s"
  by (cases s) auto

lemma not_in_itoa [simp]:
  "(of_char c :: nat) \<noteq> 45 \<Longrightarrow> \<not> (48 \<le> (of_char c :: nat) \<and> (of_char c :: nat) \<le> 57) \<Longrightarrow> c \<notin> set (itoa i)"
  using set_itoa by blast

end
