(* ===== verification/Netio.thy ===== *)
theory Netio
  imports Prelude
begin

text \<open>
  Package internal/iouyap: the 8-byte netio header IOL puts before every ethernet
  frame on its unix sockets (header.go), the two transforms of the netio/tap
  bridge and the pump loop that applies them (iouyap.go).  A pump runs over a
  script of what its read, its write and its context do on each iteration; the
  goroutine plumbing of runPumps is not modelled.
\<close>

section \<open>header.go\<close>

definition header_size :: nat where
  "header_size = 8"

definition msg_type_data :: byte where
  "msg_type_data = 1"

text \<open>The shift binds as tightly as the mask, and both bind tighter than the or.\<close>

definition encode_port_byte :: "int \<Rightarrow> int \<Rightarrow> byte" where
  "encode_port_byte adapter port = word_of_int (push_bit 4 port OR (adapter AND 15))"

record header =
  dst_id :: "16 word"
  src_id :: "16 word"
  dst_port :: byte
  src_port :: byte
  msg_type :: byte
  unused :: byte

definition parse_header :: "bytes \<Rightarrow> header option" where
  "parse_header d =
     (if length d < header_size then None
      else Some \<lparr> dst_id = be16 (d ! 0) (d ! 1), src_id = be16 (d ! 2) (d ! 3),
                  dst_port = d ! 4, src_port = d ! 5, msg_type = d ! 6, unused = d ! 7 \<rparr>)"

definition build_header :: "header \<Rightarrow> bytes" where
  "build_header h = put_be16 (dst_id h) @ put_be16 (src_id h) @
     [dst_port h, src_port h, msg_type h, unused h]"

definition payload :: "bytes \<Rightarrow> bytes" where
  "payload d = (if length d < header_size then [] else drop header_size d)"

definition with_payload :: "header \<Rightarrow> bytes \<Rightarrow> bytes" where
  "with_payload h p = build_header h @ p"

section \<open>iouyap.go\<close>

record tap_config =
  netio_path :: string
  local_instance :: int
  local_adapter :: int
  local_port :: int
  pseudo_instance :: int

datatype tap_error =
    NetioPathRequired
  | InvalidLocalInstance int
  | InvalidPseudoInstance int
  | InterfaceOutsideNibble int int

definition validate_tap :: "tap_config \<Rightarrow> tap_error option" where
  "validate_tap c =
     (if netio_path c = [] then Some NetioPathRequired
      else if local_instance c < 1 \<or> local_instance c > 1024
        then Some (InvalidLocalInstance (local_instance c))
      else if pseudo_instance c < 1 \<or> pseudo_instance c > 1024
        then Some (InvalidPseudoInstance (pseudo_instance c))
      else if local_adapter c < 0 \<or> local_adapter c > 15 \<or> local_port c < 0 \<or> local_port c > 15
        then Some (InterfaceOutsideNibble (local_adapter c) (local_port c))
      else None)"

definition strip_to_udp :: "bytes \<Rightarrow> bytes option" where
  "strip_to_udp d = (if length d < header_size then None else Some (drop header_size d))"

definition wrap_to_netio :: "tap_config \<Rightarrow> bytes \<Rightarrow> bytes option" where
  "wrap_to_netio c frame =
     (if frame = [] then None
      else Some (with_payload
        \<lparr> dst_id = word_of_int (local_instance c), src_id = word_of_int (pseudo_instance c),
          dst_port = encode_port_byte (local_adapter c) (local_port c),
          src_port = encode_port_byte 0 0, msg_type = msg_type_data, unused = 0 \<rparr> frame))"

text \<open>One read-transform-write step: the frames written and the error, if any.\<close>

definition pump_one ::
  "('e, bytes) result \<Rightarrow> (bytes \<Rightarrow> 'e option) \<Rightarrow> (bytes \<Rightarrow> bytes option) \<Rightarrow> bytes list \<times> 'e option" where
  "pump_one rd wr transform =
     (case rd of
        Inl e \<Rightarrow> ([], Some e)
      | Inr datagram \<Rightarrow>
          (case transform datagram of
             None \<Rightarrow> ([], None)
           | Some out \<Rightarrow> ([out], wr out)))"

text \<open>What one iteration of the loop meets: the context at the top of the loop, the
  datagram or the read error, the write, and the context when an error is seen.\<close>

record 'e pump_step =
  ctx_done :: bool
  reads :: "('e, bytes) result"
  writes :: "bytes \<Rightarrow> 'e option"
  ctx_err :: bool

datatype 'e pump_end = Running | Stopped | Reported 'e

fun run_pump ::
  "(bytes \<Rightarrow> bytes option) \<Rightarrow> 'e pump_step list \<Rightarrow> bytes list \<times> 'e pump_end" where
  "run_pump transform [] = ([], Running)"
| "run_pump transform (s # ss) =
     (if ctx_done s then ([], Stopped)
      else case pump_one (reads s) (writes s) transform of
        (out, Some e) \<Rightarrow> (out, if ctx_err s then Stopped else Reported e)
      | (out, None) \<Rightarrow> (let (outs, fin) = run_pump transform ss in (out @ outs, fin)))"

section \<open>Lemmas\<close>

lemma length_build_header [simp]: "length (build_header h) = header_size"
  by (simp add: build_header_def header_size_def)

lemma parse_header_with_payload [simp, codec_simps]: "parse_header (with_payload h p) = Some h"
  by (cases h) (simp add: parse_header_def with_payload_def build_header_def put_be16_def header_size_def)

lemma payload_with_payload [simp, codec_simps]: "payload (with_payload h p) = p"
  by (simp add: payload_def with_payload_def)

lemma with_payload_parse:
  assumes "parse_header d = Some h"
  shows "with_payload h (payload d) = d"
proof -
  have len: "8 \<le> length d" using assms by (auto simp: parse_header_def header_size_def split: if_splits)
  then show ?thesis using assms nth_split8 [OF len]
    by (auto simp: parse_header_def header_size_def with_payload_def build_header_def payload_def)
qed

lemma strip_wrap [simp, codec_simps]:
  "frame \<noteq> [] \<Longrightarrow> Option.bind (wrap_to_netio c frame) strip_to_udp = Some frame"
  by (simp add: wrap_to_netio_def strip_to_udp_def with_payload_def)

lemma encode_port_byte_unat:
  assumes "0 \<le> adapter" "adapter \<le> 15" "0 \<le> port" "port \<le> 15"
  shows "uint (encode_port_byte adapter port) = 16 * port + adapter"
proof -
  have "adapter AND 15 = take_bit 4 adapter"
    by (simp add: take_bit_eq_mask mask_eq_exp_minus_1)
  then have a: "adapter AND 15 = adapter"
    using assms by (simp add: take_bit_int_eq_self)
  have "take_bit 4 adapter = adapter" using assms by (simp add: take_bit_int_eq_self)
  then have "\<And>n. bit adapter n \<Longrightarrow> n < 4" by (metis bit_take_bit_iff)
  then have "push_bit 4 port OR adapter = push_bit 4 port + adapter"
    by (intro disjunctive_add [symmetric]) (auto simp: bit_push_bit_iff not_le dest: leD)
  then have "push_bit 4 port OR (adapter AND 15) = 16 * port + adapter"
    using a by (simp add: push_bit_eq_mult)
  then have "encode_port_byte adapter port = word_of_int (16 * port + adapter)"
    unfolding encode_port_byte_def by (rule arg_cong)
  moreover have "uint (word_of_int (16 * port + adapter) :: byte) = 16 * port + adapter"
    using assms by (simp only: uint_word_of_int) simp
  ultimately show ?thesis by (rule ssubst)
qed

lemma run_pump_clean:
  assumes "\<forall>s \<in> set ss. \<not> ctx_done s \<and> (\<exists>d. reads s = Inr d) \<and> (\<forall>out. writes s out = None)"
  shows "run_pump transform ss =
    (concat (map (\<lambda>s. case transform (projr (reads s)) of None \<Rightarrow> [] | Some out \<Rightarrow> [out]) ss), Running)"
  using assms by (induction ss) (auto simp: pump_one_def split: option.splits)

lemma run_pump_split:
  assumes "\<forall>s \<in> set ss. \<not> ctx_done s \<and> (\<exists>d. reads s = Inr d) \<and> (\<forall>out. writes s out = None)"
  shows "run_pump transform (ss @ rest) =
    (let (outs, fin) = run_pump transform rest in
       (concat (map (\<lambda>s. case transform (projr (reads s)) of None \<Rightarrow> [] | Some out \<Rightarrow> [out]) ss) @ outs,
        fin))"
  using assms
  by (induction ss) (auto simp: pump_one_def Let_def split: option.splits prod.splits)

lemma validate_tap_None:
  "validate_tap c = None \<longleftrightarrow>
     netio_path c \<noteq> [] \<and> 1 \<le> local_instance c \<and> local_instance c \<le> 1024 \<and>
     1 \<le> pseudo_instance c \<and> pseudo_instance c \<le> 1024 \<and>
     0 \<le> local_adapter c \<and> local_adapter c \<le> 15 \<and> 0 \<le> local_port c \<and> local_port c \<le> 15"
  by (auto simp: validate_tap_def)

section \<open>Properties\<close>

text \<open>A frame sent through a bridge whose configuration validateTap accepts is a
  datagram of eight more bytes whose header, read back by ParseHeader, names exactly the
  configured instance, interface (port in the high nibble, adapter in the low one) and
  pseudo-instance, and stripping it gives the frame back.\<close>

theorem wrap_addresses_interface:
  assumes "validate_tap c = None" and "frame \<noteq> []"
  shows "\<exists>d h. wrap_to_netio c frame = Some d \<and> length d = length frame + 8 \<and>
     parse_header d = Some h \<and> uint (dst_id h) = local_instance c \<and>
     uint (src_id h) = pseudo_instance c \<and>
     uint (dst_port h) = 16 * local_port c + local_adapter c \<and>
     src_port h = 0 \<and> msg_type h = 1 \<and> strip_to_udp d = Some frame"
proof -
  note v = assms(1) [unfolded validate_tap_None]
  define h where "h = \<lparr> dst_id = word_of_int (local_instance c), src_id = word_of_int (pseudo_instance c),
          dst_port = encode_port_byte (local_adapter c) (local_port c),
          src_port = encode_port_byte 0 0, msg_type = msg_type_data, unused = 0 \<rparr>"
  have w: "wrap_to_netio c frame = Some (with_payload h frame)"
    using assms(2) by (simp add: wrap_to_netio_def h_def)
  have "uint (dst_id h) = local_instance c" "uint (src_id h) = pseudo_instance c"
    using v by (simp_all add: h_def uint_word_of_int)
  moreover have "uint (dst_port h) = 16 * local_port c + local_adapter c"
    using v by (simp add: h_def encode_port_byte_unat)
  moreover have "src_port h = 0" "msg_type h = 1"
    by (simp_all add: h_def encode_port_byte_def msg_type_data_def)
  moreover have "strip_to_udp (with_payload h frame) = Some frame"
    using strip_wrap [OF assms(2), of c] w by simp
  moreover have "length (with_payload h frame) = length frame + 8"
    by (simp add: with_payload_def header_size_def)
  ultimately show ?thesis using w by fastforce
qed

lemma wrap_addresses_interface_witness:
  "\<exists>d h. wrap_to_netio \<lparr> netio_path = ''/tmp/netio0/501'', local_instance = 1, local_adapter = 0,
        local_port = 1, pseudo_instance = 501 \<rparr> [7, 9] = Some d \<and> length d = length [7, 9 :: byte] + 8 \<and>
     parse_header d = Some h \<and> uint (dst_id h) = 1 \<and> uint (src_id h) = 501 \<and>
     uint (dst_port h) = 16 \<and> src_port h = 0 \<and> msg_type h = 1 \<and> strip_to_udp d = Some [7, 9]"
  using wrap_addresses_interface [of "\<lparr> netio_path = ''/tmp/netio0/501'', local_instance = 1,
    local_adapter = 0, local_port = 1, pseudo_instance = 501 \<rparr>" "[7, 9]"]
  by (simp add: validate_tap_def)

text \<open>A pump forwards, in order, exactly the transformed datagrams (dropping the
  runts) up to the first read or write failure; it then reports that error unless its
  context was cancelled, and touches nothing of what would have come later.\<close>

theorem run_pump_until_failure:
  assumes "\<forall>s \<in> set ss. \<not> ctx_done s \<and> (\<exists>d. reads s = Inr d) \<and> (\<forall>out. writes s out = None)"
    and "\<not> ctx_done f" and "pump_one (reads f) (writes f) transform = (last_out, Some e)"
  shows "run_pump transform (ss @ f # later) =
    (concat (map (\<lambda>s. case transform (projr (reads s)) of None \<Rightarrow> [] | Some out \<Rightarrow> [out]) ss) @ last_out,
     if ctx_err f then Stopped else Reported e)"
  using assms by (simp add: run_pump_split)

lemma run_pump_until_failure_witness:
  "run_pump strip_to_udp
     ([\<lparr> ctx_done = False, reads = Inr [1,2,3,4,5,6,7,8,9], writes = (\<lambda>_. None), ctx_err = False \<rparr>,
       \<lparr> ctx_done = False, reads = Inr [1,2], writes = (\<lambda>_. None), ctx_err = False \<rparr>]
      @ \<lparr> ctx_done = False, reads = Inl ''EBADF'', writes = (\<lambda>_. None), ctx_err = False \<rparr>
      # [\<lparr> ctx_done = False, reads = Inr [1,2,3,4,5,6,7,8,5], writes = (\<lambda>_. None), ctx_err = False \<rparr>])
   = ([[9]], Reported ''EBADF'')"
  by (subst run_pump_until_failure [where e = "''EBADF''" and last_out = "[]"])
     (simp_all add: pump_one_def strip_to_udp_def header_size_def)

end
