(* ===== verification/Classify.thy ===== *)
theory Classify
  imports Prelude "HOL-Library.Monad_Syntax"
begin

text \<open>
  Package internal/relay, classify.go: the frame classifier of the capture and
  statistics path.  Every index expression is a checked access, so a Go panic would be
  the value None; that it never occurs is a theorem here and not a convention.
\<close>

definition hex4_digit :: "nat \<Rightarrow> char" where
  "hex4_digit d = (if d < 10 then char_of (48 + d) else char_of (87 + d))"

definition hex4 :: "16 word \<Rightarrow> string" where
  "hex4 w = (let n = unat w in
     [hex4_digit (n div 4096 mod 16), hex4_digit (n div 256 mod 16),
      hex4_digit (n div 16 mod 16), hex4_digit (n mod 16)])"

definition transport_name :: "byte \<Rightarrow> string" where
  "transport_name proto = (if proto = 6 then ''TCP'' else ''UDP'')"

definition tcp_port :: "16 word \<Rightarrow> 16 word \<Rightarrow> string" where
  "tcp_port src dst =
     (if src = 179 \<or> dst = 179 then ''BGP''
      else if src = 49 \<or> dst = 49 then ''TACACS''
      else '''')"

definition udp_port :: "16 word \<Rightarrow> 16 word \<Rightarrow> string" where
  "udp_port src dst =
     (if src = 520 \<or> dst = 520 then ''RIP''
      else if src = 4789 \<or> dst = 4789 then ''VXLAN''
      else if src = 1812 \<or> dst = 1812 \<or> src = 1813 \<or> dst = 1813 \<or>
              src = 1645 \<or> dst = 1645 \<or> src = 1646 \<or> dst = 1646 then ''RADIUS''
      else '''')"

definition classify_ports :: "byte \<Rightarrow> bytes \<Rightarrow> nat \<Rightarrow> string option" where
  "classify_ports proto frame l4 =
     (if length frame < l4 + 4 then Some (transport_name proto)
      else do {
        src \<leftarrow> be16_at frame l4;
        dst \<leftarrow> be16_at frame (l4 + 2);
        Some (if proto = 6
              then (let name = tcp_port src dst in if name \<noteq> '''' then name else ''TCP'')
              else (let name = udp_port src dst in if name \<noteq> '''' then name else ''UDP''))
      })"

definition bgp_type :: "byte \<Rightarrow> string" where
  "bgp_type b = (if b = 1 then ''open'' else if b = 2 then ''update'' else if b = 3 then ''notification''
     else if b = 4 then ''keepalive'' else if b = 5 then ''route-refresh'' else '''')"

definition classify_bgp :: "bytes \<Rightarrow> nat \<Rightarrow> string option" where
  "classify_bgp frame bgp =
     (if length frame < bgp + 19 then Some '''' else map_option bgp_type (at frame (bgp + 18)))"

definition classify_transport :: "byte \<Rightarrow> bytes \<Rightarrow> nat \<Rightarrow> (string \<times> string) option" where
  "classify_transport proto frame l4 = do {
     label \<leftarrow> classify_ports proto frame l4;
     if label = ''BGP'' \<and> l4 + 13 \<le> length frame
     then do {
       b \<leftarrow> at frame (l4 + 12);
       let tcp_hdr = unat (drop_bit 4 b) * 4;
       if tcp_hdr \<ge> 20
       then do { sub \<leftarrow> classify_bgp frame (l4 + tcp_hdr); Some (label, sub) }
       else Some (label, '''')
     }
     else Some (label, '''')
   }"

definition ipv4_ihl :: "bytes \<Rightarrow> nat \<Rightarrow> nat option" where
  "ipv4_ihl frame l3 = do {
     b \<leftarrow> at frame l3;
     let ihl = unat (b AND 0x0f) * 4;
     Some (if ihl < 20 then 20 else ihl)
   }"

definition ospf_type :: "byte \<Rightarrow> string" where
  "ospf_type b = (if b = 1 then ''hello'' else if b = 2 then ''db-desc'' else if b = 3 then ''ls-request''
     else if b = 4 then ''ls-update'' else if b = 5 then ''ls-ack'' else '''')"

definition classify_ospf :: "bytes \<Rightarrow> nat \<Rightarrow> string option" where
  "classify_ospf frame l3 = do {
     ihl \<leftarrow> ipv4_ihl frame l3;
     let l4 = l3 + ihl;
     if length frame < l4 + 2 then Some '''' else map_option ospf_type (at frame (l4 + 1))
   }"

definition eigrp_opcode :: "byte \<Rightarrow> string" where
  "eigrp_opcode b = (if b = 1 then ''update'' else if b = 2 then ''request'' else if b = 3 then ''query''
     else if b = 4 then ''reply'' else if b = 5 then ''hello'' else '''')"

definition classify_eigrp :: "bytes \<Rightarrow> nat \<Rightarrow> string option" where
  "classify_eigrp frame l3 = do {
     ihl \<leftarrow> ipv4_ihl frame l3;
     let l4 = l3 + ihl;
     if length frame < l4 + 2 then Some '''' else map_option eigrp_opcode (at frame (l4 + 1))
   }"

definition icmp_type :: "byte \<Rightarrow> string \<times> string" where
  "icmp_type b = (if b = 8 then (''PING'', ''echo-request'') else if b = 0 then (''PING'', ''echo-reply'')
     else if b = 3 then (''ICMP'', ''unreachable'') else if b = 5 then (''ICMP'', ''redirect'')
     else if b = 11 then (''ICMP'', ''time-exceeded'') else (''ICMP'', ''other''))"

definition classify_icmpv4 :: "bytes \<Rightarrow> nat \<Rightarrow> (string \<times> string) option" where
  "classify_icmpv4 frame l3 = do {
     ihl \<leftarrow> ipv4_ihl frame l3;
     let l4 = l3 + ihl;
     if length frame < l4 + 1 then Some (''ICMP'', '''') else map_option icmp_type (at frame l4)
   }"

definition labelled :: "string \<Rightarrow> string option \<Rightarrow> (string \<times> string) option" where
  "labelled l sub = map_option (Pair l) sub"

definition classify_ipv4 :: "bytes \<Rightarrow> nat \<Rightarrow> (string \<times> string) option" where
  "classify_ipv4 frame l3 =
     (if length frame < l3 + 10 then Some (''IPv4'', '''')
      else do {
        proto \<leftarrow> at frame (l3 + 9);
        if proto = 1 then classify_icmpv4 frame l3
        else if proto = 2 then Some (''IGMP'', '''')
        else if proto = 6 \<or> proto = 17 then do {
          w \<leftarrow> be16_at frame (l3 + 6);
          if w AND 0x1fff \<noteq> 0 then Some (transport_name proto, '''')
          else do {
            ihl \<leftarrow> ipv4_ihl frame l3;
            classify_transport proto frame (l3 + ihl)
          }
        }
        else if proto = 47 then Some (''GRE'', '''')
        else if proto = 50 then Some (''ESP'', '''')
        else if proto = 51 then Some (''AH'', '''')
        else if proto = 88 then labelled ''EIGRP'' (classify_eigrp frame l3)
        else if proto = 89 then labelled ''OSPF'' (classify_ospf frame l3)
        else if proto = 103 then Some (''PIM'', '''')
        else if proto = 112 then Some (''VRRP'', '''')
        else Some (''IPv4'', '''')
      })"

definition classify_ipv6 :: "bytes \<Rightarrow> nat \<Rightarrow> (string \<times> string) option" where
  "classify_ipv6 frame l3 =
     (if length frame < l3 + 7 then Some (''IPv6'', '''')
      else do {
        nh \<leftarrow> at frame (l3 + 6);
        if nh = 6 \<or> nh = 17 then classify_transport nh frame (l3 + 40)
        else if nh = 50 then Some (''ESP'', '''')
        else if nh = 51 then Some (''AH'', '''')
        else if nh = 58 then Some (''ICMPv6'', '''')
        else if nh = 88 then Some (''EIGRP'', '''')
        else if nh = 89 then Some (''OSPF'', '''')
        else Some (''IPv6'', '''')
      })"

definition classify_arp :: "bytes \<Rightarrow> nat \<Rightarrow> string option" where
  "classify_arp frame l3 =
     (if length frame < l3 + 8 then Some ''''
      else do {
        oper \<leftarrow> be16_at frame (l3 + 6);
        Some (if oper = 1 then ''request'' else if oper = 2 then ''reply'' else '''')
      })"

definition classify_ether_type_detailed :: "16 word \<Rightarrow> bytes \<Rightarrow> nat \<Rightarrow> (string \<times> string) option" where
  "classify_ether_type_detailed et frame l3 =
     (if et = 0x0806 then labelled ''ARP'' (classify_arp frame l3)
      else if et = 0x0800 then classify_ipv4 frame l3
      else if et = 0x86dd then classify_ipv6 frame l3
      else if et = 0x88cc then Some (''LLDP'', '''')
      else if et = 0x9000 then Some (''LOOP'', '''')
      else if et = 0x8847 then Some (''MPLS'', '''')
      else Some (''0x'' @ hex4 et, ''''))"

definition classify_ether_type :: "16 word \<Rightarrow> bytes \<Rightarrow> nat \<Rightarrow> string option" where
  "classify_ether_type et frame l3 = map_option fst (classify_ether_type_detailed et frame l3)"

definition stp_bpdu :: "byte \<Rightarrow> string" where
  "stp_bpdu b = (if b = 0 then ''config'' else if b = 0x80 then ''tcn'' else if b = 2 then ''rstp'' else '''')"

definition classify_stp_subtype :: "bytes \<Rightarrow> nat \<Rightarrow> string option" where
  "classify_stp_subtype frame l3 =
     (if length frame < l3 + 7 then Some '''' else map_option stp_bpdu (at frame (l3 + 6)))"

definition cisco_snap :: "16 word \<Rightarrow> string" where
  "cisco_snap pid = (if pid = 0x2000 then ''CDP'' else if pid = 0x2003 then ''VTP''
     else if pid = 0x2004 then ''DTP'' else ''LLC'')"

definition classify_llc :: "bytes \<Rightarrow> nat \<Rightarrow> string option" where
  "classify_llc frame l3 =
     (if length frame < l3 + 3 then Some ''LLC''
      else do {
        dsap \<leftarrow> at frame l3;
        ssap \<leftarrow> at frame (l3 + 1);
        ctrl \<leftarrow> at frame (l3 + 2);
        if dsap = 0x42 \<and> ssap = 0x42 then Some ''STP''
        else if dsap = 0xFE \<and> ssap = 0xFE then Some ''ISIS''
        else if dsap = 0xAA \<and> ssap = 0xAA \<and> ctrl = 0x03 then
          (if length frame < l3 + 8 then Some ''LLC''
           else do {
             oui \<leftarrow> slice frame (l3 + 3) (l3 + 6);
             pid \<leftarrow> be16_at frame (l3 + 6);
             if oui = [0x00, 0x00, 0x0c] then Some (cisco_snap pid)
             else if oui = [0x00, 0x00, 0x00] then classify_ether_type pid frame (l3 + 8)
             else Some ''LLC''
           })
        else Some ''LLC''
      })"

text \<open>The part after the ethertype has been found.\<close>

definition classify_at :: "16 word \<Rightarrow> bytes \<Rightarrow> nat \<Rightarrow> (string \<times> string) option" where
  "classify_at et frame l3 =
     (if et \<ge> 0x0600 then classify_ether_type_detailed et frame l3
      else do {
        label \<leftarrow> classify_llc frame l3;
        if label = ''STP'' then labelled label (classify_stp_subtype frame l3) else Some (label, '''')
      })"

definition classify_detailed :: "bytes \<Rightarrow> (string \<times> string \<times> bool) option" where
  "classify_detailed frame =
     (if length frame < 14 then Some (''OTHER'', '''', False)
      else do {
        et \<leftarrow> be16_at frame 12;
        if et = 0x8100 then
          (if length frame < 18 then Some (''OTHER'', '''', True)
           else do {
             et2 \<leftarrow> be16_at frame 16;
             (label, subtype) \<leftarrow> classify_at et2 frame 18;
             Some (label, subtype, True)
           })
        else do {
          (label, subtype) \<leftarrow> classify_at et frame 14;
          Some (label, subtype, False)
        }
      })"

definition classify :: "bytes \<Rightarrow> (string \<times> bool) option" where
  "classify frame = map_option (\<lambda>(label, _, tagged). (label, tagged)) (classify_detailed frame)"

section \<open>Every access is in range\<close>

lemma classify_ports_total: "\<exists>l. classify_ports proto frame l4 = Some l"
  by (simp add: classify_ports_def)

lemma classify_bgp_total: "\<exists>l. classify_bgp frame bgp = Some l"
  by (simp add: classify_bgp_def)

lemma classify_transport_total: "\<exists>r. classify_transport proto frame l4 = Some r"
proof -
  obtain l where l: "classify_ports proto frame l4 = Some l" using classify_ports_total by blast
  show ?thesis
  proof (cases "l = ''BGP'' \<and> l4 + 13 \<le> length frame")
    case True
    obtain s where "classify_bgp frame (l4 + unat (drop_bit 4 (frame ! (l4 + 12))) * 4) = Some s"
      using classify_bgp_total by blast
    then show ?thesis using True l by (simp add: classify_transport_def Let_def)
  next
    case False
    then show ?thesis by (auto simp: classify_transport_def l)
  qed
qed

lemma ipv4_ihl_total: "l3 < length frame \<Longrightarrow> \<exists>n. ipv4_ihl frame l3 = Some n"
  by (simp add: ipv4_ihl_def Let_def)

lemma classify_ospf_total: "l3 < length frame \<Longrightarrow> \<exists>l. classify_ospf frame l3 = Some l"
  using ipv4_ihl_total [of l3 frame] by (auto simp: classify_ospf_def Let_def)

lemma classify_eigrp_total: "l3 < length frame \<Longrightarrow> \<exists>l. classify_eigrp frame l3 = Some l"
  using ipv4_ihl_total [of l3 frame] by (auto simp: classify_eigrp_def Let_def)

lemma classify_icmpv4_total: "l3 < length frame \<Longrightarrow> \<exists>l. classify_icmpv4 frame l3 = Some l"
  using ipv4_ihl_total [of l3 frame] by (auto simp: classify_icmpv4_def Let_def)

lemma classify_ipv4_total: "\<exists>r. classify_ipv4 frame l3 = Some r"
proof (cases "length frame < l3 + 10")
  case False
  then have l: "l3 < length frame" by simp
  obtain n where n: "ipv4_ihl frame l3 = Some n" using ipv4_ihl_total [OF l] by blast
  have "\<exists>r. classify_transport p frame (l3 + n) = Some r" for p by (rule classify_transport_total)
  then show ?thesis
    using False n classify_ospf_total [OF l] classify_eigrp_total [OF l] classify_icmpv4_total [OF l]
    by (auto simp: classify_ipv4_def labelled_def)
qed (simp add: classify_ipv4_def)

lemma classify_ipv6_total: "\<exists>r. classify_ipv6 frame l3 = Some r"
  using classify_transport_total [of _ frame "l3 + 40"] by (auto simp: classify_ipv6_def)

lemma classify_ether_type_detailed_total: "\<exists>r. classify_ether_type_detailed et frame l3 = Some r"
  using classify_ipv4_total [of frame l3] classify_ipv6_total [of frame l3]
  by (simp add: classify_ether_type_detailed_def labelled_def classify_arp_def)

lemma classify_llc_total: "\<exists>l. classify_llc frame l3 = Some l"
proof -
  have "\<exists>l. classify_ether_type pid frame (l3 + 8) = Some l" for pid
    using classify_ether_type_detailed_total [of pid frame "l3 + 8"] by (auto simp: classify_ether_type_def)
  then show ?thesis by (auto simp: classify_llc_def)
qed

lemma classify_at_total: "\<exists>r. classify_at et frame l3 = Some r"
  using classify_llc_total [of frame l3] classify_ether_type_detailed_total [of et frame l3]
  by (auto simp: classify_at_def labelled_def classify_stp_subtype_def)

section \<open>Only the payload matters\<close>

text \<open>Each part of the classifier looks at the frame from its layer-3 offset on only, so a
  longer prefix in front of the same payload changes nothing.\<close>

lemma classify_ports_shift:
  "classify_ports proto (pre @ x) (length pre + k) = classify_ports proto x k"
  by (simp add: classify_ports_def add.assoc Let_def cong: if_cong del: at_Some be16_at_Some slice_Some)

lemma classify_bgp_shift: "classify_bgp (pre @ x) (length pre + k) = classify_bgp x k"
  by (simp add: classify_bgp_def add.assoc Let_def cong: if_cong del: at_Some be16_at_Some slice_Some)

lemma classify_transport_shift:
  "classify_transport proto (pre @ x) (length pre + k) = classify_transport proto x k"
  by (simp add: classify_transport_def classify_ports_shift classify_bgp_shift add.assoc Let_def cong: if_cong del: at_Some be16_at_Some slice_Some)

lemma ipv4_ihl_shift: "ipv4_ihl (pre @ x) (length pre + k) = ipv4_ihl x k"
  by (simp add: ipv4_ihl_def)

lemma classify_ospf_shift: "classify_ospf (pre @ x) (length pre + k) = classify_ospf x k"
  by (simp add: classify_ospf_def ipv4_ihl_shift add.assoc Let_def cong: if_cong del: at_Some be16_at_Some slice_Some)

lemma classify_eigrp_shift: "classify_eigrp (pre @ x) (length pre + k) = classify_eigrp x k"
  by (simp add: classify_eigrp_def ipv4_ihl_shift add.assoc Let_def cong: if_cong del: at_Some be16_at_Some slice_Some)

lemma classify_icmpv4_shift: "classify_icmpv4 (pre @ x) (length pre + k) = classify_icmpv4 x k"
  by (simp add: classify_icmpv4_def ipv4_ihl_shift add.assoc Let_def cong: if_cong del: at_Some be16_at_Some slice_Some)

lemma classify_arp_shift: "classify_arp (pre @ x) (length pre + k) = classify_arp x k"
  by (simp add: classify_arp_def add.assoc Let_def cong: if_cong del: at_Some be16_at_Some slice_Some)

lemma classify_ipv4_shift: "classify_ipv4 (pre @ x) (length pre + k) = classify_ipv4 x k"
  by (simp add: classify_ipv4_def ipv4_ihl_shift classify_ospf_shift classify_eigrp_shift
      classify_icmpv4_shift classify_transport_shift add.assoc Let_def cong: if_cong del: at_Some be16_at_Some slice_Some)

lemma classify_ipv6_shift: "classify_ipv6 (pre @ x) (length pre + k) = classify_ipv6 x k"
  by (simp add: classify_ipv6_def classify_transport_shift add.assoc Let_def cong: if_cong del: at_Some be16_at_Some slice_Some)

lemma classify_ether_type_detailed_shift:
  "classify_ether_type_detailed et (pre @ x) (length pre + k) = classify_ether_type_detailed et x k"
  by (simp add: classify_ether_type_detailed_def classify_arp_shift classify_ipv4_shift classify_ipv6_shift cong: if_cong del: at_Some be16_at_Some slice_Some)

lemma classify_llc_shift: "classify_llc (pre @ x) (length pre + k) = classify_llc x k"
  by (simp add: classify_llc_def classify_ether_type_def classify_ether_type_detailed_shift add.assoc Let_def cong: if_cong del: at_Some be16_at_Some slice_Some)

lemma classify_stp_subtype_shift:
  "classify_stp_subtype (pre @ x) (length pre + k) = classify_stp_subtype x k"
  by (simp add: classify_stp_subtype_def add.assoc Let_def cong: if_cong del: at_Some be16_at_Some slice_Some)

lemma classify_at_shift:
  assumes "length pre = n" shows "classify_at et (pre @ x) n = classify_at et x 0"
  using classify_ether_type_detailed_shift [of et pre x 0] classify_llc_shift [of pre x 0]
    classify_stp_subtype_shift [of pre x 0] assms
  by (simp add: classify_at_def cong: if_cong)

section \<open>Properties\<close>

text \<open>C27. ClassifyDetailed never panics: on every frame, however short or malformed, all its
  index and slice expressions are in range and it returns a label.\<close>

theorem classify_never_panics: "\<exists>label subtype tagged. classify_detailed frame = Some (label, subtype, tagged)"
proof (cases "length frame < 14")
  case False
  obtain l1 s1 where "classify_at (be16 (frame ! 12) (frame ! 13)) frame 14 = Some (l1, s1)"
    using classify_at_total by fast
  moreover obtain l2 s2 where "classify_at (be16 (frame ! 16) (frame ! 17)) frame 18 = Some (l2, s2)"
    using classify_at_total by fast
  ultimately show ?thesis using False by (auto simp: classify_detailed_def)
qed (auto simp: classify_detailed_def)

text \<open>One 802.1Q tag is transparent: inserting a tag into an untagged frame changes neither
  the label nor the subtype, and only sets the tagged flag.\<close>

theorem classify_tag_transparent:
  assumes "length macs = 12" and "be16 e0 e1 \<noteq> 0x8100"
  shows "classify_detailed (macs @ [0x81, 0x00, t0, t1, e0, e1] @ payload) =
    map_option (\<lambda>(label, subtype, _). (label, subtype, True))
      (classify_detailed (macs @ [e0, e1] @ payload))"
proof -
  have tag: "be16 0x81 0x00 = 0x8100" by (simp add: be16_def)
  have "classify_at (be16 e0 e1) ((macs @ [0x81, 0x00, t0, t1, e0, e1]) @ payload) 18 =
      classify_at (be16 e0 e1) payload 0"
    by (rule classify_at_shift) (simp add: assms(1))
  moreover have "classify_at (be16 e0 e1) ((macs @ [e0, e1]) @ payload) 14 = classify_at (be16 e0 e1) payload 0"
    by (rule classify_at_shift) (simp add: assms(1))
  moreover obtain l s where "classify_at (be16 e0 e1) payload 0 = Some (l, s)"
    using classify_at_total by fast
  ultimately show ?thesis using assms tag
    by (simp add: classify_detailed_def be16_at_def nth_append)
qed

lemma classify_tag_transparent_witness:
  "classify_detailed (replicate 12 1 @ [0x81, 0x00, 0, 5, 0x88, 0xcc] @ [9]) = Some (''LLDP'', [], True)"
proof -
  have "be16 0x88 0xcc = 0x88cc" by (simp add: be16_def)
  then show ?thesis
    by (subst classify_tag_transparent)
       (simp_all add: classify_detailed_def be16_at_def nth_append classify_at_def
          classify_ether_type_detailed_def)
qed

text \<open>A subtype is only ever reported for the protocols documented to carry one.\<close>

theorem classify_subtype_labels:
  assumes "classify_detailed frame = Some (label, subtype, tagged)" and "subtype \<noteq> []"
  shows "label \<in> {''ARP'', ''PING'', ''ICMP'', ''OSPF'', ''EIGRP'', ''BGP'', ''STP''}"
proof -
  have tr: "classify_transport p f k = Some (l, s) \<Longrightarrow> s \<noteq> [] \<Longrightarrow> l = ''BGP''" for p f k l s
    by (auto simp: classify_transport_def Let_def bind_eq_Some_conv split: if_splits)
  have icmp: "icmp_type b = (l, s) \<Longrightarrow> l \<in> {''PING'', ''ICMP''}" for b l s
    by (auto simp: icmp_type_def split: if_splits)
  have v4: "classify_ipv4 f k = Some (l, s) \<Longrightarrow> s \<noteq> [] \<Longrightarrow>
      l \<in> {''PING'', ''ICMP'', ''OSPF'', ''EIGRP'', ''BGP''}" for f k l s
    using icmp by (auto simp: classify_ipv4_def classify_icmpv4_def labelled_def Let_def
        bind_eq_Some_conv dest!: tr split: if_splits)
  have v6: "classify_ipv6 f k = Some (l, s) \<Longrightarrow> s \<noteq> [] \<Longrightarrow> l = ''BGP''" for f k l s
    by (auto simp: classify_ipv6_def bind_eq_Some_conv dest!: tr split: if_splits)
  have et: "classify_ether_type_detailed e f k = Some (l, s) \<Longrightarrow> s \<noteq> [] \<Longrightarrow>
      l \<in> {''ARP'', ''PING'', ''ICMP'', ''OSPF'', ''EIGRP'', ''BGP''}" for e f k l s
    by (auto simp: classify_ether_type_detailed_def labelled_def dest!: v4 v6 split: if_splits)
  have "\<exists>e k. classify_at e frame k = Some (label, subtype)"
    using assms by (auto simp: classify_detailed_def bind_eq_Some_conv split: if_splits prod.splits)
  then show ?thesis
    using assms(2) by (auto simp: classify_at_def labelled_def bind_eq_Some_conv dest!: et split: if_splits)
qed

lemma classify_subtype_labels_witness:
  "''STP'' \<in> {''ARP'', ''PING'', ''ICMP'', ''OSPF'', ''EIGRP'', ''BGP'', ''STP''}"
proof (rule classify_subtype_labels)
  show "classify_detailed (replicate 12 1 @ [0, 38, 0x42, 0x42, 3, 0, 0, 0, 0x80]) = Some (''STP'', ''tcn'', False)"
    by (simp add: classify_detailed_def be16_at_def be16_def nth_append classify_at_def classify_llc_def
        classify_stp_subtype_def labelled_def stp_bpdu_def at_def)
qed simp

end
