(* ===== verification/Telnet.thy ===== *)
theory Telnet
  imports Prelude
begin

text \<open>
  Package internal/telnet: the negotiator between a raw telnet stream and clean terminal
  bytes.  The output of one Feed is returned beside the new negotiator; the reply buffer is
  part of it until Reply drains it.  Two negotiators wired mouth to mouth, as the console
  hub and the wsbridge once were, are a step relation over the option commands in flight.
\<close>

section \<open>Constants\<close>

definition IAC :: byte where "IAC = 255"
definition DONT :: byte where "DONT = 254"
definition DO :: byte where "DO = 253"
definition WONT :: byte where "WONT = 252"
definition WILL :: byte where "WILL = 251"
definition SB :: byte where "SB = 250"
definition GA :: byte where "GA = 249"
definition SE :: byte where "SE = 240"
definition OptEcho :: byte where "OptEcho = 1"
definition OptSGA :: byte where "OptSGA = 3"
definition OptNAWS :: byte where "OptNAWS = 31"

lemmas telnet_bytes = IAC_def DONT_def DO_def WONT_def WILL_def SB_def GA_def SE_def
  OptEcho_def OptSGA_def OptNAWS_def

section \<open>Option negotiation\<close>

datatype neg_state = StData | StIAC | StCmd | StSB | StSBIAC

record negotiator =
  neg_state :: neg_state
  pending :: byte
  sb :: bytes
  reply :: bytes
  remote_on :: "byte \<Rightarrow> bool"
  local_on :: "byte \<Rightarrow> bool"
  local_ref :: "byte \<Rightarrow> bool"
  remote_ref :: "byte \<Rightarrow> bool"

definition new_negotiator :: negotiator where
  "new_negotiator = \<lparr> neg_state = StData, pending = 0, sb = [], reply = [],
     remote_on = (\<lambda>_. False), local_on = (\<lambda>_. False), local_ref = (\<lambda>_. False),
     remote_ref = (\<lambda>_. False) \<rparr>"

definition send_reply :: "byte \<Rightarrow> byte \<Rightarrow> negotiator \<Rightarrow> negotiator" where
  "send_reply cmd opt n = n\<lparr>reply := reply n @ [IAC, cmd, opt]\<rparr>"

definition mark_local_refused :: "byte \<Rightarrow> negotiator \<Rightarrow> negotiator" where
  "mark_local_refused opt n = n\<lparr>local_ref := (local_ref n)(opt := True)\<rparr>"

definition mark_remote_refused :: "byte \<Rightarrow> negotiator \<Rightarrow> negotiator" where
  "mark_remote_refused opt n = n\<lparr>remote_ref := (remote_ref n)(opt := True)\<rparr>"

definition handle_do :: "byte \<Rightarrow> negotiator \<Rightarrow> negotiator" where
  "handle_do opt n =
     (if opt = OptSGA then
        (if \<not> local_on n opt
         then send_reply WILL opt (n\<lparr>local_on := (local_on n)(opt := True)\<rparr>) else n)
      else
        (let n1 = (if local_on n opt then n\<lparr>local_on := (local_on n)(opt := False)\<rparr> else n)
         in if \<not> local_ref n1 opt then send_reply WONT opt (mark_local_refused opt n1) else n1))"

definition handle_dont :: "byte \<Rightarrow> negotiator \<Rightarrow> negotiator" where
  "handle_dont opt n =
     (if local_on n opt then send_reply WONT opt (n\<lparr>local_on := (local_on n)(opt := False)\<rparr>)
      else if \<not> local_ref n opt then send_reply WONT opt (mark_local_refused opt n)
      else n)"

definition handle_will :: "byte \<Rightarrow> negotiator \<Rightarrow> negotiator" where
  "handle_will opt n =
     (if opt = OptSGA \<or> opt = OptEcho \<or> opt = OptNAWS then
        (if \<not> remote_on n opt
         then send_reply DO opt (n\<lparr>remote_on := (remote_on n)(opt := True)\<rparr>) else n)
      else
        (let n1 = (if remote_on n opt then n\<lparr>remote_on := (remote_on n)(opt := False)\<rparr> else n)
         in if \<not> remote_ref n1 opt then send_reply DONT opt (mark_remote_refused opt n1) else n1))"

definition handle_wont :: "byte \<Rightarrow> negotiator \<Rightarrow> negotiator" where
  "handle_wont opt n =
     (if remote_on n opt then send_reply DONT opt (n\<lparr>remote_on := (remote_on n)(opt := False)\<rparr>)
      else if \<not> remote_ref n opt then send_reply DONT opt (mark_remote_refused opt n)
      else n)"

definition handle_option :: "byte \<Rightarrow> byte \<Rightarrow> negotiator \<Rightarrow> negotiator" where
  "handle_option cmd opt n =
     (if cmd = DO then handle_do opt n
      else if cmd = DONT then handle_dont opt n
      else if cmd = WILL then handle_will opt n
      else if cmd = WONT then handle_wont opt n
      else n)"

section \<open>Parsing\<close>

definition handle_subnegotiation :: "bytes \<Rightarrow> negotiator \<Rightarrow> negotiator" where
  "handle_subnegotiation payload n = n"

text \<open>One byte: the new negotiator and the application bytes it produced.\<close>

definition step :: "byte \<Rightarrow> negotiator \<Rightarrow> negotiator \<times> bytes" where
  "step b n =
     (case neg_state n of
        StData \<Rightarrow> if b = IAC then (n\<lparr>neg_state := StIAC\<rparr>, []) else (n, [b])
      | StIAC \<Rightarrow>
          if b = IAC then (n\<lparr>neg_state := StData\<rparr>, [IAC])
          else if b = DO \<or> b = DONT \<or> b = WILL \<or> b = WONT
            then (n\<lparr>pending := b, neg_state := StCmd\<rparr>, [])
          else if b = SB then (n\<lparr>sb := [], neg_state := StSB\<rparr>, [])
          else if b = GA then (n\<lparr>neg_state := StData\<rparr>, [])
          else (n\<lparr>neg_state := StData\<rparr>, [])
      | StCmd \<Rightarrow> ((handle_option (pending n) b n)\<lparr>neg_state := StData\<rparr>, [])
      | StSB \<Rightarrow> if b = IAC then (n\<lparr>neg_state := StSBIAC\<rparr>, []) else (n\<lparr>sb := sb n @ [b]\<rparr>, [])
      | StSBIAC \<Rightarrow>
          if b = SE then ((handle_subnegotiation (sb n) n)\<lparr>neg_state := StData\<rparr>, [])
          else if b = IAC then (n\<lparr>sb := sb n @ [IAC], neg_state := StSB\<rparr>, [])
          else (n\<lparr>sb := sb n @ [b], neg_state := StSB\<rparr>, []))"

fun feed :: "bytes \<Rightarrow> negotiator \<Rightarrow> negotiator \<times> bytes" where
  "feed [] n = (n, [])"
| "feed (b # p) n =
     (let (n1, out1) = step b n; (n2, out2) = feed p n1 in (n2, out1 @ out2))"

definition drain_reply :: "negotiator \<Rightarrow> negotiator \<times> bytes" where
  "drain_reply n = (n\<lparr>reply := []\<rparr>, reply n)"

section \<open>Window size\<close>

definition write_escaped_byte :: "byte \<Rightarrow> bytes" where
  "write_escaped_byte b = (if b = IAC then [b, IAC] else [b])"

definition write_escaped16 :: "16 word \<Rightarrow> bytes" where
  "write_escaped16 v = write_escaped_byte (ucast (drop_bit 8 v)) @ write_escaped_byte (ucast (v AND 0xFF))"

definition naws :: "16 word \<Rightarrow> 16 word \<Rightarrow> bytes" where
  "naws cols rows = [IAC, SB, OptNAWS] @ write_escaped16 cols @ write_escaped16 rows @ [IAC, SE]"

definition will_naws :: bytes where
  "will_naws = [IAC, WILL, OptNAWS]"

section \<open>What a stream means\<close>

text \<open>A telnet stream as a sequence of what it carries, and its wire form: application data, an
  option command, a subnegotiation, or a command of two bytes (GA, NOP, BRK, AYT and the like).\<close>

datatype segment = Data bytes | Command byte byte | Subneg bytes | Plain byte

definition escape :: "bytes \<Rightarrow> bytes" where
  "escape p = concat (map write_escaped_byte p)"

fun wire :: "segment \<Rightarrow> bytes" where
  "wire (Data p) = escape p"
| "wire (Command cmd opt) = [IAC, cmd, opt]"
| "wire (Subneg p) = [IAC, SB] @ escape p @ [IAC, SE]"
| "wire (Plain cmd) = [IAC, cmd]"

definition wf_segment :: "segment \<Rightarrow> bool" where
  "wf_segment s = (case s of
       Command cmd _ \<Rightarrow> cmd \<in> {DO, DONT, WILL, WONT}
     | Plain cmd \<Rightarrow> cmd \<notin> {IAC, DO, DONT, WILL, WONT, SB}
     | _ \<Rightarrow> True)"

fun segment_data :: "segment \<Rightarrow> bytes" where
  "segment_data (Data p) = p"
| "segment_data _ = []"

fun negotiate :: "segment list \<Rightarrow> negotiator \<Rightarrow> negotiator" where
  "negotiate [] n = n"
| "negotiate (Command cmd opt # ss) n = negotiate ss (handle_option cmd opt n)"
| "negotiate (_ # ss) n = negotiate ss n"

text \<open>Two negotiators agree when they agree on everything but the parser's scratch fields.\<close>

definition same_negotiation :: "negotiator \<Rightarrow> negotiator \<Rightarrow> bool" where
  "same_negotiation m n \<longleftrightarrow> neg_state m = neg_state n \<and> reply m = reply n \<and> remote_on m = remote_on n \<and>
     local_on m = local_on n \<and> local_ref m = local_ref n \<and> remote_ref m = remote_ref n"

lemma feed_append: "feed (p @ q) n = (let (n1, o1) = feed p n; (n2, o2) = feed q n1 in (n2, o1 @ o2))"
  by (induction p arbitrary: n) (auto simp: Let_def split: prod.splits)

lemmas neg_defs = send_reply_def mark_local_refused_def mark_remote_refused_def Let_def

lemma handle_do_frame [simp]:
  "neg_state (handle_do opt n) = neg_state n" "pending (handle_do opt n) = pending n" "sb (handle_do opt n) = sb n"
  by (simp_all add: handle_do_def neg_defs)

lemma handle_do_scratch:
  "handle_do opt (n\<lparr>pending := x\<rparr>) = (handle_do opt n)\<lparr>pending := x\<rparr>"
  "handle_do opt (n\<lparr>neg_state := st\<rparr>) = (handle_do opt n)\<lparr>neg_state := st\<rparr>"
  "handle_do opt (n\<lparr>sb := y\<rparr>) = (handle_do opt n)\<lparr>sb := y\<rparr>"
  by (simp_all add: handle_do_def neg_defs)

lemma handle_dont_frame [simp]:
  "neg_state (handle_dont opt n) = neg_state n" "pending (handle_dont opt n) = pending n" "sb (handle_dont opt n) = sb n"
  by (simp_all add: handle_dont_def neg_defs)

lemma handle_dont_scratch:
  "handle_dont opt (n\<lparr>pending := x\<rparr>) = (handle_dont opt n)\<lparr>pending := x\<rparr>"
  "handle_dont opt (n\<lparr>neg_state := st\<rparr>) = (handle_dont opt n)\<lparr>neg_state := st\<rparr>"
  "handle_dont opt (n\<lparr>sb := y\<rparr>) = (handle_dont opt n)\<lparr>sb := y\<rparr>"
  by (simp_all add: handle_dont_def neg_defs)

lemma handle_will_frame [simp]:
  "neg_state (handle_will opt n) = neg_state n" "pending (handle_will opt n) = pending n" "sb (handle_will opt n) = sb n"
  by (simp_all add: handle_will_def neg_defs)

lemma handle_will_scratch:
  "handle_will opt (n\<lparr>pending := x\<rparr>) = (handle_will opt n)\<lparr>pending := x\<rparr>"
  "handle_will opt (n\<lparr>neg_state := st\<rparr>) = (handle_will opt n)\<lparr>neg_state := st\<rparr>"
  "handle_will opt (n\<lparr>sb := y\<rparr>) = (handle_will opt n)\<lparr>sb := y\<rparr>"
  by (simp_all add: handle_will_def neg_defs)

lemma handle_wont_frame [simp]:
  "neg_state (handle_wont opt n) = neg_state n" "pending (handle_wont opt n) = pending n" "sb (handle_wont opt n) = sb n"
  by (simp_all add: handle_wont_def neg_defs)

lemma handle_wont_scratch:
  "handle_wont opt (n\<lparr>pending := x\<rparr>) = (handle_wont opt n)\<lparr>pending := x\<rparr>"
  "handle_wont opt (n\<lparr>neg_state := st\<rparr>) = (handle_wont opt n)\<lparr>neg_state := st\<rparr>"
  "handle_wont opt (n\<lparr>sb := y\<rparr>) = (handle_wont opt n)\<lparr>sb := y\<rparr>"
  by (simp_all add: handle_wont_def neg_defs)

lemma handle_option_frame [simp]:
  "neg_state (handle_option c opt n) = neg_state n" "pending (handle_option c opt n) = pending n"
  "sb (handle_option c opt n) = sb n"
  by (simp_all add: handle_option_def)

lemma handle_option_scratch:
  "handle_option c opt (n\<lparr>pending := x\<rparr>) = (handle_option c opt n)\<lparr>pending := x\<rparr>"
  "handle_option c opt (n\<lparr>neg_state := st\<rparr>) = (handle_option c opt n)\<lparr>neg_state := st\<rparr>"
  "handle_option c opt (n\<lparr>sb := y\<rparr>) = (handle_option c opt n)\<lparr>sb := y\<rparr>"
  by (simp_all add: handle_option_def handle_do_scratch handle_dont_scratch
      handle_will_scratch handle_wont_scratch)

lemma feed_escape_data: "neg_state n = StData \<Longrightarrow> feed (escape p) n = (n, p)"
proof (induction p arbitrary: n)
  case (Cons b p)
  have n: "n\<lparr>neg_state := StData\<rparr> = n" using Cons.prems by simp
  have "feed (write_escaped_byte b) n = (n, [b])"
    using Cons.prems n by (simp add: write_escaped_byte_def step_def)
  then show ?case using Cons by (simp add: escape_def feed_append)
qed (simp add: escape_def)

lemma feed_escape_sb:
  "neg_state n = StSB \<Longrightarrow> feed (escape p) n = (n\<lparr>sb := sb n @ p\<rparr>, [])"
proof (induction p arbitrary: n)
  case (Cons b p)
  have "n\<lparr>sb := sb n @ [IAC], neg_state := StSB\<rparr> = n\<lparr>sb := sb n @ [IAC]\<rparr>" using Cons.prems by simp
  then have "feed (write_escaped_byte b) n = (n\<lparr>sb := sb n @ [b]\<rparr>, [])"
    using Cons.prems by (simp add: write_escaped_byte_def step_def IAC_def SE_def)
  then show ?case using Cons by (simp add: escape_def feed_append)
qed (simp add: escape_def)

lemma same_negotiation_iff: "same_negotiation m n \<longleftrightarrow> m = n\<lparr>pending := pending m, sb := sb m\<rparr>"
  by (cases m; cases n) (auto simp: same_negotiation_def)

lemma same_negotiation_handle:
  assumes "same_negotiation m n"
  shows "same_negotiation (handle_option c opt m) (handle_option c opt n)"
proof -
  have "handle_option c opt m = (handle_option c opt n)\<lparr>pending := pending m, sb := sb m\<rparr>"
    using assms unfolding same_negotiation_iff by (metis handle_option_scratch(1,3))
  then show ?thesis by (simp add: same_negotiation_def)
qed

lemma feed_wire:
  assumes "wf_segment s" and "neg_state n = StData"
  shows "\<exists>n'. feed (wire s) n = (n', segment_data s) \<and> same_negotiation n' (negotiate [s] n)"
proof (cases s)
  case (Data p)
  then show ?thesis using assms by (simp add: feed_escape_data same_negotiation_def)
next
  case (Command cmd opt)
  then have cmd: "cmd = DO \<or> cmd = DONT \<or> cmd = WILL \<or> cmd = WONT"
    using assms(1) by (auto simp: wf_segment_def)
  then have "cmd \<noteq> IAC" by (auto simp: telnet_bytes)
  then have "feed (wire s) n =
      ((handle_option cmd opt (n\<lparr>pending := cmd, neg_state := StCmd\<rparr>))\<lparr>neg_state := StData\<rparr>, [])"
    using Command cmd assms(2) by (simp add: step_def)
  moreover have "same_negotiation ((handle_option cmd opt (n\<lparr>pending := cmd, neg_state := StCmd\<rparr>))
      \<lparr>neg_state := StData\<rparr>) (handle_option cmd opt n)"
    using assms(2) by (simp add: handle_option_scratch same_negotiation_def)
  ultimately show ?thesis using Command by simp
next
  case (Subneg p)
  have "SB \<noteq> IAC" "SB \<noteq> DO" "SB \<noteq> DONT" "SB \<noteq> WILL" "SB \<noteq> WONT" by (simp_all add: telnet_bytes)
  then have "feed (wire s) n = (n\<lparr>neg_state := StData, sb := p\<rparr>, [])"
    using Subneg assms(2) by (simp add: step_def feed_append feed_escape_sb handle_subnegotiation_def)
  then show ?thesis using Subneg assms(2) by (simp add: same_negotiation_def)
next
  case (Plain cmd)
  then have "cmd \<noteq> IAC" "cmd \<noteq> DO" "cmd \<noteq> DONT" "cmd \<noteq> WILL" "cmd \<noteq> WONT" "cmd \<noteq> SB"
    using assms(1) by (auto simp: wf_segment_def)
  then show ?thesis using Plain assms(2) by (simp add: step_def same_negotiation_def)
qed

lemma same_negotiation_refl [simp]: "same_negotiation n n"
  by (simp add: same_negotiation_def)

lemma same_negotiation_trans: "same_negotiation a b \<Longrightarrow> same_negotiation b c \<Longrightarrow> same_negotiation a c"
  by (simp add: same_negotiation_def)

lemma same_negotiation_negotiate:
  "same_negotiation m n \<Longrightarrow> same_negotiation (negotiate ss m) (negotiate ss n)"
  by (induction ss n arbitrary: m rule: negotiate.induct) (auto intro: same_negotiation_handle)

lemma negotiate_Cons: "negotiate (s # ss) n = negotiate ss (negotiate [s] n)"
  by (cases s) simp_all

lemma negotiate_single_state: "neg_state (negotiate [s] n) = neg_state n"
  by (cases s) simp_all

section \<open>Two negotiators face to face\<close>

type_synonym command = "byte \<times> byte"

fun reply_commands :: "bytes \<Rightarrow> command list" where
  "reply_commands (_ # c # opt # r) = (c, opt) # reply_commands r"
| "reply_commands _ = []"

text \<open>One option command reaching a negotiator whose reply buffer is drained right after.\<close>

definition respond :: "command \<Rightarrow> negotiator \<Rightarrow> negotiator \<times> command list" where
  "respond c n = (let n1 = handle_option (fst c) (snd c) n
     in (fst (drain_reply n1), reply_commands (snd (drain_reply n1))))"

record wired =
  side_a :: negotiator
  side_b :: negotiator
  to_a :: "command list"
  to_b :: "command list"

inductive exchange :: "wired \<Rightarrow> wired \<Rightarrow> bool" where
  deliver_a: "to_a w = c # rest \<Longrightarrow> respond c (side_a w) = (n, rs) \<Longrightarrow>
     exchange w (w\<lparr>side_a := n, to_a := rest, to_b := to_b w @ rs\<rparr>)"
| deliver_b: "to_b w = c # rest \<Longrightarrow> respond c (side_b w) = (n, rs) \<Longrightarrow>
     exchange w (w\<lparr>side_b := n, to_b := rest, to_a := to_a w @ rs\<rparr>)"

inductive_cases exchangeE: "exchange w w'"

text \<open>Only a negative SGA command (DONT or WONT) can undo an agreed option for good.\<close>

definition negative_sga :: "command \<Rightarrow> bool" where
  "negative_sga c \<longleftrightarrow> fst c \<in> {DONT, WONT} \<and> snd c = OptSGA"

definition no_negative_sga :: "wired \<Rightarrow> bool" where
  "no_negative_sga w \<longleftrightarrow> (\<forall>c \<in> set (to_a w) \<union> set (to_b w). \<not> negative_sga c) \<and>
     reply (side_a w) = [] \<and> reply (side_b w) = [] \<and>
     (\<forall>opt. local_on (side_a w) opt \<longrightarrow> opt = OptSGA) \<and> (\<forall>opt. local_on (side_b w) opt \<longrightarrow> opt = OptSGA)"

text \<open>What a side can still say on its own behalf: one answer for every option.\<close>

definition local_budget :: "negotiator \<Rightarrow> nat" where
  "local_budget n = card {opt. opt \<noteq> OptSGA \<and> \<not> local_ref n opt} + (if local_on n OptSGA then 0 else 1)"

definition command_weight :: "command \<Rightarrow> nat" where
  "command_weight c = (if fst c = WILL \<or> fst c = WONT then 2 else 1)"

definition potential :: "wired \<Rightarrow> nat" where
  "potential w = sum_list (map command_weight (to_a w)) + sum_list (map command_weight (to_b w))
     + 3 * (local_budget (side_a w) + local_budget (side_b w))"

lemma local_budget_refuse:
  assumes "opt \<noteq> OptSGA" "\<not> local_ref n opt"
    and "local_ref m = (local_ref n)(opt := True)" "local_on m = local_on n"
  shows "local_budget n = Suc (local_budget m)"
proof -
  define S where "S = {x. x \<noteq> OptSGA \<and> \<not> local_ref n x}"
  have "{x. x \<noteq> OptSGA \<and> \<not> local_ref m x} = S - {opt}"
    using assms(3) by (auto simp: S_def)
  moreover have "opt \<in> S" using assms by (simp add: S_def)
  then have "card S = Suc (card (S - {opt}))" by (rule card.remove [OF finite])
  ultimately show ?thesis using assms(4) by (simp add: local_budget_def S_def)
qed

lemma local_budget_frame:
  "local_ref m = local_ref n \<Longrightarrow> local_on m = local_on n \<Longrightarrow> local_budget m = local_budget n"
  by (simp add: local_budget_def)

text \<open>Answering one command pays for its answer.\<close>

definition pays :: "command \<Rightarrow> negotiator \<Rightarrow> negotiator \<times> command list \<Rightarrow> bool" where
  "pays c n r \<longleftrightarrow>
     sum_list (map command_weight (snd r)) + 3 * local_budget (fst r) < command_weight c + 3 * local_budget n
     \<and> (\<forall>x \<in> set (snd r). \<not> negative_sga x) \<and> reply (fst r) = []
     \<and> (\<forall>opt. local_on (fst r) opt \<longrightarrow> opt = OptSGA)"

lemmas command_neqs = telnet_bytes

lemma pays_silent:
  assumes "reply n = []" "\<forall>opt. local_on n opt \<longrightarrow> opt = OptSGA"
  shows "pays c n (n, [])"
  using assms by (simp add: pays_def command_weight_def)

lemma drained_self: "reply n = [] \<Longrightarrow> n\<lparr>reply := []\<rparr> = n"
  by simp

lemma pays_do:
  assumes "reply n = []" "\<forall>opt. local_on n opt \<longrightarrow> opt = OptSGA"
  shows "pays (DO, opt) n (respond (DO, opt) n)"
proof (cases "opt = OptSGA")
  case True
  show ?thesis
  proof (cases "local_on n OptSGA")
    case True
    then have "respond (DO, opt) n = (n, [])"
      using \<open>opt = OptSGA\<close> assms(1)
      by (simp add: respond_def drain_reply_def handle_option_def handle_do_def)
    then show ?thesis using pays_silent assms by simp
  next
    case False
    then have "respond (DO, opt) n = (n\<lparr>local_on := (local_on n)(OptSGA := True)\<rparr>, [(WILL, OptSGA)])"
      using \<open>opt = OptSGA\<close> assms(1)
      by (simp add: respond_def drain_reply_def handle_option_def handle_do_def send_reply_def Let_def)
    then show ?thesis using False assms
      by (simp add: pays_def command_weight_def local_budget_def negative_sga_def telnet_bytes)
  qed
next
  case False
  then have off: "\<not> local_on n opt" using assms(2) by blast
  show ?thesis
  proof (cases "local_ref n opt")
    case True
    then have "respond (DO, opt) n = (n, [])"
      using False off assms(1)
      by (simp add: respond_def drain_reply_def handle_option_def handle_do_def Let_def)
    then show ?thesis using pays_silent assms by simp
  next
    case nref: False
    define m where "m = n\<lparr>local_ref := (local_ref n)(opt := True)\<rparr>"
    have "respond (DO, opt) n = (m, [(WONT, opt)])"
      using False off nref assms(1)
      by (simp add: respond_def drain_reply_def handle_option_def handle_do_def neg_defs m_def)
    moreover have "local_budget n = Suc (local_budget m)"
      by (rule local_budget_refuse [OF False nref]) (simp_all add: m_def)
    ultimately show ?thesis using False assms
      by (simp add: pays_def command_weight_def negative_sga_def m_def telnet_bytes)
  qed
qed

lemma pays_dont:
  assumes "reply n = []" "\<forall>opt. local_on n opt \<longrightarrow> opt = OptSGA" "opt \<noteq> OptSGA"
  shows "pays (DONT, opt) n (respond (DONT, opt) n)"
proof -
  have off: "\<not> local_on n opt" using assms by blast
  have d: "DONT \<noteq> DO" by (simp add: telnet_bytes)
  show ?thesis
  proof (cases "local_ref n opt")
    case True
    then have "respond (DONT, opt) n = (n, [])"
      using off d assms(1) by (simp add: respond_def drain_reply_def handle_option_def handle_dont_def)
    then show ?thesis using pays_silent assms by simp
  next
    case nref: False
    define m where "m = n\<lparr>local_ref := (local_ref n)(opt := True)\<rparr>"
    have "respond (DONT, opt) n = (m, [(WONT, opt)])"
      using off nref d assms(1)
      by (simp add: respond_def drain_reply_def handle_option_def handle_dont_def neg_defs m_def)
    moreover have "local_budget n = Suc (local_budget m)"
      by (rule local_budget_refuse [OF assms(3) nref]) (simp_all add: m_def)
    ultimately show ?thesis using assms
      by (simp add: pays_def command_weight_def negative_sga_def m_def telnet_bytes)
  qed
qed

text \<open>The remote half only ever answers with DO, or with DONT for an option other than SGA.\<close>

lemma remote_frame:
  "local_ref (handle_will opt n) = local_ref n" "local_on (handle_will opt n) = local_on n"
  "local_ref (handle_wont opt n) = local_ref n" "local_on (handle_wont opt n) = local_on n"
  by (simp_all add: handle_will_def handle_wont_def neg_defs)

lemma remote_reply:
  "reply (handle_will opt n) \<in> {reply n, reply n @ [IAC, DO, opt]}
     \<union> (if opt = OptSGA then {} else {reply n @ [IAC, DONT, opt]})"
  "reply (handle_wont opt n) \<in> {reply n, reply n @ [IAC, DONT, opt]}"
  by (simp_all add: handle_will_def handle_wont_def neg_defs)

lemma pays_remote:
  assumes "reply n = []" "\<forall>opt. local_on n opt \<longrightarrow> opt = OptSGA"
    and "cmd = WILL \<or> cmd = WONT \<and> opt \<noteq> OptSGA"
  shows "pays (cmd, opt) n (respond (cmd, opt) n)"
proof -
  define h where "h = handle_option cmd opt n"
  have h: "h = handle_will opt n \<or> opt \<noteq> OptSGA \<and> h = handle_wont opt n"
    using assms(3) by (auto simp: h_def handle_option_def telnet_bytes)
  have r: "respond (cmd, opt) n = (h\<lparr>reply := []\<rparr>, reply_commands (reply h))"
    by (simp add: respond_def drain_reply_def h_def Let_def)
  have f: "local_ref h = local_ref n" "local_on h = local_on n"
    using h remote_frame by auto
  have b: "local_budget (h\<lparr>reply := []\<rparr>) = local_budget n"
    by (rule local_budget_frame) (simp_all add: f)
  have "reply h \<in> {[], [IAC, DO, opt]} \<union> (if opt = OptSGA then {} else {[IAC, DONT, opt]})"
    using h remote_reply [of opt n] assms(1) by auto
  then have rs: "reply_commands (reply h) \<in> {[], [(DO, opt)]} \<union> (if opt = OptSGA then {} else {[(DONT, opt)]})"
    by (auto split: if_splits)
  have w: "command_weight (cmd, opt) = 2" using assms(3) by (auto simp: command_weight_def)
  have w1: "command_weight (DO, x) = 1" "command_weight (DONT, x) = 1" for x
    by (simp_all add: command_weight_def telnet_bytes)
  have ng: "\<not> negative_sga (DO, opt)" "opt \<noteq> OptSGA \<Longrightarrow> \<not> negative_sga (DONT, opt)"
    by (simp_all add: negative_sga_def telnet_bytes)
  show ?thesis
    using rs ng assms(2) unfolding pays_def r by (auto simp: b w w1 f split: if_splits)
qed

lemma respond_pays:
  assumes "reply n = []" "\<forall>opt. local_on n opt \<longrightarrow> opt = OptSGA" "\<not> negative_sga c"
  shows "pays c n (respond c n)"
proof -
  obtain cmd opt where c: "c = (cmd, opt)" by (cases c)
  consider "cmd = DO" | "cmd = DONT" "opt \<noteq> OptSGA" | "cmd = WILL \<or> cmd = WONT \<and> opt \<noteq> OptSGA"
    | "cmd \<notin> {DO, DONT, WILL, WONT}"
    using assms(3) c by (auto simp: negative_sga_def)
  then show ?thesis
  proof cases
    case 4
    then have "respond c n = (n, [])"
      using assms(1) by (simp add: c respond_def drain_reply_def handle_option_def)
    then show ?thesis using pays_silent assms by simp
  qed (use assms c pays_do pays_dont pays_remote in auto)
qed

lemma exchange_decreases:
  assumes "exchange w w'" and "no_negative_sga w"
  shows "potential w' < potential w \<and> no_negative_sga w'"
  using assms
proof (induction rule: exchange.induct)
  case (deliver_a w c rest n rs)
  have "pays c (side_a w) (respond c (side_a w))"
    using deliver_a by (intro respond_pays) (auto simp: no_negative_sga_def)
  then show ?case using deliver_a by (auto simp: pays_def potential_def no_negative_sga_def)
next
  case (deliver_b w c rest n rs)
  have "pays c (side_b w) (respond c (side_b w))"
    using deliver_b by (intro respond_pays) (auto simp: no_negative_sga_def)
  then show ?case using deliver_b by (auto simp: pays_def potential_def no_negative_sga_def)
qed

lemma exchange_run_bound:
  "(exchange ^^ k) w w' \<Longrightarrow> no_negative_sga w \<Longrightarrow> k + potential w' \<le> potential w \<and> no_negative_sga w'"
proof (induction k arbitrary: w')
  case (Suc k)
  then obtain v where v: "(exchange ^^ k) w v" "exchange v w'" by auto
  with Suc exchange_decreases [OF v(2)] show ?case by fastforce
qed simp

section \<open>Properties\<close>

text \<open>C28. Feed understands every well-formed telnet stream: it outputs exactly the application
  data, unescaped and in order, ends between segments, and has taken the option commands of
  the stream in order and nothing else; subnegotiations and the two-byte commands (GA, NOP, BRK, AYT
  and every other command that takes no option) leave no trace.\<close>

theorem feed_decodes_stream:
  assumes "\<forall>s \<in> set ss. wf_segment s" and "neg_state n = StData"
  shows "\<exists>n'. feed (concat (map wire ss)) n = (n', concat (map segment_data ss)) \<and>
     same_negotiation n' (negotiate ss n)"
  using assms
proof (induction ss arbitrary: n)
  case (Cons s ss)
  obtain m where m: "feed (wire s) n = (m, segment_data s)" "same_negotiation m (negotiate [s] n)"
    using feed_wire Cons.prems by (metis list.set_intros(1))
  have "neg_state m = StData"
    using m(2) Cons.prems(2) by (simp add: same_negotiation_def negotiate_single_state)
  with Cons obtain k where k: "feed (concat (map wire ss)) m = (k, concat (map segment_data ss))"
    "same_negotiation k (negotiate ss m)"
    by (metis list.set_intros(2))
  have "same_negotiation k (negotiate (s # ss) n)"
    unfolding negotiate_Cons [of s ss n]
    by (rule same_negotiation_trans [OF k(2) same_negotiation_negotiate [OF m(2)]])
  then show ?case using m(1) k(1) by (auto simp: feed_append)
qed simp

lemma feed_decodes_stream_witness:
  "\<exists>n'. feed (concat (map wire [Data [104, 255], Command DO OptSGA, Subneg [31, 255], Plain 246, Data [105]])) new_negotiator
      = (n', [104, 255, 105]) \<and> local_on n' OptSGA"
  using feed_decodes_stream [of "[Data [104, 255], Command DO OptSGA, Subneg [31, 255], Plain 246, Data [105]]" new_negotiator]
  by (auto simp: wf_segment_def telnet_bytes new_negotiator_def same_negotiation_def handle_option_def handle_do_def
      send_reply_def)

text \<open>The window-size message is one well-formed subnegotiation of NAWS, whose five payload
  bytes are the option and the two dimensions in network order, whatever their value.\<close>

theorem naws_is_subnegotiation:
  "naws cols rows = wire (Subneg (OptNAWS # put_be16 cols @ put_be16 rows))"
proof -
  have m: "(0xFF :: 16 word) = mask 8" by (simp add: mask_eq_exp_minus_1)
  have "(ucast (v AND 0xFF) :: byte) = ucast v" for v :: "16 word"
    unfolding m by (rule bit_word_eqI) (auto simp: bit_simps)
  moreover have "OptNAWS \<noteq> IAC" by (simp add: telnet_bytes)
  ultimately show ?thesis
    by (simp add: naws_def escape_def write_escaped16_def put_be16_def write_escaped_byte_def)
qed

text \<open>C29. Negotiation terminates: while no DONT SGA or WONT SGA is in flight, every exchange
  between two negotiators stops after a number of deliveries bounded by their potential, and
  none ever appears.\<close>

theorem negotiation_quiesces:
  assumes "no_negative_sga w" and "(exchange ^^ k) w w'"
  shows "k \<le> potential w \<and> no_negative_sga w'"
  using exchange_run_bound [OF assms(2,1)] by linarith

definition preamble_exchange :: wired where
  "preamble_exchange = \<lparr> side_a = new_negotiator, side_b = new_negotiator,
     to_a = [(WILL, OptNAWS)], to_b = [(WILL, OptEcho), (WILL, OptSGA)] \<rparr>"

lemma negotiation_quiesces_witness:
  "0 \<le> potential preamble_exchange \<and> no_negative_sga preamble_exchange"
proof (rule negotiation_quiesces [where k = 0 and w = preamble_exchange])
  show "no_negative_sga preamble_exchange"
    by (simp add: preamble_exchange_def no_negative_sga_def negative_sga_def new_negotiator_def telnet_bytes)
qed simp

definition sga_toggle :: wired where
  "sga_toggle = \<lparr> side_a = new_negotiator, side_b = new_negotiator,
     to_a = [(DO, OptSGA), (DONT, OptSGA)], to_b = [] \<rparr>"

text \<open>Without that condition it does not: two fresh negotiators between which a DO SGA and
  a DONT SGA are in flight are, four deliveries later, in exactly the same situation.\<close>

theorem negotiation_can_livelock: "(exchange ^^ 4) sga_toggle sga_toggle"
proof -
  define on where "on = new_negotiator\<lparr>local_on := (\<lambda>_. False)(OptSGA := True)\<rparr>"
  define ron where "ron = new_negotiator\<lparr>remote_on := (\<lambda>_. False)(OptSGA := True)\<rparr>"
  define n where "n = new_negotiator"
  have off: "(\<lambda>_. False)(x := False) = (\<lambda>_ :: byte. False)" for x by auto
  have r: "respond (DO, OptSGA) n = (on, [(WILL, OptSGA)])"
    "respond (DONT, OptSGA) on = (n, [(WONT, OptSGA)])"
    "respond (WILL, OptSGA) n = (ron, [(DO, OptSGA)])"
    "respond (WONT, OptSGA) ron = (n, [(DONT, OptSGA)])"
    by (simp_all add: respond_def drain_reply_def handle_option_def handle_do_def handle_dont_def
        handle_will_def handle_wont_def send_reply_def Let_def on_def ron_def n_def new_negotiator_def
        off telnet_bytes)
  define w1 where "w1 = \<lparr> side_a = on, side_b = n, to_a = [(DONT, OptSGA)], to_b = [(WILL, OptSGA)] \<rparr>"
  define w2 where "w2 = \<lparr> side_a = n, side_b = n, to_a = [], to_b = [(WILL, OptSGA), (WONT, OptSGA)] \<rparr>"
  define w3 where "w3 = \<lparr> side_a = n, side_b = ron, to_a = [(DO, OptSGA)], to_b = [(WONT, OptSGA)] \<rparr>"
  have "exchange sga_toggle w1"
    using deliver_a [of sga_toggle "(DO, OptSGA)" "[(DONT, OptSGA)]" on "[(WILL, OptSGA)]"] r(1)
    by (simp add: sga_toggle_def w1_def n_def)
  moreover have "exchange w1 w2"
    using deliver_a [of w1 "(DONT, OptSGA)" "[]" n "[(WONT, OptSGA)]"] r(2) by (simp add: w1_def w2_def)
  moreover have "exchange w2 w3"
    using deliver_b [of w2 "(WILL, OptSGA)" "[(WONT, OptSGA)]" ron "[(DO, OptSGA)]"] r(3)
    by (simp add: w2_def w3_def)
  moreover have "exchange w3 sga_toggle"
    using deliver_b [of w3 "(WONT, OptSGA)" "[]" n "[(DONT, OptSGA)]"] r(4)
    by (simp add: w3_def sga_toggle_def n_def)
  ultimately show ?thesis by (auto simp: eval_nat_numeral)
qed

end
