(* ===== verification/Console_Input.thy ===== *)
theory Console_Input
  imports Telnet
begin

text \<open>
  Package internal/node, console_hub.go, the input half: the exclusive input turn of a
  node's console, the gated interactive writes, the turn holder's own writes, the release
  that drains the queue, and the line-ending filter of native telnet clients.

  Every operation holds the hub's input mutex, so it is atomic here.  A write to the pty
  either takes everything (None) or fails after some bytes (Some k).  The pty is the list
  of the writes it took, each with who made it; that label and the set of the turn handles
  whose release has run (the sync.Once of claimTurn) are bookkeeping, not program state the
  code branches on, except that a handle's release runs once.
\<close>

section \<open>The turn\<close>

definition turn_queue_cap :: nat where
  "turn_queue_cap = 256"

record input_turn =
  active :: bool
  holder :: string
  turn_id :: nat
  queue :: "bytes list"

definition claim :: "string \<Rightarrow> input_turn \<Rightarrow> bool \<times> input_turn" where
  "claim h t =
     (if active t then (False, t)
      else (True, t\<lparr>active := True, holder := h, turn_id := turn_id t + 1\<rparr>))"

definition enqueue :: "bytes \<Rightarrow> input_turn \<Rightarrow> input_turn" where
  "enqueue p t = (let q = queue t @ [p] in t\<lparr>queue := drop (length q - turn_queue_cap) q\<rparr>)"

definition release :: "input_turn \<Rightarrow> bytes list \<times> input_turn" where
  "release t =
     (if \<not> active t then ([], t)
      else (queue t, t\<lparr>active := False, holder := [], queue := []\<rparr>))"

section \<open>The hub's writers\<close>

datatype writer = Interactive | Turn nat

record hub_input =
  turn :: input_turn
  pty :: "(writer \<times> bytes) list"
  hub_done :: bool
  fired :: "nat set"

datatype hub_error = HubClosed | TurnExpired | WriteFailed | CtxDone

type_synonym outcome = "nat option"

definition write_pty :: "writer \<Rightarrow> bytes \<Rightarrow> outcome \<Rightarrow> hub_input \<Rightarrow> hub_error option \<times> hub_input" where
  "write_pty w p oc h =
     (case oc of
        None \<Rightarrow> (None, h\<lparr>pty := pty h @ [(w, p)]\<rparr>)
      | Some k \<Rightarrow> (Some WriteFailed, h\<lparr>pty := pty h @ [(w, take k p)]\<rparr>))"

definition gated_write :: "bytes \<Rightarrow> outcome \<Rightarrow> hub_input \<Rightarrow> hub_error option \<times> hub_input" where
  "gated_write p oc h =
     (if p = [] then (None, h)
      else if hub_done h then (Some HubClosed, h)
      else if active (turn h) then (None, h\<lparr>turn := enqueue p (turn h)\<rparr>)
      else write_pty Interactive p oc h)"

definition write_turn :: "nat \<Rightarrow> bytes \<Rightarrow> bool \<Rightarrow> outcome \<Rightarrow> hub_input \<Rightarrow> hub_error option \<times> hub_input" where
  "write_turn i p ctx_done oc h =
     (if ctx_done then (Some CtxDone, h)
      else if hub_done h then (Some HubClosed, h)
      else if \<not> active (turn h) \<or> turn_id (turn h) \<noteq> i then (Some TurnExpired, h)
      else write_pty (Turn i) p oc h)"

text \<open>One attempt of claimTurn's loop: the id of the turn if it was claimed.\<close>

definition claim_turn :: "string \<Rightarrow> hub_input \<Rightarrow> nat option \<times> hub_input" where
  "claim_turn hd_name h =
     (if hub_done h then (None, h)
      else let (ok, t) = claim hd_name (turn h)
           in (if ok then Some (turn_id t) else None, h\<lparr>turn := t\<rparr>))"

text \<open>The drain: it stops at the first write that fails, and when the hub is done.\<close>

fun drain_queue :: "outcome list \<Rightarrow> bytes list \<Rightarrow> hub_input \<Rightarrow> hub_input" where
  "drain_queue ocs [] h = h"
| "drain_queue ocs (p # ps) h =
     (if hub_done h then h
      else let oc = (case ocs of [] \<Rightarrow> None | c # _ \<Rightarrow> c)
           in case write_pty Interactive p oc h of
                (Some _, h1) \<Rightarrow> h1
              | (None, h1) \<Rightarrow> drain_queue (tl ocs) ps h1)"

definition release_turn :: "bool \<Rightarrow> outcome list \<Rightarrow> hub_input \<Rightarrow> nat \<times> hub_input" where
  "release_turn flush ocs h =
     (let (queued, t) = release (turn h);
          h1 = h\<lparr>turn := t\<rparr>
      in (length queued, if flush then drain_queue ocs queued h1 else h1))"

text \<open>The release function of the handle i, the caller's or the watchdog's: sync.Once runs
  it at most once.\<close>

definition release_handle :: "nat \<Rightarrow> bool \<Rightarrow> outcome list \<Rightarrow> hub_input \<Rightarrow> hub_input" where
  "release_handle i flush ocs h =
     (if i \<in> fired h then h
      else (snd (release_turn flush ocs h))\<lparr>fired := insert i (fired h)\<rparr>)"

section \<open>Line endings\<close>

fun normalize_nvt :: "bytes \<Rightarrow> bool \<Rightarrow> bytes \<times> bool" where
  "normalize_nvt [] cr_pending = ([], cr_pending)"
| "normalize_nvt (b # bs) cr_pending =
     (if cr_pending \<and> (b = 10 \<or> b = 0) then normalize_nvt bs False
      else let (out, cr') = normalize_nvt bs (b = 13) in (b # out, cr'))"

section \<open>A native client's reader\<close>

text \<open>What one read of the TCP stream does: the negotiator takes the bytes, its reply goes to
  the client's own output queue, the rest is normalised and written through the gate.\<close>

record tcp_reader =
  neg :: negotiator
  cr_pending :: bool

definition read_step ::
  "bytes \<Rightarrow> outcome \<Rightarrow> tcp_reader \<Rightarrow> hub_input \<Rightarrow> bytes \<times> tcp_reader \<times> hub_error option \<times> hub_input" where
  "read_step buf oc r h =
     (let (n1, clean) = feed buf (neg r);
          (n2, rep) = drain_reply n1;
          (clean2, cr) = normalize_nvt clean (cr_pending r);
          (err, h1) = (if clean2 = [] then (None, h) else gated_write clean2 oc h)
      in (rep, \<lparr> neg = n2, cr_pending = cr \<rparr>, err, h1))"

section \<open>Histories\<close>

datatype hub_op =
    Type bytes outcome
  | Claim string
  | Script nat bytes bool outcome
  | Release nat bool "outcome list"
  | Close

fun hub_step :: "hub_op \<Rightarrow> hub_input \<Rightarrow> hub_input" where
  "hub_step (Type p oc) h = snd (gated_write p oc h)"
| "hub_step (Claim s) h = snd (claim_turn s h)"
| "hub_step (Script i p c oc) h = snd (write_turn i p c oc h)"
| "hub_step (Release i fl ocs) h = (if 1 \<le> i \<and> i \<le> turn_id (turn h) then release_handle i fl ocs h else h)"
| "hub_step Close h = h\<lparr>hub_done := True\<rparr>"

fun hub_run :: "hub_op list \<Rightarrow> hub_input \<Rightarrow> hub_input" where
  "hub_run [] h = h"
| "hub_run (op # ops) h = hub_run ops (hub_step op h)"

definition new_hub_input :: hub_input where
  "new_hub_input = \<lparr> turn = \<lparr> active = False, holder = [], turn_id = 0, queue = [] \<rparr>, pty = [],
     hub_done = False, fired = {} \<rparr>"

definition hub_inv :: "hub_input \<Rightarrow> bool" where
  "hub_inv h \<longleftrightarrow> (\<not> active (turn h) \<longrightarrow> queue (turn h) = []) \<and> length (queue (turn h)) \<le> turn_queue_cap \<and>
     (\<forall>i. 1 \<le> i \<and> i \<le> turn_id (turn h) \<and> i \<notin> fired h \<longleftrightarrow> active (turn h) \<and> i = turn_id (turn h)) \<and>
     (\<forall>i \<in> fired h. i \<le> turn_id (turn h))"

definition interactive :: "hub_input \<Rightarrow> bytes" where
  "interactive h = concat (map snd (filter (\<lambda>w. fst w = Interactive) (pty h)))"

fun typed :: "hub_op list \<Rightarrow> bytes" where
  "typed [] = []"
| "typed (Type p oc # ops) = p @ typed ops"
| "typed (_ # ops) = typed ops"

text \<open>The ideal conditions of the documentation: writes succeed, releases drain, the hub stays
  open, and no more chunks are typed during one turn than the queue holds.\<close>

fun op_ok :: "hub_op \<Rightarrow> bool" where
  "op_ok (Type p oc) = (oc = None)"
| "op_ok (Claim s) = True"
| "op_ok (Script i p c oc) = True"
| "op_ok (Release i fl ocs) = (fl \<and> (\<forall>oc \<in> set ocs. oc = None))"
| "op_ok Close = False"

fun no_overflow :: "hub_op list \<Rightarrow> hub_input \<Rightarrow> bool" where
  "no_overflow [] h = True"
| "no_overflow (op # ops) h =
     ((case op of Type p oc \<Rightarrow> active (turn h) \<longrightarrow> length (queue (turn h)) < turn_queue_cap | _ \<Rightarrow> True)
      \<and> no_overflow ops (hub_step op h))"

section \<open>Lemmas\<close>

lemma write_pty_frame [simp]:
  "turn (snd (write_pty w p oc h)) = turn h" "hub_done (snd (write_pty w p oc h)) = hub_done h"
  "fired (snd (write_pty w p oc h)) = fired h"
  by (simp_all add: write_pty_def split: option.split)

lemma drain_queue_frame [simp]:
  "turn (drain_queue ocs ps h) = turn h" "hub_done (drain_queue ocs ps h) = hub_done h"
  "fired (drain_queue ocs ps h) = fired h"
proof (induction ocs ps h rule: drain_queue.induct)
  case (2 ocs p ps h)
  let ?oc = "case ocs of [] \<Rightarrow> None | c # _ \<Rightarrow> c"
  obtain e h1 where w: "write_pty Interactive p ?oc h = (e, h1)" by fastforce
  have f: "turn h1 = turn h" "hub_done h1 = hub_done h" "fired h1 = fired h"
    using write_pty_frame [of Interactive p ?oc h] by (simp_all add: w)
  case 1
  show ?case using "2.IH"(1) [OF _ refl w [symmetric]] f w by (cases e) (simp_all add: Let_def)
  case 2
  show ?case using "2.IH"(2) [OF _ refl w [symmetric]] f w by (cases e) (simp_all add: Let_def)
  case 3
  show ?case using "2.IH"(3) [OF _ refl w [symmetric]] f w by (cases e) (simp_all add: Let_def)
qed simp_all

lemma release_turn_frame:
  "turn (snd (release_turn fl ocs h)) = snd (release (turn h))"
  "hub_done (snd (release_turn fl ocs h)) = hub_done h"
  "fired (snd (release_turn fl ocs h)) = fired h"
  by (simp_all add: release_turn_def split_beta Let_def)

lemma enqueue_simps [simp]:
  "active (enqueue p t) = active t" "turn_id (enqueue p t) = turn_id t"
  "length (queue (enqueue p t)) \<le> turn_queue_cap"
  by (simp_all add: enqueue_def Let_def)

lemma hub_inv_type: "hub_inv h \<Longrightarrow> hub_inv (snd (gated_write p oc h))"
  by (auto simp: hub_inv_def gated_write_def)

lemma hub_inv_script: "hub_inv h \<Longrightarrow> hub_inv (snd (write_turn i p c oc h))"
  by (auto simp: hub_inv_def write_turn_def)

lemma hub_inv_claim:
  assumes "hub_inv h" shows "hub_inv (snd (claim_turn s h))"
proof (cases "hub_done h \<or> active (turn h)")
  case True
  then show ?thesis using assms by (auto simp: claim_turn_def claim_def Let_def)
next
  case False
  have "(1 \<le> i \<and> i \<le> Suc (turn_id (turn h)) \<and> i \<notin> fired h) = (i = Suc (turn_id (turn h)))" for i
    using assms False by (auto simp: hub_inv_def le_Suc_eq)
  then show ?thesis using assms False by (auto simp: hub_inv_def claim_turn_def claim_def Let_def)
qed

text \<open>The release of a turn handle that has not run yet is the release of the active turn.\<close>

lemma unfired_is_current:
  assumes "hub_inv h" "1 \<le> i" "i \<le> turn_id (turn h)" "i \<notin> fired h"
  shows "active (turn h)" "i = turn_id (turn h)"
  using assms by (auto simp: hub_inv_def)

lemma release_handle_turn:
  "i \<notin> fired h \<Longrightarrow> turn (release_handle i fl ocs h) = snd (release (turn h))"
  "fired (release_handle i fl ocs h) = insert i (fired h)"
  by (auto simp: release_handle_def release_turn_frame)

lemma hub_inv_release:
  assumes inv: "hub_inv h" and i: "1 \<le> i" "i \<le> turn_id (turn h)"
  shows "hub_inv (release_handle i fl ocs h)"
proof (cases "i \<in> fired h")
  case True
  then show ?thesis using inv by (simp add: release_handle_def)
next
  case False
  note cur = unfired_is_current [OF inv i False]
  have t: "turn (release_handle i fl ocs h) = (turn h)\<lparr>active := False, holder := [], queue := []\<rparr>"
    using cur(1) False by (simp add: release_handle_turn release_def)
  have "(1 \<le> j \<and> j \<le> turn_id (turn h) \<and> j \<notin> insert i (fired h)) = False" for j
    using inv cur(2) by (auto simp: hub_inv_def)
  moreover have "\<forall>j \<in> insert i (fired h). j \<le> turn_id (turn h)" using inv i by (simp add: hub_inv_def)
  ultimately show ?thesis
    unfolding hub_inv_def t release_handle_turn(2) by simp
qed

lemma hub_inv_step: "hub_inv h \<Longrightarrow> hub_inv (hub_step op h)"
proof (cases op)
  case Close
  then show "hub_inv h \<Longrightarrow> ?thesis" by (simp add: hub_inv_def)
qed (simp_all add: hub_inv_type hub_inv_script hub_inv_claim hub_inv_release)

lemma hub_inv_run: "hub_inv h \<Longrightarrow> hub_inv (hub_run ops h)"
  by (induction ops h rule: hub_run.induct) (simp_all add: hub_inv_step)

lemma hub_inv_new: "hub_inv new_hub_input"
  by (simp add: hub_inv_def new_hub_input_def)

lemma interactive_write:
  "interactive (h\<lparr>pty := pty h @ [(w, p)]\<rparr>) = interactive h @ (if w = Interactive then p else [])"
  by (simp add: interactive_def)

lemma interactive_turn [simp]: "interactive (h\<lparr>turn := t\<rparr>) = interactive h"
  "interactive (h\<lparr>fired := f\<rparr>) = interactive h"
  by (simp_all add: interactive_def)

lemma drain_queue_ok:
  "\<forall>oc \<in> set ocs. oc = None \<Longrightarrow> \<not> hub_done h \<Longrightarrow>
     interactive (drain_queue ocs ps h) = interactive h @ concat ps"
proof (induction ocs ps h rule: drain_queue.induct)
  case (2 ocs p ps h)
  have oc: "(case ocs of [] \<Rightarrow> None | c # _ \<Rightarrow> c) = None" using "2.prems" by (cases ocs) auto
  have "\<forall>oc \<in> set (tl ocs). oc = None" using "2.prems" by (cases ocs) auto
  then show ?case
    using "2.IH" [OF _ refl, of None "h\<lparr>pty := pty h @ [(Interactive, p)]\<rparr>"] "2.prems"
    by (simp add: oc write_pty_def interactive_write Let_def)
qed simp

definition flowing :: "hub_input \<Rightarrow> bytes" where
  "flowing h = interactive h @ concat (queue (turn h))"

lemma flowing_step:
  assumes "hub_inv h" "\<not> hub_done h" "op_ok op"
    and "\<And>p oc. op = Type p oc \<Longrightarrow> active (turn h) \<Longrightarrow> length (queue (turn h)) < turn_queue_cap"
  shows "flowing (hub_step op h) = flowing h @ typed [op] \<and> \<not> hub_done (hub_step op h)"
proof (cases op)
  case (Type p oc)
  show ?thesis
  proof (cases "active (turn h)")
    case True
    then have "length (queue (turn h)) < turn_queue_cap" using Type assms(4) by blast
    then show ?thesis using Type True assms(2)
      by (simp add: gated_write_def enqueue_def flowing_def Let_def)
  next
    case False
    then have "queue (turn h) = []" using assms(1) by (simp add: hub_inv_def)
    then show ?thesis using Type False assms(2,3)
      by (simp add: gated_write_def flowing_def write_pty_def interactive_write)
  qed
next
  case (Claim s)
  then show ?thesis using assms(2)
    by (simp add: claim_turn_def claim_def flowing_def Let_def)
next
  case (Script i p c oc)
  have "interactive (snd (write_pty (Turn i) p oc h)) = interactive h"
    by (simp add: write_pty_def interactive_write split: option.split)
  then show ?thesis using Script assms(2)
    by (simp add: write_turn_def flowing_def)
next
  case (Release i fl ocs)
  show ?thesis
  proof (cases "1 \<le> i \<and> i \<le> turn_id (turn h) \<and> i \<notin> fired h")
    case True
    then have act: "active (turn h)" using unfired_is_current assms(1) by blast
    have "release_handle i fl ocs h =
        (drain_queue ocs (queue (turn h)) (h\<lparr>turn := (turn h)\<lparr>active := False, holder := [], queue := []\<rparr>\<rparr>))
          \<lparr>fired := insert i (fired h)\<rparr>"
      using True act Release assms(3) by (simp add: release_handle_def release_turn_def release_def)
    then show ?thesis using True Release assms(2,3)
      by (simp add: flowing_def drain_queue_ok)
  next
    case False
    then show ?thesis using Release assms(2) by (auto simp: release_handle_def)
  qed
qed (use assms in simp)

lemma flowing_run:
  "hub_inv h \<Longrightarrow> \<not> hub_done h \<Longrightarrow> \<forall>op \<in> set ops. op_ok op \<Longrightarrow> no_overflow ops h \<Longrightarrow>
     flowing (hub_run ops h) = flowing h @ typed ops"
proof (induction ops h rule: hub_run.induct)
  case (2 op ops h)
  have "flowing (hub_step op h) = flowing h @ typed [op] \<and> \<not> hub_done (hub_step op h)"
    using "2.prems" by (intro flowing_step) auto
  moreover have "typed (op # ops) = typed [op] @ typed ops" by (cases op) simp_all
  ultimately show ?case using "2.IH" hub_inv_step "2.prems" by simp
qed simp

lemma normalize_append:
  "normalize_nvt (a @ b) cr =
     (let (o1, c1) = normalize_nvt a cr; (o2, c2) = normalize_nvt b c1 in (o1 @ o2, c2))"
  by (induction a cr rule: normalize_nvt.induct) (auto simp: Let_def split: prod.splits)

section \<open>Properties\<close>

text \<open>C31. No keystroke is lost, duplicated or reordered by the input turns: over any history of
  interactive writes, claims, scripted writes and releases from a new hub, with the writes
  succeeding and no turn outlasting the queue, the interactive bytes the pty took, followed by
  those queued, are exactly the bytes typed, in order.\<close>

theorem keystrokes_preserved:
  assumes "\<forall>op \<in> set ops. op_ok op" and "no_overflow ops new_hub_input"
  shows "interactive (hub_run ops new_hub_input) @ concat (queue (turn (hub_run ops new_hub_input))) = typed ops"
  using flowing_run [OF hub_inv_new _ assms] by (simp add: flowing_def new_hub_input_def interactive_def)

lemma keystrokes_preserved_witness:
  "(let h = hub_run [Type [97] None, Claim ''painter'', Type [98] None, Script 1 [115] False None,
       Type [99] None, Release 1 True [], Release 1 True [], Type [100] None] new_hub_input
    in interactive h @ concat (queue (turn h))) = [97, 98, 99, 100]"
proof -
  let ?ops = "[Type [97] None, Claim ''painter'', Type [98] None, Script 1 [115] False None,
       Type [99] None, Release 1 True [], Release 1 True [], Type [100] None]"
  have "\<forall>op \<in> set ?ops. op_ok op" by simp
  moreover have "no_overflow ?ops new_hub_input"
    by (simp add: new_hub_input_def gated_write_def write_pty_def claim_turn_def claim_def write_turn_def
        release_handle_def release_turn_def release_def enqueue_def turn_queue_cap_def Let_def)
  ultimately show ?thesis using keystrokes_preserved [of ?ops] by (simp add: Let_def)
qed

text \<open>Releasing a turn never ends somebody else's: in every history, a release function that
  has not run yet belongs to the turn that is active now, and one that has run does nothing.\<close>

theorem release_ends_own_turn:
  assumes "h = hub_run ops new_hub_input" and "1 \<le> i" and "i \<le> turn_id (turn h)"
  shows "if i \<in> fired h then release_handle i fl ocs h = h
         else active (turn h) \<and> turn_id (turn h) = i \<and> \<not> active (turn (release_handle i fl ocs h))"
proof -
  have inv: "hub_inv h" using assms(1) hub_inv_run hub_inv_new by simp
  show ?thesis
    using unfired_is_current [OF inv assms(2,3)]
    by (auto simp: release_handle_def release_turn_frame release_def)
qed

lemma release_ends_own_turn_witness:
  "\<not> active (turn (release_handle 1 True [] (hub_run [Claim ''a''] new_hub_input)))"
  using release_ends_own_turn [OF refl, of 1 "[Claim ''a'']" True "[]"]
  by (simp add: new_hub_input_def claim_turn_def claim_def)

text \<open>C32. A turn is exclusive. In every history, when no turn is active no keystrokes wait, and never
  more than the cap wait.  While a turn is and stays active, an operation adds to the pty nothing or
  one write of that very turn's holder; typed bytes wait at the end of the queue, from which only the
  oldest beyond the cap are dropped, and nothing else changes the queue.\<close>

theorem turn_is_exclusive:
  assumes "h = hub_run ops new_hub_input"
  shows "(\<not> active (turn h) \<longrightarrow> queue (turn h) = []) \<and> length (queue (turn h)) \<le> turn_queue_cap \<and>
     (active (turn h) \<and> active (turn (hub_step op h)) \<longrightarrow>
        (pty (hub_step op h) = pty h \<or> (\<exists>p. pty (hub_step op h) = pty h @ [(Turn (turn_id (turn h)), p)])) \<and>
        turn_id (turn (hub_step op h)) = turn_id (turn h) \<and>
        queue (turn (hub_step op h)) =
          (case op of
             Type p _ \<Rightarrow> if p = [] \<or> hub_done h then queue (turn h)
               else drop (length (queue (turn h)) + 1 - turn_queue_cap) (queue (turn h) @ [p])
           | _ \<Rightarrow> queue (turn h)))"
proof -
  have inv: "hub_inv h" using assms(1) hub_inv_run hub_inv_new by simp
  have "(pty (hub_step op h) = pty h \<or> (\<exists>p. pty (hub_step op h) = pty h @ [(Turn (turn_id (turn h)), p)])) \<and>
        turn_id (turn (hub_step op h)) = turn_id (turn h) \<and>
        queue (turn (hub_step op h)) =
          (case op of
             Type p _ \<Rightarrow> if p = [] \<or> hub_done h then queue (turn h)
               else drop (length (queue (turn h)) + 1 - turn_queue_cap) (queue (turn h) @ [p])
           | _ \<Rightarrow> queue (turn h))"
    if a: "active (turn h)" "active (turn (hub_step op h))"
  proof (cases op)
    case (Type p oc)
    then show ?thesis using a(1) by (simp add: gated_write_def enqueue_def Let_def)
  next
    case (Claim s)
    then show ?thesis using a(1) by (simp add: claim_turn_def claim_def Let_def)
  next
    case (Script i p c oc)
    then show ?thesis by (auto simp: write_turn_def write_pty_def split: option.splits)
  next
    case (Release i fl ocs)
    have "i \<in> fired h" if i: "1 \<le> i" "i \<le> turn_id (turn h)"
    proof (rule ccontr)
      assume "i \<notin> fired h"
      then have "\<not> active (turn (release_handle i fl ocs h))"
        using unfired_is_current [OF inv i] by (simp add: release_handle_turn release_def)
      then show False using a(2) Release i by simp
    qed
    then show ?thesis using Release by (simp add: release_handle_def)
  qed simp
  then show ?thesis using inv by (simp add: hub_inv_def)
qed

lemma turn_is_exclusive_witness:
  "queue (turn (hub_step (Type [1] None) (hub_run [Claim ''a''] new_hub_input))) = [[1]]"
  using turn_is_exclusive [OF refl, of "[Claim ''a'']" "Type [1] None"]
  by (simp add: new_hub_input_def claim_turn_def claim_def gated_write_def enqueue_def turn_queue_cap_def)

text \<open>The line-ending filter does not care how TCP cut the stream: filtering two chunks one
  after the other, with the pending CR carried over, is filtering them in one piece.\<close>

theorem normalize_chunk_independent:
  "normalize_nvt (a @ b) cr =
     (fst (normalize_nvt a cr) @ fst (normalize_nvt b (snd (normalize_nvt a cr))),
      snd (normalize_nvt b (snd (normalize_nvt a cr))))"
  by (simp add: normalize_append split_beta Let_def)

end
