(* ===== verification/Console_Output.thy ===== *)
theory Console_Output
  imports Prelude "HOL-Library.Sublist"
begin

text \<open>
  Package internal/node, console_hub.go, the output half: the replay ring, the bounded
  client queues and their drop policy, registration with its preamble, detaching and
  shutdown, and the batched pty reader.

  A hubClient is an object with an identity (a number); the hub holds the identities that
  are registered.  An element of a client's channel carries a label saying what it is, and
  a client keeps what its consumer has taken and where in the pty's output it joined, and
  the hub everything the pty ever produced: these are bookkeeping for the statements, no
  operation reads them.
\<close>

definition replay_ring_size :: nat where "replay_ring_size = 8192"

definition hub_client_queue :: nat where "hub_client_queue = 64"

datatype label = Preamble | Title | Replay | Live | Reply

record client =
  c_closed :: bool
  out :: "(label \<times> bytes) list"
  taken :: "(label \<times> bytes) list"
  joined :: nat

record hub_out =
  hub_name :: bytes
  ring :: bytes
  objects :: "nat \<Rightarrow> client option"
  members :: "nat set"
  next_client :: nat
  closed :: bool
  produced :: bytes

section \<open>Clients\<close>

definition client_enqueue :: "label \<times> bytes \<Rightarrow> client \<Rightarrow> bool \<times> client" where
  "client_enqueue p c =
     (if c_closed c then (False, c)
      else if length (out c) < hub_client_queue then (True, c\<lparr>out := out c @ [p]\<rparr>)
      else (False, c))"

definition client_close :: "client \<Rightarrow> client" where
  "client_close c = c\<lparr>c_closed := True\<rparr>"

definition upd_client :: "nat \<Rightarrow> (client \<Rightarrow> client) \<Rightarrow> hub_out \<Rightarrow> hub_out" where
  "upd_client i f h = h\<lparr>objects := (objects h)(i := map_option f (objects h i))\<rparr>"

section \<open>The hub\<close>

definition new_hub_out :: "bytes \<Rightarrow> hub_out" where
  "new_hub_out nm = \<lparr> hub_name = nm, ring = [], objects = Map.empty, members = {}, next_client = 0,
     closed = False, produced = [] \<rparr>"

definition accepts :: "hub_out \<Rightarrow> nat \<Rightarrow> bool" where
  "accepts h i = (case objects h i of None \<Rightarrow> False | Some c \<Rightarrow> fst (client_enqueue (Live, []) c))"

text \<open>Every member is offered the chunk; those that cannot take it are removed and closed.\<close>

definition broadcast :: "bytes \<Rightarrow> hub_out \<Rightarrow> hub_out" where
  "broadcast chunk h =
     (let r = ring h @ chunk;
          deliver = (\<lambda>i. if i \<in> members h
             then map_option (\<lambda>c. let (ok, c') = client_enqueue (Live, chunk) c
                                  in if ok then c' else client_close c) (objects h i)
             else objects h i)
      in h\<lparr>ring := drop (length r - replay_ring_size) r,
           objects := deliver,
           members := {i \<in> members h. accepts h i},
           produced := produced h @ chunk\<rparr>)"

definition telnet_preamble :: bytes where
  "telnet_preamble = [255, 251, 1, 255, 251, 3]"

definition title_escape :: "bytes \<Rightarrow> bytes" where
  "title_escape nm = [0x1b, 0x5d, 0x30, 0x3b] @ nm @ [7]"

definition register_locked :: "bool \<Rightarrow> bool \<Rightarrow> hub_out \<Rightarrow> nat option \<times> hub_out" where
  "register_locked want_preamble replay h =
     (if closed h then (None, h)
      else let items = (if want_preamble then [(Preamble, telnet_preamble)] else [])
                 @ (if replay \<and> hub_name h \<noteq> [] then [(Title, title_escape (hub_name h))] else [])
                 @ (if replay \<and> ring h \<noteq> [] then [(Replay, ring h)] else []);
               c = \<lparr> c_closed = False, out = items, taken = [],
                     joined = length (produced h) - (if replay then length (ring h) else 0) \<rparr>
           in (Some (next_client h),
               h\<lparr>objects := (objects h)(next_client h \<mapsto> c), members := insert (next_client h) (members h),
                 next_client := next_client h + 1\<rparr>))"

definition detach :: "nat \<Rightarrow> hub_out \<Rightarrow> hub_out" where
  "detach i h = (upd_client i client_close h)\<lparr>members := members h - {i}\<rparr>"

definition shutdown :: "hub_out \<Rightarrow> hub_out" where
  "shutdown h =
     (if closed h then h
      else h\<lparr>closed := True, members := {},
             objects := (\<lambda>i. if i \<in> members h then map_option client_close (objects h i) else objects h i)\<rparr>)"

text \<open>The consumer of a client takes the next element of its channel.\<close>

definition consume :: "nat \<Rightarrow> hub_out \<Rightarrow> hub_out" where
  "consume i h = upd_client i (\<lambda>c. case out c of [] \<Rightarrow> c
     | x # xs \<Rightarrow> c\<lparr>out := xs, taken := taken c @ [x]\<rparr>) h"

text \<open>A native client's reader queues a negotiation reply; when it cannot, it detaches.\<close>

definition queue_reply :: "nat \<Rightarrow> bytes \<Rightarrow> hub_out \<Rightarrow> hub_out" where
  "queue_reply i p h =
     (case objects h i of
        None \<Rightarrow> h
      | Some c \<Rightarrow> (let (ok, c') = client_enqueue (Reply, p) c
                  in if ok then upd_client i (\<lambda>_. c') h else detach i h))"

datatype out_op = Broadcast bytes | Register bool bool | Consume nat | QueueReply nat bytes | Detach nat | Shutdown

fun out_step :: "out_op \<Rightarrow> hub_out \<Rightarrow> hub_out" where
  "out_step (Broadcast chunk) h = broadcast chunk h"
| "out_step (Register pre rep) h = snd (register_locked pre rep h)"
| "out_step (Consume i) h = consume i h"
| "out_step (QueueReply i p) h = queue_reply i p h"
| "out_step (Detach i) h = detach i h"
| "out_step Shutdown h = shutdown h"

definition out_run :: "out_op list \<Rightarrow> hub_out \<Rightarrow> hub_out" where
  "out_run ops h = foldl (\<lambda>h op. out_step op h) h ops"

section \<open>The batched reader\<close>

datatype read_error = NoError | Timeout | Fatal

text \<open>What one Read call returns, and whether the batching window was still open before it.\<close>

record read_event =
  data :: bytes
  rerr :: read_error
  in_window :: bool

fun batch_more :: "nat \<Rightarrow> read_event list \<Rightarrow> bytes \<times> bool \<times> read_event list" where
  "batch_more room [] = ([], False, [])"
| "batch_more room (e # es) =
     (if room = 0 \<or> \<not> in_window e then ([], False, e # es)
      else if rerr e \<noteq> NoError then (data e, rerr e = Fatal, es)
      else if data e = [] then ([], False, es)
      else let (d, err, rest) = batch_more (room - length (data e)) es in (data e @ d, err, rest))"

text \<open>The initial read ends the batch when it brings nothing, fails or fills the buffer; the
  two flags say whether setting the read deadline works before and after it.\<close>

definition read_console_batch ::
  "bool \<Rightarrow> bool \<Rightarrow> bool \<Rightarrow> nat \<Rightarrow> read_event list \<Rightarrow> bytes \<times> bool \<times> read_event list" where
  "read_console_batch has_deadline clear_ok set_ok limit es =
     (if has_deadline \<and> \<not> clear_ok then ([], True, es)
      else case es of
        [] \<Rightarrow> ([], False, [])
      | e # es' \<Rightarrow>
          if data e = [] then ([], rerr e \<noteq> NoError, es')
          else if rerr e \<noteq> NoError \<or> \<not> has_deadline \<or> length (data e) = limit
            then (data e, rerr e \<noteq> NoError, es')
          else if \<not> set_ok then (data e, True, es')
          else let (d, err, rest) = batch_more (limit - length (data e)) es' in (data e @ d, err, rest))"

section \<open>The stream a client sees\<close>

definition console_bytes :: "client \<Rightarrow> bytes" where
  "console_bytes c = concat (map snd (filter (\<lambda>x. fst x \<in> {Replay, Live}) (taken c @ out c)))"

definition client_ok :: "bytes \<Rightarrow> bool \<Rightarrow> client \<Rightarrow> bool" where
  "client_ok stream member c \<longleftrightarrow>
     length (out c) \<le> hub_client_queue \<and> joined c \<le> length stream \<and>
     prefix (console_bytes c) (drop (joined c) stream) \<and>
     (member \<longrightarrow> \<not> c_closed c \<and> console_bytes c = drop (joined c) stream)"

definition out_inv :: "hub_out \<Rightarrow> bool" where
  "out_inv h \<longleftrightarrow>
     ring h = drop (length (produced h) - replay_ring_size) (produced h) \<and>
     (\<forall>i c. objects h i = Some c \<longrightarrow> client_ok (produced h) (i \<in> members h) c) \<and>
     (\<forall>i \<in> members h. objects h i \<noteq> None) \<and>
     (\<forall>i. objects h i \<noteq> None \<longrightarrow> i < next_client h) \<and>
     (closed h \<longrightarrow> members h = {})"

lemma client_ok_consume:
  "client_ok stream m c \<Longrightarrow> client_ok stream m (case out c of [] \<Rightarrow> c
     | x # xs \<Rightarrow> c\<lparr>out := xs, taken := taken c @ [x]\<rparr>)"
  by (cases "out c") (auto simp: client_ok_def console_bytes_def)

lemma client_ok_close: "client_ok stream m c \<Longrightarrow> client_ok stream False (client_close c)"
  by (simp add: client_ok_def client_close_def console_bytes_def)

lemma client_ok_not_member: "client_ok stream m c \<Longrightarrow> client_ok stream False c"
  by (simp add: client_ok_def)

lemma client_ok_more: "client_ok stream False c \<Longrightarrow> client_ok (stream @ chunk) False c"
  by (auto simp: client_ok_def intro: prefix_prefix)

lemma client_ok_reply:
  "client_ok stream m c \<Longrightarrow> client_enqueue (Reply, p) c = (True, c') \<Longrightarrow> client_ok stream m c'"
  by (auto simp: client_enqueue_def client_ok_def console_bytes_def split: if_splits)

lemma client_ok_live:
  "client_ok stream True c \<Longrightarrow> client_enqueue (Live, chunk) c = (True, c') \<Longrightarrow> client_ok (stream @ chunk) True c'"
proof -
  assume ok: "client_ok stream True c" and e: "client_enqueue (Live, chunk) c = (True, c')"
  have c': "c' = c\<lparr>out := out c @ [(Live, chunk)]\<rparr>" "length (out c) < hub_client_queue"
    using e by (auto simp: client_enqueue_def split: if_splits)
  have "console_bytes c' = console_bytes c @ chunk" by (simp add: console_bytes_def c')
  then show ?thesis using ok c' by (simp add: client_ok_def)
qed

lemma keep_last_append:
  "drop (length (drop (length p - k) p @ q) - k) (drop (length p - k) p @ q) =
   drop (length (p @ q) - k) (p @ q)"
  by (cases "length p \<le> k") (simp_all add: add.commute)

lemma enqueue_ok_any: "fst (client_enqueue (l, p) c) = fst (client_enqueue (l', p') c)"
  by (simp add: client_enqueue_def)

lemma out_inv_broadcast:
  assumes "out_inv h" shows "out_inv (broadcast chunk h)"
proof -
  have ring: "drop (length (ring h @ chunk) - replay_ring_size) (ring h @ chunk) =
      drop (length (produced h @ chunk) - replay_ring_size) (produced h @ chunk)"
    using assms keep_last_append [of "produced h" replay_ring_size chunk] by (simp only: out_inv_def)
  have ok: "client_ok (produced h @ chunk) (i \<in> members h \<and> accepts h i) c'"
    if "objects (broadcast chunk h) i = Some c'" for i c'
  proof (cases "i \<in> members h")
    case True
    then obtain c where c: "objects h i = Some c" "client_ok (produced h) True c"
      using assms by (fastforce simp: out_inv_def)
    obtain ok d where e: "client_enqueue (Live, chunk) c = (ok, d)" by fastforce
    then have acc: "accepts h i = ok"
      using enqueue_ok_any [of Live "[]" c Live chunk] by (simp add: accepts_def c)
    show ?thesis
    proof (cases ok)
      case True
      then have "c' = d" using that \<open>i \<in> members h\<close> c e by (simp add: broadcast_def Let_def)
      then show ?thesis using client_ok_live c(2) e True acc \<open>i \<in> members h\<close> by auto
    next
      case False
      then have "c' = client_close c" using that \<open>i \<in> members h\<close> c e by (simp add: broadcast_def Let_def)
      then show ?thesis using False acc client_ok_more [OF client_ok_close [OF c(2)]] by simp
    qed
  next
    case False
    then have "objects h i = Some c'" using that by (simp add: broadcast_def Let_def)
    then have "client_ok (produced h) (i \<in> members h) c'" using assms by (simp add: out_inv_def)
    then have "client_ok (produced h) False c'" using client_ok_not_member by blast
    then show ?thesis using False client_ok_more by simp
  qed
  have "ring (broadcast chunk h) = drop (length (ring h @ chunk) - replay_ring_size) (ring h @ chunk)"
    unfolding broadcast_def Let_def by simp
  also have "\<dots> = drop (length (produced h @ chunk) - replay_ring_size) (produced h @ chunk)" by (rule ring)
  finally have r: "ring (broadcast chunk h) =
      drop (length (produced (broadcast chunk h)) - replay_ring_size) (produced (broadcast chunk h))"
    unfolding broadcast_def Let_def by simp
  have m: "produced (broadcast chunk h) = produced h @ chunk"
    "members (broadcast chunk h) = {i \<in> members h. accepts h i}"
    "next_client (broadcast chunk h) = next_client h" "closed (broadcast chunk h) = closed h"
    "objects (broadcast chunk h) i = None \<longleftrightarrow> objects h i = None" for i
    by (simp_all add: broadcast_def Let_def)
  show ?thesis
    using r [unfolded m] assms ok unfolding out_inv_def m by auto
qed

lemma out_invD: "out_inv h \<Longrightarrow> objects h i = Some c \<Longrightarrow> client_ok (produced h) (i \<in> members h) c"
  by (simp add: out_inv_def)

lemma ring_le: "out_inv h \<Longrightarrow> length (ring h) \<le> length (produced h)"
  by (simp add: out_inv_def)

lemma out_inv_register:
  assumes "out_inv h" shows "out_inv (snd (register_locked pre rep h))"
proof (cases "closed h")
  case False
  define c where "c = \<lparr> c_closed = False, out = (if pre then [(Preamble, telnet_preamble)] else [])
      @ (if rep \<and> hub_name h \<noteq> [] then [(Title, title_escape (hub_name h))] else [])
      @ (if rep \<and> ring h \<noteq> [] then [(Replay, ring h)] else []), taken = [],
    joined = length (produced h) - (if rep then length (ring h) else 0) \<rparr>"
  have eq: "snd (register_locked pre rep h) = h\<lparr>objects := (objects h)(next_client h \<mapsto> c),
      members := insert (next_client h) (members h), next_client := next_client h + 1\<rparr>"
    using False by (simp add: register_locked_def c_def Let_def)
  have "ring h = drop (length (produced h) - length (ring h)) (produced h)"
    using assms by (simp add: out_inv_def)
  then have cb: "console_bytes c = drop (joined c) (produced h)"
    by (auto simp: console_bytes_def c_def)
  have "client_ok (produced h) True c"
    using cb by (simp add: client_ok_def hub_client_queue_def) (simp add: c_def)
  moreover have "next_client h \<notin> members h" using assms unfolding out_inv_def by blast
  ultimately show ?thesis using assms False
    by (simp add: eq out_inv_def less_SucI)
qed (simp add: register_locked_def assms)

lemma out_inv_upd:
  assumes "out_inv h" and "\<And>c. objects h i = Some c \<Longrightarrow> client_ok (produced h) (i \<in> m) (f c)"
    and "m = members h \<or> m = members h - {i}"
  shows "out_inv ((upd_client i f h)\<lparr>members := m\<rparr>)"
proof -
  have "client_ok (produced h) (j \<in> m) c'" if "objects (upd_client i f h) j = Some c'" for j c'
  proof (cases "j = i")
    case False
    then have "objects h j = Some c'" using that by (simp add: upd_client_def)
    then show ?thesis using out_invD [OF assms(1)] assms(3) False by fastforce
  qed (use that assms(2) in \<open>auto simp: upd_client_def\<close>)
  then show ?thesis using assms(1,3) unfolding out_inv_def by (auto simp: upd_client_def)
qed

lemma out_inv_detach: "out_inv h \<Longrightarrow> out_inv (detach i h)"
  unfolding detach_def
  by (rule out_inv_upd) (auto dest: out_invD intro: client_ok_close)

lemma upd_client_members: "upd_client i f h = (upd_client i f h)\<lparr>members := members h\<rparr>"
  by (simp add: upd_client_def)

lemma out_inv_consume: "out_inv h \<Longrightarrow> out_inv (consume i h)"
  unfolding consume_def
  by (subst upd_client_members) (rule out_inv_upd, auto dest: out_invD intro: client_ok_consume)

lemma out_inv_reply:
  assumes "out_inv h" shows "out_inv (queue_reply i p h)"
proof (cases "objects h i")
  case (Some c)
  obtain ok c' where e: "client_enqueue (Reply, p) c = (ok, c')" by fastforce
  show ?thesis
  proof (cases ok)
    case True
    have "out_inv ((upd_client i (\<lambda>_. c') h)\<lparr>members := members h\<rparr>)"
      by (rule out_inv_upd [OF assms])
         (use client_ok_reply [OF out_invD [OF assms Some]] e True in auto)
    then show ?thesis using Some e True by (simp add: queue_reply_def upd_client_def)
  qed (use Some e assms out_inv_detach in \<open>simp add: queue_reply_def\<close>)
qed (simp add: queue_reply_def assms)

lemma out_inv_shutdown:
  assumes "out_inv h" shows "out_inv (shutdown h)"
proof (cases "closed h")
  case False
  have "client_ok (produced h) False c'"
    if "(if i \<in> members h then map_option client_close (objects h i) else objects h i) = Some c'" for i c'
    using that out_invD [OF assms] client_ok_close client_ok_not_member by (fastforce split: if_splits)
  then show ?thesis using assms False by (auto simp: shutdown_def out_inv_def split: if_splits)
qed (simp add: shutdown_def assms)

lemma out_inv_step: "out_inv h \<Longrightarrow> out_inv (out_step op h)"
  by (cases op) (simp_all add: out_inv_broadcast out_inv_register out_inv_consume out_inv_reply
      out_inv_detach out_inv_shutdown)

lemma out_inv_run: "out_inv h \<Longrightarrow> out_inv (out_run ops h)"
  by (induction ops arbitrary: h) (simp_all add: out_run_def out_inv_step)

lemma out_inv_new: "out_inv (new_hub_out nm)"
  by (simp add: out_inv_def new_hub_out_def)

text \<open>Nothing that happens later moves the point a client joined at.\<close>

lemma enqueue_joined: "client_enqueue p c = (ok, c') \<Longrightarrow> joined c' = joined c"
  by (auto simp: client_enqueue_def split: if_splits)

lemma joined_step:
  assumes "objects h i = Some c" and "i < next_client h"
  shows "\<exists>c'. objects (out_step op h) i = Some c' \<and> joined c' = joined c \<and> i < next_client (out_step op h)"
proof (cases op)
  case (Broadcast chunk)
  then show ?thesis using assms
    by (auto simp: broadcast_def Let_def client_close_def enqueue_joined split: prod.split)
next
  case (QueueReply j p)
  then show ?thesis using assms
    by (auto simp: queue_reply_def detach_def upd_client_def client_close_def enqueue_joined
        split: prod.split option.split)
next
  case (Consume j)
  then show ?thesis using assms by (cases "out c") (auto simp: consume_def upd_client_def)
qed (use assms in \<open>auto simp: register_locked_def detach_def shutdown_def upd_client_def client_close_def Let_def\<close>)

lemma joined_run:
  "objects h i = Some c \<Longrightarrow> i < next_client h \<Longrightarrow> \<exists>c'. objects (out_run ops h) i = Some c' \<and> joined c' = joined c"
proof (induction ops arbitrary: h c)
  case (Cons op ops)
  then show ?case using joined_step [OF Cons.prems, of op] by (fastforce simp: out_run_def)
qed (simp add: out_run_def)

lemma batch_more_data:
  assumes "batch_more room es = (d, err, rest)"
  shows "\<exists>used. es = used @ rest \<and> d = concat (map data used)"
  using assms
proof (induction room es arbitrary: d rule: batch_more.induct)
  case (2 room e es)
  show ?case
  proof (cases "room = 0 \<or> \<not> in_window e \<or> rerr e \<noteq> NoError \<or> data e = []")
    case True
    then show ?thesis using "2.prems"
      by (auto split: if_splits intro: exI [of _ "[]"] exI [of _ "[e]"])
  next
    case False
    then obtain d' where d': "batch_more (room - length (data e)) es = (d', err, rest)" "d = data e @ d'"
      using "2.prems" by (auto split: prod.splits)
    then obtain used where "es = used @ rest" "d' = concat (map data used)" using "2.IH" False by blast
    then show ?thesis using d'(2) by (intro exI [of _ "e # used"]) simp
  qed
qed auto

section \<open>Properties\<close>

text \<open>C33. A client that joins the console with replay receives the output of the pty from 8 KiB
  before it joined on, or from the start if there is less; one that joins without, from where it
  joined. Whatever is queued, dropped or detached around it, it receives a contiguous part of the
  output from there, with nothing missing, repeated or reordered; while it is registered, what it
  took and what waits in its queue of at most 64 elements reach to the very last byte produced.\<close>

theorem clients_see_contiguous_output:
  assumes "h0 = out_run before (new_hub_out nm)" and "register_locked pre rep h0 = (Some i, h1)"
    and "h = out_run after h1" and "objects h i = Some c"
    and "start = (if rep then length (produced h0) - 8192 else length (produced h0))"
  shows "prefix (console_bytes c) (drop start (produced h)) \<and> length (out c) \<le> 64 \<and>
     (i \<in> members h \<longrightarrow> \<not> c_closed c \<and> start + length (console_bytes c) = length (produced h))"
proof -
  have inv0: "out_inv h0" using assms(1) out_inv_run out_inv_new by simp
  have h1: "h1 = out_step (Register pre rep) h0" using assms(2) by simp
  then have "out_inv h" using assms(3) inv0 out_inv_step out_inv_run by blast
  then have ok: "client_ok (produced h) (i \<in> members h) c" using out_invD assms(4) by blast
  have ring: "length (produced h0) - length (ring h0) = length (produced h0) - 8192"
    using inv0 by (simp add: out_inv_def replay_ring_size_def)
  obtain c1 where c1: "objects h1 i = Some c1" "joined c1 = start" "i < next_client h1"
    using assms(2,5) ring by (auto simp: register_locked_def Let_def split: if_splits)
  then have "joined c = start" using joined_run [OF c1(1,3), of after] assms(3,4) by auto
  then show ?thesis using ok by (auto simp: client_ok_def hub_client_queue_def)
qed

lemma clients_see_contiguous_output_witness:
  "(let h = out_run [Broadcast [3]] (snd (register_locked True True (out_run [Broadcast [1, 2]] (new_hub_out [82]))))
    in case objects h 0 of None \<Rightarrow> False | Some c \<Rightarrow> console_bytes c = [1, 2, 3])"
proof -
  let ?early = "out_run [Broadcast [1, 2]] (new_hub_out [82])"
  let ?h = "out_run [Broadcast [3]] (snd (register_locked True True ?early))"
  have "\<not> closed ?early" "next_client ?early = 0"
    by (simp_all add: out_run_def new_hub_out_def broadcast_def Let_def)
  then have "fst (register_locked True True ?early) = Some 0"
    by (simp add: register_locked_def Let_def)
  then have reg: "register_locked True True ?early = (Some 0, snd (register_locked True True ?early))"
    by (simp add: prod_eq_iff)
  have "objects ?h 0 \<noteq> None"
    by (simp add: out_run_def new_hub_out_def broadcast_def register_locked_def client_enqueue_def
        hub_client_queue_def replay_ring_size_def Let_def)
  then obtain c where c: "objects ?h 0 = Some c" by blast
  have m: "0 \<in> members ?h"
    by (simp add: out_run_def new_hub_out_def broadcast_def register_locked_def accepts_def client_enqueue_def
        hub_client_queue_def replay_ring_size_def Let_def)
  have p: "produced ?h = [1, 2, 3]" "produced ?early = [1, 2]"
    by (simp_all add: out_run_def new_hub_out_def broadcast_def register_locked_def Let_def)
  have "prefix (console_bytes c) [1, 2, 3]" and len: "length (console_bytes c) = 3"
    using clients_see_contiguous_output [OF refl reg refl c refl] m p by simp_all
  then have "console_bytes c = take (length (console_bytes c)) [1, 2, 3]"
    by (metis append_eq_conv_conj prefix_def)
  then have "console_bytes c = [1, 2, 3]" unfolding len by simp
  then show ?thesis using c by (simp add: Let_def)
qed

text \<open>The replay ring is always the newest 8 KiB of the pty's output, and once the hub is shut
  down no client is registered and none can register.\<close>

theorem ring_is_newest_output:
  "(let h = out_run ops (new_hub_out nm)
    in ring h = drop (length (produced h) - 8192) (produced h) \<and>
       fst (register_locked pre rep (shutdown h)) = None \<and> members (shutdown h) = {})"
proof -
  have "out_inv (out_run ops (new_hub_out nm))" using out_inv_run out_inv_new by simp
  then show ?thesis
    by (simp add: Let_def out_inv_def replay_ring_size_def register_locked_def shutdown_def)
qed

text \<open>A batch is made of exactly the data of the reads it consumed, in order, the reads after
  it are left for the next batch, and a timeout after the first read is never an error.\<close>

theorem batch_conserves_reads:
  assumes "read_console_batch dl clear_ok set_ok limit es = (d, err, rest)"
  shows "\<exists>used. es = used @ rest \<and> d = concat (map data used)"
proof (cases es)
  case Nil
  then show ?thesis using assms by (auto simp: read_console_batch_def split: if_splits)
next
  case (Cons e es')
  show ?thesis
  proof (cases "dl \<and> \<not> clear_ok \<or> data e = [] \<or> rerr e \<noteq> NoError \<or> \<not> dl \<or> length (data e) = limit \<or> \<not> set_ok")
    case True
    then show ?thesis using assms Cons
      by (auto simp: read_console_batch_def split: if_splits intro: exI [of _ "[]"] exI [of _ "[e]"])
  next
    case False
    then obtain d' where "batch_more (limit - length (data e)) es' = (d', err, rest)" "d = data e @ d'"
      using assms Cons by (auto simp: read_console_batch_def split: prod.splits)
    then show ?thesis using batch_more_data Cons by (fastforce intro: exI [of _ "e # _"])
  qed
qed

lemma batch_conserves_reads_witness:
  "\<exists>used. [\<lparr> data = [1], rerr = NoError, in_window = True \<rparr>, \<lparr> data = [2], rerr = Timeout, in_window = True \<rparr>]
     = used @ [] \<and> [1, 2] = concat (map data used)"
  by (rule batch_conserves_reads [of True True True 16 _ _ False]) (simp add: read_console_batch_def)

end
