(* ===== verification/Netmap.thy ===== *)
theory Netmap
  imports Prelude "HOL-Library.Multiset"
begin

text \<open>
  Package internal/netmap: IOL interface names, the instance and pseudo-instance
  numbering, and the text of the static NETMAP file.
\<close>

section \<open>Addressing\<close>

definition ports_per_adapter :: int where
  "ports_per_adapter = 16"

definition ports_per_group :: nat where
  "ports_per_group = 4"

definition max_iol_instance :: int where
  "max_iol_instance = 1024"

definition pseudo_instance_base :: int where
  "pseudo_instance_base = 500"

definition instance_id :: "int \<Rightarrow> int" where
  "instance_id node_id = node_id + 1"

text \<open>The allocation loop: ids from the given one up to the maximum, until n are out.\<close>

function alloc_pseudo_loop :: "(int \<Rightarrow> bool) \<Rightarrow> nat \<Rightarrow> int \<Rightarrow> int list \<Rightarrow> int list" where
  "alloc_pseudo_loop used n i out =
     (if i \<le> max_iol_instance \<and> length out < n
      then alloc_pseudo_loop used n (i + 1) (if used i then out else out @ [i])
      else out)"
  by pat_completeness auto
termination
  by (relation "measure (\<lambda>(used, n, i, out). nat (max_iol_instance + 1 - i))") auto

declare alloc_pseudo_loop.simps [simp del]

text \<open>Inl carries the counts of the exhaustion message: need, got.\<close>

definition alloc_pseudo_instances :: "(int \<Rightarrow> bool) \<Rightarrow> nat \<Rightarrow> (nat \<times> nat, int list) result" where
  "alloc_pseudo_instances used n =
     (let out = alloc_pseudo_loop used n pseudo_instance_base []
      in if length out < n then Inl (n, length out) else Inr out)"

definition validate_instance :: "int \<Rightarrow> bool" where
  "validate_instance node_id =
     (let inst = instance_id node_id in \<not> (inst < 1 \<or> inst > max_iol_instance))"

datatype iface_type = Ethernet | Serial

definition iface_type_string :: "iface_type \<Rightarrow> string" where
  "iface_type_string t = (if t = Serial then ''s'' else ''e'')"

record iface =
  itype :: iface_type
  adapter :: int
  port :: int

definition iface_index :: "iface \<Rightarrow> int" where
  "iface_index i = adapter i * ports_per_adapter + port i"

definition iface_string :: "iface \<Rightarrow> string" where
  "iface_string i = iface_type_string (itype i) @ itoa (adapter i) @ ''/'' @ itoa (port i)"

datatype iface_error =
    EmptyInterface | UnknownTypePrefix | ExpectedAdapterPort | BadAdapter | BadPort
  | NegativeCoordinate | PortExceeds

definition iface_prefix :: "string \<Rightarrow> (iface_type \<times> string) option" where
  "iface_prefix lower =
     (if has_prefix lower ''ethernet'' then Some (Ethernet, drop 8 lower)
      else if has_prefix lower ''serial'' then Some (Serial, drop 6 lower)
      else if has_prefix lower ''e'' then Some (Ethernet, drop 1 lower)
      else if has_prefix lower ''s'' then Some (Serial, drop 1 lower)
      else None)"

definition parse_iface :: "string \<Rightarrow> (iface_error, iface) result" where
  "parse_iface s0 =
     (let s = trim_space s0 in
      if s = [] then Inl EmptyInterface
      else case iface_prefix (to_lower s) of
        None \<Rightarrow> Inl UnknownTypePrefix
      | Some (t, lower) \<Rightarrow>
          (case cut_byte (CHR ''/'') lower of
             None \<Rightarrow> Inl ExpectedAdapterPort
           | Some (before, after) \<Rightarrow>
               (case atoi before of
                  None \<Rightarrow> Inl BadAdapter
                | Some a \<Rightarrow>
                    (case atoi after of
                       None \<Rightarrow> Inl BadPort
                     | Some p \<Rightarrow>
                         if a < 0 \<or> p < 0 then Inl NegativeCoordinate
                         else if p \<ge> ports_per_adapter then Inl PortExceeds
                         else Inr \<lparr> itype = t, adapter = a, port = p \<rparr>))))"

definition group_ifaces :: "iface_type \<Rightarrow> nat \<Rightarrow> iface list" where
  "group_ifaces t groups =
     concat (map (\<lambda>a. map (\<lambda>p. \<lparr> itype = t, adapter = int a, port = int p \<rparr>) [0..<ports_per_group])
                 [0..<groups])"

definition ifaces_for_counts :: "int \<Rightarrow> int \<Rightarrow> iface list" where
  "ifaces_for_counts eth_groups serial_groups =
     group_ifaces Ethernet (nat eth_groups) @ group_ifaces Serial (nat serial_groups)"

section \<open>The static NETMAP file\<close>

record static_entry =
  entry_instance :: int
  entry_iface :: iface
  entry_pseudo :: int

definition static_line :: "static_entry \<Rightarrow> string" where
  "static_line e = itoa (entry_instance e) @ '':'' @ itoa (adapter (entry_iface e)) @ ''/''
     @ itoa (port (entry_iface e)) @ '' '' @ itoa (entry_pseudo e) @ '':0/0''"

text \<open>The lines joined by newlines, with a newline after the last.\<close>

definition build_static :: "static_entry list \<Rightarrow> string" where
  "build_static entries =
     (let lines = sort (map static_line entries)
      in concat (map (\<lambda>l. l @ [CHR 0x0A]) lines))"

section \<open>Lemmas\<close>

lemma trim_space_no_space [go_strings]:
  "\<forall>c \<in> set s. \<not> is_space c \<Longrightarrow> trim_space s = s"
  by (simp add: trim_space_def dropWhile_none)

lemma to_lower_not_upper [go_strings]:
  "\<forall>c \<in> set s. (of_char c :: nat) \<notin> {65 .. 90} \<Longrightarrow> to_lower s = s"
  unfolding to_lower_def lower_char_def by (rule map_idI) auto

lemma iface_string_chars:
  assumes "c \<in> set (iface_string i)"
  shows "(of_char c :: nat) \<in> {45, 47, 101, 115} \<union> {48 .. 57}"
  using assms set_itoa [of c] by (auto simp: iface_string_def iface_type_string_def split: if_splits)

lemma iface_string_clean [simp]:
  "trim_space (iface_string i) = iface_string i" "to_lower (iface_string i) = iface_string i"
proof -
  have "\<not> is_space c" "(of_char c :: nat) \<notin> {65 .. 90}" if "c \<in> set (iface_string i)" for c
    using iface_string_chars [OF that] by (auto simp: is_space_def)
  then show "trim_space (iface_string i) = iface_string i" "to_lower (iface_string i) = iface_string i"
    by (simp_all add: trim_space_no_space to_lower_not_upper)
qed

lemma iface_prefix_string [simp]:
  "iface_prefix (iface_string i) =
     Some (itype i, itoa (adapter i) @ CHR ''/'' # itoa (port i))"
proof -
  have "hd (itoa a) \<noteq> CHR ''t''" "hd (itoa a) \<noteq> CHR ''e''" for a
    using set_itoa [of "hd (itoa a)" a] by auto
  moreover obtain x xs where "itoa (adapter i) = x # xs" by (cases "itoa (adapter i)") auto
  ultimately show ?thesis
    by (cases "itype i") (auto simp: iface_string_def iface_prefix_def iface_type_string_def
        dest: spec [of _ "adapter i"] split: if_splits; metis list.sel(1))+
qed

definition wf_iface :: "iface \<Rightarrow> bool" where
  "wf_iface i \<longleftrightarrow> 0 \<le> adapter i \<and> adapter i < 2 ^ 63 \<and> 0 \<le> port i \<and> port i < ports_per_adapter"

lemma parse_iface_string:
  assumes "wf_iface i" shows "parse_iface (iface_string i) = Inr i"
proof -
  have "iface_string i \<noteq> []" by (simp add: iface_string_def)
  moreover have "int_range (adapter i)" "int_range (port i)"
    using assms by (auto simp: wf_iface_def int_range_def ports_per_adapter_def)
  moreover have "CHR ''/'' \<notin> set (itoa (adapter i))" by simp
  ultimately show ?thesis using assms
    by (cases i) (simp add: parse_iface_def wf_iface_def)
qed

lemma atoi_range: "atoi s = Some v \<Longrightarrow> int_range v"
  by (auto simp: atoi_def Let_def split: if_splits option.splits)

lemma parse_iface_wf:
  assumes "parse_iface s = Inr i" shows "wf_iface i"
proof -
  have "0 \<le> adapter i \<and> int_range (adapter i) \<and> 0 \<le> port i \<and> port i < ports_per_adapter"
    using assms
    by (auto simp: parse_iface_def Let_def dest: atoi_range split: if_splits option.splits prod.splits)
  then show ?thesis by (auto simp: wf_iface_def int_range_def)
qed

lemma alloc_pseudo_loop_eq:
  "length out \<le> n \<Longrightarrow> alloc_pseudo_loop used n i out =
     out @ take (n - length out) (filter (\<lambda>j. \<not> used j) [i..max_iol_instance])"
proof (induction used n i out rule: alloc_pseudo_loop.induct)
  case (1 used n i out)
  show ?case
  proof (cases "i \<le> max_iol_instance \<and> length out < n")
    case True
    then obtain k where k: "n - length out = Suc k" by (metis Suc_diff_Suc)
    then have k': "n - Suc (length out) = k" by simp
    from True have "[i..max_iol_instance] = i # [i + 1..max_iol_instance]"
      by (simp add: upto_rec1)
    then show ?thesis using 1 True k k' by (subst alloc_pseudo_loop.simps) auto
  next
    case False
    then show ?thesis using 1 by (subst alloc_pseudo_loop.simps) auto
  qed
qed

lemma distinct_filter_upto [simp]: "distinct (take k (filter P [i..j]))"
  by (simp add: distinct_take)

definition line_key :: "static_entry \<Rightarrow> int \<times> int \<times> int \<times> int" where
  "line_key e = (entry_instance e, adapter (entry_iface e), port (entry_iface e), entry_pseudo e)"

lemma static_line_inject: "static_line d = static_line e \<longleftrightarrow> line_key d = line_key e"
proof -
  have "static_line d = itoa (entry_instance d) @ CHR '':'' # itoa (adapter (entry_iface d))
     @ CHR ''/'' # itoa (port (entry_iface d)) @ CHR '' '' # itoa (entry_pseudo d) @ '':0/0''" for d
    by (simp add: static_line_def)
  then show ?thesis by (simp add: append_sep_inject line_key_def)
qed

lemma static_line_no_newline [simp]: "CHR 0x0A \<notin> set (static_line e)"
  by (simp add: static_line_def)

lemma concat_lines_inject:
  assumes "\<forall>l \<in> set xs \<union> set ys. nl \<notin> set l"
    and "concat (map (\<lambda>l. l @ [nl :: char]) xs) = concat (map (\<lambda>l. l @ [nl]) ys)"
  shows "xs = ys"
  using assms
proof (induction xs arbitrary: ys)
  case Nil
  then show ?case by (cases ys) auto
next
  case (Cons x xs)
  then obtain y ys' where ys: "ys = y # ys'" by (cases ys) auto
  with Cons.prems have "x @ nl # concat (map (\<lambda>l. l @ [nl]) xs) = y @ nl # concat (map (\<lambda>l. l @ [nl]) ys')"
    by simp
  then have "x = y" "concat (map (\<lambda>l. l @ [nl]) xs) = concat (map (\<lambda>l. l @ [nl]) ys')"
    using Cons.prems(1) append_sep_inject [of nl x y] ys by auto
  then show ?case using Cons.IH [of ys'] Cons.prems(1) ys by auto
qed

lemma sort_eq_iff_mset: "sort xs = sort ys \<longleftrightarrow> mset xs = mset (ys :: string list)"
  by (metis mset_sort sorted_list_of_multiset_mset)

lemma mset_static_lines:
  "mset (map static_line ds) = mset (map static_line es) \<longleftrightarrow>
   mset (map line_key ds) = mset (map line_key es)"
proof -
  define line where "line = (\<lambda>(i, a, p, q). static_line
     \<lparr> entry_instance = i, entry_iface = \<lparr> itype = Ethernet, adapter = a, port = p \<rparr>, entry_pseudo = q \<rparr>)"
  have eq: "static_line e = line (line_key e)" for e
    by (simp add: line_def line_key_def static_line_def)
  have "inj line"
    by (auto simp: inj_def line_def static_line_inject line_key_def)
  then have "image_mset line M = image_mset line N \<longleftrightarrow> M = N" for M N
    by (metis inj_eq multiset.inj_map)
  moreover have "image_mset static_line (mset xs) = image_mset line (image_mset line_key (mset xs))" for xs
    by (simp add: multiset.map_comp comp_def eq [symmetric])
  ultimately show ?thesis by simp
qed

section \<open>Properties\<close>

text \<open>ParseIface accepts some spelling of an interface exactly when its coordinates
  are in range, and then the canonical spelling that String prints parses back to it.\<close>

theorem parse_iface_roundtrip:
  "((\<exists>s. parse_iface s = Inr i) = wf_iface i) \<and> ((parse_iface (iface_string i) = Inr i) = wf_iface i)"
  using parse_iface_string parse_iface_wf by blast

text \<open>AllocPseudoInstances hands out the lowest n free ids of [500, 1024] in ascending
  order, and fails, naming how many there were, exactly when fewer than n are free.\<close>

theorem alloc_pseudo_lowest_free:
  "alloc_pseudo_instances used n =
     (let free = filter (\<lambda>i. \<not> used i) [500..1024]
      in if length free < n then Inl (n, length free) else Inr (take n free))"
proof -
  define free where "free = filter (\<lambda>i. \<not> used i) [500..1024]"
  have "alloc_pseudo_loop used n pseudo_instance_base [] = take n free"
    using alloc_pseudo_loop_eq [of "[]" n used pseudo_instance_base]
    by (simp only: list.size append_Nil le0 minus_nat.diff_0 max_iol_instance_def
        pseudo_instance_base_def free_def simp_thms)
  then show ?thesis
    by (simp add: alloc_pseudo_instances_def Let_def free_def [symmetric] del: upto_rec_numeral)
qed

text \<open>Two entry lists give the same NETMAP text exactly when they wire the same
  interfaces of the same instances to the same pseudo-instances, in whatever order the
  entries come (BuildStatic is fed from a Go map iteration).\<close>

theorem build_static_canonical:
  "(build_static ds = build_static es) = (mset (map line_key ds) = mset (map line_key es))"
proof -
  have "build_static ds = build_static es \<longleftrightarrow> sort (map static_line ds) = sort (map static_line es)"
    unfolding build_static_def Let_def
    by (rule iffI, rule concat_lines_inject [where nl = "CHR 0x0A"]) auto
  then show ?thesis by (simp only: sort_eq_iff_mset mset_static_lines)
qed

end
