(* ===== verification/Lab_Doc.thy ===== *)
theory Lab_Doc
  imports Netmap Complex_Main
begin

text \<open>
  Package internal/lab: the lab document and its validation.  A Go string enum is a
  datatype whose last constructor carries any other spelling; a float64 of the
  document is a rational (JSON has no NaN or infinity); a json.RawMessage is a JSON
  value.  Validate returns the first violation, so it is a chain of checks here as
  it is there.
\<close>

section \<open>The document (lab.go)\<close>

datatype json =
    JNull | JBool bool | JNumber string | JString string
  | JArray "json list" | JObject "(string \<times> json) list"

datatype kind = KindIOL | KindVPCS | KindNAT | KindTool | KindPC | KindOther string

datatype image_class = ClassL2 | ClassL3 | ClassUnknown | ClassOther string

record image_ref =
  image_id :: string
  image_filename :: string
  image_class :: image_class

record node =
  node_id :: int
  node_kind :: kind
  node_name :: string
  node_image :: "image_ref option"
  node_ram :: int
  node_ethernet :: "int option"
  node_serial :: "int option"
  startup_config :: string
  node_config :: "string \<rightharpoonup> json"

datatype link_type = LinkUnset | LinkP2P | LinkSegment | LinkOther string

record endpoint =
  ep_node :: int
  ep_interface :: string

record capture =
  capture_enabled :: bool
  capture_mode :: string

record link_fault =
  fault_down :: bool
  delay_ms :: rat
  jitter_ms :: rat
  loss_pct :: rat
  rate_kbit :: int
  duplicate_pct :: rat
  reorder_pct :: rat
  target_endpoint :: "int option"
  fault_initial :: bool

record link =
  link_id :: int
  link_type :: link_type
  endpoints :: "endpoint list"
  link_capture :: "capture option"
  link_fault_def :: "link_fault option"

record lab =
  version :: int
  lab_id :: string
  lab_name :: string
  nodes :: "node list"
  links :: "link list"

definition effective_type :: "link \<Rightarrow> link_type" where
  "effective_type l = (if link_type l = LinkUnset then LinkP2P else link_type l)"

section \<open>Interfaces (interfaces.go)\<close>

definition positive_or :: "int option \<Rightarrow> int \<Rightarrow> int" where
  "positive_or v dflt = (case v of Some n \<Rightarrow> if n > 0 then n else dflt | None \<Rightarrow> dflt)"

definition node_interfaces :: "node \<Rightarrow> string list" where
  "node_interfaces n =
     (if node_kind n \<in> {KindVPCS, KindNAT} then [''eth0'']
      else if node_kind n \<in> {KindPC, KindTool} then [''eth1'']
      else map iface_string
             (ifaces_for_counts (positive_or (node_ethernet n) 1) (positive_or (node_serial n) 0)))"

section \<open>Validation (validate.go)\<close>

datatype lab_error =
    BadVersion int | LabIdRequired | LabNameRequired
  | NegativeNodeId string | DuplicateNodeId int | NodeNameRequired int | ImageRequired int
  | InstanceOutOfRange int | PackRequired int | PackNotString int | UnknownKind int kind
  | EthernetGroups int int | SerialGroups int int | RamTooSmall int int
  | NegativeLinkId | DuplicateLinkId int | TooFewEndpoints int | P2PEndpoints int nat
  | UnknownEndpointNode int int | EmptyEndpointInterface int int | BadInterface int iface_error
  | OnlyInterface kind int int string | ReferencedTwice kind int

definition validate_kind :: "node \<Rightarrow> lab_error option" where
  "validate_kind n =
     (case node_kind n of
        KindIOL \<Rightarrow>
          (case node_image n of
             None \<Rightarrow> Some (ImageRequired (node_id n))
           | Some img \<Rightarrow>
               if image_id img = [] then Some (ImageRequired (node_id n))
               else if \<not> validate_instance (node_id n) then Some (InstanceOutOfRange (node_id n))
               else None)
      | KindVPCS \<Rightarrow> None
      | KindNAT \<Rightarrow> None
      | KindTool \<Rightarrow>
          (case node_config n ''pack'' of
             None \<Rightarrow> Some (PackRequired (node_id n))
           | Some (JString s) \<Rightarrow> if s = [] then Some (PackNotString (node_id n)) else None
           | Some _ \<Rightarrow> Some (PackNotString (node_id n)))
      | KindPC \<Rightarrow> None
      | KindOther k \<Rightarrow> Some (UnknownKind (node_id n) (KindOther k)))"

definition groups_out_of_range :: "int option \<Rightarrow> bool" where
  "groups_out_of_range v = (case v of None \<Rightarrow> False | Some g \<Rightarrow> g < 0 \<or> g > 16)"

definition validate_node :: "(int \<rightharpoonup> node) \<Rightarrow> node \<Rightarrow> lab_error option" where
  "validate_node seen n =
     (if node_id n < 0 then Some (NegativeNodeId (node_name n))
      else if seen (node_id n) \<noteq> None then Some (DuplicateNodeId (node_id n))
      else if node_name n = [] then Some (NodeNameRequired (node_id n))
      else case validate_kind n of
        Some e \<Rightarrow> Some e
      | None \<Rightarrow>
          if groups_out_of_range (node_ethernet n)
            then Some (EthernetGroups (node_id n) (the (node_ethernet n)))
          else if groups_out_of_range (node_serial n)
            then Some (SerialGroups (node_id n) (the (node_serial n)))
          else if node_ram n \<noteq> 0 \<and> node_ram n < 32 then Some (RamTooSmall (node_id n) (node_ram n))
          else None)"

text \<open>The nodeByID map is built while the nodes are checked.\<close>

fun validate_nodes :: "(int \<rightharpoonup> node) \<Rightarrow> node list \<Rightarrow> (lab_error, int \<rightharpoonup> node) result" where
  "validate_nodes seen [] = Inr seen"
| "validate_nodes seen (n # ns) =
     (case validate_node seen n of
        Some e \<Rightarrow> Inl e
      | None \<Rightarrow> validate_nodes (seen(node_id n \<mapsto> n)) ns)"

text \<open>One endpoint: the new endpoint counts of the single-interface nodes, or the error.\<close>

definition single_endpoint ::
  "kind \<Rightarrow> string \<Rightarrow> int \<Rightarrow> (int \<Rightarrow> nat) \<Rightarrow> endpoint \<Rightarrow> (lab_error, int \<Rightarrow> nat) result" where
  "single_endpoint k ifname lid ext ep =
     (if ep_interface ep \<noteq> ifname then Inl (OnlyInterface k lid (ep_node ep) (ep_interface ep))
      else let ext' = ext(ep_node ep := ext (ep_node ep) + 1)
           in if ext' (ep_node ep) > 1 then Inl (ReferencedTwice k (ep_node ep)) else Inr ext')"

definition validate_endpoint ::
  "(int \<rightharpoonup> node) \<Rightarrow> int \<Rightarrow> (int \<Rightarrow> nat) \<Rightarrow> endpoint \<Rightarrow> (lab_error, int \<Rightarrow> nat) result" where
  "validate_endpoint by_id lid ext ep =
     (case by_id (ep_node ep) of
        None \<Rightarrow> Inl (UnknownEndpointNode lid (ep_node ep))
      | Some n \<Rightarrow>
          if ep_interface ep = [] then Inl (EmptyEndpointInterface lid (ep_node ep))
          else case node_kind n of
            KindIOL \<Rightarrow> (case parse_iface (ep_interface ep) of
                Inl e \<Rightarrow> Inl (BadInterface lid e) | Inr _ \<Rightarrow> Inr ext)
          | KindNAT \<Rightarrow> single_endpoint KindNAT ''eth0'' lid ext ep
          | KindTool \<Rightarrow> single_endpoint KindTool ''eth1'' lid ext ep
          | KindPC \<Rightarrow> single_endpoint KindPC ''eth1'' lid ext ep
          | _ \<Rightarrow> Inr ext)"

fun validate_endpoints ::
  "(int \<rightharpoonup> node) \<Rightarrow> int \<Rightarrow> (int \<Rightarrow> nat) \<Rightarrow> endpoint list \<Rightarrow> (lab_error, int \<Rightarrow> nat) result" where
  "validate_endpoints by_id lid ext [] = Inr ext"
| "validate_endpoints by_id lid ext (ep # eps) =
     (case validate_endpoint by_id lid ext ep of
        Inl e \<Rightarrow> Inl e
      | Inr ext' \<Rightarrow> validate_endpoints by_id lid ext' eps)"

fun validate_links ::
  "(int \<rightharpoonup> node) \<Rightarrow> int set \<Rightarrow> (int \<Rightarrow> nat) \<Rightarrow> link list \<Rightarrow> lab_error option" where
  "validate_links by_id seen ext [] = None"
| "validate_links by_id seen ext (l # ls) =
     (if link_id l < 0 then Some NegativeLinkId
      else if link_id l \<in> seen then Some (DuplicateLinkId (link_id l))
      else if length (endpoints l) < 2 then Some (TooFewEndpoints (link_id l))
      else if effective_type l = LinkP2P \<and> length (endpoints l) \<noteq> 2
        then Some (P2PEndpoints (link_id l) (length (endpoints l)))
      else case validate_endpoints by_id (link_id l) ext (endpoints l) of
        Inl e \<Rightarrow> Some e
      | Inr ext' \<Rightarrow> validate_links by_id (insert (link_id l) seen) ext' ls)"

definition validate :: "lab \<Rightarrow> lab_error option" where
  "validate l =
     (if version l \<noteq> 1 then Some (BadVersion (version l))
      else if lab_id l = [] then Some LabIdRequired
      else if lab_name l = [] then Some LabNameRequired
      else case validate_nodes Map.empty (nodes l) of
        Inl e \<Rightarrow> Some e
      | Inr by_id \<Rightarrow> validate_links by_id {} (\<lambda>_. 0) (links l))"

section \<open>What an accepted document satisfies\<close>

definition node_wf :: "node \<Rightarrow> bool" where
  "node_wf n \<longleftrightarrow> 0 \<le> node_id n \<and> node_name n \<noteq> [] \<and>
     (case node_kind n of
        KindIOL \<Rightarrow> (\<exists>img. node_image n = Some img \<and> image_id img \<noteq> []) \<and> node_id n < 1024
      | KindTool \<Rightarrow> (\<exists>s. node_config n ''pack'' = Some (JString s) \<and> s \<noteq> [])
      | KindOther _ \<Rightarrow> False
      | _ \<Rightarrow> True) \<and>
     (\<forall>g. node_ethernet n = Some g \<longrightarrow> 0 \<le> g \<and> g \<le> 16) \<and>
     (\<forall>g. node_serial n = Some g \<longrightarrow> 0 \<le> g \<and> g \<le> 16) \<and>
     (node_ram n = 0 \<or> 32 \<le> node_ram n)"

definition single_kind :: "kind \<Rightarrow> bool" where
  "single_kind k \<longleftrightarrow> k \<in> {KindNAT, KindTool, KindPC}"

definition endpoint_wf :: "(int \<rightharpoonup> node) \<Rightarrow> endpoint \<Rightarrow> bool" where
  "endpoint_wf by_id ep \<longleftrightarrow>
     (\<exists>n. by_id (ep_node ep) = Some n \<and> ep_interface ep \<noteq> [] \<and>
       (case node_kind n of
          KindIOL \<Rightarrow> (\<exists>i. parse_iface (ep_interface ep) = Inr i)
        | KindNAT \<Rightarrow> ep_interface ep = ''eth0''
        | KindTool \<Rightarrow> ep_interface ep = ''eth1''
        | KindPC \<Rightarrow> ep_interface ep = ''eth1''
        | _ \<Rightarrow> True))"

definition is_single :: "(int \<rightharpoonup> node) \<Rightarrow> endpoint \<Rightarrow> bool" where
  "is_single by_id ep = (case by_id (ep_node ep) of None \<Rightarrow> False | Some n \<Rightarrow> single_kind (node_kind n))"

definition single_count :: "(int \<rightharpoonup> node) \<Rightarrow> endpoint list \<Rightarrow> int \<Rightarrow> nat" where
  "single_count by_id eps i = length (filter (\<lambda>ep. is_single by_id ep \<and> ep_node ep = i) eps)"

definition link_wf :: "link \<Rightarrow> bool" where
  "link_wf l \<longleftrightarrow> 0 \<le> link_id l \<and> 2 \<le> length (endpoints l) \<and>
     (effective_type l = LinkP2P \<longrightarrow> length (endpoints l) = 2)"

definition nodes_by_id :: "lab \<Rightarrow> (int \<rightharpoonup> node)" where
  "nodes_by_id l = map_of (map (\<lambda>n. (node_id n, n)) (nodes l))"

definition lab_wf :: "lab \<Rightarrow> bool" where
  "lab_wf l \<longleftrightarrow> version l = 1 \<and> lab_id l \<noteq> [] \<and> lab_name l \<noteq> [] \<and>
     distinct (map node_id (nodes l)) \<and> (\<forall>n \<in> set (nodes l). node_wf n) \<and>
     distinct (map link_id (links l)) \<and> (\<forall>k \<in> set (links l). link_wf k) \<and>
     (\<forall>ep \<in> set (concat (map endpoints (links l))). endpoint_wf (nodes_by_id l) ep) \<and>
     (\<forall>i. single_count (nodes_by_id l) (concat (map endpoints (links l))) i \<le> 1)"

section \<open>Lemmas\<close>

lemma validate_kind_None:
  "validate_kind n = None \<longleftrightarrow>
     (case node_kind n of
        KindIOL \<Rightarrow> (\<exists>img. node_image n = Some img \<and> image_id img \<noteq> []) \<and> validate_instance (node_id n)
      | KindTool \<Rightarrow> (\<exists>s. node_config n ''pack'' = Some (JString s) \<and> s \<noteq> [])
      | KindOther _ \<Rightarrow> False
      | _ \<Rightarrow> True)"
  by (auto simp: validate_kind_def split: kind.splits option.splits json.splits)

lemma groups_in_range: "\<not> groups_out_of_range v \<longleftrightarrow> (\<forall>g. v = Some g \<longrightarrow> 0 \<le> g \<and> g \<le> 16)"
  by (auto simp: groups_out_of_range_def split: option.splits)

lemma node_wf_alt:
  "node_wf n \<longleftrightarrow> 0 \<le> node_id n \<and> node_name n \<noteq> [] \<and> validate_kind n = None \<and>
     \<not> groups_out_of_range (node_ethernet n) \<and> \<not> groups_out_of_range (node_serial n) \<and>
     (node_ram n = 0 \<or> 32 \<le> node_ram n)"
proof (cases "0 \<le> node_id n")
  case True
  then have "validate_instance (node_id n) \<longleftrightarrow> node_id n < 1024"
    by (auto simp: validate_instance_def instance_id_def max_iol_instance_def Let_def)
  then show ?thesis
    unfolding node_wf_def validate_kind_None groups_in_range by (simp only:)
qed (simp add: node_wf_def)

lemma validate_node_None:
  "validate_node seen n = None \<longleftrightarrow> node_wf n \<and> seen (node_id n) = None"
  unfolding validate_node_def node_wf_alt by (simp split: option.split)

lemma validate_nodes_Inr:
  "validate_nodes seen ns = Inr m \<longleftrightarrow>
     (\<forall>n \<in> set ns. node_wf n \<and> seen (node_id n) = None) \<and> distinct (map node_id ns) \<and>
     m = seen ++ map_of (map (\<lambda>n. (node_id n, n)) (rev ns))"
proof (induction seen ns rule: validate_nodes.induct)
  case (2 seen n ns)
  show ?case
  proof (cases "validate_node seen n")
    case None
    then have n: "node_wf n" "seen (node_id n) = None" by (simp_all add: validate_node_None)
    have "(\<forall>k \<in> set ns. node_wf k \<and> (seen(node_id n \<mapsto> n)) (node_id k) = None) \<longleftrightarrow>
        (\<forall>k \<in> set ns. node_wf k \<and> seen (node_id k) = None) \<and> node_id n \<notin> node_id ` set ns"
      by (auto split: if_splits) (metis image_eqI)
    moreover have "seen(node_id n \<mapsto> n) ++ map_of (map (\<lambda>n. (node_id n, n)) (rev ns)) =
        seen ++ map_of (map (\<lambda>n. (node_id n, n)) (rev (n # ns)))"
      by (rule ext) (simp add: map_add_def split: option.split)
    ultimately show ?thesis using n None 2 [OF None] by (simp del: fun_upd_apply)
  next
    case (Some e)
    then have "\<not> (node_wf n \<and> seen (node_id n) = None)" by (metis validate_node_None option.distinct(1))
    with Some show ?thesis by auto
  qed
qed auto

lemma map_of_rev_distinct:
  "distinct (map fst xs) \<Longrightarrow> map_of (rev xs) = map_of xs"
  by (rule map_of_inject_set [THEN iffD2]) (simp_all add: rev_map [symmetric])

lemma validate_endpoint_Inr:
  assumes "\<forall>i. ext i \<le> 1"
  shows "validate_endpoint by_id lid ext ep = Inr ext' \<longleftrightarrow>
     endpoint_wf by_id ep \<and>
     (if is_single by_id ep then ext (ep_node ep) = 0 \<and> ext' = ext(ep_node ep := 1) else ext' = ext)"
  using assms
  by (auto simp: validate_endpoint_def endpoint_wf_def is_single_def single_kind_def single_endpoint_def
      Let_def split: option.splits kind.splits sum.splits if_splits)

lemma single_count_Cons:
  "single_count by_id (ep # eps) i =
     (if is_single by_id ep \<and> ep_node ep = i then 1 else 0) + single_count by_id eps i"
  by (simp add: single_count_def)

lemma single_count_append [simp]:
  "single_count by_id (xs @ ys) i = single_count by_id xs i + single_count by_id ys i"
  by (simp add: single_count_def)

lemma single_count_Nil [simp]: "single_count by_id [] i = 0"
  by (simp add: single_count_def)

lemma validate_endpoints_Inr:
  assumes "\<forall>i. ext i \<le> 1"
  shows "validate_endpoints by_id lid ext eps = Inr ext' \<longleftrightarrow>
     (\<forall>ep \<in> set eps. endpoint_wf by_id ep) \<and>
     (\<forall>i. ext i + single_count by_id eps i \<le> 1) \<and> ext' = (\<lambda>i. ext i + single_count by_id eps i)"
  using assms
proof (induction eps arbitrary: ext)
  case (Cons ep eps)
  define ext1 where "ext1 = (if is_single by_id ep then ext(ep_node ep := 1) else ext)"
  show ?case
  proof (cases "endpoint_wf by_id ep \<and> (is_single by_id ep \<longrightarrow> ext (ep_node ep) = 0)")
    case True
    then have v: "validate_endpoint by_id lid ext ep = Inr ext1"
      using Cons.prems by (simp add: validate_endpoint_Inr ext1_def)
    have le: "\<forall>i. ext1 i \<le> 1" using Cons.prems by (auto simp: ext1_def)
    have sum: "ext1 i + single_count by_id eps i = ext i + single_count by_id (ep # eps) i" for i
      using True by (auto simp: ext1_def single_count_Cons)
    show ?thesis using True v Cons.IH [OF le] by (auto simp: sum)
  next
    case False
    then have "validate_endpoint by_id lid ext ep \<noteq> Inr z" for z
      using Cons.prems by (auto simp: validate_endpoint_Inr split: if_splits)
    then obtain e where "validate_endpoint by_id lid ext ep = Inl e"
      by (cases "validate_endpoint by_id lid ext ep") auto
    moreover have "\<not> (endpoint_wf by_id ep \<and> ext (ep_node ep) + single_count by_id (ep # eps) (ep_node ep) \<le> 1)"
      using False by (auto simp: single_count_Cons)
    ultimately show ?thesis by auto
  qed
qed auto

lemma validate_links_Cons:
  "validate_links by_id seen ext (l # ls) = None \<longleftrightarrow>
     link_wf l \<and> link_id l \<notin> seen \<and>
     (\<exists>ext'. validate_endpoints by_id (link_id l) ext (endpoints l) = Inr ext' \<and>
        validate_links by_id (insert (link_id l) seen) ext' ls = None)"
  by (auto simp: link_wf_def not_le not_less split: sum.splits)

lemma fresh_ids_insert:
  "(\<forall>k \<in> set ls. P k \<and> f k \<notin> insert x seen) \<longleftrightarrow> (\<forall>k \<in> set ls. P k \<and> f k \<notin> seen) \<and> x \<notin> f ` set ls"
  by auto

lemma validate_links_None:
  assumes "\<forall>i. ext i \<le> 1"
  shows "validate_links by_id seen ext ls = None \<longleftrightarrow>
     (\<forall>l \<in> set ls. link_wf l \<and> link_id l \<notin> seen) \<and> distinct (map link_id ls) \<and>
     (\<forall>ep \<in> set (concat (map endpoints ls)). endpoint_wf by_id ep) \<and>
     (\<forall>i. ext i + single_count by_id (concat (map endpoints ls)) i \<le> 1)"
  using assms
proof (induction ls arbitrary: seen ext)
  case (Cons l ls)
  define ext1 where "ext1 = (\<lambda>i. ext i + single_count by_id (endpoints l) i)"
  have sum: "ext1 i + single_count by_id (concat (map endpoints ls)) i =
        ext i + single_count by_id (concat (map endpoints (l # ls))) i" for i
    by (simp add: ext1_def)
  have eps: "validate_endpoints by_id (link_id l) ext (endpoints l) = Inr ext' \<longleftrightarrow>
      (\<forall>ep \<in> set (endpoints l). endpoint_wf by_id ep) \<and> (\<forall>i. ext1 i \<le> 1) \<and> ext' = ext1" for ext'
    using Cons.prems by (simp add: validate_endpoints_Inr ext1_def)
  have le: "(\<forall>i. ext i + single_count by_id (concat (map endpoints (l # ls))) i \<le> 1) \<Longrightarrow> (\<forall>i. ext1 i \<le> 1)"
    unfolding sum [symmetric] by (metis le_add1 order_trans)
  show ?case
  proof (cases "\<forall>i. ext1 i \<le> 1")
    case True
    note IH = Cons.IH [OF True, of "insert (link_id l) seen"]
    show ?thesis
      unfolding validate_links_Cons eps using True IH [unfolded sum fresh_ids_insert] by simp blast
  next
    case False
    then show ?thesis unfolding validate_links_Cons eps using le by blast
  qed
qed simp

section \<open>Properties\<close>

text \<open>C23. Validate accepts a lab document exactly when the document is well formed: the
  conjunction of everything validate.go's comment lists, the single-endpoint rule of the
  nat, tool and pc nodes counted over all the links of the document.\<close>

theorem validate_iff_wf: "(validate l = None) = lab_wf l"
proof (cases "validate_nodes Map.empty (nodes l)")
  case (Inl e)
  then have "\<not> ((\<forall>n \<in> set (nodes l). node_wf n) \<and> distinct (map node_id (nodes l)))"
    using validate_nodes_Inr [of Map.empty "nodes l"] by auto
  then show ?thesis using Inl by (auto simp: validate_def lab_wf_def)
next
  case (Inr m)
  then have ok: "\<forall>n \<in> set (nodes l). node_wf n" "distinct (map node_id (nodes l))"
    and m: "m = map_of (rev (map (\<lambda>n. (node_id n, n)) (nodes l)))"
    by (auto simp: validate_nodes_Inr rev_map)
  have "m = nodes_by_id l"
    unfolding m nodes_by_id_def by (rule map_of_rev_distinct) (use ok(2) in \<open>simp add: comp_def\<close>)
  then show ?thesis using Inr ok
    by (auto simp: validate_def lab_wf_def validate_links_None)
qed

end
