(* ===== verification/Fabric_Cmds.thy ===== *)
theory Fabric_Cmds
  imports Netmap Complex_Main
begin

text \<open>
  Package internal/fabric (commands.go, the command runner of manager_linux.go) and the
  retry wrapper of server/fabric_retry.go.  The argument vectors are data; running one is a
  parameter.  strconv.FormatFloat, which prints a netem number, is a parameter too.
\<close>

section \<open>Names\<close>

definition ifnamsiz :: nat where "ifnamsiz = 16"

definition tap_name :: "int \<Rightarrow> int \<Rightarrow> (string, string) result" where
  "tap_name inst flat =
     (let name = ''iol'' @ itoa inst @ ''_'' @ itoa flat
      in if length name > ifnamsiz - 1 then Inl name else Inr name)"

definition bridge_name :: "int \<Rightarrow> (string, string) result" where
  "bridge_name link_id =
     (let name = ''iolbr'' @ itoa link_id
      in if length name > ifnamsiz - 1 then Inl name else Inr name)"

section \<open>Commands\<close>

type_synonym argv = "string list"

definition disable_ipv6 :: "string \<Rightarrow> argv" where
  "disable_ipv6 name = [''sysctl'', ''-w'', ''net.ipv6.conf.'' @ name @ ''.disable_ipv6=1'']"

definition tap_create_cmds :: "string \<Rightarrow> int \<Rightarrow> argv list" where
  "tap_create_cmds name uid =
     [[''ip'', ''tuntap'', ''add'', ''dev'', name, ''mode'', ''tap'', ''user'', itoa uid],
      disable_ipv6 name,
      [''ip'', ''link'', ''set'', name, ''up'']]"

definition tap_delete_cmds :: "string \<Rightarrow> argv list" where
  "tap_delete_cmds name = [[''ip'', ''link'', ''del'', name]]"

definition bridge_create_cmds :: "string \<Rightarrow> argv list" where
  "bridge_create_cmds name =
     [[''ip'', ''link'', ''add'', name, ''type'', ''bridge'', ''group_fwd_mask'', ''0xfff8''],
      disable_ipv6 name,
      [''ip'', ''link'', ''set'', name, ''up'']]"

definition bridge_delete_cmds :: "string \<Rightarrow> argv list" where
  "bridge_delete_cmds name = [[''ip'', ''link'', ''del'', name]]"

definition attach_cmds :: "string \<Rightarrow> string \<Rightarrow> argv list" where
  "attach_cmds bridge tap = [[''ip'', ''link'', ''set'', tap, ''master'', bridge]]"

definition detach_cmds :: "string \<Rightarrow> argv list" where
  "detach_cmds tap = [[''ip'', ''link'', ''set'', tap, ''nomaster'']]"

record netem =
  nm_delay :: rat
  nm_jitter :: rat
  nm_loss :: rat
  nm_duplicate :: rat
  nm_reorder :: rat
  nm_rate :: int

definition netem_cmds :: "(rat \<Rightarrow> string) \<Rightarrow> string \<Rightarrow> netem \<Rightarrow> argv list" where
  "netem_cmds netem_number dev n =
     [[''tc'', ''qdisc'', ''replace'', ''dev'', dev, ''root'', ''netem'']
      @ (if nm_delay n > 0 then
           [''delay'', netem_number (nm_delay n) @ ''ms'']
           @ (if nm_jitter n > 0 then [netem_number (nm_jitter n) @ ''ms''] else [])
         else [])
      @ (if nm_loss n > 0 then [''loss'', netem_number (nm_loss n) @ ''%''] else [])
      @ (if nm_duplicate n > 0 then [''duplicate'', netem_number (nm_duplicate n) @ ''%''] else [])
      @ (if nm_reorder n > 0 then [''reorder'', netem_number (nm_reorder n) @ ''%'', ''50%''] else [])
      @ (if nm_rate n > 0 then [''rate'', itoa (nm_rate n) @ ''kbit''] else [])]"

definition netem_clear_cmds :: "string \<Rightarrow> argv list" where
  "netem_clear_cmds dev = [[''tc'', ''qdisc'', ''del'', ''dev'', dev, ''root'']]"

text \<open>The callers never pass an empty argument vector; Go would panic on one.\<close>

definition sudo_argv :: "int \<Rightarrow> argv \<Rightarrow> string \<times> argv" where
  "sudo_argv euid av = (if euid = 0 then (hd av, tl av) else (''sudo'', ''-n'' # av))"

section \<open>Running commands\<close>

text \<open>Running one command changes the state 'k of the kernel and gives nothing, or the text of
  the error together with the command's output.\<close>

type_synonym 'k runner = "argv \<Rightarrow> 'k \<Rightarrow> (string \<times> string) option \<times> 'k"

datatype fabric_op = OpCreateTap | OpDeleteTap | OpCreateBridge | OpDeleteBridge
  | OpAttach | OpDetach | OpNetemSet | OpNetemClear

fun contains :: "string \<Rightarrow> string \<Rightarrow> bool" where
  "contains [] sub = (sub = [])"
| "contains (c # cs) sub = (has_prefix (c # cs) sub \<or> contains cs sub)"

fun is_benign :: "fabric_op \<Rightarrow> string \<Rightarrow> bool" where
  "is_benign OpCreateTap out = (contains out ''file exists'' \<or> contains out ''device or resource busy'')"
| "is_benign OpCreateBridge out = (contains out ''file exists'' \<or> contains out ''device or resource busy'')"
| "is_benign OpDeleteTap out = (contains out ''cannot find device'' \<or> contains out ''does not exist''
     \<or> contains out ''no such device'')"
| "is_benign OpDeleteBridge out = (contains out ''cannot find device'' \<or> contains out ''does not exist''
     \<or> contains out ''no such device'')"
| "is_benign OpDetach out = (contains out ''cannot find device'' \<or> contains out ''does not exist''
     \<or> contains out ''no such device'')"
| "is_benign OpAttach out = contains out ''file exists''"
| "is_benign OpNetemClear out = (contains out ''no such file or directory''
     \<or> contains out ''cannot delete qdisc with handle of zero'' \<or> contains out ''invalid handle''
     \<or> contains out ''cannot find device'' \<or> contains out ''does not exist''
     \<or> contains out ''no such device'')"
| "is_benign OpNetemSet out = False"

fun join_words :: "string list \<Rightarrow> string" where
  "join_words [] = []"
| "join_words [w] = w"
| "join_words (w # ws) = w @ '' '' @ join_words ws"

definition fabric_error :: "argv \<Rightarrow> string \<Rightarrow> string \<Rightarrow> string" where
  "fabric_error av err out =
     ''fabric: `'' @ join_words av @ ''` failed: '' @ err @ '': '' @ trim_space out"

fun run_from :: "'k runner \<Rightarrow> fabric_op \<Rightarrow> nat \<Rightarrow> argv list \<Rightarrow> 'k \<Rightarrow> string option \<times> 'k" where
  "run_from run fo i [] k = (None, k)"
| "run_from run fo i (av # avs) k =
     (case run av k of
        (None, k') \<Rightarrow> run_from run fo (Suc i) avs k'
      | (Some (err, out), k') \<Rightarrow>
          if i = 0 \<and> is_benign fo (to_lower out) then run_from run fo (Suc i) avs k'
          else if av \<noteq> [] \<and> hd av = ''sysctl'' then run_from run fo (Suc i) avs k'
          else (Some (fabric_error av err out), k'))"

definition run_idempotent :: "'k runner \<Rightarrow> fabric_op \<Rightarrow> argv list \<Rightarrow> 'k \<Rightarrow> string option \<times> 'k" where
  "run_idempotent run fo avs k = run_from run fo 0 avs k"

definition ensure_tap :: "'k runner \<Rightarrow> string \<Rightarrow> int \<Rightarrow> 'k \<Rightarrow> string option \<times> 'k" where
  "ensure_tap run name uid = run_idempotent run OpCreateTap (tap_create_cmds name uid)"

definition delete_tap :: "'k runner \<Rightarrow> string \<Rightarrow> 'k \<Rightarrow> string option \<times> 'k" where
  "delete_tap run name = run_idempotent run OpDeleteTap (tap_delete_cmds name)"

definition ensure_bridge :: "'k runner \<Rightarrow> string \<Rightarrow> 'k \<Rightarrow> string option \<times> 'k" where
  "ensure_bridge run name = run_idempotent run OpCreateBridge (bridge_create_cmds name)"

definition delete_bridge :: "'k runner \<Rightarrow> string \<Rightarrow> 'k \<Rightarrow> string option \<times> 'k" where
  "delete_bridge run name = run_idempotent run OpDeleteBridge (bridge_delete_cmds name)"

definition attach_dev :: "'k runner \<Rightarrow> string \<Rightarrow> string \<Rightarrow> 'k \<Rightarrow> string option \<times> 'k" where
  "attach_dev run bridge tap = run_idempotent run OpAttach (attach_cmds bridge tap)"

definition detach_dev :: "'k runner \<Rightarrow> string \<Rightarrow> 'k \<Rightarrow> string option \<times> 'k" where
  "detach_dev run tap = run_idempotent run OpDetach (detach_cmds tap)"

definition set_netem :: "(rat \<Rightarrow> string) \<Rightarrow> 'k runner \<Rightarrow> string \<Rightarrow> netem \<Rightarrow> 'k \<Rightarrow> string option \<times> 'k" where
  "set_netem num run dev n = run_idempotent run OpNetemSet (netem_cmds num dev n)"

definition clear_netem :: "'k runner \<Rightarrow> string \<Rightarrow> 'k \<Rightarrow> string option \<times> 'k" where
  "clear_netem run dev = run_idempotent run OpNetemClear (netem_clear_cmds dev)"

section \<open>fabric_retry.go\<close>

definition fabric_retry_attempts :: nat where "fabric_retry_attempts = 3"

definition fabric_retry_base_delay :: nat where "fabric_retry_base_delay = 25"

definition is_transient_fabric_error :: "string \<Rightarrow> bool" where
  "is_transient_fabric_error err =
     (let s = to_lower err
      in contains s ''device or resource busy'' \<or> contains s ''resource temporarily unavailable'' \<or>
         contains s ''try again'')"

text \<open>The attempts still to make: the result, the number of calls of op, the milliseconds slept
  and the state left.\<close>

function retry_from ::
  "('k \<Rightarrow> string option \<times> 'k) \<Rightarrow> nat \<Rightarrow> string option \<Rightarrow> 'k \<Rightarrow> string option \<times> nat \<times> nat \<times> 'k" where
  "retry_from op attempt err k =
     (if attempt < fabric_retry_attempts then
        (case op k of
           (None, k') \<Rightarrow> (None, 1, 0, k')
         | (Some e, k') \<Rightarrow>
             if \<not> is_transient_fabric_error e \<or> attempt = fabric_retry_attempts - 1 then (Some e, 1, 0, k')
             else let (r, calls, slept, k'') = retry_from op (attempt + 1) (Some e) k'
                  in (r, calls + 1, slept + fabric_retry_base_delay * 2 ^ attempt, k''))
      else (err, 0, 0, k))"
  by pat_completeness auto
termination by (relation "measure (\<lambda>(op, attempt, err, k). fabric_retry_attempts - attempt)") auto

declare retry_from.simps [simp del]

definition retry_transient_fabric ::
  "('k \<Rightarrow> string option \<times> 'k) \<Rightarrow> 'k \<Rightarrow> string option \<times> nat \<times> nat \<times> 'k" where
  "retry_transient_fabric op k = retry_from op 0 None k"

section \<open>Lemmas\<close>

lemma tap_name_Inr:
  "tap_name i f = Inr n \<longleftrightarrow> n = ''iol'' @ itoa i @ CHR ''_'' # itoa f \<and> length n \<le> 15"
  by (auto simp: tap_name_def ifnamsiz_def Let_def)

lemma tap_name_inject:
  assumes "tap_name i f = Inr n" "tap_name j g = Inr n" shows "i = j \<and> f = g"
  using assms append_sep_inject [of "CHR ''_''" "itoa i" "itoa j" "itoa f" "itoa g"]
  by (simp add: tap_name_Inr)

lemma length_dec_digits: "n < 10 ^ k \<Longrightarrow> 0 < k \<Longrightarrow> length (dec_digits n) \<le> k"
proof (induction k arbitrary: n)
  case (Suc k)
  show ?case
  proof (cases "n < 10")
    case True
    then show ?thesis by (subst dec_digits.simps) simp
  next
    case False
    then have "k > 0" using Suc.prems(1) by (cases k) auto
    moreover have "n div 10 < 10 ^ k" using Suc.prems(1) by (simp add: less_mult_imp_div_less mult.commute)
    ultimately have "length (dec_digits (n div 10)) \<le> k" using Suc.IH by blast
    then show ?thesis using False by (subst dec_digits.simps) simp
  qed
qed simp

lemma length_itoa: "0 \<le> i \<Longrightarrow> i < 10 ^ k \<Longrightarrow> 0 < k \<Longrightarrow> length (itoa i) \<le> k"
  using length_dec_digits [of "nat i" k] by (simp add: itoa_def nat_less_iff)

lemma run_from_Suc_None:
  "run_from run fo (Suc i) [av] k =
     (case run av k of
        (None, k') \<Rightarrow> (None, k')
      | (Some (err, out), k') \<Rightarrow>
          if av \<noteq> [] \<and> hd av = ''sysctl'' then (None, k') else (Some (fabric_error av err out), k'))"
  by (auto split: option.splits prod.splits)

lemma run_idempotent_single:
  "run_idempotent run fo [av] k =
     (case run av k of
        (None, k') \<Rightarrow> (None, k')
      | (Some (err, out), k') \<Rightarrow>
          if is_benign fo (to_lower out) \<or> av \<noteq> [] \<and> hd av = ''sysctl'' then (None, k')
          else (Some (fabric_error av err out), k'))"
  by (auto simp: run_idempotent_def split: option.splits prod.splits)

lemma retry_unfold: "retry_transient_fabric op k =
   (case op k of (None, k1) \<Rightarrow> (None, 1, 0, k1)
    | (Some e0, k1) \<Rightarrow> if \<not> is_transient_fabric_error e0 then (Some e0, 1, 0, k1)
      else (case op k1 of (None, k2) \<Rightarrow> (None, 2, 25, k2)
        | (Some e1, k2) \<Rightarrow> if \<not> is_transient_fabric_error e1 then (Some e1, 2, 25, k2)
          else (case op k2 of (r, k3) \<Rightarrow> (r, 3, 75, k3))))"
  unfolding retry_transient_fabric_def
  by (subst retry_from.simps, subst retry_from.simps, subst retry_from.simps)
     (simp add: fabric_retry_attempts_def fabric_retry_base_delay_def numeral_2_eq_2
      split: option.split prod.split)

section \<open>Properties\<close>

text \<open>Interface names identify their device: a tap name that TapName accepts fits the kernel
  limit and determines the instance and the port it was made for.\<close>

theorem tap_name_identifies:
  "(tap_name i f = Inr n \<and> tap_name j g = Inr n) =
     (tap_name i f = Inr n \<and> i = j \<and> f = g)"
  using tap_name_inject by blast

text \<open>The retry wrapper calls the operation at most three times and sleeps at most 75 ms; the
  state it leaves is the one after its last call, it fails only with the error of that call, and
  when it gives up after fewer than three calls that error is not a transient one.\<close>

theorem retry_bounded:
  "(let (err, calls, slept, k') = retry_transient_fabric op k
    in 1 \<le> calls \<and> calls \<le> 3 \<and> slept \<le> 75 \<and>
       (err, k') = op (((\<lambda>q. snd (op q)) ^^ (calls - 1)) k) \<and>
       (calls = 3 \<or> err = None \<or> (\<exists>e. err = Some e \<and> \<not> is_transient_fabric_error e)))"
  unfolding retry_unfold by (simp add: Let_def numeral_2_eq_2 split: option.splits prod.splits)

text \<open>The retry around EnsureTap never sees a busy device that ip tuntap add reports: that
  failure counts as already done, so when the device is in fact missing the error returned is
  the one of the next step, after a single call.\<close>

theorem busy_create_not_retried:
  assumes "run (tap_create_cmds name uid ! 0) k = (Some (e0, out0), k1)"
    and "contains (to_lower out0) ''device or resource busy''"
    and "run (tap_create_cmds name uid ! 1) k1 = (r, k2)"
    and "run (tap_create_cmds name uid ! 2) k2 = (Some (e2, out2), k3)"
    and "\<not> is_transient_fabric_error (fabric_error (tap_create_cmds name uid ! 2) e2 out2)"
  shows "retry_transient_fabric (ensure_tap run name uid) k =
     (Some (fabric_error (tap_create_cmds name uid ! 2) e2 out2), 1, 0, k3)"
proof -
  have "ensure_tap run name uid k = (Some (fabric_error (tap_create_cmds name uid ! 2) e2 out2), k3)"
    using assms
    by (cases r) (auto simp: ensure_tap_def run_idempotent_def tap_create_cmds_def disable_ipv6_def)
  then show ?thesis using assms(5) by (simp add: retry_unfold)
qed

theorem busy_create_not_retried_witness:
  "let run = \<lambda>av k. if av = tap_create_cmds ''t'' 0 ! 0 then (Some (''exit status 1'', ''Device or resource busy''), k + 1)
                  else if av = tap_create_cmds ''t'' 0 ! 2 then (Some (''exit status 1'', ''Cannot find device''), k + 1)
                  else (None, k + (1 :: nat))
   in fst (snd (retry_transient_fabric (ensure_tap run ''t'' 0) 0)) = 1"
proof -
  define run :: "nat runner" where "run = (\<lambda>av k. if av = tap_create_cmds ''t'' 0 ! 0 then (Some (''exit status 1'', ''Device or resource busy''), k + 1)
                  else if av = tap_create_cmds ''t'' 0 ! 2 then (Some (''exit status 1'', ''Cannot find device''), k + 1)
                  else (None, k + (1 :: nat)))"
  have busy: "contains (to_lower ''Device or resource busy'') ''device or resource busy''"
    by code_simp
  have hard: "\<not> is_transient_fabric_error
      (fabric_error (tap_create_cmds ''t'' 0 ! 2) ''exit status 1'' ''Cannot find device'')"
    by code_simp
  have "retry_transient_fabric (ensure_tap run ''t'' 0) 0 =
     (Some (fabric_error (tap_create_cmds ''t'' 0 ! 2) ''exit status 1'' ''Cannot find device''), 1, 0, 3)"
    by (rule busy_create_not_retried [where ?e0.0 = "''exit status 1''" and ?out0.0 = "''Device or resource busy''"
          and r = None and ?k1.0 = 1 and ?k2.0 = 2, OF _ busy _ _ hard])
       (simp_all add: run_def tap_create_cmds_def disable_ipv6_def)
  then show ?thesis by (simp add: run_def)
qed

end
