(* ===== verification/Fabric_Plan.thy ===== *)
theory Fabric_Plan
  imports Lab_Doc Fabric_Cmds
begin

text \<open>
  Package internal/server, the static-tap plan: fabric.go and the naming helpers of
  bridgeplan.go.  The plan is a map from node id to a map from interface name to the
  interface's fabric identity, computed by walking the nodes in id order with one counter
  for the pseudo-instances.  The directory of the netio sockets (os.TempDir) is a parameter.
\<close>

section \<open>Which links live on the fabric\<close>

definition fabric_nodes :: "lab \<Rightarrow> int set" where
  "fabric_nodes doc = node_id ` {n \<in> set (nodes doc).
     node_kind n \<in> {KindIOL, KindNAT, KindVPCS, KindTool, KindPC}}"

definition is_fabric_link :: "link \<Rightarrow> int set \<Rightarrow> bool" where
  "is_fabric_link l fabric_ok =
     (if length (endpoints l) < 2 then False
      else list_all (\<lambda>ep. ep_node ep \<in> fabric_ok) (endpoints l))"

section \<open>Names\<close>

definition netio_dir :: "string \<Rightarrow> int \<Rightarrow> string" where
  "netio_dir tmp uid = tmp @ ''/netio'' @ itoa uid"

definition netio_path_for :: "string \<Rightarrow> int \<Rightarrow> int \<Rightarrow> string" where
  "netio_path_for tmp uid inst = netio_dir tmp uid @ ''/'' @ itoa inst"

definition vtap_dev_name :: "int \<Rightarrow> string" where
  "vtap_dev_name nid = ''iolvpc'' @ itoa nid"

section \<open>The plan\<close>

record iface_tap =
  tap_node :: int
  tap_instance :: int
  tap_iface :: iface
  flat_index :: int
  pseudo :: int
  tap_dev :: string
  tap_netio_path :: string

type_synonym plan = "int \<rightharpoonup> (string \<rightharpoonup> iface_tap)"

definition real_instances :: "lab \<Rightarrow> int set" where
  "real_instances doc = (\<lambda>n. instance_id (node_id n)) ` {n \<in> set (nodes doc). node_kind n = KindIOL}"

definition int_or :: "int option \<Rightarrow> int \<Rightarrow> int" where
  "int_or p d = (case p of None \<Rightarrow> d | Some v \<Rightarrow> v)"

text \<open>The closure alloc: the next id from the counter on that is not used; it is then used.\<close>

function alloc_pseudo :: "int set \<Rightarrow> int \<Rightarrow> int option \<times> int set \<times> int" where
  "alloc_pseudo used next_pseudo =
     (if next_pseudo \<le> max_iol_instance then
        (if next_pseudo \<notin> used
         then (Some next_pseudo, insert next_pseudo used, next_pseudo + 1)
         else alloc_pseudo used (next_pseudo + 1))
      else (None, used, next_pseudo))"
  by pat_completeness auto
termination by (relation "measure (\<lambda>(used, n). nat (max_iol_instance + 1 - n))") auto

declare alloc_pseudo.simps [simp del]

definition add_tap :: "int \<Rightarrow> string \<Rightarrow> iface_tap \<Rightarrow> plan \<Rightarrow> plan" where
  "add_tap nid key t out =
     (let m = (case out nid of None \<Rightarrow> Map.empty | Some m \<Rightarrow> m) in out(nid \<mapsto> m(key \<mapsto> t)))"

text \<open>The interfaces of one node.  A name that is too long skips the interface, an exhausted
  pool leaves the rest of the node's interfaces out.\<close>

fun plan_ifaces ::
  "string \<Rightarrow> int \<Rightarrow> int \<Rightarrow> iface list \<Rightarrow> int set \<Rightarrow> int \<Rightarrow> plan \<Rightarrow> int set \<times> int \<times> plan" where
  "plan_ifaces tmp uid nid [] used nxt out = (used, nxt, out)"
| "plan_ifaces tmp uid nid (i # is) used nxt out =
     (case tap_name (instance_id nid) (iface_index i) of
        Inl _ \<Rightarrow> plan_ifaces tmp uid nid is used nxt out
      | Inr name \<Rightarrow>
          (case alloc_pseudo used nxt of
             (None, used', nxt') \<Rightarrow> (used', nxt', out)
           | (Some p, used', nxt') \<Rightarrow>
               plan_ifaces tmp uid nid is used' nxt'
                 (add_tap nid (iface_string i)
                   \<lparr> tap_node = nid, tap_instance = instance_id nid, tap_iface = i,
                     flat_index = iface_index i, pseudo = p, tap_dev = name,
                     tap_netio_path = netio_path_for tmp uid p \<rparr> out)))"

fun plan_nodes :: "string \<Rightarrow> int \<Rightarrow> node list \<Rightarrow> int set \<Rightarrow> int \<Rightarrow> plan \<Rightarrow> plan" where
  "plan_nodes tmp uid [] used nxt out = out"
| "plan_nodes tmp uid (n # ns) used nxt out =
     (if node_kind n \<noteq> KindIOL then plan_nodes tmp uid ns used nxt out
      else case plan_ifaces tmp uid (node_id n) (ifaces_for_counts (int_or (node_ethernet n) 1) 0) used nxt out of
        (used', nxt', out') \<Rightarrow> plan_nodes tmp uid ns used' nxt' out')"

definition compute_static_taps :: "string \<Rightarrow> lab \<Rightarrow> int \<Rightarrow> plan" where
  "compute_static_taps tmp doc uid =
     plan_nodes tmp uid (sort_key node_id (nodes doc)) (real_instances doc) pseudo_instance_base Map.empty"

definition plan_taps :: "plan \<Rightarrow> iface_tap set" where
  "plan_taps taps = {t. \<exists>i m k. taps i = Some m \<and> m k = Some t}"

definition static_pseudo_set :: "plan \<Rightarrow> int set" where
  "static_pseudo_set taps = pseudo ` plan_taps taps"

definition static_netmap_entries :: "plan \<Rightarrow> static_entry set" where
  "static_netmap_entries taps =
     (\<lambda>t. \<lparr> entry_instance = tap_instance t, entry_iface = tap_iface t, entry_pseudo = pseudo t \<rparr>) ` plan_taps taps"

definition tap_for_endpoint :: "plan \<Rightarrow> endpoint \<Rightarrow> iface_tap option" where
  "tap_for_endpoint taps ep =
     (case parse_iface (ep_interface ep) of
        Inl _ \<Rightarrow> None
      | Inr i \<Rightarrow> (case taps (ep_node ep) of None \<Rightarrow> None | Some m \<Rightarrow> m (iface_string i)))"

section \<open>The invariant of the walk\<close>

definition tap_ok :: "lab \<Rightarrow> int \<Rightarrow> string \<Rightarrow> iface_tap \<Rightarrow> bool" where
  "tap_ok doc nid key t \<longleftrightarrow>
     tap_node t = nid \<and> tap_instance t = nid + 1 \<and> key = iface_string (tap_iface t) \<and>
     itype (tap_iface t) = Ethernet \<and> 0 \<le> adapter (tap_iface t) \<and>
     0 \<le> port (tap_iface t) \<and> port (tap_iface t) < 16 \<and>
     tap_name (nid + 1) (iface_index (tap_iface t)) = Inr (tap_dev t) \<and>
     500 \<le> pseudo t \<and> pseudo t \<le> 1024 \<and> pseudo t \<notin> real_instances doc"

definition plan_at :: "plan \<Rightarrow> int \<Rightarrow> string \<Rightarrow> iface_tap option" where
  "plan_at taps i k = (case taps i of None \<Rightarrow> None | Some m \<Rightarrow> m k)"

definition plan_inv :: "lab \<Rightarrow> int set \<Rightarrow> int \<Rightarrow> plan \<Rightarrow> bool" where
  "plan_inv doc used nxt out \<longleftrightarrow>
     real_instances doc \<subseteq> used \<and> 500 \<le> nxt \<and>
     (\<forall>i k t. plan_at out i k = Some t \<longrightarrow> tap_ok doc i k t \<and> pseudo t < nxt) \<and>
     (\<forall>i k t j h u. plan_at out i k = Some t \<longrightarrow> plan_at out j h = Some u \<longrightarrow>
        pseudo t = pseudo u \<longrightarrow> i = j \<and> k = h)"

lemma plan_at_add [simp]:
  "plan_at (add_tap nid key t out) i k = (if i = nid \<and> k = key then Some t else plan_at out i k)"
  by (simp add: plan_at_def add_tap_def Let_def split: option.split)

lemma alloc_pseudo_spec:
  "alloc_pseudo used nxt = (r, used', nxt') \<Longrightarrow>
     used \<subseteq> used' \<and> nxt \<le> nxt' \<and>
     (case r of None \<Rightarrow> True | Some p \<Rightarrow> nxt \<le> p \<and> p < nxt' \<and> p \<le> 1024 \<and> p \<notin> used)"
proof (induction used nxt rule: alloc_pseudo.induct)
  case (1 used nxt)
  show ?case
  proof (cases "nxt \<le> max_iol_instance \<and> nxt \<in> used")
    case True
    then have "alloc_pseudo used (nxt + 1) = (r, used', nxt')" using "1.prems" by (subst (asm) alloc_pseudo.simps) simp
    then show ?thesis using "1.IH" True by (auto split: option.splits)
  next
    case False
    then show ?thesis using "1.prems"
      by (subst (asm) alloc_pseudo.simps) (auto simp: max_iol_instance_def split: if_splits)
  qed
qed

lemma plan_inv_weaken:
  assumes "plan_inv doc used nxt out" "used \<subseteq> used'" "nxt \<le> nxt'"
  shows "plan_inv doc used' nxt' out"
  using assms unfolding plan_inv_def by (meson order_less_le_trans order_trans subset_trans)

lemma plan_inv_add:
  assumes inv: "plan_inv doc used nxt out" and tk: "tap_ok doc nid key t"
    and p: "nxt \<le> pseudo t" "pseudo t < nxt'" "used \<subseteq> used'"
  shows "plan_inv doc used' nxt' (add_tap nid key t out)"
proof -
  have old: "pseudo u < nxt" if "plan_at out i k = Some u" for i k u
    using inv that by (auto simp: plan_inv_def)
  have "tap_ok doc i k u \<and> pseudo u < nxt'" if "plan_at (add_tap nid key t out) i k = Some u" for i k u
  proof (cases "i = nid \<and> k = key")
    case True
    then show ?thesis using that tk p by simp
  next
    case False
    then have at: "plan_at out i k = Some u" using that by (auto split: if_splits)
    then have "tap_ok doc i k u" using inv unfolding plan_inv_def by blast
    then show ?thesis using old [OF at] p by simp
  qed
  moreover have "i = j \<and> k = h"
    if "plan_at (add_tap nid key t out) i k = Some u" "plan_at (add_tap nid key t out) j h = Some v"
      "pseudo u = pseudo v" for i k u j h v
  proof (cases "(i = nid \<and> k = key) \<or> (j = nid \<and> h = key)")
    case True
    then show ?thesis using that old [of i k u] old [of j h v] p(1) by (auto split: if_splits)
  next
    case False
    then have "plan_at out i k = Some u" "plan_at out j h = Some v" using that by auto
    then show ?thesis using inv that(3) unfolding plan_inv_def by blast
  qed
  ultimately show ?thesis
    using inv p unfolding plan_inv_def by (meson order_trans subset_trans less_imp_le)
qed

lemma ifaces_for_counts_wf:
  assumes "i \<in> set (ifaces_for_counts e 0)"
  shows "itype i = Ethernet \<and> 0 \<le> adapter i \<and> adapter i < e \<and> 0 \<le> port i \<and> port i < 4"
  using assms by (auto simp: ifaces_for_counts_def group_ifaces_def ports_per_group_def)

lemma plan_ifaces_inv:
  "plan_ifaces tmp uid nid is used nxt out = (used', nxt', out') \<Longrightarrow> plan_inv doc used nxt out \<Longrightarrow>
     \<forall>i \<in> set is. itype i = Ethernet \<and> 0 \<le> adapter i \<and> 0 \<le> port i \<and> port i < 16 \<Longrightarrow>
     plan_inv doc used' nxt' out'"
proof (induction "is" arbitrary: used nxt out)
  case (Cons i "is")
  show ?case
  proof (cases "tap_name (instance_id nid) (iface_index i)")
    case (Inl n)
    then show ?thesis using Cons by simp
  next
    case (Inr name)
    obtain r u n where al: "alloc_pseudo used nxt = (r, u, n)" by (cases "alloc_pseudo used nxt")
    note sp = alloc_pseudo_spec [OF al]
    show ?thesis
    proof (cases r)
      case None
      then show ?thesis using Cons.prems Inr al sp plan_inv_weaken by auto
    next
      case (Some p)
      define t where "t = \<lparr> tap_node = nid, tap_instance = instance_id nid, tap_iface = i,
                     flat_index = iface_index i, pseudo = p, tap_dev = name,
                     tap_netio_path = netio_path_for tmp uid p \<rparr>"
      have "real_instances doc \<subseteq> used" "500 \<le> nxt" using Cons.prems(2) by (auto simp: plan_inv_def)
      then have "tap_ok doc nid (iface_string i) t"
        using Cons.prems(3) sp Some Inr by (auto simp: tap_ok_def t_def instance_id_def)
      then have "plan_inv doc u n (add_tap nid (iface_string i) t out)"
        using plan_inv_add [OF Cons.prems(2)] sp Some by (simp add: t_def)
      moreover have "plan_ifaces tmp uid nid is u n (add_tap nid (iface_string i) t out) = (used', nxt', out')"
        using Cons.prems(1) Inr al Some by (simp add: t_def)
      ultimately show ?thesis using Cons.IH Cons.prems(3) by simp
    qed
  qed
qed simp

lemma plan_nodes_inv:
  "plan_inv doc used nxt out \<Longrightarrow> \<exists>used' nxt'. plan_inv doc used' nxt' (plan_nodes tmp uid ns used nxt out)"
proof (induction ns arbitrary: used nxt out)
  case (Cons n ns)
  show ?case
  proof (cases "node_kind n = KindIOL")
    case True
    obtain u x o' where r: "plan_ifaces tmp uid (node_id n)
        (ifaces_for_counts (int_or (node_ethernet n) 1) 0) used nxt out = (u, x, o')" by (metis prod_cases3)
    have "plan_inv doc u x o'"
      using plan_ifaces_inv [OF r Cons.prems] ifaces_for_counts_wf by fastforce
    then show ?thesis using Cons.IH True r by simp
  qed (use Cons in simp)
qed auto

lemma compute_static_taps_inv: "\<exists>used nxt. plan_inv doc used nxt (compute_static_taps tmp doc uid)"
  unfolding compute_static_taps_def
  by (rule plan_nodes_inv) (simp add: plan_inv_def plan_at_def pseudo_instance_base_def)

lemma tap_ok_dev_inject:
  assumes "tap_ok doc i k t" "tap_ok doc j h u" "tap_dev t = tap_dev u"
  shows "i = j \<and> k = h"
proof -
  have n: "tap_name (i + 1) (iface_index (tap_iface t)) = Inr (tap_dev t)"
    "tap_name (j + 1) (iface_index (tap_iface u)) = Inr (tap_dev t)"
    using assms by (auto simp: tap_ok_def)
  then have e: "i = j" "iface_index (tap_iface t) = iface_index (tap_iface u)"
    using tap_name_inject by fastforce+
  have pr: "0 \<le> port (tap_iface t)" "port (tap_iface t) < 16" "0 \<le> port (tap_iface u)" "port (tap_iface u) < 16"
    using assms by (auto simp: tap_ok_def)
  then have "adapter (tap_iface t) = adapter (tap_iface u) \<and> port (tap_iface t) = port (tap_iface u)"
    using e(2) unfolding iface_index_def ports_per_adapter_def by presburger
  then have "tap_iface t = tap_iface u" using assms by (simp add: tap_ok_def)
  then show ?thesis using e(1) assms by (simp add: tap_ok_def)
qed

definition one_node_lab :: lab where
  "one_node_lab = \<lparr> version = 1, lab_id = ''l'', lab_name = ''l'', nodes =
     [\<lparr> node_id = 0, node_kind = KindIOL, node_name = ''R1'', node_image = None, node_ram = 0,
        node_ethernet = None, node_serial = None, startup_config = [], node_config = Map.empty \<rparr>],
     links = [] \<rparr>"

lemma one_node_plan: "plan_at (compute_static_taps ''/tmp'' one_node_lab 0) 0 ''e0/0'' \<noteq> None"
  by code_simp

section \<open>Properties\<close>

text \<open>C34. The static-tap plan never makes two interfaces share anything: distinct interfaces have
  distinct pseudo-instances and distinct tap devices, every pseudo-instance lies in the reserved
  pool and is no real node's instance id, and each entry describes the interface it is filed
  under.\<close>

theorem static_taps_never_collide:
  assumes "plan_at (compute_static_taps tmp doc uid) i k = Some t"
    and "plan_at (compute_static_taps tmp doc uid) j h = Some u"
  shows "tap_ok doc i k t \<and> ((pseudo t = pseudo u) = (i = j \<and> k = h)) \<and>
     ((tap_dev t = tap_dev u) = (i = j \<and> k = h))"
proof -
  obtain used nxt where inv: "plan_inv doc used nxt (compute_static_taps tmp doc uid)"
    using compute_static_taps_inv by blast
  then have ok: "tap_ok doc i k t" "tap_ok doc j h u" using assms unfolding plan_inv_def by blast+
  have "pseudo t = pseudo u \<Longrightarrow> i = j \<and> k = h" using inv assms unfolding plan_inv_def by blast
  moreover have "tap_dev t = tap_dev u \<Longrightarrow> i = j \<and> k = h" using tap_ok_dev_inject ok by blast
  moreover have "i = j \<and> k = h \<Longrightarrow> t = u" using assms by auto
  ultimately show ?thesis using ok by blast
qed

lemma static_taps_never_collide_witness:
  "\<exists>t. plan_at (compute_static_taps ''/tmp'' one_node_lab 0) 0 ''e0/0'' = Some t \<and>
     tap_ok one_node_lab 0 ''e0/0'' t"
proof -
  obtain t where t: "plan_at (compute_static_taps ''/tmp'' one_node_lab 0) 0 ''e0/0'' = Some t"
    using one_node_plan by blast
  then show ?thesis using static_taps_never_collide [OF t t] by blast
qed

text \<open>Hot-connect rests on this: the plan depends on the nodes alone. Whatever links are drawn
  or removed, every interface keeps its tap and its pseudo-instance.\<close>

theorem static_taps_ignore_links:
  "compute_static_taps tmp (doc\<lparr>links := ls\<rparr>) uid = compute_static_taps tmp doc uid"
  by (simp add: compute_static_taps_def real_instances_def)

text \<open>Every spelling of an endpoint's interface that parses finds the tap of its canonical
  name, which is the tap planned for that very interface.\<close>

theorem endpoint_finds_own_tap:
  assumes "tap_for_endpoint (compute_static_taps tmp doc uid) ep = Some t"
  shows "tap_node t = ep_node ep \<and> parse_iface (ep_interface ep) = Inr (tap_iface t)"
proof -
  obtain i where i: "parse_iface (ep_interface ep) = Inr i"
    and at: "plan_at (compute_static_taps tmp doc uid) (ep_node ep) (iface_string i) = Some t"
    using assms by (auto simp: tap_for_endpoint_def plan_at_def split: sum.splits option.splits)
  obtain used nxt where "plan_inv doc used nxt (compute_static_taps tmp doc uid)"
    using compute_static_taps_inv by blast
  then have ok: "tap_ok doc (ep_node ep) (iface_string i) t" using at unfolding plan_inv_def by blast
  have key: "iface_string i = iface_string (tap_iface t)" and n: "tap_node t = ep_node ep"
    using ok by (auto simp: tap_ok_def)
  have "iface_prefix (iface_string i) = iface_prefix (iface_string (tap_iface t))" using key by simp
  then have "itype i = itype (tap_iface t)" "itoa (adapter i) @ CHR ''/'' # itoa (port i) =
      itoa (adapter (tap_iface t)) @ CHR ''/'' # itoa (port (tap_iface t))" by simp_all
  then have "tap_iface t = i" by (simp add: append_sep_inject)
  then show ?thesis using i n by simp
qed

lemma endpoint_finds_own_tap_witness:
  "\<exists>t. tap_for_endpoint (compute_static_taps ''/tmp'' one_node_lab 0)
      \<lparr> ep_node = 0, ep_interface = '' Ethernet0/0'' \<rparr> = Some t \<and> tap_node t = 0"
proof -
  have "parse_iface '' Ethernet0/0'' = Inr \<lparr> itype = Ethernet, adapter = 0, port = 0 \<rparr>" by code_simp
  moreover have "iface_string \<lparr> itype = Ethernet, adapter = 0, port = 0 \<rparr> = ''e0/0''" by code_simp
  ultimately obtain t where "tap_for_endpoint (compute_static_taps ''/tmp'' one_node_lab 0)
      \<lparr> ep_node = 0, ep_interface = '' Ethernet0/0'' \<rparr> = Some t"
    using one_node_plan by (auto simp: tap_for_endpoint_def plan_at_def split: option.splits)
  with endpoint_finds_own_tap [OF this] show ?thesis by auto
qed

end
