(* ===== verification/Allocators.thy ===== *)
theory Allocators
  imports Prelude
begin

text \<open>
  The two identifier pools of the supervisor: console and capture ports
  (internal/node/ports.go) and NAT subnet indices (internal/extnet/extnet.go).
  What their clients rely on is the locale id_pool; both allocators interpret it,
  so the no-double-allocation argument over arbitrary sequences of calls is made
  once.  A taken map, whose only stored value is true, is modelled as the set of its
  keys.  The mutex makes every call atomic, so a concurrent history is a sequence.
\<close>

section \<open>The contract of an identifier pool\<close>

datatype 'id pool_op = Acquire | Claim 'id | Give_back 'id

text \<open>A client history: the pool state and the identifiers handed out and not returned.\<close>

fun run_pool ::
  "('s \<Rightarrow> ('id \<times> 's) option) \<Rightarrow> ('id \<Rightarrow> 's \<Rightarrow> 's option) \<Rightarrow> ('id \<Rightarrow> 's \<Rightarrow> 's) \<Rightarrow>
   'id pool_op list \<Rightarrow> 's \<times> 'id list \<Rightarrow> 's \<times> 'id list" where
  "run_pool nxt rsv rel [] st = st"
| "run_pool nxt rsv rel (Acquire # ops) (s, out) =
     run_pool nxt rsv rel ops
       (case nxt s of None \<Rightarrow> (s, out) | Some (i, s') \<Rightarrow> (s', i # out))"
| "run_pool nxt rsv rel (Claim i # ops) (s, out) =
     run_pool nxt rsv rel ops
       (case rsv i s of None \<Rightarrow> (s, out) | Some s' \<Rightarrow> (s', i # out))"
| "run_pool nxt rsv rel (Give_back i # ops) (s, out) =
     run_pool nxt rsv rel ops (rel i s, removeAll i out)"

locale id_pool =
  fixes next_id :: "'s \<Rightarrow> ('id \<times> 's) option"
    and release :: "'id \<Rightarrow> 's \<Rightarrow> 's"
    and held :: "'s \<Rightarrow> 'id set"
    and pool :: "'s \<Rightarrow> 'id set"
  assumes next_Some: "next_id s = Some (i, s') \<Longrightarrow>
      i \<in> pool s \<and> i \<notin> held s \<and> held s' = insert i (held s) \<and> pool s' = pool s"
    and next_None: "next_id s = None \<longleftrightarrow> pool s \<subseteq> held s"
    and release_held: "held (release i s) = held s - {i}"
    and release_pool: "pool (release i s) = pool s"
begin

lemma released_is_available: "i \<in> pool s \<Longrightarrow> next_id (release i s) \<noteq> None"
  by (auto simp: next_None release_held release_pool)

end

locale reserving_pool = id_pool +
  fixes reserve :: "'b \<Rightarrow> 'a \<Rightarrow> 'a option"
  assumes reserve_Some: "reserve i s = Some s' \<Longrightarrow>
      i \<notin> held s \<and> held s' = insert i (held s) \<and> pool s' = pool s"
    and reserve_None: "reserve i s = None \<Longrightarrow> i \<in> held s \<or> i \<notin> pool s"
begin

definition consistent :: "'a \<times> 'b list \<Rightarrow> bool" where
  "consistent st \<longleftrightarrow> distinct (snd st) \<and> set (snd st) = held (fst st)"

lemma consistent_acquire:
  "consistent (s, out) \<Longrightarrow>
     consistent (case next_id s of None \<Rightarrow> (s, out) | Some (i, s') \<Rightarrow> (s', i # out))"
  by (cases "next_id s") (auto simp: consistent_def dest: next_Some split: prod.splits)

lemma consistent_claim:
  "consistent (s, out) \<Longrightarrow>
     consistent (case reserve i s of None \<Rightarrow> (s, out) | Some s' \<Rightarrow> (s', i # out))"
  by (cases "reserve i s") (auto simp: consistent_def dest: reserve_Some)

lemma consistent_give_back: "consistent (s, out) \<Longrightarrow> consistent (release i s, removeAll i out)"
  by (auto simp: consistent_def release_held distinct_removeAll)

lemma run_pool_consistent:
  "consistent st \<Longrightarrow> consistent (run_pool next_id reserve release ops st)"
proof (induction ops arbitrary: st)
  case (Cons op ops)
  then show ?case
    by (cases op; cases st) (simp_all only: run_pool.simps consistent_acquire consistent_claim consistent_give_back)
qed simp

end

section \<open>node.PortAllocator\<close>

record port_allocator =
  base_port :: int
  max_port :: int
  taken_ports :: "int set"

definition new_port_allocator :: "int \<Rightarrow> int \<Rightarrow> port_allocator" where
  "new_port_allocator base count =
     \<lparr> base_port = base,
       max_port = (if count > 0 \<and> base + count < 65536 then base + count else 65536),
       taken_ports = {} \<rparr>"

definition port_next :: "port_allocator \<Rightarrow> (int \<times> port_allocator) option" where
  "port_next p =
     (case find (\<lambda>port. port \<notin> taken_ports p) [base_port p..max_port p - 1] of
        Some port \<Rightarrow> Some (port, p\<lparr>taken_ports := insert port (taken_ports p)\<rparr>)
      | None \<Rightarrow> None)"

definition port_reserve :: "int \<Rightarrow> port_allocator \<Rightarrow> port_allocator option" where
  "port_reserve port p =
     (if port \<in> taken_ports p then None
      else Some (p\<lparr>taken_ports := insert port (taken_ports p)\<rparr>))"

definition port_release :: "int \<Rightarrow> port_allocator \<Rightarrow> port_allocator" where
  "port_release port p = p\<lparr>taken_ports := taken_ports p - {port}\<rparr>"

section \<open>extnet.SubnetAllocator\<close>

definition max_subnet_index :: int where
  "max_subnet_index = 255"

type_synonym subnet_allocator = "int set"

definition new_subnet_allocator :: subnet_allocator where
  "new_subnet_allocator = {}"

definition subnet_next :: "subnet_allocator \<Rightarrow> (int \<times> subnet_allocator) option" where
  "subnet_next taken =
     (case find (\<lambda>n. n \<notin> taken) [1..max_subnet_index] of
        Some n \<Rightarrow> Some (n, insert n taken)
      | None \<Rightarrow> None)"

definition subnet_reserve :: "int \<Rightarrow> subnet_allocator \<Rightarrow> subnet_allocator option" where
  "subnet_reserve n taken =
     (if n < 1 \<or> n > max_subnet_index then None
      else if n \<in> taken then None
      else Some (insert n taken))"

definition subnet_release :: "int \<Rightarrow> subnet_allocator \<Rightarrow> subnet_allocator" where
  "subnet_release n taken = taken - {n}"

definition gateway_ip :: "int \<Rightarrow> string" where
  "gateway_ip n = ''172.31.'' @ itoa n @ ''.1''"

definition subnet_cidr :: "int \<Rightarrow> string" where
  "subnet_cidr n = ''172.31.'' @ itoa n @ ''.1/24''"

definition subnet_network :: "int \<Rightarrow> string" where
  "subnet_network n = ''172.31.'' @ itoa n @ ''.0/24''"

definition pool_start :: "int \<Rightarrow> string" where
  "pool_start n = ''172.31.'' @ itoa n @ ''.100''"

definition pool_end :: "int \<Rightarrow> string" where
  "pool_end n = ''172.31.'' @ itoa n @ ''.199''"

definition nat_tap_name :: "int \<Rightarrow> string" where
  "nat_tap_name node_id = ''iolnat'' @ itoa node_id"

section \<open>Interpretations\<close>

lemma find_upto_Some:
  "find P [a..b] = Some (i :: int) \<Longrightarrow> P i \<and> a \<le> i \<and> i \<le> b \<and> (\<forall>j. a \<le> j \<and> j < i \<longrightarrow> \<not> P j)"
proof (induction a b rule: upto.induct)
  case (1 a b)
  show ?case
  proof (cases "a \<le> b")
    case True
    then have eq: "[a..b] = a # [a + 1..b]" by (simp add: upto_rec1)
    show ?thesis
    proof (cases "P a")
      case False
      then have "find P [a + 1..b] = Some i" using 1(2) eq by simp
      from 1(1) [OF True this] False show ?thesis
        by (auto) (metis add1_zle_eq order_le_less)
    qed (use 1(2) eq True in auto)
  qed (use 1(2) in simp)
qed

lemma find_upto_None: "find P [a..b] = None \<longleftrightarrow> (\<forall>i. a \<le> i \<and> i \<le> b \<longrightarrow> \<not> P (i :: int))"
  by (auto simp: find_None_iff)

interpretation ports: reserving_pool port_next port_release taken_ports
    "\<lambda>p. {base_port p ..< max_port p}" port_reserve
  by unfold_locales
     (auto simp: port_next_def port_release_def port_reserve_def find_upto_None
        dest!: find_upto_Some split: option.splits if_splits)

interpretation subnets: reserving_pool subnet_next subnet_release "\<lambda>s. s"
    "\<lambda>_. {1 .. max_subnet_index}" subnet_reserve
  by unfold_locales
     (auto simp: subnet_next_def subnet_release_def subnet_reserve_def find_upto_None
        dest!: find_upto_Some split: option.splits if_splits)

section \<open>Properties\<close>

text \<open>Over any sequence of Next, Reserve and Release calls on a new port allocator, the
  ports out at the end are pairwise different and are exactly the ports it has marked.\<close>

theorem ports_never_handed_out_twice:
  "(let (p, out) = run_pool port_next port_reserve port_release ops (new_port_allocator base count, [])
    in distinct out \<and> set out = taken_ports p)"
proof -
  have "ports.consistent (new_port_allocator base count, [])"
    by (simp add: ports.consistent_def new_port_allocator_def)
  from ports.run_pool_consistent [OF this, of ops] show ?thesis
    by (simp add: ports.consistent_def Let_def split_beta)
qed

text \<open>Next fails exactly when the whole range is taken, and otherwise hands out the
  lowest free port of the range, marking it and nothing else.\<close>

theorem port_next_lowest:
  "port_next p = (if {base_port p ..< max_port p} \<subseteq> taken_ports p then None
     else let port = Min ({base_port p ..< max_port p} - taken_ports p)
          in Some (port, p\<lparr>taken_ports := insert port (taken_ports p)\<rparr>))"
proof (cases "find (\<lambda>port. port \<notin> taken_ports p) [base_port p..max_port p - 1]")
  case None
  then have "{base_port p ..< max_port p} \<subseteq> taken_ports p" by (auto simp: find_upto_None)
  then show ?thesis using None by (simp add: port_next_def)
next
  case (Some port)
  note f = find_upto_Some [OF Some]
  have "Min ({base_port p ..< max_port p} - taken_ports p) = port"
    by (rule Min_eqI) (use f in \<open>auto simp: not_le [symmetric]\<close>)
  moreover have "\<not> {base_port p ..< max_port p} \<subseteq> taken_ports p" using f by auto
  ultimately show ?thesis using Some by (simp add: port_next_def Let_def)
qed

end
