(* ===== verification/Fabric_Runtime.thy ===== *)
theory Fabric_Runtime
  imports Fabric_Plan Allocators "HOL-Library.AList"
begin

text \<open>
  Realising links on the fabric: the link half of server/fabric_linux.go (attach,
  detach, admin-down, impairments, the fully-attached test and the passes over a
  lab's links), the bridge side of extnet.Endpoint and tool.Endpoint, and the
  fault records of server/loaded.go that these functions read.

  The Linux kernel is outside the repository.  It is a parameter: a record of the
  command runner and of the sysfs reads the code makes, over an arbitrary state.
  What ip and tc are documented to do to bridge membership and to qdiscs are the
  predicates ip_laws and tc_laws, hypotheses of the theorems that need them.  They do
  not say that a command succeeds: the code ignores a release (nomaster) that the
  kernel refuses and a member list it cannot read, and the theorems name the devices
  this leaves behind.  A small kernel near the end of the theory satisfies the laws
  and carries the witnesses.
\<close>

record 'k kernel =
  kern_run :: "'k runner"
  kern_exists :: "string \<Rightarrow> 'k \<Rightarrow> bool"
  kern_master :: "string \<Rightarrow> 'k \<Rightarrow> string option"
  kern_members :: "string \<Rightarrow> 'k \<Rightarrow> string list option"
  kern_number :: "rat \<Rightarrow> string"
  kern_dirstat :: "(nat \<times> string) list \<Rightarrow> 'k \<Rightarrow> bool"
  kern_slowtee :: "string list \<Rightarrow> 'k \<Rightarrow> bool"

section \<open>extnet.Endpoint on a bridge\<close>

record nat_endpoint =
  ne_dev :: string
  ne_subnet :: int
  ne_default :: string
  ne_bridge :: string
  ne_closed :: bool

fun extnet_run_cmds :: "'k runner \<Rightarrow> argv list \<Rightarrow> 'k \<Rightarrow> string option \<times> 'k" where
  "extnet_run_cmds run [] k = (None, k)"
| "extnet_run_cmds run (av # avs) k =
     (case run av k of
        (None, k') \<Rightarrow> extnet_run_cmds run avs k'
      | (Some (err, out), k') \<Rightarrow>
          if av \<noteq> [] \<and> hd av = ''sysctl'' then extnet_run_cmds run avs k'
          else (Some (''extnet: `'' @ join_words av @ ''` failed: '' @ err @ '': '' @ trim_space out), k'))"

fun run_best_effort :: "'k runner \<Rightarrow> argv list \<Rightarrow> 'k \<Rightarrow> 'k" where
  "run_best_effort run [] k = k"
| "run_best_effort run (av # avs) k = run_best_effort run avs (snd (run av k))"

definition mask_cmd :: "int \<Rightarrow> string \<Rightarrow> argv" where
  "mask_cmd sub dflt = [''iptables'', ''-t'', ''nat'', ''-A'', ''POSTROUTING'',
     ''-s'', subnet_network sub, ''-o'', dflt, ''-j'', ''MASQUERADE'']"

definition fwd_out_cmd :: "int \<Rightarrow> string \<Rightarrow> string \<Rightarrow> argv" where
  "fwd_out_cmd sub ifc dflt = [''iptables'', ''-A'', ''FORWARD'',
     ''-i'', ifc, ''-o'', dflt, ''-s'', subnet_network sub, ''-j'', ''ACCEPT'']"

definition fwd_in_cmd :: "int \<Rightarrow> string \<Rightarrow> string \<Rightarrow> argv" where
  "fwd_in_cmd sub ifc dflt = [''iptables'', ''-A'', ''FORWARD'',
     ''-i'', dflt, ''-o'', ifc, ''-d'', subnet_network sub,
     ''-m'', ''state'', ''--state'', ''RELATED,ESTABLISHED'', ''-j'', ''ACCEPT'']"

fun del_rule :: "argv \<Rightarrow> argv" where
  "del_rule [] = []"
| "del_rule (a # as) = (if a = ''-A'' \<or> a = ''-I'' then ''-D'' # as else a # del_rule as)"

definition nat_bridge_attach_cmds :: "string \<Rightarrow> string \<Rightarrow> int \<Rightarrow> string \<Rightarrow> argv list" where
  "nat_bridge_attach_cmds dev br sub dflt =
     [[''ip'', ''link'', ''set'', dev, ''master'', br],
      [''ip'', ''addr'', ''add'', subnet_cidr sub, ''dev'', br],
      [''sysctl'', ''-w'', ''net.ipv4.ip_forward=1''],
      mask_cmd sub dflt, fwd_out_cmd sub br dflt, fwd_in_cmd sub br dflt]"

definition nat_bridge_detach_cmds :: "string \<Rightarrow> string \<Rightarrow> int \<Rightarrow> string \<Rightarrow> argv list" where
  "nat_bridge_detach_cmds dev br sub dflt =
     [del_rule (mask_cmd sub dflt), del_rule (fwd_out_cmd sub br dflt), del_rule (fwd_in_cmd sub br dflt),
      [''ip'', ''addr'', ''del'', subnet_cidr sub, ''dev'', br],
      [''ip'', ''link'', ''set'', dev, ''nomaster'']]"

definition nat_detach_bridge :: "'k runner \<Rightarrow> nat_endpoint \<Rightarrow> 'k \<Rightarrow> nat_endpoint \<times> 'k" where
  "nat_detach_bridge run e k =
     (let br = ne_bridge e; e' = e \<lparr> ne_bridge := [] \<rparr>
      in if br = [] then (e', k)
         else (e', run_best_effort run (nat_bridge_detach_cmds (ne_dev e) br (ne_subnet e) (ne_default e)) k))"

definition nat_attach_bridge ::
  "'k runner \<Rightarrow> string \<Rightarrow> nat_endpoint \<Rightarrow> 'k \<Rightarrow> string option \<times> nat_endpoint \<times> 'k" where
  "nat_attach_bridge run br e k =
     (if ne_closed e then (None, e, k)
      else if ne_bridge e = br then (None, e, k)
      else let (e1, k1) = (if ne_bridge e \<noteq> [] then nat_detach_bridge run e k else (e, k))
           in case extnet_run_cmds run (nat_bridge_attach_cmds (ne_dev e1) br (ne_subnet e1) (ne_default e1)) k1 of
                (Some err, k2) \<Rightarrow> (Some err, e1, k2)
              | (None, k2) \<Rightarrow> (None, e1 \<lparr> ne_bridge := br \<rparr>, k2))"

section \<open>tool.Endpoint on a bridge\<close>

record tool_endpoint =
  te_node :: int
  te_bridge :: string
  te_state :: string

definition host_veth_name :: "int \<Rightarrow> string" where
  "host_veth_name nid = ''vtool'' @ itoa nid"

fun tool_run_cmds :: "'k runner \<Rightarrow> argv list \<Rightarrow> 'k \<Rightarrow> string option \<times> 'k" where
  "tool_run_cmds run [] k = (None, k)"
| "tool_run_cmds run (av # avs) k =
     (case run av k of
        (None, k') \<Rightarrow> tool_run_cmds run avs k'
      | (Some (err, out), k') \<Rightarrow>
          let message = trim_space out
          in (Some (if message = [] then ''tool: command '' @ hd av @ '' failed: '' @ err
                    else ''tool: command '' @ hd av @ '' failed: '' @ err @ '': '' @ message), k'))"

definition netns_attach_veth_cmds :: "int \<Rightarrow> string \<Rightarrow> argv list" where
  "netns_attach_veth_cmds nid br = [[''ip'', ''link'', ''set'', host_veth_name nid, ''master'', br]]"

definition netns_detach_veth_cmds :: "int \<Rightarrow> argv list" where
  "netns_detach_veth_cmds nid = [[''ip'', ''link'', ''set'', host_veth_name nid, ''nomaster'']]"

definition tool_detach_bridge :: "'k runner \<Rightarrow> tool_endpoint \<Rightarrow> 'k \<Rightarrow> tool_endpoint \<times> 'k" where
  "tool_detach_bridge run e k =
     (e \<lparr> te_bridge := [] \<rparr>, snd (tool_run_cmds run (netns_detach_veth_cmds (te_node e)) k))"

definition tool_attach_bridge ::
  "'k runner \<Rightarrow> string \<Rightarrow> tool_endpoint \<Rightarrow> 'k \<Rightarrow> string option \<times> tool_endpoint \<times> 'k" where
  "tool_attach_bridge run br e k =
     (if te_state e = ''stopped'' \<or> te_state e = ''crashed'' then (None, e, k)
      else if te_bridge e = br then (None, e, k)
      else let (e1, k1) = (if te_bridge e \<noteq> [] then tool_detach_bridge run e k else (e, k))
           in case tool_run_cmds run (netns_attach_veth_cmds (te_node e1) br) k1 of
                (Some err, k2) \<Rightarrow> (Some err, e1, k2)
              | (None, k2) \<Rightarrow> (None, e1 \<lparr> te_bridge := br \<rparr>, k2))"

section \<open>The runtime state of a lab\<close>

text \<open>A fault definition carries the identity of its Go pointer, a timer is the index of a
  time.Timer.\<close>

record active_fault =
  af_fault :: "(nat \<times> link_fault) option"
  af_active :: bool
  af_timer :: "nat option"

record node_runtime =
  nr_extnet :: "nat_endpoint option"
  nr_tool :: "tool_endpoint option"
  nr_vtap :: bool
  nr_vtap_name :: string

record fabric_lab =
  fl_doc :: lab
  fl_taps :: plan
  fl_nodes :: "int \<rightharpoonup> node_runtime"
  fl_attached :: "int \<Rightarrow> bool"
  fl_faults :: "int \<rightharpoonup> active_fault"
  fl_dirstats :: "int \<rightharpoonup> (nat \<times> string) list"
  fl_slowtees :: "int \<rightharpoonup> string list"

datatype fabric_failure =
    BadBridgeName int string | BridgeFailed string string
  | NatAttachFailed int string string | VpcsAttachFailed string string string
  | ToolAttachFailed int string string | NoStaticTap int int string | TapAttachFailed string string string
  | NetemUnavailable int | NetemFailed int string string

definition find_node :: "fabric_lab \<Rightarrow> int \<Rightarrow> node option" where
  "find_node ll i = find (\<lambda>n. node_id n = i) (nodes (fl_doc ll))"

definition find_link :: "fabric_lab \<Rightarrow> int \<Rightarrow> link option" where
  "find_link ll i = find (\<lambda>l. link_id l = i) (links (fl_doc ll))"

definition set_extnet :: "int \<Rightarrow> nat_endpoint \<Rightarrow> fabric_lab \<Rightarrow> fabric_lab" where
  "set_extnet i e ll = (case fl_nodes ll i of
     None \<Rightarrow> ll | Some nr \<Rightarrow> ll \<lparr> fl_nodes := (fl_nodes ll)(i \<mapsto> nr \<lparr> nr_extnet := Some e \<rparr>) \<rparr>)"

definition set_tool :: "int \<Rightarrow> tool_endpoint \<Rightarrow> fabric_lab \<Rightarrow> fabric_lab" where
  "set_tool i e ll = (case fl_nodes ll i of
     None \<Rightarrow> ll | Some nr \<Rightarrow> ll \<lparr> fl_nodes := (fl_nodes ll)(i \<mapsto> nr \<lparr> nr_tool := Some e \<rparr>) \<rparr>)"

definition running_nat :: "fabric_lab \<Rightarrow> int \<Rightarrow> nat_endpoint option" where
  "running_nat ll i = Option.bind (fl_nodes ll i) nr_extnet"

definition running_tool :: "fabric_lab \<Rightarrow> int \<Rightarrow> tool_endpoint option" where
  "running_tool ll i = Option.bind (fl_nodes ll i) nr_tool"

section \<open>Endpoint devices\<close>

definition endpoint_dev :: "fabric_lab \<Rightarrow> endpoint \<Rightarrow> string option" where
  "endpoint_dev ll ep =
     (case map_option node_kind (find_node ll (ep_node ep)) of
        Some KindVPCS \<Rightarrow>
          (case fl_nodes ll (ep_node ep) of
             Some nr \<Rightarrow> if nr_vtap_name nr \<noteq> [] then Some (nr_vtap_name nr) else None
           | None \<Rightarrow> None)
      | Some KindNAT \<Rightarrow> Some (''iolnat'' @ itoa (ep_node ep))
      | Some KindTool \<Rightarrow> map_option (\<lambda>_. host_veth_name (ep_node ep)) (running_tool ll (ep_node ep))
      | Some KindPC \<Rightarrow> map_option (\<lambda>_. host_veth_name (ep_node ep)) (running_tool ll (ep_node ep))
      | _ \<Rightarrow> map_option tap_dev (tap_for_endpoint (fl_taps ll) ep))"

definition fabric_link_endpoint_devs :: "fabric_lab \<Rightarrow> link \<Rightarrow> (nat \<times> string) list" where
  "fabric_link_endpoint_devs ll l =
     List.map_filter (\<lambda>(i, ep). map_option (Pair i) (endpoint_dev ll ep)) (enumerate 0 (endpoints l))"

definition fabric_link_tap_devs :: "fabric_lab \<Rightarrow> link \<Rightarrow> string list" where
  "fabric_link_tap_devs ll l = map snd (fabric_link_endpoint_devs ll l)"

definition fabric_link_fault_targets :: "'k kernel \<Rightarrow> 'k \<Rightarrow> fabric_lab \<Rightarrow> link \<Rightarrow> (nat \<times> string) list" where
  "fabric_link_fault_targets K k ll l =
     filter (\<lambda>(i, d). kern_exists K d k) (fabric_link_endpoint_devs ll l)"

section \<open>Impairments\<close>

definition fault_for_link :: "fabric_lab \<Rightarrow> int \<Rightarrow> (link_fault option \<times> bool) option" where
  "fault_for_link ll i = map_option (\<lambda>f. (map_option snd (af_fault f), af_active f)) (fl_faults ll i)"

definition fault_targets_endpoint :: "link_fault \<Rightarrow> nat \<Rightarrow> bool" where
  "fault_targets_endpoint f i = (case target_endpoint f of None \<Rightarrow> True | Some j \<Rightarrow> j = int i)"

definition fault_netem :: "link_fault \<Rightarrow> netem" where
  "fault_netem f = \<lparr> nm_delay = delay_ms f, nm_jitter = jitter_ms f, nm_loss = loss_pct f,
     nm_duplicate = duplicate_pct f, nm_reorder = reorder_pct f, nm_rate = rate_kbit f \<rparr>"

definition netem_protocol_error :: "int \<Rightarrow> string \<Rightarrow> string \<Rightarrow> fabric_failure" where
  "netem_protocol_error lid dev err =
     (let msg = to_lower err
      in if contains msg ''unknown qdisc'' \<or> contains msg ''qdisc kind is unknown''
         then NetemUnavailable lid else NetemFailed lid dev err)"

fun clear_netem_devs :: "'k kernel \<Rightarrow> int \<Rightarrow> (nat \<times> string) list \<Rightarrow> 'k \<Rightarrow> fabric_failure option \<times> 'k" where
  "clear_netem_devs K lid [] k = (None, k)"
| "clear_netem_devs K lid ((i, d) # ds) k =
     (case clear_netem (kern_run K) d k of
        (Some e, k') \<Rightarrow> (Some (netem_protocol_error lid d e), k')
      | (None, k') \<Rightarrow> clear_netem_devs K lid ds k')"

definition clear_link_netem :: "'k kernel \<Rightarrow> link \<Rightarrow> 'k \<Rightarrow> fabric_lab \<Rightarrow> fabric_failure option \<times> 'k" where
  "clear_link_netem K l k ll = clear_netem_devs K (link_id l) (fabric_link_endpoint_devs ll l) k"

fun impair_devs ::
  "'k kernel \<Rightarrow> int \<Rightarrow> link_fault \<Rightarrow> (nat \<times> string) list \<Rightarrow> 'k \<Rightarrow> fabric_failure option \<times> 'k" where
  "impair_devs K lid f [] k = (None, k)"
| "impair_devs K lid f ((i, d) # ds) k =
     (case (if fault_targets_endpoint f i
            then set_netem (kern_number K) (kern_run K) d (fault_netem f) k
            else clear_netem (kern_run K) d k) of
        (Some e, k') \<Rightarrow> (Some (netem_protocol_error lid d e), k')
      | (None, k') \<Rightarrow> impair_devs K lid f ds k')"

definition reconcile_link_fault :: "'k kernel \<Rightarrow> link \<Rightarrow> 'k \<Rightarrow> fabric_lab \<Rightarrow> fabric_failure option \<times> 'k" where
  "reconcile_link_fault K l k ll =
     (case fault_for_link ll (link_id l) of
        Some (Some f, True) \<Rightarrow>
          if fault_down f then clear_link_netem K l k ll
          else impair_devs K (link_id l) f (fabric_link_fault_targets K k ll l) k
      | _ \<Rightarrow> clear_link_netem K l k ll)"

section \<open>Wiring a link\<close>

definition attach_tap :: "'k kernel \<Rightarrow> string \<Rightarrow> string \<Rightarrow> 'k \<Rightarrow> string option \<times> 'k" where
  "attach_tap K br dev k =
     (case retry_transient_fabric (attach_dev (kern_run K) br dev) k of (r, calls, slept, k') \<Rightarrow> (r, k'))"

definition attach_endpoint ::
  "'k kernel \<Rightarrow> string \<Rightarrow> int \<Rightarrow> endpoint \<Rightarrow> 'k \<Rightarrow> fabric_lab \<Rightarrow> fabric_failure option \<times> 'k \<times> fabric_lab" where
  "attach_endpoint K br lid ep k ll =
     (let nid = ep_node ep;
          wire_tool = (case running_tool ll nid of
             None \<Rightarrow> (None, k, ll)
           | Some e \<Rightarrow>
               (case tool_attach_bridge (kern_run K) br e k of
                  (r, e', k') \<Rightarrow> (map_option (ToolAttachFailed nid br) r, k', set_tool nid e' ll)))
      in case map_option node_kind (find_node ll nid) of
           Some KindNAT \<Rightarrow>
             (case running_nat ll nid of
                None \<Rightarrow> (None, k, ll)
              | Some e \<Rightarrow>
                  (case nat_attach_bridge (kern_run K) br e k of
                     (r, e', k') \<Rightarrow> (map_option (NatAttachFailed nid br) r, k', set_extnet nid e' ll)))
         | Some KindVPCS \<Rightarrow>
             (case fl_nodes ll nid of
                None \<Rightarrow> (None, k, ll)
              | Some nr \<Rightarrow>
                  if \<not> nr_vtap nr \<or> nr_vtap_name nr = [] then (None, k, ll)
                  else (case attach_dev (kern_run K) br (nr_vtap_name nr) k of
                          (r, k') \<Rightarrow> (map_option (VpcsAttachFailed (nr_vtap_name nr) br) r, k', ll)))
         | Some KindTool \<Rightarrow> wire_tool
         | Some KindPC \<Rightarrow> wire_tool
         | _ \<Rightarrow>
             (case tap_for_endpoint (fl_taps ll) ep of
                None \<Rightarrow> (Some (NoStaticTap lid nid (ep_interface ep)), k, ll)
              | Some t \<Rightarrow>
                  (case attach_tap K br (tap_dev t) k of
                     (r, k') \<Rightarrow> (map_option (TapAttachFailed (tap_dev t) br) r, k', ll))))"

fun attach_endpoints ::
  "'k kernel \<Rightarrow> string \<Rightarrow> int \<Rightarrow> endpoint list \<Rightarrow> 'k \<Rightarrow> fabric_lab \<Rightarrow> fabric_failure option \<times> 'k \<times> fabric_lab" where
  "attach_endpoints K br lid [] k ll = (None, k, ll)"
| "attach_endpoints K br lid (ep # eps) k ll =
     (case attach_endpoint K br lid ep k ll of
        (Some e, k', ll') \<Rightarrow> (Some e, k', ll')
      | (None, k', ll') \<Rightarrow> attach_endpoints K br lid eps k' ll')"

definition strip_members :: "'k kernel \<Rightarrow> string \<Rightarrow> 'k \<Rightarrow> 'k" where
  "strip_members K br k =
     (case kern_members K br k of
        None \<Rightarrow> k
      | Some ms \<Rightarrow> fold (\<lambda>m k. snd (detach_dev (kern_run K) m k)) ms k)"

definition link_is_iol_to_iol :: "fabric_lab \<Rightarrow> link \<Rightarrow> bool" where
  "link_is_iol_to_iol ll l =
     (length (endpoints l) = 2 \<and>
      list_all (\<lambda>ep. map_option node_kind (find_node ll (ep_node ep)) = Some KindIOL) (endpoints l))"

definition open_link_dirstat :: "'k kernel \<Rightarrow> link \<Rightarrow> 'k \<Rightarrow> fabric_lab \<Rightarrow> fabric_lab" where
  "open_link_dirstat K l k ll =
     (let devs = fabric_link_endpoint_devs ll l
      in ll \<lparr> fl_dirstats := (fl_dirstats ll)(link_id l := (if kern_dirstat K devs k then Some devs else None)) \<rparr>)"

definition open_link_slow_tee :: "'k kernel \<Rightarrow> link \<Rightarrow> 'k \<Rightarrow> fabric_lab \<Rightarrow> fabric_lab" where
  "open_link_slow_tee K l k ll =
     (let ll1 = ll \<lparr> fl_slowtees := (fl_slowtees ll)(link_id l := None) \<rparr>;
          devs = fabric_link_tap_devs ll1 l
      in if \<not> link_is_iol_to_iol ll1 l then ll1
         else if length devs \<noteq> 2 then ll1
         else if kern_slowtee K devs k
              then ll1 \<lparr> fl_slowtees := (fl_slowtees ll1)(link_id l \<mapsto> devs) \<rparr> else ll1)"

definition mark_attached :: "'k kernel \<Rightarrow> link \<Rightarrow> 'k \<Rightarrow> fabric_lab \<Rightarrow> fabric_lab" where
  "mark_attached K l k ll =
     open_link_slow_tee K l k (open_link_dirstat K l k
       (ll \<lparr> fl_attached := (fl_attached ll)(link_id l := True) \<rparr>))"

definition attach_fabric_link ::
  "'k kernel \<Rightarrow> link \<Rightarrow> 'k \<Rightarrow> fabric_lab \<Rightarrow> fabric_failure option \<times> 'k \<times> fabric_lab" where
  "attach_fabric_link K l k ll =
     (case bridge_name (link_id l) of
        Inl e \<Rightarrow> (Some (BadBridgeName (link_id l) e), k, ll)
      | Inr br \<Rightarrow>
          (let existed = kern_exists K br k
           in case ensure_bridge (kern_run K) br k of
                (Some e, k1) \<Rightarrow> (Some (BridgeFailed br e), k1, ll)
              | (None, k1) \<Rightarrow>
                  (let k2 = (if existed then strip_members K br k1 else k1)
                   in case attach_endpoints K br (link_id l) (endpoints l) k2 ll of
                        (Some e, k3, ll3) \<Rightarrow> (Some e, k3, ll3)
                      | (None, k3, ll3) \<Rightarrow>
                          (let ll4 = mark_attached K l k3 ll3;
                               (r, k4) = reconcile_link_fault K l k3 ll4
                           in (r, k4, ll4)))))"

definition detach_endpoint ::
  "'k kernel \<Rightarrow> endpoint \<Rightarrow> 'k \<Rightarrow> fabric_lab \<Rightarrow> 'k \<times> fabric_lab" where
  "detach_endpoint K ep k ll =
     (let nid = ep_node ep;
          unwire_tool = (case running_tool ll nid of
             None \<Rightarrow> (k, ll)
           | Some e \<Rightarrow> (case tool_detach_bridge (kern_run K) e k of (e', k') \<Rightarrow> (k', set_tool nid e' ll)))
      in case map_option node_kind (find_node ll nid) of
           Some KindNAT \<Rightarrow>
             (case running_nat ll nid of
                None \<Rightarrow> (k, ll)
              | Some e \<Rightarrow> (case nat_detach_bridge (kern_run K) e k of (e', k') \<Rightarrow> (k', set_extnet nid e' ll)))
         | Some KindVPCS \<Rightarrow>
             (case fl_nodes ll nid of
                None \<Rightarrow> (k, ll)
              | Some nr \<Rightarrow> if nr_vtap_name nr = [] then (k, ll)
                          else (snd (detach_dev (kern_run K) (nr_vtap_name nr) k), ll))
         | Some KindTool \<Rightarrow> unwire_tool
         | Some KindPC \<Rightarrow> unwire_tool
         | _ \<Rightarrow>
             (case tap_for_endpoint (fl_taps ll) ep of
                None \<Rightarrow> (k, ll)
              | Some t \<Rightarrow> (snd (detach_dev (kern_run K) (tap_dev t) k), ll)))"

text \<open>attachFabricEndpoint and detachFabricEndpoint take the endpoint by its index.\<close>

definition attach_fabric_endpoint ::
  "'k kernel \<Rightarrow> link \<Rightarrow> nat \<Rightarrow> string \<Rightarrow> 'k \<Rightarrow> fabric_lab \<Rightarrow> fabric_failure option \<times> 'k \<times> fabric_lab" where
  "attach_fabric_endpoint K l i br k ll =
     (if i \<ge> length (endpoints l) then (None, k, ll)
      else attach_endpoint K br (link_id l) (endpoints l ! i) k ll)"

definition detach_fabric_endpoint ::
  "'k kernel \<Rightarrow> link \<Rightarrow> nat \<Rightarrow> 'k \<Rightarrow> fabric_lab \<Rightarrow> 'k \<times> fabric_lab" where
  "detach_fabric_endpoint K l i k ll =
     (if i \<ge> length (endpoints l) then (k, ll) else detach_endpoint K (endpoints l ! i) k ll)"

fun down_targets ::
  "'k kernel \<Rightarrow> link \<Rightarrow> string \<Rightarrow> link_fault \<Rightarrow> (nat \<times> string) list \<Rightarrow> 'k \<Rightarrow> fabric_lab
     \<Rightarrow> fabric_failure option \<times> 'k \<times> fabric_lab" where
  "down_targets K l br f [] k ll = (None, k, ll)"
| "down_targets K l br f ((i, d) # ds) k ll =
     (if fault_targets_endpoint f i
      then (case detach_fabric_endpoint K l i k ll of (k', ll') \<Rightarrow> down_targets K l br f ds k' ll')
      else case attach_fabric_endpoint K l i br k ll of
             (Some e, k', ll') \<Rightarrow> (Some e, k', ll')
           | (None, k', ll') \<Rightarrow> down_targets K l br f ds k' ll')"

definition reconcile_fabric_link_down ::
  "'k kernel \<Rightarrow> link \<Rightarrow> link_fault \<Rightarrow> 'k \<Rightarrow> fabric_lab \<Rightarrow> fabric_failure option \<times> 'k \<times> fabric_lab" where
  "reconcile_fabric_link_down K l f k ll =
     (case bridge_name (link_id l) of
        Inl e \<Rightarrow> (Some (BadBridgeName (link_id l) e), k, ll)
      | Inr br \<Rightarrow>
          (case ensure_bridge (kern_run K) br k of
             (Some e, k1) \<Rightarrow> (Some (BridgeFailed br e), k1, ll)
           | (None, k1) \<Rightarrow>
               (case clear_link_netem K l k1 ll of
                  (Some e, k2) \<Rightarrow> (Some e, k2, ll)
                | (None, k2) \<Rightarrow>
                    (case down_targets K l br f (fabric_link_fault_targets K k2 ll l) k2 ll of
                       (Some e, k3, ll3) \<Rightarrow> (Some e, k3, ll3)
                     | (None, k3, ll3) \<Rightarrow>
                         (let ll4 = mark_attached K l k3 ll3;
                              (r, k4) = reconcile_link_fault K l k3 ll4
                          in (r, k4, ll4))))))"

definition fabric_link_fully_attached :: "'k kernel \<Rightarrow> link \<Rightarrow> 'k \<Rightarrow> fabric_lab \<Rightarrow> bool" where
  "fabric_link_fully_attached K l k ll =
     (if \<not> fl_attached ll (link_id l) then False
      else case bridge_name (link_id l) of
             Inl _ \<Rightarrow> False
           | Inr br \<Rightarrow>
               if \<not> kern_exists K br k then False
               else let devs = fabric_link_tap_devs ll l
                    in if length devs < length (endpoints l) then False
                       else list_all (\<lambda>d. kern_master K d k = Some br) devs)"

text \<open>The decision that startFabric and attachFabricForNode make for one link.\<close>

definition realise_link ::
  "'k kernel \<Rightarrow> link \<Rightarrow> 'k \<Rightarrow> fabric_lab \<Rightarrow> fabric_failure option \<times> 'k \<times> fabric_lab" where
  "realise_link K l k ll =
     (case fault_for_link ll (link_id l) of
        Some (Some f, True) \<Rightarrow>
          if fault_down f then reconcile_fabric_link_down K l f k ll
          else if \<not> fabric_link_fully_attached K l k ll then attach_fabric_link K l k ll
          else (case reconcile_link_fault K l k ll of (r, k') \<Rightarrow> (r, k', ll))
      | _ \<Rightarrow>
          if \<not> fabric_link_fully_attached K l k ll then attach_fabric_link K l k ll
          else (case reconcile_link_fault K l k ll of (r, k') \<Rightarrow> (r, k', ll)))"

definition link_touches_any :: "link \<Rightarrow> int list \<Rightarrow> bool" where
  "link_touches_any l ids = list_ex (\<lambda>ep. ep_node ep \<in> set ids) (endpoints l)"

fun start_links ::
  "'k kernel \<Rightarrow> int list \<Rightarrow> int set \<Rightarrow> link list \<Rightarrow> 'k \<Rightarrow> fabric_lab \<Rightarrow> fabric_failure option \<times> 'k \<times> fabric_lab" where
  "start_links K ids ok [] k ll = (None, k, ll)"
| "start_links K ids ok (l # ls) k ll =
     (if \<not> is_fabric_link l ok then start_links K ids ok ls k ll
      else if ids \<noteq> [] \<and> fl_attached ll (link_id l) \<and> \<not> link_touches_any l ids
           then start_links K ids ok ls k ll
      else case realise_link K l k ll of
             (Some e, k', ll') \<Rightarrow> (Some e, k', ll')
           | (None, k', ll') \<Rightarrow> start_links K ids ok ls k' ll')"

fun attach_node_links ::
  "'k kernel \<Rightarrow> int \<Rightarrow> int set \<Rightarrow> link list \<Rightarrow> 'k \<Rightarrow> fabric_lab \<Rightarrow> fabric_failure option \<times> 'k \<times> fabric_lab" where
  "attach_node_links K nid ok [] k ll = (None, k, ll)"
| "attach_node_links K nid ok (l # ls) k ll =
     (if is_fabric_link l ok \<and> list_ex (\<lambda>ep. ep_node ep = nid) (endpoints l)
      then case realise_link K l k ll of
             (Some e, k', ll') \<Rightarrow> (Some e, k', ll')
           | (None, k', ll') \<Rightarrow> attach_node_links K nid ok ls k' ll'
      else attach_node_links K nid ok ls k ll)"

definition attach_fabric_for_node ::
  "'k kernel \<Rightarrow> int \<Rightarrow> 'k \<Rightarrow> fabric_lab \<Rightarrow> fabric_failure option \<times> 'k \<times> fabric_lab" where
  "attach_fabric_for_node K nid k ll =
     attach_node_links K nid (fabric_nodes (fl_doc ll)) (links (fl_doc ll)) k ll"

fun detach_endpoints :: "'k kernel \<Rightarrow> endpoint list \<Rightarrow> 'k \<Rightarrow> fabric_lab \<Rightarrow> 'k \<times> fabric_lab" where
  "detach_endpoints K [] k ll = (k, ll)"
| "detach_endpoints K (ep # eps) k ll =
     (case detach_endpoint K ep k ll of (k', ll') \<Rightarrow> detach_endpoints K eps k' ll')"

text \<open>detachFabricLink clears the link's netem, stops a capture on its bridge, and then unwires it.
  The running captures are state of the server (Server_Lab, where detach_link is the whole
  function); here is the part on the fabric.\<close>

definition unwire_link :: "'k kernel \<Rightarrow> link \<Rightarrow> 'k \<Rightarrow> fabric_lab \<Rightarrow> 'k \<times> fabric_lab" where
  "unwire_link K l k1 ll =
     (let ll1 = ll \<lparr> fl_dirstats := (fl_dirstats ll)(link_id l := None),
                     fl_slowtees := (fl_slowtees ll)(link_id l := None) \<rparr>;
          (k2, ll2) = detach_endpoints K (endpoints l) k1 ll1;
          k3 = (case bridge_name (link_id l) of Inl _ \<Rightarrow> k2 | Inr br \<Rightarrow> snd (delete_bridge (kern_run K) br k2))
      in (k3, ll2 \<lparr> fl_attached := (fl_attached ll2)(link_id l := False) \<rparr>))"

definition detach_fabric_link :: "'k kernel \<Rightarrow> link \<Rightarrow> 'k \<Rightarrow> fabric_lab \<Rightarrow> 'k \<times> fabric_lab" where
  "detach_fabric_link K l k ll = unwire_link K l (snd (clear_link_netem K l k ll)) ll"

definition apply_active_fault ::
  "'k kernel \<Rightarrow> link \<Rightarrow> 'k \<Rightarrow> fabric_lab \<Rightarrow> fabric_failure option \<times> 'k \<times> fabric_lab" where
  "apply_active_fault K l k ll =
     (case fault_for_link ll (link_id l) of
        Some (Some f, True) \<Rightarrow>
          if fault_down f then reconcile_fabric_link_down K l f k ll
          else (case reconcile_link_fault K l k ll of (r, k') \<Rightarrow> (r, k', ll))
      | _ \<Rightarrow> (None, k, ll))"

definition clear_fault_effect ::
  "'k kernel \<Rightarrow> link \<Rightarrow> 'k \<Rightarrow> fabric_lab \<Rightarrow> fabric_failure option \<times> 'k \<times> fabric_lab" where
  "clear_fault_effect K l k ll =
     (case fault_for_link ll (link_id l) of
        Some (Some f, _) \<Rightarrow>
          if fault_down f then attach_fabric_link K l k ll
          else (case clear_link_netem K l k ll of (r, k') \<Rightarrow> (r, k', ll))
      | _ \<Rightarrow> (case clear_link_netem K l k ll of (r, k') \<Rightarrow> (r, k', ll)))"

section \<open>What the kernel is relied on for\<close>

definition master_cmd :: "string \<Rightarrow> string \<Rightarrow> argv" where
  "master_cmd d b = [''ip'', ''link'', ''set'', d, ''master'', b]"

definition nomaster_cmd :: "string \<Rightarrow> argv" where
  "nomaster_cmd d = [''ip'', ''link'', ''set'', d, ''nomaster'']"

text \<open>Commands that do not touch bridge membership.\<close>

definition keeps_membership :: "argv \<Rightarrow> bool" where
  "keeps_membership av \<longleftrightarrow>
     (av \<noteq> [] \<and> hd av \<in> {''tc'', ''sysctl'', ''iptables''}) \<or> take 2 av = [''ip'', ''addr''] \<or>
     take 3 av = [''ip'', ''link'', ''add''] \<or> (\<exists>d. av = [''ip'', ''link'', ''set'', d, ''up''])"

text \<open>ip link set master enslaves the device when it succeeds, changes nothing when it fails, and
  answers ``file exists'' only for a device that is already a member; nomaster frees a device when
  it succeeds and changes nothing when it fails; a member list that sysfs returns is exactly the
  members of the bridge; a bridge with a member exists; and no device disappears unless it is
  deleted.  Any of the commands may fail and any list may be unreadable.\<close>

definition ip_laws :: "'k kernel \<Rightarrow> bool" where
  "ip_laws K \<longleftrightarrow>
     (\<forall>d b k r k'. kern_run K (master_cmd d b) k = (r, k') \<longrightarrow>
        (\<forall>d'. d' \<noteq> d \<longrightarrow> kern_master K d' k' = kern_master K d' k) \<and>
        kern_master K d k' = (if r = None then Some b else kern_master K d k) \<and>
        (\<forall>e out. r = Some (e, out) \<and> contains (to_lower out) ''file exists'' \<longrightarrow> kern_master K d k = Some b)) \<and>
     (\<forall>d k r k'. kern_run K (nomaster_cmd d) k = (r, k') \<longrightarrow>
        (\<forall>d'. d' \<noteq> d \<longrightarrow> kern_master K d' k' = kern_master K d' k) \<and>
        kern_master K d k' = (if r = None then None else kern_master K d k)) \<and>
     (\<forall>av k d. keeps_membership av \<longrightarrow> kern_master K d (snd (kern_run K av k)) = kern_master K d k) \<and>
     (\<forall>b k d. kern_master K d k = Some b \<longrightarrow> kern_exists K b k) \<and>
     (\<forall>b k ms. kern_members K b k = Some ms \<longrightarrow> (\<forall>d. d \<in> set ms \<longleftrightarrow> kern_master K d k = Some b)) \<and>
     (\<forall>av k d. keeps_membership av \<and> kern_exists K d k \<longrightarrow> kern_exists K d (snd (kern_run K av k)))"

text \<open>A device that the kernel always releases from its bridge when asked to.\<close>

definition freeable :: "'k kernel \<Rightarrow> string \<Rightarrow> bool" where
  "freeable K d \<longleftrightarrow> (\<forall>k. kern_master K d k \<noteq> None \<longrightarrow> fst (kern_run K (nomaster_cmd d) k) = None)"

text \<open>The members whose release the kernel refuses while a list of them is stripped, and the
  members that stripping a bridge leaves on it: those, or all of them where the list of members
  cannot be read.\<close>

fun refused_releases :: "'k kernel \<Rightarrow> string list \<Rightarrow> 'k \<Rightarrow> string list" where
  "refused_releases K [] k = []"
| "refused_releases K (m # ms) k =
     (case kern_run K (nomaster_cmd m) k of
        (r, k') \<Rightarrow> (if r = None then [] else [m]) @ refused_releases K ms k')"

definition left_behind :: "'k kernel \<Rightarrow> string \<Rightarrow> 'k \<Rightarrow> string set" where
  "left_behind K br k =
     (case kern_members K br k of
        None \<Rightarrow> {d. kern_master K d k = Some br}
      | Some ms \<Rightarrow> set (refused_releases K ms k))"

text \<open>The device of a nat or tool endpoint is the one its constructor names after the node.\<close>

definition endpoints_named :: "fabric_lab \<Rightarrow> bool" where
  "endpoints_named ll \<longleftrightarrow>
     (\<forall>i e. running_nat ll i = Some e \<longrightarrow> ne_dev e = nat_tap_name i) \<and>
     (\<forall>i e. running_tool ll i = Some e \<longrightarrow> te_node e = i)"

section \<open>Membership lemmas\<close>

abbreviation members_of :: "'k kernel \<Rightarrow> 'k \<Rightarrow> string \<Rightarrow> string option" where
  "members_of K k \<equiv> (\<lambda>d. kern_master K d k)"

lemma ip_laws_master:
  assumes "ip_laws K" and "kern_run K (master_cmd d b) k = (r, k')"
  shows "members_of K k' = (if r = None then (members_of K k)(d \<mapsto> b) else members_of K k)"
    and "r = Some (e, out) \<Longrightarrow> contains (to_lower out) ''file exists'' \<Longrightarrow> kern_master K d k = Some b"
proof -
  have law: "(\<forall>d'. d' \<noteq> d \<longrightarrow> kern_master K d' k' = kern_master K d' k) \<and>
        kern_master K d k' = (if r = None then Some b else kern_master K d k) \<and>
        (\<forall>e out. r = Some (e, out) \<and> contains (to_lower out) ''file exists'' \<longrightarrow> kern_master K d k = Some b)"
    by (rule conjunct1 [OF assms(1) [unfolded ip_laws_def], THEN spec, THEN spec, THEN spec, THEN spec,
          THEN spec, THEN mp, OF assms(2)])
  show "members_of K k' = (if r = None then (members_of K k)(d \<mapsto> b) else members_of K k)"
    using law by (intro ext) auto
  show "r = Some (e, out) \<Longrightarrow> contains (to_lower out) ''file exists'' \<Longrightarrow> kern_master K d k = Some b"
    using law by blast
qed

lemma ip_laws_nomaster:
  assumes "ip_laws K"
  shows "members_of K (snd (kern_run K (nomaster_cmd d) k)) =
    (if fst (kern_run K (nomaster_cmd d) k) = None then (members_of K k)(d := None) else members_of K k)"
proof -
  obtain r k' where r: "kern_run K (nomaster_cmd d) k = (r, k')" by fastforce
  have "\<forall>d'. d' \<noteq> d \<longrightarrow> kern_master K d' k' = kern_master K d' k"
    "kern_master K d k' = (if r = None then None else kern_master K d k)"
    using assms r unfolding ip_laws_def by blast+
  then show ?thesis using r by (auto simp: fun_eq_iff)
qed

lemma ip_laws_keep:
  assumes "ip_laws K" and "keeps_membership av"
  shows "members_of K (snd (kern_run K av k)) = members_of K k"
proof
  fix d show "members_of K (snd (kern_run K av k)) d = members_of K k d"
    using assms unfolding ip_laws_def by blast
qed

lemma ip_laws_bridge:
  assumes "ip_laws K" and "kern_master K d k = Some b"
  shows "kern_exists K b k"
  using assms unfolding ip_laws_def by blast

lemma ip_laws_members:
  assumes "ip_laws K" and "kern_members K b k = Some ms"
  shows "d \<in> set ms \<longleftrightarrow> kern_master K d k = Some b"
  using assms unfolding ip_laws_def by blast

lemma run_from_keep:
  assumes "ip_laws K" and "list_all keeps_membership avs"
  shows "members_of K (snd (run_from (kern_run K) fo i avs k)) = members_of K k"
  using assms(2)
proof (induction avs arbitrary: i k)
  case (Cons av avs)
  have av: "members_of K (snd (kern_run K av k)) = members_of K k"
    using ip_laws_keep [OF assms(1)] Cons.prems by simp
  obtain r k1 where r: "kern_run K av k = (r, k1)" by fastforce
  have IH: "members_of K (snd (run_from (kern_run K) fo (Suc i) avs k1)) = members_of K k"
    using Cons.IH [of "Suc i" k1] Cons.prems av r by simp
  have k1: "members_of K k1 = members_of K k" using av r by simp
  show ?case
  proof (cases r)
    case None
    then show ?thesis using IH r by simp
  next
    case (Some eo)
    then show ?thesis using IH k1 r by (cases eo; cases i) simp_all
  qed
qed simp

lemma ensure_bridge_keep:
  "ip_laws K \<Longrightarrow> members_of K (snd (ensure_bridge (kern_run K) b k)) = members_of K k"
  unfolding ensure_bridge_def run_idempotent_def
  by (rule run_from_keep) (simp_all add: bridge_create_cmds_def disable_ipv6_def keeps_membership_def)

lemma clear_netem_keep:
  "ip_laws K \<Longrightarrow> members_of K (snd (clear_netem (kern_run K) d k)) = members_of K k"
  unfolding clear_netem_def run_idempotent_def
  by (rule run_from_keep) (simp_all add: netem_clear_cmds_def keeps_membership_def)

lemma set_netem_keep:
  "ip_laws K \<Longrightarrow> members_of K (snd (set_netem num (kern_run K) d n k)) = members_of K k"
  unfolding set_netem_def run_idempotent_def
  by (rule run_from_keep) (simp_all add: netem_cmds_def keeps_membership_def)

lemma ip_laws_freed:
  assumes "ip_laws K" and "freeable K d"
  shows "kern_master K d (snd (kern_run K (nomaster_cmd d) k)) = None"
  using fun_cong [OF ip_laws_nomaster [OF assms(1), of d k], of d] assms(2)
  by (cases "kern_master K d k = None") (auto simp: freeable_def)

lemma detach_dev_state: "snd (detach_dev run d k) = snd (run (nomaster_cmd d) k)"
  by (simp add: detach_dev_def detach_cmds_def run_idempotent_single nomaster_cmd_def
      split: option.splits prod.splits)

lemma detach_dev_members:
  assumes "ip_laws K"
  shows "d' \<noteq> d \<Longrightarrow> kern_master K d' (snd (detach_dev (kern_run K) d k)) = kern_master K d' k"
    and "fst (kern_run K (nomaster_cmd d) k) = None \<Longrightarrow> kern_master K d (snd (detach_dev (kern_run K) d k)) = None"
    and "freeable K d \<Longrightarrow> kern_master K d (snd (detach_dev (kern_run K) d k)) = None"
    and "kern_master K d k = None \<Longrightarrow> kern_master K d (snd (detach_dev (kern_run K) d k)) = None"
proof -
  have D: "kern_master K x (snd (detach_dev (kern_run K) d k)) =
      (if fst (kern_run K (nomaster_cmd d) k) = None \<and> x = d then None else kern_master K x k)" for x
    using fun_cong [OF ip_laws_nomaster [OF assms, of d k], of x] by (simp add: detach_dev_state)
  show "d' \<noteq> d \<Longrightarrow> kern_master K d' (snd (detach_dev (kern_run K) d k)) = kern_master K d' k"
    by (simp add: D)
  show one: "fst (kern_run K (nomaster_cmd d) k) = None \<Longrightarrow> kern_master K d (snd (detach_dev (kern_run K) d k)) = None"
    by (simp add: D)
  show two: "kern_master K d k = None \<Longrightarrow> kern_master K d (snd (detach_dev (kern_run K) d k)) = None"
    by (simp add: D)
  show "freeable K d \<Longrightarrow> kern_master K d (snd (detach_dev (kern_run K) d k)) = None"
    by (cases "kern_master K d k = None") (auto simp: D freeable_def)
qed

lemma attach_dev_members:
  assumes L: "ip_laws K" and r: "attach_dev (kern_run K) b d k = (r, k')"
  shows "members_of K k' = (if r = None then (members_of K k)(d \<mapsto> b) else members_of K k)"
proof -
  obtain q k1 where q: "kern_run K (master_cmd d b) k = (q, k1)" by fastforce
  note M = ip_laws_master [OF L q]
  show ?thesis
  proof (cases q)
    case None
    then have "r = None" "k' = k1"
      using r q by (simp_all add: attach_dev_def attach_cmds_def run_idempotent_single master_cmd_def)
    then show ?thesis using M(1) None by simp
  next
    case (Some eo)
    obtain e out where eo: "eo = (e, out)" by (cases eo)
    have k: "k' = k1"
      and rr: "r = (if contains (to_lower out) ''file exists'' then None
                 else Some (fabric_error (master_cmd d b) e out))"
      using r q Some eo
      by (simp_all add: attach_dev_def attach_cmds_def run_idempotent_single master_cmd_def split: if_splits)
    have same: "members_of K k1 = members_of K k" using M(1) Some by simp
    show ?thesis
    proof (cases "contains (to_lower out) ''file exists''")
      case True
      then have "kern_master K d k = Some b" using M(2) Some eo by simp
      then show ?thesis using True rr k same by (auto simp: fun_eq_iff)
    next
      case False
      then show ?thesis using rr k same by simp
    qed
  qed
qed

lemma attach_tap_members:
  assumes L: "ip_laws K" and r: "attach_tap K b d k = (r, k')"
  shows "members_of K k' = (if r = None then (members_of K k)(d \<mapsto> b) else members_of K k)"
proof -
  obtain r1 k1 where s1: "attach_dev (kern_run K) b d k = (r1, k1)" by fastforce
  obtain r2 k2 where s2: "attach_dev (kern_run K) b d k1 = (r2, k2)" by fastforce
  obtain r3 k3 where s3: "attach_dev (kern_run K) b d k2 = (r3, k3)" by fastforce
  have "(r, k') = (r1, k1) \<or> (r1 \<noteq> None \<and> ((r, k') = (r2, k2) \<or> (r2 \<noteq> None \<and> (r, k') = (r3, k3))))"
    using r s1 s2 s3 unfolding attach_tap_def retry_unfold
    by (auto split: option.splits if_splits)
  then show ?thesis
    using attach_dev_members [OF L s1] attach_dev_members [OF L s2] attach_dev_members [OF L s3]
    by auto
qed

lemma run_best_effort_append:
  "run_best_effort run (xs @ ys) k = run_best_effort run ys (run_best_effort run xs k)"
  by (induction xs arbitrary: k) simp_all

lemma run_best_effort_keep:
  assumes "ip_laws K" and "list_all keeps_membership avs"
  shows "members_of K (run_best_effort (kern_run K) avs k) = members_of K k"
  using assms(2)
proof (induction avs arbitrary: k)
  case (Cons av avs)
  then show ?case using ip_laws_keep [OF assms(1), of av k] by simp
qed simp

lemma extnet_run_cmds_keep:
  assumes "ip_laws K" and "list_all keeps_membership avs"
  shows "members_of K (snd (extnet_run_cmds (kern_run K) avs k)) = members_of K k"
  using assms(2)
proof (induction avs arbitrary: k)
  case (Cons av avs)
  obtain r k1 where r: "kern_run K av k = (r, k1)" by fastforce
  have "members_of K k1 = members_of K k" using ip_laws_keep [OF assms(1), of av k] Cons.prems r by simp
  then show ?case using Cons.IH [of k1] Cons.prems r by (auto split: option.splits)
qed simp

lemma nat_cmds_keep:
  "keeps_membership (mask_cmd sub dflt)" "keeps_membership (fwd_out_cmd sub ifc dflt)"
  "keeps_membership (fwd_in_cmd sub ifc dflt)" "keeps_membership (del_rule (mask_cmd sub dflt))"
  "keeps_membership (del_rule (fwd_out_cmd sub ifc dflt))" "keeps_membership (del_rule (fwd_in_cmd sub ifc dflt))"
  "keeps_membership (''ip'' # ''addr'' # w)" "keeps_membership (''sysctl'' # w)"
  by (simp_all add: keeps_membership_def mask_cmd_def fwd_out_cmd_def fwd_in_cmd_def)

lemma nat_detach_members:
  assumes "ip_laws K" and r: "nat_detach_bridge (kern_run K) e k = (e', k')"
  shows "d \<noteq> ne_dev e \<Longrightarrow> kern_master K d k' = kern_master K d k"
    and "ne_bridge e = [] \<Longrightarrow> k' = k"
    and "ne_bridge e \<noteq> [] \<Longrightarrow> freeable K (ne_dev e) \<Longrightarrow> kern_master K (ne_dev e) k' = None"
    and "e' = e \<lparr> ne_bridge := [] \<rparr>"
proof -
  have split: "nat_bridge_detach_cmds d b sub dflt = take 4 (nat_bridge_detach_cmds d b sub dflt) @ [nomaster_cmd d]"
    for d b sub dflt by (simp add: nat_bridge_detach_cmds_def nomaster_cmd_def)
  have keep: "list_all keeps_membership (take 4 (nat_bridge_detach_cmds d b sub dflt))" for d b sub dflt
    by (simp add: nat_bridge_detach_cmds_def nat_cmds_keep)
  have run: "\<exists>k1. members_of K k1 = members_of K k \<and>
      run_best_effort (kern_run K) (nat_bridge_detach_cmds d b sub dflt) k = snd (kern_run K (nomaster_cmd d) k1)"
    for d b sub dflt
    by (subst split, subst run_best_effort_append)
       (intro exI [of _ "run_best_effort (kern_run K) (take 4 (nat_bridge_detach_cmds d b sub dflt)) k"] conjI,
        rule run_best_effort_keep [OF assms(1) keep], simp)
  obtain k1 where k1: "members_of K k1 = members_of K k"
      "ne_bridge e \<noteq> [] \<Longrightarrow> k' = snd (kern_run K (nomaster_cmd (ne_dev e)) k1)"
    using run [of "ne_dev e" "ne_bridge e" "ne_subnet e" "ne_default e"] r
    by (auto simp: nat_detach_bridge_def Let_def split: if_splits)
  show empty: "ne_bridge e = [] \<Longrightarrow> k' = k" using r by (simp add: nat_detach_bridge_def Let_def)
  show "d \<noteq> ne_dev e \<Longrightarrow> kern_master K d k' = kern_master K d k"
    using empty k1(2) fun_cong [OF k1(1), of d] fun_cong [OF ip_laws_nomaster [OF assms(1), of "ne_dev e" k1], of d]
    by (cases "ne_bridge e = []") (auto split: if_splits)
  show "ne_bridge e \<noteq> [] \<Longrightarrow> freeable K (ne_dev e) \<Longrightarrow> kern_master K (ne_dev e) k' = None"
    using k1(2) ip_laws_freed [OF assms(1)] by simp
  show "e' = e \<lparr> ne_bridge := [] \<rparr>" using r by (simp add: nat_detach_bridge_def Let_def split: if_splits)
qed

lemma extnet_attach_members:
  assumes L: "ip_laws K" and r: "extnet_run_cmds (kern_run K) (nat_bridge_attach_cmds d br sub dflt) k = (r, k')"
  shows "d' \<noteq> d \<Longrightarrow> kern_master K d' k' = kern_master K d' k"
    and "r = None \<Longrightarrow> kern_master K d k' = Some br"
proof -
  obtain q k1 where q: "kern_run K (master_cmd d br) k = (q, k1)" by fastforce
  let ?rest = "tl (nat_bridge_attach_cmds d br sub dflt)"
  have cmds: "nat_bridge_attach_cmds d br sub dflt = master_cmd d br # ?rest" and "hd (master_cmd d br) \<noteq> ''sysctl''"
    by (simp_all add: nat_bridge_attach_cmds_def master_cmd_def)
  have "list_all keeps_membership ?rest" by (simp add: nat_bridge_attach_cmds_def nat_cmds_keep)
  note keep = extnet_run_cmds_keep [OF L this, of k1]
  note M = ip_laws_master(1) [OF L q]
  have res: "(case q of None \<Rightarrow> members_of K k' = members_of K k1 | Some _ \<Rightarrow> r \<noteq> None \<and> k' = k1)"
  proof (cases q)
    case None
    then have "extnet_run_cmds (kern_run K) ?rest k1 = (r, k')" using r q by (subst (asm) cmds) simp
    then show ?thesis using keep None by simp
  next
    case (Some eo)
    then show ?thesis using r q \<open>hd (master_cmd d br) \<noteq> ''sysctl''\<close>
      by (subst (asm) cmds) (cases eo; auto)
  qed
  show "d' \<noteq> d \<Longrightarrow> kern_master K d' k' = kern_master K d' k"
    using res M by (auto simp: fun_eq_iff split: option.splits if_splits)
  show "r = None \<Longrightarrow> kern_master K d k' = Some br"
    using res M by (auto simp: fun_eq_iff split: option.splits if_splits)
qed

lemma nat_attach_members:
  assumes L: "ip_laws K" and r: "nat_attach_bridge (kern_run K) br e k = (r, e', k')"
  shows "d \<noteq> ne_dev e \<Longrightarrow> kern_master K d k' = kern_master K d k"
    and "r = None \<Longrightarrow> \<not> ne_closed e \<Longrightarrow> ne_bridge e \<noteq> br \<Longrightarrow> kern_master K (ne_dev e) k' = Some br"
    and "ne_closed e \<or> ne_bridge e = br \<Longrightarrow> k' = k \<and> r = None \<and> e' = e"
    and "ne_dev e' = ne_dev e"
proof -
  obtain e1 k1 where e1: "(if ne_bridge e \<noteq> [] then nat_detach_bridge (kern_run K) e k else (e, k)) = (e1, k1)"
    by fastforce
  have dev: "ne_dev e1 = ne_dev e" using e1 nat_detach_members(4) [OF L, of e k e1 k1] by (auto split: if_splits)
  have m1: "d \<noteq> ne_dev e \<Longrightarrow> kern_master K d k1 = kern_master K d k" for d
    using e1 nat_detach_members(1) [OF L, of e k e1 k1 d] by (auto split: if_splits)
  obtain q k2 where q: "extnet_run_cmds (kern_run K) (nat_bridge_attach_cmds (ne_dev e1) br (ne_subnet e1) (ne_default e1)) k1 = (q, k2)"
    by fastforce
  note A = extnet_attach_members [OF L q]
  show skip: "ne_closed e \<or> ne_bridge e = br \<Longrightarrow> k' = k \<and> r = None \<and> e' = e"
    using r unfolding nat_attach_bridge_def by (auto split: if_splits)
  have go: "k' = k2 \<and> r = q" if "\<not> (ne_closed e \<or> ne_bridge e = br)"
    using r that e1 q by (auto simp: nat_attach_bridge_def Let_def split: option.splits prod.splits)
  show "d \<noteq> ne_dev e \<Longrightarrow> kern_master K d k' = kern_master K d k"
    using skip go A(1) [of d] m1 dev by (cases "ne_closed e \<or> ne_bridge e = br") auto
  show "r = None \<Longrightarrow> \<not> ne_closed e \<Longrightarrow> ne_bridge e \<noteq> br \<Longrightarrow> kern_master K (ne_dev e) k' = Some br"
    using go A(2) dev by simp
  show "ne_dev e' = ne_dev e"
    using r dev e1 by (auto simp: nat_attach_bridge_def Let_def split: option.splits prod.splits if_splits)
qed

lemma tool_detach_members:
  assumes "ip_laws K" and r: "tool_detach_bridge (kern_run K) e k = (e', k')"
  shows "d \<noteq> host_veth_name (te_node e) \<Longrightarrow> kern_master K d k' = kern_master K d k"
    and "freeable K (host_veth_name (te_node e)) \<Longrightarrow> kern_master K (host_veth_name (te_node e)) k' = None"
    and "e' = e \<lparr> te_bridge := [] \<rparr>"
proof -
  have "snd (tool_run_cmds run [av] k) = snd (run av k)" for run av and k :: 'a
    by (auto simp: Let_def split: option.splits prod.splits)
  then have k': "k' = snd (kern_run K (nomaster_cmd (host_veth_name (te_node e))) k)"
    using r by (auto simp: tool_detach_bridge_def netns_detach_veth_cmds_def nomaster_cmd_def [symmetric])
  show "d \<noteq> host_veth_name (te_node e) \<Longrightarrow> kern_master K d k' = kern_master K d k"
    using fun_cong [OF ip_laws_nomaster [OF assms(1), of "host_veth_name (te_node e)" k], of d] k'
    by (auto split: if_splits)
  show "freeable K (host_veth_name (te_node e)) \<Longrightarrow> kern_master K (host_veth_name (te_node e)) k' = None"
    using ip_laws_freed [OF assms(1)] k' by simp
  show "e' = e \<lparr> te_bridge := [] \<rparr>" using r by (simp add: tool_detach_bridge_def)
qed

lemma tool_attach_members:
  assumes L: "ip_laws K" and r: "tool_attach_bridge (kern_run K) br e k = (r, e', k')"
  defines "dev \<equiv> host_veth_name (te_node e)"
    and "down \<equiv> te_state e = ''stopped'' \<or> te_state e = ''crashed''"
  shows "d \<noteq> dev \<Longrightarrow> kern_master K d k' = kern_master K d k"
    and "r = None \<Longrightarrow> \<not> down \<Longrightarrow> te_bridge e \<noteq> br \<Longrightarrow> kern_master K dev k' = Some br"
    and "down \<or> te_bridge e = br \<Longrightarrow> k' = k \<and> r = None \<and> e' = e"
    and "te_node e' = te_node e"
proof -
  obtain e1 k1 where e1: "(if te_bridge e \<noteq> [] then tool_detach_bridge (kern_run K) e k else (e, k)) = (e1, k1)"
    by fastforce
  have node: "te_node e1 = te_node e" using e1 tool_detach_members(3) [OF L, of e k e1 k1] by (auto split: if_splits)
  have m1: "d \<noteq> dev \<Longrightarrow> kern_master K d k1 = kern_master K d k" for d
    using e1 tool_detach_members(1) [OF L, of e k e1 k1 d] by (auto simp: dev_def split: if_splits)
  obtain q k2 where q: "kern_run K (master_cmd dev br) k1 = (q, k2)" by fastforce
  note M = ip_laws_master(1) [OF L q]
  have cmds: "netns_attach_veth_cmds (te_node e1) br = [master_cmd dev br]"
    by (simp add: netns_attach_veth_cmds_def master_cmd_def dev_def node)
  show skip: "down \<or> te_bridge e = br \<Longrightarrow> k' = k \<and> r = None \<and> e' = e"
    using r unfolding tool_attach_bridge_def down_def by (auto split: if_splits)
  have go: "k' = k2 \<and> (r = None \<longleftrightarrow> q = None)" if "\<not> (down \<or> te_bridge e = br)"
    using r that e1 q cmds
    by (auto simp: tool_attach_bridge_def down_def Let_def split: option.splits prod.splits if_splits)
  show "d \<noteq> dev \<Longrightarrow> kern_master K d k' = kern_master K d k"
    using skip go M m1 by (cases "down \<or> te_bridge e = br") (auto simp: fun_eq_iff split: if_splits)
  show "r = None \<Longrightarrow> \<not> down \<Longrightarrow> te_bridge e \<noteq> br \<Longrightarrow> kern_master K dev k' = Some br"
    using go M by (auto simp: fun_eq_iff split: if_splits)
  show "te_node e' = te_node e"
    using r node e1 by (auto simp: tool_attach_bridge_def Let_def split: option.splits prod.splits if_splits)
qed

section \<open>One endpoint\<close>

lemma endpoint_lookup_simps [simp]:
  "find_node (set_extnet i e ll) = find_node ll" "find_node (set_tool i t ll) = find_node ll"
  "fl_taps (set_extnet i e ll) = fl_taps ll" "fl_taps (set_tool i t ll) = fl_taps ll"
  "fl_faults (set_extnet i e ll) = fl_faults ll" "fl_faults (set_tool i t ll) = fl_faults ll"
  "fl_doc (set_extnet i e ll) = fl_doc ll" "fl_doc (set_tool i t ll) = fl_doc ll"
  by (simp_all add: set_extnet_def set_tool_def find_node_def fun_eq_iff split: option.splits)

lemma running_set:
  "running_nat (set_extnet i e ll) j = (if j = i \<and> fl_nodes ll i \<noteq> None then Some e else running_nat ll j)"
  "running_tool (set_extnet i e ll) = running_tool ll"
  "running_tool (set_tool i t ll) j = (if j = i \<and> fl_nodes ll i \<noteq> None then Some t else running_tool ll j)"
  "running_nat (set_tool i t ll) = running_nat ll"
  by (auto simp: running_nat_def running_tool_def set_extnet_def set_tool_def fun_eq_iff split: option.splits)

lemma vtap_set:
  "map_option nr_vtap (fl_nodes (set_extnet i e ll) j) = map_option nr_vtap (fl_nodes ll j)"
  "map_option nr_vtap_name (fl_nodes (set_extnet i e ll) j) = map_option nr_vtap_name (fl_nodes ll j)"
  "map_option nr_vtap (fl_nodes (set_tool i t ll) j) = map_option nr_vtap (fl_nodes ll j)"
  "map_option nr_vtap_name (fl_nodes (set_tool i t ll) j) = map_option nr_vtap_name (fl_nodes ll j)"
  by (auto simp: set_extnet_def set_tool_def split: option.splits)

lemma running_nodes: "running_nat ll i = Some e \<Longrightarrow> fl_nodes ll i \<noteq> None" "running_tool ll i = Some t \<Longrightarrow> fl_nodes ll i \<noteq> None"
  by (auto simp: running_nat_def running_tool_def split: Option.bind_splits)

text \<open>What stays the same of a lab while endpoints are wired: everything that names devices.\<close>

definition same_devices :: "fabric_lab \<Rightarrow> fabric_lab \<Rightarrow> bool" where
  "same_devices ll ll' \<longleftrightarrow>
     fl_doc ll' = fl_doc ll \<and> fl_taps ll' = fl_taps ll \<and> fl_faults ll' = fl_faults ll \<and>
     endpoint_dev ll' = endpoint_dev ll \<and> endpoints_named ll' = endpoints_named ll \<and>
     (\<forall>i. map_option nr_vtap (fl_nodes ll' i) = map_option nr_vtap (fl_nodes ll i)) \<and>
     (\<forall>i. map_option nr_vtap_name (fl_nodes ll' i) = map_option nr_vtap_name (fl_nodes ll i))"

lemma same_devices_refl [simp]: "same_devices ll ll" by (simp add: same_devices_def)

lemma same_devices_trans: "same_devices a b \<Longrightarrow> same_devices b c \<Longrightarrow> same_devices a c"
  by (simp add: same_devices_def)

lemma endpoint_dev_cong:
  assumes "find_node ll' = find_node ll" and "fl_taps ll' = fl_taps ll"
    and v: "\<And>i. map_option nr_vtap_name (fl_nodes ll' i) = map_option nr_vtap_name (fl_nodes ll i)"
    and t: "\<And>i. running_tool ll' i = None \<longleftrightarrow> running_tool ll i = None"
  shows "endpoint_dev ll' = endpoint_dev ll"
proof
  fix ep :: endpoint
  let ?i = "ep_node ep"
  have vpcs: "(case fl_nodes ll' ?i of Some nr \<Rightarrow> if nr_vtap_name nr \<noteq> [] then Some (nr_vtap_name nr) else None | None \<Rightarrow> None)
      = (case fl_nodes ll ?i of Some nr \<Rightarrow> if nr_vtap_name nr \<noteq> [] then Some (nr_vtap_name nr) else None | None \<Rightarrow> None)"
    using v [of ?i] by (cases "fl_nodes ll' ?i"; cases "fl_nodes ll ?i") auto
  have tool: "map_option (\<lambda>_. x) (running_tool ll' ?i) = map_option (\<lambda>_. x) (running_tool ll ?i)" for x :: string
    using t [of ?i] by (cases "running_tool ll' ?i"; cases "running_tool ll ?i") auto
  show "endpoint_dev ll' ep = endpoint_dev ll ep"
    by (simp only: endpoint_dev_def vpcs tool assms(1,2))
qed

lemma same_devices_set_extnet:
  assumes "running_nat ll i = Some e" and "ne_dev e' = ne_dev e"
  shows "same_devices ll (set_extnet i e' ll)"
proof -
  have nr: "fl_nodes ll i \<noteq> None" using running_nodes(1) [OF assms(1)] by blast
  have "endpoint_dev (set_extnet i e' ll) = endpoint_dev ll"
    by (rule endpoint_dev_cong) (simp_all add: vtap_set running_set)
  moreover have "endpoints_named (set_extnet i e' ll) = endpoints_named ll"
    using assms nr by (auto simp: endpoints_named_def running_set)
  ultimately show ?thesis by (simp add: same_devices_def vtap_set)
qed

lemma same_devices_set_tool:
  assumes "running_tool ll i = Some e" and "te_node e' = te_node e"
  shows "same_devices ll (set_tool i e' ll)"
proof -
  have nr: "fl_nodes ll i \<noteq> None" using running_nodes(2) [OF assms(1)] by blast
  have "endpoint_dev (set_tool i e' ll) = endpoint_dev ll"
    by (rule endpoint_dev_cong) (use assms(1) in \<open>auto simp: vtap_set running_set\<close>)
  moreover have "endpoints_named (set_tool i e' ll) = endpoints_named ll"
    using assms nr by (auto simp: endpoints_named_def running_set)
  ultimately show ?thesis by (simp add: same_devices_def vtap_set)
qed

text \<open>The endpoints that an attach pass must wire, and those it believes are wired already.\<close>

definition must_wire :: "fabric_lab \<Rightarrow> string \<Rightarrow> endpoint \<Rightarrow> bool" where
  "must_wire ll br ep \<longleftrightarrow>
     (case map_option node_kind (find_node ll (ep_node ep)) of
        Some KindNAT \<Rightarrow> (\<exists>e. running_nat ll (ep_node ep) = Some e \<and> \<not> ne_closed e \<and> ne_bridge e \<noteq> br)
      | Some KindVPCS \<Rightarrow> map_option nr_vtap (fl_nodes ll (ep_node ep)) = Some True
      | Some k \<Rightarrow> k \<in> {KindTool, KindPC} \<longrightarrow>
          (\<exists>e. running_tool ll (ep_node ep) = Some e \<and> te_state e \<noteq> ''stopped'' \<and> te_state e \<noteq> ''crashed''
             \<and> te_bridge e \<noteq> br)
      | None \<Rightarrow> True)"

definition recorded_wired :: "fabric_lab \<Rightarrow> string \<Rightarrow> endpoint \<Rightarrow> bool" where
  "recorded_wired ll br ep \<longleftrightarrow>
     (case map_option node_kind (find_node ll (ep_node ep)) of
        Some KindNAT \<Rightarrow> (\<exists>e. running_nat ll (ep_node ep) = Some e \<and> ne_bridge e = br)
      | Some k \<Rightarrow> k \<in> {KindTool, KindPC} \<and> (\<exists>e. running_tool ll (ep_node ep) = Some e \<and> te_bridge e = br)
      | None \<Rightarrow> False)"

lemma endpoint_dev_nat:
  assumes "map_option node_kind (find_node ll (ep_node ep)) = Some KindNAT"
  shows "endpoint_dev ll ep = Some (''iolnat'' @ itoa (ep_node ep))"
  unfolding endpoint_dev_def assms by simp

lemma attach_endpoint_tool:
  assumes L: "ip_laws K" and N: "endpoints_named ll"
    and kd: "map_option node_kind (find_node ll (ep_node ep)) = Some kd" "kd \<in> {KindTool, KindPC}"
    and t: "running_tool ll (ep_node ep) = Some e"
    and r: "attach_endpoint K br lid ep k ll = (r, k', ll')"
  shows "same_devices ll ll' \<and>
     (\<forall>d. endpoint_dev ll ep \<noteq> Some d \<longrightarrow> kern_master K d k' = kern_master K d k) \<and>
     (r = None \<longrightarrow> must_wire ll br ep \<longrightarrow> (\<forall>d. endpoint_dev ll ep = Some d \<longrightarrow> kern_master K d k' = Some br)) \<and>
     (\<not> must_wire ll br ep \<longrightarrow> k' = k) \<and>
     (recorded_wired ll br ep \<longrightarrow> recorded_wired ll' br ep)"
proof -
  obtain q e' k1 where q: "tool_attach_bridge (kern_run K) br e k = (q, e', k1)"
    using prod_cases3 by blast
  note T = tool_attach_members [OF L q]
  have eq: "r = map_option (ToolAttachFailed (ep_node ep) br) q" "k' = k1" "ll' = set_tool (ep_node ep) e' ll"
    using r kd t q by (auto simp: attach_endpoint_def Let_def)
  have dev: "endpoint_dev ll ep = Some (host_veth_name (ep_node ep))"
    using kd t by (auto simp: endpoint_dev_def)
  have node: "te_node e = ep_node ep" using N t by (simp add: endpoints_named_def)
  have "same_devices ll ll'" using same_devices_set_tool [OF t T(4)] eq(3) by simp
  moreover have "kern_master K d k' = kern_master K d k" if "endpoint_dev ll ep \<noteq> Some d" for d
    using T(1) [of d] that dev node eq(2) by auto
  moreover have "kern_master K d k' = Some br" if "r = None" "must_wire ll br ep" "endpoint_dev ll ep = Some d" for d
    using T(2) that dev node eq kd t by (auto simp: must_wire_def)
  moreover have "k' = k" if "\<not> must_wire ll br ep"
    using T(3) that kd t eq(2) by (auto simp: must_wire_def)
  moreover have "recorded_wired ll' br ep" if "recorded_wired ll br ep"
    using T(3) that kd t eq(3) running_nodes by (auto simp: recorded_wired_def running_set)
  ultimately show ?thesis by blast
qed

lemma attach_endpoint_nat:
  assumes L: "ip_laws K" and N: "endpoints_named ll"
    and kd: "map_option node_kind (find_node ll (ep_node ep)) = Some KindNAT"
    and t: "running_nat ll (ep_node ep) = Some e"
    and r: "attach_endpoint K br lid ep k ll = (r, k', ll')"
  shows "same_devices ll ll' \<and>
     (\<forall>d. endpoint_dev ll ep \<noteq> Some d \<longrightarrow> kern_master K d k' = kern_master K d k) \<and>
     (r = None \<longrightarrow> must_wire ll br ep \<longrightarrow> (\<forall>d. endpoint_dev ll ep = Some d \<longrightarrow> kern_master K d k' = Some br)) \<and>
     (\<not> must_wire ll br ep \<longrightarrow> k' = k) \<and>
     (recorded_wired ll br ep \<longrightarrow> recorded_wired ll' br ep)"
proof -
  obtain q e' k1 where q: "nat_attach_bridge (kern_run K) br e k = (q, e', k1)"
    using prod_cases3 by blast
  note T = nat_attach_members [OF L q]
  have eq: "r = map_option (NatAttachFailed (ep_node ep) br) q" "k' = k1" "ll' = set_extnet (ep_node ep) e' ll"
    using r kd t q by (auto simp: attach_endpoint_def Let_def)
  have "ne_dev e = ''iolnat'' @ itoa (ep_node ep)"
    using t N by (simp add: endpoints_named_def nat_tap_name_def)
  then have dev: "endpoint_dev ll ep = Some (ne_dev e)"
    unfolding endpoint_dev_def kd by simp
  have "same_devices ll ll'" using same_devices_set_extnet [OF t T(4)] eq(3) by simp
  moreover have "kern_master K d k' = kern_master K d k" if "endpoint_dev ll ep \<noteq> Some d" for d
    using T(1) [of d] that dev eq(2) by auto
  moreover have "kern_master K d k' = Some br" if "r = None" "must_wire ll br ep" "endpoint_dev ll ep = Some d" for d
    using T(2) that dev eq kd t by (auto simp: must_wire_def)
  moreover have "k' = k" if "\<not> must_wire ll br ep"
    using T(3) that kd t eq(2) by (auto simp: must_wire_def)
  moreover have "recorded_wired ll' br ep" if "recorded_wired ll br ep"
    using T(3) that kd t eq(3) running_nodes by (auto simp: recorded_wired_def running_set)
  ultimately show ?thesis by blast
qed

lemma attach_endpoint_step:
  assumes L: "ip_laws K" and N: "endpoints_named ll"
    and r: "attach_endpoint K br lid ep k ll = (r, k', ll')"
  shows "same_devices ll ll' \<and>
     (\<forall>d. endpoint_dev ll ep \<noteq> Some d \<longrightarrow> kern_master K d k' = kern_master K d k) \<and>
     (r = None \<longrightarrow> must_wire ll br ep \<longrightarrow> (\<forall>d. endpoint_dev ll ep = Some d \<longrightarrow> kern_master K d k' = Some br)) \<and>
     (\<not> must_wire ll br ep \<longrightarrow> k' = k) \<and>
     (recorded_wired ll br ep \<longrightarrow> recorded_wired ll' br ep)"
proof -
  consider (nat) "map_option node_kind (find_node ll (ep_node ep)) = Some KindNAT"
    | (vpcs) "map_option node_kind (find_node ll (ep_node ep)) = Some KindVPCS"
    | (tool) kd where "map_option node_kind (find_node ll (ep_node ep)) = Some kd" "kd \<in> {KindTool, KindPC}"
    | (iol) "\<forall>kd. map_option node_kind (find_node ll (ep_node ep)) = Some kd \<longrightarrow> kd \<notin> {KindNAT, KindVPCS, KindTool, KindPC}"
    by blast
  then show ?thesis
  proof cases
    case nat
    show ?thesis
    proof (cases "running_nat ll (ep_node ep)")
      case None
      then show ?thesis using r nat by (auto simp: attach_endpoint_def Let_def must_wire_def)
    next
      case (Some e)
      show ?thesis by (rule attach_endpoint_nat [OF L N nat Some r])
    qed
  next
    case tool
    show ?thesis
    proof (cases "running_tool ll (ep_node ep)")
      case None
      then show ?thesis using r tool by (auto simp: attach_endpoint_def Let_def must_wire_def)
    next
      case (Some e)
      show ?thesis by (rule attach_endpoint_tool [OF L N tool Some r])
    qed
  next
    case vpcs
    then obtain n where n: "find_node ll (ep_node ep) = Some n" "node_kind n = KindVPCS" by auto
    show ?thesis
    proof (cases "fl_nodes ll (ep_node ep)")
      case None
      then show ?thesis using r n by (auto simp: attach_endpoint_def Let_def must_wire_def recorded_wired_def)
    next
      case (Some nr)
      obtain q k1 where q: "attach_dev (kern_run K) br (nr_vtap_name nr) k = (q, k1)" by fastforce
      show ?thesis
        using r n Some q attach_dev_members [OF L q]
        by (auto simp: attach_endpoint_def Let_def must_wire_def recorded_wired_def endpoint_dev_def
            fun_eq_iff split: if_splits)
    qed
  next
    case iol
    then have dev: "endpoint_dev ll ep = map_option tap_dev (tap_for_endpoint (fl_taps ll) ep)"
      by (auto simp: endpoint_dev_def split: option.splits kind.splits)
    have att: "attach_endpoint K br lid ep k ll =
      (case tap_for_endpoint (fl_taps ll) ep of
         None \<Rightarrow> (Some (NoStaticTap lid (ep_node ep) (ep_interface ep)), k, ll)
       | Some t \<Rightarrow> (case attach_tap K br (tap_dev t) k of
           (r, k') \<Rightarrow> (map_option (TapAttachFailed (tap_dev t) br) r, k', ll)))"
      using iol by (auto simp: attach_endpoint_def Let_def split: option.splits kind.splits)
    have rec: "\<not> recorded_wired ll br ep" "must_wire ll br ep"
      using iol by (auto simp: recorded_wired_def must_wire_def split: option.splits kind.splits)
    show ?thesis
    proof (cases "tap_for_endpoint (fl_taps ll) ep")
      case None
      then show ?thesis using r att dev rec by auto
    next
      case (Some t)
      obtain q k1 where q: "attach_tap K br (tap_dev t) k = (q, k1)" by fastforce
      show ?thesis
        using r att dev rec Some q attach_tap_members [OF L q] by (auto simp: fun_eq_iff)
    qed
  qed
qed

lemma attach_endpoint_frame:
  assumes "attach_endpoint K br lid ep k ll = (r, k', ll')"
  shows "find_node ll' = find_node ll"
    and "j \<noteq> ep_node ep \<Longrightarrow> running_nat ll' j = running_nat ll j"
    and "j \<noteq> ep_node ep \<Longrightarrow> running_tool ll' j = running_tool ll j"
  using assms
  by (auto simp: attach_endpoint_def Let_def running_set split: option.splits prod.splits kind.splits if_splits)

lemma must_wire_node:
  assumes "find_node ll' = find_node ll" and "same_devices ll ll'" and "ep_node ep' = ep_node ep"
    and "running_nat ll' (ep_node ep) = running_nat ll (ep_node ep)"
    and "running_tool ll' (ep_node ep) = running_tool ll (ep_node ep)"
  shows "must_wire ll' br ep' = must_wire ll br ep" and "recorded_wired ll' br ep' = recorded_wired ll br ep"
proof -
  have v: "map_option nr_vtap (fl_nodes ll' i) = map_option nr_vtap (fl_nodes ll i)" for i
    using assms(2) by (simp add: same_devices_def)
  show "must_wire ll' br ep' = must_wire ll br ep" "recorded_wired ll' br ep' = recorded_wired ll br ep"
    unfolding must_wire_def recorded_wired_def assms v by simp_all
qed

text \<open>Wiring another endpoint neither takes away a wiring that is still to be made, unless it made
  it itself, nor a recorded one.\<close>

lemma attach_endpoint_other:
  assumes L: "ip_laws K" and N: "endpoints_named ll"
    and r: "attach_endpoint K br lid ep k ll = (None, k', ll')"
  shows "must_wire ll br ep' \<Longrightarrow> endpoint_dev ll ep' = Some d \<Longrightarrow>
           must_wire ll' br ep' \<or> kern_master K d k' = Some br"
    and "recorded_wired ll br ep' \<Longrightarrow> recorded_wired ll' br ep'"
proof -
  note F = attach_endpoint_frame [OF r]
  note S = attach_endpoint_step [OF L N r]
  show "must_wire ll br ep' \<Longrightarrow> endpoint_dev ll ep' = Some d \<Longrightarrow>
           must_wire ll' br ep' \<or> kern_master K d k' = Some br"
  proof (cases "ep_node ep' = ep_node ep")
    case False
    assume "must_wire ll br ep'"
    then show ?thesis using must_wire_node(1) [OF F(1) conjunct1 [OF S] refl F(2,3) [OF False]] by blast
  next
    case True
    assume mw: "must_wire ll br ep'" and d: "endpoint_dev ll ep' = Some d"
    have w: "must_wire ll br ep"
      using must_wire_node(1) [OF refl same_devices_refl True refl refl, where br = br] mw by simp
    show ?thesis
    proof (cases "map_option node_kind (find_node ll (ep_node ep)) \<in> Some ` {KindNAT, KindTool, KindPC}")
      case True
      then have "endpoint_dev ll ep = Some d"
        using d \<open>ep_node ep' = ep_node ep\<close> by (auto simp: endpoint_dev_def)
      then show ?thesis using S w by blast
    next
      case False
      have "map_option nr_vtap (fl_nodes ll' (ep_node ep)) = map_option nr_vtap (fl_nodes ll (ep_node ep))"
        using S by (simp add: same_devices_def)
      then have "must_wire ll' br ep' = must_wire ll br ep'"
        using False F(1) True unfolding must_wire_def by (auto split: option.splits kind.splits)
      then show ?thesis using mw by simp
    qed
  qed
  show "recorded_wired ll br ep' \<Longrightarrow> recorded_wired ll' br ep'"
  proof (cases "ep_node ep' = ep_node ep")
    case False
    assume "recorded_wired ll br ep'"
    then show ?thesis using must_wire_node(2) [OF F(1) conjunct1 [OF S] refl F(2,3) [OF False]] by blast
  next
    case True
    assume "recorded_wired ll br ep'"
    moreover have "recorded_wired l br ep' = recorded_wired l br ep" for l
      unfolding recorded_wired_def True ..
    ultimately have "recorded_wired ll br ep" "recorded_wired ll' br ep \<Longrightarrow> recorded_wired ll' br ep'"
      by simp_all
    then show ?thesis using S by blast
  qed
qed

section \<open>All endpoints of a link\<close>

definition link_devices :: "fabric_lab \<Rightarrow> link \<Rightarrow> string set" where
  "link_devices ll l = {d. \<exists>ep \<in> set (endpoints l). endpoint_dev ll ep = Some d}"

lemma endpoint_devs_iff:
  "(i, d) \<in> set (fabric_link_endpoint_devs ll l) \<longleftrightarrow>
      i < length (endpoints l) \<and> endpoint_dev ll (endpoints l ! i) = Some d"
  by (auto simp: fabric_link_endpoint_devs_def map_filter_def in_set_enumerate_eq image_iff)

lemma link_devices_iff: "d \<in> link_devices ll l \<longleftrightarrow> (\<exists>i. (i, d) \<in> set (fabric_link_endpoint_devs ll l))"
  unfolding endpoint_devs_iff link_devices_def by (auto simp: Bex_def in_set_conv_nth [of _ "endpoints l"])

lemma attach_endpoints_members:
  assumes L: "ip_laws K" and "endpoints_named ll"
    and "attach_endpoints K br lid eps k ll = (None, k', ll')"
  shows "same_devices ll ll' \<and>
     (\<forall>d. (\<forall>ep \<in> set eps. endpoint_dev ll ep \<noteq> Some d) \<longrightarrow> kern_master K d k' = kern_master K d k) \<and>
     (\<forall>d. kern_master K d k' = kern_master K d k \<or> kern_master K d k' = Some br) \<and>
     (\<forall>ep \<in> set eps. \<forall>d. must_wire ll br ep \<longrightarrow> endpoint_dev ll ep = Some d \<longrightarrow> kern_master K d k' = Some br) \<and>
     (\<forall>d. (\<forall>ep \<in> set eps. endpoint_dev ll ep = Some d \<longrightarrow> recorded_wired ll br ep) \<longrightarrow>
        kern_master K d k' = kern_master K d k)"
  using assms(2,3)
proof (induction eps arbitrary: k ll)
  case (Cons ep eps)
  obtain r k1 ll1 where r: "attach_endpoint K br lid ep k ll = (r, k1, ll1)" by (metis prod_cases3)
  then have rest: "r = None" "attach_endpoints K br lid eps k1 ll1 = (None, k', ll')"
    using Cons.prems(2) by (auto split: option.splits)
  note r = r [unfolded rest(1)]
  note S = attach_endpoint_step [OF L Cons.prems(1) r]
  note O = attach_endpoint_other [OF L Cons.prems(1) r]
  have same: "endpoint_dev ll1 = endpoint_dev ll" "endpoints_named ll1"
    using S Cons.prems(1) by (simp_all add: same_devices_def)
  note IH = Cons.IH [OF same(2) rest(2), unfolded same(1)]
  have rw: "recorded_wired ll br ep \<Longrightarrow> \<not> must_wire ll br ep"
    by (auto simp: recorded_wired_def must_wire_def split: option.splits kind.splits)
  have keep: "kern_master K d k1 = kern_master K d k \<or> kern_master K d k1 = Some br" for d
    using S by (cases "must_wire ll br ep"; cases "endpoint_dev ll ep = Some d") auto
  have "same_devices ll ll'" using S IH same_devices_trans by blast
  moreover have "kern_master K d k' = kern_master K d k" if "\<forall>e \<in> set (ep # eps). endpoint_dev ll e \<noteq> Some d" for d
    using that S IH by simp
  moreover have "kern_master K d k' = kern_master K d k \<or> kern_master K d k' = Some br" for d
    using keep [of d] IH by metis
  moreover have "kern_master K d k' = Some br"
    if e: "e \<in> set (ep # eps)" "must_wire ll br e" "endpoint_dev ll e = Some d" for e d
  proof -
    have kept: "kern_master K d k1 = Some br \<Longrightarrow> kern_master K d k' = Some br" using IH by metis
    consider "e = ep" | "e \<in> set eps" using e(1) by auto
    then show ?thesis
    proof cases
      case 1
      then show ?thesis using S e kept by blast
    next
      case 2
      then show ?thesis using O(1) [OF e(2,3)] e(3) kept IH by blast
    qed
  qed
  moreover have "kern_master K d k' = kern_master K d k"
    if d: "\<forall>e \<in> set (ep # eps). endpoint_dev ll e = Some d \<longrightarrow> recorded_wired ll br e" for d
  proof -
    have "\<forall>e \<in> set eps. endpoint_dev ll e = Some d \<longrightarrow> recorded_wired ll1 br e" using d O(2) by simp
    then have "kern_master K d k' = kern_master K d k1" using IH by blast
    moreover have "kern_master K d k1 = kern_master K d k" using S d rw by (cases "endpoint_dev ll ep = Some d") auto
    ultimately show ?thesis by simp
  qed
  ultimately show ?case by blast
qed simp

lemma refused_releases_subset: "set (refused_releases K ms k) \<subseteq> set ms"
  by (induction ms arbitrary: k) (auto split: prod.splits)

lemma strip_fold_members:
  assumes L: "ip_laws K"
  shows "d \<notin> set ms \<or> kern_master K d k = None \<Longrightarrow>
           kern_master K d (fold (\<lambda>m k. snd (detach_dev (kern_run K) m k)) ms k) = kern_master K d k"
    and "d \<in> set ms \<Longrightarrow> d \<notin> set (refused_releases K ms k) \<Longrightarrow>
           kern_master K d (fold (\<lambda>m k. snd (detach_dev (kern_run K) m k)) ms k) = None"
proof -
  show keep: "kern_master K d (fold (\<lambda>m k. snd (detach_dev (kern_run K) m k)) ms k) = kern_master K d k"
    if "d \<notin> set ms \<or> kern_master K d k = None" for ms k
    using that
  proof (induction ms arbitrary: k)
    case (Cons m ms)
    have "kern_master K d (snd (detach_dev (kern_run K) m k)) = kern_master K d k"
      using detach_dev_members(1,4) [OF L] Cons.prems by (cases "d = m") auto
    moreover have "d \<notin> set ms \<or> kern_master K d (snd (detach_dev (kern_run K) m k)) = None"
      using calculation Cons.prems by auto
    note Cons.IH [OF this]
    ultimately show ?case by simp
  qed simp
  show "d \<in> set ms \<Longrightarrow> d \<notin> set (refused_releases K ms k) \<Longrightarrow>
      kern_master K d (fold (\<lambda>m k. snd (detach_dev (kern_run K) m k)) ms k) = None"
  proof (induction ms arbitrary: k)
    case (Cons m ms)
    let ?k1 = "snd (detach_dev (kern_run K) m k)"
    have k1: "?k1 = snd (kern_run K (nomaster_cmd m) k)" by (rule detach_dev_state)
    have rest: "d \<notin> set (refused_releases K ms ?k1)" and ok: "d = m \<Longrightarrow> fst (kern_run K (nomaster_cmd m) k) = None"
      using Cons.prems(2) by (cases "kern_run K (nomaster_cmd m) k"; auto simp: k1 split: if_splits)+
    show ?case
    proof (cases "d = m")
      case True
      then have none: "kern_master K d ?k1 = None" using detach_dev_members(2) [OF L] ok by simp
      then have "d \<notin> set ms \<or> kern_master K d ?k1 = None" by simp
      note kept = keep [OF this]
      show ?thesis by (simp only: fold.simps comp_apply kept none)
    next
      case False
      then show ?thesis using Cons.IH [of ?k1] Cons.prems(1) rest by simp
    qed
  qed simp
qed

lemma strip_members_master:
  assumes L: "ip_laws K"
  shows "kern_master K d k \<noteq> Some br \<Longrightarrow> kern_master K d (strip_members K br k) = kern_master K d k"
    and "kern_master K d k = Some br \<Longrightarrow> d \<notin> left_behind K br k \<Longrightarrow> kern_master K d (strip_members K br k) = None"
  using strip_fold_members [OF L, of d _ k] ip_laws_members [OF L, of br k _ d]
  by (auto simp: strip_members_def left_behind_def split: option.splits)

text \<open>Nothing is left behind where the members can be listed and each of them is released.\<close>

lemma left_behind_none:
  assumes "ip_laws K" and "kern_members K br k = Some ms" and "\<forall>m \<in> set ms. \<forall>k. fst (kern_run K (nomaster_cmd m) k) = None"
  shows "left_behind K br k = {}"
proof -
  have "refused_releases K ms k = []" for k
    using assms(3) by (induction ms arbitrary: k) (auto split: prod.splits if_splits simp: prod_eq_iff)
  then show ?thesis by (simp add: left_behind_def assms(2))
qed

lemma clear_netem_devs_keep:
  "ip_laws K \<Longrightarrow> members_of K (snd (clear_netem_devs K lid ds k)) = members_of K k"
proof (induction ds arbitrary: k)
  case (Cons e ds)
  obtain i d where e: "e = (i, d)" by (cases e)
  obtain r k1 where r: "clear_netem (kern_run K) d k = (r, k1)" by fastforce
  have "members_of K k1 = members_of K k" using clear_netem_keep [OF Cons.prems, of d k] r by simp
  then show ?case using Cons r e by (auto split: option.splits)
qed simp

lemma impair_devs_keep:
  "ip_laws K \<Longrightarrow> members_of K (snd (impair_devs K lid f ds k)) = members_of K k"
proof (induction ds arbitrary: k)
  case (Cons e ds)
  obtain i d where e: "e = (i, d)" by (cases e)
  obtain r k1 where r: "(if fault_targets_endpoint f i then set_netem (kern_number K) (kern_run K) d (fault_netem f) k
      else clear_netem (kern_run K) d k) = (r, k1)" by fastforce
  have "members_of K k1 = members_of K k"
    using clear_netem_keep [OF Cons.prems, of d k]
      set_netem_keep [OF Cons.prems, of "kern_number K" d "fault_netem f" k] r
    by (cases "fault_targets_endpoint f i") auto
  then show ?case using Cons r e by (auto split: option.splits)
qed simp

lemma reconcile_link_fault_keep:
  "ip_laws K \<Longrightarrow> members_of K (snd (reconcile_link_fault K l k ll)) = members_of K k"
  by (simp add: reconcile_link_fault_def clear_link_netem_def clear_netem_devs_keep impair_devs_keep
      split: option.splits bool.splits)

section \<open>A kernel for the witnesses\<close>

record toy =
  toy_devs :: "string list"
  toy_enslaved :: "(string \<times> string) list"
  toy_qdiscs :: "(string \<times> string list) list"

definition toy_exists :: "string \<Rightarrow> toy \<Rightarrow> bool" where
  "toy_exists d k = (d \<in> set (toy_devs k) \<or> d \<in> snd ` set (toy_enslaved k))"

definition toy_run :: "toy runner" where
  "toy_run av k =
     (if length av = 6 \<and> take 3 av = [''ip'', ''link'', ''set''] \<and> av ! 4 = ''master'' then
        (if toy_exists (av ! 3) k \<and> toy_exists (av ! 5) k
         then (None, k \<lparr> toy_enslaved := AList.update (av ! 3) (av ! 5) (toy_enslaved k) \<rparr>)
         else (Some (''exit status 1'', ''Cannot find device''), k))
      else if length av = 5 \<and> take 3 av = [''ip'', ''link'', ''set''] \<and> av ! 4 = ''nomaster'' then
        (None, k \<lparr> toy_devs := map snd (toy_enslaved k) @ toy_devs k,
                   toy_enslaved := AList.delete (av ! 3) (toy_enslaved k) \<rparr>)
      else if length av > 3 \<and> take 3 av = [''ip'', ''link'', ''add''] then
        (if toy_exists (av ! 3) k then (Some (''exit status 2'', ''RTNETLINK answers: File exists''), k)
         else (None, k \<lparr> toy_devs := av ! 3 # toy_devs k \<rparr>))
      else if length av \<ge> 7 \<and> take 3 av = [''tc'', ''qdisc'', ''replace''] then
        (None, k \<lparr> toy_qdiscs := AList.update (av ! 4) (drop 7 av) (toy_qdiscs k) \<rparr>)
      else if length av = 6 \<and> take 3 av = [''tc'', ''qdisc'', ''del''] then
        (None, k \<lparr> toy_qdiscs := AList.delete (av ! 4) (toy_qdiscs k) \<rparr>)
      else (None, k))"

definition toy_kernel :: "toy kernel" where
  "toy_kernel = \<lparr> kern_run = toy_run, kern_exists = toy_exists,
     kern_master = (\<lambda>d k. map_of (toy_enslaved k) d),
     kern_members = (\<lambda>b k. Some (filter (\<lambda>d. map_of (toy_enslaved k) d = Some b) (map fst (toy_enslaved k)))),
     kern_number = (\<lambda>q. []), kern_dirstat = (\<lambda>_ _. False), kern_slowtee = (\<lambda>_ _. False) \<rparr>"

lemma no_file_exists: "\<not> contains (to_lower ''Cannot find device'') ''file exists''"
  by code_simp

lemma toy_keep:
  assumes "keeps_membership av"
  shows "toy_enslaved (snd (toy_run av k)) = toy_enslaved k \<and>
         set (toy_devs k) \<subseteq> set (toy_devs (snd (toy_run av k)))"
proof -
  have pre: "av \<noteq> [] \<and> hd av = ''ip'' \<and> take 2 av = [''ip'', b]" if "take 3 av = [''ip'', b, c]" for b c
  proof -
    have "hd (take 3 av) = hd av" "take 2 (take 3 av) = take 2 av" by simp_all
    then show ?thesis using that by auto
  qed
  have "\<not> (length av = 6 \<and> take 3 av = [''ip'', ''link'', ''set''] \<and> av ! 4 = ''master'')"
    "\<not> (length av = 5 \<and> take 3 av = [''ip'', ''link'', ''set''] \<and> av ! 4 = ''nomaster'')"
    using assms pre [of "''link''" "''set''"] by (auto simp: keeps_membership_def)
  then show ?thesis unfolding toy_run_def by (auto split: if_splits)
qed

lemma toy_ip_laws: "ip_laws toy_kernel"
proof -
  have set1: "toy_run (master_cmd d b) k =
      (if toy_exists d k \<and> toy_exists b k then (None, k \<lparr> toy_enslaved := AList.update d b (toy_enslaved k) \<rparr>)
       else (Some (''exit status 1'', ''Cannot find device''), k))" for d b k
    by (simp add: toy_run_def master_cmd_def)
  have set2: "toy_run (nomaster_cmd d) k =
      (None, k \<lparr> toy_devs := map snd (toy_enslaved k) @ toy_devs k, toy_enslaved := AList.delete d (toy_enslaved k) \<rparr>)" for d k
    by (simp add: toy_run_def nomaster_cmd_def)
  have ex: "toy_exists b k" if "map_of (toy_enslaved k) d = Some b" for b d k
    using map_of_SomeD [OF that] by (force simp: toy_exists_def)
  have keep: "map_of (toy_enslaved (snd (toy_run av k))) d = map_of (toy_enslaved k) d"
    "toy_exists d k \<Longrightarrow> toy_exists d (snd (toy_run av k))" if "keeps_membership av" for av k d
    using toy_keep [OF that, of k] by (auto simp: toy_exists_def)
  have mem: "map_of xs d = Some b \<Longrightarrow> d \<in> fst ` set xs" for xs :: "(string \<times> string) list" and d b
    by (metis domI dom_map_of_conv_image_fst)
  have a1: "(\<forall>d'. d' \<noteq> d \<longrightarrow> map_of (toy_enslaved k') d' = map_of (toy_enslaved k) d') \<and>
        map_of (toy_enslaved k') d = (if r = None then Some b else map_of (toy_enslaved k) d) \<and>
        (\<forall>e out. r = Some (e, out) \<and> contains (to_lower out) ''file exists'' \<longrightarrow> map_of (toy_enslaved k) d = Some b)"
    if "toy_run (master_cmd d b) k = (r, k')" for d b k r k'
    using that no_file_exists by (auto simp: set1 AList.update_conv' split: if_splits)
  have a2: "(\<forall>d'. d' \<noteq> d \<longrightarrow> map_of (toy_enslaved k') d' = map_of (toy_enslaved k) d') \<and>
        map_of (toy_enslaved k') d = (if r = None then None else map_of (toy_enslaved k) d)"
    if "toy_run (nomaster_cmd d) k = (r, k')" for d k r k'
    using that by (auto simp: set2 AList.delete_conv')
  show ?thesis
    unfolding ip_laws_def toy_kernel_def kernel.simps
  proof (intro conjI, goal_cases)
    case 1
    show ?case using a1 by blast
  next
    case 2
    show ?case using a2 by blast
  next
    case 3
    show ?case using keep(1) by blast
  next
    case 4
    show ?case using ex by blast
  next
    case 5
    show ?case using mem by auto
  next
    case 6
    show ?case using keep(2) by blast
  qed
qed

lemma toy_frees: "fst (toy_run (nomaster_cmd d) k) = None"
  by (simp add: toy_run_def nomaster_cmd_def)

lemma toy_left_behind: "left_behind toy_kernel br k = {}"
  by (rule left_behind_none [OF toy_ip_laws]) (simp_all add: toy_kernel_def toy_frees)

lemma toy_freeable: "freeable toy_kernel d"
  by (simp add: freeable_def toy_kernel_def toy_frees)

section \<open>Attach and detach passes\<close>

lemma attach_fabric_link_split:
  assumes L: "ip_laws K" and br: "bridge_name (link_id l) = Inr br"
    and r: "attach_fabric_link K l k ll = (None, k', ll')"
  obtains k2 k3 ll3 where
      "\<And>d. kern_master K d k \<noteq> Some br \<Longrightarrow> kern_master K d k2 = kern_master K d k"
      "\<And>d. kern_master K d k = Some br \<Longrightarrow> d \<notin> left_behind K br (snd (ensure_bridge (kern_run K) br k)) \<Longrightarrow>
         kern_master K d k2 = None"
      "attach_endpoints K br (link_id l) (endpoints l) k2 ll = (None, k3, ll3)"
      "members_of K k' = members_of K k3" "ll' = mark_attached K l k3 ll3"
proof -
  obtain e k1 where e: "ensure_bridge (kern_run K) br k = (e, k1)" by fastforce
  then have none: "e = None" using r br by (auto simp: attach_fabric_link_def Let_def split: option.splits)
  have m1: "members_of K k1 = members_of K k" using ensure_bridge_keep [OF L, of br k] e by simp
  define k2 where "k2 = (if kern_exists K br k then strip_members K br k1 else k1)"
  obtain q k3 ll3 where q: "attach_endpoints K br (link_id l) (endpoints l) k2 ll = (q, k3, ll3)"
    by (metis prod_cases3)
  have body: "attach_fabric_link K l k ll = (case attach_endpoints K br (link_id l) (endpoints l) k2 ll of
      (Some e, k3, ll3) \<Rightarrow> (Some e, k3, ll3)
    | (None, k3, ll3) \<Rightarrow> (let ll4 = mark_attached K l k3 ll3; (r, k4) = reconcile_link_fault K l k3 ll4 in (r, k4, ll4)))"
    by (simp add: attach_fabric_link_def br e none k2_def)
  have qn: "q = None" using r q unfolding body by (auto split: option.splits)
  obtain r4 k4 where r4: "reconcile_link_fault K l k3 (mark_attached K l k3 ll3) = (r4, k4)" by fastforce
  have fin: "k' = k4" "ll' = mark_attached K l k3 ll3"
    using r q qn r4 unfolding body by (simp_all add: Let_def)
  have "kern_master K d k2 = kern_master K d k" if "kern_master K d k \<noteq> Some br" for d
    using strip_members_master(1) [OF L, of d k1 br] fun_cong [OF m1, of d] that by (simp add: k2_def)
  moreover have "kern_master K d k2 = None"
    if "kern_master K d k = Some br" "d \<notin> left_behind K br (snd (ensure_bridge (kern_run K) br k))" for d
    using strip_members_master(2) [OF L, of d k1 br] fun_cong [OF m1, of d] that e ip_laws_bridge [OF L that(1)]
    by (simp add: k2_def)
  moreover have "members_of K k' = members_of K k3"
    using reconcile_link_fault_keep [OF L, of l k3 "mark_attached K l k3 ll3"] r4 fin(1) by simp
  ultimately show thesis using that q qn fin(2) by blast
qed

lemma detach_endpoint_step:
  assumes L: "ip_laws K" and N: "endpoints_named ll" and r: "detach_endpoint K ep k ll = (k', ll')"
  shows "same_devices ll ll' \<and>
     (\<forall>d. endpoint_dev ll ep \<noteq> Some d \<longrightarrow> kern_master K d k' = kern_master K d k) \<and>
     (\<forall>d. endpoint_dev ll ep = Some d \<longrightarrow> (freeable K d \<longrightarrow> kern_master K d k' = None) \<or>
        kern_master K d k' = kern_master K d k \<and> map_option node_kind (find_node ll (ep_node ep)) = Some KindNAT
        \<and> \<not> (\<exists>e. running_nat ll (ep_node ep) = Some e \<and> ne_bridge e \<noteq> [])) \<and>
     (\<forall>j. j \<noteq> ep_node ep \<longrightarrow> running_nat ll' j = running_nat ll j) \<and> find_node ll' = find_node ll"
proof -
  let ?kd = "map_option node_kind (find_node ll (ep_node ep))"
  consider (nat) "?kd = Some KindNAT" | (vpcs) "?kd = Some KindVPCS"
    | (tool) kd where "?kd = Some kd" "kd \<in> {KindTool, KindPC}"
    | (iol) "\<forall>kd. ?kd = Some kd \<longrightarrow> kd \<notin> {KindNAT, KindVPCS, KindTool, KindPC}"
    by blast
  then show ?thesis
  proof cases
    case nat
    show ?thesis
    proof (cases "running_nat ll (ep_node ep)")
      case None
      then show ?thesis using r nat by (auto simp: detach_endpoint_def Let_def)
    next
      case (Some e)
      obtain e' k1 where q: "nat_detach_bridge (kern_run K) e k = (e', k1)" by fastforce
      note T = nat_detach_members [OF L q]
      have eq: "k' = k1" "ll' = set_extnet (ep_node ep) e' ll"
        using r nat Some q by (auto simp: detach_endpoint_def Let_def)
      have "ne_dev e = ''iolnat'' @ itoa (ep_node ep)" using Some N by (simp add: endpoints_named_def nat_tap_name_def)
      then have dev: "endpoint_dev ll ep = Some (ne_dev e)" unfolding endpoint_dev_def nat by simp
      have "same_devices ll ll'" using same_devices_set_extnet [OF Some] T(4) eq(2) by simp
      have "kern_master K (ne_dev e) k1 = kern_master K (ne_dev e) k" if "ne_bridge e = []" using T(2) that by simp
      then show ?thesis using \<open>same_devices ll ll'\<close> T(1,3) eq dev Some nat
        by (cases "ne_bridge e = []") (auto simp: running_set)
    qed
  next
    case tool
    show ?thesis
    proof (cases "running_tool ll (ep_node ep)")
      case None
      then show ?thesis using r tool by (auto simp: detach_endpoint_def Let_def endpoint_dev_def)
    next
      case (Some e)
      obtain e' k1 where q: "tool_detach_bridge (kern_run K) e k = (e', k1)" by fastforce
      note T = tool_detach_members [OF L q]
      have eq: "k' = k1" "ll' = set_tool (ep_node ep) e' ll"
        using r tool Some q by (auto simp: detach_endpoint_def Let_def)
      have dev: "endpoint_dev ll ep = Some (host_veth_name (te_node e))"
        using tool Some N by (auto simp: endpoint_dev_def endpoints_named_def)
      have "same_devices ll ll'" using same_devices_set_tool [OF Some] T(3) eq(2) by simp
      then show ?thesis using T(1,2) eq dev by (auto simp: running_set)
    qed
  next
    case vpcs
    then show ?thesis
      using r detach_dev_members(1,3) [OF L]
      by (auto simp: detach_endpoint_def Let_def endpoint_dev_def split: option.splits if_splits)
  next
    case iol
    then have dev: "endpoint_dev ll ep = map_option tap_dev (tap_for_endpoint (fl_taps ll) ep)"
      by (auto simp: endpoint_dev_def split: option.splits kind.splits)
    have det: "detach_endpoint K ep k ll =
      (case tap_for_endpoint (fl_taps ll) ep of None \<Rightarrow> (k, ll)
       | Some t \<Rightarrow> (snd (detach_dev (kern_run K) (tap_dev t) k), ll))"
      using iol by (auto simp: detach_endpoint_def Let_def split: option.splits kind.splits)
    show ?thesis
      using r dev det detach_dev_members(1,3) [OF L] by (auto split: option.splits)
  qed
qed

text \<open>The targets an admin-down pass leaves off the bridge: all of them, except a nat endpoint
  that has no bridge recorded.\<close>

definition detachable :: "fabric_lab \<Rightarrow> endpoint \<Rightarrow> bool" where
  "detachable ll ep \<longleftrightarrow>
     (map_option node_kind (find_node ll (ep_node ep)) = Some KindNAT \<longrightarrow>
       (\<exists>e. running_nat ll (ep_node ep) = Some e \<and> ne_bridge e \<noteq> []))"

lemma detachable_cong:
  assumes "find_node ll' = find_node ll" and "running_nat ll' (ep_node ep) = running_nat ll (ep_node ep)"
  shows "detachable ll' ep = detachable ll ep"
  by (simp add: detachable_def assms)

lemma down_targets_members:
  assumes L: "ip_laws K" and "endpoints_named ll"
    and "down_targets K l br f ds k ll = (None, k', ll')"
    and "set ds \<subseteq> set (fabric_link_endpoint_devs ll l)" and "distinct (map snd ds)"
  shows "same_devices ll ll' \<and>
     (\<forall>d. d \<notin> snd ` set ds \<longrightarrow> kern_master K d k' = kern_master K d k) \<and>
     (\<forall>(i, d) \<in> set ds. fault_targets_endpoint f i \<and> detachable ll (endpoints l ! i) \<and> freeable K d \<longrightarrow>
        kern_master K d k' = None)"
  using assms(2-5)
proof (induction ds arbitrary: k ll)
  case (Cons e ds)
  obtain i d where e: "e = (i, d)" by (cases e)
  let ?ep = "endpoints l ! i"
  have i: "i < length (endpoints l)" and dev: "endpoint_dev ll ?ep = Some d"
    using Cons.prems(3) e endpoint_devs_iff by auto
  obtain k1 ll1 where S: "same_devices ll ll1"
      "\<And>d'. d' \<noteq> d \<Longrightarrow> kern_master K d' k1 = kern_master K d' k"
      "fault_targets_endpoint f i \<Longrightarrow> detachable ll ?ep \<Longrightarrow> freeable K d \<Longrightarrow> kern_master K d k1 = None"
      "find_node ll1 = find_node ll" "\<And>j. j \<noteq> ep_node ?ep \<Longrightarrow> running_nat ll1 j = running_nat ll j"
    and rest: "down_targets K l br f ds k1 ll1 = (None, k', ll')"
  proof (cases "fault_targets_endpoint f i")
    case True
    obtain k1 ll1 where r: "detach_endpoint K ?ep k ll = (k1, ll1)" by fastforce
    have "down_targets K l br f ds k1 ll1 = (None, k', ll')"
      using Cons.prems(2) True i r e by (simp add: detach_fabric_endpoint_def)
    then show thesis
      using that [of ll1 k1] detach_endpoint_step [OF L Cons.prems(1) r] dev by (auto simp: detachable_def)
  next
    case False
    obtain q k1 ll1 where r: "attach_endpoint K br (link_id l) ?ep k ll = (q, k1, ll1)" by (metis prod_cases3)
    have "q = None" "down_targets K l br f ds k1 ll1 = (None, k', ll')"
      using Cons.prems(2) False i r e by (auto simp: attach_fabric_endpoint_def split: option.splits)
    then show thesis
      using that [of ll1 k1] attach_endpoint_step [OF L Cons.prems(1) r] attach_endpoint_frame [OF r] dev False
      by auto
  qed
  have same: "fabric_link_endpoint_devs ll1 l = fabric_link_endpoint_devs ll l"
    and N1: "endpoints_named ll1" and edev: "endpoint_dev ll1 = endpoint_dev ll"
    using S(1) Cons.prems(1) by (simp_all add: same_devices_def fabric_link_endpoint_devs_def)
  note IH = Cons.IH [OF N1 rest, unfolded same]
  have IH: "same_devices ll1 ll' \<and> (\<forall>d. d \<notin> snd ` set ds \<longrightarrow> kern_master K d k' = kern_master K d k1) \<and>
     (\<forall>(i, d) \<in> set ds. fault_targets_endpoint f i \<and> detachable ll1 (endpoints l ! i) \<and> freeable K d \<longrightarrow>
        kern_master K d k' = None)"
    using IH Cons.prems(3,4) by simp
  have notin: "d \<notin> snd ` set ds" using Cons.prems(4) e by simp
  have keepd: "detachable ll1 (endpoints l ! j)" if j: "(j, d') \<in> set ds" "detachable ll (endpoints l ! j)" for j d'
  proof (cases "map_option node_kind (find_node ll (ep_node (endpoints l ! j))) = Some KindNAT")
    case True
    have dj: "endpoint_dev ll (endpoints l ! j) = Some d'"
      using j(1) Cons.prems(3) endpoint_devs_iff by auto
    have "ep_node (endpoints l ! j) \<noteq> ep_node ?ep"
    proof
      assume eq: "ep_node (endpoints l ! j) = ep_node ?ep"
      have "endpoint_dev ll (endpoints l ! j) = endpoint_dev ll ?ep"
        using endpoint_dev_nat [of ll "endpoints l ! j"] endpoint_dev_nat [of ll ?ep] True eq by simp
      then have "d' = d" using dj dev by simp
      then show False using notin j(1) by force
    qed
    then show ?thesis using detachable_cong [OF S(4) S(5)] j(2) by blast
  next
    case False
    then show ?thesis by (auto simp: detachable_def S(4))
  qed
  have "same_devices ll ll'" using S(1) IH same_devices_trans by blast
  moreover have "kern_master K d' k' = kern_master K d' k" if "d' \<notin> snd ` set (e # ds)" for d'
    using that IH S(2) e by auto
  moreover have "kern_master K d' k' = None"
    if "(j, d') \<in> set (e # ds)" "fault_targets_endpoint f j \<and> detachable ll (endpoints l ! j) \<and> freeable K d'" for j d'
  proof (cases "(j, d') \<in> set ds")
    case True
    then show ?thesis using IH keepd that(2) by blast
  next
    case False
    then have "j = i" "d' = d" using that(1) e by simp_all
    then show ?thesis using IH notin S(3) that(2) by simp
  qed
  ultimately show ?case by blast
qed simp

lemma run_from_exists:
  assumes "ip_laws K" and "list_all keeps_membership avs" and "kern_exists K d k"
  shows "kern_exists K d (snd (run_from (kern_run K) fo i avs k))"
  using assms(2,3)
proof (induction avs arbitrary: i k)
  case (Cons av avs)
  obtain r k1 where r: "kern_run K av k = (r, k1)" by fastforce
  have "kern_exists K d (snd (kern_run K av k))"
    using assms(1) Cons.prems unfolding ip_laws_def by simp
  then have "kern_exists K d (snd (run_from (kern_run K) fo (Suc i) avs k1))" "kern_exists K d k1"
    using Cons r by simp_all
  then show ?case using r by (cases r; cases i) (auto split: prod.splits)
qed simp

lemma clear_netem_devs_exists:
  "ip_laws K \<Longrightarrow> kern_exists K d k \<Longrightarrow> kern_exists K d (snd (clear_netem_devs K lid ds k))"
proof (induction ds arbitrary: k)
  case (Cons e ds)
  obtain i d' where e: "e = (i, d')" by (cases e)
  obtain r k1 where r: "clear_netem (kern_run K) d' k = (r, k1)" by fastforce
  have "kern_exists K d (snd (clear_netem (kern_run K) d' k))"
    unfolding clear_netem_def run_idempotent_def
    by (rule run_from_exists) (use Cons.prems in \<open>simp_all add: netem_clear_cmds_def keeps_membership_def\<close>)
  then show ?case using Cons r e by (auto split: option.splits)
qed simp

lemma clear_netem_spec:
  assumes "clear_netem (kern_run K) d k = (None, k')"
  obtains r where "kern_run K [''tc'', ''qdisc'', ''del'', ''dev'', d, ''root''] k = (r, k')"
    "\<And>e out. r = Some (e, out) \<Longrightarrow> is_benign OpNetemClear (to_lower out)"
  using assms
  by (auto simp: clear_netem_def netem_clear_cmds_def run_idempotent_single simp del: is_benign.simps
      split: option.splits prod.splits if_splits)

text \<open>The netem arguments after ``tc qdisc replace dev D root netem''.\<close>

definition netem_args :: "(rat \<Rightarrow> string) \<Rightarrow> netem \<Rightarrow> string list" where
  "netem_args num n = drop 7 (hd (netem_cmds num [] n))"

lemma netem_cmds_args:
  "netem_cmds num d n = [[''tc'', ''qdisc'', ''replace'', ''dev'', d, ''root'', ''netem''] @ netem_args num n]"
  by (simp add: netem_cmds_def netem_args_def)

text \<open>What tc is relied on for: replace installs exactly the given netem on the device, del leaves
  it without one, also when it answers that there was none or that the device is gone, and
  neither touches another device.\<close>

definition tc_laws :: "'k kernel \<Rightarrow> (string \<Rightarrow> 'k \<Rightarrow> string list option) \<Rightarrow> bool" where
  "tc_laws K qdisc \<longleftrightarrow>
     (\<forall>d args k r k'. kern_run K ([''tc'', ''qdisc'', ''replace'', ''dev'', d, ''root'', ''netem''] @ args) k = (r, k') \<longrightarrow>
        (\<forall>d'. d' \<noteq> d \<longrightarrow> qdisc d' k' = qdisc d' k) \<and> (r = None \<longrightarrow> qdisc d k' = Some args)) \<and>
     (\<forall>d k r k'. kern_run K [''tc'', ''qdisc'', ''del'', ''dev'', d, ''root''] k = (r, k') \<longrightarrow>
        (\<forall>d'. d' \<noteq> d \<longrightarrow> qdisc d' k' = qdisc d' k) \<and>
        ((\<forall>e out. r = Some (e, out) \<longrightarrow> is_benign OpNetemClear (to_lower out)) \<longrightarrow> qdisc d k' = None))"

lemma impair_step:
  assumes L: "tc_laws K qdisc"
    and r: "(if fault_targets_endpoint f i then set_netem (kern_number K) (kern_run K) d (fault_netem f) k
             else clear_netem (kern_run K) d k) = (None, k')"
  shows "qdisc d k' = (if fault_targets_endpoint f i then Some (netem_args (kern_number K) (fault_netem f)) else None)"
    and "d' \<noteq> d \<Longrightarrow> qdisc d' k' = qdisc d' k"
proof -
  have set: "(\<forall>d'. d' \<noteq> d \<longrightarrow> qdisc d' k' = qdisc d' k) \<and> qdisc d k' = Some (netem_args (kern_number K) (fault_netem f))"
    if "set_netem (kern_number K) (kern_run K) d (fault_netem f) k = (None, k')"
  proof -
    have "kern_run K ([''tc'', ''qdisc'', ''replace'', ''dev'', d, ''root'', ''netem'']
        @ netem_args (kern_number K) (fault_netem f)) k = (None, k')"
      using that by (auto simp: set_netem_def netem_cmds_args run_idempotent_single split: option.splits prod.splits)
    then show ?thesis using conjunct1 [OF L [unfolded tc_laws_def]] by blast
  qed
  have clear: "(\<forall>d'. d' \<noteq> d \<longrightarrow> qdisc d' k' = qdisc d' k) \<and> qdisc d k' = None"
    if c: "clear_netem (kern_run K) d k = (None, k')"
  proof -
    obtain r where r: "kern_run K [''tc'', ''qdisc'', ''del'', ''dev'', d, ''root''] k = (r, k')"
      and b: "\<And>e out. r = Some (e, out) \<Longrightarrow> is_benign OpNetemClear (to_lower out)"
      by (rule clear_netem_spec [OF c]) blast
    have b': "\<forall>e out. r = Some (e, out) \<longrightarrow> is_benign OpNetemClear (to_lower out)" using b by blast
    show ?thesis
      using conjunct2 [OF L [unfolded tc_laws_def], THEN spec, THEN spec, THEN spec, THEN spec, THEN mp, OF r] b'
      by blast
  qed
  show "qdisc d k' = (if fault_targets_endpoint f i then Some (netem_args (kern_number K) (fault_netem f)) else None)"
    "d' \<noteq> d \<Longrightarrow> qdisc d' k' = qdisc d' k"
    using set clear r by (auto split: if_splits)
qed

lemma impair_devs_qdisc:
  assumes L: "tc_laws K qdisc" and "impair_devs K lid f ds k = (None, k')" and "distinct (map snd ds)"
  shows "(\<forall>(i, d) \<in> set ds. qdisc d k' =
            (if fault_targets_endpoint f i then Some (netem_args (kern_number K) (fault_netem f)) else None)) \<and>
         (\<forall>d. d \<notin> snd ` set ds \<longrightarrow> qdisc d k' = qdisc d k)"
  using assms(2,3)
proof (induction ds arbitrary: k)
  case (Cons e ds)
  obtain i d where e: "e = (i, d)" by (cases e)
  obtain r k1 where r: "(if fault_targets_endpoint f i then set_netem (kern_number K) (kern_run K) d (fault_netem f) k
      else clear_netem (kern_run K) d k) = (r, k1)" by fastforce
  have rest: "r = None" "impair_devs K lid f ds k1 = (None, k')"
    using Cons.prems(1) r e by (auto split: option.splits)
  note S = impair_step [OF L r [unfolded rest(1)]]
  have "distinct (map snd ds)" and notin: "d \<notin> snd ` set ds" using Cons.prems(2) e by simp_all
  note IH = Cons.IH [OF rest(2) this(1)]
  show ?case using IH S notin e by auto
qed simp

lemma attach_endpoints_recorded:
  assumes L: "ip_laws K" and "endpoints_named ll" and "attach_endpoints K br lid eps k ll = (None, k', ll')"
    and "recorded_wired ll br ep'"
  shows "recorded_wired ll' br ep'"
  using assms(2-4)
proof (induction eps arbitrary: k ll)
  case (Cons ep eps)
  obtain r k1 ll1 where r: "attach_endpoint K br lid ep k ll = (r, k1, ll1)" by (metis prod_cases3)
  then have rest: "r = None" "attach_endpoints K br lid eps k1 ll1 = (None, k', ll')"
    using Cons.prems(2) by (auto split: option.splits)
  note r = r [unfolded rest(1)]
  have "endpoints_named ll1"
    using attach_endpoint_step [OF L Cons.prems(1) r] Cons.prems(1) by (simp add: same_devices_def)
  then show ?case
    using Cons.IH rest(2) attach_endpoint_other(2) [OF L Cons.prems(1) r Cons.prems(3)] by blast
qed simp

lemma mark_attached_frame [simp]:
  "fl_nodes (mark_attached K l k ll) = fl_nodes ll" "fl_doc (mark_attached K l k ll) = fl_doc ll"
  "fl_taps (mark_attached K l k ll) = fl_taps ll" "fl_faults (mark_attached K l k ll) = fl_faults ll"
  by (simp_all add: mark_attached_def open_link_slow_tee_def open_link_dirstat_def Let_def)

lemma lookup_mark_attached:
  "find_node (mark_attached K l k ll) = find_node ll" "running_nat (mark_attached K l k ll) = running_nat ll"
  "running_tool (mark_attached K l k ll) = running_tool ll"
  by (simp_all add: find_node_def running_nat_def running_tool_def fun_eq_iff)

lemma recorded_mark_attached [simp]: "recorded_wired (mark_attached K l k ll) br ep = recorded_wired ll br ep"
  unfolding recorded_wired_def lookup_mark_attached ..

section \<open>Properties\<close>

text \<open>C36. Wiring a link isolates it: when attachFabricLink succeeds, every member of the link's
  bridge is a device of one of its own endpoints, or one that a bridge of that name held before
  and that the stripping left behind, because its release was refused or the member list could
  not be read (the code ignores both failures and still succeeds); every endpoint not yet
  recorded as wired is a member; and no other device changed bridges.\<close>

theorem attach_isolates_link:
  assumes "ip_laws K" and "endpoints_named ll" and "bridge_name (link_id l) = Inr br"
    and "attach_fabric_link K l k ll = (None, k', ll')"
  shows "(kern_master K d k' = Some br \<longrightarrow>
            d \<in> link_devices ll l \<or> d \<in> left_behind K br (snd (ensure_bridge (kern_run K) br k))) \<and>
         (\<forall>ep \<in> set (endpoints l). must_wire ll br ep \<and> endpoint_dev ll ep = Some d \<longrightarrow> kern_master K d k' = Some br) \<and>
         (d \<notin> link_devices ll l \<and> kern_master K d k \<noteq> Some br \<longrightarrow> kern_master K d k' = kern_master K d k)"
proof -
  obtain k2 k3 ll3 where s: "\<And>d. kern_master K d k \<noteq> Some br \<Longrightarrow> kern_master K d k2 = kern_master K d k"
      "\<And>d. kern_master K d k = Some br \<Longrightarrow> d \<notin> left_behind K br (snd (ensure_bridge (kern_run K) br k)) \<Longrightarrow>
         kern_master K d k2 = None"
    and a: "attach_endpoints K br (link_id l) (endpoints l) k2 ll = (None, k3, ll3)"
    and m: "members_of K k' = members_of K k3"
    by (rule attach_fabric_link_split [OF assms(1,3,4)]) blast
  note A = attach_endpoints_members [OF assms(1,2) a]
  have md: "kern_master K d k' = kern_master K d k3" using fun_cong [OF m] .
  have out: "d \<notin> link_devices ll l \<Longrightarrow> kern_master K d k3 = kern_master K d k2"
    using A by (auto simp: link_devices_def)
  show ?thesis
  proof (intro conjI)
    show "kern_master K d k' = Some br \<longrightarrow>
        d \<in> link_devices ll l \<or> d \<in> left_behind K br (snd (ensure_bridge (kern_run K) br k))"
    proof (intro impI)
      assume br: "kern_master K d k' = Some br"
      show "d \<in> link_devices ll l \<or> d \<in> left_behind K br (snd (ensure_bridge (kern_run K) br k))"
        using out s [of d] md br by (metis option.distinct(1))
    qed
    show "\<forall>ep \<in> set (endpoints l). must_wire ll br ep \<and> endpoint_dev ll ep = Some d \<longrightarrow> kern_master K d k' = Some br"
      using A md by simp
    show "d \<notin> link_devices ll l \<and> kern_master K d k \<noteq> Some br \<longrightarrow> kern_master K d k' = kern_master K d k"
      using out s [of d] md by simp
  qed
qed

definition pc_node :: "int \<Rightarrow> node" where
  "pc_node i = \<lparr> node_id = i, node_kind = KindPC, node_name = ''pc'', node_image = None, node_ram = 0,
     node_ethernet = None, node_serial = None, startup_config = [], node_config = Map.empty \<rparr>"

definition pc_link :: link where
  "pc_link = \<lparr> link_id = 0, link_type = LinkUnset,
     endpoints = [\<lparr> ep_node = 1, ep_interface = ''eth1'' \<rparr>, \<lparr> ep_node = 2, ep_interface = ''eth1'' \<rparr>],
     link_capture = None, link_fault_def = None \<rparr>"

definition pc_runtime :: "string \<Rightarrow> int \<Rightarrow> node_runtime" where
  "pc_runtime br i = \<lparr> nr_extnet = None,
     nr_tool = Some \<lparr> te_node = i, te_bridge = br, te_state = ''running'' \<rparr>, nr_vtap = False, nr_vtap_name = [] \<rparr>"

definition pc_lab :: "string \<Rightarrow> string \<Rightarrow> fabric_lab" where
  "pc_lab b1 b2 = \<lparr> fl_doc = \<lparr> version = 1, lab_id = ''l'', lab_name = ''l'',
       nodes = [pc_node 1, pc_node 2], links = [pc_link] \<rparr>,
     fl_taps = Map.empty, fl_nodes = [1 \<mapsto> pc_runtime b1 1, 2 \<mapsto> pc_runtime b2 2],
     fl_attached = (\<lambda>_. b1 \<noteq> []), fl_faults = Map.empty, fl_dirstats = Map.empty, fl_slowtees = Map.empty \<rparr>"

definition pc_toy :: "(string \<times> string) list \<Rightarrow> toy" where
  "pc_toy es = \<lparr> toy_devs = [''iolbr0'', ''old'', ''vtool1'', ''vtool2''], toy_enslaved = es, toy_qdiscs = [] \<rparr>"

lemma pc_lab_named: "endpoints_named (pc_lab b1 b2)"
  by (simp add: endpoints_named_def pc_lab_def pc_runtime_def running_nat_def running_tool_def)

lemma pc_bridge: "bridge_name (link_id pc_link) = Inr ''iolbr0''"
  by code_simp

lemma attach_isolates_link_witness:
  "case attach_fabric_link toy_kernel pc_link (pc_toy [(''old'', ''iolbr0'')]) (pc_lab [] []) of
     (r, k', ll') \<Rightarrow> r = None \<and> kern_master toy_kernel ''old'' k' \<noteq> Some ''iolbr0''"
proof -
  let ?r = "attach_fabric_link toy_kernel pc_link (pc_toy [(''old'', ''iolbr0'')]) (pc_lab [] [])"
  obtain r k' ll' where e: "?r = (r, k', ll')" by (metis prod_cases3)
  have "fst ?r = None" by code_simp
  then have ok: "?r = (None, k', ll')" using e by simp
  have "endpoint_dev (pc_lab [] []) \<lparr> ep_node = 1, ep_interface = ''eth1'' \<rparr> = Some ''vtool1''"
    "endpoint_dev (pc_lab [] []) \<lparr> ep_node = 2, ep_interface = ''eth1'' \<rparr> = Some ''vtool2''"
    by code_simp+
  then have "''old'' \<notin> link_devices (pc_lab [] []) pc_link"
    by (simp add: link_devices_def pc_link_def)
  then show ?thesis
    using attach_isolates_link [OF toy_ip_laws pc_lab_named pc_bridge ok, of "''old''"] ok toy_left_behind by auto
qed

text \<open>The exception of the theorem above does occur: where the member list of an adopted bridge cannot
  be read, the pass succeeds and the stale member stays on the bridge of the link.\<close>

definition unread_kernel :: "toy kernel" where
  "unread_kernel = toy_kernel \<lparr> kern_members := (\<lambda>b k. None) \<rparr>"

lemma unread_ip_laws: "ip_laws unread_kernel"
  using toy_ip_laws unfolding ip_laws_def unread_kernel_def by simp

lemma left_behind_stays:
  "case attach_fabric_link unread_kernel pc_link (pc_toy [(''old'', ''iolbr0'')]) (pc_lab [] []) of
     (r, k', ll') \<Rightarrow> r = None \<and> kern_master unread_kernel ''old'' k' = Some ''iolbr0''"
  by code_simp

text \<open>Rewiring strips a peer that is wired already: an attach pass detaches every member of an
  existing bridge, and AttachBridge of a nat, tool or PC endpoint then does nothing because the
  endpoint has the bridge recorded.  The pass reports success, the device is left on no bridge,
  and the record that prevents any later pass from repairing it stands.\<close>

theorem rewire_drops_wired_peer:
  assumes "ip_laws K" and "endpoints_named ll" and "bridge_name (link_id l) = Inr br"
    and "attach_fabric_link K l k ll = (None, k', ll')"
    and "kern_master K d k = Some br" and "d \<notin> left_behind K br (snd (ensure_bridge (kern_run K) br k))"
    and "\<And>ep. ep \<in> set (endpoints l) \<Longrightarrow> endpoint_dev ll ep = Some d \<Longrightarrow> recorded_wired ll br ep"
  shows "kern_master K d k' = None \<and>
     (\<forall>ep \<in> set (endpoints l). endpoint_dev ll ep = Some d \<longrightarrow> recorded_wired ll' br ep)"
proof -
  obtain k2 k3 ll3 where s: "\<And>d. kern_master K d k \<noteq> Some br \<Longrightarrow> kern_master K d k2 = kern_master K d k"
      "\<And>d. kern_master K d k = Some br \<Longrightarrow> d \<notin> left_behind K br (snd (ensure_bridge (kern_run K) br k)) \<Longrightarrow>
         kern_master K d k2 = None"
    and a: "attach_endpoints K br (link_id l) (endpoints l) k2 ll = (None, k3, ll3)"
    and m: "members_of K k' = members_of K k3" and ll': "ll' = mark_attached K l k3 ll3"
    by (rule attach_fabric_link_split [OF assms(1,3,4)]) blast
  have "kern_master K d k3 = kern_master K d k2"
    using attach_endpoints_members [OF assms(1,2) a] assms(7) by blast
  then have "kern_master K d k' = None" using fun_cong [OF m, of d] s(2) [OF assms(5,6)] by simp
  moreover have "recorded_wired ll' br ep" if "ep \<in> set (endpoints l)" "endpoint_dev ll ep = Some d" for ep
    using attach_endpoints_recorded [OF assms(1,2) a] assms(7) [OF that] ll' by simp
  ultimately show ?thesis by blast
qed

lemma rewire_drops_wired_peer_witness:
  "case attach_fabric_link toy_kernel pc_link (pc_toy [(''vtool1'', ''iolbr0'')]) (pc_lab ''iolbr0'' []) of
     (r, k', ll') \<Rightarrow> r = None \<and> kern_master toy_kernel ''vtool1'' k' = None"
proof -
  let ?ll = "pc_lab ''iolbr0'' []"
  let ?r = "attach_fabric_link toy_kernel pc_link (pc_toy [(''vtool1'', ''iolbr0'')]) ?ll"
  obtain r k' ll' where e: "?r = (r, k', ll')" by (metis prod_cases3)
  have "fst ?r = None" by code_simp
  then have ok: "?r = (None, k', ll')" using e by simp
  have m: "kern_master toy_kernel ''vtool1'' (pc_toy [(''vtool1'', ''iolbr0'')]) = Some ''iolbr0''"
    by (simp add: toy_kernel_def pc_toy_def)
  have w: "recorded_wired ?ll ''iolbr0'' \<lparr> ep_node = 1, ep_interface = ''eth1'' \<rparr>"
    by (simp add: recorded_wired_def find_node_def pc_lab_def pc_node_def running_tool_def pc_runtime_def)
  have v: "endpoint_dev ?ll \<lparr> ep_node = 2, ep_interface = ''eth1'' \<rparr> \<noteq> Some ''vtool1''"
    by code_simp
  show ?thesis
    using rewire_drops_wired_peer [OF toy_ip_laws pc_lab_named pc_bridge ok m] w v ok
    by (auto simp: pc_link_def toy_left_behind)
qed

text \<open>C37. An impairment reaches exactly its targets: when reconciling an active fault that is not
  admin-down succeeds, and the endpoints of the link have different devices, every endpoint device that exists carries the fault's netem if the fault
  targets its endpoint and none if it does not, and no other device's qdisc changed.\<close>

theorem impairment_hits_targets:
  assumes "tc_laws K qdisc" and "fault_for_link ll (link_id l) = Some (Some f, True)" and "\<not> fault_down f"
    and "distinct (map snd (fabric_link_fault_targets K k ll l))"
    and "reconcile_link_fault K l k ll = (None, k')"
  shows "(\<forall>(i, d) \<in> set (fabric_link_fault_targets K k ll l). qdisc d k' =
           (if fault_targets_endpoint f i then Some (netem_args (kern_number K) (fault_netem f)) else None)) \<and>
         (\<forall>d. d \<notin> snd ` set (fabric_link_fault_targets K k ll l) \<longrightarrow> qdisc d k' = qdisc d k)"
proof -
  have r: "impair_devs K (link_id l) f (fabric_link_fault_targets K k ll l) k = (None, k')"
    using assms(2,3,5) by (simp add: reconcile_link_fault_def)
  show ?thesis by (rule impair_devs_qdisc [OF assms(1) r assms(4)])
qed

lemma toy_tc_laws: "tc_laws toy_kernel (\<lambda>d k. map_of (toy_qdiscs k) d)"
  unfolding tc_laws_def
  by (auto simp: toy_kernel_def toy_run_def AList.update_conv' AList.delete_conv' simp del: is_benign.simps)

definition one_way_loss :: link_fault where
  "one_way_loss = \<lparr> fault_down = False, delay_ms = 0, jitter_ms = 0, loss_pct = 5, rate_kbit = 0,
     duplicate_pct = 0, reorder_pct = 0, target_endpoint = Some 1, fault_initial = False \<rparr>"

definition lossy_lab :: fabric_lab where
  "lossy_lab = (pc_lab ''iolbr0'' ''iolbr0'') \<lparr> fl_faults := [0 \<mapsto> \<lparr> af_fault = Some (0, one_way_loss),
     af_active = True, af_timer = None \<rparr>] \<rparr>"

lemma impairment_hits_targets_witness:
  "case reconcile_link_fault toy_kernel pc_link (pc_toy []) lossy_lab of
     (r, k') \<Rightarrow> r = None \<and> map_of (toy_qdiscs k') ''vtool2'' = Some [''loss'', ''%''] \<and>
       map_of (toy_qdiscs k') ''vtool1'' = None"
proof -
  let ?r = "reconcile_link_fault toy_kernel pc_link (pc_toy []) lossy_lab"
  obtain r k' where e: "?r = (r, k')" by fastforce
  have "fst ?r = None" by code_simp
  then have ok: "?r = (None, k')" using e by simp
  have t: "fabric_link_fault_targets toy_kernel (pc_toy []) lossy_lab pc_link = [(0, ''vtool1''), (1, ''vtool2'')]"
    by code_simp
  have f: "fault_for_link lossy_lab (link_id pc_link) = Some (Some one_way_loss, True)"
    by (simp add: fault_for_link_def lossy_lab_def pc_link_def)
  have a: "netem_args (kern_number toy_kernel) (fault_netem one_way_loss) = [''loss'', ''%'']"
    by (simp add: netem_args_def netem_cmds_def toy_kernel_def fault_netem_def one_way_loss_def)
  have "distinct (map snd (fabric_link_fault_targets toy_kernel (pc_toy []) lossy_lab pc_link))"
    by (simp add: t)
  note I = impairment_hits_targets [OF toy_tc_laws f _ this ok]
  have "map_of (toy_qdiscs k') ''vtool2'' = Some [''loss'', ''%'']" "map_of (toy_qdiscs k') ''vtool1'' = None"
    using I t a by (simp_all add: one_way_loss_def fault_targets_endpoint_def)
  then show ?thesis using ok by simp
qed

text \<open>C38. Admin-down takes the targeted endpoints off the bridge: when the pass succeeds and the
  endpoints of the link have different devices, every targeted device that exists, and whose
  release the kernel does not refuse (detachFabricEndpoint ignores a refusal), is a member of no
  bridge (a nat endpoint that has no bridge recorded aside), and every device that is not one of
  the link's own keeps its bridge.\<close>

theorem admin_down_detaches_targets:
  assumes "ip_laws K" and "endpoints_named ll"
    and "reconcile_fabric_link_down K l f k ll = (None, k', ll')"
    and "distinct (map snd (fabric_link_endpoint_devs ll l))"
  shows "(\<forall>(i, d) \<in> set (fabric_link_fault_targets K k ll l).
            fault_targets_endpoint f i \<and> detachable ll (endpoints l ! i) \<and> freeable K d \<longrightarrow>
              kern_master K d k' = None) \<and>
         (\<forall>d. d \<notin> link_devices ll l \<longrightarrow> kern_master K d k' = kern_master K d k)"
proof -
  obtain br where br: "bridge_name (link_id l) = Inr br"
    using assms(3) by (auto simp: reconcile_fabric_link_down_def split: sum.splits)
  obtain e1 k1 where k1: "ensure_bridge (kern_run K) br k = (e1, k1)" by fastforce
  obtain e2 k2 where k2: "clear_link_netem K l k1 ll = (e2, k2)" by fastforce
  let ?ts = "fabric_link_fault_targets K k2 ll l"
  obtain e3 k3 ll3 where k3: "down_targets K l br f ?ts k2 ll = (e3, k3, ll3)" by (metis prod_cases3)
  have none: "e1 = None" "e2 = None" "e3 = None"
    using assms(3) br k1 k2 k3 by (auto simp: reconcile_fabric_link_down_def split: option.splits)
  obtain r4 k4 where k4: "reconcile_link_fault K l k3 (mark_attached K l k3 ll3) = (r4, k4)" by fastforce
  have fin: "k' = k4"
    using assms(3) br k1 k2 k3 k4 none by (simp add: reconcile_fabric_link_down_def Let_def)
  have m2: "members_of K k2 = members_of K k"
    using ensure_bridge_keep [OF assms(1), of br k] clear_netem_devs_keep [OF assms(1), of "link_id l" "fabric_link_endpoint_devs ll l" k1]
      k1 k2 by (simp add: clear_link_netem_def)
  have m4: "members_of K k' = members_of K k3"
    using reconcile_link_fault_keep [OF assms(1), of l k3 "mark_attached K l k3 ll3"] k4 fin by simp
  have sub: "set ?ts \<subseteq> set (fabric_link_endpoint_devs ll l)" and dist: "distinct (map snd ?ts)"
    using assms(4) by (auto simp: fabric_link_fault_targets_def distinct_map_filter)
  note D = down_targets_members [OF assms(1,2) k3 [unfolded none(3)] sub dist]
  have ex: "kern_exists K d k2" if "kern_exists K d k" for d
  proof -
    have "kern_exists K d k1"
      using run_from_exists [OF assms(1) _ that, of "bridge_create_cmds br" OpCreateBridge 0] k1
      by (simp add: ensure_bridge_def run_idempotent_def bridge_create_cmds_def disable_ipv6_def keeps_membership_def)
    then show ?thesis using clear_netem_devs_exists [OF assms(1)] k2 by (metis clear_link_netem_def snd_conv)
  qed
  have "kern_master K d k' = None"
    if "(i, d) \<in> set (fabric_link_fault_targets K k ll l)" "fault_targets_endpoint f i" "detachable ll (endpoints l ! i)"
      "freeable K d" for i d
    using that D ex fun_cong [OF m4] by (fastforce simp: fabric_link_fault_targets_def)
  moreover have "kern_master K d k' = kern_master K d k" if "d \<notin> link_devices ll l" for d
  proof -
    have "d \<notin> snd ` set ?ts" using that sub link_devices_iff by fastforce
    then show ?thesis using D fun_cong [OF m4, of d] fun_cong [OF m2, of d] by simp
  qed
  ultimately show ?thesis by blast
qed

lemma admin_down_detaches_targets_witness:
  "case reconcile_fabric_link_down toy_kernel pc_link (one_way_loss \<lparr> fault_down := True, target_endpoint := None \<rparr>)
          (pc_toy [(''vtool1'', ''iolbr0''), (''vtool2'', ''iolbr0'')]) (pc_lab ''iolbr0'' ''iolbr0'') of
     (r, k', ll') \<Rightarrow> r = None \<and> kern_master toy_kernel ''vtool1'' k' = None"
proof -
  let ?ll = "pc_lab ''iolbr0'' ''iolbr0''"
  let ?k = "pc_toy [(''vtool1'', ''iolbr0''), (''vtool2'', ''iolbr0'')]"
  let ?f = "one_way_loss \<lparr> fault_down := True, target_endpoint := None \<rparr>"
  obtain r k' ll' where e: "reconcile_fabric_link_down toy_kernel pc_link ?f ?k ?ll = (r, k', ll')"
    by (metis prod_cases3)
  have "fst (reconcile_fabric_link_down toy_kernel pc_link ?f ?k ?ll) = None" by code_simp
  then have ok: "reconcile_fabric_link_down toy_kernel pc_link ?f ?k ?ll = (None, k', ll')" using e by simp
  have t: "fabric_link_endpoint_devs ?ll pc_link = [(0, ''vtool1''), (1, ''vtool2'')]"
    "fabric_link_fault_targets toy_kernel ?k ?ll pc_link = [(0, ''vtool1''), (1, ''vtool2'')]"
    by code_simp+
  have "distinct (map snd (fabric_link_endpoint_devs ?ll pc_link))" by (simp add: t)
  note A = admin_down_detaches_targets [OF toy_ip_laws pc_lab_named ok this]
  have "detachable ?ll (endpoints pc_link ! 0)"
    by (simp add: detachable_def pc_link_def find_node_def pc_lab_def pc_node_def)
  then show ?thesis using A t ok by (simp add: fault_targets_endpoint_def toy_freeable)
qed

end
