(* ===== verification/Fabric_Fault.thy ===== *)
theory Fabric_Fault
  imports Fabric_Runtime
begin

text \<open>
  Link faults: validation, the link.set_fault handler, and the timers that activate and
  expire a fault (server/fabric_fault.go, server/fabric_fault_handlers.go, the fault
  part of server/loaded.go, teardownFabric and the link handlers).

  A float64 is a rational; time.Duration conversions are assumed not to overflow.  A
  time.Timer is an index into the list of all timers ever armed, and goes from armed to
  fired or halted; a fired timer's callback runs later, when it obtains labMu, and Stop
  no longer reaches it.  Handlers and callbacks are whole steps because labMu serialises
  them.  Whether another lab owns a device of the link is an argument of a callback.
\<close>

section \<open>Validation\<close>

definition go_round :: "rat \<Rightarrow> int" where
  "go_round x = (if x < 0 then - \<lfloor>- x + 1 / 2\<rfloor> else \<lfloor>x + 1 / 2\<rfloor>)"

definition has_at_most_two_decimals :: "rat \<Rightarrow> bool" where
  "has_at_most_two_decimals v = (\<bar>v - of_int (go_round (v * 100)) / 100\<bar> < 1 / 10 ^ 9)"

definition fault_has_impairment :: "link_fault \<Rightarrow> bool" where
  "fault_has_impairment f \<longleftrightarrow> delay_ms f > 0 \<or> jitter_ms f > 0 \<or> loss_pct f > 0 \<or>
     rate_kbit f > 0 \<or> duplicate_pct f > 0 \<or> reorder_pct f > 0"

datatype fault_invalid =
    TooFewLinkEndpoints | BadTarget int nat | OutOfBounds string rat rat | BadRate
  | JitterWithoutDelay | ReorderWithoutDelay | DownWithImpairment | EmptyFault

fun first_out_of_bounds :: "(string \<times> rat \<times> rat \<times> rat) list \<Rightarrow> fault_invalid option" where
  "first_out_of_bounds [] = None"
| "first_out_of_bounds ((n, v, lo, hi) # vs) =
     (if v < lo \<or> v > hi \<or> \<not> has_at_most_two_decimals v then Some (OutOfBounds n lo hi)
      else first_out_of_bounds vs)"

definition validate_link_fault :: "link_fault option \<Rightarrow> nat \<Rightarrow> fault_invalid option" where
  "validate_link_fault fo eps =
     (case fo of
        None \<Rightarrow> None
      | Some f \<Rightarrow>
          if eps < 2 then Some TooFewLinkEndpoints
          else if (case target_endpoint f of None \<Rightarrow> False | Some t \<Rightarrow> t < 0 \<or> t \<ge> int eps)
               then Some (BadTarget (the (target_endpoint f)) eps)
          else case first_out_of_bounds
                 [(''delayMs'', delay_ms f, 0, 10000), (''jitterMs'', jitter_ms f, 0, 10000),
                  (''lossPct'', loss_pct f, 0, 100), (''duplicatePct'', duplicate_pct f, 0, 100),
                  (''reorderPct'', reorder_pct f, 0, 100)] of
                 Some e \<Rightarrow> Some e
               | None \<Rightarrow>
                   if rate_kbit f \<noteq> 0 \<and> (rate_kbit f < 1 \<or> rate_kbit f > 10000000) then Some BadRate
                   else if jitter_ms f > 0 \<and> delay_ms f \<le> 0 then Some JitterWithoutDelay
                   else if reorder_pct f > 0 \<and> delay_ms f \<le> 0 then Some ReorderWithoutDelay
                   else if fault_down f \<and> fault_has_impairment f then Some DownWithImpairment
                   else if \<not> fault_down f \<and> \<not> fault_has_impairment f then Some EmptyFault
                   else None)"

section \<open>Runtime state\<close>

datatype timer_call = Activate_Fault int nat rat | Expire_Fault int nat

datatype timer_state = Armed | Fired | Halted | Ran

datatype fault_reason =
    Cleared | Applied_Fault | Scheduled rat | Restored | Restored_Foreign | Skipped_Foreign
  | Fault_Error fabric_failure

record fault_event =
  fe_link :: int
  fe_fault :: "link_fault option"
  fe_active :: bool
  fe_reason :: fault_reason

record 'k fault_world =
  fw_kernel :: 'k
  fw_lab :: fabric_lab
  fw_timers :: "(timer_call \<times> timer_state) list"
  fw_next :: nat
  fw_current :: bool
  fw_events :: "fault_event list"

abbreviation faults_of :: "'k fault_world \<Rightarrow> int \<Rightarrow> active_fault option" where
  "faults_of w \<equiv> fl_faults (fw_lab w)"

definition put_fault :: "int \<Rightarrow> active_fault option \<Rightarrow> 'k fault_world \<Rightarrow> 'k fault_world" where
  "put_fault i f w = w \<lparr> fw_lab := (fw_lab w) \<lparr> fl_faults := (faults_of w)(i := f) \<rparr> \<rparr>"

definition stop_timer :: "nat \<Rightarrow> 'k fault_world \<Rightarrow> 'k fault_world" where
  "stop_timer t w =
     (case fw_timers w ! t of
        (c, Armed) \<Rightarrow> w \<lparr> fw_timers := (fw_timers w)[t := (c, Halted)] \<rparr>
      | _ \<Rightarrow> w)"

definition cancel_fault_timer :: "int \<Rightarrow> 'k fault_world \<Rightarrow> 'k fault_world" where
  "cancel_fault_timer i w =
     (case faults_of w i of
        None \<Rightarrow> w
      | Some f \<Rightarrow> (case af_timer f of
                   None \<Rightarrow> w
                 | Some t \<Rightarrow> put_fault i (Some (f \<lparr> af_timer := None \<rparr>)) (stop_timer t w)))"

definition cancel_fault_timers_for_node :: "int \<Rightarrow> 'k fault_world \<Rightarrow> 'k fault_world" where
  "cancel_fault_timers_for_node nid w =
     fold cancel_fault_timer
       (map link_id (filter (\<lambda>l. list_ex (\<lambda>ep. ep_node ep = nid) (endpoints l)) (links (fl_doc (fw_lab w))))) w"

definition emit_link_fault :: "int \<Rightarrow> fault_reason \<Rightarrow> 'k fault_world \<Rightarrow> 'k fault_world" where
  "emit_link_fault i reason w =
     (case fault_for_link (fw_lab w) i of
        None \<Rightarrow> w
      | Some (f, active) \<Rightarrow> w \<lparr> fw_events := fw_events w @
          [\<lparr> fe_link = i, fe_fault = f, fe_active = active, fe_reason = reason \<rparr>] \<rparr>)"

fun initial_faults :: "link list \<Rightarrow> (int \<rightharpoonup> active_fault) \<Rightarrow> nat \<Rightarrow> (int \<rightharpoonup> active_fault) \<times> nat" where
  "initial_faults [] m p = (m, p)"
| "initial_faults (l # ls) m p =
     (case link_fault_def l of
        None \<Rightarrow> initial_faults ls m p
      | Some f \<Rightarrow> initial_faults ls
          (m(link_id l \<mapsto> \<lparr> af_fault = Some (p, f), af_active = False, af_timer = None \<rparr>)) (p + 1))"

text \<open>newLoadedLab: the runtime fault of every link of the document, all inactive.\<close>

definition load_faults :: "'k \<Rightarrow> fabric_lab \<Rightarrow> 'k fault_world" where
  "load_faults k ll =
     (case initial_faults (links (fl_doc ll)) Map.empty 0 of
        (m, p) \<Rightarrow> \<lparr> fw_kernel = k, fw_lab = ll \<lparr> fl_faults := m \<rparr>, fw_timers = [], fw_next = p,
                    fw_current = True, fw_events = [] \<rparr>)"

definition activate_initial_faults :: "'k fault_world \<Rightarrow> 'k fault_world" where
  "activate_initial_faults w =
     (let activate = (\<lambda>f. case af_fault f of
            None \<Rightarrow> f
          | Some (p, v) \<Rightarrow> if \<not> fault_initial v \<or> af_active f then f else f \<lparr> af_active := True \<rparr>)
      in w \<lparr> fw_lab := (fw_lab w) \<lparr> fl_faults := (\<lambda>i. map_option activate (faults_of w i)) \<rparr> \<rparr>)"

text \<open>The fault loop of teardownFabric, over the link ids in the order the range visits them.\<close>

definition teardown_fault :: "int \<Rightarrow> 'k fault_world \<Rightarrow> 'k fault_world" where
  "teardown_fault i w =
     (case faults_of w i of
        None \<Rightarrow> w
      | Some f \<Rightarrow>
          put_fault i (Some (f \<lparr> af_active := False, af_timer := None \<rparr>))
            (case af_timer f of None \<Rightarrow> w | Some t \<Rightarrow> stop_timer t w))"

fun set_doc_fault :: "int \<Rightarrow> link_fault option \<Rightarrow> link list \<Rightarrow> link list" where
  "set_doc_fault i f [] = []"
| "set_doc_fault i f (l # ls) =
     (if link_id l = i then l \<lparr> link_fault_def := f \<rparr> # ls else l # set_doc_fault i f ls)"

definition set_link_fault :: "int \<Rightarrow> link_fault option \<Rightarrow> 'k fault_world \<Rightarrow> 'k fault_world" where
  "set_link_fault i f w =
     w \<lparr> fw_lab := (fw_lab w) \<lparr> fl_doc := (fl_doc (fw_lab w)) \<lparr> links := set_doc_fault i f (links (fl_doc (fw_lab w))) \<rparr> \<rparr> \<rparr>"

definition link_fault_supported :: "string \<Rightarrow> int \<Rightarrow> fabric_lab \<Rightarrow> link \<Rightarrow> bool" where
  "link_fault_supported tmp uid ll l =
     (if \<not> is_fabric_link l (fabric_nodes (fl_doc ll)) then False
      else let taps = (if dom (fl_taps ll) = {} then compute_static_taps tmp (fl_doc ll) uid else fl_taps ll)
           in list_all (\<lambda>ep. case find_node ll (ep_node ep) of
                None \<Rightarrow> False
              | Some n \<Rightarrow> node_kind n \<noteq> KindIOL \<or> tap_for_endpoint taps ep \<noteq> None) (endpoints l))"

text \<open>Running one of the fabric functions on the kernel and the lab.\<close>

definition on_fabric ::
  "('k \<Rightarrow> fabric_lab \<Rightarrow> fabric_failure option \<times> 'k \<times> fabric_lab) \<Rightarrow> 'k fault_world
     \<Rightarrow> fabric_failure option \<times> 'k fault_world" where
  "on_fabric g w = (case g (fw_kernel w) (fw_lab w) of
     (r, k, ll) \<Rightarrow> (r, w \<lparr> fw_kernel := k, fw_lab := ll \<rparr>))"

section \<open>Timers\<close>

definition duration :: "rat \<Rightarrow> int" where
  "duration secs = (if secs < 0 then - \<lfloor>- secs * 10 ^ 9\<rfloor> else \<lfloor>secs * 10 ^ 9\<rfloor>)"

definition holds_fault :: "nat \<Rightarrow> active_fault option \<Rightarrow> bool" where
  "holds_fault p f = (map_option (\<lambda>f. map_option fst (af_fault f)) f = Some (Some p))"

text \<open>The end of both scheduling functions: remember the timer if the fault is still the one.\<close>

definition arm_timer :: "timer_call \<Rightarrow> int \<Rightarrow> nat \<Rightarrow> 'k fault_world \<Rightarrow> 'k fault_world" where
  "arm_timer call i p w =
     (let t = length (fw_timers w);
          w1 = w \<lparr> fw_timers := fw_timers w @ [(call, Armed)] \<rparr>
      in if holds_fault p (faults_of w1 i)
         then put_fault i (map_option (\<lambda>f. f \<lparr> af_timer := Some t \<rparr>) (faults_of w1 i)) w1
         else stop_timer t w1)"

definition schedule_fault_expiry :: "int \<Rightarrow> nat \<Rightarrow> int \<Rightarrow> 'k fault_world \<Rightarrow> 'k fault_world" where
  "schedule_fault_expiry i p after w =
     (if after \<le> 0 then w else arm_timer (Expire_Fault i p) i p w)"

definition schedule_fault_activation :: "int \<Rightarrow> nat \<Rightarrow> rat \<Rightarrow> 'k fault_world \<Rightarrow> 'k fault_world" where
  "schedule_fault_activation i p for_sec w = arm_timer (Activate_Fault i p for_sec) i p w"

definition expire_callback :: "'k kernel \<Rightarrow> bool \<Rightarrow> int \<Rightarrow> nat \<Rightarrow> 'k fault_world \<Rightarrow> 'k fault_world" where
  "expire_callback K foreign i p w =
     (if \<not> fw_current w \<or> \<not> holds_fault p (faults_of w i) then w
      else let w1 = put_fault i (map_option (\<lambda>f. f \<lparr> af_timer := None, af_active := False \<rparr>) (faults_of w i)) w
           in case find_link (fw_lab w1) i of
                None \<Rightarrow> w1
              | Some l \<Rightarrow>
                  if foreign then emit_link_fault i Restored_Foreign w1
                  else (case on_fabric (clear_fault_effect K l) w1 of
                          (Some e, w2) \<Rightarrow> emit_link_fault i (Fault_Error e) w2
                        | (None, w2) \<Rightarrow> emit_link_fault i Restored w2))"

text \<open>Taking a failed or skipped activation back, if the fault is still the one.\<close>

definition deactivate_if :: "int \<Rightarrow> nat \<Rightarrow> 'k fault_world \<Rightarrow> 'k fault_world" where
  "deactivate_if i p w =
     (if holds_fault p (faults_of w i)
      then put_fault i (map_option (\<lambda>f. f \<lparr> af_active := False \<rparr>) (faults_of w i)) w else w)"

definition activate_callback :: "'k kernel \<Rightarrow> bool \<Rightarrow> int \<Rightarrow> nat \<Rightarrow> rat \<Rightarrow> 'k fault_world \<Rightarrow> 'k fault_world" where
  "activate_callback K foreign i p for_sec w =
     (if \<not> fw_current w \<or> \<not> holds_fault p (faults_of w i) then w
      else let w1 = put_fault i (map_option (\<lambda>f. f \<lparr> af_active := True, af_timer := None \<rparr>) (faults_of w i)) w
           in case find_link (fw_lab w1) i of
                None \<Rightarrow> w1
              | Some l \<Rightarrow>
                  if foreign then emit_link_fault i Skipped_Foreign (deactivate_if i p w1)
                  else (case on_fabric (apply_active_fault K l) w1 of
                          (Some e, w2) \<Rightarrow> emit_link_fault i (Fault_Error e) (deactivate_if i p w2)
                        | (None, w2) \<Rightarrow>
                            let w3 = emit_link_fault i Applied_Fault w2
                            in if for_sec > 0 then schedule_fault_expiry i p (duration for_sec) w3 else w3))"

definition fire_timer :: "nat \<Rightarrow> 'k fault_world \<Rightarrow> 'k fault_world" where
  "fire_timer t w =
     (if t < length (fw_timers w)
      then (case fw_timers w ! t of
              (c, Armed) \<Rightarrow> w \<lparr> fw_timers := (fw_timers w)[t := (c, Fired)] \<rparr>
            | _ \<Rightarrow> w)
      else w)"

definition run_callback :: "'k kernel \<Rightarrow> bool \<Rightarrow> timer_call \<Rightarrow> 'k fault_world \<Rightarrow> 'k fault_world" where
  "run_callback K foreign c w =
     (case c of
        Activate_Fault i p for_sec \<Rightarrow> activate_callback K foreign i p for_sec w
      | Expire_Fault i p \<Rightarrow> expire_callback K foreign i p w)"

definition run_timer :: "'k kernel \<Rightarrow> bool \<Rightarrow> nat \<Rightarrow> 'k fault_world \<Rightarrow> 'k fault_world" where
  "run_timer K foreign t w =
     (if t < length (fw_timers w)
      then (case fw_timers w ! t of
              (c, Fired) \<Rightarrow> run_callback K foreign c (w \<lparr> fw_timers := (fw_timers w)[t := (c, Ran)] \<rparr>)
            | _ \<Rightarrow> w)
      else w)"

section \<open>link.set_fault\<close>

record fault_args =
  fa_link :: int
  fa_fault :: "link_fault option"
  fa_after :: rat
  fa_for :: rat

datatype set_fault_error =
    Unknown_Link int | Fault_Unsupported | Negative_Delay | For_Without_Fault
  | Invalid_Fault fault_invalid | Fabric_Error fabric_failure

definition was_active :: "active_fault option \<Rightarrow> bool" where
  "was_active old = (case old of None \<Rightarrow> False | Some f \<Rightarrow> af_active f)"

text \<open>The copy faultForLink returns: a fresh pointer and no timer.\<close>

definition clone_fault :: "nat \<Rightarrow> active_fault option \<Rightarrow> active_fault option" where
  "clone_fault p fo = map_option (\<lambda>f. f \<lparr> af_fault := map_option (\<lambda>(_, v). (p, v)) (af_fault f), af_timer := None \<rparr>) fo"

text \<open>Installing the new definition, and taking it back when the fabric refuses it.\<close>

definition install_fault ::
  "'k kernel \<Rightarrow> fault_args \<Rightarrow> link \<Rightarrow> active_fault option \<Rightarrow> nat \<Rightarrow> link_fault \<Rightarrow> 'k fault_world
     \<Rightarrow> (set_fault_error, fault_event) result \<times> 'k fault_world" where
  "install_fault K args l old p f w4 =
     (let i = link_id l;
          active = (fa_after args \<le> 0);
          w5 = put_fault i (Some \<lparr> af_fault = Some (p, f), af_active = active, af_timer = None \<rparr>) w4;
          (r6, w6) = (if active then on_fabric (apply_active_fault K l) w5
                      else (None, schedule_fault_activation i p (fa_for args) w5))
      in case r6 of
           Some e \<Rightarrow>
             let w7 = put_fault i old (set_link_fault i (link_fault_def l) w6);
                 w8 = (if was_active old then snd (on_fabric (apply_active_fault K l) w7) else w7)
             in (Inl (Fabric_Error e), w8)
         | None \<Rightarrow>
             let w7 = (if fa_for args > 0 \<and> active
                       then schedule_fault_expiry i p (duration (fa_for args)) w6 else w6);
                 out = \<lparr> fe_link = i, fe_fault = Some f, fe_active = active,
                         fe_reason = (if active then Applied_Fault else Scheduled (fa_after args)) \<rparr>
             in (Inr out, w7 \<lparr> fw_events := fw_events w7 @ [out] \<rparr>))"

text \<open>What follows the checks: the old timer is cancelled, the old effect cleared, the document set.\<close>

definition replace_fault ::
  "'k kernel \<Rightarrow> fault_args \<Rightarrow> link \<Rightarrow> 'k fault_world \<Rightarrow> (set_fault_error, fault_event) result \<times> 'k fault_world" where
  "replace_fault K args l w =
     (let i = link_id l;
          old = clone_fault (fw_next w) (faults_of w i);
          w1 = cancel_fault_timer i (w \<lparr> fw_next := fw_next w + 1 \<rparr>);
          p = fw_next w1;
          w2 = w1 \<lparr> fw_next := p + 1 \<rparr>;
          (r3, w3) = (if was_active old then on_fabric (clear_fault_effect K l) w2 else (None, w2))
      in case r3 of
           Some e \<Rightarrow> (Inl (Fabric_Error e), w3)
         | None \<Rightarrow>
             let w4 = set_link_fault i (fa_fault args) w3
             in case fa_fault args of
                  None \<Rightarrow>
                    let w5 = put_fault i None w4;
                        out = \<lparr> fe_link = i, fe_fault = None, fe_active = False, fe_reason = Cleared \<rparr>
                    in (Inr out, w5 \<lparr> fw_events := fw_events w5 @ [out] \<rparr>)
                | Some f \<Rightarrow> install_fault K args l old p f w4)"

definition handle_link_set_fault ::
  "'k kernel \<Rightarrow> string \<Rightarrow> int \<Rightarrow> fault_args \<Rightarrow> 'k fault_world
     \<Rightarrow> (set_fault_error, fault_event) result \<times> 'k fault_world" where
  "handle_link_set_fault K tmp uid args w =
     (case find_link (fw_lab w) (fa_link args) of
        None \<Rightarrow> (Inl (Unknown_Link (fa_link args)), w)
      | Some l \<Rightarrow>
          if \<not> link_fault_supported tmp uid (fw_lab w) l then (Inl Fault_Unsupported, w)
          else if fa_after args < 0 \<or> fa_for args < 0 then (Inl Negative_Delay, w)
          else if fa_fault args = None \<and> fa_for args > 0 then (Inl For_Without_Fault, w)
          else case validate_link_fault (fa_fault args) (length (endpoints l)) of
                 Some e \<Rightarrow> (Inl (Invalid_Fault e), w)
               | None \<Rightarrow> replace_fault K args l w)"

text \<open>The document part of link.add, an upsert that leaves linkFaults alone.\<close>

fun upsert_link :: "link \<Rightarrow> link list \<Rightarrow> link list" where
  "upsert_link l [] = [l]"
| "upsert_link l (m # ms) = (if link_id m = link_id l then l # ms else m # upsert_link l ms)"

definition link_add_doc :: "link \<Rightarrow> 'k fault_world \<Rightarrow> 'k fault_world" where
  "link_add_doc l w =
     w \<lparr> fw_lab := (fw_lab w) \<lparr> fl_doc := (fl_doc (fw_lab w)) \<lparr> links := upsert_link l (links (fl_doc (fw_lab w))) \<rparr> \<rparr> \<rparr>"

text \<open>link.remove: the link is detached (its timer cancelled first), then its fault and its entry
  in the document go.  This is the part on the fabric and the faults; Server_Lab has the whole
  handler, which also stops a capture that runs on the link's bridge.\<close>

definition forget_link :: "link \<Rightarrow> 'k fault_world \<Rightarrow> 'k fault_world" where
  "forget_link l w =
     (let w2 = put_fault (link_id l) None w
      in w2 \<lparr> fw_lab := (fw_lab w2) \<lparr> fl_doc := (fl_doc (fw_lab w2))
           \<lparr> links := filter (\<lambda>m. link_id m \<noteq> link_id l) (links (fl_doc (fw_lab w2))) \<rparr> \<rparr> \<rparr>)"

definition link_remove ::
  "'k kernel \<Rightarrow> link \<Rightarrow> 'k fault_world \<Rightarrow> 'k fault_world" where
  "link_remove K l w =
     forget_link l
       (if is_fabric_link l (fabric_nodes (fl_doc (fw_lab w)))
        then snd (on_fabric (\<lambda>k ll. (None, detach_fabric_link K l k ll)) (cancel_fault_timer (link_id l) w))
        else w)"

section \<open>The fabric leaves faults and the document alone\<close>

lemma attach_endpoint_doc:
  "attach_endpoint K br lid ep k ll = (r, k', ll') \<Longrightarrow> fl_faults ll' = fl_faults ll \<and> fl_doc ll' = fl_doc ll"
  by (auto simp: attach_endpoint_def Let_def split: option.splits prod.splits kind.splits if_splits)

lemma attach_endpoints_doc:
  "attach_endpoints K br lid eps k ll = (r, k', ll') \<Longrightarrow> fl_faults ll' = fl_faults ll \<and> fl_doc ll' = fl_doc ll"
proof (induction eps arbitrary: k ll)
  case (Cons ep eps)
  obtain q k1 ll1 where q: "attach_endpoint K br lid ep k ll = (q, k1, ll1)" by (metis prod_cases3)
  show ?case using Cons q attach_endpoint_doc [OF q] by (auto split: option.splits)
qed simp

lemma attach_fabric_link_doc:
  assumes "attach_fabric_link K l k ll = (r, k', ll')"
  shows "fl_faults ll' = fl_faults ll \<and> fl_doc ll' = fl_doc ll"
  using assms attach_endpoints_doc
  by (fastforce simp: attach_fabric_link_def Let_def split: sum.splits option.splits prod.splits)

lemma detach_endpoint_doc:
  "detach_endpoint K ep k ll = (k', ll') \<Longrightarrow> fl_faults ll' = fl_faults ll \<and> fl_doc ll' = fl_doc ll"
  by (auto simp: detach_endpoint_def Let_def split: option.splits prod.splits kind.splits if_splits)

lemma down_targets_doc:
  "down_targets K l br f ds k ll = (r, k', ll') \<Longrightarrow> fl_faults ll' = fl_faults ll \<and> fl_doc ll' = fl_doc ll"
proof (induction ds arbitrary: k ll)
  case (Cons e ds)
  obtain i d where e: "e = (i, d)" by (cases e)
  obtain k1 ll1 where d: "detach_fabric_endpoint K l i k ll = (k1, ll1)" by fastforce
  obtain q k2 ll2 where a: "attach_fabric_endpoint K l i br k ll = (q, k2, ll2)" by (metis prod_cases3)
  have "fl_faults ll1 = fl_faults ll \<and> fl_doc ll1 = fl_doc ll"
    using d by (auto simp: detach_fabric_endpoint_def dest: detach_endpoint_doc split: if_splits)
  moreover have "fl_faults ll2 = fl_faults ll \<and> fl_doc ll2 = fl_doc ll"
    using a by (auto simp: attach_fabric_endpoint_def dest: attach_endpoint_doc split: if_splits)
  ultimately show ?case
    using Cons e d a by (auto split: if_splits option.splits)
qed simp

lemma reconcile_down_doc:
  assumes "reconcile_fabric_link_down K l f k ll = (r, k', ll')"
  shows "fl_faults ll' = fl_faults ll \<and> fl_doc ll' = fl_doc ll"
  using assms down_targets_doc
  by (fastforce simp: reconcile_fabric_link_down_def Let_def split: sum.splits option.splits prod.splits)

lemma detach_endpoints_doc:
  "detach_endpoints K eps k ll = (k', ll') \<Longrightarrow> fl_faults ll' = fl_faults ll \<and> fl_doc ll' = fl_doc ll"
proof (induction eps arbitrary: k ll)
  case (Cons ep eps)
  obtain k1 ll1 where d: "detach_endpoint K ep k ll = (k1, ll1)" by fastforce
  show ?case using Cons d detach_endpoint_doc [OF d] by simp
qed simp

lemma detach_fabric_link_doc:
  assumes "detach_fabric_link K l k ll = (k', ll')"
  shows "fl_faults ll' = fl_faults ll \<and> fl_doc ll' = fl_doc ll"
  using assms detach_endpoints_doc
  by (fastforce simp: detach_fabric_link_def unwire_link_def Let_def split: prod.splits)

lemma realise_link_doc:
  assumes "realise_link K l k ll = (r, k', ll')"
  shows "fl_faults ll' = fl_faults ll \<and> fl_doc ll' = fl_doc ll"
  using assms
  by (auto simp: realise_link_def dest: attach_fabric_link_doc reconcile_down_doc split: option.splits prod.splits bool.splits if_splits)

lemma start_links_doc:
  "start_links K ids ok ls k ll = (r, k', ll') \<Longrightarrow> fl_faults ll' = fl_faults ll \<and> fl_doc ll' = fl_doc ll"
proof (induction ls arbitrary: k ll)
  case (Cons l ls)
  obtain q k1 ll1 where q: "realise_link K l k ll = (q, k1, ll1)" by (metis prod_cases3)
  show ?case using Cons q realise_link_doc [OF q] by (auto split: if_splits option.splits)
qed simp

lemma attach_node_links_doc:
  "attach_node_links K nid ok ls k ll = (r, k', ll') \<Longrightarrow> fl_faults ll' = fl_faults ll \<and> fl_doc ll' = fl_doc ll"
proof (induction ls arbitrary: k ll)
  case (Cons l ls)
  obtain q k1 ll1 where q: "realise_link K l k ll = (q, k1, ll1)" by (metis prod_cases3)
  show ?case using Cons q realise_link_doc [OF q] by (auto split: if_splits option.splits)
qed simp

lemma apply_active_fault_doc:
  assumes "apply_active_fault K l k ll = (r, k', ll')"
  shows "fl_faults ll' = fl_faults ll \<and> fl_doc ll' = fl_doc ll"
  using assms
  by (auto simp: apply_active_fault_def dest: reconcile_down_doc split: option.splits prod.splits bool.splits if_splits)

lemma clear_fault_effect_doc:
  assumes "clear_fault_effect K l k ll = (r, k', ll')"
  shows "fl_faults ll' = fl_faults ll \<and> fl_doc ll' = fl_doc ll"
  using assms
  by (auto simp: clear_fault_effect_def dest: attach_fabric_link_doc split: option.splits prod.splits bool.splits if_splits)

text \<open>A world after a fabric call differs only in the kernel and in what the fabric records.\<close>

definition same_faults :: "'k fault_world \<Rightarrow> 'k fault_world \<Rightarrow> bool" where
  "same_faults w w' \<longleftrightarrow> faults_of w' = faults_of w \<and> fl_doc (fw_lab w') = fl_doc (fw_lab w) \<and>
     fw_timers w' = fw_timers w \<and> fw_next w' = fw_next w \<and> fw_current w' = fw_current w \<and> fw_events w' = fw_events w"

lemma on_fabric_same:
  assumes "on_fabric g w = (r, w')"
    and "\<And>k ll r k' ll'. g k ll = (r, k', ll') \<Longrightarrow> fl_faults ll' = fl_faults ll \<and> fl_doc ll' = fl_doc ll"
  shows "same_faults w w'"
  using assms by (auto simp: on_fabric_def same_faults_def split: prod.splits)

lemmas on_fabric_apply = on_fabric_same [OF _ apply_active_fault_doc]
lemmas on_fabric_clear = on_fabric_same [OF _ clear_fault_effect_doc]

section \<open>The invariant of faults, document and timers\<close>

fun call_link :: "timer_call \<Rightarrow> int" where
  "call_link (Activate_Fault i p s) = i"
| "call_link (Expire_Fault i p) = i"

fun call_ptr :: "timer_call \<Rightarrow> nat" where
  "call_ptr (Activate_Fault i p s) = p"
| "call_ptr (Expire_Fault i p) = p"

definition pending :: "(timer_call \<times> timer_state) list \<Rightarrow> nat \<Rightarrow> nat \<Rightarrow> bool" where
  "pending ts p t \<longleftrightarrow> t < length ts \<and> call_ptr (fst (ts ! t)) = p \<and> snd (ts ! t) \<in> {Armed, Fired}"

type_synonym fault_map = "int \<rightharpoonup> active_fault"

text \<open>Definitions have distinct pointers that were handed out; a recorded timer is about its link
  and its pointer; per pointer at most one timer is pending; and an armed timer whose pointer is
  current is the recorded one.\<close>

definition timers_ok :: "fault_map \<Rightarrow> (timer_call \<times> timer_state) list \<Rightarrow> nat \<Rightarrow> bool" where
  "timers_ok m ts n \<longleftrightarrow>
     (\<forall>i f. m i = Some f \<longrightarrow> (\<exists>p v. af_fault f = Some (p, v) \<and> p < n)) \<and>
     (\<forall>i j p. holds_fault p (m i) \<and> holds_fault p (m j) \<longrightarrow> i = j) \<and>
     (\<forall>t < length ts. call_ptr (fst (ts ! t)) < n) \<and>
     (\<forall>i f t. m i = Some f \<and> af_timer f = Some t \<longrightarrow>
        t < length ts \<and> call_link (fst (ts ! t)) = i \<and> holds_fault (call_ptr (fst (ts ! t))) (m i)) \<and>
     (\<forall>p t t'. pending ts p t \<and> pending ts p t' \<longrightarrow> t = t') \<and>
     (\<forall>t i f. t < length ts \<and> snd (ts ! t) = Armed \<and> holds_fault (call_ptr (fst (ts ! t))) (m i) \<and> m i = Some f \<longrightarrow>
        af_timer f = Some t)"

definition doc_ok :: "fault_map \<Rightarrow> link list \<Rightarrow> bool" where
  "doc_ok m ls \<longleftrightarrow> distinct (map link_id ls) \<and>
     (\<forall>l \<in> set ls. link_fault_def l = Option.bind (m (link_id l)) (\<lambda>f. map_option snd (af_fault f))) \<and>
     (\<forall>i. m i \<noteq> None \<longrightarrow> i \<in> link_id ` set ls)"

definition fault_inv :: "'k fault_world \<Rightarrow> bool" where
  "fault_inv w \<longleftrightarrow> timers_ok (faults_of w) (fw_timers w) (fw_next w) \<and>
     doc_ok (faults_of w) (links (fl_doc (fw_lab w)))"

lemma holds_fault_Some: "holds_fault p (Some f) \<longleftrightarrow> (\<exists>v. af_fault f = Some (p, v))"
  by (auto simp: holds_fault_def)

lemma holds_fault_None [simp]: "\<not> holds_fault p None"
  by (simp add: holds_fault_def)

lemma timers_okD:
  assumes "timers_ok m ts n"
  shows "m i = Some f \<Longrightarrow> \<exists>p v. af_fault f = Some (p, v) \<and> p < n"
    and "holds_fault p (m i) \<Longrightarrow> holds_fault p (m j) \<Longrightarrow> i = j"
    and "t < length ts \<Longrightarrow> call_ptr (fst (ts ! t)) < n"
    and "m i = Some f \<Longrightarrow> af_timer f = Some t \<Longrightarrow>
        t < length ts \<and> call_link (fst (ts ! t)) = i \<and> holds_fault (call_ptr (fst (ts ! t))) (m i)"
    and "pending ts p t \<Longrightarrow> pending ts p t' \<Longrightarrow> t = t'"
    and "t < length ts \<Longrightarrow> snd (ts ! t) = Armed \<Longrightarrow> holds_fault (call_ptr (fst (ts ! t))) (m i) \<Longrightarrow> m i = Some f \<Longrightarrow>
        af_timer f = Some t"
  using assms unfolding timers_ok_def by blast+

text \<open>Updates that keep the pointers: an entry may lose its timer when no timer of its pointer is
  armed, and keeps it otherwise.\<close>

lemma holds_fault_upd:
  assumes "m i = Some f" and "af_fault g = af_fault f"
  shows "holds_fault p ((m(i \<mapsto> g)) j) = holds_fault p (m j)"
  using assms by (auto simp: holds_fault_Some)

lemma timers_ok_keep:
  assumes ok: "timers_ok m ts n" and f: "m i = Some f" and g: "af_fault g = af_fault f"
    and t: "af_timer g = af_timer f \<or>
      (af_timer g = None \<and> (\<forall>t < length ts. holds_fault (call_ptr (fst (ts ! t))) (m i) \<longrightarrow> snd (ts ! t) \<noteq> Armed))"
  shows "timers_ok (m(i \<mapsto> g)) ts n"
proof -
  note D = timers_okD [OF ok]
  note H = holds_fault_upd [of m i f g, OF f g]
  show ?thesis
    unfolding timers_ok_def
  proof (intro conjI allI impI)
    fix j h assume "(m(i \<mapsto> g)) j = Some h"
    then show "\<exists>p v. af_fault h = Some (p, v) \<and> p < n" using D(1) f g by (cases "j = i") auto
  next
    fix a b p assume "holds_fault p ((m(i \<mapsto> g)) a) \<and> holds_fault p ((m(i \<mapsto> g)) b)"
    then show "a = b" using D(2) unfolding H by blast
  next
    fix t assume "t < length ts" then show "call_ptr (fst (ts ! t)) < n" by (rule D(3))
  next
    fix j h u assume a: "(m(i \<mapsto> g)) j = Some h \<and> af_timer h = Some u"
    obtain h' where "m j = Some h'" "af_timer h' = Some u"
      using a t f by (cases "j = i") auto
    from D(4) [OF this] show "u < length ts" "call_link (fst (ts ! u)) = j"
      "holds_fault (call_ptr (fst (ts ! u))) ((m(i \<mapsto> g)) j)" unfolding H by simp_all
  next
    fix p u u' assume "pending ts p u \<and> pending ts p u'" then show "u = u'" using D(5) by blast
  next
    fix u j h assume a: "u < length ts \<and> snd (ts ! u) = Armed \<and>
      holds_fault (call_ptr (fst (ts ! u))) ((m(i \<mapsto> g)) j) \<and> (m(i \<mapsto> g)) j = Some h"
    then have "holds_fault (call_ptr (fst (ts ! u))) (m j)" unfolding H by simp
    then show "af_timer h = Some u"
      using a t f D(6) [of u j] by (cases "j = i") auto
  qed
qed

lemma timers_ok_mono: "timers_ok m ts n \<Longrightarrow> n \<le> n' \<Longrightarrow> timers_ok m ts n'"
  unfolding timers_ok_def by (meson order_less_le_trans)

text \<open>A timer that advances stays about the same fault; none becomes armed again.\<close>

lemma timers_ok_advance:
  assumes ok: "timers_ok m ts n" and t: "t < length ts" and s: "s \<noteq> Armed"
    and p: "s = Fired \<Longrightarrow> snd (ts ! t) = Armed"
  shows "timers_ok m (ts[t := (fst (ts ! t), s)]) n"
proof -
  note D = timers_okD [OF ok]
  let ?ts = "ts[t := (fst (ts ! t), s)]"
  have fst: "fst (?ts ! u) = fst (ts ! u)" for u
    using t by (cases "u = t"; cases "u < length ts") auto
  have arm: "snd (?ts ! u) = Armed \<Longrightarrow> snd (ts ! u) = Armed" if "u < length ts" for u
    using s that by (cases "u = t") auto
  have pend: "pending ?ts q u \<Longrightarrow> pending ts q u" for q u
    using p s fst by (cases "u = t") (auto simp: pending_def)
  show ?thesis
    unfolding timers_ok_def fst length_list_update
  proof (intro conjI allI impI)
    fix i f assume "m i = Some f" then show "\<exists>p v. af_fault f = Some (p, v) \<and> p < n" by (rule D(1))
  next
    fix i j p assume "holds_fault p (m i) \<and> holds_fault p (m j)" then show "i = j" using D(2) by blast
  next
    fix u assume "u < length ts" then show "call_ptr (fst (ts ! u)) < n" by (rule D(3))
  next
    fix i f u assume "m i = Some f \<and> af_timer f = Some u"
    then show "u < length ts" "call_link (fst (ts ! u)) = i" "holds_fault (call_ptr (fst (ts ! u))) (m i)"
      using D(4) [of i f u] by simp_all
  next
    fix q u u' assume "pending ?ts q u \<and> pending ?ts q u'" then show "u = u'" using pend D(5) by blast
  next
    fix u i f assume "u < length ts \<and> snd (?ts ! u) = Armed \<and> holds_fault (call_ptr (fst (ts ! u))) (m i) \<and> m i = Some f"
    then show "af_timer f = Some u" using arm [of u] by (intro D(6) [of u i f]) blast+
  qed
qed

text \<open>A new definition: a pointer no fault and no timer has, and no recorded timer.\<close>

lemma timers_ok_new:
  assumes ok: "timers_ok m ts n" and g: "af_fault g = Some (q, v)" "af_timer g = None"
    and n: "n \<le> n'" "q < n'" and fresh: "\<And>j. j \<noteq> i \<Longrightarrow> \<not> holds_fault q (m j)"
    and unused: "\<And>t. t < length ts \<Longrightarrow> call_ptr (fst (ts ! t)) \<noteq> q"
  shows "timers_ok (m(i \<mapsto> g)) ts n'"
proof -
  note D = timers_okD [OF timers_ok_mono [OF ok n(1)]]
  have other: "holds_fault p ((m(i \<mapsto> g)) j) \<longleftrightarrow> (if j = i then p = q else holds_fault p (m j))" for p j
    using g by (auto simp: holds_fault_Some)
  show ?thesis
    unfolding timers_ok_def
  proof (intro conjI allI impI)
    fix j h assume "(m(i \<mapsto> g)) j = Some h"
    then show "\<exists>p v. af_fault h = Some (p, v) \<and> p < n'"
      using D(1) g n by (cases "j = i") auto
  next
    fix a b p assume "holds_fault p ((m(i \<mapsto> g)) a) \<and> holds_fault p ((m(i \<mapsto> g)) b)"
    then show "a = b" unfolding other using D(2) [of p a b] fresh by (auto split: if_splits)
  next
    fix t assume "t < length ts" then show "call_ptr (fst (ts ! t)) < n'" by (rule D(3))
  next
    fix j h u assume a: "(m(i \<mapsto> g)) j = Some h \<and> af_timer h = Some u"
    then have "j \<noteq> i" using g by auto
    then show "u < length ts" "call_link (fst (ts ! u)) = j" "holds_fault (call_ptr (fst (ts ! u))) ((m(i \<mapsto> g)) j)"
      using D(4) [of j h u] a by auto
  next
    fix p u u' assume "pending ts p u \<and> pending ts p u'" then show "u = u'" using D(5) by blast
  next
    fix u j h assume a: "u < length ts \<and> snd (ts ! u) = Armed \<and>
      holds_fault (call_ptr (fst (ts ! u))) ((m(i \<mapsto> g)) j) \<and> (m(i \<mapsto> g)) j = Some h"
    then have "j \<noteq> i" using unused unfolding other by (auto split: if_splits)
    then show "af_timer h = Some u" using a by (intro D(6) [of u j h]) auto
  qed
qed

lemma timers_ok_drop:
  assumes ok: "timers_ok m ts n"
  shows "timers_ok (m(i := None)) ts n"
proof -
  note D = timers_okD [OF ok]
  have m: "(m(i := None)) j = Some h \<Longrightarrow> m j = Some h \<and> j \<noteq> i" for j h by (cases "j = i") auto
  have h: "holds_fault p ((m(i := None)) j) \<Longrightarrow> holds_fault p (m j) \<and> j \<noteq> i" for p j by (cases "j = i") auto
  show ?thesis
    unfolding timers_ok_def
  proof (intro conjI allI impI)
    fix j f assume "(m(i := None)) j = Some f"
    then show "\<exists>p v. af_fault f = Some (p, v) \<and> p < n" using D(1) m by blast
  next
    fix a b p assume "holds_fault p ((m(i := None)) a) \<and> holds_fault p ((m(i := None)) b)"
    then show "a = b" using D(2) [of p a b] h by blast
  next
    fix u assume "u < length ts" then show "call_ptr (fst (ts ! u)) < n" by (rule D(3))
  next
    fix j f t assume a: "(m(i := None)) j = Some f \<and> af_timer f = Some t"
    then have "m j = Some f" "j \<noteq> i" using m by blast+
    then show "t < length ts" "call_link (fst (ts ! t)) = j" "holds_fault (call_ptr (fst (ts ! t))) ((m(i := None)) j)"
      using D(4) [of j f t] a by auto
  next
    fix p u u' assume "pending ts p u \<and> pending ts p u'" then show "u = u'" using D(5) by blast
  next
    fix u j f assume a: "u < length ts \<and> snd (ts ! u) = Armed \<and>
      holds_fault (call_ptr (fst (ts ! u))) ((m(i := None)) j) \<and> (m(i := None)) j = Some f"
    then show "af_timer f = Some u" using m h D(6) [of u j f] by blast
  qed
qed

text \<open>Arming a timer for a pointer that has none pending.\<close>

lemma timers_ok_arm:
  assumes ok: "timers_ok m ts n" and f: "m i = Some f" and c: "call_link c = i" "holds_fault (call_ptr c) (m i)"
    and none: "\<forall>t. \<not> pending ts (call_ptr c) t"
  shows "timers_ok (m(i \<mapsto> f \<lparr> af_timer := Some (length ts) \<rparr>)) (ts @ [(c, Armed)]) n"
proof -
  note D = timers_okD [OF ok]
  let ?m = "m(i \<mapsto> f \<lparr> af_timer := Some (length ts) \<rparr>)"
  let ?ts = "ts @ [(c, Armed)]"
  have H: "holds_fault p (?m j) = holds_fault p (m j)" for p j
    by (rule holds_fault_upd [where f = f]) (use f in simp_all)
  have ptr: "call_ptr c < n" using D(1) [OF f] c f by (auto simp: holds_fault_Some)
  have nth: "u < length ts \<Longrightarrow> ?ts ! u = ts ! u" for u by (simp add: nth_append)
  show ?thesis
    unfolding timers_ok_def
  proof (intro conjI allI impI)
    fix j h assume "?m j = Some h"
    then show "\<exists>p v. af_fault h = Some (p, v) \<and> p < n" using D(1) f by (cases "j = i") auto
  next
    fix a b p assume "holds_fault p (?m a) \<and> holds_fault p (?m b)"
    then show "a = b" using D(2) unfolding H by blast
  next
    fix t assume "t < length ?ts" then show "call_ptr (fst (?ts ! t)) < n"
      using D(3) ptr by (cases "t < length ts") (auto simp: nth_append)
  next
    fix j h u assume a: "?m j = Some h \<and> af_timer h = Some u"
    show "u < length ?ts" "call_link (fst (?ts ! u)) = j" "holds_fault (call_ptr (fst (?ts ! u))) (?m j)"
      unfolding H using a D(4) [of j h u] c nth by (cases "j = i"; auto)+
  next
    fix p u u' assume a: "pending ?ts p u \<and> pending ?ts p u'"
    have old: "pending ts p v" if "pending ?ts p v" "v < length ts" for v
      using that by (simp add: pending_def nth_append)
    have new: "p = call_ptr c" if "pending ?ts p v" "\<not> v < length ts" for v
      using that by (auto simp: pending_def nth_append split: if_splits)
    have len: "v < length ts \<or> v = length ts" if "pending ?ts p v" for v
      using that by (auto simp: pending_def)
    show "u = u'" using a old new none D(5) len by metis
  next
    fix u j h assume a: "u < length ?ts \<and> snd (?ts ! u) = Armed \<and>
      holds_fault (call_ptr (fst (?ts ! u))) (?m j) \<and> ?m j = Some h"
    show "af_timer h = Some u"
    proof (cases "u < length ts")
      case False
      then have "u = length ts" using a by simp
      then have "j = i" using a c D(2) [of "call_ptr c" j i] unfolding H by simp
      then show ?thesis using a \<open>u = length ts\<close> by auto
    next
      case True
      have "j \<noteq> i"
      proof
        assume "j = i"
        then have "call_ptr (fst (ts ! u)) = call_ptr c"
          using a c f nth [OF True] unfolding H by (auto simp: holds_fault_Some)
        then show False using none a True nth [OF True] by (auto simp: pending_def)
      qed
      then show ?thesis using a nth [OF True] True unfolding H by (intro D(6) [of u j h]) auto
    qed
  qed
qed

text \<open>Stopping the recorded timer of a fault and forgetting it.\<close>

definition halt :: "nat \<Rightarrow> (timer_call \<times> timer_state) list \<Rightarrow> (timer_call \<times> timer_state) list" where
  "halt t ts = (if snd (ts ! t) = Armed then ts[t := (fst (ts ! t), Halted)] else ts)"

lemma stop_timer_simps [simp]:
  "faults_of (stop_timer t w) = faults_of w" "fl_doc (fw_lab (stop_timer t w)) = fl_doc (fw_lab w)"
  "fw_timers (stop_timer t w) = halt t (fw_timers w)" "fw_next (stop_timer t w) = fw_next w"
  "fw_current (stop_timer t w) = fw_current w"
  by (cases "fw_timers w ! t"; cases "snd (fw_timers w ! t)"; simp add: stop_timer_def halt_def)+

lemma put_fault_simps [simp]:
  "faults_of (put_fault i f w) = (faults_of w)(i := f)" "fl_doc (fw_lab (put_fault i f w)) = fl_doc (fw_lab w)"
  "fw_timers (put_fault i f w) = fw_timers w" "fw_next (put_fault i f w) = fw_next w"
  "fw_current (put_fault i f w) = fw_current w"
  by (simp_all add: put_fault_def)

lemma timers_ok_halt:
  assumes ok: "timers_ok m ts n" and t: "t < length ts"
  shows "timers_ok m (halt t ts) n"
  using timers_ok_advance [OF ok t, of Halted] ok by (simp add: halt_def)

lemma timers_ok_forget:
  assumes ok: "timers_ok m ts n" and f: "m i = Some f" and t: "af_timer f = Some t"
    and g: "af_fault g = af_fault f" "af_timer g = None"
  shows "timers_ok (m(i \<mapsto> g)) (halt t ts) n"
proof -
  note D = timers_okD [OF ok]
  have tl: "t < length ts" using D(4) [OF f t] by simp
  have none: "snd (halt t ts ! u) \<noteq> Armed"
    if u: "u < length ts" "holds_fault (call_ptr (fst (halt t ts ! u))) (m i)" for u
  proof
    assume a: "snd (halt t ts ! u) = Armed"
    then have "u \<noteq> t" using tl by (auto simp: halt_def split: if_splits)
    then have same: "halt t ts ! u = ts ! u" by (simp add: halt_def)
    have "af_timer f = Some u" by (rule D(6) [OF u(1) _ _ f]) (use a u(2) same in simp_all)
    then show False using t \<open>u \<noteq> t\<close> by simp
  qed
  have "length (halt t ts) = length ts" by (simp add: halt_def)
  then show ?thesis
    by (intro timers_ok_keep [where f = f, OF timers_ok_halt [OF ok tl] f g(1)]) (use none g in auto)
qed

lemma doc_ok_keep:
  assumes "doc_ok m ls" and "m i = Some f" and "af_fault g = af_fault f"
  shows "doc_ok (m(i \<mapsto> g)) ls"
  using assms by (fastforce simp: doc_ok_def)

lemma set_doc_fault_ids [simp]: "map link_id (set_doc_fault i f ls) = map link_id ls"
  by (induction ls) auto

lemma set_doc_fault_mem:
  "distinct (map link_id ls) \<Longrightarrow> l \<in> set (set_doc_fault i f ls) \<Longrightarrow>
     (link_id l = i \<and> link_fault_def l = f) \<or> (link_id l \<noteq> i \<and> l \<in> set ls)"
  by (induction ls) (auto split: if_splits simp: image_iff)

lemma doc_ok_set:
  assumes ok: "doc_ok m ls" and i: "i \<in> link_id ` set ls"
    and v: "v = Option.bind a (\<lambda>f. map_option snd (af_fault f))"
  shows "doc_ok (m(i := a)) (set_doc_fault i v ls)"
proof -
  have ids: "link_id ` set (set_doc_fault i v ls) = link_id ` set ls"
    by (metis set_doc_fault_ids list.set_map)
  have dist: "distinct (map link_id ls)" using ok by (simp add: doc_ok_def)
  have "link_fault_def l = Option.bind ((m(i := a)) (link_id l)) (\<lambda>f. map_option snd (af_fault f))"
    if "l \<in> set (set_doc_fault i v ls)" for l
    using set_doc_fault_mem [OF dist that] ok v by (auto simp: doc_ok_def)
  then show ?thesis
    using ok i unfolding doc_ok_def ids by (auto split: if_splits)
qed

lemma doc_ok_filter:
  assumes "doc_ok m ls"
  shows "doc_ok (m(i := None)) (filter (\<lambda>l. link_id l \<noteq> i) ls)"
  using assms by (auto simp: doc_ok_def distinct_map_filter)

lemma find_link_mem:
  "find_link ll i = Some l \<Longrightarrow> l \<in> set (links (fl_doc ll)) \<and> link_id l = i"
  by (auto simp: find_link_def find_Some_iff)

section \<open>Every operation keeps the invariant\<close>

text \<open>How a world may develop: definitions get fresh pointers, timers are only added.\<close>

definition evolves :: "'k fault_world \<Rightarrow> 'k fault_world \<Rightarrow> bool" where
  "evolves w w' \<longleftrightarrow> fw_next w \<le> fw_next w' \<and>
     (\<forall>i p. holds_fault p (faults_of w' i) \<longrightarrow> holds_fault p (faults_of w i) \<or> fw_next w \<le> p) \<and>
     (\<exists>cs. map fst (fw_timers w') = map fst (fw_timers w) @ cs)"

definition good_step :: "'k fault_world \<Rightarrow> 'k fault_world \<Rightarrow> bool" where
  "good_step w w' \<longleftrightarrow> fault_inv w' \<and> evolves w w'"

lemma evolves_refl [simp]: "evolves w w"
  by (simp add: evolves_def)

lemma evolves_trans: "evolves a b \<Longrightarrow> evolves b c \<Longrightarrow> evolves a c"
  unfolding evolves_def by (metis append_assoc order_trans)

lemma good_step_refl: "fault_inv w \<Longrightarrow> good_step w w"
  by (simp add: good_step_def)

lemma good_step_trans: "good_step a b \<Longrightarrow> good_step b c \<Longrightarrow> good_step a c"
  by (metis evolves_trans good_step_def)

lemma good_step_inv: "good_step a b \<Longrightarrow> fault_inv b"
  by (simp add: good_step_def)

lemma good_step_same: "fault_inv w \<Longrightarrow> same_faults w w' \<Longrightarrow> good_step w w'"
  by (simp add: good_step_def evolves_def fault_inv_def same_faults_def)

lemma same_faults_emit: "same_faults w (emit_link_fault i r w \<lparr> fw_events := fw_events w \<rparr>)"
  by (auto simp: same_faults_def emit_link_fault_def split: option.splits prod.splits)

lemma good_step_emit: "fault_inv w \<Longrightarrow> good_step w (emit_link_fault i r w)"
  by (auto simp: good_step_def evolves_def fault_inv_def emit_link_fault_def split: option.splits prod.splits)

lemma map_fst_halt [simp]: "map fst (halt t ts) = map fst ts"
  by (cases "t < length ts") (simp_all add: halt_def map_update list_update_same_conv list_update_beyond)

lemma good_step_cancel:
  assumes inv: "fault_inv w"
  shows "good_step w (cancel_fault_timer i w)"
proof (cases "\<exists>f t. faults_of w i = Some f \<and> af_timer f = Some t")
  case False
  then show ?thesis using good_step_refl [OF inv]
    by (auto simp: cancel_fault_timer_def split: option.splits)
next
  case True
  then obtain f t where f: "faults_of w i = Some f" and t: "af_timer f = Some t" by blast
  show ?thesis
    using inv f t timers_ok_forget [of "faults_of w" "fw_timers w" "fw_next w" i f t "f \<lparr> af_timer := None \<rparr>"]
      doc_ok_keep [of "faults_of w" _ i f "f \<lparr> af_timer := None \<rparr>"]
      holds_fault_upd [of "faults_of w" i f "f \<lparr> af_timer := None \<rparr>"]
    by (simp add: good_step_def evolves_def fault_inv_def cancel_fault_timer_def)
qed

lemma good_step_teardown:
  assumes inv: "fault_inv w"
  shows "good_step w (teardown_fault i w)"
proof (cases "faults_of w i")
  case None
  then show ?thesis using good_step_refl [OF inv] by (simp add: teardown_fault_def)
next
  case (Some f)
  let ?g = "f \<lparr> af_active := False, af_timer := None \<rparr>"
  have fg: "af_fault ?g = af_fault f" "af_timer ?g = None" by simp_all
  have ok: "timers_ok (faults_of w) (fw_timers w) (fw_next w)" using inv by (simp add: fault_inv_def)
  have doc: "doc_ok ((faults_of w)(i \<mapsto> ?g)) (links (fl_doc (fw_lab w)))"
    using inv doc_ok_keep [where m = "faults_of w", OF _ Some fg(1)] by (simp add: fault_inv_def)
  note H = holds_fault_upd [of "faults_of w" i f ?g, OF Some fg(1)]
  show ?thesis
  proof (cases "af_timer f")
    case None
    then have "timers_ok ((faults_of w)(i \<mapsto> ?g)) (fw_timers w) (fw_next w)"
      using timers_ok_keep [OF ok Some fg(1)] by simp
    then show ?thesis using Some None doc H
      by (simp add: teardown_fault_def good_step_def evolves_def fault_inv_def)
  next
    case t: (Some t)
    show ?thesis using Some t doc H timers_ok_forget [OF ok Some t fg]
      by (simp add: teardown_fault_def good_step_def evolves_def fault_inv_def)
  qed
qed

lemma good_step_fold:
  assumes "fault_inv w" and "\<And>w i. fault_inv w \<Longrightarrow> good_step w (step i w)"
  shows "good_step w (fold step is w)"
  using assms(1)
proof (induction "is" arbitrary: w)
  case Nil
  then show ?case by (simp add: good_step_refl)
next
  case (Cons i "is")
  then show ?case using assms(2) good_step_trans [of w "step i w"] by (auto dest: good_step_inv)
qed

lemma good_step_apply: "fault_inv w \<Longrightarrow> on_fabric (apply_active_fault K l) w = (r, w') \<Longrightarrow> good_step w w'"
  by (rule good_step_same, assumption, erule on_fabric_apply)

lemma good_step_clear: "fault_inv w \<Longrightarrow> on_fabric (clear_fault_effect K l) w = (r, w') \<Longrightarrow> good_step w w'"
  by (rule good_step_same, assumption, erule on_fabric_clear)

text \<open>An update of a fault that touches neither its definition nor its timer.\<close>

lemma good_step_put:
  assumes inv: "fault_inv w" and f: "faults_of w i = Some f" and g: "af_fault g = af_fault f"
    and t: "af_timer g = af_timer f \<or> (af_timer g = None \<and>
      (\<forall>t < length (fw_timers w). holds_fault (call_ptr (fst (fw_timers w ! t))) (faults_of w i) \<longrightarrow> snd (fw_timers w ! t) \<noteq> Armed))"
  shows "good_step w (put_fault i (Some g) w)"
proof -
  have "timers_ok ((faults_of w)(i \<mapsto> g)) (fw_timers w) (fw_next w)"
    by (rule timers_ok_keep [where f = f]) (use inv f g t in \<open>simp_all add: fault_inv_def\<close>)
  moreover have "doc_ok ((faults_of w)(i \<mapsto> g)) (links (fl_doc (fw_lab w)))"
    using inv doc_ok_keep [where m = "faults_of w", OF _ f g] by (simp add: fault_inv_def)
  ultimately show ?thesis
    using holds_fault_upd [of "faults_of w" i f g, OF f g]
    by (simp add: good_step_def evolves_def fault_inv_def)
qed

lemma good_step_deactivate: "fault_inv w \<Longrightarrow> good_step w (deactivate_if i p w)"
  by (cases "faults_of w i")
    (auto simp: deactivate_if_def intro: good_step_refl good_step_put [where f = "the (faults_of w i)"])

lemma good_step_arm:
  assumes inv: "fault_inv w" and c: "call_link c = i" "call_ptr c = p"
    and p: "holds_fault p (faults_of w i)" and none: "\<forall>t. \<not> pending (fw_timers w) p t"
  shows "good_step w (arm_timer c i p w)"
proof -
  obtain f where f: "faults_of w i = Some f" using p by (cases "faults_of w i") auto
  let ?t = "length (fw_timers w)"
  have w: "arm_timer c i p w = put_fault i (Some (f \<lparr> af_timer := Some ?t \<rparr>)) (w \<lparr> fw_timers := fw_timers w @ [(c, Armed)] \<rparr>)"
    using p f by (simp add: arm_timer_def Let_def)
  have "timers_ok ((faults_of w)(i \<mapsto> f \<lparr> af_timer := Some ?t \<rparr>)) (fw_timers w @ [(c, Armed)]) (fw_next w)"
    by (rule timers_ok_arm) (use inv f c p none in \<open>simp_all add: fault_inv_def\<close>)
  moreover have "doc_ok ((faults_of w)(i \<mapsto> f \<lparr> af_timer := Some ?t \<rparr>)) (links (fl_doc (fw_lab w)))"
    using inv by (auto simp: fault_inv_def intro: doc_ok_keep [where m = "faults_of w", OF _ f])
  ultimately show ?thesis
    using holds_fault_upd [of "faults_of w" i f "f \<lparr> af_timer := Some ?t \<rparr>", OF f]
    by (simp add: w good_step_def evolves_def fault_inv_def)
qed

text \<open>A timer that fires, and the callback of a fired timer.\<close>

lemma map_fst_advance [simp]: "t < length ts \<Longrightarrow> (map fst ts)[t := fst (ts ! t)] = map fst ts"
  by (metis list_update_id nth_map)

lemma good_step_advance:
  assumes inv: "fault_inv w" and t: "t < length (fw_timers w)" and s: "s \<noteq> Armed"
    and p: "s = Fired \<Longrightarrow> snd (fw_timers w ! t) = Armed"
  shows "good_step w (w \<lparr> fw_timers := (fw_timers w)[t := (fst (fw_timers w ! t), s)] \<rparr>)"
  using inv timers_ok_advance [OF _ t s p, of "faults_of w" "fw_next w"] t
  by (simp add: good_step_def evolves_def fault_inv_def map_update)

lemma good_step_fire: "fault_inv w \<Longrightarrow> good_step w (fire_timer t w)"
  using good_step_advance [of w t Fired]
  by (cases "fw_timers w ! t") (auto simp: fire_timer_def good_step_refl split: timer_state.splits)

lemma good_step_expire:
  assumes inv: "fault_inv w" and none: "\<forall>t. \<not> pending (fw_timers w) p t"
  shows "good_step w (expire_callback K foreign i p w)"
proof (cases "fw_current w \<and> holds_fault p (faults_of w i)")
  case False
  then show ?thesis using good_step_refl [OF inv] by (simp add: expire_callback_def)
next
  case True
  then obtain f where f: "faults_of w i = Some f" by (cases "faults_of w i") auto
  let ?w1 = "put_fault i (Some (f \<lparr> af_timer := None, af_active := False \<rparr>)) w"
  have hp: "holds_fault p (Some f)" using True f by simp
  have "good_step w ?w1"
    by (rule good_step_put [OF inv f]) (use none hp f in \<open>auto simp: pending_def holds_fault_Some\<close>)
  note g1 = this and i1 = good_step_inv [OF this]
  show ?thesis
    using True f
    by (auto simp: expire_callback_def Let_def split: option.splits prod.splits
        intro!: g1 good_step_trans [OF g1] good_step_emit [OF i1]
        dest: good_step_clear [OF i1] intro: good_step_trans good_step_emit [OF good_step_inv])
qed

lemma good_step_schedule_expiry:
  "fault_inv w \<Longrightarrow> holds_fault p (faults_of w i) \<Longrightarrow> \<forall>t. \<not> pending (fw_timers w) p t \<Longrightarrow>
     good_step w (schedule_fault_expiry i p d w)"
  by (auto simp: schedule_fault_expiry_def intro: good_step_refl good_step_arm)

lemma emit_link_fault_simps [simp]:
  "faults_of (emit_link_fault i r w) = faults_of w" "fw_timers (emit_link_fault i r w) = fw_timers w"
  "fw_next (emit_link_fault i r w) = fw_next w" "fl_doc (fw_lab (emit_link_fault i r w)) = fl_doc (fw_lab w)"
  by (auto simp: emit_link_fault_def split: option.splits prod.splits)

lemma good_step_activate:
  assumes inv: "fault_inv w" and none: "\<forall>t. \<not> pending (fw_timers w) p t"
  shows "good_step w (activate_callback K foreign i p s w)"
proof (cases "fw_current w \<and> holds_fault p (faults_of w i)")
  case False
  then show ?thesis using good_step_refl [OF inv] by (simp add: activate_callback_def)
next
  case True
  then obtain f where f: "faults_of w i = Some f" by (cases "faults_of w i") auto
  let ?w1 = "put_fault i (Some (f \<lparr> af_active := True, af_timer := None \<rparr>)) w"
  have hp: "holds_fault p (Some f)" using True f by simp
  have g1: "good_step w ?w1"
    by (rule good_step_put [OF inv f]) (use none hp f in \<open>auto simp: pending_def holds_fault_Some\<close>)
  note i1 = good_step_inv [OF g1]
  show ?thesis
  proof (cases "find_link (fw_lab ?w1) i")
    case None
    then show ?thesis using True f g1 by (simp add: activate_callback_def)
  next
    case (Some l)
    show ?thesis
    proof (cases foreign)
      case True
      have "good_step ?w1 (deactivate_if i p ?w1)" by (rule good_step_deactivate [OF i1])
      then show ?thesis
        using True f Some \<open>fw_current w \<and> holds_fault p (faults_of w i)\<close>
        by (auto simp: activate_callback_def
            intro: good_step_trans [OF g1] good_step_trans good_step_emit dest: good_step_inv)
    next
      case False
      obtain r w2 where r: "on_fabric (apply_active_fault K l) ?w1 = (r, w2)" by fastforce
      have g2: "good_step ?w1 w2" by (rule good_step_apply [OF i1 r])
      note i2 = good_step_inv [OF g2]
      have same: "same_faults ?w1 w2" by (rule on_fabric_apply [OF r])
      let ?w3 = "emit_link_fault i Applied_Fault w2"
      have g3: "good_step w ?w3" by (rule good_step_trans [OF good_step_trans [OF g1 g2] good_step_emit [OF i2]])
      have exp: "good_step ?w3 (schedule_fault_expiry i p (duration s) ?w3)"
        by (rule good_step_schedule_expiry [OF good_step_inv [OF g3]])
          (use same hp none in \<open>simp_all add: same_faults_def holds_fault_Some\<close>)
      have dea: "good_step w2 (emit_link_fault i e (deactivate_if i p w2))" for e
        by (rule good_step_trans [OF good_step_deactivate [OF i2] good_step_emit])
          (rule good_step_inv [OF good_step_deactivate [OF i2]])
      show ?thesis
        using True False f Some r g3 exp dea good_step_trans [OF g1 g2]
        by (auto simp: activate_callback_def Let_def split: option.splits intro: good_step_trans)
    qed
  qed
qed

lemma good_step_run:
  assumes inv: "fault_inv w"
  shows "good_step w (run_timer K foreign t w)"
proof (cases "t < length (fw_timers w) \<and> snd (fw_timers w ! t) = Fired")
  case False
  then show ?thesis using good_step_refl [OF inv]
    by (cases "fw_timers w ! t") (auto simp: run_timer_def split: timer_state.splits)
next
  case True
  obtain c where c: "fw_timers w ! t = (c, Fired)" using True by (cases "fw_timers w ! t") auto
  let ?w1 = "w \<lparr> fw_timers := (fw_timers w)[t := (c, Ran)] \<rparr>"
  have g1: "good_step w ?w1" using good_step_advance [OF inv, of t Ran] True c by simp
  have none: "\<forall>u. \<not> pending (fw_timers ?w1) (call_ptr c) u"
  proof (intro allI notI)
    fix u assume a: "pending (fw_timers ?w1) (call_ptr c) u"
    then have "u \<noteq> t" using True by (auto simp: pending_def)
    then have "pending (fw_timers w) (call_ptr c) u" using a by (simp add: pending_def)
    moreover have "pending (fw_timers w) (call_ptr c) t" using True c by (simp add: pending_def)
    ultimately show False
      using timers_okD(5) [of "faults_of w" "fw_timers w" "fw_next w"] inv \<open>u \<noteq> t\<close> by (auto simp: fault_inv_def)
  qed
  have "good_step ?w1 (run_callback K foreign c ?w1)"
    using good_step_activate [OF good_step_inv [OF g1]] good_step_expire [OF good_step_inv [OF g1]] none
    by (cases c) (simp_all add: run_callback_def)
  then show ?thesis using good_step_trans [OF g1] True c by (simp add: run_timer_def)
qed

text \<open>Replacing a fault.\<close>

lemma set_link_fault_simps [simp]:
  "faults_of (set_link_fault i v w) = faults_of w" "fw_timers (set_link_fault i v w) = fw_timers w"
  "fw_next (set_link_fault i v w) = fw_next w" "fw_current (set_link_fault i v w) = fw_current w"
  "links (fl_doc (fw_lab (set_link_fault i v w))) = set_doc_fault i v (links (fl_doc (fw_lab w)))"
  by (simp_all add: set_link_fault_def)

lemma fault_inv_entry:
  assumes inv: "fault_inv w" and i: "i \<in> link_id ` set (links (fl_doc (fw_lab w)))"
    and g: "af_fault g = Some (q, v)" "af_timer g = None" and n: "fw_next w \<le> n" "q < n"
    and fresh: "\<And>j. j \<noteq> i \<Longrightarrow> \<not> holds_fault q (faults_of w j)"
    and unused: "\<And>t. t < length (fw_timers w) \<Longrightarrow> call_ptr (fst (fw_timers w ! t)) \<noteq> q"
  shows "fault_inv (put_fault i (Some g) (set_link_fault i (Some v) (w \<lparr> fw_next := n \<rparr>)))"
proof -
  have "timers_ok ((faults_of w)(i \<mapsto> g)) (fw_timers w) n"
    by (rule timers_ok_new [OF _ g n fresh unused]) (use inv in \<open>auto simp: fault_inv_def\<close>)
  moreover have "doc_ok ((faults_of w)(i \<mapsto> g)) (set_doc_fault i (Some v) (links (fl_doc (fw_lab w))))"
    by (rule doc_ok_set) (use inv i g in \<open>simp_all add: fault_inv_def\<close>)
  ultimately show ?thesis by (simp add: fault_inv_def)
qed

lemma fault_inv_ptrs:
  assumes inv: "fault_inv w" and n: "fw_next w \<le> n"
  shows "\<not> holds_fault n (faults_of w j)" "t < length (fw_timers w) \<Longrightarrow> call_ptr (fst (fw_timers w ! t)) \<noteq> n"
proof -
  have ok: "timers_ok (faults_of w) (fw_timers w) (fw_next w)" using inv by (simp add: fault_inv_def)
  show "\<not> holds_fault n (faults_of w j)"
    using timers_okD(1) [OF ok, of j] n by (cases "faults_of w j") (auto simp: holds_fault_Some)
  show "t < length (fw_timers w) \<Longrightarrow> call_ptr (fst (fw_timers w ! t)) \<noteq> n"
    using timers_okD(3) [OF ok, of t] n by auto
qed

lemma good_step_replace:
  assumes inv: "fault_inv w" and i: "i \<in> link_id ` set (links (fl_doc (fw_lab w)))"
    and af: "af_fault g = Some (fw_next w, v)" "af_timer g = None"
  shows "good_step w (put_fault i (Some g) (set_link_fault i (Some v) (w \<lparr> fw_next := Suc (fw_next w) \<rparr>)))"
  using fault_inv_entry [OF inv i af, of "Suc (fw_next w)"] fault_inv_ptrs [OF inv order_refl] af
  by (auto simp: good_step_def evolves_def holds_fault_Some)

lemma good_step_clear_fault:
  assumes inv: "fault_inv w" and i: "i \<in> link_id ` set (links (fl_doc (fw_lab w)))"
  shows "good_step w (put_fault i None (set_link_fault i None w))"
proof -
  have "doc_ok ((faults_of w)(i := None)) (set_doc_fault i None (links (fl_doc (fw_lab w))))"
    by (rule doc_ok_set) (use inv i in \<open>simp_all add: fault_inv_def\<close>)
  then show ?thesis
    using inv timers_ok_drop by (auto simp: good_step_def evolves_def fault_inv_def)
qed

lemma good_step_remove:
  assumes inv: "fault_inv w"
  shows "good_step w (link_remove K l w)"
proof -
  let ?w1 = "if is_fabric_link l (fabric_nodes (fl_doc (fw_lab w)))
    then snd (on_fabric (\<lambda>k ll. (None, detach_fabric_link K l k ll)) (cancel_fault_timer (link_id l) w)) else w"
  have "good_step w ?w1"
  proof (cases "is_fabric_link l (fabric_nodes (fl_doc (fw_lab w)))")
    case True
    let ?c = "cancel_fault_timer (link_id l) w"
    obtain r w1 where r: "on_fabric (\<lambda>k ll. (None, detach_fabric_link K l k ll)) ?c = (r, w1)" by fastforce
    have "same_faults ?c w1" by (rule on_fabric_same [OF r]) (auto dest: detach_fabric_link_doc)
    then have "good_step ?c w1" using good_step_same good_step_cancel [OF inv] good_step_inv by blast
    then show ?thesis using True r good_step_trans [OF good_step_cancel [OF inv]] by simp
  qed (simp add: good_step_refl [OF inv])
  note g = this and i1 = good_step_inv [OF this]
  let ?i = "link_id l"
  have "timers_ok ((faults_of ?w1)(?i := None)) (fw_timers ?w1) (fw_next ?w1)"
    by (rule timers_ok_drop) (use i1 in \<open>simp add: fault_inv_def\<close>)
  moreover have "doc_ok ((faults_of ?w1)(?i := None)) (filter (\<lambda>m. link_id m \<noteq> ?i) (links (fl_doc (fw_lab ?w1))))"
    by (rule doc_ok_filter) (use i1 in \<open>simp add: fault_inv_def\<close>)
  ultimately have "good_step ?w1 (link_remove K l w)"
    unfolding link_remove_def forget_link_def Let_def
    by (simp add: good_step_def evolves_def fault_inv_def)
  then show ?thesis by (rule good_step_trans [OF g])
qed

text \<open>An update of every entry that keeps definitions and timers.\<close>

lemma timers_ok_map:
  assumes ok: "timers_ok m ts n" and a: "\<And>f. af_fault (g f) = af_fault f" "\<And>f. af_timer (g f) = af_timer f"
  shows "timers_ok (\<lambda>i. map_option g (m i)) ts n"
proof -
  note D = timers_okD [OF ok]
  have h: "holds_fault p (map_option g x) = holds_fault p x" for p x
    by (cases x) (simp_all add: holds_fault_Some a)
  show ?thesis
    unfolding timers_ok_def h
  proof (intro conjI allI impI)
    fix i f assume "map_option g (m i) = Some f"
    then show "\<exists>p v. af_fault f = Some (p, v) \<and> p < n" using D(1) by (auto simp: a)
  next
    fix i j p assume "holds_fault p (m i) \<and> holds_fault p (m j)" then show "i = j" using D(2) by blast
  next
    fix t assume "t < length ts" then show "call_ptr (fst (ts ! t)) < n" by (rule D(3))
  next
    fix i f t assume "map_option g (m i) = Some f \<and> af_timer f = Some t"
    then obtain f' where "m i = Some f'" "af_timer f' = Some t" by (auto simp: a)
    from D(4) [OF this] show "t < length ts" "call_link (fst (ts ! t)) = i" "holds_fault (call_ptr (fst (ts ! t))) (m i)"
      by simp_all
  next
    fix p t t' assume "pending ts p t \<and> pending ts p t'" then show "t = t'" using D(5) by blast
  next
    fix t i f assume u: "t < length ts \<and> snd (ts ! t) = Armed \<and>
      holds_fault (call_ptr (fst (ts ! t))) (m i) \<and> map_option g (m i) = Some f"
    then obtain f' where "m i = Some f'" "f = g f'" by auto
    then show "af_timer f = Some t" using u D(6) [of t i f'] by (simp add: a)
  qed
qed

lemma good_step_initial:
  assumes inv: "fault_inv w"
  shows "good_step w (activate_initial_faults w)"
proof -
  let ?act = "\<lambda>f. case af_fault f of None \<Rightarrow> f
    | Some (p, v) \<Rightarrow> if \<not> fault_initial v \<or> af_active f then f else f \<lparr> af_active := True \<rparr>"
  let ?m = "\<lambda>i. map_option ?act (faults_of w i)"
  have a: "af_fault (?act f) = af_fault f" "af_timer (?act f) = af_timer f" for f
    by (auto split: option.splits prod.splits)
  have h: "holds_fault p (map_option ?act x) = holds_fault p x" for p x
    by (cases x) (simp_all add: holds_fault_Some a)
  have w: "activate_initial_faults w = w \<lparr> fw_lab := (fw_lab w) \<lparr> fl_faults := ?m \<rparr> \<rparr>"
    by (simp add: activate_initial_faults_def Let_def)
  have t: "timers_ok ?m (fw_timers w) (fw_next w)"
    by (rule timers_ok_map) (use inv a in \<open>simp_all add: fault_inv_def\<close>)
  have d: "doc_ok ?m (links (fl_doc (fw_lab w)))"
    using inv unfolding fault_inv_def doc_ok_def by (auto simp: bind_map_option comp_def a)
  show ?thesis
    using t d h unfolding w good_step_def evolves_def fault_inv_def by simp
qed

lemma same_faultsD:
  "same_faults w w' \<Longrightarrow> faults_of w' = faults_of w \<and> fl_doc (fw_lab w') = fl_doc (fw_lab w) \<and>
     fw_timers w' = fw_timers w \<and> fw_next w' = fw_next w"
  by (simp add: same_faults_def)

lemma good_step_events [simp]: "good_step w0 (w \<lparr> fw_events := es \<rparr>) = good_step w0 w"
  by (simp add: good_step_def evolves_def fault_inv_def)

text \<open>Putting the old definition back.\<close>

lemma good_step_restore:
  assumes g: "good_step w0 w" and i: "i \<in> link_id ` set (links (fl_doc (fw_lab w)))"
    and old: "old = None \<or> (\<exists>g v. old = Some g \<and> af_fault g = Some (q, v) \<and> af_timer g = None)"
    and v: "v = Option.bind old (\<lambda>f. map_option snd (af_fault f))"
    and q: "fw_next w0 \<le> q" "q < fw_next w"
    and fresh: "\<And>j. j \<noteq> i \<Longrightarrow> \<not> holds_fault q (faults_of w j)"
    and unused: "\<And>t. t < length (fw_timers w) \<Longrightarrow> call_ptr (fst (fw_timers w ! t)) \<noteq> q"
  shows "good_step w0 (put_fault i old (set_link_fault i v w))"
proof (cases old)
  case None
  have "good_step w (put_fault i None (set_link_fault i None w))"
    by (rule good_step_clear_fault [OF good_step_inv [OF g] i])
  then show ?thesis using None v good_step_trans [OF g] by simp
next
  case (Some h)
  then obtain u where h: "af_fault h = Some (q, u)" "af_timer h = None" using old by auto
  let ?w = "put_fault i old (set_link_fault i v w)"
  have "fault_inv (put_fault i (Some h) (set_link_fault i (Some u) (w \<lparr> fw_next := fw_next w \<rparr>)))"
    by (rule fault_inv_entry [OF good_step_inv [OF g] i h order_refl q(2) fresh unused])
  moreover have "evolves w0 ?w"
    using g Some h q unfolding good_step_def evolves_def by (auto simp: holds_fault_Some)
  ultimately show ?thesis using Some v h by (simp add: good_step_def)
qed

lemma good_step_install:
  assumes base: "good_step w0 w3" and i: "link_id l = i" "i \<in> link_id ` set (links (fl_doc (fw_lab w3)))"
    and old: "old = None \<or> (\<exists>g v. old = Some g \<and> af_fault g = Some (q, v) \<and> af_timer g = None)"
    and v: "link_fault_def l = Option.bind old (\<lambda>f. map_option snd (af_fault f))"
    and q: "fw_next w0 \<le> q" "q < fw_next w3"
    and fresh: "\<And>j. \<not> holds_fault q (faults_of w3 j)"
    and unused: "\<And>t. t < length (fw_timers w3) \<Longrightarrow> call_ptr (fst (fw_timers w3 ! t)) \<noteq> q"
    and eq: "install_fault K args l old (fw_next w3) f (set_link_fault i (Some f) (w3 \<lparr> fw_next := Suc (fw_next w3) \<rparr>)) = (r, w')"
  shows "good_step w0 w'"
proof -
  let ?p = "fw_next w3" and ?active = "fa_after args \<le> 0"
  let ?g = "\<lparr> af_fault = Some (?p, f), af_active = ?active, af_timer = None \<rparr>"
  define w5 where "w5 = put_fault i (Some ?g) (set_link_fault i (Some f) (w3 \<lparr> fw_next := Suc ?p \<rparr>))"
  note i3 = good_step_inv [OF base]
  have g5: "good_step w0 w5"
    unfolding w5_def by (rule good_step_trans [OF base good_step_replace [OF i3 i(2)]]) simp_all
  have f5: "faults_of w5 i = Some ?g" "fw_timers w5 = fw_timers w3" "fw_next w5 = Suc ?p"
    by (simp_all add: w5_def)
  have h5: "holds_fault ?p (faults_of w5 i)" by (simp add: f5 holds_fault_Some)
  have none: "\<forall>t. \<not> pending (fw_timers w5) ?p t"
    using fault_inv_ptrs(2) [OF i3 order_refl] by (auto simp: pending_def f5)
  show ?thesis
  proof (cases ?active)
    case False
    have "good_step w5 (schedule_fault_activation i ?p (fa_for args) w5)"
      unfolding schedule_fault_activation_def
      by (rule good_step_arm [OF good_step_inv [OF g5] _ _ h5 none]) simp_all
    then have "good_step w0 (schedule_fault_activation i ?p (fa_for args) w5)" by (rule good_step_trans [OF g5])
    then show ?thesis using eq i(1) False
      unfolding install_fault_def by (auto simp: w5_def Let_def)
  next
    case True
    have fold5: "put_fault (link_id l) (Some \<lparr> af_fault = Some (?p, f), af_active = True, af_timer = None \<rparr>)
        (set_link_fault (link_id l) (Some f) (w3 \<lparr> fw_next := Suc ?p \<rparr>)) = w5"
      using True i(1) by (simp add: w5_def)
    obtain r6 w6 where r6: "on_fabric (apply_active_fault K l) w5 = (r6, w6)" by fastforce
    have same: "same_faults w5 w6" by (rule on_fabric_apply [OF r6])
    note S = same_faultsD [OF same]
    have g6: "good_step w0 w6" by (rule good_step_trans [OF g5 good_step_same [OF good_step_inv [OF g5] same]])
    show ?thesis
    proof (cases r6)
      case (Some e)
      define w7 where "w7 = put_fault i old (set_link_fault i (link_fault_def l) w6)"
      have ids: "i \<in> link_id ` set (links (fl_doc (fw_lab w6)))"
        using i(2) S by (simp add: w5_def) (metis set_doc_fault_ids list.set_map)
      have g7: "good_step w0 w7" unfolding w7_def
        by (rule good_step_restore [OF g6 ids old v q(1)]) (use S q fresh unused in \<open>simp_all add: w5_def\<close>)
      obtain r8 w8 where r8: "on_fabric (apply_active_fault K l) w7 = (r8, w8)" by fastforce
      have "good_step w0 w8" by (rule good_step_trans [OF g7 good_step_apply [OF good_step_inv [OF g7] r8]])
      then show ?thesis using eq i(1) True r6 Some g7 r8
        unfolding install_fault_def by (auto simp: fold5 w7_def Let_def split: if_splits)
    next
      case None
      have "good_step w6 (schedule_fault_expiry i ?p (duration (fa_for args)) w6)"
        by (rule good_step_schedule_expiry [OF good_step_inv [OF g6]]) (use S h5 none in simp_all)
      then have "good_step w0 (schedule_fault_expiry i ?p (duration (fa_for args)) w6)" by (rule good_step_trans [OF g6])
      then show ?thesis using eq i(1) True r6 None g6
        unfolding install_fault_def
        by (auto simp: fold5 Let_def split: if_splits)
    qed
  qed
qed

text \<open>Cancelling, clearing the old effect and installing, put together.\<close>

lemma cancel_fault_timer_simps [simp]:
  "fw_next (cancel_fault_timer i w) = fw_next w" "fl_doc (fw_lab (cancel_fault_timer i w)) = fl_doc (fw_lab w)"
  "map fst (fw_timers (cancel_fault_timer i w)) = map fst (fw_timers w)"
  by (auto simp: cancel_fault_timer_def split: option.splits)

lemma holds_fault_cancel [simp]: "holds_fault p (faults_of (cancel_fault_timer i w) j) = holds_fault p (faults_of w j)"
  by (auto simp: cancel_fault_timer_def holds_fault_Some split: option.splits)

lemma fault_inv_next: "fault_inv w \<Longrightarrow> fw_next w \<le> n \<Longrightarrow> fault_inv (w \<lparr> fw_next := n \<rparr>)"
  by (auto simp: fault_inv_def intro: timers_ok_mono)

lemma fault_inv_old:
  assumes inv: "fault_inv w" and l: "find_link (fw_lab w) i = Some l"
  shows "link_fault_def l = Option.bind (clone_fault p (faults_of w i)) (\<lambda>f. map_option snd (af_fault f))"
    and "clone_fault p (faults_of w i) = None \<or>
      (\<exists>g v. clone_fault p (faults_of w i) = Some g \<and> af_fault g = Some (p, v) \<and> af_timer g = None)"
proof -
  have "link_fault_def l = Option.bind (faults_of w i) (\<lambda>f. map_option snd (af_fault f))"
    using inv find_link_mem [OF l] by (auto simp: fault_inv_def doc_ok_def)
  then show "link_fault_def l = Option.bind (clone_fault p (faults_of w i)) (\<lambda>f. map_option snd (af_fault f))"
    by (cases "faults_of w i") (auto simp: clone_fault_def option.map_comp comp_def split_beta)
  have ok: "timers_ok (faults_of w) (fw_timers w) (fw_next w)" using inv by (simp add: fault_inv_def)
  show "clone_fault p (faults_of w i) = None \<or>
      (\<exists>g v. clone_fault p (faults_of w i) = Some g \<and> af_fault g = Some (p, v) \<and> af_timer g = None)"
    using timers_okD(1) [OF ok, of i] by (cases "faults_of w i") (auto simp: clone_fault_def)
qed

lemma good_step_replace_fault:
  assumes inv: "fault_inv w" and l: "find_link (fw_lab w) i = Some l"
    and eq: "replace_fault K args l w = (r, w')"
  shows "good_step w w'"
proof -
  have i: "link_id l = i" "i \<in> link_id ` set (links (fl_doc (fw_lab w)))" using find_link_mem [OF l] by auto
  let ?q = "fw_next w"
  let ?old = "clone_fault ?q (faults_of w i)"
  let ?w0 = "w \<lparr> fw_next := ?q + 1 \<rparr>"
  define w1 where "w1 = cancel_fault_timer i ?w0"
  have i0: "fault_inv ?w0" using fault_inv_next [OF inv] by simp
  have g0: "good_step w ?w0" using i0 by (simp add: good_step_def evolves_def)
  have g1: "good_step w w1" unfolding w1_def by (rule good_step_trans [OF g0 good_step_cancel [OF i0]])
  let ?w2 = "w1 \<lparr> fw_next := fw_next w1 + 1 \<rparr>"
  obtain r3 w3 where r3: "(if was_active ?old then on_fabric (clear_fault_effect K l) ?w2 else (None, ?w2)) = (r3, w3)"
    by fastforce
  have body: "replace_fault K args l w = (case r3 of
      Some e \<Rightarrow> (Inl (Fabric_Error e), w3)
    | None \<Rightarrow> (case fa_fault args of
          None \<Rightarrow> let w5 = put_fault i None (set_link_fault i (fa_fault args) w3);
              out = \<lparr> fe_link = i, fe_fault = None, fe_active = False, fe_reason = Cleared \<rparr>
            in (Inr out, w5 \<lparr> fw_events := fw_events w5 @ [out] \<rparr>)
        | Some f \<Rightarrow> install_fault K args l ?old (fw_next w1) f (set_link_fault i (fa_fault args) w3)))"
    unfolding replace_fault_def Let_def i(1) w1_def [symmetric] r3 by simp
  have same: "same_faults ?w2 w3"
  proof (cases "was_active ?old")
    case True
    then show ?thesis using r3 by (auto intro: on_fabric_clear)
  qed (use r3 in \<open>auto simp: same_faults_def\<close>)
  note S = same_faultsD [OF same]
  let ?w3 = "w3 \<lparr> fw_next := fw_next w1 \<rparr>"
  have g3: "good_step w ?w3"
    using g1 S by (simp add: good_step_def evolves_def fault_inv_def)
  have restart: "?w3 \<lparr> fw_next := Suc (fw_next ?w3) \<rparr> = w3" using S by simp
  have p1: "fw_next w1 = Suc ?q" by (simp add: w1_def)
  have ids: "i \<in> link_id ` set (links (fl_doc (fw_lab ?w3)))" using i(2) S by (simp add: w1_def)
  have fresh: "\<not> holds_fault ?q (faults_of ?w3 j)" for j
    using fault_inv_ptrs(1) [OF inv order_refl, of j] S by (simp add: w1_def)
  have unused: "call_ptr (fst (fw_timers ?w3 ! t)) \<noteq> ?q" if "t < length (fw_timers ?w3)" for t
  proof -
    have m: "map fst (fw_timers ?w3) = map fst (fw_timers w)" using S by (simp add: w1_def)
    have len: "length (fw_timers ?w3) = length (fw_timers w)" using m map_eq_imp_length_eq by blast
    then have "fst (fw_timers ?w3 ! t) = fst (fw_timers w ! t)" using m that by (metis nth_map)
    then show ?thesis using fault_inv_ptrs(2) [OF inv order_refl] len that by simp
  qed
  show ?thesis
  proof (cases "r3")
    case (Some e)
    have "good_step w w3"
      using g1 S by (auto simp: good_step_def evolves_def fault_inv_def intro: timers_ok_mono)
    then show ?thesis using eq Some by (simp add: body)
  next
    case None
    show ?thesis
    proof (cases "fa_fault args")
      case None
      have "good_step w w3"
        using g1 S by (auto simp: good_step_def evolves_def fault_inv_def intro: timers_ok_mono)
      moreover have "good_step w3 (put_fault i None (set_link_fault i None w3))"
        by (rule good_step_clear_fault [OF good_step_inv]) (use calculation ids in auto)
      ultimately have "good_step w (put_fault i None (set_link_fault i None w3))" by (rule good_step_trans)
      then show ?thesis using eq \<open>r3 = None\<close> None by (auto simp: body Let_def)
    next
      case (Some f)
      have "install_fault K args l ?old (fw_next ?w3) f
          (set_link_fault i (Some f) (?w3 \<lparr> fw_next := Suc (fw_next ?w3) \<rparr>)) = (r, w')"
        unfolding restart using eq \<open>r3 = None\<close> Some by (simp add: body)
      from good_step_install [OF g3 i(1) ids fault_inv_old(2) [OF inv l] fault_inv_old(1) [OF inv l] _ _ fresh unused this]
      show ?thesis by (simp add: p1)
    qed
  qed
qed

lemma good_step_set_fault:
  assumes inv: "fault_inv w" and eq: "handle_link_set_fault K tmp uid args w = (r, w')"
  shows "good_step w w'"
  using eq good_step_refl [OF inv] good_step_replace_fault [OF inv]
  by (auto simp: handle_link_set_fault_def split: option.splits if_splits)

section \<open>Histories\<close>

datatype fault_op =
    Set_Fault fault_args | Timer_Fires nat | Callback bool nat | Stop_Node int
  | Start_Fabric "int list" | Attach_Node int | Teardown "int list" | Remove_Link link | Unload

text \<open>A handler reaches the lab only while it is the current one; timers and callbacks always do.\<close>

fun fault_step :: "'k kernel \<Rightarrow> string \<Rightarrow> int \<Rightarrow> fault_op \<Rightarrow> 'k fault_world \<Rightarrow> 'k fault_world" where
  "fault_step K tmp uid (Set_Fault args) w =
     (if fw_current w then snd (handle_link_set_fault K tmp uid args w) else w)"
| "fault_step K tmp uid (Timer_Fires t) w = fire_timer t w"
| "fault_step K tmp uid (Callback foreign t) w = run_timer K foreign t w"
| "fault_step K tmp uid (Stop_Node nid) w = cancel_fault_timers_for_node nid w"
| "fault_step K tmp uid (Start_Fabric ids) w =
     (if fw_current w
      then snd (on_fabric (\<lambda>k ll. start_links K ids (fabric_nodes (fl_doc ll)) (links (fl_doc ll)) k ll)
             (activate_initial_faults w))
      else w)"
| "fault_step K tmp uid (Attach_Node nid) w =
     (if fw_current w then snd (on_fabric (attach_fabric_for_node K nid) w) else w)"
| "fault_step K tmp uid (Teardown ids) w = fold teardown_fault ids w"
| "fault_step K tmp uid (Remove_Link l) w = (if fw_current w then link_remove K l w else w)"
| "fault_step K tmp uid Unload w = w \<lparr> fw_current := False \<rparr>"

lemma good_step_on_fabric:
  assumes "fault_inv w"
    and "\<And>k ll r k' ll'. g k ll = (r, k', ll') \<Longrightarrow> fl_faults ll' = fl_faults ll \<and> fl_doc ll' = fl_doc ll"
  shows "good_step w (snd (on_fabric g w))"
proof -
  obtain r w' where "on_fabric g w = (r, w')" by fastforce
  then show ?thesis using good_step_same [OF assms(1) on_fabric_same [OF _ assms(2)]] by simp
qed

lemma good_step_op:
  assumes inv: "fault_inv w"
  shows "good_step w (fault_step K tmp uid op w)"
proof (cases op)
  case (Set_Fault args)
  then show ?thesis
    using good_step_set_fault [OF inv] good_step_refl [OF inv]
    by (cases "handle_link_set_fault K tmp uid args w") auto
next
  case (Start_Fabric ids)
  have g: "good_step w (activate_initial_faults w)" by (rule good_step_initial [OF inv])
  have "good_step (activate_initial_faults w) (snd (on_fabric
      (\<lambda>k ll. start_links K ids (fabric_nodes (fl_doc ll)) (links (fl_doc ll)) k ll) (activate_initial_faults w)))"
    by (rule good_step_on_fabric [OF good_step_inv [OF g]]) (rule start_links_doc)
  then show ?thesis using Start_Fabric good_step_trans [OF g] good_step_refl [OF inv] by simp
next
  case (Attach_Node nid)
  have "good_step w (snd (on_fabric (attach_fabric_for_node K nid) w))"
    by (rule good_step_on_fabric [OF inv]) (unfold attach_fabric_for_node_def, rule attach_node_links_doc)
  then show ?thesis using Attach_Node good_step_refl [OF inv] by simp
next
  case (Stop_Node nid)
  then show ?thesis
    using good_step_fold [OF inv good_step_cancel] by (simp add: cancel_fault_timers_for_node_def)
next
  case (Teardown ids)
  then show ?thesis using good_step_fold [OF inv good_step_teardown] by simp
next
  case Unload
  then show ?thesis using inv by (simp add: good_step_def evolves_def fault_inv_def)
qed (use inv good_step_fire good_step_run good_step_remove good_step_refl in auto)

abbreviation fault_run :: "'k kernel \<Rightarrow> string \<Rightarrow> int \<Rightarrow> fault_op list \<Rightarrow> 'k fault_world \<Rightarrow> 'k fault_world" where
  "fault_run K tmp uid \<equiv> fold (fault_step K tmp uid)"

lemma good_step_run_ops: "fault_inv w \<Longrightarrow> good_step w (fault_run K tmp uid ops w)"
  by (rule good_step_fold) (auto intro: good_step_op)

lemma initial_faults_other: "initial_faults ls m p = (m', n) \<Longrightarrow> i \<notin> link_id ` set ls \<Longrightarrow> m' i = m i"
  by (induction ls arbitrary: m p) (auto split: option.splits)

lemma initial_faults_timers: "initial_faults ls m p = (m', n) \<Longrightarrow> timers_ok m [] p \<Longrightarrow> timers_ok m' [] n"
proof (induction ls arbitrary: m p)
  case (Cons l ls)
  show ?case
  proof (cases "link_fault_def l")
    case None
    then show ?thesis using Cons by simp
  next
    case (Some f)
    let ?g = "\<lparr> af_fault = Some (p, f), af_active = False, af_timer = None \<rparr>"
    have fresh: "\<not> holds_fault p (m j)" for j
      using timers_okD(1) [OF Cons.prems(2), of j] by (cases "m j") (auto simp: holds_fault_Some)
    have "timers_ok (m(link_id l \<mapsto> ?g)) [] (p + 1)"
      by (rule timers_ok_new [OF Cons.prems(2), of _ p f]) (use fresh in auto)
    then show ?thesis using Cons Some by simp
  qed
qed simp

lemma initial_faults_doc:
  assumes "initial_faults ls m p = (m', n)" and "distinct (map link_id ls)"
    and "\<forall>l \<in> set ls. m (link_id l) = None"
  shows "\<forall>l \<in> set ls. link_fault_def l = Option.bind (m' (link_id l)) (\<lambda>f. map_option snd (af_fault f))"
  using assms
proof (induction ls arbitrary: m p)
  case (Cons l ls)
  let ?m = "case link_fault_def l of None \<Rightarrow> m
    | Some f \<Rightarrow> m(link_id l \<mapsto> \<lparr> af_fault = Some (p, f), af_active = False, af_timer = None \<rparr>)"
  obtain p' where run: "initial_faults ls ?m p' = (m', n)"
    using Cons.prems(1) by (cases "link_fault_def l") auto
  have nin: "link_id l \<notin> link_id ` set ls" using Cons.prems(2) by simp
  then have "m' (link_id l) = ?m (link_id l)" by (rule initial_faults_other [OF run])
  then have "link_fault_def l = Option.bind (m' (link_id l)) (\<lambda>f. map_option snd (af_fault f))"
    using Cons.prems(3) by (cases "link_fault_def l") simp_all
  moreover have "\<forall>k \<in> set ls. ?m (link_id k) = None"
    using Cons.prems(3) nin by (cases "link_fault_def l") (auto simp: image_iff)
  ultimately show ?case using Cons.IH [OF run] Cons.prems(2) by simp
qed simp

lemma fault_inv_load:
  assumes "distinct (map link_id (links (fl_doc ll)))"
  shows "fault_inv (load_faults k ll)"
proof -
  obtain m n where i: "initial_faults (links (fl_doc ll)) Map.empty 0 = (m, n)" by fastforce
  have "timers_ok m [] n" by (rule initial_faults_timers [OF i]) (simp add: timers_ok_def pending_def)
  moreover have "doc_ok m (links (fl_doc ll))"
    unfolding doc_ok_def
  proof (intro conjI)
    show "\<forall>j. m j \<noteq> None \<longrightarrow> j \<in> link_id ` set (links (fl_doc ll))"
      using initial_faults_other [OF i] by (metis)
    show "\<forall>l \<in> set (links (fl_doc ll)). link_fault_def l = Option.bind (m (link_id l)) (\<lambda>f. map_option snd (af_fault f))"
      by (rule initial_faults_doc [OF i assms]) simp
  qed (rule assms)
  ultimately show ?thesis using i by (simp add: fault_inv_def load_faults_def)
qed

lemma run_callback_stale:
  assumes "\<not> holds_fault (call_ptr c) (faults_of w (call_link c))"
  shows "run_callback K foreign c w = w"
  using assms by (cases c) (simp_all add: run_callback_def activate_callback_def expire_callback_def)

text \<open>C39. Across every history of link.setFault requests, timer firings, callbacks, link removals, node
  stops, fabric starts, teardowns and unloads, the fault definition in the document of each link is
  the runtime one, and an armed timer either is the one its fault records or has a callback that
  does nothing.  The histories have no link.add, no node.remove and no adoption by lab.load, which
  change links of the document without the runtime faults.\<close>

theorem fault_state_consistent:
  assumes "distinct (map link_id (links (fl_doc ll)))"
    and "w = fault_run K tmp uid ops (load_faults k ll)"
  shows "(\<forall>l \<in> set (links (fl_doc (fw_lab w))).
            link_fault_def l = Option.bind (faults_of w (link_id l)) (\<lambda>f. map_option snd (af_fault f))) \<and>
    (\<forall>t c. t < length (fw_timers w) \<and> fw_timers w ! t = (c, Armed) \<longrightarrow>
       (\<exists>f. faults_of w (call_link c) = Some f \<and> af_timer f = Some t) \<or>
       (\<forall>foreign. run_callback K foreign c w = w))"
proof -
  have inv: "fault_inv w"
    using good_step_inv [OF good_step_run_ops [OF fault_inv_load [OF assms(1)]]] assms(2) by simp
  then have ok: "timers_ok (faults_of w) (fw_timers w) (fw_next w)" by (simp add: fault_inv_def)
  have "(\<exists>f. faults_of w (call_link c) = Some f \<and> af_timer f = Some t) \<or> (\<forall>foreign. run_callback K foreign c w = w)"
    if t: "t < length (fw_timers w)" and c: "fw_timers w ! t = (c, Armed)" for t c
  proof (cases "holds_fault (call_ptr c) (faults_of w (call_link c))")
    case True
    then obtain f where f: "faults_of w (call_link c) = Some f" by (cases "faults_of w (call_link c)") auto
    have "af_timer f = Some t" by (rule timers_okD(6) [OF ok t _ _ f]) (use c True in simp_all)
    then show ?thesis using f by blast
  qed (simp add: run_callback_stale)
  then show ?thesis using inv by (simp add: fault_inv_def doc_ok_def)
qed

text \<open>A successful edit leaves the link without a fault or with one whose pointer is new.\<close>

lemma deact_schedule_holds [simp]:
  "holds_fault q (faults_of (schedule_fault_expiry i p d w) j) = holds_fault q (faults_of w j)"
  "holds_fault q (faults_of (schedule_fault_activation i p s w) j) = holds_fault q (faults_of w j)"
  by (auto simp: schedule_fault_expiry_def schedule_fault_activation_def arm_timer_def Let_def holds_fault_def)

lemma success_replaces_pointer:
  assumes inv: "fault_inv w" and eq: "handle_link_set_fault K tmp uid args w = (Inr out, w')"
    and "holds_fault p (faults_of w' (fa_link args))"
  shows "fw_next w \<le> p"
proof -
  obtain l where l: "find_link (fw_lab w) (fa_link args) = Some l" and r: "replace_fault K args l w = (Inr out, w')"
    using eq by (auto simp: handle_link_set_fault_def split: option.splits if_splits)
  have i: "link_id l = fa_link args" using find_link_mem [OF l] by simp
  show ?thesis
    using r assms(3) i
    by (auto simp: replace_fault_def install_fault_def Let_def holds_fault_Some same_faults_def
        dest!: on_fabric_apply split: prod.splits option.splits if_splits)
qed

text \<open>C40. Once link.set_fault succeeds, every timer armed earlier for that link is harmless in every
  later state, fired or not: its callback changes nothing.\<close>

theorem stale_timers_harmless:
  assumes "distinct (map link_id (links (fl_doc ll)))"
    and "w = fault_run K tmp uid before (load_faults k ll)"
    and "handle_link_set_fault K tmp uid args w = (Inr out, w')"
    and "t < length (fw_timers w)" and "call_link (fst (fw_timers w ! t)) = fa_link args"
    and "w'' = fault_run K tmp uid after w'"
  shows "run_callback K foreign (fst (fw_timers w'' ! t)) w'' = w''"
proof -
  let ?c = "fst (fw_timers w ! t)"
  have inv: "fault_inv w"
    using good_step_inv [OF good_step_run_ops [OF fault_inv_load [OF assms(1)]]] assms(2) by simp
  have ok: "timers_ok (faults_of w) (fw_timers w) (fw_next w)" using inv by (simp add: fault_inv_def)
  have g': "good_step w w'" by (rule good_step_set_fault [OF inv assms(3)])
  have g'': "good_step w' w''" using good_step_run_ops [OF good_step_inv [OF g']] assms(6) by simp
  have old: "call_ptr ?c < fw_next w" by (rule timers_okD(3) [OF ok assms(4)])
  have "\<not> holds_fault (call_ptr ?c) (faults_of w' (fa_link args))"
    using success_replaces_pointer [OF inv assms(3)] old leD by blast
  then have gone: "\<not> holds_fault (call_ptr ?c) (faults_of w'' (call_link ?c))"
    using g'' g' old assms(5) by (fastforce simp: good_step_def evolves_def)
  obtain cs where "map fst (fw_timers w'') = map fst (fw_timers w) @ cs"
    using evolves_trans [of w w' w''] g' g'' by (auto simp: good_step_def evolves_def)
  note cs = this
  have len: "t < length (fw_timers w'')" using arg_cong [OF cs, of length] assms(4) by simp
  have "map fst (fw_timers w'') ! t = map fst (fw_timers w) ! t" unfolding cs using assms(4) by (simp add: nth_append)
  then have "fst (fw_timers w'' ! t) = ?c" using len assms(4) by simp
  then show ?thesis using gone run_callback_stale by simp
qed

section \<open>A concrete lab, and what the handlers lose\<close>

definition five_percent :: fault_args where
  "five_percent = \<lparr> fa_link = 0, fa_fault = Some one_way_loss, fa_after = 5, fa_for = 0 \<rparr>"

definition pc_world :: "toy fault_world" where
  "pc_world = load_faults (pc_toy []) (pc_lab ''iolbr0'' ''iolbr0'')"

lemma pc_world_simps:
  "fw_lab pc_world = pc_lab ''iolbr0'' ''iolbr0''" "fw_timers pc_world = []" "fw_next pc_world = 0"
  "fw_current pc_world" "fw_events pc_world = []"
  by (simp_all add: pc_world_def load_faults_def pc_lab_def pc_link_def)

lemma pc_link_found: "find_link (pc_lab b c) 0 = Some pc_link"
  by (simp add: find_link_def pc_lab_def pc_link_def)

lemma pc_fabric_nodes: "fabric_nodes (fl_doc (pc_lab b c)) = {1, 2}"
proof -
  have "{n \<in> set (nodes (fl_doc (pc_lab b c))). node_kind n \<in> {KindIOL, KindNAT, KindVPCS, KindTool, KindPC}} =
      {pc_node 1, pc_node 2}"
    by (auto simp: pc_lab_def pc_node_def)
  then show ?thesis by (simp only: fabric_nodes_def) (simp add: pc_node_def)
qed

lemma pc_supported: "link_fault_supported tmp uid (pc_lab b c) pc_link"
  by (simp add: link_fault_supported_def Let_def is_fabric_link_def pc_fabric_nodes find_node_def pc_link_def)
    (simp add: pc_lab_def pc_link_def pc_node_def)

lemma pc_link_simps: "length (endpoints pc_link) = 2" "link_id pc_link = 0" "link_fault_def pc_link = None"
  by (simp_all add: pc_link_def)

lemma one_way_loss_valid: "validate_link_fault (Some one_way_loss) 2 = None"
  by code_simp

lemma five_percent_scheduled:
  "\<exists>out w'. handle_link_set_fault toy_kernel tmp uid five_percent pc_world = (Inr out, w') \<and>
     fw_timers w' = [(Activate_Fault 0 1 0, Armed)] \<and>
     fw_lab w' = (pc_lab ''iolbr0'' ''iolbr0'') \<lparr> fl_doc := (fl_doc (pc_lab ''iolbr0'' ''iolbr0''))
       \<lparr> links := [pc_link \<lparr> link_fault_def := Some one_way_loss \<rparr>] \<rparr>,
       fl_faults := [0 \<mapsto> \<lparr> af_fault = Some (1, one_way_loss), af_active = False, af_timer = Some 0 \<rparr>] \<rparr> \<and>
     fw_current w' \<and> fw_next w' = 2"
  by (simp add: handle_link_set_fault_def five_percent_def pc_world_simps pc_link_found pc_supported
      pc_link_simps one_way_loss_valid)
    (simp add: replace_fault_def install_fault_def clone_fault_def was_active_def Let_def cancel_fault_timer_def
      put_fault_def set_link_fault_def schedule_fault_activation_def arm_timer_def holds_fault_def pc_world_simps
      pc_lab_def pc_link_def)

lemma pc_world_run:
  assumes "handle_link_set_fault toy_kernel [] 0 five_percent pc_world = (Inr out, w)"
  shows "w = fault_run toy_kernel [] 0 [Set_Fault five_percent]
    (load_faults (pc_toy []) (pc_lab ''iolbr0'' ''iolbr0''))"
  using assms by (simp add: pc_world_def [symmetric] pc_world_simps)

lemma pc_lab_distinct: "distinct (map link_id (links (fl_doc (pc_lab b c))))"
  by (simp add: pc_lab_def)

lemma fault_state_consistent_witness:
  "case handle_link_set_fault toy_kernel [] 0 five_percent pc_world of (r, w) \<Rightarrow>
     Option.bind (faults_of w 0) (\<lambda>f. map_option snd (af_fault f)) = Some one_way_loss"
proof -
  obtain out w where h: "handle_link_set_fault toy_kernel [] 0 five_percent pc_world = (Inr out, w)"
    and w: "fw_lab w = (pc_lab ''iolbr0'' ''iolbr0'') \<lparr> fl_doc := (fl_doc (pc_lab ''iolbr0'' ''iolbr0''))
       \<lparr> links := [pc_link \<lparr> link_fault_def := Some one_way_loss \<rparr>] \<rparr>,
       fl_faults := [0 \<mapsto> \<lparr> af_fault = Some (1, one_way_loss), af_active = False, af_timer = Some 0 \<rparr>] \<rparr>"
    using five_percent_scheduled [of "[]" 0] by blast
  show ?thesis
    using fault_state_consistent [OF pc_lab_distinct pc_world_run [OF h]] h w by (simp add: pc_link_simps)
qed

definition no_fault :: fault_args where
  "no_fault = \<lparr> fa_link = 0, fa_fault = None, fa_after = 0, fa_for = 0 \<rparr>"

lemma no_fault_clears:
  assumes "fw_lab w = (pc_lab b c) \<lparr> fl_doc := (fl_doc (pc_lab b c)) \<lparr> links := [pc_link \<lparr> link_fault_def := Some v \<rparr>] \<rparr>,
       fl_faults := [0 \<mapsto> \<lparr> af_fault = Some (p, v), af_active = False, af_timer = Some t \<rparr>] \<rparr>"
  shows "\<exists>out w'. handle_link_set_fault toy_kernel tmp uid no_fault w = (Inr out, w')"
proof -
  have nodes: "fabric_nodes (fl_doc (fw_lab w)) = {1, 2}"
    using pc_fabric_nodes [of b c] by (simp add: assms fabric_nodes_def)
  have sup: "link_fault_supported tmp uid (fw_lab w) (pc_link \<lparr> link_fault_def := Some v \<rparr>)"
    unfolding link_fault_supported_def nodes
    by (simp add: Let_def is_fabric_link_def find_node_def pc_link_def assms) (simp add: pc_lab_def pc_node_def)
  have fl: "find_link (fw_lab w) 0 = Some (pc_link \<lparr> link_fault_def := Some v \<rparr>)"
    by (simp add: assms find_link_def pc_link_def)
  show ?thesis
    by (simp add: handle_link_set_fault_def no_fault_def fl sup validate_link_fault_def)
      (simp add: replace_fault_def clone_fault_def was_active_def assms Let_def pc_link_simps)
qed

lemma stale_timers_harmless_witness:
  "\<exists>w w'. (\<exists>out. handle_link_set_fault toy_kernel [] 0 five_percent pc_world = (Inr out, w)) \<and>
     (\<exists>out. handle_link_set_fault toy_kernel [] 0 no_fault w = (Inr out, w')) \<and>
     fst (fw_timers w ! 0) = Activate_Fault 0 1 0 \<and>
     run_callback toy_kernel False (fst (fw_timers w' ! 0)) w' = w'"
proof -
  obtain out w where h: "handle_link_set_fault toy_kernel [] 0 five_percent pc_world = (Inr out, w)"
    and t: "fw_timers w = [(Activate_Fault 0 1 0, Armed)]"
    and w: "fw_lab w = (pc_lab ''iolbr0'' ''iolbr0'') \<lparr> fl_doc := (fl_doc (pc_lab ''iolbr0'' ''iolbr0''))
       \<lparr> links := [pc_link \<lparr> link_fault_def := Some one_way_loss \<rparr>] \<rparr>,
       fl_faults := [0 \<mapsto> \<lparr> af_fault = Some (1, one_way_loss), af_active = False, af_timer = Some 0 \<rparr>] \<rparr>"
    using five_percent_scheduled [of "[]" 0] by blast
  obtain out' w' where h': "handle_link_set_fault toy_kernel [] 0 no_fault w = (Inr out', w')"
    using no_fault_clears [OF w] by blast
  have "run_callback toy_kernel False (fst (fw_timers w' ! 0)) w' = w'"
    by (rule stale_timers_harmless [OF pc_lab_distinct pc_world_run [OF h] h', of 0 w' "[]"])
      (use t in \<open>simp_all add: no_fault_def\<close>)
  then show ?thesis using h h' t by auto
qed

lemma faults_of_apply [simp]: "faults_of (snd (on_fabric (apply_active_fault K l) v)) = faults_of v"
  by (cases "on_fabric (apply_active_fault K l) v") (auto simp: same_faults_def dest: on_fabric_apply)

lemma halt_fired: "ts ! t = (c, Fired) \<Longrightarrow> halt u ts ! t = (c, Fired) \<and> length (halt u ts) = length ts"
  by (cases "u = t") (auto simp: halt_def)

text \<open>A failed edit puts the definition back and loses its schedule: no timer is recorded for the
  link, and none that is armed for it does anything any more.\<close>

theorem failed_edit_drops_schedule:
  assumes "distinct (map link_id (links (fl_doc ll)))"
    and "w = fault_run K tmp uid before (load_faults k ll)"
    and "handle_link_set_fault K tmp uid args w = (Inl (Fabric_Error e), w')"
  shows "map_option (\<lambda>f. map_option snd (af_fault f)) (faults_of w' (fa_link args)) =
           map_option (\<lambda>f. map_option snd (af_fault f)) (faults_of w (fa_link args)) \<and>
         Option.bind (faults_of w' (fa_link args)) af_timer = None"
proof -
  obtain l where l: "find_link (fw_lab w) (fa_link args) = Some l" and r: "replace_fault K args l w = (Inl (Fabric_Error e), w')"
    using assms(3) by (auto simp: handle_link_set_fault_def split: option.splits if_splits)
  have i: "link_id l = fa_link args" using find_link_mem [OF l] by simp
  have clone: "map_option (\<lambda>f. map_option snd (af_fault f)) (clone_fault p x) = map_option (\<lambda>f. map_option snd (af_fault f)) x"
    "Option.bind (clone_fault p x) af_timer = None" for p x
    by (cases x; auto simp: clone_fault_def option.map_comp comp_def split_beta)+
  have cancel: "map_option (\<lambda>f. map_option snd (af_fault f)) (faults_of (cancel_fault_timer j v) j) =
      map_option (\<lambda>f. map_option snd (af_fault f)) (faults_of v j)"
    "Option.bind (faults_of (cancel_fault_timer j v) j) af_timer = None" for j and v :: "'a fault_world"
    by (cases "faults_of v j"; auto simp: cancel_fault_timer_def split: option.splits)+
  show ?thesis
    using r i
    by (auto simp: replace_fault_def install_fault_def Let_def same_faults_def clone cancel
        dest!: on_fabric_apply on_fabric_clear split: prod.splits option.splits if_splits)
qed

text \<open>Stopping a node cancels the timers of its links but not a callback that is already on its way:
  a fault whose activation timer has fired still becomes active on the stopped node's link.\<close>

theorem late_callback_survives_stop:
  assumes "fw_current w" and "t < length (fw_timers w)" and "fw_timers w ! t = (Activate_Fault i p s, Fired)"
    and "holds_fault p (faults_of w i)"
  shows "\<exists>v. fault_step K tmp uid (Callback False t) (fault_step K tmp uid (Stop_Node nid) w) =
      activate_callback K False i p s v \<and> holds_fault p (faults_of v i) \<and> fw_current v"
proof -
  have keep: "fw_timers (cancel_fault_timer j v) ! t = (Activate_Fault i p s, Fired) \<and> t < length (fw_timers (cancel_fault_timer j v))
      \<and> holds_fault p (faults_of (cancel_fault_timer j v) i) \<and> fw_current (cancel_fault_timer j v)"
    if "fw_timers v ! t = (Activate_Fault i p s, Fired) \<and> t < length (fw_timers v) \<and> holds_fault p (faults_of v i) \<and> fw_current v"
    for j and v :: "'a fault_world"
    using that holds_fault_cancel [of p j v i]
    by (auto simp: cancel_fault_timer_def halt_fired split: option.splits)
  have "fw_timers (fold cancel_fault_timer js v) ! t = (Activate_Fault i p s, Fired) \<and> t < length (fw_timers (fold cancel_fault_timer js v))
      \<and> holds_fault p (faults_of (fold cancel_fault_timer js v) i) \<and> fw_current (fold cancel_fault_timer js v)"
    if "fw_timers v ! t = (Activate_Fault i p s, Fired) \<and> t < length (fw_timers v) \<and> holds_fault p (faults_of v i) \<and> fw_current v"
    for js and v :: "'a fault_world"
    using that by (induction js arbitrary: v) (use keep in auto)
  note K = this [of w]
  show ?thesis
    using K assms
    by (auto simp: cancel_fault_timers_for_node_def run_timer_def run_callback_def intro!: exI)
qed

text \<open>link.add writes the document and not the runtime faults, so the two can part.\<close>

theorem link_add_parts_document:
  assumes "fault_inv w" and "link_id l \<in> link_id ` set (links (fl_doc (fw_lab w)))"
    and "link_fault_def l \<noteq> Option.bind (faults_of w (link_id l)) (\<lambda>f. map_option snd (af_fault f))"
  shows "\<not> fault_inv (link_add_doc l w)"
proof -
  have "l \<in> set (upsert_link l ls)" for ls by (induction ls) auto
  then show ?thesis
    using assms(3) by (auto simp: fault_inv_def doc_ok_def link_add_doc_def)
qed

end
