(* ===== verification/Node_Machine.thy ===== *)
theory Node_Machine
  imports Netmap
begin

text \<open>
  Package internal/node without its console: the lifecycle state machine (state.go),
  the argument vectors of the spawned processes (argv.go), and the interplay of one
  node's machine with the processes spawned for it over time (spawn_linux.go: Spawn,
  Stop, wait).  Control verbs are serialised by the server's labMu, so of two handlers
  one runs first; the goroutine that reaps a process interleaves with them freely, between
  any two of their steps, and the three second bound of Stop may expire at any time.
\<close>

section \<open>state.go\<close>

datatype nstate = StateStopped | StateStarting | StateRunning | StateCrashed

definition valid_transitions :: "nstate \<Rightarrow> nstate set" where
  "valid_transitions s =
     (case s of
        StateStopped \<Rightarrow> {StateStarting}
      | StateStarting \<Rightarrow> {StateRunning, StateCrashed, StateStopped}
      | StateRunning \<Rightarrow> {StateStopped, StateCrashed}
      | StateCrashed \<Rightarrow> {StateStarting, StateStopped})"

definition can_transition :: "nstate \<Rightarrow> nstate \<Rightarrow> bool" where
  "can_transition from_state to_state \<longleftrightarrow> to_state \<in> valid_transitions from_state"

text \<open>The callback of an accepted transition is the list of the states entered, newest first.\<close>

record machine =
  mstate :: nstate
  entered :: "nstate list"

definition new_machine :: machine where
  "new_machine = \<lparr> mstate = StateStopped, entered = [] \<rparr>"

definition machine_to :: "nstate \<Rightarrow> machine \<Rightarrow> bool \<times> machine" where
  "machine_to st m =
     (if \<not> can_transition (mstate m) st then (False, m)
      else (True, m\<lparr>mstate := st, entered := st # entered m\<rparr>))"

definition reap_decision :: "bool \<Rightarrow> bool \<Rightarrow> nstate option" where
  "reap_decision explicitly_stopped wait_err =
     (if explicitly_stopped then None
      else if wait_err then Some StateCrashed
      else Some StateStopped)"

section \<open>argv.go\<close>

record spec =
  spec_node_id :: int
  image_path :: string
  work_dir :: string
  spec_ethernet :: int
  spec_serial :: int
  spec_ram :: int
  console_port :: int
  nvram_kib :: int
  vpcs_count :: int
  vpcs_udp_local :: int
  vpcs_udp_remote :: int

definition min_iol_ram_mb :: int where
  "min_iol_ram_mb = 1024"

definition iol_ram_for :: "int \<Rightarrow> string \<Rightarrow> int" where
  "iol_ram_for ram cls =
     (let floor_mb = (if cls = ''l2'' then min_iol_ram_mb
                      else if cls = ''l3'' then min_iol_ram_mb else min_iol_ram_mb)
      in if ram < floor_mb then floor_mb else ram)"

definition default_nvram_kib :: int where
  "default_nvram_kib = 64"

definition iol_argv :: "spec \<Rightarrow> string list" where
  "iol_argv s = [image_path s]
     @ (if spec_ethernet s > 0 then [''-e'', itoa (spec_ethernet s)] else [])
     @ (if spec_serial s > 0 then [''-s'', itoa (spec_serial s)] else [])
     @ (if spec_ram s > 0 then [''-m'', itoa (spec_ram s)] else [])
     @ [''-n'', itoa (if nvram_kib s \<le> 0 then default_nvram_kib else nvram_kib s)]
     @ [itoa (instance_id (spec_node_id s))]"

text \<open>Go's integer division rounds towards zero; the operand is never negative here.\<close>

definition nvram_kib_for :: "nat \<Rightarrow> int" where
  "nvram_kib_for config_len =
     (let need = (int config_len + 1023) div 1024 + default_nvram_kib
      in if need < default_nvram_kib then default_nvram_kib else need)"

definition node_environ :: "spec \<Rightarrow> string list" where
  "node_environ s = [''IOURC='' @ work_dir s @ ''/iourc'']"

definition hex_digit :: "nat \<Rightarrow> char" where
  "hex_digit d = ''0123456789abcdef'' ! d"

definition vpcs_mac :: "int \<Rightarrow> int \<Rightarrow> string" where
  "vpcs_mac node_id pc_index =
     (let b = nat ((node_id + pc_index) AND 255)
      in ''00:50:79:66:68:'' @ [hex_digit (b div 16), hex_digit (b mod 16)])"

datatype vpcs_error = VPCSCountRange int | VPCSConsolePort int

definition vpcs_argv :: "spec \<Rightarrow> (vpcs_error, string list) result" where
  "vpcs_argv s =
     (if vpcs_count s < 1 \<or> vpcs_count s > 9 then Inl (VPCSCountRange (vpcs_count s))
      else if console_port s \<le> 0 \<or> console_port s > 65535 then Inl (VPCSConsolePort (console_port s))
      else Inr ([''vpcs'', ''-p'', itoa (console_port s), ''-i'', itoa (vpcs_count s),
                 ''-m'', itoa (spec_node_id s)]
        @ (if vpcs_udp_local s > 0 \<and> vpcs_udp_remote s > 0
           then [''-s'', itoa (vpcs_udp_local s), ''-c'', itoa (vpcs_udp_remote s), ''-t'', ''127.0.0.1'']
           else [])))"

section \<open>One machine, many processes (spawn_linux.go)\<close>

text \<open>How far the exit waiter of an IOL process (Process.wait) has come: the child runs; Wait has
  returned with or without an error; the stopped flag has been read (error, flag); the machine
  has been moved or left alone; the console has been torn down; waitDone is closed.\<close>

datatype phase = Alive | Exited bool | Judged bool bool | Moved | Closed | Reaped

text \<open>A process: its stopped flag, its waiter, and whether it still holds the console listener.\<close>

record process =
  stopped :: bool
  phase :: phase
  console :: bool

text \<open>How far a running Stop call has come: the flag is set; the machine is stopped; the child
  is killed and the console torn down, and Stop waits for waitDone.\<close>

datatype stop_stage = Marked | Halted | Killed

text \<open>The node's runtime record: its machine, every process ever spawned for it (oldest
  first), whether the runtime still holds a process (then the newest), the process a running
  Stop call is about, and the processes whose Stop gave up waiting.\<close>

record life =
  mach :: machine
  procs :: "process list"
  held :: bool
  stopping :: "(nat \<times> stop_stage) option"
  gave_up :: "nat list"

definition fresh_process :: process where
  "fresh_process = \<lparr> stopped = False, phase = Alive, console = True \<rparr>"

definition upd_proc :: "nat \<Rightarrow> (process \<Rightarrow> process) \<Rightarrow> life \<Rightarrow> life" where
  "upd_proc i f s = s\<lparr>procs := (procs s)[i := f (procs s ! i)]\<rparr>"

definition newest :: "life \<Rightarrow> nat" where
  "newest s = length (procs s) - 1"

text \<open>A start request reaches Spawn when no Stop runs and the runtime holds no process that is
  starting or running; it has dropped the process it held.\<close>

definition may_spawn :: "life \<Rightarrow> bool" where
  "may_spawn s \<longleftrightarrow> stopping s = None \<and> \<not> (held s \<and> mstate (mach s) \<in> {StateStarting, StateRunning})"

definition port_free :: "life \<Rightarrow> bool" where
  "port_free s \<longleftrightarrow> list_all (\<lambda>p. \<not> console p) (procs s)"

text \<open>Spawn binds the console port, moves the machine and starts the child.  It fails before
  the machine moves (the port cannot be bound, the machine is not startable), or when the child
  does not start.\<close>

definition spawn_ok :: "life \<Rightarrow> life option" where
  "spawn_ok s =
     (if \<not> may_spawn s \<or> \<not> port_free s then None
      else case machine_to StateStarting (mach s) of
        (False, _) \<Rightarrow> None
      | (True, m) \<Rightarrow> Some (s\<lparr>mach := m, procs := procs s @ [fresh_process], held := True\<rparr>))"

definition spawn_fail :: "life \<Rightarrow> life option" where
  "spawn_fail s =
     (if \<not> may_spawn s \<or> \<not> port_free s then None
      else case machine_to StateStarting (mach s) of
        (False, _) \<Rightarrow> None
      | (True, m) \<Rightarrow> Some (s\<lparr>mach := snd (machine_to StateCrashed m), held := False\<rparr>))"

definition spawn_refused :: "life \<Rightarrow> life option" where
  "spawn_refused s = (if \<not> may_spawn s then None else Some (s\<lparr>held := False\<rparr>))"

definition promote :: "life \<Rightarrow> life option" where
  "promote s =
     (if stopping s \<noteq> None \<or> \<not> held s then None
      else case machine_to StateRunning (mach s) of
        (False, _) \<Rightarrow> None
      | (True, m) \<Rightarrow> Some (s\<lparr>mach := m\<rparr>))"

text \<open>Stop: mark the process, move the machine, kill and tear down, then wait for the waiter,
  at most three seconds.  A runtime that holds no process only has its machine moved.\<close>

definition stop_mark :: "life \<Rightarrow> life option" where
  "stop_mark s =
     (if stopping s \<noteq> None then None
      else if \<not> held s then Some (s\<lparr>mach := snd (machine_to StateStopped (mach s))\<rparr>)
      else Some ((upd_proc (newest s) (\<lambda>p. p\<lparr>stopped := True\<rparr>) s)\<lparr>stopping := Some (newest s, Marked)\<rparr>))"

definition stop_halt :: "life \<Rightarrow> life option" where
  "stop_halt s =
     (case stopping s of
        Some (i, Marked) \<Rightarrow> Some (s\<lparr>mach := snd (machine_to StateStopped (mach s)), stopping := Some (i, Halted)\<rparr>)
      | _ \<Rightarrow> None)"

definition stop_kill :: "life \<Rightarrow> life option" where
  "stop_kill s =
     (case stopping s of
        Some (i, Halted) \<Rightarrow> Some ((upd_proc i (\<lambda>p. p\<lparr>console := False\<rparr>) s)\<lparr>stopping := Some (i, Killed)\<rparr>)
      | _ \<Rightarrow> None)"

definition stop_end :: "bool \<Rightarrow> life \<Rightarrow> life option" where
  "stop_end timed_out s =
     (case stopping s of
        Some (i, Killed) \<Rightarrow>
          if phase (procs s ! i) = Reaped then Some (s\<lparr>held := False, stopping := None\<rparr>)
          else if timed_out then Some (s\<lparr>held := False, stopping := None, gave_up := i # gave_up s\<rparr>)
          else None
      | _ \<Rightarrow> None)"

text \<open>The child exits; its waiter reads the flag, decides and moves the machine, tears the
  console down, signals waitDone.\<close>

definition exit_process :: "nat \<Rightarrow> bool \<Rightarrow> life \<Rightarrow> life option" where
  "exit_process i err s =
     (if i < length (procs s) \<and> phase (procs s ! i) = Alive
      then Some (upd_proc i (\<lambda>p. p\<lparr>phase := Exited err\<rparr>) s) else None)"

definition wait_read :: "nat \<Rightarrow> life \<Rightarrow> life option" where
  "wait_read i s =
     (if i < length (procs s) then
        case phase (procs s ! i) of
          Exited err \<Rightarrow> Some (upd_proc i (\<lambda>p. p\<lparr>phase := Judged err (stopped p)\<rparr>) s)
        | _ \<Rightarrow> None
      else None)"

definition wait_move :: "nat \<Rightarrow> life \<Rightarrow> life option" where
  "wait_move i s =
     (if i < length (procs s) then
        case phase (procs s ! i) of
          Judged err flag \<Rightarrow>
            Some ((upd_proc i (\<lambda>p. p\<lparr>phase := Moved\<rparr>) s)
              \<lparr>mach := (case reap_decision flag err of None \<Rightarrow> mach s | Some st \<Rightarrow> snd (machine_to st (mach s)))\<rparr>)
        | _ \<Rightarrow> None
      else None)"

definition wait_teardown :: "nat \<Rightarrow> life \<Rightarrow> life option" where
  "wait_teardown i s =
     (if i < length (procs s) \<and> phase (procs s ! i) = Moved
      then Some (upd_proc i (\<lambda>p. p\<lparr>phase := Closed, console := False\<rparr>) s) else None)"

definition wait_signal :: "nat \<Rightarrow> life \<Rightarrow> life option" where
  "wait_signal i s =
     (if i < length (procs s) \<and> phase (procs s ! i) = Closed
      then Some (upd_proc i (\<lambda>p. p\<lparr>phase := Reaped\<rparr>) s) else None)"

datatype act = Spawn_Ok | Spawn_Fail | Spawn_Refused | Promote
  | Stop_Mark | Stop_Halt | Stop_Kill | Stop_End bool
  | Exit nat bool | Wait_Read nat | Wait_Move nat | Wait_Teardown nat | Wait_Signal nat

fun life_act :: "act \<Rightarrow> life \<Rightarrow> life option" where
  "life_act Spawn_Ok s = spawn_ok s"
| "life_act Spawn_Fail s = spawn_fail s"
| "life_act Spawn_Refused s = spawn_refused s"
| "life_act Promote s = promote s"
| "life_act Stop_Mark s = stop_mark s"
| "life_act Stop_Halt s = stop_halt s"
| "life_act Stop_Kill s = stop_kill s"
| "life_act (Stop_End timed_out) s = stop_end timed_out s"
| "life_act (Exit i err) s = exit_process i err s"
| "life_act (Wait_Read i) s = wait_read i s"
| "life_act (Wait_Move i) s = wait_move i s"
| "life_act (Wait_Teardown i) s = wait_teardown i s"
| "life_act (Wait_Signal i) s = wait_signal i s"

fun life_run :: "act list \<Rightarrow> life \<Rightarrow> life option" where
  "life_run [] s = Some s"
| "life_run (a # as) s = (case life_act a s of None \<Rightarrow> None | Some t \<Rightarrow> life_run as t)"

definition init_life :: life where
  "init_life = \<lparr> mach = new_machine, procs = [], held = False, stopping = None, gave_up = [] \<rparr>"

inductive reachable :: "life \<Rightarrow> bool" where
  reach_init: "reachable init_life"
| reach_step: "reachable s \<Longrightarrow> life_act a s = Some t \<Longrightarrow> reachable t"

lemma reachable_run: "life_run as s = Some t \<Longrightarrow> reachable s \<Longrightarrow> reachable t"
  by (induction as arbitrary: s) (auto split: option.splits intro: reach_step)

section \<open>The invariant\<close>

text \<open>A process that has not been torn down by its waiter holds the console listener, unless
  Stop was called on it; then that Stop still runs or has given up.  Only the newest process
  holds the listener.  A flag read as set stays set.\<close>

definition proc_ok :: "life \<Rightarrow> nat \<Rightarrow> bool" where
  "proc_ok s i \<longleftrightarrow>
     (let p = procs s ! i in
       (phase p \<notin> {Closed, Reaped} \<longrightarrow>
          (if stopped p then (\<exists>st. stopping s = Some (i, st)) \<or> i \<in> set (gave_up s) else console p)) \<and>
       (console p \<longrightarrow> i = newest s))"

definition control_ok :: "life \<Rightarrow> bool" where
  "control_ok s \<longleftrightarrow>
     (held s \<longrightarrow> procs s \<noteq> []) \<and>
     (\<forall>i st. stopping s = Some (i, st) \<longrightarrow>
        procs s \<noteq> [] \<and> i = newest s \<and> stopped (procs s ! i) \<and> (st \<noteq> Marked \<longrightarrow> mstate (mach s) = StateStopped))"

definition life_inv :: "life \<Rightarrow> bool" where
  "life_inv s \<longleftrightarrow> (\<forall>i < length (procs s). proc_ok s i) \<and> control_ok s"

lemma machine_to_stopped [simp]: "mstate (snd (machine_to StateStopped m)) = StateStopped"
  by (cases "mstate m") (auto simp: machine_to_def can_transition_def valid_transitions_def)

lemma reap_keeps_stopped:
  "mstate m = StateStopped \<Longrightarrow> reap_decision flag err = Some st \<Longrightarrow> machine_to st m = (False, m)"
  by (auto simp: reap_decision_def machine_to_def can_transition_def valid_transitions_def split: if_splits)

lemma upd_proc_simps [simp]:
  "length (procs (upd_proc i f s)) = length (procs s)" "mach (upd_proc i f s) = mach s"
  "held (upd_proc i f s) = held s" "stopping (upd_proc i f s) = stopping s"
  "gave_up (upd_proc i f s) = gave_up s" "newest (upd_proc i f s) = newest s"
  by (simp_all add: upd_proc_def newest_def)

lemma procs_upd_proc:
  "j < length (procs s) \<Longrightarrow> procs (upd_proc i f s) ! j = (if j = i then f (procs s ! i) else procs s ! j)"
  by (auto simp: upd_proc_def)

lemma procs_upd_empty [simp]: "procs (upd_proc i f s) = [] \<longleftrightarrow> procs s = []"
  by (simp add: upd_proc_def)

lemma newest_simps [simp]:
  "newest (s\<lparr>mach := m\<rparr>) = newest s" "newest (s\<lparr>held := h\<rparr>) = newest s"
  "newest (s\<lparr>stopping := st\<rparr>) = newest s" "newest (s\<lparr>gave_up := g\<rparr>) = newest s"
  by (simp_all add: newest_def)

lemma inv_init: "life_inv init_life"
  by (simp add: life_inv_def control_ok_def init_life_def)

lemma inv_procD:
  assumes "life_inv s" "i < length (procs s)"
  shows "phase (procs s ! i) \<notin> {Closed, Reaped} \<Longrightarrow> stopped (procs s ! i) \<Longrightarrow>
      (\<exists>st. stopping s = Some (i, st)) \<or> i \<in> set (gave_up s)"
    and "phase (procs s ! i) \<notin> {Closed, Reaped} \<Longrightarrow> \<not> stopped (procs s ! i) \<Longrightarrow> console (procs s ! i)"
    and "console (procs s ! i) \<Longrightarrow> i = newest s"
  using assms by (auto simp: life_inv_def proc_ok_def Let_def)

lemma inv_stopping:
  assumes "life_inv s" "stopping s = Some (i, st)"
  shows "i = newest s" "i < length (procs s)" "stopped (procs s ! i)" "st \<noteq> Marked \<Longrightarrow> mstate (mach s) = StateStopped"
  using assms by (auto simp: life_inv_def control_ok_def newest_def)

lemma inv_spawn_ok:
  assumes "life_inv s" "spawn_ok s = Some t" shows "life_inv t"
proof -
  have st: "stopping s = None" "port_free s"
    and t: "procs t = procs s @ [fresh_process]" "stopping t = None" "gave_up t = gave_up s" "held t"
    using assms(2) by (auto simp: spawn_ok_def may_spawn_def simp del: not_None_eq split: if_splits prod.splits bool.splits)
  have free: "\<not> console (procs s ! i)" if "i < length (procs s)" for i
    using st(2) that by (auto simp: port_free_def list_all_length)
  have "proc_ok t i" if "i < length (procs t)" for i
  proof (cases "i < length (procs s)")
    case True
    then show ?thesis
      using inv_procD(1,2) [OF assms(1) True] free [OF True] st(1) t
      by (auto simp: proc_ok_def Let_def nth_append)
  next
    case False
    then have "i = length (procs s)" using that t(1) by simp
    then show ?thesis by (simp add: proc_ok_def t nth_append fresh_process_def newest_def)
  qed
  then show ?thesis using t by (simp add: life_inv_def control_ok_def)
qed

text \<open>A step that leaves the processes alone keeps what they promise, when it neither ends nor
  moves a Stop.\<close>

lemma inv_control_step:
  assumes "life_inv s" "procs t = procs s" "stopping t = stopping s" "gave_up t = gave_up s"
    and "held t \<longrightarrow> held s" "stopping s = None \<or> mach t = mach s"
  shows "life_inv t"
  using assms by (auto simp: life_inv_def proc_ok_def control_ok_def newest_def Let_def)

lemma inv_spawn_fail: "life_inv s \<Longrightarrow> spawn_fail s = Some t \<Longrightarrow> life_inv t"
  by (erule inv_control_step)
     (auto simp: spawn_fail_def may_spawn_def simp del: not_None_eq split: if_splits prod.splits bool.splits)

lemma inv_spawn_refused: "life_inv s \<Longrightarrow> spawn_refused s = Some t \<Longrightarrow> life_inv t"
  by (erule inv_control_step) (auto simp: spawn_refused_def split: if_splits)

lemma inv_promote: "life_inv s \<Longrightarrow> promote s = Some t \<Longrightarrow> life_inv t"
  by (erule inv_control_step)
     (auto simp: promote_def simp del: not_None_eq split: if_splits prod.splits bool.splits)

lemma inv_stop_mark:
  assumes "life_inv s" "stop_mark s = Some t" shows "life_inv t"
proof (cases "held s")
  case False
  then show ?thesis using assms(2)
    by (intro inv_control_step [OF assms(1)]) (auto simp: stop_mark_def simp del: not_None_eq split: if_splits)
next
  case True
  then have ne: "procs s \<noteq> []" using assms(1) by (auto simp: life_inv_def control_ok_def)
  have t: "t = (upd_proc (newest s) (\<lambda>p. p\<lparr>stopped := True\<rparr>) s)\<lparr>stopping := Some (newest s, Marked)\<rparr>"
    and none: "stopping s = None"
    using assms(2) True by (auto simp: stop_mark_def simp del: not_None_eq split: if_splits)
  have "proc_ok t i" if "i < length (procs t)" for i
  proof -
    have i: "i < length (procs s)" using that by (simp add: t)
    show ?thesis
      using inv_procD [OF assms(1) i] none
      by (cases "i = newest s") (use i in \<open>auto simp: proc_ok_def t procs_upd_proc Let_def\<close>)
  qed
  moreover have "newest s < length (procs s)" using ne by (simp add: newest_def)
  ultimately show ?thesis using ne by (auto simp: life_inv_def control_ok_def t procs_upd_proc)
qed

lemma inv_stop_halt:
  assumes "life_inv s" "stop_halt s = Some t" shows "life_inv t"
proof -
  obtain i where i: "stopping s = Some (i, Marked)"
    and t: "t = s\<lparr>mach := snd (machine_to StateStopped (mach s)), stopping := Some (i, Halted)\<rparr>"
    using assms(2) by (auto simp: stop_halt_def split: option.splits stop_stage.splits)
  show ?thesis using assms(1) i by (auto simp: life_inv_def proc_ok_def control_ok_def t newest_def Let_def)
qed

lemma inv_stop_kill:
  assumes "life_inv s" "stop_kill s = Some t" shows "life_inv t"
proof -
  obtain i where i: "stopping s = Some (i, Halted)"
    and t: "t = (upd_proc i (\<lambda>p. p\<lparr>console := False\<rparr>) s)\<lparr>stopping := Some (i, Killed)\<rparr>"
    using assms(2) by (auto simp: stop_kill_def split: option.splits stop_stage.splits)
  note st = inv_stopping [OF assms(1) i]
  have "proc_ok t j" if "j < length (procs t)" for j
    using inv_procD [OF assms(1), of j] that st(3) i
    by (auto simp: proc_ok_def t procs_upd_proc Let_def)
  then show ?thesis using st by (auto simp: life_inv_def control_ok_def t procs_upd_proc)
qed

lemma inv_stop_end:
  assumes "life_inv s" "stop_end b s = Some t" shows "life_inv t"
proof -
  obtain i where i: "stopping s = Some (i, Killed)"
    and t: "procs t = procs s" "stopping t = None" "\<not> held t"
      "phase (procs s ! i) = Reaped \<and> gave_up t = gave_up s \<or> gave_up t = i # gave_up s"
    using assms(2) by (auto simp: stop_end_def split: option.splits stop_stage.splits if_splits)
  have "proc_ok t j" if "j < length (procs t)" for j
    using inv_procD [OF assms(1), of j] that i t by (auto simp: proc_ok_def newest_def Let_def)
  then show ?thesis using t by (simp add: life_inv_def control_ok_def)
qed

text \<open>A step of a waiter: its own process keeps its flag and either its listener or, torn down,
  nothing; the machine is left alone once a Stop has halted it.\<close>

lemma inv_waiter_step:
  assumes inv: "life_inv s" and i: "i < length (procs s)"
    and f: "stopped (f (procs s ! i)) = stopped (procs s ! i)"
      "phase (procs s ! i) \<in> {Closed, Reaped} \<longrightarrow> phase (f (procs s ! i)) \<in> {Closed, Reaped}"
      "phase (f (procs s ! i)) \<in> {Closed, Reaped} \<or> console (f (procs s ! i)) = console (procs s ! i)"
      "console (f (procs s ! i)) \<longrightarrow> console (procs s ! i)"
    and m: "mstate (mach s) = StateStopped \<longrightarrow> mstate m = StateStopped"
  shows "life_inv ((upd_proc i f s)\<lparr>mach := m\<rparr>)"
proof -
  let ?t = "(upd_proc i f s)\<lparr>mach := m\<rparr>"
  have "proc_ok ?t j" if "j < length (procs s)" for j
    using inv_procD [OF inv that] f that by (auto simp: proc_ok_def procs_upd_proc Let_def)
  moreover have "control_ok ?t"
    using inv f(1) m i by (auto simp: life_inv_def control_ok_def procs_upd_proc newest_def)
  ultimately show ?thesis by (simp add: life_inv_def)
qed

lemma inv_quiet_step:
  assumes "life_inv s" "i < length (procs s)"
    and "stopped (f (procs s ! i)) = stopped (procs s ! i)"
      "phase (procs s ! i) \<in> {Closed, Reaped} \<longrightarrow> phase (f (procs s ! i)) \<in> {Closed, Reaped}"
      "phase (f (procs s ! i)) \<in> {Closed, Reaped} \<or> console (f (procs s ! i)) = console (procs s ! i)"
      "console (f (procs s ! i)) \<longrightarrow> console (procs s ! i)"
  shows "life_inv (upd_proc i f s)"
proof -
  have e: "(upd_proc i f s)\<lparr>mach := mach s\<rparr> = upd_proc i f s" by (simp add: upd_proc_def)
  show ?thesis by (rule inv_waiter_step [of s i f "mach s", unfolded e]) (use assms in auto)
qed

lemma inv_exit: "life_inv s \<Longrightarrow> exit_process i err s = Some t \<Longrightarrow> life_inv t"
  by (auto simp: exit_process_def intro!: inv_quiet_step split: if_splits)

lemma inv_wait_read: "life_inv s \<Longrightarrow> wait_read i s = Some t \<Longrightarrow> life_inv t"
  by (auto simp: wait_read_def intro!: inv_quiet_step split: if_splits phase.splits)

lemma inv_wait_move:
  assumes "life_inv s" "wait_move i s = Some t" shows "life_inv t"
proof -
  obtain err flag where i: "i < length (procs s)" "phase (procs s ! i) = Judged err flag"
    and t: "t = (upd_proc i (\<lambda>p. p\<lparr>phase := Moved\<rparr>) s)
      \<lparr>mach := (case reap_decision flag err of None \<Rightarrow> mach s | Some st \<Rightarrow> snd (machine_to st (mach s)))\<rparr>"
    using assms(2) by (auto simp: wait_move_def split: if_splits phase.splits)
  show ?thesis unfolding t
    using i by (intro inv_waiter_step assms(1)) (auto simp: reap_keeps_stopped split: option.splits)
qed

lemma inv_wait_teardown: "life_inv s \<Longrightarrow> wait_teardown i s = Some t \<Longrightarrow> life_inv t"
  by (auto simp: wait_teardown_def intro!: inv_quiet_step split: if_splits)

lemma inv_wait_signal: "life_inv s \<Longrightarrow> wait_signal i s = Some t \<Longrightarrow> life_inv t"
  by (auto simp: wait_signal_def intro!: inv_quiet_step split: if_splits)

lemma inv_act: "life_act a s = Some t \<Longrightarrow> life_inv s \<Longrightarrow> life_inv t"
  by (cases a)
     (auto intro: inv_spawn_ok inv_spawn_fail inv_spawn_refused inv_promote inv_stop_mark inv_stop_halt
       inv_stop_kill inv_stop_end inv_exit inv_wait_read inv_wait_move inv_wait_teardown inv_wait_signal)

lemma inv_reachable: "reachable s \<Longrightarrow> life_inv s"
  by (induction rule: reachable.induct) (auto intro: inv_init inv_act)

text \<open>Of the processes whose Stop did not give up, only the newest can be anything but torn down.\<close>

lemma not_torn_down:
  assumes "life_inv s" "i < length (procs s)" "phase (procs s ! i) \<notin> {Closed, Reaped}" "i \<notin> set (gave_up s)"
  shows "i = newest s"
  using inv_procD [OF assms(1,2)] assms(3,4) inv_stopping(1) [OF assms(1)]
  by (cases "stopped (procs s ! i)") auto


lemma hex_digit_inject:
  assumes "i < 16" "j < 16" "hex_digit i = hex_digit j" shows "i = j"
proof -
  have "distinct ''0123456789abcdef''" "length ''0123456789abcdef'' = 16" by simp_all
  then show ?thesis using assms nth_eq_iff_index_eq unfolding hex_digit_def by metis
qed

lemma vpcs_octet: "nat (k AND 255) = nat (k mod 256)"
  using take_bit_eq_mod [of 8 k] by (simp add: take_bit_eq_mask mask_eq_exp_minus_1)

section \<open>Properties\<close>

section \<open>Properties\<close>

text \<open>C24. Whenever the exit waiter of a process moves the node's machine, it read the stopped
  flag while Stop had not yet been called on the process, and the process is the newest one
  spawned for the node, with no Stop on it that has got further than setting the flag; the only
  exception is a process whose Stop gave up after its three seconds. So a late reap of an old
  process cannot overwrite the state of its successor.\<close>

theorem reap_never_clobbers_successor:
  assumes "reachable s" and "wait_move i s = Some t" and "mach t \<noteq> mach s"
  shows "(\<exists>err. phase (procs s ! i) = Judged err False) \<and>
    (i \<in> set (gave_up s) \<or>
     i = newest s \<and> (\<not> stopped (procs s ! i) \<or> stopping s = Some (i, Marked)))"
proof -
  have inv: "life_inv s" using assms(1) by (rule inv_reachable)
  obtain err flag where i: "i < length (procs s)" "phase (procs s ! i) = Judged err flag"
    and m: "mach t = (case reap_decision flag err of None \<Rightarrow> mach s | Some st \<Rightarrow> snd (machine_to st (mach s)))"
    using assms(2) by (auto simp: wait_move_def split: if_splits phase.splits)
  have "\<not> flag" using assms(3) m by (auto simp: reap_decision_def)
  moreover have "mstate (mach s) \<noteq> StateStopped"
    using assms(3) m by (auto simp: reap_keeps_stopped split: option.splits)
  ultimately show ?thesis
    using i not_torn_down [OF inv i(1)] inv_procD(1) [OF inv i(1)] inv_stopping(4) [OF inv] by auto
qed

definition crashing_life :: life where
  "crashing_life = \<lparr> mach = \<lparr> mstate = StateRunning, entered = [StateRunning, StateStarting] \<rparr>,
     procs = [\<lparr> stopped = False, phase = Judged True False, console = True \<rparr>], held = True,
     stopping = None, gave_up = [] \<rparr>"

definition crashed_life :: life where
  "crashed_life = \<lparr> mach = \<lparr> mstate = StateCrashed, entered = [StateCrashed, StateRunning, StateStarting] \<rparr>,
     procs = [\<lparr> stopped = False, phase = Moved, console = True \<rparr>], held = True,
     stopping = None, gave_up = [] \<rparr>"

lemma reachable_crashing_life: "reachable crashing_life"
  by (rule reachable_run [of "[Spawn_Ok, Promote, Exit 0 True, Wait_Read 0]" init_life])
     (code_simp, rule reach_init)

lemma crashing_life_moves: "wait_move 0 crashing_life = Some crashed_life"
  by code_simp

lemma crashing_life_mach: "mach crashed_life \<noteq> mach crashing_life"
  by (simp add: crashed_life_def crashing_life_def)

lemma reap_never_clobbers_successor_witness:
  "(\<exists>err. phase (procs crashing_life ! 0) = Judged err False) \<and>
    (0 \<in> set (gave_up crashing_life) \<or>
     0 = newest crashing_life \<and> (\<not> stopped (procs crashing_life ! 0) \<or> stopping crashing_life = Some (0, Marked)))"
  by (rule reap_never_clobbers_successor [OF reachable_crashing_life crashing_life_moves crashing_life_mach])

text \<open>C25. Processes of one node do not overlap: once a newer process has been spawned, the
  older one has exited, its waiter has moved the machine and torn the console down, and it no
  longer holds the console listener; the only exception is an older process whose Stop gave up
  after its three seconds.\<close>

theorem processes_never_overlap:
  assumes "reachable s" and "i < j" and "j < length (procs s)" and "i \<notin> set (gave_up s)"
  shows "phase (procs s ! i) \<in> {Closed, Reaped} \<and> \<not> console (procs s ! i)"
proof -
  have inv: "life_inv s" using assms(1) by (rule inv_reachable)
  have "i \<noteq> newest s" "i < length (procs s)" using assms(2,3) by (auto simp: newest_def)
  then show ?thesis using not_torn_down [OF inv] inv_procD(3) [OF inv] assms(4) by blast
qed

definition restarted_life :: life where
  "restarted_life = \<lparr> mach = \<lparr> mstate = StateStarting, entered = [StateStarting, StateStopped, StateStarting] \<rparr>,
     procs = [\<lparr> stopped = True, phase = Reaped, console = False \<rparr>, fresh_process], held = True,
     stopping = None, gave_up = [] \<rparr>"

lemma reachable_restarted_life: "reachable restarted_life"
  by (rule reachable_run [of "[Spawn_Ok, Stop_Mark, Stop_Halt, Stop_Kill, Exit 0 True, Wait_Read 0,
        Wait_Move 0, Wait_Teardown 0, Wait_Signal 0, Stop_End False, Spawn_Ok]" init_life])
     (code_simp, rule reach_init)

lemma processes_never_overlap_witness:
  "phase (procs restarted_life ! 0) \<in> {Closed, Reaped} \<and> \<not> console (procs restarted_life ! 0)"
  by (rule processes_never_overlap [OF reachable_restarted_life, of 0 1]) (simp_all add: restarted_life_def)

text \<open>When Stop returns without giving up, the node is stopped and every process of the node
  whose Stop never gave up is gone, whatever the exit waiter had decided before the stop.\<close>

theorem stop_leaves_node_stopped:
  assumes "reachable s" and "stop_end False s = Some t"
  shows "mstate (mach t) = StateStopped \<and> \<not> held t \<and>
    (\<forall>i < length (procs t). i \<in> set (gave_up t) \<or> phase (procs t ! i) \<in> {Closed, Reaped})"
proof -
  have inv: "life_inv s" using assms(1) by (rule inv_reachable)
  obtain i where i: "stopping s = Some (i, Killed)" "phase (procs s ! i) = Reaped"
    and t: "t = s\<lparr>held := False, stopping := None\<rparr>"
    using assms(2) by (auto simp: stop_end_def split: option.splits stop_stage.splits if_splits)
  have st: "i = newest s" "mstate (mach s) = StateStopped" using inv_stopping [OF inv i(1)] by auto
  have "j \<in> set (gave_up s) \<or> phase (procs s ! j) \<in> {Closed, Reaped}" if "j < length (procs s)" for j
    using not_torn_down [OF inv that] i(2) st(1) by blast
  then show ?thesis using st(2) by (simp add: t)
qed

definition reaped_life :: life where
  "reaped_life = \<lparr> mach = \<lparr> mstate = StateStopped, entered = [StateStopped, StateStarting] \<rparr>,
     procs = [\<lparr> stopped = True, phase = Reaped, console = False \<rparr>], held = True,
     stopping = Some (0, Killed), gave_up = [] \<rparr>"

lemma reachable_reaped_life: "reachable reaped_life"
  by (rule reachable_run [of "[Spawn_Ok, Stop_Mark, Stop_Halt, Stop_Kill, Exit 0 True, Wait_Read 0,
        Wait_Move 0, Wait_Teardown 0, Wait_Signal 0]" init_life])
     (code_simp, rule reach_init)

lemma stop_leaves_node_stopped_witness:
  "mstate (mach (reaped_life\<lparr>held := False, stopping := None\<rparr>)) = StateStopped"
  using stop_leaves_node_stopped [OF reachable_reaped_life, of "reaped_life\<lparr>held := False, stopping := None\<rparr>"]
  by (simp add: stop_end_def reaped_life_def)

text \<open>What the exceptions are for. The bound of Stop may run out after the waiter has read the
  flag as unset; if the node is then started again, the waiter's late decision moves the machine
  of the new process.\<close>

lemma late_reap_after_timeout:
  "\<exists>s t. reachable s \<and> wait_move 0 s = Some t \<and> newest s = 1 \<and>
     mstate (mach s) = StateRunning \<and> mstate (mach t) = StateCrashed"
proof -
  define early where "early = [Spawn_Ok, Promote, Exit 0 True, Wait_Read 0, Stop_Mark, Stop_Halt,
    Stop_Kill, Stop_End True, Spawn_Ok, Promote]"
  define s where "s = the (life_run early init_life)"
  have "life_run early init_life = Some s" unfolding s_def early_def by code_simp
  then have "reachable s" using reachable_run reach_init by blast
  moreover have "wait_move 0 s = Some (the (wait_move 0 s))" "newest s = 1" "mstate (mach s) = StateRunning"
    "mstate (mach (the (wait_move 0 s))) = StateCrashed"
    unfolding s_def early_def by code_simp+
  ultimately show ?thesis by blast
qed

text \<open>The waiter moves the machine before it gives the console port back, so for a while a node
  reported as crashed cannot be started: its own port is still bound.\<close>

lemma crashed_node_holds_its_port:
  "reachable crashed_life \<and> mstate (mach crashed_life) = StateCrashed \<and> may_spawn crashed_life \<and>
     spawn_ok crashed_life = None"
  using reach_step [OF reachable_crashing_life, of "Wait_Move 0" crashed_life] crashing_life_moves
  by (simp add: crashed_life_def may_spawn_def spawn_ok_def port_free_def)

text \<open>The NVRAM size passed to IOL covers the injected configuration with at least 64 KiB
  to spare, and is the smallest whole number of KiB that does.\<close>

theorem nvram_size_covers_config:
  "1024 * nvram_kib_for n \<ge> int n + 65536 \<and> 1024 * (nvram_kib_for n - 1) < int n + 65536"
proof -
  have "1024 * ((int n + 1023) div 1024) = int n + 1023 - (int n + 1023) mod 1024"
    by (simp add: minus_mod_eq_mult_div [symmetric])
  moreover have "0 \<le> (int n + 1023) mod 1024" "(int n + 1023) mod 1024 < 1024" by simp_all
  ultimately have "1024 * ((int n + 1023) div 1024) \<ge> int n"
    "1024 * ((int n + 1023) div 1024) < int n + 1024" by linarith+
  moreover have "0 \<le> (int n + 1023) div 1024" by simp
  ultimately show ?thesis by (simp add: nvram_kib_for_def default_nvram_kib_def Let_def)
qed

text \<open>Two VPCS nodes get the same MAC address exactly when their node ids plus PC index
  agree modulo 256.\<close>

theorem vpcs_mac_collision:
  "(vpcs_mac a p = vpcs_mac b q) = ((a + p) mod 256 = (b + q) mod 256)"
proof -
  define x where "x = nat ((a + p) mod 256)"
  define y where "y = nat ((b + q) mod 256)"
  have lt: "x < 256" "y < 256" by (simp_all add: x_def y_def nat_less_iff)
  have "vpcs_mac a p = vpcs_mac b q \<longleftrightarrow>
      hex_digit (x div 16) = hex_digit (y div 16) \<and> hex_digit (x mod 16) = hex_digit (y mod 16)"
    by (simp add: vpcs_mac_def Let_def vpcs_octet x_def y_def)
  also have "\<dots> \<longleftrightarrow> x div 16 = y div 16 \<and> x mod 16 = y mod 16"
    using lt hex_digit_inject [of "x div 16" "y div 16"] hex_digit_inject [of "x mod 16" "y mod 16"]
    by auto
  also have "\<dots> \<longleftrightarrow> x = y" by (metis div_mult_mod_eq)
  also have "\<dots> \<longleftrightarrow> (a + p) mod 256 = (b + q) mod 256"
    by (auto simp: x_def y_def eq_nat_nat_iff)
  finally show ?thesis .
qed

end
