(* ===== verification/Nvram.thy ===== *)
theory Nvram
  imports Prelude
begin

text \<open>
  Package internal/nvram: the NVRAM image that carries a node's startup-config, its
  ones-complement checksum, and the reader used by config.extract.  Text is a list of
  bytes.
\<close>

definition startup_header_len :: nat where "startup_header_len = 36"

definition private_header_len :: nat where "private_header_len = 16"

definition magic_startup :: "16 word" where "magic_startup = 0xABCD"

definition magic_private :: "16 word" where "magic_private = 0xFEDC"

definition format_raw :: "16 word" where "format_raw = 1"

definition format_lzc :: "16 word" where "format_lzc = 2"

definition base_address :: "32 word" where "base_address = 0x10000000"

definition default_ios_version :: "16 word" where "default_ios_version = 0x0F04"

record options =
  ios_version :: "16 word"
  private_text :: bytes
  image_size :: int

definition pad4 :: "bytes \<Rightarrow> bytes" where
  "pad4 b = (let r = length b mod 4 in if r \<noteq> 0 then b @ replicate (4 - r) 0 else b)"

text \<open>The summing loop over the section: 16-bit words, then an odd last byte.\<close>

fun sum_words :: "32 word \<Rightarrow> bytes \<Rightarrow> 32 word" where
  "sum_words acc (a # b # r) = sum_words (acc + ucast (be16 a b)) r"
| "sum_words acc [a] = acc + push_bit 8 (ucast a)"
| "sum_words acc [] = acc"

function fold_carries :: "32 word \<Rightarrow> 32 word" where
  "fold_carries acc =
     (if drop_bit 16 acc \<noteq> 0 then fold_carries ((acc AND 0xFFFF) + drop_bit 16 acc) else acc)"
  by pat_completeness auto

lemma unat_and_ffff: "unat (w AND 0xFFFF :: 32 word) = unat w mod 65536"
  using take_bit_eq_mod [of 16 "unat w"]
  by (simp flip: take_bit_eq_mask [of 16 w, unfolded mask_eq_exp_minus_1, simplified]
      add: unsigned_take_bit_eq)

lemma unat_drop16: "unat (drop_bit 16 w :: 32 word) = unat w div 65536"
  by (simp add: drop_bit_eq_div unat_div)

lemma unat_fold_step:
  "unat ((w AND 0xFFFF) + drop_bit 16 w :: 32 word) = unat w mod 65536 + unat w div 65536"
proof -
  have "unat w < 65536 * 65536" using unsigned_less [of w] by simp
  then have "unat w div 65536 < 65536" by (rule less_mult_imp_div_less)
  moreover have "unat w mod 65536 < 65536" by simp
  ultimately have "unat w mod 65536 + unat w div 65536 < 4294967296" by linarith
  then show ?thesis
    by (subst unat_add_lem [THEN iffD1]) (simp_all add: unat_and_ffff unat_drop16)
qed

lemma fold_step_less:
  "drop_bit 16 w \<noteq> 0 \<Longrightarrow> unat ((w AND 0xFFFF) + drop_bit 16 w :: 32 word) < unat w"
proof -
  assume "drop_bit 16 w \<noteq> 0"
  then have "0 < unat w div 65536" by (simp add: unat_drop16 [symmetric] unat_gt_0)
  moreover have "unat w = 65536 * (unat w div 65536) + unat w mod 65536" by simp
  ultimately show ?thesis unfolding unat_fold_step by linarith
qed

termination fold_carries
  by (relation "measure unat") (auto simp: fold_step_less)

declare fold_carries.simps [simp del]

definition set_checksum :: "nat \<Rightarrow> nat \<Rightarrow> bytes \<Rightarrow> bytes" where
  "set_checksum start stop data =
     (let data1 = put_at (start + 4) (put_be16 0) data;
          total = fold_carries (sum_words 0 (take (stop - start) (drop start data1)))
      in put_at (start + 4) (put_be16 (ucast (total XOR 0xFFFF))) data1)"

definition startup_header :: "16 word \<Rightarrow> nat \<Rightarrow> bytes" where
  "startup_header ios n =
     put_be16 magic_startup @ put_be16 format_raw @ put_be16 0 @ put_be16 ios
     @ put_be32 (base_address + 36) @ put_be32 (base_address + 36 + of_nat n)
     @ put_be32 (of_nat n) @ replicate 16 0"

definition private_section :: "bytes \<Rightarrow> bytes" where
  "private_section priv =
     put_be16 magic_private @ put_be16 format_raw
     @ put_be32 (base_address + 36) @ put_be32 (base_address + 36 + of_nat (length priv))
     @ put_be32 (of_nat (length priv)) @ priv"

definition encode_nvram :: "bytes \<Rightarrow> options \<Rightarrow> bytes" where
  "encode_nvram config opts =
     (let ios = (if ios_version opts = 0 then default_ios_version else ios_version opts);
          buf = pad4 (startup_header ios (length config) @ config);
          buf = (if private_text opts \<noteq> [] then buf @ private_section (private_text opts) else buf);
          buf = set_checksum 0 (startup_header_len + length config) buf
      in if image_size opts > int (length buf)
         then buf @ replicate (nat (image_size opts) - length buf) 0 else buf)"

datatype nvram_error =
    NvramTooShort nat | BadStartupMagic "16 word" | LZCNotSupported | UnknownFormat "16 word"
  | LengthOverflows "32 word" nat

definition decode_nvram :: "bytes \<Rightarrow> (nvram_error, bytes) result" where
  "decode_nvram nv =
     (if length nv < startup_header_len then Inl (NvramTooShort (length nv))
      else if be16 (nv ! 0) (nv ! 1) \<noteq> magic_startup then Inl (BadStartupMagic (be16 (nv ! 0) (nv ! 1)))
      else let fmt = be16 (nv ! 2) (nv ! 3) in
        if fmt \<noteq> format_raw then (if fmt = format_lzc then Inl LZCNotSupported else Inl (UnknownFormat fmt))
        else let len = be32 (nv ! 16) (nv ! 17) (nv ! 18) (nv ! 19);
                 stop = startup_header_len + unat len
             in if stop > length nv \<or> stop < startup_header_len then Inl (LengthOverflows len (length nv))
                else Inr (take (unat len) (drop startup_header_len nv)))"

section \<open>Lemmas\<close>

text \<open>The ones-complement sum of a section, without the 32-bit accumulator.\<close>

fun word_sum :: "bytes \<Rightarrow> nat" where
  "word_sum (a # b # r) = unat (be16 a b) + word_sum r"
| "word_sum [a] = 256 * unat a"
| "word_sum [] = 0"

lemma word_sum_bound: "word_sum xs \<le> 65535 * ((length xs + 1) div 2)"
proof (induction xs rule: word_sum.induct)
  case (1 a b r)
  have "unat (be16 a b) < 2 ^ 16" using unsigned_less [of "be16 a b"] by simp
  then show ?case using 1 by simp
next
  case (2 a)
  have "unat a < 2 ^ 8" using unsigned_less [of a] by simp
  then show ?case by simp
qed simp

lemma unat_ucast_be16: "unat (ucast (be16 a b) :: 32 word) = unat (be16 a b)"
  by (simp add: unsigned_ucast_eq take_bit_nat_eq_self_iff)
     (rule less_trans [OF unsigned_less], simp)

lemma unat_push8: "unat (push_bit 8 (ucast (a :: byte)) :: 32 word) = 256 * unat a"
proof -
  have a: "unat a < 2 ^ 8" using unsigned_less [of a] by simp
  have c: "unat (ucast a :: 32 word) = unat a"
    using a by (simp add: unsigned_ucast_eq take_bit_nat_eq_self)
  have "unat ((ucast a :: 32 word) * 256) = unat (ucast a :: 32 word) * unat (256 :: 32 word)"
    using a by (intro unat_mult_lem [THEN iffD1]) (simp add: c)
  then show ?thesis by (simp add: push_bit_eq_mult c)
qed

lemma unat_sum_words:
  "unat acc + word_sum xs < 2 ^ 32 \<Longrightarrow> unat (sum_words acc xs) = unat acc + word_sum xs"
proof (induction acc xs rule: sum_words.induct)
  case (1 acc a b r)
  then have "unat (acc + ucast (be16 a b)) = unat acc + unat (be16 a b)"
    by (subst unat_add_lem [THEN iffD1]) (simp_all add: unat_ucast_be16)
  then show ?case using 1 by simp
next
  case (2 acc a)
  then show ?case by (simp add: unat_push8 unat_add_lem [THEN iffD1])
qed simp

lemma word_sum_append: "even (length xs) \<Longrightarrow> word_sum (xs @ ys) = word_sum xs + word_sum ys"
  by (induction xs rule: word_sum.induct) auto

lemma fold_carries_props:
  "unat (fold_carries w) mod 65535 = unat w mod 65535 \<and> unat (fold_carries w) < 65536 \<and>
   (unat w > 0 \<longrightarrow> unat (fold_carries w) > 0)"
proof (induction w rule: fold_carries.induct)
  case (1 w)
  show ?case
  proof (cases "drop_bit 16 w = 0")
    case True
    then have "unat w div 65536 = 0" by (simp add: unat_drop16 [symmetric])
    then have "unat w < 65536" by (simp add: div_eq_0_iff)
    then show ?thesis using True by (subst (1 2 3) fold_carries.simps) simp
  next
    case False
    define v where "v = (w AND 0xFFFF) + drop_bit 16 w"
    have v: "unat v = unat w mod 65536 + unat w div 65536" by (simp add: v_def unat_fold_step)
    have w: "unat w = 65536 * (unat w div 65536) + unat w mod 65536" by simp
    have "unat w = unat v + 65535 * (unat w div 65536)" using v w by linarith
    then have m: "unat w mod 65535 = unat v mod 65535" by (metis mod_mult_self2)
    have "unat w > 0 \<longrightarrow> unat v > 0" using v w by (metis add_gr_0 mult_0_right neq0_conv)
    moreover have "fold_carries w = fold_carries v"
      using False by (subst fold_carries.simps) (simp add: v_def)
    ultimately show ?thesis using "1.IH" [OF False] m by (simp add: v_def [symmetric])
  qed
qed

lemma unat_complement: "unat s < 65536 \<Longrightarrow> unat (ucast (s XOR 0xFFFF :: 32 word) :: 16 word) = 65535 - unat s"
proof -
  assume s: "unat s < 65536"
  define t :: "16 word" where "t = ucast s"
  have "ucast t = take_bit 16 s" unfolding t_def by (rule bit_word_eqI) (auto simp: bit_simps)
  moreover have "take_bit 16 s = s"
    using s by (simp add: word_unat_eq_iff unsigned_take_bit_eq take_bit_nat_eq_self)
  ultimately have st: "s = ucast t" by simp
  have ut: "unat t = unat s" using s by (simp add: t_def unsigned_ucast_eq take_bit_nat_eq_self)
  have m: "(0xFFFF :: 32 word) = mask 16" by (simp add: mask_eq_exp_minus_1)
  have "ucast (s XOR 0xFFFF) = NOT t"
    unfolding st m by (rule bit_word_eqI) (auto simp: bit_simps)
  also have "NOT t = - 1 - t" by (simp add: not_eq_complement)
  finally show ?thesis by (simp add: unat_sub ut unsigned_minus_1_eq_mask mask_eq_exp_minus_1)
qed

text \<open>The header with a given checksum field.\<close>

definition header_with :: "16 word \<Rightarrow> 16 word \<Rightarrow> nat \<Rightarrow> bytes" where
  "header_with c ios n =
     put_be16 magic_startup @ put_be16 format_raw @ put_be16 c @ put_be16 ios
     @ put_be32 (base_address + 36) @ put_be32 (base_address + 36 + of_nat n)
     @ put_be32 (of_nat n) @ replicate 16 0"

lemma length_header_with [simp]: "length (header_with c ios n) = 36"
  by (simp add: header_with_def)

lemma put_at_header: "put_at 4 (put_be16 c') (header_with c ios n @ rest) = header_with c' ios n @ rest"
  by (simp add: put_at_def header_with_def put_be16_def)

lemma pad4_prefix: "\<exists>pad. pad4 b = b @ pad"
  by (simp add: pad4_def Let_def)

definition section_checksum :: "bytes \<Rightarrow> 16 word" where
  "section_checksum sec = ucast (fold_carries (sum_words 0 sec) XOR 0xFFFF)"

lemma set_checksum_header:
  "set_checksum 0 (36 + length config) (header_with 0 ios n @ config @ rest) =
   header_with (section_checksum (header_with 0 ios n @ config)) ios n @ config @ rest"
  by (simp add: set_checksum_def put_at_header section_checksum_def Let_def)

lemma encode_shape:
  "\<exists>ios rest. ios = (if ios_version opts = 0 then default_ios_version else ios_version opts) \<and>
     encode_nvram config opts =
       header_with (section_checksum (header_with 0 ios (length config) @ config)) ios (length config)
         @ config @ rest"
proof -
  define ios where "ios = (if ios_version opts = 0 then default_ios_version else ios_version opts)"
  obtain pad where pad: "pad4 (header_with 0 ios (length config) @ config) =
      header_with 0 ios (length config) @ config @ pad"
    using pad4_prefix [of "header_with 0 ios (length config) @ config"] by auto
  have hdr: "startup_header ios (length config) = header_with 0 ios (length config)"
    by (simp add: startup_header_def header_with_def)
  define priv where "priv = (if private_text opts \<noteq> [] then private_section (private_text opts) else [])"
  have "encode_nvram config opts =
    (let buf = header_with (section_checksum (header_with 0 ios (length config) @ config)) ios (length config)
         @ config @ (pad @ priv)
     in if image_size opts > int (length buf) then buf @ replicate (nat (image_size opts) - length buf) 0 else buf)"
  proof -
    have buf: "(if private_text opts \<noteq> [] then (header_with 0 ios (length config) @ config @ pad)
          @ private_section (private_text opts) else header_with 0 ios (length config) @ config @ pad)
        = header_with 0 ios (length config) @ config @ (pad @ priv)"
      by (simp add: priv_def)
    show ?thesis
      unfolding encode_nvram_def startup_header_len_def ios_def [symmetric] hdr pad Let_def buf
        set_checksum_header ..
  qed
  then have "\<exists>tail. encode_nvram config opts =
      header_with (section_checksum (header_with 0 ios (length config) @ config)) ios (length config)
         @ config @ (pad @ priv @ tail)"
    unfolding Let_def by (metis append.assoc append_Nil2)
  then show ?thesis unfolding ios_def [symmetric] by blast
qed

lemma decode_header_with:
  assumes "n < 2 ^ 32" "n \<le> length rest"
  shows "decode_nvram (header_with c ios n @ rest) = Inr (take n rest)"
proof -
  have "unat (of_nat n :: 32 word) = n" using assms(1) by (simp add: unat_of_nat take_bit_nat_eq_self)
  then show ?thesis using assms(2)
    by (simp add: decode_nvram_def header_with_def put_be16_def put_be32_def startup_header_len_def
        Let_def nth_append)
qed

lemma word_sum_put [simp]: "word_sum (put_be16 w @ r) = unat w + word_sum r"
  by (simp add: put_be16_def)

lemma word_sum_header_with:
  "word_sum (header_with c ios n @ ys) = unat c + word_sum (header_with 0 ios n @ ys)"
  by (simp add: header_with_def)

section \<open>Properties\<close>

text \<open>C26. Decode returns the startup-config that Encode embedded, for every IOS version,
  private section and image size.\<close>

theorem nvram_roundtrip:
  assumes "length config < 2 ^ 32"
  shows "decode_nvram (encode_nvram config opts) = Inr config"
  using encode_shape [of opts config] assms by (auto simp: decode_header_with)

lemma nvram_roundtrip_witness:
  "decode_nvram (encode_nvram [101, 110, 100, 10]
     \<lparr> ios_version = 0, private_text = [7], image_size = 128 \<rparr>) = Inr [101, 110, 100, 10]"
  by (rule nvram_roundtrip) simp

text \<open>The checksum Encode writes verifies: over the header and the configuration, checksum
  field included, the ones-complement sum folds to 0xFFFF (for sections up to 128 KiB, where
  the 32-bit accumulator cannot overflow).\<close>

theorem nvram_checksum_verifies:
  assumes "length config + 36 \<le> 131072"
  shows "fold_carries (sum_words 0 (take (36 + length config) (encode_nvram config opts))) = 0xFFFF"
proof -
  obtain ios rest where enc: "encode_nvram config opts =
      header_with (section_checksum (header_with 0 ios (length config) @ config)) ios (length config)
         @ config @ rest"
    using encode_shape [of opts config] by auto
  define sec where "sec = header_with 0 ios (length config) @ config"
  define c where "c = section_checksum sec"
  define S where "S = word_sum sec"
  have bnd: "S \<le> 65535 * 65536" "0 < S"
  proof -
    have "(length sec + 1) div 2 \<le> 65536" using assms by (simp add: sec_def)
    then show "S \<le> 65535 * 65536" using word_sum_bound [of sec] S_def by linarith
    show "0 < S" by (simp add: S_def sec_def header_with_def magic_startup_def)
  qed
  have u0: "unat (sum_words 0 sec) = S" using bnd unat_sum_words [of 0 sec] by (simp add: S_def)
  define F where "F = fold_carries (sum_words 0 sec)"
  have F: "unat F mod 65535 = S mod 65535" "unat F < 65536"
    using fold_carries_props [of "sum_words 0 sec"] by (auto simp: F_def u0)
  have uc: "unat c = 65535 - unat F" using F(2) by (simp add: c_def section_checksum_def F_def unat_complement)
  define T where "T = sum_words 0 (header_with c ios (length config) @ config)"
  have "word_sum (header_with c ios (length config) @ config) = unat c + S"
    by (subst word_sum_header_with) (simp add: S_def sec_def)
  moreover have "unat c + S < 2 ^ 32" using bnd uc by simp
  ultimately have uT: "unat T = unat c + S"
    using unat_sum_words [of 0 "header_with c ios (length config) @ config"] by (simp add: T_def)
  have "(unat c + S) mod 65535 = (unat c + unat F) mod 65535" using F(1) by (metis mod_add_right_eq)
  also have "\<dots> = 0" using uc F(2) by simp
  finally have "unat (fold_carries T) mod 65535 = 0" "unat (fold_carries T) < 65536" "0 < unat (fold_carries T)"
    using fold_carries_props [of T] bnd by (simp_all add: uT)
  then have "unat (fold_carries T) = 65535" by (auto simp: mod_eq_0_iff_dvd elim!: dvdE)
  then have "fold_carries T = 0xFFFF" by (simp add: word_unat_eq_iff)
  then show ?thesis by (simp add: enc T_def c_def sec_def)
qed

lemma nvram_checksum_verifies_witness:
  "fold_carries (sum_words 0 (take (36 + length [101, 110, 100 :: byte]) (encode_nvram [101, 110, 100]
     \<lparr> ios_version = 0, private_text = [], image_size = 0 \<rparr>))) = 0xFFFF"
  by (rule nvram_checksum_verifies) simp

end
