(* ===== verification/Server_Lab.thy ===== *)
theory Server_Lab
  imports Fabric_Fault Node_Machine Nvram
begin

text \<open>
  The supervisor's loaded lab (server/handlers.go, loaded.go, the VPCS and teardown parts
  of fabric_linux.go): its nodes, the pools of console, capture and udp ports and of NAT
  subnets, and the handlers that load, adopt, extend and shrink it.  A nodeRuntime is the
  pair of a node_runtime (its fabric half, in the lab) and a live_node (the rest).

  Handlers are whole steps because labMu serialises them.  Processes, sockets, captures
  and the pumps of the static taps are operating-system work: what they answer is the
  parameter env, over the state of the kernel.  A Go range over a map visits its keys in
  an arbitrary order, which is the env's too.
\<close>

section \<open>State\<close>

record live_node =
  ln_console :: int
  ln_machine :: machine
  ln_proc :: "int option"
  ln_image :: string
  ln_ram :: int
  ln_subnet :: int
  ln_ports :: "int \<times> int"

record image_info =
  ii_filename :: string
  ii_class :: string
  ii_i386 :: bool

record 'k server =
  sv_world :: "'k fault_world"
  sv_loaded :: bool
  sv_nodes :: "int \<rightharpoonup> live_node"
  sv_captures :: "int \<rightharpoonup> int"
  sv_bcaps :: "int \<rightharpoonup> int"
  sv_console :: port_allocator
  sv_capture :: port_allocator
  sv_udp :: port_allocator
  sv_subnets :: subnet_allocator
  sv_images :: "string \<rightharpoonup> image_info"
  sv_files :: "string \<rightharpoonup> bytes"

record server_cfg =
  cfg_image_dir :: string
  cfg_run_dir :: string
  cfg_iourc :: string
  cfg_tmp :: string
  cfg_uid :: int
  cfg_disable_i386 :: bool
  cfg_nat :: bool
  cfg_tools :: bool
  cfg_packs :: "string list"
  cfg_pc_pack :: bool

record tool_config =
  tc_node :: int
  tc_pack :: "string option"
  tc_options :: "json option"
  tc_net :: "(string \<times> int \<times> string) option"

datatype spawn_outcome = Setup_Failed | Fork_Failed | Spawned int

record 'k env =
  ev_range :: "int set \<Rightarrow> int list"
  ev_tap_names :: "plan \<Rightarrow> string list"
  ev_entries :: "static_entry set \<Rightarrow> static_entry list"
  ev_shim_start :: "string \<Rightarrow> int \<Rightarrow> int \<Rightarrow> 'k \<Rightarrow> bool \<times> 'k"
  ev_shim_close :: "string \<Rightarrow> 'k \<Rightarrow> 'k"
  ev_route_iface :: "'k \<Rightarrow> string option"
  ev_nat_start :: "int \<Rightarrow> int \<Rightarrow> string \<Rightarrow> 'k \<Rightarrow> nat_endpoint option \<times> 'k"
  ev_nat_close :: "nat_endpoint \<Rightarrow> 'k \<Rightarrow> 'k"
  ev_tool_start :: "tool_config \<Rightarrow> 'k \<Rightarrow> tool_endpoint option \<times> 'k"
  ev_tool_stop :: "tool_endpoint \<Rightarrow> 'k \<Rightarrow> 'k"
  ev_pc_state :: "int \<Rightarrow> 'k \<Rightarrow> json option"
  ev_cli_dial :: "int \<Rightarrow> 'k \<Rightarrow> bool"
  ev_listen :: "int \<Rightarrow> 'k \<Rightarrow> bool"
  ev_spawn :: "spec \<Rightarrow> 'k \<Rightarrow> spawn_outcome \<times> 'k"
  ev_kill :: "int \<Rightarrow> 'k \<Rightarrow> 'k"
  ev_early_exit :: "int \<Rightarrow> 'k \<Rightarrow> bool option"
  ev_close_pumps :: "string list option \<Rightarrow> 'k \<Rightarrow> 'k"
  ev_static_taps :: "plan \<Rightarrow> 'k \<Rightarrow> bool \<times> 'k"
  ev_capture_start :: "string \<Rightarrow> int \<Rightarrow> 'k \<Rightarrow> bool \<times> 'k"
  ev_capture_stop :: "int \<Rightarrow> 'k \<Rightarrow> 'k"
  ev_file_ok :: "string \<Rightarrow> 'k \<Rightarrow> bool"

datatype serve_error =
    No_Lab | Wrong_Lab string string | Lab_Invalid lab_error | Bad_Pack int | Unknown_Pack int string
  | No_Port | Unknown_Node int | Node_Exists int | Unknown_Capture_Link int | Capture_Failed int
  | Unknown_Image string | Image_Missing int | I386_Disabled int | Kind_Unsupported int
  | Not_Startable int | Spawn_Failed int | Exited_Early int | Bad_Tool_Config int | Fabric_Failed fabric_failure
  | Taps_Failed | Fault_Refused set_fault_error | File_Failed string | Nvram_Undecodable nvram_error

abbreviation the_lab :: "'k server \<Rightarrow> fabric_lab" where
  "the_lab s \<equiv> fw_lab (sv_world s)"

abbreviation the_doc :: "'k server \<Rightarrow> lab" where
  "the_doc s \<equiv> fl_doc (the_lab s)"

definition on_world :: "('k fault_world \<Rightarrow> 'k fault_world) \<Rightarrow> 'k server \<Rightarrow> 'k server" where
  "on_world f s = s \<lparr> sv_world := f (sv_world s) \<rparr>"

definition on_kernel :: "('k \<Rightarrow> 'k) \<Rightarrow> 'k server \<Rightarrow> 'k server" where
  "on_kernel f = on_world (\<lambda>w. w \<lparr> fw_kernel := f (fw_kernel w) \<rparr>)"

definition on_lab :: "(fabric_lab \<Rightarrow> fabric_lab) \<Rightarrow> 'k server \<Rightarrow> 'k server" where
  "on_lab f = on_world (\<lambda>w. w \<lparr> fw_lab := f (fw_lab w) \<rparr>)"

definition upd_node :: "int \<Rightarrow> (live_node \<Rightarrow> live_node) \<Rightarrow> 'k server \<Rightarrow> 'k server" where
  "upd_node i f s = s \<lparr> sv_nodes := (sv_nodes s)(i := map_option f (sv_nodes s i)) \<rparr>"

definition upd_rt :: "int \<Rightarrow> (node_runtime \<Rightarrow> node_runtime) \<Rightarrow> 'k server \<Rightarrow> 'k server" where
  "upd_rt i f = on_lab (\<lambda>ll. ll \<lparr> fl_nodes := (fl_nodes ll)(i := map_option f (fl_nodes ll i)) \<rparr>)"

definition blank_rt :: node_runtime where
  "blank_rt = \<lparr> nr_extnet = None, nr_tool = None, nr_vtap = False, nr_vtap_name = [] \<rparr>"

definition rt_of :: "'k server \<Rightarrow> int \<Rightarrow> node_runtime" where
  "rt_of s i = (case fl_nodes (the_lab s) i of None \<Rightarrow> blank_rt | Some r \<Rightarrow> r)"

definition node_to :: "nstate \<Rightarrow> int \<Rightarrow> 'k server \<Rightarrow> 'k server" where
  "node_to st i = upd_node i (\<lambda>n. n \<lparr> ln_machine := snd (machine_to st (ln_machine n)) \<rparr>)"

definition node_kind_of :: "'k server \<Rightarrow> int \<Rightarrow> kind option" where
  "node_kind_of s i = map_option node_kind (find_node (the_lab s) i)"

section \<open>Which documents a running lab adopts\<close>

definition image_id_of :: "node \<Rightarrow> string" where
  "image_id_of n = (case node_image n of None \<Rightarrow> [] | Some r \<Rightarrow> image_ref.image_id r)"

definition same_node_shape :: "node \<Rightarrow> node \<Rightarrow> bool" where
  "same_node_shape a b =
     (if node_kind a \<noteq> node_kind b then False
      else if image_id_of a \<noteq> image_id_of b then False
      else int_or (node_ethernet a) 1 = int_or (node_ethernet b) 1 \<and> int_or (node_serial a) 1 = int_or (node_serial b) 1)"

definition same_endpoint_set :: "endpoint list \<Rightarrow> endpoint list \<Rightarrow> bool" where
  "same_endpoint_set a b =
     (if length a \<noteq> length b then False
      else list_all (\<lambda>e. int (count_list a e) - int (count_list b e) = 0) (a @ b))"

definition same_topology :: "lab \<Rightarrow> lab \<Rightarrow> bool" where
  "same_topology a b =
     (if length (nodes a) \<noteq> length (nodes b) \<or> length (links a) \<noteq> length (links b) then False
      else let an = map_of (rev (map (\<lambda>n. (node_id n, n)) (nodes a)));
               al = map_of (rev (map (\<lambda>l. (link_id l, l)) (links a)))
           in list_all (\<lambda>nb. case an (node_id nb) of None \<Rightarrow> False | Some na \<Rightarrow> same_node_shape na nb) (nodes b) \<and>
              list_all (\<lambda>lb. case al (link_id lb) of None \<Rightarrow> False
                                | Some la \<Rightarrow> same_endpoint_set (endpoints la) (endpoints lb)) (links b))"

fun console_ports_of :: "(int \<rightharpoonup> live_node) \<Rightarrow> node list \<Rightarrow> (int \<times> int) list option" where
  "console_ports_of m [] = Some []"
| "console_ports_of m (n # ns) =
     (case m (node_id n) of
        None \<Rightarrow> None
      | Some nr \<Rightarrow> map_option (\<lambda>ps. (node_id n, ln_console nr) # ps) (console_ports_of m ns))"

text \<open>The document is swapped before the ports are collected, so a miss leaves it swapped.\<close>

definition try_adopt_load :: "'k env \<Rightarrow> lab \<Rightarrow> 'k server \<Rightarrow> (int \<times> int) list option \<times> 'k server" where
  "try_adopt_load E doc s =
     (if \<not> sv_loaded s then (None, s)
      else if lab_id (the_doc s) \<noteq> lab_id doc then (None, s)
      else if \<not> list_ex (\<lambda>i. \<exists>nr. sv_nodes s i = Some nr \<and> mstate (ln_machine nr) \<noteq> StateStopped)
                 (ev_range E (dom (sv_nodes s))) then (None, s)
      else if \<not> same_topology (the_doc s) doc then (None, s)
      else let s1 = on_lab (\<lambda>ll. ll \<lparr> fl_doc := doc \<rparr>) s
           in (console_ports_of (sv_nodes s1) (nodes doc), s1))"

section \<open>Stopping a node\<close>

definition delete_tap_verified :: "'k kernel \<Rightarrow> string \<Rightarrow> 'k server \<Rightarrow> 'k server" where
  "delete_tap_verified K name = on_kernel (\<lambda>k. snd (delete_tap (kern_run K) name k))"

definition release_udp :: "int \<Rightarrow> 'k server \<Rightarrow> 'k server" where
  "release_udp p s = (if p \<noteq> 0 then s \<lparr> sv_udp := port_release p (sv_udp s) \<rparr> else s)"

definition teardown_vpcs :: "'k env \<Rightarrow> 'k kernel \<Rightarrow> int \<Rightarrow> 'k server \<Rightarrow> 'k server" where
  "teardown_vpcs E K i s =
     (let nm = nr_vtap_name (rt_of s i);
          s1 = (if nr_vtap (rt_of s i)
                then upd_rt i (\<lambda>r. r \<lparr> nr_vtap := False \<rparr>) (on_kernel (ev_shim_close E nm) s) else s);
          s2 = (if nm \<noteq> [] then upd_rt i (\<lambda>r. r \<lparr> nr_vtap_name := [] \<rparr>) (delete_tap_verified K nm s1) else s1);
          ports = (case sv_nodes s i of None \<Rightarrow> (0, 0) | Some n \<Rightarrow> ln_ports n)
      in upd_node i (\<lambda>n. n \<lparr> ln_ports := (0, 0) \<rparr>) (release_udp (snd ports) (release_udp (fst ports) s2)))"

definition release_subnet :: "int \<Rightarrow> 'k server \<Rightarrow> 'k server" where
  "release_subnet i s =
     (case sv_nodes s i of
        None \<Rightarrow> s
      | Some n \<Rightarrow>
          if ln_subnet n \<noteq> 0
          then upd_node i (\<lambda>n. n \<lparr> ln_subnet := 0 \<rparr>) (s \<lparr> sv_subnets := subnet_release (ln_subnet n) (sv_subnets s) \<rparr>)
          else s)"

text \<open>Stop of a spawned process moves the machine first; a console bridge has no machine.\<close>

definition kill_proc :: "'k env \<Rightarrow> int \<Rightarrow> 'k server \<Rightarrow> 'k server" where
  "kill_proc E i s =
     (case Option.bind (sv_nodes s i) ln_proc of
        None \<Rightarrow> s
      | Some pid \<Rightarrow> upd_node i (\<lambda>n. n \<lparr> ln_proc := None \<rparr>) (on_kernel (ev_kill E pid) s))"

fun merge_pc_state :: "int \<Rightarrow> json \<Rightarrow> node list \<Rightarrow> node list" where
  "merge_pc_state i st [] = []"
| "merge_pc_state i st (n # ns) =
     (if node_id n = i \<and> node_kind n = KindPC
      then n \<lparr> node_config := (node_config n)(''pc'' \<mapsto> st) \<rparr> # ns else n # merge_pc_state i st ns)"

definition sync_pc_node :: "'k env \<Rightarrow> int \<Rightarrow> 'k server \<Rightarrow> 'k server" where
  "sync_pc_node E i s =
     (if node_kind_of s i \<noteq> Some KindPC \<or> nr_tool (rt_of s i) = None then s
      else case ev_pc_state E i (fw_kernel (sv_world s)) of
             None \<Rightarrow> s
           | Some st \<Rightarrow> on_lab (\<lambda>ll. ll \<lparr> fl_doc := (fl_doc ll) \<lparr> nodes := merge_pc_state i st (nodes (fl_doc ll)) \<rparr> \<rparr>) s)"

definition stop_node :: "'k env \<Rightarrow> 'k kernel \<Rightarrow> int \<Rightarrow> 'k server \<Rightarrow> 'k server" where
  "stop_node E K i s =
     (case sv_nodes s i of
        None \<Rightarrow> s
      | Some nr \<Rightarrow>
          let s = on_world (cancel_fault_timers_for_node i) s
          in case nr_extnet (rt_of s i) of
               Some ep \<Rightarrow>
                 node_to StateStopped i (release_subnet i
                   (upd_rt i (\<lambda>r. r \<lparr> nr_extnet := None \<rparr>) (on_kernel (ev_nat_close E ep) s)))
             | None \<Rightarrow>
                 (case nr_tool (rt_of s i) of
                    Some ep \<Rightarrow>
                      let s1 = (if node_kind_of s i = Some KindPC then sync_pc_node E i s else s);
                          s2 = kill_proc E i s1
                      in node_to StateStopped i (upd_rt i (\<lambda>r. r \<lparr> nr_tool := None \<rparr>) (on_kernel (ev_tool_stop E ep) s2))
                  | None \<Rightarrow>
                      let s1 = kill_proc E i (node_to StateStopped i s)
                      in if nr_vtap (rt_of s1 i) \<or> nr_vtap_name (rt_of s1 i) \<noteq> []
                         then teardown_vpcs E K i s1 else s1))"

section \<open>Captures\<close>

text \<open>currentLab, the guard of every handler.\<close>

definition current_lab :: "string \<Rightarrow> 'k server \<Rightarrow> serve_error option" where
  "current_lab lid s =
     (if \<not> sv_loaded s then Some No_Lab
      else if lid \<noteq> [] \<and> lid \<noteq> lab_id (the_doc s) then Some (Wrong_Lab lid (lab_id (the_doc s)))
      else None)"

fun arm_links :: "link list \<Rightarrow> (int \<rightharpoonup> int) \<Rightarrow> port_allocator \<Rightarrow> int list \<Rightarrow> bool \<times> (int \<rightharpoonup> int) \<times> port_allocator" where
  "arm_links [] m p added = (True, m, p)"
| "arm_links (l # ls) m p added =
     (if \<not> (case link_capture l of None \<Rightarrow> False | Some c \<Rightarrow> capture_enabled c) then arm_links ls m p added
      else if m (link_id l) \<noteq> None then arm_links ls m p added
      else case port_next p of
             None \<Rightarrow> (False, fold (\<lambda>i m. m(i := None)) added m,
                      fold (\<lambda>i p. case m i of None \<Rightarrow> p | Some cp \<Rightarrow> port_release cp p) added p)
           | Some (cp, p') \<Rightarrow> arm_links ls (m(link_id l \<mapsto> cp)) p' (added @ [link_id l]))"

definition arm_doc_captures :: "'k server \<Rightarrow> bool \<times> 'k server" where
  "arm_doc_captures s =
     (case arm_links (links (the_doc s)) (sv_captures s) (sv_capture s) [] of
        (ok, m, p) \<Rightarrow> (ok, s \<lparr> sv_captures := m, sv_capture := p \<rparr>))"

definition release_captures :: "'k env \<Rightarrow> 'k server \<Rightarrow> 'k server" where
  "release_captures E s =
     s \<lparr> sv_captures := Map.empty,
         sv_capture := fold (\<lambda>i p. case sv_captures s i of None \<Rightarrow> p | Some cp \<Rightarrow> port_release cp p)
                         (ev_range E (dom (sv_captures s))) (sv_capture s) \<rparr>"

definition start_bridge_capture :: "'k env \<Rightarrow> int \<Rightarrow> int \<Rightarrow> 'k server \<Rightarrow> int option \<times> 'k server" where
  "start_bridge_capture E lid cp s =
     (case sv_bcaps s lid of
        Some p \<Rightarrow> (Some p, s)
      | None \<Rightarrow>
          (case bridge_name lid of
             Inl _ \<Rightarrow> (None, s)
           | Inr br \<Rightarrow>
               (case ev_capture_start E br cp (fw_kernel (sv_world s)) of
                  (ok, k) \<Rightarrow>
                    let s1 = on_kernel (\<lambda>_. k) s
                    in if ok then (Some cp, s1 \<lparr> sv_bcaps := (sv_bcaps s1)(lid \<mapsto> cp) \<rparr>) else (None, s1))))"

definition handle_capture_start :: "'k env \<Rightarrow> string \<Rightarrow> int \<Rightarrow> 'k server \<Rightarrow> (serve_error, int) result \<times> 'k server" where
  "handle_capture_start E labid lid s =
     (case (current_lab labid s, find_link (the_lab s) lid) of
        (Some e, _) \<Rightarrow> (Inl e, s)
      | (None, None) \<Rightarrow> (Inl (Unknown_Capture_Link lid), s)
      | (None, Some l) \<Rightarrow>
          (case (case sv_captures s lid of
                   Some cp \<Rightarrow> Some (cp, True, s)
                 | None \<Rightarrow> map_option (\<lambda>(cp, p). (cp, False, s \<lparr> sv_capture := p \<rparr>)) (port_next (sv_capture s))) of
             None \<Rightarrow> (Inl No_Port, s)
           | Some (cp, was_armed, s1) \<Rightarrow>
               (case start_bridge_capture E lid cp s1 of
                  (None, s2) \<Rightarrow>
                    (Inl (Capture_Failed lid),
                     if was_armed then s2 else s2 \<lparr> sv_capture := port_release cp (sv_capture s2) \<rparr>)
                | (Some actual, s2) \<Rightarrow> (Inr actual, s2 \<lparr> sv_captures := (sv_captures s2)(lid \<mapsto> actual) \<rparr>))))"

definition stop_bridge_capture :: "'k env \<Rightarrow> int \<Rightarrow> 'k server \<Rightarrow> 'k server" where
  "stop_bridge_capture E lid s =
     (case sv_bcaps s lid of
        None \<Rightarrow> s
      | Some p \<Rightarrow> on_kernel (ev_capture_stop E p) (s \<lparr> sv_bcaps := (sv_bcaps s)(lid := None) \<rparr>))"

definition handle_capture_stop :: "'k env \<Rightarrow> string \<Rightarrow> int \<Rightarrow> 'k server \<Rightarrow> (serve_error, int) result \<times> 'k server" where
  "handle_capture_stop E labid lid s =
     (case current_lab labid s of
        Some e \<Rightarrow> (Inl e, s)
      | None \<Rightarrow>
          let s1 = (case sv_captures s lid of
                      None \<Rightarrow> s
                    | Some cp \<Rightarrow> s \<lparr> sv_captures := (sv_captures s)(lid := None), sv_capture := port_release cp (sv_capture s) \<rparr>)
          in (Inr (case sv_captures s lid of None \<Rightarrow> 0 | Some cp \<Rightarrow> cp), stop_bridge_capture E lid s1))"

section \<open>The fabric of the whole lab\<close>

definition refresh_fabric :: "server_cfg \<Rightarrow> 'k server \<Rightarrow> 'k server" where
  "refresh_fabric cfg s = on_lab (\<lambda>ll. ll \<lparr> fl_taps := compute_static_taps (cfg_tmp cfg) (fl_doc ll) (cfg_uid cfg) \<rparr>) s"

definition on_fabric_call ::
  "('k \<Rightarrow> fabric_lab \<Rightarrow> fabric_failure option \<times> 'k \<times> fabric_lab) \<Rightarrow> 'k server \<Rightarrow> fabric_failure option \<times> 'k server" where
  "on_fabric_call g s = (case on_fabric g (sv_world s) of (r, w) \<Rightarrow> (r, s \<lparr> sv_world := w \<rparr>))"

fun fabric_links_pass ::
  "'k env \<Rightarrow> 'k kernel \<Rightarrow> int list \<Rightarrow> int set \<Rightarrow> link list \<Rightarrow> 'k server \<Rightarrow> serve_error option \<times> 'k server" where
  "fabric_links_pass E K ids ok [] s = (None, s)"
| "fabric_links_pass E K ids ok (l # ls) s =
     (if \<not> is_fabric_link l ok then fabric_links_pass E K ids ok ls s
      else if ids \<noteq> [] \<and> fl_attached (the_lab s) (link_id l) \<and> \<not> link_touches_any l ids
           then fabric_links_pass E K ids ok ls s
      else case on_fabric_call (realise_link K l) s of
             (Some e, s1) \<Rightarrow> (Some (Fabric_Failed e), s1)
           | (None, s1) \<Rightarrow>
               (case sv_captures s1 (link_id l) of
                  Some cp \<Rightarrow>
                    if cp \<noteq> 0 \<and> sv_bcaps s1 (link_id l) = None
                    then (case start_bridge_capture E (link_id l) cp s1 of
                            (None, s2) \<Rightarrow> (Some (Capture_Failed (link_id l)), s2)
                          | (Some _, s2) \<Rightarrow> fabric_links_pass E K ids ok ls s2)
                    else fabric_links_pass E K ids ok ls s1
                | None \<Rightarrow> fabric_links_pass E K ids ok ls s1))"

definition start_fabric :: "'k env \<Rightarrow> 'k kernel \<Rightarrow> int list \<Rightarrow> 'k server \<Rightarrow> serve_error option \<times> 'k server" where
  "start_fabric E K ids s =
     (let s1 = on_world activate_initial_faults s;
          (ok, k) = ev_static_taps E (fl_taps (the_lab s1)) (fw_kernel (sv_world s1));
          s2 = on_kernel (\<lambda>_. k) s1
      in if \<not> ok then (Some Taps_Failed, s2)
         else fabric_links_pass E K ids (fabric_nodes (the_doc s2)) (links (the_doc s2)) s2)"

definition teardown_node :: "'k env \<Rightarrow> 'k kernel \<Rightarrow> int \<Rightarrow> 'k server \<Rightarrow> 'k server" where
  "teardown_node E K i s =
     (let s1 = (case nr_tool (rt_of s i) of
                  None \<Rightarrow> s
                | Some ep \<Rightarrow> upd_rt i (\<lambda>r. r \<lparr> nr_tool := None \<rparr>) (on_kernel (ev_tool_stop E ep) s))
      in if nr_vtap (rt_of s1 i) \<or> nr_vtap_name (rt_of s1 i) \<noteq> [] then teardown_vpcs E K i s1 else s1)"

definition delete_bridge_verified :: "'k kernel \<Rightarrow> int \<Rightarrow> 'k server \<Rightarrow> 'k server" where
  "delete_bridge_verified K lid =
     (case bridge_name lid of Inl _ \<Rightarrow> id | Inr br \<Rightarrow> on_kernel (\<lambda>k. snd (delete_bridge (kern_run K) br k)))"

definition teardown_fabric :: "'k env \<Rightarrow> 'k kernel \<Rightarrow> 'k server \<Rightarrow> 'k server" where
  "teardown_fabric E K s =
     (let attached = ev_range E (set (filter (fl_attached (the_lab s)) (map link_id (links (the_doc s)))));
          caps = map (\<lambda>l. case sv_bcaps s l of None \<Rightarrow> 0 | Some p \<Rightarrow> p) (ev_range E (dom (sv_bcaps s)));
          s1 = on_world (fold teardown_fault (ev_range E (dom (faults_of (sv_world s))))) s;
          s2 = on_lab (\<lambda>ll. ll \<lparr> fl_attached := (\<lambda>_. False), fl_dirstats := Map.empty, fl_slowtees := Map.empty \<rparr>)
                 (s1 \<lparr> sv_bcaps := Map.empty \<rparr>);
          s3 = on_kernel (\<lambda>k. ev_close_pumps E None (fold (ev_capture_stop E) caps k)) s2;
          s4 = fold (\<lambda>l s. let s' = on_world (cancel_fault_timer (link_id l)) s
                           in on_kernel (\<lambda>k. snd (clear_link_netem K l k (the_lab s'))) s') (links (the_doc s3)) s3;
          s5 = fold (delete_bridge_verified K) attached s4;
          s6 = fold (delete_tap_verified K) (ev_tap_names E (fl_taps (the_lab s))) s5
      in fold (teardown_node E K) (ev_range E (dom (sv_nodes s))) s6)"

section \<open>lab.load\<close>

definition json_string :: "json option \<Rightarrow> string option" where
  "json_string j = (case j of Some (JString t) \<Rightarrow> Some t | Some JNull \<Rightarrow> Some [] | _ \<Rightarrow> None)"

fun check_packs :: "string list \<Rightarrow> node list \<Rightarrow> serve_error option" where
  "check_packs packs [] = None"
| "check_packs packs (n # ns) =
     (if node_kind n \<noteq> KindTool then check_packs packs ns
      else case json_string (node_config n ''pack'') of
             None \<Rightarrow> Some (Bad_Pack (node_id n))
           | Some p \<Rightarrow> if p \<notin> set packs then Some (Unknown_Pack (node_id n) p) else check_packs packs ns)"

datatype load_warning = Unregistered_Image int string | Default_Ram int int | Raised_Ram int int

text \<open>The image id, the memory the node will start with, and the warnings.\<close>

definition image_and_ram :: "(string \<rightharpoonup> image_info) \<Rightarrow> node \<Rightarrow> string \<times> int \<times> load_warning list" where
  "image_and_ram images n =
     (case (node_kind n, node_image n) of
        (KindIOL, Some r) \<Rightarrow>
          let id = image_ref.image_id r;
              eff = iol_ram_for (node_ram n) (case images id of None \<Rightarrow> [] | Some info \<Rightarrow> ii_class info);
              missing = (if images id = None then [Unregistered_Image (node_id n) id] else [])
          in if eff \<noteq> node_ram n
             then (id, eff, missing @ [if node_ram n = 0 then Default_Ram (node_id n) eff else Raised_Ram (node_id n) eff])
             else (id, node_ram n, missing)
      | _ \<Rightarrow> ([], node_ram n, []))"

definition new_live_node :: "(string \<rightharpoonup> image_info) \<Rightarrow> node \<Rightarrow> int \<Rightarrow> live_node" where
  "new_live_node images n cp =
     (case image_and_ram images n of (im, ram, _) \<Rightarrow>
        \<lparr> ln_console = cp, ln_machine = new_machine, ln_proc = None, ln_image = im, ln_ram = ram,
          ln_subnet = 0, ln_ports = (0, 0) \<rparr>)"

fun load_nodes ::
  "(string \<rightharpoonup> image_info) \<Rightarrow> node list \<Rightarrow> (int \<rightharpoonup> live_node) \<Rightarrow> port_allocator
     \<Rightarrow> (int \<rightharpoonup> live_node) option \<times> port_allocator" where
  "load_nodes images [] m p = (Some m, p)"
| "load_nodes images (n # ns) m p =
     (case port_next p of
        None \<Rightarrow> (None, p)
      | Some (cp, p') \<Rightarrow> load_nodes images ns (m(node_id n \<mapsto> new_live_node images n cp)) p')"

definition release_console :: "int \<Rightarrow> 'k server \<Rightarrow> 'k server" where
  "release_console i s =
     (case sv_nodes s i of None \<Rightarrow> s | Some n \<Rightarrow> s \<lparr> sv_console := port_release (ln_console n) (sv_console s) \<rparr>)"

definition node_ids :: "'k env \<Rightarrow> 'k server \<Rightarrow> int list" where
  "node_ids E s = ev_range E (dom (sv_nodes s))"

definition discard_lab :: "'k env \<Rightarrow> 'k kernel \<Rightarrow> 'k server \<Rightarrow> 'k server" where
  "discard_lab E K s =
     (let s1 = fold (stop_node E K) (node_ids E s) s;
          s2 = teardown_fabric E K s1;
          s3 = fold release_console (node_ids E s2) s2
      in release_captures E s3)"

definition new_fabric_lab :: "lab \<Rightarrow> (int \<rightharpoonup> live_node) \<Rightarrow> fabric_lab" where
  "new_fabric_lab doc m =
     \<lparr> fl_doc = doc, fl_taps = Map.empty, fl_nodes = (\<lambda>i. map_option (\<lambda>_. blank_rt) (m i)),
       fl_attached = (\<lambda>_. False), fl_faults = Map.empty, fl_dirstats = Map.empty, fl_slowtees = Map.empty \<rparr>"

definition publish_lab :: "lab \<Rightarrow> (int \<rightharpoonup> live_node) \<Rightarrow> 'k server \<Rightarrow> 'k server" where
  "publish_lab doc m s =
     s \<lparr> sv_world := load_faults (fw_kernel (sv_world s)) (new_fabric_lab doc m), sv_loaded := True,
         sv_nodes := m, sv_captures := Map.empty, sv_bcaps := Map.empty \<rparr>"

record load_reply =
  lr_ports :: "(int \<times> int) list"
  lr_warnings :: "load_warning list"
  lr_adopted :: bool

definition handle_lab_load ::
  "'k env \<Rightarrow> 'k kernel \<Rightarrow> server_cfg \<Rightarrow> lab \<Rightarrow> 'k server \<Rightarrow> (serve_error, load_reply) result \<times> 'k server" where
  "handle_lab_load E K cfg doc s =
     (case validate doc of
        Some e \<Rightarrow> (Inl (Lab_Invalid e), s)
      | None \<Rightarrow>
          (case check_packs (cfg_packs cfg) (nodes doc) of
             Some e \<Rightarrow> (Inl e, s)
           | None \<Rightarrow>
               (case try_adopt_load E doc s of
                  (Some ps, s1) \<Rightarrow> (Inr \<lparr> lr_ports = ps, lr_warnings = [], lr_adopted = True \<rparr>, s1)
                | (None, s1) \<Rightarrow>
                    (case load_nodes (sv_images s1) (nodes doc) Map.empty (sv_console s1) of
                       (None, p) \<Rightarrow> (Inl No_Port, s1 \<lparr> sv_console := p \<rparr>)
                     | (Some m, p) \<Rightarrow>
                         let s2 = s1 \<lparr> sv_console := p \<rparr>;
                             s3 = (if sv_loaded s2 then discard_lab E K s2 else s2);
                             ps = map (\<lambda>n. (node_id n, case m (node_id n) of None \<Rightarrow> 0 | Some nr \<Rightarrow> ln_console nr)) (nodes doc)
                         in (Inr \<lparr> lr_ports = ps,
                                   lr_warnings = concat (map (\<lambda>n. snd (snd (image_and_ram (sv_images s1) n))) (nodes doc)),
                                   lr_adopted = False \<rparr>,
                             publish_lab doc m s3)))))"

section \<open>lab.stop, lab.reap, node.add, node.remove, node.setImage, link.add, link.remove\<close>

definition target_ids :: "int list option \<Rightarrow> 'k server \<Rightarrow> int list" where
  "target_ids sel s = (case sel of None \<Rightarrow> map node_id (nodes (the_doc s)) | Some ids \<Rightarrow> ids)"

definition handle_lab_stop ::
  "'k env \<Rightarrow> 'k kernel \<Rightarrow> string \<Rightarrow> int list option \<Rightarrow> 'k server \<Rightarrow> serve_error option \<times> 'k server" where
  "handle_lab_stop E K lid sel s =
     (case current_lab lid s of
        Some e \<Rightarrow> (Some e, s)
      | None \<Rightarrow>
          let s1 = fold (stop_node E K) (target_ids sel s) s
          in (None, if sel = None then release_captures E (teardown_fabric E K s1) else s1))"

definition handle_lab_reap :: "'k env \<Rightarrow> 'k kernel \<Rightarrow> 'k server \<Rightarrow> nat \<times> 'k server" where
  "handle_lab_reap E K s =
     (if \<not> sv_loaded s then (0, s)
      else (length (node_ids E s),
            release_captures E (teardown_fabric E K (fold (stop_node E K) (node_ids E s) s))))"

definition handle_node_add ::
  "string \<Rightarrow> node \<Rightarrow> 'k server \<Rightarrow> (serve_error, int) result \<times> 'k server" where
  "handle_node_add lid n s =
     (case current_lab lid s of
        Some e \<Rightarrow> (Inl e, s)
      | None \<Rightarrow>
          if sv_nodes s (node_id n) \<noteq> None then (Inl (Node_Exists (node_id n)), s)
          else case validate ((the_doc s) \<lparr> nodes := nodes (the_doc s) @ [n] \<rparr>) of
                 Some e \<Rightarrow> (Inl (Lab_Invalid e), s)
               | None \<Rightarrow>
                   (case port_next (sv_console s) of
                      None \<Rightarrow> (Inl No_Port, s)
                    | Some (cp, p) \<Rightarrow>
                        (Inr cp,
                         on_lab (\<lambda>ll. ll \<lparr> fl_doc := (fl_doc ll) \<lparr> nodes := nodes (fl_doc ll) @ [n] \<rparr>,
                                           fl_nodes := (fl_nodes ll)(node_id n \<mapsto> blank_rt) \<rparr>)
                           (s \<lparr> sv_console := p,
                                sv_nodes := (sv_nodes s)(node_id n \<mapsto> new_live_node (sv_images s) n cp) \<rparr>))))"

definition evict_tap_devices :: "'k env \<Rightarrow> 'k kernel \<Rightarrow> string list \<Rightarrow> 'k server \<Rightarrow> 'k server" where
  "evict_tap_devices E K names s =
     (if names = [] then s
      else fold (delete_tap_verified K) names (on_kernel (ev_close_pumps E (Some names)) s))"

text \<open>detachFabricLink: the fault timer, the impairments and a capture on the bridge go first, then
  the wiring and the bridge.  A stopped capture keeps its port: the link stays armed.\<close>

definition detach_link :: "'k env \<Rightarrow> 'k kernel \<Rightarrow> link \<Rightarrow> 'k server \<Rightarrow> 'k server" where
  "detach_link E K l s =
     (let s1 = on_world (cancel_fault_timer (link_id l)) s;
          s2 = on_kernel (\<lambda>k. snd (clear_link_netem K l k (the_lab s1))) s1;
          s3 = stop_bridge_capture E (link_id l) s2
      in snd (on_fabric_call (\<lambda>k ll. (None, unwire_link K l k ll)) s3))"

text \<open>The links of a removed node: fabric links are detached, and none is kept.\<close>

fun drop_links ::
  "'k env \<Rightarrow> 'k kernel \<Rightarrow> int \<Rightarrow> int set \<Rightarrow> link list \<Rightarrow> 'k server \<Rightarrow> link list \<times> 'k server" where
  "drop_links E K i ok [] s = ([], s)"
| "drop_links E K i ok (l # ls) s =
     (if list_ex (\<lambda>ep. ep_node ep = i) (endpoints l)
      then drop_links E K i ok ls (if is_fabric_link l ok then detach_link E K l s else s)
      else case drop_links E K i ok ls s of (kept, s') \<Rightarrow> (l # kept, s'))"

definition handle_node_remove ::
  "'k env \<Rightarrow> 'k kernel \<Rightarrow> server_cfg \<Rightarrow> string \<Rightarrow> int \<Rightarrow> 'k server \<Rightarrow> serve_error option \<times> 'k server" where
  "handle_node_remove E K cfg lid i s =
     (case current_lab lid s of
        Some e \<Rightarrow> (Some e, s)
      | None \<Rightarrow>
          (case sv_nodes s i of
             None \<Rightarrow> (Some (Unknown_Node i), s)
           | Some nr \<Rightarrow>
               let orphans = ev_tap_names E ((fl_taps (the_lab s)) |` {i});
                   s1 = stop_node E K i s;
                   s2 = s1 \<lparr> sv_console := port_release (ln_console nr) (sv_console s1) \<rparr>;
                   (kept, s3) = drop_links E K i (fabric_nodes (the_doc s2)) (links (the_doc s2)) s2;
                   doc = (the_doc s2) \<lparr> links := kept, nodes := filter (\<lambda>n. node_id n \<noteq> i) (nodes (the_doc s2)) \<rparr>;
                   s4 = on_lab (\<lambda>ll. ll \<lparr> fl_doc := doc, fl_nodes := (fl_nodes ll)(i := None) \<rparr>)
                          (s3 \<lparr> sv_nodes := (sv_nodes s3)(i := None) \<rparr>)
               in (None, refresh_fabric cfg (evict_tap_devices E K orphans s4))))"

fun set_doc_image :: "int \<Rightarrow> string \<Rightarrow> node list \<Rightarrow> node list" where
  "set_doc_image i im [] = []"
| "set_doc_image i im (n # ns) =
     (case node_image n of
        Some r \<Rightarrow> if node_id n = i then n \<lparr> node_image := Some (r \<lparr> image_ref.image_id := im \<rparr>) \<rparr> # ns
                   else n # set_doc_image i im ns
      | None \<Rightarrow> n # set_doc_image i im ns)"

definition handle_node_set_image ::
  "string \<Rightarrow> int \<Rightarrow> string \<Rightarrow> 'k server \<Rightarrow> (serve_error, string) result \<times> 'k server" where
  "handle_node_set_image lid i im s =
     (case current_lab lid s of
        Some e \<Rightarrow> (Inl e, s)
      | None \<Rightarrow>
          if sv_nodes s i = None then (Inl (Unknown_Node i), s)
          else case sv_images s im of
                 None \<Rightarrow> (Inl (Unknown_Image im), s)
               | Some info \<Rightarrow>
                   (Inr (ii_class info),
                    on_lab (\<lambda>ll. ll \<lparr> fl_doc := (fl_doc ll) \<lparr> nodes := set_doc_image i im (nodes (fl_doc ll)) \<rparr> \<rparr>)
                      (upd_node i (\<lambda>n. n \<lparr> ln_image := im \<rparr>) s)))"

definition handle_link_add ::
  "'k env \<Rightarrow> 'k kernel \<Rightarrow> server_cfg \<Rightarrow> string \<Rightarrow> link \<Rightarrow> 'k server \<Rightarrow> serve_error option \<times> 'k server" where
  "handle_link_add E K cfg lid l s =
     (case current_lab lid s of
        Some e \<Rightarrow> (Some e, s)
      | None \<Rightarrow> start_fabric E K [] (refresh_fabric cfg (on_world (link_add_doc l) s)))"

definition handle_link_remove ::
  "'k env \<Rightarrow> 'k kernel \<Rightarrow> server_cfg \<Rightarrow> string \<Rightarrow> link \<Rightarrow> 'k server \<Rightarrow> serve_error option \<times> 'k server" where
  "handle_link_remove E K cfg lid l s =
     (case current_lab lid s of
        Some e \<Rightarrow> (Some e, s)
      | None \<Rightarrow>
          let s1 = (if is_fabric_link l (fabric_nodes (the_doc s)) then detach_link E K l s else s)
          in (None, refresh_fabric cfg (on_world (forget_link l) s1)))"

text \<open>link.set_fault, and what reaches the lab without a request: timers and their callbacks.\<close>

definition serve_link_set_fault ::
  "'k kernel \<Rightarrow> server_cfg \<Rightarrow> string \<Rightarrow> fault_args \<Rightarrow> 'k server \<Rightarrow> (serve_error, fault_event) result \<times> 'k server" where
  "serve_link_set_fault K cfg lid args s =
     (case current_lab lid s of
        Some e \<Rightarrow> (Inl e, s)
      | None \<Rightarrow>
          (case handle_link_set_fault K (cfg_tmp cfg) (cfg_uid cfg) args (sv_world s) of
             (Inl e, w) \<Rightarrow> (Inl (Fault_Refused e), s \<lparr> sv_world := w \<rparr>)
           | (Inr out, w) \<Rightarrow> (Inr out, s \<lparr> sv_world := w \<rparr>)))"

end
