(* ===== verification/Go_Text.thy ===== *)
theory Go_Text
  imports Prelude
begin

text \<open>
  More of Go's package strings, over ASCII text: splitting, go_fields, cut sets, substrings.
\<close>

fun split_where :: "('a \<Rightarrow> bool) \<Rightarrow> 'a list \<Rightarrow> 'a list list" where
  "split_where P [] = [[]]"
| "split_where P (c # cs) =
     (if P c then [] # split_where P cs
      else case split_where P cs of [] \<Rightarrow> [[c]] | w # ws \<Rightarrow> (c # w) # ws)"

text \<open>strings.Split with a separator of one byte, and strings.Fields.\<close>

definition split_on :: "char \<Rightarrow> string \<Rightarrow> string list" where
  "split_on x s = split_where (\<lambda>c. c = x) s"

definition go_fields :: "string \<Rightarrow> string list" where
  "go_fields s = filter (\<lambda>w. w \<noteq> []) (split_where is_space s)"

definition nl :: char where "nl = char_of (10 :: nat)"
definition cr :: char where "cr = char_of (13 :: nat)"
definition tab :: char where "tab = char_of (9 :: nat)"

abbreviation text_lines :: "string \<Rightarrow> string list" where
  "text_lines s \<equiv> split_on nl s"

fun join_with :: "string \<Rightarrow> string list \<Rightarrow> string" where
  "join_with sep [] = []"
| "join_with sep [x] = x"
| "join_with sep (x # y # xs) = x @ sep @ join_with sep (y # xs)"

text \<open>strings.TrimLeft, TrimRight and Trim with a cut set.\<close>

definition trim_left_set :: "string \<Rightarrow> string \<Rightarrow> string" where
  "trim_left_set s cutset = dropWhile (\<lambda>c. c \<in> set cutset) s"

definition trim_right_set :: "string \<Rightarrow> string \<Rightarrow> string" where
  "trim_right_set s cutset = rev (dropWhile (\<lambda>c. c \<in> set cutset) (rev s))"

definition trim_set :: "string \<Rightarrow> string \<Rightarrow> string" where
  "trim_set s cutset = trim_right_set (trim_left_set s cutset) cutset"

definition has_suffix :: "string \<Rightarrow> string \<Rightarrow> bool" where
  "has_suffix s suf \<longleftrightarrow> length suf \<le> length s \<and> drop (length s - length suf) s = suf"

definition trim_suffix :: "string \<Rightarrow> string \<Rightarrow> string" where
  "trim_suffix s suf = (if has_suffix s suf then take (length s - length suf) s else s)"

text \<open>strings.Index of a substring, as the text before and the text after its first occurrence.\<close>

fun cut_sub :: "string \<Rightarrow> string \<Rightarrow> (string \<times> string) option" where
  "cut_sub sub [] = (if sub = [] then Some ([], []) else None)"
| "cut_sub sub (c # cs) =
     (if has_prefix (c # cs) sub then Some ([], drop (length sub) (c # cs))
      else map_option (\<lambda>(a, b). (c # a, b)) (cut_sub sub cs))"

definition contains_sub :: "string \<Rightarrow> string \<Rightarrow> bool" where
  "contains_sub s sub \<longleftrightarrow> cut_sub sub s \<noteq> None"

definition replace_char :: "char \<Rightarrow> char \<Rightarrow> string \<Rightarrow> string" where
  "replace_char x y = map (\<lambda>c. if c = x then y else c)"

text \<open>Text without a line break.\<close>

definition one_line :: "string \<Rightarrow> bool" where
  "one_line l \<longleftrightarrow> cr \<notin> set l \<and> nl \<notin> set l"

lemma char_names: "nl = CHR 0x0A" "cr = CHR 0x0D" "tab = CHR 0x09"
  by code_simp+

lemma one_line_simps [simp]:
  "one_line []" "one_line (c # l) \<longleftrightarrow> c \<noteq> cr \<and> c \<noteq> nl \<and> one_line l" "one_line (a @ b) \<longleftrightarrow> one_line a \<and> one_line b"
  by (auto simp: one_line_def)

section \<open>Splitting and joining\<close>

lemma split_where_not_Nil [simp]: "split_where P s \<noteq> []"
  by (induction s) (auto split: list.split)

lemma split_where_none: "(\<And>c. c \<in> set s \<Longrightarrow> \<not> P c) \<Longrightarrow> split_where P s = [s]"
  by (induction s) auto

lemma split_where_at:
  "(\<And>c. c \<in> set a \<Longrightarrow> \<not> P c) \<Longrightarrow> P x \<Longrightarrow> split_where P (a @ x # b) = a # split_where P b"
  by (induction a) auto

lemma split_where_parts: "w \<in> set (split_where P s) \<Longrightarrow> c \<in> set w \<Longrightarrow> \<not> P c"
proof (induction s arbitrary: w)
  case (Cons x s)
  show ?case
  proof (cases "P x")
    case True
    then show ?thesis using Cons by auto
  next
    case False
    obtain v vs where v: "split_where P s = v # vs" by (cases "split_where P s") auto
    then have "w = x # v \<or> w \<in> set vs" using Cons.prems(1) False by simp
    then show ?thesis using Cons.IH [of v] Cons.IH [of w] Cons.prems(2) v False by auto
  qed
qed simp

lemma split_on_none: "x \<notin> set s \<Longrightarrow> split_on x s = [s]"
  unfolding split_on_def by (rule split_where_none) auto

lemma split_on_at: "x \<notin> set a \<Longrightarrow> split_on x (a @ x # b) = a # split_on x b"
  unfolding split_on_def by (rule split_where_at) auto

lemma split_on_not_Nil [simp]: "split_on x s \<noteq> []"
  by (simp add: split_on_def)

lemma split_on_parts: "w \<in> set (split_on x s) \<Longrightarrow> x \<notin> set w"
  unfolding split_on_def using split_where_parts by fastforce

lemma split_join: "ws \<noteq> [] \<Longrightarrow> (\<And>w. w \<in> set ws \<Longrightarrow> x \<notin> set w) \<Longrightarrow> split_on x (join_with [x] ws) = ws"
  by (induction "[x]" ws rule: join_with.induct) (simp_all add: split_on_none split_on_at)

lemma join_split: "join_with [x] (split_on x s) = s"
proof (induction s)
  case (Cons c s)
  show ?case
  proof (cases "split_on x s")
    case (Cons w ws)
    then show ?thesis using Cons.IH by (cases ws) (auto simp: split_on_def)
  qed simp
qed (simp add: split_on_def)

lemma go_fields_parts: "w \<in> set (go_fields s) \<Longrightarrow> w \<noteq> [] \<and> (\<forall>c \<in> set w. \<not> is_space c)"
  using split_where_parts [of w is_space s] by (auto simp: go_fields_def)

lemma go_fields_Nil [simp]: "go_fields [] = []"
  by (simp add: go_fields_def)

lemma go_fields_space: "is_space c \<Longrightarrow> go_fields (c # s) = go_fields s"
  by (simp add: go_fields_def)

lemma go_fields_spaces: "(\<And>c. c \<in> set a \<Longrightarrow> is_space c) \<Longrightarrow> go_fields (a @ s) = go_fields s"
  by (induction a) (auto simp: go_fields_space)

lemma go_fields_word:
  assumes "w \<noteq> []" and "\<And>c. c \<in> set w \<Longrightarrow> \<not> is_space c"
  shows "go_fields w = [w]" and "is_space c \<Longrightarrow> go_fields (w @ c # s) = w # go_fields s"
  using assms split_where_none [of w is_space] split_where_at [of w is_space c s] by (simp_all add: go_fields_def)

lemma go_fields_eq_Nil: "go_fields s = [] \<longleftrightarrow> (\<forall>c \<in> set s. is_space c)"
proof -
  have "(\<forall>w \<in> set (split_where is_space s). w = []) \<longleftrightarrow> (\<forall>c \<in> set s. is_space c)"
    by (induction s) (auto split: list.splits)
  then show ?thesis by (auto simp: go_fields_def filter_empty_conv)
qed

section \<open>Trimming\<close>

lemma trim_space_eq_Nil: "trim_space s = [] \<longleftrightarrow> (\<forall>c \<in> set s. is_space c)"
proof
  assume "trim_space s = []"
  then have "\<forall>c \<in> set (dropWhile is_space s). is_space c" by (simp add: trim_space_def dropWhile_eq_Nil_conv)
  then have "dropWhile is_space s = []" by (cases "dropWhile is_space s") (use hd_dropWhile [of is_space s] in auto)
  then show "\<forall>c \<in> set s. is_space c" by (simp add: dropWhile_eq_Nil_conv)
qed (simp add: trim_space_def dropWhile_eq_Nil_conv [THEN iffD2])

lemma trim_space_idle: "s = [] \<or> \<not> is_space (hd s) \<and> \<not> is_space (last s) \<Longrightarrow> trim_space s = s"
proof (cases "s = []")
  case False
  assume "s = [] \<or> \<not> is_space (hd s) \<and> \<not> is_space (last s)"
  with False have h: "\<not> is_space (hd s)" "\<not> is_space (hd (rev s))" by (simp_all add: hd_rev)
  have "dropWhile is_space s = s" using h(1) False by (cases s) auto
  moreover have "dropWhile is_space (rev s) = rev s" using h(2) False by (cases "rev s") auto
  ultimately show ?thesis by (simp add: trim_space_def)
qed (simp add: trim_space_def)

lemma trim_space_last: "trim_space s \<noteq> [] \<Longrightarrow> \<not> is_space (last (trim_space s))"
  unfolding trim_space_def by (simp add: last_rev hd_dropWhile)

lemma trim_right_set_idle: "s = [] \<or> last s \<notin> set cutset \<Longrightarrow> trim_right_set s cutset = s"
  by (cases "rev s") (auto simp: trim_right_set_def)

lemma trim_right_set_append: "set b \<subseteq> set cutset \<Longrightarrow> trim_right_set (a @ b) cutset = trim_right_set a cutset"
proof -
  assume "set b \<subseteq> set cutset"
  then have "dropWhile (\<lambda>c. c \<in> set cutset) (rev b @ rev a) = dropWhile (\<lambda>c. c \<in> set cutset) (rev a)"
    by (intro dropWhile_append2) auto
  then show ?thesis by (simp add: trim_right_set_def)
qed

section \<open>Substrings\<close>

lemma has_prefix_append: "has_prefix (sub @ s) sub"
  by (induction sub) auto

lemma has_prefix_iff: "has_prefix s p \<longleftrightarrow> (\<exists>r. s = p @ r)"
  by (induction s p rule: has_prefix.induct) auto

lemma has_suffix_iff: "has_suffix s suf \<longleftrightarrow> (\<exists>a. s = a @ suf)"
  by (auto simp: has_suffix_def) (metis append_take_drop_id)

lemma trim_suffix_append [simp]: "trim_suffix (a @ suf) suf = a"
  by (simp add: trim_suffix_def has_suffix_def)

lemma cut_sub_Some: "cut_sub sub s = Some (a, b) \<Longrightarrow> s = a @ sub @ b"
  by (induction sub s arbitrary: a rule: cut_sub.induct) (auto simp: has_prefix_iff split: if_splits)

end
