(* ===== verification/Console_Script.thy ===== *)
theory Console_Script
  imports Go_Text
begin

text \<open>
  Scripted commands on a shared router console (consolescript/consolescript.go): finding a
  prompt, waiting for the echo of a command, and the sequence RunExec sends.

  What the console sends is a list of arrivals, one per turn of a waiting loop: a chunk of
  text, a failed read, or an expired context.  Any console, however it reacts to what is
  written, produces some such list.  Where the list ends nothing more arrives and the
  context expires.
\<close>

section \<open>Prompts\<close>

definition prompt_char :: "char \<Rightarrow> bool" where
  "prompt_char c \<longleftrightarrow> c \<in> set ''-.()_'' \<or> (let n = of_char c :: nat in 97 \<le> n \<and> n \<le> 122 \<or> 65 \<le> n \<and> n \<le> 90 \<or> 48 \<le> n \<and> n \<le> 57)"

text \<open>The text after the last newline.\<close>

definition last_line :: "string \<Rightarrow> string" where
  "last_line t = rev (takeWhile (\<lambda>c. c \<noteq> nl) (rev t))"

definition has_prompt_suffix :: "string \<Rightarrow> (string \<times> bool) option" where
  "has_prompt_suffix s =
     (let t0 = trim_right_set s [CHR '' '', tab, cr, nl]
      in if t0 = [] then None
         else let t = trim_space (last_line t0)
           in if t = [] then None
              else if last t \<noteq> CHR ''>'' \<and> last t \<noteq> CHR ''#'' then None
              else if \<not> list_all prompt_char (butlast t) then None
              else Some (t, last t = CHR ''#''))"

definition is_config_prompt :: "string \<Rightarrow> bool" where
  "is_config_prompt prompt \<longleftrightarrow> contains_sub prompt ''(config''"

section \<open>The output of a command\<close>

fun replace_crlf :: "string \<Rightarrow> string" where
  "replace_crlf (c # d # cs) = (if c = cr \<and> d = nl then nl # replace_crlf cs else c # replace_crlf (d # cs))"
| "replace_crlf s = s"

definition normal_lines :: "string \<Rightarrow> string" where
  "normal_lines raw = replace_char cr nl (replace_crlf raw)"

fun output_after_echo :: "string \<Rightarrow> string list \<Rightarrow> string option" where
  "output_after_echo cmd (line # next # rest) =
     (let t = trim_space line
      in if \<not> has_suffix t cmd then output_after_echo cmd (next # rest)
         else if trim_suffix t cmd \<noteq> [] \<and> has_prompt_suffix (trim_suffix t cmd) = None then output_after_echo cmd (next # rest)
         else Some (join_with [nl] (next # rest)))"
| "output_after_echo cmd ls = None"

definition command_output :: "string \<Rightarrow> string \<Rightarrow> string option" where
  "command_output raw cmd = output_after_echo cmd (text_lines (normal_lines raw))"

definition clean_show_output :: "string \<Rightarrow> string \<Rightarrow> string" where
  "clean_show_output raw cmd =
     trim_set (join_with [nl] (filter (\<lambda>ln. \<not> (trim_space ln = trim_space cmd) \<and>
         \<not> (has_prompt_suffix ln \<noteq> None \<and> CHR '' '' \<notin> set (trim_space ln)))
       (text_lines (normal_lines raw)))) [nl]"

section \<open>Sessions\<close>

datatype arrival = Chunk string | Read_Failed string | Expired string

record exec_session =
  es_sent :: "string list"
  es_writes :: "nat option"
  es_buf :: string
  es_in :: "arrival list"

type_synonym 'a exec_result = "(string, 'a) result"

definition session_feed :: "string \<Rightarrow> exec_session \<Rightarrow> exec_session" where
  "session_feed clean s = s \<lparr> es_buf := es_buf s @ clean \<rparr>"

definition session_reset :: "exec_session \<Rightarrow> exec_session" where
  "session_reset s = s \<lparr> es_buf := [] \<rparr>"

text \<open>A write takes its text or fails; es_writes says how many more succeed.\<close>

definition session_write :: "string \<Rightarrow> exec_session \<Rightarrow> string option \<times> exec_session" where
  "session_write p s =
     (case es_writes s of
        Some 0 \<Rightarrow> (Some ''write failed'', s)
      | w \<Rightarrow> (None, s \<lparr> es_sent := es_sent s @ [p], es_writes := map_option (\<lambda>n. n - 1) w \<rparr>))"

text \<open>One turn of a waiting loop that found nothing: the context is checked, then a chunk read.\<close>

definition await_more :: "exec_session \<Rightarrow> string option \<times> exec_session" where
  "await_more s =
     (case es_in s of
        [] \<Rightarrow> (Some ''context deadline exceeded'', s)
      | Expired e # rest \<Rightarrow> (Some e, s \<lparr> es_in := rest \<rparr>)
      | Read_Failed e # rest \<Rightarrow> (Some e, s \<lparr> es_in := rest \<rparr>)
      | Chunk c # rest \<Rightarrow> (None, session_feed c (s \<lparr> es_in := rest \<rparr>)))"

lemma await_more_shrinks: "await_more s = (None, s') \<Longrightarrow> length (es_in s') < length (es_in s)"
  by (auto simp: await_more_def session_feed_def split: list.splits arrival.splits)

function await_prompt :: "exec_session \<Rightarrow> bool exec_result \<times> exec_session" where
  "await_prompt s =
     (case has_prompt_suffix (es_buf s) of
        Some (_, priv) \<Rightarrow> (Inr priv, s)
      | None \<Rightarrow> (case await_more s of (Some e, s') \<Rightarrow> (Inl e, s') | (None, s') \<Rightarrow> await_prompt s'))"
  by pat_completeness auto
termination
  by (relation "measure (\<lambda>s. length (es_in s))") (auto dest: await_more_shrinks [OF sym])

text \<open>awaitCommand checks the context before it looks at the buffer, so an expired context wins
  over a complete output.\<close>

function await_command :: "string \<Rightarrow> exec_session \<Rightarrow> string exec_result \<times> exec_session" where
  "await_command cmd s =
     (case es_in s of
        Expired e # rest \<Rightarrow> (Inl e, s \<lparr> es_in := rest \<rparr>)
      | _ \<Rightarrow>
        (case command_output (es_buf s) cmd of
           Some out \<Rightarrow>
             if has_prompt_suffix out \<noteq> None then (Inr out, s)
             else (case await_more s of (Some e, s') \<Rightarrow> (Inl e, s') | (None, s') \<Rightarrow> await_command cmd s')
         | None \<Rightarrow> (case await_more s of (Some e, s') \<Rightarrow> (Inl e, s') | (None, s') \<Rightarrow> await_command cmd s')))"
  by pat_completeness auto
termination
  by (relation "measure (\<lambda>(_, s). length (es_in s))") (auto dest: await_more_shrinks [OF sym])

declare await_prompt.simps [simp del] await_command.simps [simp del]

definition sync_prompt :: "exec_session \<Rightarrow> bool exec_result \<times> exec_session" where
  "sync_prompt s =
     (case session_write [cr] (session_reset s) of
        (Some e, s1) \<Rightarrow> (Inl e, s1)
      | (None, s1) \<Rightarrow> await_prompt s1)"

definition current_prompt :: "exec_session \<Rightarrow> string" where
  "current_prompt s = (case has_prompt_suffix (es_buf s) of Some (p, _) \<Rightarrow> p | None \<Rightarrow> [])"

definition ensure_enable :: "exec_session \<Rightarrow> bool exec_result \<times> exec_session" where
  "ensure_enable s =
     (case sync_prompt s of
        (Inl e, s1) \<Rightarrow> (Inl e, s1)
      | (Inr priv, s1) \<Rightarrow>
          if is_config_prompt (current_prompt s1) then (Inr True, s1)
          else if priv then (Inr False, s1)
          else case session_write (''enable'' @ [cr]) (session_reset s1) of
                 (Some e, s2) \<Rightarrow> (Inl e, s2)
               | (None, s2) \<Rightarrow> (case await_command ''enable'' s2 of
                     (Inl e, s3) \<Rightarrow> (Inl e, s3)
                   | (Inr _, s3) \<Rightarrow> (Inr (is_config_prompt (current_prompt s3)), s3)))"

definition send_and_await :: "string \<Rightarrow> exec_session \<Rightarrow> string exec_result \<times> exec_session" where
  "send_and_await cmd s =
     (case session_write (cmd @ [cr]) (session_reset s) of
        (Some e, s1) \<Rightarrow> (Inl e, s1)
      | (None, s1) \<Rightarrow> await_command cmd s1)"

definition run_exec :: "string \<Rightarrow> exec_session \<Rightarrow> string exec_result \<times> exec_session" where
  "run_exec cmd s =
     (case ensure_enable s of
        (Inl e, s1) \<Rightarrow> (Inl e, s1)
      | (Inr config, s1) \<Rightarrow>
          let pre = (if config then ''do '' else [])
          in case send_and_await (pre @ ''terminal length 0'') s1 of
               (Inl e, s2) \<Rightarrow> (Inl e, s2)
             | (Inr _, s2) \<Rightarrow> (case send_and_await (pre @ cmd) s2 of
                   (Inl e, s3) \<Rightarrow> (Inl e, s3)
                 | (Inr out, s3) \<Rightarrow> (Inr (clean_show_output out (pre @ cmd)), s3)))"

section \<open>What is sent\<close>

lemma await_more_sent [simp]: "await_more s = (e, s') \<Longrightarrow> es_sent s' = es_sent s"
  by (auto simp: await_more_def session_feed_def split: list.splits arrival.splits)

lemma await_prompt_sent: "es_sent (snd (await_prompt s)) = es_sent s"
proof (induction s rule: await_prompt.induct)
  case (1 s)
  obtain e s' where m: "await_more s = (e, s')" by fastforce
  show ?case
    using 1 m by (subst await_prompt.simps) (auto split: option.split)
qed

lemma await_command_cases:
  obtains (expired) e rest where "es_in s = Expired e # rest" "await_command cmd s = (Inl e, s \<lparr> es_in := rest \<rparr>)"
    | (found) out where "command_output (es_buf s) cmd = Some out" "has_prompt_suffix out \<noteq> None" "await_command cmd s = (Inr out, s)"
    | (failed) e s' where "await_more s = (Some e, s')" "await_command cmd s = (Inl e, s')"
    | (more) s' where "await_more s = (None, s')" "await_command cmd s = await_command cmd s'"
proof (cases "\<exists>e rest. es_in s = Expired e # rest")
  case True
  then obtain e rest where r: "es_in s = Expired e # rest" by blast
  then have "await_command cmd s = (Inl e, s \<lparr> es_in := rest \<rparr>)" by (subst await_command.simps) simp
  with r show thesis by (rule expired)
next
  case False
  define k where "k = (case await_more s of (Some e, s') \<Rightarrow> (Inl e, s') | (None, s') \<Rightarrow> await_command cmd s')"
  have eq: "await_command cmd s = (case command_output (es_buf s) cmd of
      Some out \<Rightarrow> if has_prompt_suffix out \<noteq> None then (Inr out, s) else k | None \<Rightarrow> k)"
    unfolding k_def by (subst await_command.simps) (use False in \<open>auto split: list.split arrival.split\<close>)
  obtain e s' where m: "await_more s = (e, s')" by fastforce
  show thesis
  proof (cases "\<exists>out. command_output (es_buf s) cmd = Some out \<and> has_prompt_suffix out \<noteq> None")
    case True
    then show thesis using eq found by auto
  next
    case False
    then have "await_command cmd s = k" using eq by (auto split: option.split)
    then show thesis using m failed more by (cases e) (auto simp: k_def)
  qed
qed

lemma await_command_sent: "es_sent (snd (await_command cmd s)) = es_sent s"
proof (induction "length (es_in s)" arbitrary: s rule: less_induct)
  case less
  show ?case
  proof (cases rule: await_command_cases [of s cmd])
    case (more s')
    then show ?thesis using less [OF await_more_shrinks [OF more(1)]] await_more_sent [OF more(1)] by simp
  qed (use await_more_sent in auto)
qed

lemma session_write_sent:
  "session_write p s = (e, s') \<Longrightarrow> es_sent s' = (case e of None \<Rightarrow> es_sent s @ [p] | Some _ \<Rightarrow> es_sent s)"
  by (auto simp: session_write_def split: option.splits nat.splits)

lemma session_reset_sent [simp]: "es_sent (session_reset s) = es_sent s"
  by (simp add: session_reset_def)

lemma send_and_await_sent:
  "es_sent (snd (send_and_await cmd s)) = es_sent s @ [cmd @ [cr]] \<or>
   es_sent (snd (send_and_await cmd s)) = es_sent s \<and> (\<exists>e. fst (send_and_await cmd s) = Inl e)"
proof -
  obtain e s' where w: "session_write (cmd @ [cr]) (session_reset s) = (e, s')" by fastforce
  show ?thesis
    using session_write_sent [OF w] await_command_sent [of cmd s']
    by (cases e) (simp_all add: send_and_await_def w)
qed

text \<open>The commands of one run: the probe, enable if the console is in user mode, and the two commands
  with their prefix.\<close>

definition exec_commands :: "bool \<Rightarrow> bool \<Rightarrow> string \<Rightarrow> string list" where
  "exec_commands enable config cmd =
     (let pre = (if config then ''do '' else [])
      in [[cr]] @ (if enable then [''enable'' @ [cr]] else []) @ [pre @ ''terminal length 0'' @ [cr], pre @ cmd @ [cr]])"

lemma sync_prompt_sent:
  "es_sent (snd (sync_prompt s)) = es_sent s @ [[cr]] \<or>
   es_sent (snd (sync_prompt s)) = es_sent s \<and> (\<exists>e. fst (sync_prompt s) = Inl e)"
proof -
  obtain e s' where w: "session_write [cr] (session_reset s) = (e, s')" by fastforce
  show ?thesis
    using session_write_sent [OF w] await_prompt_sent [of s']
    by (cases e) (simp_all add: sync_prompt_def w)
qed

lemma ensure_enable_send:
  "ensure_enable s =
     (case sync_prompt s of
        (Inl e, s1) \<Rightarrow> (Inl e, s1)
      | (Inr priv, s1) \<Rightarrow>
          if is_config_prompt (current_prompt s1) then (Inr True, s1)
          else if priv then (Inr False, s1)
          else case send_and_await ''enable'' s1 of
                 (Inl e, s3) \<Rightarrow> (Inl e, s3)
               | (Inr _, s3) \<Rightarrow> (Inr (is_config_prompt (current_prompt s3)), s3))"
proof -
  obtain r s1 where r: "sync_prompt s = (r, s1)" by fastforce
  obtain e s2 where e: "session_write (''enable'' @ [cr]) (session_reset s1) = (e, s2)" by fastforce
  show ?thesis
    unfolding ensure_enable_def send_and_await_def r by (cases e) (simp_all only: prod.case e option.case sum.case)
qed

lemma ensure_enable_sent:
  assumes e: "ensure_enable s = (r, s')"
  shows "\<exists>en n. es_sent s' = es_sent s @ take n ([[cr]] @ (if en then [''enable'' @ [cr]] else [])) \<and>
    ((\<exists>c. r = Inr c) \<longrightarrow> 2 \<le> n)"
proof -
  define E where "E = ''enable''"
  obtain r1 s1 where r1: "sync_prompt s = (r1, s1)" by fastforce
  obtain q s2 where q: "send_and_await E s1 = (q, s2)" by fastforce
  have s1: "es_sent s1 = es_sent s @ [[cr]] \<or> es_sent s1 = es_sent s \<and> (\<exists>e. r1 = Inl e)"
    using sync_prompt_sent [of s] r1 by simp
  have s2: "es_sent s2 = es_sent s1 @ [E @ [cr]] \<or> es_sent s2 = es_sent s1 \<and> (\<exists>e. q = Inl e)"
    using send_and_await_sent [of E s1] q by simp
  have eq: "(r, s') = (case r1 of Inl e \<Rightarrow> (Inl e, s1) | Inr priv \<Rightarrow>
      if is_config_prompt (current_prompt s1) then (Inr True, s1) else if priv then (Inr False, s1)
      else case q of Inl e \<Rightarrow> (Inl e, s2) | Inr _ \<Rightarrow> (Inr (is_config_prompt (current_prompt s2)), s2))"
    using e [symmetric] unfolding ensure_enable_send r1 E_def [symmetric] prod.case q .
  show ?thesis
    unfolding E_def [symmetric]
  proof (cases "\<exists>x. r1 = Inl x")
    case True
    then have "s' = s1" "\<not> (\<exists>c. r = Inr c)" using eq by auto
    moreover from s1 have "es_sent s1 = es_sent s @ take 0 [[cr]] \<or> es_sent s1 = es_sent s @ take 1 [[cr]]" by auto
    ultimately show "\<exists>en n. es_sent s' = es_sent s @ take n ([[cr]] @ (if en then [E @ [cr]] else [])) \<and> ((\<exists>c. r = Inr c) \<longrightarrow> 2 \<le> n)"
      by (metis append_Nil2)
  next
    case False
    then have s1: "es_sent s1 = es_sent s @ [[cr]]" using s1 by blast
    obtain priv where "r1 = Inr priv" using False by (cases r1) auto
    then have "s' = s1 \<or> s' = s2 \<and> ((\<exists>c. r = Inr c) \<longrightarrow> (\<exists>y. q = Inr y))"
      using eq by (cases q) (auto split: if_splits)
    then have "es_sent s' = es_sent s @ take 2 ([[cr]] @ []) \<or> es_sent s' = es_sent s @ take 2 ([[cr]] @ [E @ [cr]])"
      using s1 s2 by auto
    then show "\<exists>en n. es_sent s' = es_sent s @ take n ([[cr]] @ (if en then [E @ [cr]] else [])) \<and> ((\<exists>c. r = Inr c) \<longrightarrow> 2 \<le> n)"
    proof
      assume "es_sent s' = es_sent s @ take 2 ([[cr]] @ [])"
      then show ?thesis by (intro exI [of _ False] exI [of _ 2]) simp
    next
      assume "es_sent s' = es_sent s @ take 2 ([[cr]] @ [E @ [cr]])"
      then show ?thesis by (intro exI [of _ True] exI [of _ 2]) simp
    qed
  qed
qed

text \<open>
  RunExec types nothing else into the shared console: what it writes is a beginning of one fixed
  sequence, the probe, enable where the prompt was an unprivileged one, the pager command and the
  command, both with do in configuration mode, and the whole of it if a result is returned.
\<close>

lemma run_exec_sent:
  "\<exists>en config n. es_sent (snd (run_exec cmd s)) = es_sent s @ take n (exec_commands en config cmd) \<and>
    ((\<exists>out. fst (run_exec cmd s) = Inr out) \<longrightarrow> length (exec_commands en config cmd) \<le> n)"
proof -
  obtain r s1 where e: "ensure_enable s = (r, s1)" by fastforce
  obtain en n where n: "es_sent s1 = es_sent s @ take n ([[cr]] @ (if en then [''enable'' @ [cr]] else []))"
      "(\<exists>c. r = Inr c) \<longrightarrow> 2 \<le> n"
    using ensure_enable_sent [OF e] by blast
  define H where "H = [[cr]] @ (if en then [''enable'' @ [cr]] else [])"
  show ?thesis
  proof (cases r)
    case (Inl x)
    obtain W where "exec_commands en False cmd = H @ W" by (simp add: exec_commands_def H_def)
    then have "take (min n (length H)) (exec_commands en False cmd) = take n H" by (simp add: min_def)
    then show ?thesis using n(1) e Inl unfolding H_def [symmetric]
      by (intro exI [of _ en] exI [of _ False] exI [of _ "min n (length H)"]) (simp add: run_exec_def)
  next
    case (Inr config)
    define pre where "pre = (if config then ''do '' else [])"
    define A B where "A = pre @ ''terminal length 0'' @ [cr]" and "B = pre @ cmd @ [cr]"
    have "length H \<le> n" using n Inr by (simp add: H_def)
    then have s1: "es_sent s1 = es_sent s @ H" using n(1) by (simp add: H_def)
    have c: "exec_commands en config cmd = H @ [A, B]"
      by (simp add: exec_commands_def pre_def H_def A_def B_def)
    obtain q s2 where q: "send_and_await (pre @ ''terminal length 0'') s1 = (q, s2)" by fastforce
    obtain t s3 where t: "send_and_await (pre @ cmd) s2 = (t, s3)" by fastforce
    have w2: "es_sent s2 = es_sent s1 @ [A] \<or> es_sent s2 = es_sent s1 \<and> (\<exists>e. q = Inl e)"
      using send_and_await_sent [of "pre @ ''terminal length 0''" s1] q by (simp add: A_def)
    have w3: "es_sent s3 = es_sent s2 @ [B] \<or> es_sent s3 = es_sent s2 \<and> (\<exists>e. t = Inl e)"
      using send_and_await_sent [of "pre @ cmd" s2] t by (simp add: B_def)
    have run: "run_exec cmd s = (case q of Inl e \<Rightarrow> (Inl e, s2) | Inr _ \<Rightarrow>
        (case t of Inl e \<Rightarrow> (Inl e, s3) | Inr out \<Rightarrow> (Inr (clean_show_output out (pre @ cmd)), s3)))"
      using e Inr q t by (auto simp: run_exec_def pre_def Let_def split: sum.split)
    show ?thesis
    proof (cases "es_sent s3 = es_sent s @ H @ [A, B] \<and> (\<exists>y. q = Inr y)")
      case True
      then show ?thesis using run
        by (intro exI [of _ en] exI [of _ config] exI [of _ "length H + 2"]) (auto simp: c split: sum.split)
    next
      case False
      then have bad: "(\<exists>e. q = Inl e) \<or> (\<exists>e. t = Inl e)" using w2 w3 s1 by (cases q) auto
      obtain k where "es_sent (snd (run_exec cmd s)) = es_sent s @ take k (H @ [A, B])"
      proof -
        have k: "H = take (length H) (H @ [A, B])" "H @ [A] = take (length H + 1) (H @ [A, B])" "H @ [A, B] = take (length H + 2) (H @ [A, B])"
          by simp_all
        have "es_sent (snd (run_exec cmd s)) \<in> {es_sent s @ H, es_sent s @ H @ [A], es_sent s @ H @ [A, B]}"
          using run w2 w3 s1 by (cases q; cases t) auto
        then show thesis using k that by (metis insertE singletonD)
      qed
      moreover have "\<not> (\<exists>out. fst (run_exec cmd s) = Inr out)" using bad run by (cases q) auto
      ultimately show ?thesis unfolding c by (intro exI [of _ en] exI [of _ config]) (auto simp: c)
    qed
  qed
qed

section \<open>A console that answers\<close>

text \<open>What a console at the prompt p sends for a command: the echo, the lines of output, the prompt.\<close>

definition reply :: "string \<Rightarrow> string list \<Rightarrow> string \<Rightarrow> string" where
  "reply cmd ls p = concat (map (\<lambda>l. l @ [cr, nl]) (cmd # ls)) @ p"

definition complete_reply :: "string \<Rightarrow> string \<Rightarrow> bool" where
  "complete_reply cmd buf \<longleftrightarrow> (case command_output buf cmd of None \<Rightarrow> False | Some out \<Rightarrow> has_prompt_suffix out \<noteq> None)"

definition exec_prompt :: "string \<Rightarrow> bool" where
  "exec_prompt p \<longleftrightarrow> p \<noteq> [] \<and> last p = CHR ''#'' \<and> list_all prompt_char (butlast p)"

lemma prompt_char_visible: "prompt_char c \<Longrightarrow> \<not> is_space c \<and> c \<noteq> nl \<and> c \<noteq> cr"
  by (auto simp: prompt_char_def is_space_def char_names Let_def)

lemma exec_prompt_visible: "exec_prompt p \<Longrightarrow> c \<in> set p \<Longrightarrow> \<not> is_space c \<and> c \<noteq> nl \<and> c \<noteq> cr"
proof -
  assume p: "exec_prompt p" and c: "c \<in> set p"
  then have "p = butlast p @ [CHR ''#'']" by (metis append_butlast_last_id exec_prompt_def)
  then have "c \<in> set (butlast p) \<or> c = CHR ''#''" using c by (metis in_set_conv_decomp insertE list.simps(15) rotate1.simps(2) set_append set_rotate1 Un_iff empty_iff list.set(1))
  then show ?thesis
    using p prompt_char_visible by (auto simp: exec_prompt_def list_all_iff is_space_def char_names)
qed

lemma last_line_at:
  assumes "nl \<notin> set b"
  shows "last_line (a @ nl # b) = b" and "last_line b = b"
proof -
  have b: "\<And>c. c \<in> set (rev b) \<Longrightarrow> c \<noteq> nl" using assms by auto
  then have t: "takeWhile (\<lambda>c. c \<noteq> nl) (rev b) = rev b" by simp
  moreover have "takeWhile (\<lambda>c. c \<noteq> nl) (rev b @ nl # rev a) = rev b"
    using takeWhile_append2 [of "rev b" "\<lambda>c. c \<noteq> nl" "nl # rev a"] b by simp
  ultimately show "last_line (a @ nl # b) = b" "last_line b = b"
    using arg_cong [OF t, of rev] by (simp_all only: last_line_def rev_append rev.simps append.simps append_assoc rev_rev_ident)
qed

lemma has_prompt_suffix_at:
  assumes p: "exec_prompt p" and s: "s = p \<or> s = a @ nl # p"
  shows "has_prompt_suffix s = Some (p, True)"
proof -
  have ne: "p \<noteq> []" and lp: "last p = CHR ''#''" and pc: "list_all prompt_char (butlast p)"
    using p by (auto simp: exec_prompt_def)
  have v: "\<And>c. c \<in> set p \<Longrightarrow> \<not> is_space c \<and> c \<noteq> nl \<and> c \<noteq> cr" using exec_prompt_visible [OF p] by blast
  have ls: "s \<noteq> []" "last s = CHR ''#''" using s ne lp by auto
  then have t: "trim_right_set s [CHR '' '', tab, cr, nl] = s"
    by (intro trim_right_set_idle) (simp add: char_names)
  have "nl \<notin> set p" using v by blast
  then have "last_line s = p" using s last_line_at by auto
  moreover have "trim_space p = p" using v ne by (intro trim_space_idle) simp
  ultimately show ?thesis
    using ls ne lp pc unfolding has_prompt_suffix_def t Let_def by simp
qed

lemma replace_crlf_line: "one_line l \<Longrightarrow> replace_crlf (l @ cr # nl # s) = l @ nl # replace_crlf s"
proof (induction l)
  case (Cons c l)
  then have "replace_crlf (l @ cr # nl # s) = l @ nl # replace_crlf s" "c \<noteq> cr" by (auto simp: one_line_def)
  then show ?case by (cases l) (auto)
qed simp

lemma replace_crlf_idle: "cr \<notin> set l \<Longrightarrow> replace_crlf l = l"
  by (induction l rule: replace_crlf.induct) auto

lemma replace_char_idle: "x \<notin> set l \<Longrightarrow> replace_char x y l = l"
  by (auto simp: replace_char_def intro: map_idI)

lemma replace_char_append: "replace_char x y (a @ b) = replace_char x y a @ replace_char x y b"
  by (simp add: replace_char_def)

lemma lines_of_crlf:
  "(\<And>l. l \<in> set ls \<Longrightarrow> one_line l) \<Longrightarrow> one_line p \<Longrightarrow>
     text_lines (normal_lines (concat (map (\<lambda>l. l @ [cr, nl]) ls) @ p)) = ls @ [p]"
proof (induction ls)
  case Nil
  then show ?case by (simp add: normal_lines_def one_line_def replace_crlf_idle replace_char_idle split_on_none)
next
  case (Cons l ls)
  define R where "R = concat (map (\<lambda>l. l @ [cr, nl]) ls) @ p"
  have l: "one_line l" using Cons.prems(1) by simp
  have "normal_lines (l @ cr # nl # R) = l @ nl # normal_lines R"
    using l by (simp add: normal_lines_def replace_crlf_line replace_char_append replace_char_idle one_line_def)
      (simp add: replace_char_def char_names)
  then have "text_lines (normal_lines (l @ cr # nl # R)) = l # text_lines (normal_lines R)"
    using l by (simp add: split_on_at one_line_def)
  moreover have "text_lines (normal_lines R) = ls @ [p]"
    unfolding R_def by (rule Cons.IH) (use Cons.prems in auto)
  ultimately show ?case by (simp add: R_def)
qed

lemma has_suffix_self [simp]: "has_suffix s s"
  by (simp add: has_suffix_def)

lemma trim_suffix_self [simp]: "trim_suffix s s = []"
  by (simp add: trim_suffix_def)

lemma exec_prompt_one_line: "exec_prompt p \<Longrightarrow> one_line p"
  using exec_prompt_visible by (auto simp: one_line_def)

lemma command_output_reply:
  assumes "trim_space cmd = cmd" and "one_line cmd" and "\<And>l. l \<in> set ls \<Longrightarrow> one_line l" and "exec_prompt p"
  shows "command_output (reply cmd ls p) cmd = Some (join_with [nl] (ls @ [p]))"
proof -
  have "text_lines (normal_lines (reply cmd ls p)) = (cmd # ls) @ [p]"
    unfolding reply_def by (rule lines_of_crlf) (use assms exec_prompt_one_line in auto)
  then have "command_output (reply cmd ls p) cmd = output_after_echo cmd (cmd # ls @ [p])"
    by (simp add: command_output_def)
  then show ?thesis using assms(1) by (cases "ls @ [p]") auto
qed

lemma join_with_snoc: "join_with [x] (ls @ [p]) = p \<or> (\<exists>a. join_with [x] (ls @ [p]) = a @ x # p)"
proof (induction ls)
  case (Cons l ls)
  obtain y ys where y: "ls @ [p] = y # ys" by (cases "ls @ [p]") auto
  then have "join_with [x] ((l # ls) @ [p]) = l @ x # join_with [x] (ls @ [p])" by simp
  with Cons show ?case by (metis append.assoc append_Cons)
qed simp

lemma reply_ends_with_prompt:
  "exec_prompt p \<Longrightarrow> has_prompt_suffix (join_with [nl] (ls @ [p])) = Some (p, True)"
  using join_with_snoc [of nl ls p] has_prompt_suffix_at [of p "join_with [nl] (ls @ [p])"] by blast

lemma clean_reply:
  assumes "\<And>l. l \<in> set ls \<Longrightarrow> one_line l" and p: "exec_prompt p"
    and "\<And>l. l \<in> set ls \<Longrightarrow> trim_space l \<noteq> trim_space cmd"
    and "\<And>l. l \<in> set ls \<Longrightarrow> has_prompt_suffix l = None \<or> CHR '' '' \<in> set (trim_space l)"
  shows "clean_show_output (join_with [nl] (ls @ [p])) cmd = trim_set (join_with [nl] ls) [nl]"
proof -
  define out where "out = join_with [nl] (ls @ [p])"
  have one: "\<And>l. l \<in> set (ls @ [p]) \<Longrightarrow> one_line l" using assms(1) exec_prompt_one_line [OF p] by auto
  have v: "\<And>c. c \<in> set p \<Longrightarrow> \<not> is_space c" using exec_prompt_visible [OF p] by blast
  have cr: "cr \<notin> set (join_with [nl] ws)" if "\<And>l. l \<in> set ws \<Longrightarrow> one_line l" for ws
    using that by (induction "[nl]" ws rule: join_with.induct) (auto simp: one_line_def char_names)
  have "cr \<notin> set out" unfolding out_def by (rule cr) (rule one)
  then have n: "normal_lines out = out" by (simp only: normal_lines_def replace_crlf_idle replace_char_idle not_False_eq_True)
  have "text_lines (normal_lines out) = ls @ [p]"
    unfolding n unfolding out_def by (rule split_join) (use one in \<open>auto simp: one_line_def\<close>)
  moreover have "filter (\<lambda>ln. \<not> (trim_space ln = trim_space cmd) \<and>
      \<not> (has_prompt_suffix ln \<noteq> None \<and> CHR '' '' \<notin> set (trim_space ln))) ls = ls"
    using assms(3,4) by (intro filter_True ballI) (metis option.distinct(1))
  moreover have "has_prompt_suffix p \<noteq> None" using has_prompt_suffix_at [OF p, of p] by simp
  moreover have "CHR '' '' \<notin> set (trim_space p)"
    using v [of "CHR '' ''"] trim_space_idle [of p] v p by (auto simp: exec_prompt_def is_space_def)
  ultimately show ?thesis unfolding out_def [symmetric] clean_show_output_def by auto
qed

section \<open>A command and its output\<close>

lemma await_more_chunk: "es_in s = Chunk c # rest \<Longrightarrow> await_more s = (None, s \<lparr> es_buf := es_buf s @ c, es_in := rest \<rparr>)"
  by (simp add: await_more_def session_feed_def)

lemma await_command_step:
  assumes "es_in s = Chunk c # rest" and "\<not> complete_reply cmd (es_buf s)"
  shows "await_command cmd s = await_command cmd (s \<lparr> es_buf := es_buf s @ c, es_in := rest \<rparr>)"
  using assms by (subst await_command.simps) (auto simp: await_more_chunk complete_reply_def split: option.split)

lemma await_command_found:
  assumes "\<And>e rest. es_in s \<noteq> Expired e # rest"
    and "command_output (es_buf s) cmd = Some out" and "has_prompt_suffix out \<noteq> None"
  shows "await_command cmd s = (Inr out, s)"
  using assms by (subst await_command.simps) (auto split: list.split arrival.split)

text \<open>However the reply is cut into reads: as long as none of the earlier cuts leaves a complete
  reply in the buffer, the whole of it is read, and nothing after it.\<close>

lemma await_command_reads:
  assumes "es_in s = map Chunk cs @ rest" and "\<And>e r. rest \<noteq> Expired e # r"
    and "\<And>k. k < length cs \<Longrightarrow> \<not> complete_reply cmd (es_buf s @ concat (take k cs))"
    and "command_output (es_buf s @ concat cs) cmd = Some out" and "has_prompt_suffix out \<noteq> None"
  shows "await_command cmd s = (Inr out, s \<lparr> es_buf := es_buf s @ concat cs, es_in := rest \<rparr>)"
  using assms
proof (induction cs arbitrary: s)
  case Nil
  then show ?case using await_command_found [of s cmd out] by simp
next
  case (Cons c cs)
  let ?t = "s \<lparr> es_buf := es_buf s @ c, es_in := map Chunk cs @ rest \<rparr>"
  have "await_command cmd s = await_command cmd ?t"
    using Cons.prems(1) Cons.prems(3) [of 0] by (intro await_command_step) simp_all
  also have "\<dots> = (Inr out, ?t \<lparr> es_buf := es_buf ?t @ concat cs, es_in := rest \<rparr>)"
  proof (rule Cons.IH)
    show "\<not> complete_reply cmd (es_buf ?t @ concat (take k cs))" if "k < length cs" for k
      using Cons.prems(3) [of "Suc k"] that by simp
  qed (use Cons.prems in auto)
  finally show ?case by simp
qed

lemma session_write_ok: "es_writes s = None \<Longrightarrow> session_write p s = (None, s \<lparr> es_sent := es_sent s @ [p] \<rparr>)"
  by (simp add: session_write_def)

lemma send_and_await_reply:
  assumes w: "es_writes s = None" and i: "es_in s = map Chunk cs @ rest" and r: "\<And>e r. rest \<noteq> Expired e # r"
    and cmd: "trim_space cmd = cmd" "one_line cmd" and ls: "\<And>l. l \<in> set ls \<Longrightarrow> one_line l" and p: "exec_prompt p"
    and cs: "concat cs = reply cmd ls p" and cuts: "\<And>k. k < length cs \<Longrightarrow> \<not> complete_reply cmd (concat (take k cs))"
  shows "send_and_await cmd s = (Inr (join_with [nl] (ls @ [p])),
    s \<lparr> es_sent := es_sent s @ [cmd @ [cr]], es_buf := reply cmd ls p, es_in := rest \<rparr>)"
proof -
  let ?t = "(session_reset s) \<lparr> es_sent := es_sent s @ [cmd @ [cr]] \<rparr>"
  have "session_write (cmd @ [cr]) (session_reset s) = (None, ?t)"
    using w by (simp add: session_write_ok session_reset_def)
  moreover have "await_command cmd ?t = (Inr (join_with [nl] (ls @ [p])), ?t \<lparr> es_buf := es_buf ?t @ concat cs, es_in := rest \<rparr>)"
    using i r cuts command_output_reply [OF cmd ls p] reply_ends_with_prompt [OF p, of ls]
    by (intro await_command_reads) (simp_all add: session_reset_def cs)
  ultimately show ?thesis by (simp add: send_and_await_def session_reset_def cs)
qed

lemma ensure_enable_at_prompt:
  assumes w: "es_writes s = None" and i: "es_in s = Chunk (a @ nl # p) # rest" and p: "exec_prompt p"
  shows "ensure_enable s = (Inr (is_config_prompt p),
    s \<lparr> es_sent := es_sent s @ [[cr]], es_buf := a @ nl # p, es_in := rest \<rparr>)"
proof -
  let ?t = "s \<lparr> es_sent := es_sent s @ [[cr]], es_buf := a @ nl # p, es_in := rest \<rparr>"
  let ?u = "(session_reset s) \<lparr> es_sent := es_sent s @ [[cr]] \<rparr>"
  have hp: "has_prompt_suffix (a @ nl # p) = Some (p, True)" using p by (intro has_prompt_suffix_at) auto
  have "await_more ?u = (None, ?t)"
    using i by (subst await_more_chunk) (auto simp: session_reset_def)
  moreover have "has_prompt_suffix (es_buf ?u) = None"
    by (simp add: session_reset_def has_prompt_suffix_def trim_right_set_def)
  ultimately have "await_prompt ?u = await_prompt ?t" by (subst await_prompt.simps) simp
  also have "\<dots> = (Inr True, ?t)" by (subst await_prompt.simps) (simp add: hp)
  finally have "sync_prompt s = (Inr True, ?t)"
    using w by (simp add: sync_prompt_def session_write_ok session_reset_def)
  moreover have "current_prompt ?t = p" by (simp add: current_prompt_def hp)
  ultimately show ?thesis by (simp add: ensure_enable_def)
qed

text \<open>The prefix RunExec puts before its commands.\<close>

definition do_prefix :: "string \<Rightarrow> string" where
  "do_prefix p = (if is_config_prompt p then ''do '' else [])"

definition plain_output :: "string \<Rightarrow> string list \<Rightarrow> bool" where
  "plain_output cmd ls \<longleftrightarrow> list_all (\<lambda>l. one_line l \<and> trim_space l \<noteq> cmd \<and>
     (has_prompt_suffix l = None \<or> CHR '' '' \<in> set (trim_space l))) ls"

definition usual_command :: "string \<Rightarrow> bool" where
  "usual_command cmd \<longleftrightarrow> cmd \<noteq> [] \<and> one_line cmd \<and> trim_space cmd = cmd"

lemma do_prefix_command:
  assumes "usual_command cmd"
  shows "trim_space (do_prefix p @ cmd) = do_prefix p @ cmd" and "one_line (do_prefix p @ cmd)"
proof -
  have c: "cmd \<noteq> []" "trim_space cmd = cmd" "one_line cmd" using assms by (simp_all add: usual_command_def)
  then have "\<not> is_space (last cmd)" using trim_space_last [of cmd] by simp
  then show "trim_space (do_prefix p @ cmd) = do_prefix p @ cmd"
    using c by (cases "is_config_prompt p") (auto intro!: trim_space_idle simp: do_prefix_def is_space_def)
  show "one_line (do_prefix p @ cmd)" using c by (auto simp: do_prefix_def one_line_def char_names)
qed

text \<open>A console at the prompt p answers the probe, the pager command and the command cmd with their
  echoes, the lines ls for cmd, and p; the reply to cmd may come in any cuts, as long as no earlier
  cut already looks complete.\<close>

definition answers :: "string \<Rightarrow> string \<Rightarrow> string list \<Rightarrow> exec_session \<Rightarrow> bool" where
  "answers p cmd ls s \<longleftrightarrow> es_writes s = None \<and>
     (\<exists>a cs. es_in s = Chunk (a @ nl # p) # Chunk (reply (do_prefix p @ ''terminal length 0'') [] p) # map Chunk cs \<and>
        concat cs = reply (do_prefix p @ cmd) ls p \<and>
        (\<forall>k < length cs. \<not> complete_reply (do_prefix p @ cmd) (concat (take k cs))))"

lemma run_exec_reply:
  assumes "exec_prompt p" and "usual_command cmd" and "plain_output (do_prefix p @ cmd) ls"
    and "es_writes s = None"
    and "es_in s = Chunk (a @ nl # p) # Chunk (reply (do_prefix p @ ''terminal length 0'') [] p) # map Chunk cs"
    and "concat cs = reply (do_prefix p @ cmd) ls p"
    and "\<And>k. k < length cs \<Longrightarrow> \<not> complete_reply (do_prefix p @ cmd) (concat (take k cs))"
  shows "fst (run_exec cmd s) = Inr (trim_set (join_with [nl] ls) [nl])"
proof -
  define T where "T = ''terminal length 0''"
  define pre where "pre = do_prefix p"
  have uT: "usual_command T" unfolding T_def by code_simp
  define s1 where "s1 = s \<lparr> es_sent := es_sent s @ [[cr]], es_buf := a @ nl # p,
    es_in := map Chunk [reply (pre @ T) [] p] @ map Chunk cs \<rparr>"
  have e: "ensure_enable s = (Inr (is_config_prompt p), s1)"
    using ensure_enable_at_prompt [OF assms(4) assms(5) assms(1)] by (simp add: s1_def pre_def T_def)
  obtain s2 where t: "send_and_await (pre @ T) s1 = (Inr (join_with [nl] ([] @ [p])), s2)"
      and s2: "es_writes s2 = None" "es_in s2 = map Chunk cs @ []"
  proof -
    have "send_and_await (pre @ T) s1 = (Inr (join_with [nl] ([] @ [p])),
        s1 \<lparr> es_sent := es_sent s1 @ [(pre @ T) @ [cr]], es_buf := reply (pre @ T) [] p, es_in := map Chunk cs \<rparr>)"
    proof (rule send_and_await_reply)
      show "\<not> complete_reply (pre @ T) (concat (take k [reply (pre @ T) [] p]))" if "k < length [reply (pre @ T) [] p]" for k
        using that by (simp add: complete_reply_def command_output_def normal_lines_def replace_char_def split_on_def)
    qed (use assms(1,4) do_prefix_command [OF uT, of p] in \<open>auto simp: s1_def pre_def\<close>)
    then show thesis by (rule that) (use assms(4) in \<open>simp_all add: s1_def\<close>)
  qed
  have ls: "\<And>l. l \<in> set ls \<Longrightarrow> one_line l" "\<And>l. l \<in> set ls \<Longrightarrow> trim_space l \<noteq> trim_space (pre @ cmd)"
      "\<And>l. l \<in> set ls \<Longrightarrow> has_prompt_suffix l = None \<or> CHR '' '' \<in> set (trim_space l)"
    using assms(3) do_prefix_command [OF assms(2), of p] by (auto simp: plain_output_def list_all_iff pre_def)
  obtain s3 where c: "send_and_await (pre @ cmd) s2 = (Inr (join_with [nl] (ls @ [p])), s3)"
    using send_and_await_reply [OF s2(1,2) _ do_prefix_command [OF assms(2), of p, folded pre_def] ls(1) assms(1)
        assms(6) [folded pre_def] assms(7) [folded pre_def]] by fastforce
  have "run_exec cmd s = (Inr (clean_show_output (join_with [nl] (ls @ [p])) (pre @ cmd)), s3)"
    unfolding run_exec_def e prod.case sum.case Let_def
    using t c by (simp add: pre_def do_prefix_def T_def del: append.simps split del: if_split)
  then show ?thesis using clean_reply [OF ls(1) assms(1) ls(2,3)] by simp
qed

lemma run_exec_answered:
  assumes "exec_prompt p" and "usual_command cmd" and "plain_output (do_prefix p @ cmd) ls" and "answers p cmd ls s"
  shows "fst (run_exec cmd s) = Inr (trim_set (join_with [nl] ls) [nl])"
proof -
  obtain a cs where "es_writes s = None"
      "es_in s = Chunk (a @ nl # p) # Chunk (reply (do_prefix p @ ''terminal length 0'') [] p) # map Chunk cs"
      "concat cs = reply (do_prefix p @ cmd) ls p" "\<And>k. k < length cs \<Longrightarrow> \<not> complete_reply (do_prefix p @ cmd) (concat (take k cs))"
    using assms(4) by (auto simp: answers_def)
  then show ?thesis by (rule run_exec_reply [OF assms(1-3)])
qed

text \<open>C17. RunExec returns the output of its command: the lines of the output, with blank lines at the
  ends trimmed.  This is for a console at a privileged prompt, configuration modes included, that
  answers the probe and the pager command in one read each, and the command itself in any cuts none
  of which but the last already ends in something that looks like a prompt; and for an output none
  of whose lines is a word that looks like a prompt or repeats the command.  An earlier cut that
  looks complete ends the output there, and such lines are dropped from it.\<close>

theorem run_exec_output:
  assumes "exec_prompt p" and "usual_command cmd" and "plain_output (do_prefix p @ cmd) ls" and "answers p cmd ls s"
  shows "fst (run_exec cmd s) = Inr (trim_set (join_with [nl] ls) [nl])"
  using assms by (rule run_exec_answered)

text \<open>Cut in the middle of a line, at a console left in configuration mode.\<close>

definition demo_session :: exec_session where
  "demo_session = \<lparr> es_sent = [], es_writes = None, es_buf = ''old'',
     es_in = Chunk ([cr] @ nl # ''R1(config)#'') # Chunk (reply ''do terminal length 0'' [] ''R1(config)#'') #
       map Chunk [''do show'', '' clock'' @ [cr, nl] @ ''12:0'', ''0'' @ [cr, nl] @ ''R1(config)#''] \<rparr>"

lemma run_exec_output_witness:
  "fst (run_exec ''show clock'' demo_session) = Inr (trim_set (join_with [nl] [''12:00'']) [nl])"
proof (rule run_exec_output [where p = "''R1(config)#''"])
  let ?cs = "[''do show'', '' clock'' @ [cr, nl] @ ''12:0'', ''0'' @ [cr, nl] @ ''R1(config)#'']"
  have i: "es_in demo_session = Chunk ([cr] @ nl # ''R1(config)#'') #
      Chunk (reply (do_prefix ''R1(config)#'' @ ''terminal length 0'') [] ''R1(config)#'') # map Chunk ?cs" by code_simp
  have c: "concat ?cs = reply (do_prefix ''R1(config)#'' @ ''show clock'') [''12:00''] ''R1(config)#''" by code_simp
  have n: "\<not> complete_reply (do_prefix ''R1(config)#'' @ ''show clock'') (concat (take k ?cs))" if "k < length ?cs" for k
  proof -
    have "k = 0 \<or> k = 1 \<or> k = 2" using that by auto
    then show ?thesis by (elim disjE; hypsubst) code_simp+
  qed
  have "es_writes demo_session = None" by (simp add: demo_session_def)
  then show "answers ''R1(config)#'' ''show clock'' [''12:00''] demo_session"
    unfolding answers_def using i c n by blast
qed code_simp+

text \<open>A read that ends after something that looks like a prompt cuts the output short, and the lines of
  the output that look like a prompt or repeat the command are dropped wherever they stand.\<close>

lemma output_cut_short:
  "fst (await_command ''show x'' \<lparr> es_sent = [], es_writes = None, es_buf = [],
     es_in = [Chunk (''show x'' @ [nl] @ ''tag#''), Chunk (''2'' @ [nl] @ ''R1#'')] \<rparr>) = Inr ''tag#''"
  by (simp add: await_command.simps await_more_def session_feed_def char_names) code_simp

lemma prompt_like_lines_dropped:
  "clean_show_output (''a'' @ [nl] @ ''tag#'' @ [nl] @ ''show x'' @ [nl] @ ''b'' @ [nl] @ ''R1#'') ''show x'' = ''a'' @ [nl] @ ''b''"
  by code_simp

end
