(* ===== verification/Painter_Text.thy ===== *)
theory Painter_Text
  imports Go_Text
begin

text \<open>
  The token tests the painter's parsers share (painter/painter.go, num.go, match.go), and the MAC
  normaliser of interface_macs.go.
\<close>

definition is_digit :: "char \<Rightarrow> bool" where
  "is_digit c \<longleftrightarrow> digit_val c \<noteq> None"

definition painter_atoi :: "string \<Rightarrow> int" where
  "painter_atoi s = (case atoi (trim_space s) of None \<Rightarrow> 0 | Some n \<Rightarrow> n)"

text \<open>strconv.ParseInt with base 10 and 64 bits accepts what Atoi accepts where an int has 64 bits.\<close>

definition painter_atoi64 :: "string \<Rightarrow> int" where
  "painter_atoi64 s = (case atoi (trim_space s) of None \<Rightarrow> 0 | Some n \<Rightarrow> n)"

definition norm_iface :: "string \<Rightarrow> string" where
  "norm_iface s = to_lower (trim_space s)"

definition is_err_line :: "string \<Rightarrow> bool" where
  "is_err_line s = has_prefix (trim_space s) ''%''"

definition looks_like_id :: "string \<Rightarrow> bool" where
  "looks_like_id s =
     (let parts = split_on CHR ''.'' s
      in length parts = 4 \<and> list_all (\<lambda>p. p \<noteq> [] \<and> length p \<le> 3 \<and> list_all is_digit p) parts)"

definition looks_like_prefix :: "string \<Rightarrow> bool" where
  "looks_like_prefix s =
     (case cut_byte CHR ''/'' s of
        Some (base, bits) \<Rightarrow> bits \<noteq> [] \<and> list_all is_digit bits \<and> looks_like_id base
      | None \<Rightarrow> looks_like_id s)"

definition ascii_letter :: "char \<Rightarrow> bool" where
  "ascii_letter c \<longleftrightarrow> (let n = of_char c :: nat in 65 \<le> n \<and> n \<le> 90 \<or> 97 \<le> n \<and> n \<le> 122)"

definition looks_like_iface :: "string \<Rightarrow> bool" where
  "looks_like_iface s \<longleftrightarrow> s \<noteq> [] \<and> ascii_letter (hd s) \<and> list_ex is_digit s"

definition before_slash :: "string \<Rightarrow> string" where
  "before_slash s = (case cut_byte CHR ''/'' s of Some (a, _) \<Rightarrow> a | None \<Rightarrow> s)"

fun octets_match :: "string list \<Rightarrow> string list \<Rightarrow> bool" where
  "octets_match (n # ns) (h # hs) \<longleftrightarrow> n = ''0'' \<or> (n = h \<and> octets_match ns hs)"
| "octets_match ns hs \<longleftrightarrow> True"

definition host_in_network_base :: "string \<Rightarrow> string \<Rightarrow> bool" where
  "host_in_network_base net host =
     (let np = split_on CHR ''.'' net; hp = split_on CHR ''.'' host
      in length np = 4 \<and> length hp = 4 \<and> octets_match np hp)"

definition prefix_matches :: "string \<Rightarrow> string \<Rightarrow> bool" where
  "prefix_matches route dest \<longleftrightarrow> route = dest \<or> before_slash route = before_slash dest \<or>
     host_in_network_base (before_slash route) (before_slash dest)"

section \<open>Loops over the lines of an output\<close>

text \<open>A loop whose body may panic (None): the last state, the results that were kept, the first one.\<close>

fun fold_checked :: "('s \<Rightarrow> 'a \<Rightarrow> 's option) \<Rightarrow> 's \<Rightarrow> 'a list \<Rightarrow> 's option" where
  "fold_checked f s [] = Some s"
| "fold_checked f s (x # xs) = (case f s x of None \<Rightarrow> None | Some s1 \<Rightarrow> fold_checked f s1 xs)"

fun filter_checked :: "('a \<Rightarrow> 'b option option) \<Rightarrow> 'a list \<Rightarrow> 'b list option" where
  "filter_checked f [] = Some []"
| "filter_checked f (x # xs) =
     (case f x of
        None \<Rightarrow> None
      | Some None \<Rightarrow> filter_checked f xs
      | Some (Some y) \<Rightarrow> map_option (\<lambda>ys. y # ys) (filter_checked f xs))"

fun first_checked :: "('a \<Rightarrow> 'b option option) \<Rightarrow> 'a list \<Rightarrow> 'b option option" where
  "first_checked f [] = Some None"
| "first_checked f (x # xs) =
     (case f x of
        None \<Rightarrow> None
      | Some None \<Rightarrow> first_checked f xs
      | Some (Some y) \<Rightarrow> Some (Some y))"

lemma fold_checked_Some: "(\<And>s x. f s x = Some (g s x)) \<Longrightarrow> fold_checked f s xs = Some (foldl g s xs)"
  by (induction xs arbitrary: s) simp_all

lemma filter_checked_Some: "(\<And>x. f x = Some (g x)) \<Longrightarrow> filter_checked f xs = Some (List.map_filter g xs)"
  by (induction xs) (simp_all add: map_filter_simps split: option.split)

lemma first_checked_Some:
  "(\<And>x. f x = Some (g x)) \<Longrightarrow>
     first_checked f xs = Some (case List.map_filter g xs of [] \<Rightarrow> None | y # _ \<Rightarrow> Some y)"
  by (induction xs) (simp_all add: map_filter_simps split: option.split)

section \<open>MAC addresses\<close>

text \<open>encoding/hex: a pair of hexadecimal digits, either case.\<close>

definition hex_val :: "char \<Rightarrow> nat option" where
  "hex_val c = (let n = of_char c :: nat
     in if 48 \<le> n \<and> n \<le> 57 then Some (n - 48) else if 97 \<le> n \<and> n \<le> 102 then Some (n - 87)
        else if 65 \<le> n \<and> n \<le> 70 then Some (n - 55) else None)"

fun hex_decode :: "string \<Rightarrow> nat list option" where
  "hex_decode [] = Some []"
| "hex_decode [c] = None"
| "hex_decode (c # d # cs) =
     (case (hex_val c, hex_val d, hex_decode cs) of
        (Some a, Some b, Some rest) \<Rightarrow> Some ((16 * a + b) # rest)
      | _ \<Rightarrow> None)"

definition hex_digit :: "nat \<Rightarrow> char" where
  "hex_digit n = (if n < 10 then char_of (48 + n) else char_of (87 + n))"

definition hex2 :: "nat \<Rightarrow> string" where
  "hex2 n = [hex_digit (n div 16), hex_digit (n mod 16)]"

definition compact_mac :: "string \<Rightarrow> string option" where
  "compact_mac s =
     (if CHR ''.'' \<in> set s then
        (let parts = split_on CHR ''.'' s
         in if length parts \<noteq> 3 \<or> (\<exists>p \<in> set parts. length p \<noteq> 4) then None else Some (concat parts))
      else if CHR '':'' \<in> set s \<or> CHR ''-'' \<in> set s then
        (if CHR '':'' \<in> set s \<and> CHR ''-'' \<in> set s then None
         else let parts = split_on (if CHR ''-'' \<in> set s then CHR ''-'' else CHR '':'') s
              in if length parts \<noteq> 6 \<or> (\<exists>p \<in> set parts. length p \<noteq> 2) then None else Some (concat parts))
      else Some s)"

definition normalize_interface_mac :: "string \<Rightarrow> string option" where
  "normalize_interface_mac raw =
     (case compact_mac (to_lower (trim_space raw)) of
        None \<Rightarrow> None
      | Some compact \<Rightarrow>
          if length compact \<noteq> 12 then None
          else case hex_decode compact of
                 None \<Rightarrow> None
               | Some mac \<Rightarrow>
                   if length mac \<noteq> 6 \<or> list_all (\<lambda>b. b = 0) mac \<or> list_all (\<lambda>b. b = 255) mac then None
                   else Some (join_with '':'' (map hex2 mac)))"

section \<open>Lemmas\<close>

lemma cut_byte_None: "cut_byte x s = None \<longleftrightarrow> x \<notin> set s"
  by (induction x s rule: cut_byte.induct) auto

lemma cut_sub_absent: "c \<notin> set s \<Longrightarrow> cut_sub (c # sub) s = None"
  by (induction s) auto

lemma contains_sub_absent: "c \<notin> set s \<Longrightarrow> \<not> contains_sub s (c # sub)"
  by (simp add: contains_sub_def cut_sub_absent)

lemma painter_atoi_itoa: "int_range n \<Longrightarrow> painter_atoi (itoa n) = n"
proof -
  assume n: "int_range n"
  have "\<not> is_space c" if "c \<in> set (itoa n)" for c
    using that by (cases "n < 0") (auto simp: itoa_def is_space_def dest: set_dec_digits_of_char)
  then have "trim_space (itoa n) = itoa n" by (intro trim_space_idle) simp
  with n show ?thesis by (simp add: painter_atoi_def)
qed

text \<open>A host of the network a prefix names always matches it.\<close>

lemma octets_match_refl: "octets_match ns ns"
  by (induction ns) auto

section \<open>Words and columns\<close>

text \<open>A column of a table: a word, then space up to the width and one blank at least.\<close>

definition column :: "nat \<Rightarrow> string \<Rightarrow> string" where
  "column n s = s @ CHR '' '' # replicate (n - 1 - length s) CHR '' ''"

definition visible :: "string \<Rightarrow> bool" where
  "visible w \<longleftrightarrow> w \<noteq> [] \<and> list_all (\<lambda>c. \<not> is_space c) w"

lemma is_space_Char [simp]:
  "is_space (Char a b c d e f g h) \<longleftrightarrow> Char a b c d e f g h \<in> {CHR 0x09, CHR 0x0A, CHR 0x0B, CHR 0x0C, CHR 0x0D, CHR '' ''}"
proof -
  have eq: "(of_char x :: nat) = n \<longleftrightarrow> x = char_of n" if "n < 256" for x :: char and n
    using that char_of_eq_iff [of n x] by (auto simp: take_bit_eq_mod)
  have c: "char_of (9 :: nat) = CHR 0x09" "char_of (10 :: nat) = CHR 0x0A" "char_of (11 :: nat) = CHR 0x0B"
    "char_of (12 :: nat) = CHR 0x0C" "char_of (13 :: nat) = CHR 0x0D" "char_of (32 :: nat) = CHR '' ''"
    by code_simp+
  have e: "(of_char x :: nat) = 9 \<longleftrightarrow> x = char_of (9 :: nat)" "(of_char x :: nat) = 10 \<longleftrightarrow> x = char_of (10 :: nat)"
    "(of_char x :: nat) = 11 \<longleftrightarrow> x = char_of (11 :: nat)" "(of_char x :: nat) = 12 \<longleftrightarrow> x = char_of (12 :: nat)"
    "(of_char x :: nat) = 13 \<longleftrightarrow> x = char_of (13 :: nat)" "(of_char x :: nat) = 32 \<longleftrightarrow> x = char_of (32 :: nat)" for x :: char
    by (rule eq; simp)+
  have "is_space x \<longleftrightarrow> x \<in> {CHR 0x09, CHR 0x0A, CHR 0x0B, CHR 0x0C, CHR 0x0D, CHR '' ''}" for x
    unfolding is_space_def insert_iff empty_iff e [of x] c ..
  then show ?thesis .
qed

lemma visible_dest: "visible w \<Longrightarrow> w \<noteq> [] \<and> (\<forall>c \<in> set w. \<not> is_space c)"
  by (simp add: visible_def list_all_iff)

lemma visible_append [simp]: "visible a \<Longrightarrow> visible b \<Longrightarrow> visible (a @ b)"
  by (auto simp: visible_def)

lemma visible_Nil [simp]: "\<not> visible []"
  by (simp add: visible_def)

lemma visible_Cons [simp]: "visible (c # w) \<longleftrightarrow> \<not> is_space c \<and> (w = [] \<or> visible w)"
  by (auto simp: visible_def)

lemma one_line_replicate [simp]: "one_line (replicate n CHR '' '')"
  by (auto simp: one_line_def char_names)

lemma visible_itoa [simp]: "visible (itoa i)"
  using set_dec_digits_of_char by (fastforce simp: visible_def list_all_iff itoa_def is_space_def)

lemma go_fields_replicate [simp]: "go_fields (replicate n CHR '' '' @ s) = go_fields s"
  by (rule go_fields_spaces) auto

lemma go_fields_lead [simp]: "go_fields (CHR '' '' # s) = go_fields s"
  by (rule go_fields_space) simp

lemma go_fields_visible:
  assumes "visible w"
  shows "go_fields w = [w]" and "go_fields (w @ CHR '' '' # s) = w # go_fields s"
  using go_fields_word(1) [of w] go_fields_word(2) [of w "CHR '' ''" s] visible_dest [OF assms] by auto

lemma go_fields_column [simp]: "visible w \<Longrightarrow> go_fields (column n w @ s) = w # go_fields s"
  by (simp add: column_def go_fields_visible)

lemma trim_space_lead [simp]: "trim_space (CHR '' '' # s) = trim_space s"
  by (simp add: trim_space_def)

lemma visible_one_line [simp]: "visible w \<Longrightarrow> one_line w"
  by (auto simp: visible_def list_all_iff one_line_def is_space_def char_names)

lemma one_line_column [simp]: "one_line w \<Longrightarrow> one_line (column n w)"
  by (simp add: column_def char_names)

lemma one_line_cr: "one_line s \<Longrightarrow> trim_right_set s [cr] = s"
  by (intro trim_right_set_idle) (cases s rule: rev_cases; auto simp: one_line_def)

lemma visible_not_Nil [simp]: "visible w \<Longrightarrow> w \<noteq> []"
  by (simp add: visible_def)

lemma visible_last [simp]: "visible w \<Longrightarrow> \<not> is_space (last w)"
  by (simp add: visible_def list_all_iff)

lemma visible_hd [simp]: "visible w \<Longrightarrow> \<not> is_space (hd w)"
  by (simp add: visible_def list_all_iff)

lemma trim_ends: "s \<noteq> [] \<Longrightarrow> \<not> is_space (hd s) \<Longrightarrow> \<not> is_space (last s) \<Longrightarrow> trim_space s = s"
  by (simp add: trim_space_idle)

lemma looks_like_id_word:
  assumes "looks_like_id s"
  shows "visible s" and "is_digit (hd s)"
proof -
  let ?ps = "split_on CHR ''.'' s"
  have ps: "p \<noteq> [] \<and> list_all is_digit p" if "p \<in> set ?ps" for p
    using assms that by (auto simp: looks_like_id_def list_all_iff Let_def)
  have j: "join_with ''.'' ?ps = s" by (rule join_split)
  have c: "c = CHR ''.'' \<or> is_digit c" if "c \<in> set (join_with ''.'' ws)" "\<forall>p \<in> set ws. list_all is_digit p" for c ws
    using that by (induction "''.''" ws rule: join_with.induct) (auto simp: list_all_iff)
  have d: "\<not> is_space c" if "is_digit c" for c
    using that by (auto simp: is_digit_def digit_val_def is_space_def Let_def split: if_splits)
  obtain p rest where p: "?ps = p # rest" by (cases ?ps) auto
  then have p1: "p \<noteq> []" "list_all is_digit p" using ps [of p] by auto
  have h: "hd s = hd p \<and> s \<noteq> []" using p p1(1) j by (cases rest) auto
  then show "is_digit (hd s)" using p1 by (simp add: list_all_iff)
  show "visible s" using c [of _ ?ps] ps d h unfolding j visible_def list_all_iff by fastforce
qed

end
