(* ===== verification/Painter_Stp.thy ===== *)
theory Painter_Stp
  imports Painter_Text "HOL-Library.Monad_Syntax"
begin

text \<open>
  Reading "show spanning-tree" (painter/stp.go): the blocks of the output, one per VLAN, the stanzas
  and the port table of a block, the explanations of blocked ports, and the enumeration of VLANs.
\<close>

section \<open>The result\<close>

datatype port_role = RoleRoot | RoleDesg | RoleAltn | RoleBack

datatype port_state = StateFWD | StateBLK | StateLRN | StateLIS | StateDIS

record stp_port =
  sp_iface :: string
  sp_norm :: string
  sp_role :: port_role
  sp_state :: port_state
  sp_cost :: int
  sp_prio :: int
  sp_blocked :: bool
  sp_reason :: string

record stp_result =
  sr_vlan :: int
  sr_root_id :: string
  sr_bridge_id :: string
  sr_is_root :: bool
  sr_root_cost :: int
  sr_root_port :: string
  sr_ports :: "stp_port list"

definition stp_zero :: stp_result where
  "stp_zero = \<lparr> sr_vlan = 0, sr_root_id = [], sr_bridge_id = [], sr_is_root = False, sr_root_cost = 0,
     sr_root_port = [], sr_ports = [] \<rparr>"

definition stp_empty :: "stp_result \<Rightarrow> bool" where
  "stp_empty r \<longleftrightarrow> sr_root_id r = [] \<and> sr_ports r = []"

record stp_vlan =
  sv_id :: int
  sv_name :: string

record stp_block =
  sb_vlan :: int
  sb_lines :: "string list"

section \<open>Blocks\<close>

text \<open>What each parser reads, as a total function.\<close>

definition parse_all_digits :: "string \<Rightarrow> int option" where
  "parse_all_digits s = (if s = [] \<or> \<not> list_all is_digit s then None else Some (painter_atoi s))"

definition until_separator :: "string \<Rightarrow> string" where
  "until_separator s = takeWhile (\<lambda>c. c \<notin> {CHR '','', CHR '' '', tab}) s"

definition instance_prefix :: string where
  "instance_prefix = ''Spanning tree instance(s) for VLAN''"

definition vlan_of_header :: "string \<Rightarrow> int option" where
  "vlan_of_header trimmed =
     (case (if has_prefix trimmed ''VLAN'' \<and> length trimmed > 4
            then parse_all_digits (until_separator (drop 4 trimmed)) else None) of
        Some n \<Rightarrow> Some n
      | None \<Rightarrow>
          if has_prefix trimmed instance_prefix
          then parse_all_digits (until_separator (trim_space (drop (length instance_prefix) trimmed)))
          else None)"

definition block_step :: "stp_block list \<Rightarrow> string \<Rightarrow> stp_block list" where
  "block_step blocks raw =
     (let line = trim_right_set raw [cr]; trimmed = trim_space line
      in case vlan_of_header trimmed of
           Some v \<Rightarrow> blocks @ [\<lparr> sb_vlan = v, sb_lines = [] \<rparr>]
         | None \<Rightarrow>
             if blocks = [] \<and> (trimmed = [] \<or> is_err_line trimmed) then []
             else let bs = (if blocks = [] then [\<lparr> sb_vlan = 0, sb_lines = [] \<rparr>] else blocks)
                  in butlast bs @ [(last bs) \<lparr> sb_lines := sb_lines (last bs) @ [line] \<rparr>])"

definition blocks_of :: "string \<Rightarrow> stp_block list" where
  "blocks_of out = foldl block_step [] (text_lines out)"

section \<open>Lines\<close>

definition label_word :: "string \<Rightarrow> string \<Rightarrow> string" where
  "label_word line label =
     (case cut_sub label line of
        None \<Rightarrow> []
      | Some (_, rest) \<Rightarrow> (case go_fields rest of [] \<Rightarrow> [] | f # _ \<Rightarrow> f))"

definition via_port :: "string \<Rightarrow> string" where
  "via_port line =
     (case cut_sub ''via '' line of
        None \<Rightarrow> []
      | Some (_, rest) \<Rightarrow> (case go_fields rest of [] \<Rightarrow> [] | f # _ \<Rightarrow> trim_right_set f '',''))"

definition norm_role :: "string \<Rightarrow> port_role option" where
  "norm_role s =
     (let t = to_lower (trim_space s)
      in if t = ''root'' then Some RoleRoot
         else if t = ''desg'' \<or> t = ''designated'' then Some RoleDesg
         else if t = ''altn'' \<or> t = ''alt'' \<or> t = ''alternate'' then Some RoleAltn
         else if t = ''back'' \<or> t = ''backup'' then Some RoleBack
         else None)"

definition norm_state :: "string \<Rightarrow> port_state option" where
  "norm_state s =
     (let t = to_lower (trim_space s)
      in if t = ''fwd'' \<or> t = ''forwarding'' then Some StateFWD
         else if t = ''blk'' \<or> t = ''blocking'' then Some StateBLK
         else if t = ''lrn'' \<or> t = ''learning'' then Some StateLRN
         else if t = ''lis'' \<or> t = ''listening'' then Some StateLIS
         else if t = ''dis'' \<or> t = ''disabled'' then Some StateDIS
         else None)"

definition prio_of :: "string list \<Rightarrow> int" where
  "prio_of f =
     (if length f < 5 then 0
      else case cut_byte CHR ''.'' (f ! 4) of
             Some (a, _) \<Rightarrow> if a \<noteq> [] then painter_atoi a else painter_atoi (f ! 4)
           | None \<Rightarrow> painter_atoi (f ! 4))"

definition port_of_line :: "string \<Rightarrow> stp_port option" where
  "port_of_line line =
     (let f = go_fields line
      in if length f < 4 then None
         else case norm_role (f ! 1) of
                None \<Rightarrow> None
              | Some role \<Rightarrow> (case norm_state (f ! 2) of
                    None \<Rightarrow> None
                  | Some state \<Rightarrow> Some \<lparr> sp_iface = f ! 0, sp_norm = norm_iface (f ! 0), sp_role = role,
                      sp_state = state, sp_cost = painter_atoi (f ! 3), sp_prio = prio_of f,
                      sp_blocked = (role = RoleAltn \<or> role = RoleBack \<or> state = StateBLK), sp_reason = [] \<rparr>))"

section \<open>A block\<close>

record stp_scan =
  sc_in_root :: bool
  sc_in_bridge :: bool
  sc_root_prio :: string
  sc_root_addr :: string
  sc_br_prio :: string
  sc_br_addr :: string
  sc_saw_table :: bool
  sc_root_cost :: int
  sc_root_port :: string
  sc_ports :: "stp_port list"

definition scan_start :: stp_scan where
  "scan_start = \<lparr> sc_in_root = False, sc_in_bridge = False, sc_root_prio = [], sc_root_addr = [],
     sc_br_prio = [], sc_br_addr = [], sc_saw_table = False, sc_root_cost = 0, sc_root_port = [], sc_ports = [] \<rparr>"

definition or_else :: "string \<Rightarrow> string \<Rightarrow> string" where
  "or_else s t = (if s \<noteq> [] then s else t)"

text \<open>A line inside a stanza.  What the banner of the root sets, parseSTPBlock overwrites at its end.\<close>

definition read_stanza :: "string \<Rightarrow> stp_scan \<Rightarrow> stp_scan" where
  "read_stanza trimmed s =
     (let s1 = (if sc_in_root s
                then s \<lparr> sc_root_addr := or_else (label_word trimmed ''Address'') (sc_root_addr s),
                         sc_root_cost := (if label_word trimmed ''Cost'' \<noteq> [] then painter_atoi (label_word trimmed ''Cost'') else sc_root_cost s),
                         sc_root_port := or_else (sc_root_port s) (via_port trimmed) \<rparr>
                else s)
      in if sc_in_bridge s1 then s1 \<lparr> sc_br_addr := or_else (label_word trimmed ''Address'') (sc_br_addr s1) \<rparr> else s1)"

definition read_line :: "stp_scan \<Rightarrow> string \<Rightarrow> stp_scan" where
  "read_line s line =
     (let trimmed = trim_space line
      in if trimmed = [] \<or> is_err_line trimmed then s
         else if has_prefix trimmed ''Root ID'' then
           s \<lparr> sc_in_root := True, sc_in_bridge := False, sc_root_prio := or_else (label_word trimmed ''Priority'') (sc_root_prio s) \<rparr>
         else if has_prefix trimmed ''Bridge ID'' then
           s \<lparr> sc_in_root := False, sc_in_bridge := True, sc_br_prio := or_else (label_word trimmed ''Priority'') (sc_br_prio s) \<rparr>
         else let s1 = read_stanza trimmed s
              in if has_prefix trimmed ''Interface'' \<and> contains_sub trimmed ''Role'' then
                   s1 \<lparr> sc_in_root := False, sc_in_bridge := False, sc_saw_table := True \<rparr>
                 else if has_prefix trimmed ''---'' \<or> \<not> sc_saw_table s1 then s1
                 else case port_of_line line of
                        Some p \<Rightarrow> s1 \<lparr> sc_ports := sc_ports s1 @ [p] \<rparr>
                      | None \<Rightarrow> s1)"

definition bridge_id_text :: "string \<Rightarrow> string \<Rightarrow> string" where
  "bridge_id_text prio addr = (if prio \<noteq> [] \<and> addr \<noteq> [] then prio @ ''.'' @ addr else [])"

definition altn_reason :: "string \<Rightarrow> int \<Rightarrow> string" where
  "altn_reason root_port root_cost =
     ''Alternate port: a superior BPDU was received here, so the root bridge is reachable at a lower cost''
     @ (if root_port \<noteq> [] then '' via the root port '' @ root_port else [])
     @ (if root_cost > 0 then '' (root path cost '' @ itoa root_cost @ '')'' else [])
     @ ''. Spanning-tree blocks this redundant path to break the loop.''"

definition back_reason :: string where
  "back_reason = ''Backup port: this is a redundant connection to the same segment already served by a designated port on this bridge. Spanning-tree blocks it to break the loop.''"

definition blocking_reason :: "string \<Rightarrow> string" where
  "blocking_reason root_port =
     ''Port is blocking: it is not part of the active spanning tree toward the root''
     @ (if root_port \<noteq> [] then '' (root is reached via '' @ root_port @ '')'' else [])
     @ '', so it is blocked to break the loop.''"

definition port_reason :: "string \<Rightarrow> int \<Rightarrow> stp_port \<Rightarrow> string" where
  "port_reason root_port root_cost p =
     (case sp_role p of
        RoleAltn \<Rightarrow> altn_reason root_port root_cost
      | RoleBack \<Rightarrow> back_reason
      | _ \<Rightarrow> blocking_reason root_port)"

definition explained_root_port :: "stp_result \<Rightarrow> string" where
  "explained_root_port r =
     (if sr_root_port r \<noteq> [] then sr_root_port r
      else case filter (\<lambda>p. sp_role p = RoleRoot) (sr_ports r) of [] \<Rightarrow> [] | p # _ \<Rightarrow> sp_iface p)"

definition enrich_stp_reasons :: "stp_result \<Rightarrow> stp_result" where
  "enrich_stp_reasons r =
     r \<lparr> sr_ports := map (\<lambda>p. if sp_blocked p then p \<lparr> sp_reason := port_reason (explained_root_port r) (sr_root_cost r) p \<rparr> else p) (sr_ports r) \<rparr>"

definition read_block :: "stp_block \<Rightarrow> stp_result" where
  "read_block b =
     (let s = foldl read_line scan_start (sb_lines b);
          root = bridge_id_text (sc_root_prio s) (sc_root_addr s);
          own = bridge_id_text (sc_br_prio s) (sc_br_addr s)
      in enrich_stp_reasons \<lparr> sr_vlan = sb_vlan b, sr_root_id = root, sr_bridge_id = own,
           sr_is_root = (root \<noteq> [] \<and> root = own), sr_root_cost = sc_root_cost s, sr_root_port = sc_root_port s,
           sr_ports = sc_ports s \<rparr>)"

definition read_stp :: "string \<Rightarrow> stp_result" where
  "read_stp out = (case blocks_of out of [] \<Rightarrow> stp_zero | b # _ \<Rightarrow> read_block b)"

definition read_vlan_block :: "string \<Rightarrow> int \<Rightarrow> stp_result" where
  "read_vlan_block out vlan =
     (let blocks = blocks_of out
      in case filter (\<lambda>b. sb_vlan b = vlan \<or> sb_vlan b = 0 \<and> length blocks = 1) blocks of
           [] \<Rightarrow> stp_zero
         | b # _ \<Rightarrow> read_block b)"

section \<open>The VLANs of a node\<close>

definition read_name :: "bool \<times> (int \<Rightarrow> string) \<Rightarrow> string \<Rightarrow> bool \<times> (int \<Rightarrow> string)" where
  "read_name st raw =
     (let trimmed = trim_space (trim_right_set raw [cr]); f = go_fields trimmed
      in if trimmed = [] \<or> is_err_line trimmed then st
         else if has_prefix trimmed ''VLAN'' \<and> contains_sub trimmed ''Name'' then (True, snd st)
         else if has_prefix trimmed ''---'' \<or> \<not> fst st \<or> length f < 2 then st
         else case parse_all_digits (f ! 0) of
                None \<Rightarrow> st
              | Some n \<Rightarrow> (fst st, (snd st) (n := f ! 1)))"

definition brief_names_of :: "string \<Rightarrow> int \<Rightarrow> string" where
  "brief_names_of out =
     (if trim_space out = [] then (\<lambda>_. []) else snd (foldl read_name (False, \<lambda>_. []) (text_lines out)))"

fun read_vlans :: "int set \<Rightarrow> (int \<Rightarrow> string) \<Rightarrow> stp_block list \<Rightarrow> stp_vlan list" where
  "read_vlans seen names [] = []"
| "read_vlans seen names (b # bs) =
     (if sb_vlan b = 0 \<or> sb_vlan b \<in> seen \<or> stp_empty (read_block b) then read_vlans seen names bs
      else \<lparr> sv_id = sb_vlan b, sv_name = names (sb_vlan b) \<rparr> # read_vlans (insert (sb_vlan b) seen) names bs)"

definition read_stp_vlans :: "string \<Rightarrow> string \<Rightarrow> stp_vlan list" where
  "read_stp_vlans stp_out brief_out = read_vlans {} (brief_names_of brief_out) (blocks_of stp_out)"

section \<open>The parsers as they are written\<close>

text \<open>The functions of stp.go with every index expression checked: None is the panic of an index out
  of range.  Each of them, whatever its input, returns what its reading above says.\<close>

definition stp_vlan_header :: "string \<Rightarrow> int option option" where
  "stp_vlan_header trimmed = do {
     a \<leftarrow> (if has_prefix trimmed ''VLAN'' \<and> length trimmed > 4
          then map_option (\<lambda>d. parse_all_digits (until_separator d)) (slice trimmed 4 (length trimmed)) else Some None);
     (case a of
        Some n \<Rightarrow> Some (Some n)
      | None \<Rightarrow>
          if has_prefix trimmed instance_prefix
          then map_option (\<lambda>d. parse_all_digits (until_separator (trim_space d)))
            (slice trimmed (length instance_prefix) (length trimmed))
          else Some None) }"

definition split_step :: "stp_block list \<Rightarrow> string \<Rightarrow> stp_block list option" where
  "split_step blocks raw =
     (let line = trim_right_set raw [cr]; trimmed = trim_space line
      in case stp_vlan_header trimmed of
           None \<Rightarrow> None
         | Some (Some v) \<Rightarrow> Some (blocks @ [\<lparr> sb_vlan = v, sb_lines = [] \<rparr>])
         | Some None \<Rightarrow>
             if blocks = [] \<and> (trimmed = [] \<or> is_err_line trimmed) then Some []
             else let bs = (if blocks = [] then [\<lparr> sb_vlan = 0, sb_lines = [] \<rparr>] else blocks)
                  in map_option (\<lambda>b. butlast bs @ [b \<lparr> sb_lines := sb_lines b @ [line] \<rparr>]) (at bs (length bs - 1)))"

definition split_stp_blocks :: "string \<Rightarrow> stp_block list option" where
  "split_stp_blocks out = fold_checked split_step [] (text_lines out)"

definition after_label :: "string \<Rightarrow> string \<Rightarrow> string option" where
  "after_label line label =
     (case cut_sub label line of
        None \<Rightarrow> Some []
      | Some (_, rest) \<Rightarrow> let f = go_fields rest in if length f = 0 then Some [] else at f 0)"

definition stp_root_port :: "string \<Rightarrow> string option" where
  "stp_root_port line =
     (case cut_sub ''via '' line of
        None \<Rightarrow> Some []
      | Some (_, rest) \<Rightarrow>
          let f = go_fields rest in if length f > 0 then map_option (\<lambda>w. trim_right_set w '','') (at f 0) else Some [])"

definition port_prio :: "string list \<Rightarrow> int option" where
  "port_prio f =
     (if length f \<ge> 5
      then map_option (\<lambda>w. case cut_byte CHR ''.'' w of
             Some (a, _) \<Rightarrow> if a \<noteq> [] then painter_atoi a else painter_atoi w
           | None \<Rightarrow> painter_atoi w) (at f 4)
      else Some 0)"

definition parse_stp_port_line :: "string \<Rightarrow> stp_port option option" where
  "parse_stp_port_line line =
     (let f = go_fields line
      in if length f < 4 then Some None
         else do {
           w1 \<leftarrow> at f 1;
           (case norm_role w1 of
              None \<Rightarrow> Some None
            | Some role \<Rightarrow> do {
                w2 \<leftarrow> at f 2;
                (case norm_state w2 of
                   None \<Rightarrow> Some None
                 | Some state \<Rightarrow> do {
                     w0 \<leftarrow> at f 0;
                     w3 \<leftarrow> at f 3;
                     prio \<leftarrow> port_prio f;
                     Some (Some \<lparr> sp_iface = w0, sp_norm = norm_iface w0, sp_role = role,
                       sp_state = state, sp_cost = painter_atoi w3, sp_prio = prio,
                       sp_blocked = (role = RoleAltn \<or> role = RoleBack \<or> state = StateBLK), sp_reason = [] \<rparr>) }) }) })"

definition scan_stanza :: "string \<Rightarrow> stp_scan \<Rightarrow> stp_scan option" where
  "scan_stanza trimmed s = do {
     s1 \<leftarrow> (if sc_in_root s then do {
              a \<leftarrow> after_label trimmed ''Address'';
              c \<leftarrow> after_label trimmed ''Cost'';
              p \<leftarrow> stp_root_port trimmed;
              Some (s \<lparr> sc_root_addr := or_else a (sc_root_addr s),
                sc_root_cost := (if c \<noteq> [] then painter_atoi c else sc_root_cost s),
                sc_root_port := or_else (sc_root_port s) p \<rparr>) }
            else Some s);
     (if sc_in_bridge s1
      then map_option (\<lambda>a. s1 \<lparr> sc_br_addr := or_else a (sc_br_addr s1) \<rparr>) (after_label trimmed ''Address'')
      else Some s1) }"

definition scan_line :: "stp_scan \<Rightarrow> string \<Rightarrow> stp_scan option" where
  "scan_line s line =
     (let trimmed = trim_space line
      in if trimmed = [] \<or> is_err_line trimmed then Some s
         else if has_prefix trimmed ''Root ID'' then
           map_option (\<lambda>f. s \<lparr> sc_in_root := True, sc_in_bridge := False, sc_root_prio := or_else f (sc_root_prio s) \<rparr>)
             (after_label trimmed ''Priority'')
         else if has_prefix trimmed ''Bridge ID'' then
           map_option (\<lambda>f. s \<lparr> sc_in_root := False, sc_in_bridge := True, sc_br_prio := or_else f (sc_br_prio s) \<rparr>)
             (after_label trimmed ''Priority'')
         else do {
           s1 \<leftarrow> scan_stanza trimmed s;
           (if has_prefix trimmed ''Interface'' \<and> contains_sub trimmed ''Role'' then
              Some (s1 \<lparr> sc_in_root := False, sc_in_bridge := False, sc_saw_table := True \<rparr>)
            else if has_prefix trimmed ''---'' \<or> \<not> sc_saw_table s1 then Some s1
            else map_option (\<lambda>r. case r of
                   Some p \<Rightarrow> s1 \<lparr> sc_ports := sc_ports s1 @ [p] \<rparr>
                 | None \<Rightarrow> s1) (parse_stp_port_line line)) })"

definition parse_stp_block :: "stp_block \<Rightarrow> stp_result option" where
  "parse_stp_block b = do {
     s \<leftarrow> fold_checked scan_line scan_start (sb_lines b);
     let root = bridge_id_text (sc_root_prio s) (sc_root_addr s);
         own = bridge_id_text (sc_br_prio s) (sc_br_addr s)
     in Some (enrich_stp_reasons \<lparr> sr_vlan = sb_vlan b, sr_root_id = root, sr_bridge_id = own,
           sr_is_root = (root \<noteq> [] \<and> root = own), sr_root_cost = sc_root_cost s, sr_root_port = sc_root_port s,
           sr_ports = sc_ports s \<rparr>) }"

definition parse_stp :: "string \<Rightarrow> stp_result option" where
  "parse_stp out = do {
     blocks \<leftarrow> split_stp_blocks out;
     (if length blocks = 0 then Some stp_zero else do { b \<leftarrow> at blocks 0; parse_stp_block b }) }"

definition parse_stp_vlan_block :: "string \<Rightarrow> int \<Rightarrow> stp_result option" where
  "parse_stp_vlan_block out vlan = do {
     blocks \<leftarrow> split_stp_blocks out;
     (case filter (\<lambda>b. sb_vlan b = vlan \<or> sb_vlan b = 0 \<and> length blocks = 1) blocks of
        [] \<Rightarrow> Some stp_zero
      | b # _ \<Rightarrow> parse_stp_block b) }"

definition names_step :: "bool \<times> (int \<Rightarrow> string) \<Rightarrow> string \<Rightarrow> (bool \<times> (int \<Rightarrow> string)) option" where
  "names_step st raw =
     (let trimmed = trim_space (trim_right_set raw [cr]); f = go_fields trimmed
      in if trimmed = [] \<or> is_err_line trimmed then Some st
         else if has_prefix trimmed ''VLAN'' \<and> contains_sub trimmed ''Name'' then Some (True, snd st)
         else if has_prefix trimmed ''---'' \<or> \<not> fst st \<or> length f < 2 then Some st
         else do {
           w \<leftarrow> at f 0;
           (case parse_all_digits w of
              None \<Rightarrow> Some st
            | Some n \<Rightarrow> map_option (\<lambda>nm. (fst st, (snd st) (n := nm))) (at f 1)) })"

definition parse_vlan_brief_names :: "string \<Rightarrow> (int \<Rightarrow> string) option" where
  "parse_vlan_brief_names out =
     (if trim_space out = [] then Some (\<lambda>_. [])
      else map_option snd (fold_checked names_step (False, \<lambda>_. []) (text_lines out)))"

fun vlans_of_blocks :: "int set \<Rightarrow> (int \<Rightarrow> string) \<Rightarrow> stp_block list \<Rightarrow> stp_vlan list option" where
  "vlans_of_blocks seen names [] = Some []"
| "vlans_of_blocks seen names (b # bs) =
     (if sb_vlan b = 0 \<or> sb_vlan b \<in> seen then vlans_of_blocks seen names bs
      else do {
        blk \<leftarrow> parse_stp_block b;
        (if stp_empty blk then vlans_of_blocks seen names bs
         else map_option (\<lambda>vs. \<lparr> sv_id = sb_vlan b, sv_name = names (sb_vlan b) \<rparr> # vs)
           (vlans_of_blocks (insert (sb_vlan b) seen) names bs)) })"

definition parse_stp_vlans :: "string \<Rightarrow> string \<Rightarrow> stp_vlan list option" where
  "parse_stp_vlans stp_out brief_out = do {
     names \<leftarrow> parse_vlan_brief_names brief_out;
     blocks \<leftarrow> split_stp_blocks stp_out;
     vlans_of_blocks {} names blocks }"

lemma has_prefix_length: "has_prefix s p \<Longrightarrow> length p \<le> length s"
  by (induction s p rule: has_prefix.induct) auto

lemma stp_vlan_header_checked: "stp_vlan_header t = Some (vlan_of_header t)"
  using has_prefix_length [of t instance_prefix] has_prefix_length [of t "''VLAN''"]
  by (simp add: stp_vlan_header_def vlan_of_header_def split: option.split)

lemma split_step_checked: "split_step blocks raw = Some (block_step blocks raw)"
  by (simp add: split_step_def block_step_def stp_vlan_header_checked Let_def last_conv_nth split: option.split)

lemma split_stp_blocks_checked: "split_stp_blocks out = Some (blocks_of out)"
  by (simp add: split_stp_blocks_def blocks_of_def fold_checked_Some [OF split_step_checked])

lemma after_label_checked: "after_label line label = Some (label_word line label)"
  by (auto simp: after_label_def label_word_def Let_def neq_Nil_conv split: option.split list.split)

lemma stp_root_port_checked: "stp_root_port line = Some (via_port line)"
  by (auto simp: stp_root_port_def via_port_def Let_def split: option.split list.split)

lemma port_prio_checked: "port_prio f = Some (prio_of f)"
  by (simp add: port_prio_def prio_of_def)

lemma parse_stp_port_line_checked: "parse_stp_port_line line = Some (port_of_line line)"
proof (cases "length (go_fields line) < 4")
  case False
  then have "go_fields line \<noteq> []" by auto
  then show ?thesis
    using False by (simp add: parse_stp_port_line_def port_of_line_def port_prio_checked Let_def split: option.split)
qed (simp add: parse_stp_port_line_def port_of_line_def)

lemma scan_stanza_checked: "scan_stanza trimmed s = Some (read_stanza trimmed s)"
  by (simp add: scan_stanza_def read_stanza_def after_label_checked stp_root_port_checked Let_def)

lemma scan_line_checked: "scan_line s line = Some (read_line s line)"
  by (simp add: scan_line_def read_line_def after_label_checked scan_stanza_checked parse_stp_port_line_checked Let_def)

lemma parse_stp_block_checked: "parse_stp_block b = Some (read_block b)"
  by (simp add: parse_stp_block_def read_block_def fold_checked_Some [OF scan_line_checked] Let_def)

lemma parse_stp_checked: "parse_stp out = Some (read_stp out)"
  by (cases "blocks_of out") (simp_all add: parse_stp_def read_stp_def split_stp_blocks_checked parse_stp_block_checked)

lemma parse_stp_vlan_block_checked: "parse_stp_vlan_block out vlan = Some (read_vlan_block out vlan)"
  by (simp add: parse_stp_vlan_block_def read_vlan_block_def split_stp_blocks_checked parse_stp_block_checked
      Let_def split: list.split)

lemma names_step_checked: "names_step st raw = Some (read_name st raw)"
proof (cases "length (go_fields (trim_space (trim_right_set raw [cr]))) < 2")
  case False
  then have "go_fields (trim_space (trim_right_set raw [cr])) \<noteq> []" by auto
  then show ?thesis using False by (simp add: names_step_def read_name_def Let_def split: option.split)
qed (simp add: names_step_def read_name_def Let_def)

lemma parse_vlan_brief_names_checked: "parse_vlan_brief_names out = Some (brief_names_of out)"
  by (simp add: parse_vlan_brief_names_def brief_names_of_def fold_checked_Some [OF names_step_checked])

lemma vlans_of_blocks_checked: "vlans_of_blocks seen names bs = Some (read_vlans seen names bs)"
  by (induction seen names bs rule: read_vlans.induct) (simp_all add: parse_stp_block_checked)

lemma parse_stp_vlans_checked: "parse_stp_vlans stp_out brief_out = Some (read_stp_vlans stp_out brief_out)"
  by (simp add: parse_stp_vlans_def read_stp_vlans_def parse_vlan_brief_names_checked split_stp_blocks_checked
      vlans_of_blocks_checked)

section \<open>What a switch prints\<close>

text \<open>The layout of "show spanning-tree vlan n" (IOS 17), as the comment of parseSTPBlock gives it.  A
  view is what the switch knows; the root prints a banner in place of its cost and root port.\<close>

record stp_view =
  vw_vlan :: nat
  vw_root_prio :: nat
  vw_root_addr :: string
  vw_prio :: nat
  vw_addr :: string
  vw_to_root :: "(nat \<times> nat \<times> string) option"
  vw_ports :: "(stp_port \<times> nat) list"

fun role_word :: "port_role \<Rightarrow> string" where
  "role_word RoleRoot = ''Root''"
| "role_word RoleDesg = ''Desg''"
| "role_word RoleAltn = ''Altn''"
| "role_word RoleBack = ''Back''"

fun state_word :: "port_state \<Rightarrow> string" where
  "state_word StateFWD = ''FWD''"
| "state_word StateBLK = ''BLK''"
| "state_word StateLRN = ''LRN''"
| "state_word StateLIS = ''LIS''"
| "state_word StateDIS = ''DIS''"

definition show_port :: "stp_port \<times> nat \<Rightarrow> string" where
  "show_port pn = (case pn of (p, nbr) \<Rightarrow>
     column 20 (sp_iface p) @ column 5 (role_word (sp_role p)) @ column 4 (state_word (sp_state p)) @
     column 10 (itoa (sp_cost p)) @ column 9 (itoa (sp_prio p) @ ''.'' @ itoa (int nbr)) @ ''Shr'')"

definition show_vlan :: "nat \<Rightarrow> string" where
  "show_vlan v = ''VLAN'' @ replicate (4 - length (dec_digits v)) CHR ''0'' @ dec_digits v"

definition timers_line :: string where
  "timers_line = ''             Hello Time   2 sec  Max Age 20 sec  Forward Delay 15 sec''"

definition show_to_root :: "(nat \<times> nat \<times> string) option \<Rightarrow> string list" where
  "show_to_root r =
     (case r of
        None \<Rightarrow> [''             This bridge is the root'']
      | Some (cost, nbr, name) \<Rightarrow>
          [''             Cost        '' @ itoa (int cost),
           ''             Port        '' @ itoa (int nbr) @ '' ('' @ name @ '')''])"

definition show_head :: "stp_view \<Rightarrow> string list" where
  "show_head v =
     [''  Spanning tree enabled protocol rstp'',
      ''  Root ID    Priority    '' @ itoa (int (vw_root_prio v)),
      ''             Address     '' @ vw_root_addr v]
     @ show_to_root (vw_to_root v) @
     [timers_line,
      ''  Bridge ID  Priority    '' @ itoa (int (vw_prio v)) @ ''  (priority 32768 sys-id-ext '' @ itoa (int (vw_vlan v)) @ '')'',
      ''             Address     '' @ vw_addr v,
      timers_line,
      ''Interface           Role Sts Cost      Prio.Nbr Type'',
      ''------------------- ---- --- --------- -------- ----'']"

definition show_spanning_tree :: "stp_view \<Rightarrow> string" where
  "show_spanning_tree v = join_with [nl] (show_vlan (vw_vlan v) # show_head v @ map show_port (vw_ports v))"

text \<open>Addresses are lower-case hexadecimal with dots; interface names start with none of the letters
  other lines of the output start with, and like the addresses hold no letter a label starts with.\<close>

definition plain_word :: "string \<Rightarrow> bool" where
  "plain_word w \<longleftrightarrow> visible w \<and> list_all (\<lambda>c. c \<notin> set ''ACv'') w"

definition port_name :: "string \<Rightarrow> bool" where
  "port_name w \<longleftrightarrow> visible w \<and> hd w \<notin> set ''%-BIRSV''"

definition wf_view :: "stp_view \<Rightarrow> bool" where
  "wf_view v \<longleftrightarrow> plain_word (vw_root_addr v) \<and> plain_word (vw_addr v) \<and>
     0 < vw_vlan v \<and> vw_vlan v < 4096 \<and>
     (case vw_to_root v of None \<Rightarrow> True | Some (cost, nbr, name) \<Rightarrow> int_range (int cost) \<and> plain_word name) \<and>
     list_all (\<lambda>(p, nbr). port_name (sp_iface p) \<and> sp_norm p = norm_iface (sp_iface p) \<and>
       int_range (sp_cost p) \<and> int_range (sp_prio p) \<and> sp_reason p = [] \<and>
       sp_blocked p = (sp_role p = RoleAltn \<or> sp_role p = RoleBack \<or> sp_state p = StateBLK)) (vw_ports v)"

section \<open>Rows of the table\<close>

lemma visible_words [simp]: "visible (role_word r)" "visible (state_word st)" "visible ''Shr''"
  subgoal by (cases r; hypsubst; code_simp)
  subgoal by (cases st; hypsubst; code_simp)
  by code_simp

lemma norm_role_word [simp]: "norm_role (role_word r) = Some r"
  by (cases r; hypsubst; code_simp)

lemma norm_state_word [simp]: "norm_state (state_word st) = Some st"
  by (cases st; hypsubst; code_simp)

lemma cut_byte_itoa: "cut_byte CHR ''.'' (itoa i @ CHR ''.'' # s) = Some (itoa i, s)"
  by (rule cut_byte_append) (rule not_in_itoa; simp)

lemma parse_show_port:
  assumes "port_name (sp_iface p)" and "sp_norm p = norm_iface (sp_iface p)" and "int_range (sp_cost p)"
    and "int_range (sp_prio p)" and "sp_reason p = []"
    and "sp_blocked p = (sp_role p = RoleAltn \<or> sp_role p = RoleBack \<or> sp_state p = StateBLK)"
  shows "port_of_line (show_port (p, nbr)) = Some p"
proof -
  define W where "W = itoa (sp_prio p) @ ''.'' @ itoa (int nbr)"
  have W: "visible W" unfolding W_def by (intro visible_append visible_itoa) (simp add: visible_def is_space_def)
  have f: "go_fields (show_port (p, nbr)) =
      [sp_iface p, role_word (sp_role p), state_word (sp_state p), itoa (sp_cost p), W, ''Shr'']"
    using assms(1) W unfolding show_port_def prod.case W_def [symmetric] by (simp add: port_name_def go_fields_visible(1))
  have "cut_byte CHR ''.'' W = Some (itoa (sp_prio p), itoa (int nbr))"
    unfolding W_def by (simp add: cut_byte_itoa)
  then have "prio_of (go_fields (show_port (p, nbr))) = sp_prio p"
    using assms(4) by (simp add: f prio_of_def painter_atoi_itoa)
  with f assms show ?thesis
    by (cases p) (simp add: port_of_line_def painter_atoi_itoa Let_def)
qed

section \<open>Reading it back\<close>

lemma header_none: "t \<noteq> [] \<Longrightarrow> hd t \<noteq> CHR ''V'' \<Longrightarrow> hd t \<noteq> CHR ''S'' \<Longrightarrow> vlan_of_header t = None"
  by (cases t) (simp_all add: vlan_of_header_def instance_prefix_def)

lemma split_steps:
  "(\<And>l. l \<in> set ls \<Longrightarrow> one_line l \<and> vlan_of_header (trim_space l) = None) \<Longrightarrow>
     foldl block_step [b] ls = [b \<lparr> sb_lines := sb_lines b @ ls \<rparr>]"
proof (induction ls arbitrary: b)
  case (Cons l ls)
  have "trim_right_set l [cr] = l"
    using Cons.prems [of l] by (intro trim_right_set_idle) (cases l rule: rev_cases; auto simp: one_line_def)
  then have "block_step [b] l = [b \<lparr> sb_lines := sb_lines b @ [l] \<rparr>]"
    using Cons.prems [of l] by (simp add: block_step_def)
  then show ?case using Cons.IH [of "b \<lparr> sb_lines := sb_lines b @ [l] \<rparr>"] Cons.prems by simp
qed simp

lemma is_digit_dec: "c \<in> set (dec_digits n) \<Longrightarrow> is_digit c"
  using set_dec_digits [of c n] by (auto simp: is_digit_def)

lemma vlan_digits:
  assumes "v < 2 ^ 31"
  defines "D \<equiv> replicate (4 - length (dec_digits v)) CHR ''0'' @ dec_digits v"
  shows "parse_all_digits D = Some (int v)" and "visible D" and "until_separator D = D"
proof -
  have d: "is_digit c" if "c \<in> set D" for c
    using that is_digit_dec by (auto simp: D_def is_digit_def digit_val_def)
  then have ns: "\<not> is_space c \<and> c \<noteq> CHR '','' \<and> c \<noteq> CHR ''-'' \<and> c \<noteq> CHR ''+''" if "c \<in> set D" for c
    using that by (fastforce simp: is_digit_def digit_val_def is_space_def Let_def split: if_splits)
  have ne: "D \<noteq> []" by (simp add: D_def)
  show "visible D" using ns ne by (simp add: visible_def list_all_iff)
  then have t: "trim_space D = D" by (intro trim_ends) simp_all
  have "hd D \<noteq> CHR ''-''" "hd D \<noteq> CHR ''+''" using ns [of "hd D"] ne by auto
  moreover have "parse_digits 0 D = Some v" by (simp add: D_def parse_leading_zeros)
  ultimately have "atoi D = Some (int v)" using ne assms(1) by (simp add: atoi_def Let_def int_range_def)
  then show "parse_all_digits D = Some (int v)"
    using d ne by (simp add: parse_all_digits_def list_all_iff painter_atoi_def t)
  have "tab \<notin> set D" "CHR '' '' \<notin> set D" using ns by (fastforce simp: is_space_def char_names)+
  then show "until_separator D = D"
    using ns by (auto simp: until_separator_def takeWhile_eq_all_conv)
qed

lemma header_show_vlan:
  "v < 2 ^ 31 \<Longrightarrow> vlan_of_header (trim_space (show_vlan v)) = Some (int v)"
proof -
  assume v: "v < 2 ^ 31"
  define D where "D = replicate (4 - length (dec_digits v)) CHR ''0'' @ dec_digits v"
  note D = vlan_digits [OF v, folded D_def]
  have s: "show_vlan v = ''VLAN'' @ D" by (simp add: show_vlan_def D_def)
  have "trim_space (''VLAN'' @ D) = ''VLAN'' @ D"
    using D(2) by (intro trim_ends) simp_all
  moreover have "0 < length D" using D(2) by (simp add: visible_def)
  ultimately show ?thesis by (simp add: s vlan_of_header_def D(1,3))
qed

text \<open>One lemma for each kind of line.\<close>

lemma scan_port:
  assumes "port_name (sp_iface p)" and "port_of_line (show_port (p, nbr)) = Some p"
    and "sc_saw_table s" and "\<not> sc_in_root s" and "\<not> sc_in_bridge s"
  shows "read_line s (show_port (p, nbr)) = s \<lparr> sc_ports := sc_ports s @ [p] \<rparr>"
proof -
  obtain c w where w: "sp_iface p = c # w" "c \<notin> set ''%-BIRSV''" "\<not> is_space c"
    using assms(1) by (cases "sp_iface p") (auto simp: port_name_def visible_def)
  obtain t where t: "show_port (p, nbr) = (c # t) @ ''Shr''" by (simp add: show_port_def column_def w(1))
  then have "trim_space (show_port (p, nbr)) = c # t @ ''Shr''"
    using w(3) by (subst t, subst trim_ends) simp_all
  moreover have "trim_space (c # t @ ''Shr'') = c # t @ ''Shr''"
    using w(3) by (subst trim_ends) simp_all
  ultimately show ?thesis
    using w(2) assms(2-5) by (simp add: read_line_def Let_def is_err_line_def read_stanza_def)
qed

lemma scan_ports:
  assumes "list_all (\<lambda>(p, nbr). port_name (sp_iface p) \<and> port_of_line (show_port (p, nbr)) = Some p) ps"
    and "sc_saw_table s" and "\<not> sc_in_root s" and "\<not> sc_in_bridge s"
  shows "foldl read_line s (map show_port ps) = s \<lparr> sc_ports := sc_ports s @ map fst ps \<rparr>"
  using assms
proof (induction ps arbitrary: s)
  case (Cons x ps)
  obtain p nbr where x: "x = (p, nbr)" by fastforce
  then show ?case using Cons scan_port [of p nbr s] by simp
qed simp

lemma scan_root_id: "read_line s (''  Root ID    Priority    '' @ itoa n) =
    s \<lparr> sc_in_root := True, sc_in_bridge := False, sc_root_prio := itoa n \<rparr>"
proof -
  have "trim_space (''  Root ID    Priority    '' @ itoa n) = ''Root ID    Priority    '' @ itoa n"
    by (simp, subst trim_ends) simp_all
  moreover have "trim_space (''Root ID    Priority    '' @ itoa n) = ''Root ID    Priority    '' @ itoa n"
    by (subst trim_ends) simp_all
  ultimately show ?thesis
    by (simp add: read_line_def Let_def is_err_line_def label_word_def go_fields_visible or_else_def)
qed

lemma scan_bridge_id: "read_line s (''  Bridge ID  Priority    '' @ itoa n @ ''  (priority 32768 sys-id-ext '' @ itoa m @ '')'') =
    s \<lparr> sc_in_root := False, sc_in_bridge := True, sc_br_prio := itoa n \<rparr>"
proof -
  define W where "W = itoa n @ ''  (priority 32768 sys-id-ext '' @ itoa m @ '')''"
  have W: "W \<noteq> []" "\<not> is_space (last W)" by (simp_all add: W_def)
  have f: "go_fields W = itoa n # go_fields (tl (''  (priority 32768 sys-id-ext '' @ itoa m @ '')''))"
    unfolding W_def by (simp add: go_fields_visible)
  have "trim_space (''  Bridge ID  Priority    '' @ W) = ''Bridge ID  Priority    '' @ W"
    using W by (simp, subst trim_ends) simp_all
  moreover have "trim_space (''Bridge ID  Priority    '' @ W) = ''Bridge ID  Priority    '' @ W"
    using W by (subst trim_ends) simp_all
  ultimately have "read_line s (''  Bridge ID  Priority    '' @ W) =
      s \<lparr> sc_in_root := False, sc_in_bridge := True, sc_br_prio := itoa n \<rparr>"
    by (simp add: read_line_def Let_def is_err_line_def label_word_def f or_else_def)
  then show ?thesis by (simp only: W_def append_assoc)
qed

lemma plain_word_dest: "plain_word w \<Longrightarrow> visible w \<and> CHR ''A'' \<notin> set w \<and> CHR ''C'' \<notin> set w \<and> CHR ''v'' \<notin> set w"
  by (auto simp: plain_word_def list_all_iff)

lemma scan_address:
  assumes a: "plain_word a" and t: "\<not> sc_saw_table s" and r: "sc_in_root s \<noteq> sc_in_bridge s"
  shows "read_line s (''             Address     '' @ a) =
    (if sc_in_root s then s \<lparr> sc_root_addr := a \<rparr> else s \<lparr> sc_br_addr := a \<rparr>)"
proof -
  have v: "visible a" "CHR ''C'' \<notin> set a" "CHR ''v'' \<notin> set a" using plain_word_dest [OF a] by auto
  have "trim_space (''             Address     '' @ a) = ''Address     '' @ a"
    using v(1) by (simp, subst trim_ends) simp_all
  moreover have "trim_space (''Address     '' @ a) = ''Address     '' @ a"
    using v(1) by (subst trim_ends) simp_all
  moreover have "via_port (''Address     '' @ a) = []"
    using v by (simp add: via_port_def cut_sub_absent)
  moreover have "label_word (''Address     '' @ a) ''Cost'' = []"
    using v by (simp add: label_word_def cut_sub_absent)
  moreover have "label_word (''Address     '' @ a) ''Address'' = a"
    using v by (simp add: label_word_def go_fields_visible)
  ultimately show ?thesis
    using t r v(1) by (simp add: read_line_def Let_def is_err_line_def read_stanza_def or_else_def)
qed

lemma scan_cost:
  assumes "int_range c" and t: "\<not> sc_saw_table s" and r: "sc_in_root s" "\<not> sc_in_bridge s"
  shows "read_line s (''             Cost        '' @ itoa c) = s \<lparr> sc_root_cost := c \<rparr>"
proof -
  have v: "CHR ''A'' \<notin> set (itoa c)" "CHR ''v'' \<notin> set (itoa c)" by (rule not_in_itoa; simp)+
  have "trim_space (''             Cost        '' @ itoa c) = ''Cost        '' @ itoa c"
    by (simp, subst trim_ends) simp_all
  moreover have "trim_space (''Cost        '' @ itoa c) = ''Cost        '' @ itoa c"
    by (subst trim_ends) simp_all
  moreover have "via_port (''Cost        '' @ itoa c) = []"
    using v by (simp add: via_port_def cut_sub_absent)
  moreover have "label_word (''Cost        '' @ itoa c) ''Cost'' = itoa c"
    by (simp add: label_word_def go_fields_visible)
  moreover have "label_word (''Cost        '' @ itoa c) ''Address'' = []"
    using v by (simp add: label_word_def cut_sub_absent)
  ultimately show ?thesis
    using t r assms(1) by (simp add: read_line_def Let_def is_err_line_def read_stanza_def or_else_def painter_atoi_itoa)
qed

lemma scan_port_hint:
  assumes w: "plain_word w" and t: "\<not> sc_saw_table s" and r: "sc_in_root s" "\<not> sc_in_bridge s"
  shows "read_line s (''             Port        '' @ itoa n @ '' ('' @ w @ '')'') = s"
proof -
  define W where "W = itoa n @ '' ('' @ w @ '')''"
  have v: "CHR ''A'' \<notin> set (itoa n)" "CHR ''v'' \<notin> set (itoa n)" "CHR ''C'' \<notin> set (itoa n)" by (rule not_in_itoa; simp)+
  then have W: "CHR ''A'' \<notin> set W" "CHR ''C'' \<notin> set W" "CHR ''v'' \<notin> set W" "W \<noteq> []" "\<not> is_space (last W)"
    using plain_word_dest [OF w] by (simp_all add: W_def)
  have "trim_space (''             Port        '' @ W) = ''Port        '' @ W"
    using W by (simp, subst trim_ends) simp_all
  moreover have "trim_space (''Port        '' @ W) = ''Port        '' @ W"
    using W by (subst trim_ends) simp_all
  moreover have "via_port (''Port        '' @ W) = []"
    using W by (simp add: via_port_def cut_sub_absent)
  moreover have "label_word (''Port        '' @ W) ''Cost'' = []"
    using W by (simp add: label_word_def cut_sub_absent)
  moreover have "label_word (''Port        '' @ W) ''Address'' = []"
    using W by (simp add: label_word_def cut_sub_absent)
  ultimately have "read_line s (''             Port        '' @ W) = s"
    using t r by (simp add: read_line_def Let_def is_err_line_def read_stanza_def or_else_def)
  then show ?thesis by (simp only: W_def append_assoc)
qed

text \<open>The lines without data, evaluated.\<close>

lemma literal_lines:
  "trim_space timers_line = ''Hello Time   2 sec  Max Age 20 sec  Forward Delay 15 sec''"
  "trim_space ''             This bridge is the root'' = ''This bridge is the root''"
  "via_port ''Hello Time   2 sec  Max Age 20 sec  Forward Delay 15 sec'' = []"
  "label_word ''Hello Time   2 sec  Max Age 20 sec  Forward Delay 15 sec'' ''Address'' = []"
  "label_word ''Hello Time   2 sec  Max Age 20 sec  Forward Delay 15 sec'' ''Cost'' = []"
  "via_port ''This bridge is the root'' = []"
  "label_word ''This bridge is the root'' ''Address'' = []"
  "label_word ''This bridge is the root'' ''Cost'' = []"
  "trim_space ''Interface           Role Sts Cost      Prio.Nbr Type'' = ''Interface           Role Sts Cost      Prio.Nbr Type''"
  "contains_sub ''Interface           Role Sts Cost      Prio.Nbr Type'' ''Role''"
  "label_word ''Interface           Role Sts Cost      Prio.Nbr Type'' ''Address'' = []"
  "trim_space ''------------------- ---- --- --------- -------- ----'' = ''------------------- ---- --- --------- -------- ----''"
  by code_simp+

lemma scan_timers:
  "\<not> sc_saw_table s \<Longrightarrow> read_line s timers_line = s"
  unfolding read_line_def literal_lines Let_def is_err_line_def
  by (simp add: read_stanza_def literal_lines or_else_def trim_ends)

lemma scan_banner:
  "\<not> sc_saw_table s \<Longrightarrow> read_line s ''             This bridge is the root'' = s"
  unfolding read_line_def literal_lines Let_def is_err_line_def
  by (simp add: read_stanza_def literal_lines or_else_def trim_ends)

lemma scan_table_head:
  "sc_in_bridge s \<Longrightarrow> \<not> sc_in_root s \<Longrightarrow> read_line s ''Interface           Role Sts Cost      Prio.Nbr Type'' =
     s \<lparr> sc_in_bridge := False, sc_in_root := False, sc_saw_table := True \<rparr>"
  unfolding read_line_def literal_lines Let_def is_err_line_def
  by (simp add: read_stanza_def literal_lines(10,11) or_else_def trim_ends)

lemma scan_rule:
  "\<not> sc_in_bridge s \<Longrightarrow> \<not> sc_in_root s \<Longrightarrow> read_line s ''------------------- ---- --- --------- -------- ----'' = s"
  unfolding read_line_def literal_lines Let_def is_err_line_def
  by (simp add: read_stanza_def trim_ends)

lemma scan_enabled: "read_line scan_start ''  Spanning tree enabled protocol rstp'' = scan_start"
  by code_simp

lemma scan_head:
  assumes w: "wf_view v"
  shows "foldl read_line scan_start (show_head v) = scan_start \<lparr> sc_root_prio := itoa (int (vw_root_prio v)),
    sc_root_addr := vw_root_addr v, sc_br_prio := itoa (int (vw_prio v)), sc_br_addr := vw_addr v, sc_saw_table := True,
    sc_root_cost := (case vw_to_root v of None \<Rightarrow> 0 | Some (cost, _) \<Rightarrow> int cost) \<rparr>"
proof -
  define s1 where "s1 = scan_start \<lparr> sc_in_root := True, sc_root_prio := itoa (int (vw_root_prio v)), sc_root_addr := vw_root_addr v \<rparr>"
  define s2 where "s2 = s1 \<lparr> sc_root_cost := (case vw_to_root v of None \<Rightarrow> 0 | Some (cost, _) \<Rightarrow> int cost) \<rparr>"
  have a: "plain_word (vw_root_addr v)" "plain_word (vw_addr v)" using w by (simp_all add: wf_view_def)
  have s1: "read_line (read_line (read_line scan_start ''  Spanning tree enabled protocol rstp'') (''  Root ID    Priority    '' @ itoa (int (vw_root_prio v))))
      (''             Address     '' @ vw_root_addr v) = s1"
    unfolding scan_enabled scan_root_id by (subst scan_address [OF a(1)]) (simp_all add: scan_start_def s1_def)
  have s2: "foldl read_line s1 (show_to_root (vw_to_root v)) = s2"
  proof (cases "vw_to_root v")
    case None
    then show ?thesis using scan_banner [of s1] by (simp add: show_to_root_def s2_def s1_def scan_start_def)
  next
    case (Some x)
    obtain cost nbr name where x: "x = (cost, nbr, name)" by (cases x)
    then have n: "int_range (int cost)" "plain_word name" using w Some by (simp_all add: wf_view_def)
    let ?t = "s1 \<lparr> sc_root_cost := int cost \<rparr>"
    have "read_line s1 (''             Cost        '' @ itoa (int cost)) = ?t"
      using n(1) by (rule scan_cost) (simp_all add: s1_def scan_start_def)
    moreover have "read_line ?t (''             Port        '' @ itoa (int nbr) @ '' ('' @ name @ '')'') = ?t"
      using n(2) by (rule scan_port_hint) (simp_all add: s1_def scan_start_def)
    ultimately show ?thesis by (simp only: show_to_root_def Some x s2_def option.case prod.case foldl.simps)
  qed
  have f: "\<not> sc_saw_table s2" "\<not> sc_saw_table (s2 \<lparr> sc_in_root := False, sc_in_bridge := True, sc_br_prio := p, sc_br_addr := q \<rparr>)" for p q
    by (simp_all add: s2_def s1_def scan_start_def)
  have b: "read_line (s2 \<lparr> sc_in_root := False, sc_in_bridge := True, sc_br_prio := itoa (int (vw_prio v)) \<rparr>)
      (''             Address     '' @ vw_addr v) =
      s2 \<lparr> sc_in_root := False, sc_in_bridge := True, sc_br_prio := itoa (int (vw_prio v)), sc_br_addr := vw_addr v \<rparr>"
    using f by (subst scan_address [OF a(2)]) (simp_all add: s2_def s1_def scan_start_def)
  have "foldl read_line scan_start (show_head v) =
      s2 \<lparr> sc_in_root := False, sc_in_bridge := False, sc_br_prio := itoa (int (vw_prio v)), sc_br_addr := vw_addr v, sc_saw_table := True \<rparr>"
    unfolding show_head_def foldl_append foldl.simps s1 s2 scan_timers [OF f(1)] scan_bridge_id b scan_timers [OF f(2)]
    by (subst scan_table_head; (subst scan_rule)?; simp)
  then show ?thesis by (simp add: s2_def s1_def scan_start_def)
qed

text \<open>The lines after the header hold no line break and no VLAN header, and cannot be taken for a prompt
  or for a command.\<close>

definition body_line :: "string \<Rightarrow> bool" where
  "body_line l \<longleftrightarrow> one_line l \<and> vlan_of_header (trim_space l) = None \<and> CHR '' '' \<in> set (trim_space l) \<and>
     (hd (trim_space l) \<notin> {CHR ''s'', CHR ''d''} \<or> last (trim_space l) = CHR ''r'')"

lemma body_lines:
  assumes w: "wf_view v" and l: "l \<in> set (show_head v @ map show_port (vw_ports v))"
  shows "body_line l"
proof -
  have v: "visible (vw_root_addr v)" "visible (vw_addr v)" using w plain_word_dest by (auto simp: wf_view_def)
  have tr: "body_line k" if "k \<in> set (show_to_root (vw_to_root v))" for k
  proof (cases "vw_to_root v")
    case None
    then have "k = ''             This bridge is the root''" using that by (simp add: show_to_root_def)
    then show ?thesis by (simp only:) code_simp
  next
    case (Some x)
    obtain cost nbr name where x: "x = (cost, nbr, name)" by (cases x)
    then have n: "visible name" using w Some plain_word_dest by (auto simp: wf_view_def)
    have "k = ''             Cost        '' @ itoa (int cost) \<or> k = ''             Port        '' @ itoa (int nbr) @ '' ('' @ name @ '')''"
      using that by (simp add: show_to_root_def Some x)
    then show ?thesis using n
      by (elim disjE; hypsubst) (simp_all add: body_line_def char_names trim_ends header_none)
  qed
  have lit: "body_line k" if "k \<in> {''  Spanning tree enabled protocol rstp'', timers_line,
      ''Interface           Role Sts Cost      Prio.Nbr Type'', ''------------------- ---- --- --------- -------- ----''}" for k
    using that unfolding insert_iff empty_iff by (elim disjE FalseE; hypsubst) code_simp+
  have port: "body_line (show_port (p, n))"
    if "(p, n) \<in> set (vw_ports v)" for p n
  proof -
    have pn: "port_name (sp_iface p)" using w that by (auto simp: wf_view_def list_all_iff)
    then have v: "visible (sp_iface p)" "hd (sp_iface p) \<noteq> CHR ''V''" "hd (sp_iface p) \<noteq> CHR ''S''" by (auto simp: port_name_def)
    have c: "one_line (column k w)" if "visible w" for k w using that by (auto simp: column_def one_line_def char_names dest: visible_one_line)
    have W: "visible (itoa (sp_prio p) @ ''.'' @ itoa (int n))"
      by (intro visible_append visible_itoa) (simp add: visible_def)
    have "one_line (show_port (p, n))" unfolding show_port_def prod.case using v W by (simp add: c char_names)
    moreover obtain t where t: "show_port (p, n) = (sp_iface p @ CHR '' '' # t) @ ''Shr''" by (simp add: show_port_def column_def)
    have "trim_space (show_port (p, n)) = show_port (p, n)" using v unfolding t by (intro trim_ends) simp_all
    ultimately show ?thesis using v by (simp add: body_line_def t header_none)
  qed
  consider "l \<in> {''  Spanning tree enabled protocol rstp'', timers_line, ''Interface           Role Sts Cost      Prio.Nbr Type'', ''------------------- ---- --- --------- -------- ----''}"
    | "l \<in> set (show_to_root (vw_to_root v))" | p n where "(p, n) \<in> set (vw_ports v)" "l = show_port (p, n)"
    | "l = ''  Root ID    Priority    '' @ itoa (int (vw_root_prio v))" | "l = ''             Address     '' @ vw_root_addr v"
    | "l = ''  Bridge ID  Priority    '' @ itoa (int (vw_prio v)) @ ''  (priority 32768 sys-id-ext '' @ itoa (int (vw_vlan v)) @ '')''"
    | "l = ''             Address     '' @ vw_addr v"
    using l unfolding show_head_def set_append set_map list.set Un_iff insert_iff empty_iff image_iff
    by (elim disjE bexE FalseE) (auto intro: that)
  then show ?thesis
  proof cases
    case 1
    then show ?thesis by (rule lit)
  next
    case 2
    then show ?thesis by (rule tr)
  next
    case (3 p n)
    then show ?thesis using port by simp
  next
    case 4
    then show ?thesis by (simp add: body_line_def char_names trim_ends header_none)
  next
    case 5
    then show ?thesis using v by (simp add: body_line_def char_names trim_ends header_none)
  next
    case 6
    then show ?thesis by (simp add: body_line_def char_names trim_ends header_none)
  next
    case 7
    then show ?thesis using v by (simp add: body_line_def char_names trim_ends header_none)
  qed
qed

lemma head_lines:
  assumes "wf_view v" and "l \<in> set (show_head v @ map show_port (vw_ports v))"
  shows "one_line l \<and> vlan_of_header (trim_space l) = None"
  using body_lines [OF assms] by (simp add: body_line_def)

text \<open>What the parser makes of the output of a view.  The line "Port 1 (Ethernet0/0)" of the output is
  not read: stpRootPort only knows lines with the word via, so the root port stays empty.\<close>

definition view_reading :: "stp_view \<Rightarrow> stp_result" where
  "view_reading v = enrich_stp_reasons \<lparr> sr_vlan = int (vw_vlan v),
      sr_root_id = itoa (int (vw_root_prio v)) @ ''.'' @ vw_root_addr v,
      sr_bridge_id = itoa (int (vw_prio v)) @ ''.'' @ vw_addr v,
      sr_is_root = (vw_root_prio v = vw_prio v \<and> vw_root_addr v = vw_addr v),
      sr_root_cost = (case vw_to_root v of None \<Rightarrow> 0 | Some (cost, _) \<Rightarrow> int cost),
      sr_root_port = [], sr_ports = map fst (vw_ports v) \<rparr>"

lemma parse_shown_view:
  assumes "wf_view v"
  shows "read_vlan_block (show_spanning_tree v) (int (vw_vlan v)) =
    view_reading v"
proof -
  let ?body = "show_head v @ map show_port (vw_ports v)"
  have vlan: "vw_vlan v < 2 ^ 31" "0 < vw_vlan v" using assms by (simp_all add: wf_view_def)
  have D: "visible (show_vlan (vw_vlan v))"
    using vlan_digits(2) [OF vlan(1)] by (simp add: show_vlan_def visible_def)
  have "text_lines (show_spanning_tree v) = show_vlan (vw_vlan v) # ?body"
    unfolding show_spanning_tree_def
    by (rule split_join) (use head_lines [OF assms] visible_one_line [OF D] in \<open>auto simp: one_line_def\<close>)
  moreover have "block_step [] (show_vlan (vw_vlan v)) = [\<lparr> sb_vlan = int (vw_vlan v), sb_lines = [] \<rparr>]"
  proof -
    have "last (show_vlan (vw_vlan v)) \<noteq> cr" using visible_last [OF D] by (auto simp: char_names)
    then have "trim_right_set (show_vlan (vw_vlan v)) [cr] = show_vlan (vw_vlan v)" by (intro trim_right_set_idle) simp
    then show ?thesis using header_show_vlan [OF vlan(1)] by (simp add: block_step_def Let_def)
  qed
  ultimately have "blocks_of (show_spanning_tree v) = [\<lparr> sb_vlan = int (vw_vlan v), sb_lines = ?body \<rparr>]"
    using split_steps [of ?body "\<lparr> sb_vlan = int (vw_vlan v), sb_lines = [] \<rparr>"] head_lines [OF assms]
    by (simp only: blocks_of_def foldl.simps) simp
  then have p: "read_vlan_block (show_spanning_tree v) (int (vw_vlan v)) =
      read_block \<lparr> sb_vlan = int (vw_vlan v), sb_lines = ?body \<rparr>"
    by (simp add: read_vlan_block_def)
  have "list_all (\<lambda>(p, nbr). port_name (sp_iface p) \<and> port_of_line (show_port (p, nbr)) = Some p) (vw_ports v)"
    using assms parse_show_port by (fastforce simp: wf_view_def list_all_iff)
  then have s: "foldl read_line scan_start ?body = scan_start \<lparr> sc_root_prio := itoa (int (vw_root_prio v)),
    sc_root_addr := vw_root_addr v, sc_br_prio := itoa (int (vw_prio v)), sc_br_addr := vw_addr v, sc_saw_table := True,
    sc_root_cost := (case vw_to_root v of None \<Rightarrow> 0 | Some (cost, _) \<Rightarrow> int cost), sc_ports := map fst (vw_ports v) \<rparr>"
    unfolding foldl_append scan_head [OF assms] by (subst scan_ports) (simp_all add: scan_start_def)
  have ne: "vw_root_addr v \<noteq> []" "vw_addr v \<noteq> []" using assms by (auto simp: wf_view_def dest: plain_word_dest)
  have dot: "CHR ''.'' \<notin> set (itoa n)" for n by (rule not_in_itoa; simp)
  have "itoa (int (vw_root_prio v)) @ ''.'' @ vw_root_addr v = itoa (int (vw_prio v)) @ ''.'' @ vw_addr v \<longleftrightarrow>
      vw_root_prio v = vw_prio v \<and> vw_root_addr v = vw_addr v"
    using append_sep_inject [OF dot dot] by simp
  then show ?thesis
    unfolding view_reading_def p read_block_def Let_def stp_block.select_convs s using ne
    by (simp add: bridge_id_text_def scan_start_def)
qed

text \<open>A result shows a view: the VLAN, the root and bridge ids, whether the two are the same, the cost,
  and every row of the table in order, a blocked one with an explanation and no other.\<close>

definition shows_view :: "stp_view \<Rightarrow> stp_result \<Rightarrow> bool" where
  "shows_view v r \<longleftrightarrow>
     sr_vlan r = int (vw_vlan v) \<and>
     sr_root_id r = itoa (int (vw_root_prio v)) @ ''.'' @ vw_root_addr v \<and>
     sr_bridge_id r = itoa (int (vw_prio v)) @ ''.'' @ vw_addr v \<and>
     sr_is_root r = (vw_root_prio v = vw_prio v \<and> vw_root_addr v = vw_addr v) \<and>
     sr_root_cost r = (case vw_to_root v of None \<Rightarrow> 0 | Some (cost, _) \<Rightarrow> int cost) \<and>
     map (\<lambda>p. p \<lparr> sp_reason := [] \<rparr>) (sr_ports r) = map fst (vw_ports v) \<and>
     list_all (\<lambda>p. (sp_reason p \<noteq> []) = sp_blocked p) (sr_ports r)"

lemma view_reading_shows:
  assumes "wf_view v" shows "shows_view v (view_reading v)"
proof -
  have r: "port_reason x c q \<noteq> []" for x c q
    by (simp add: port_reason_def altn_reason_def back_reason_def blocking_reason_def split: port_role.split)
  have "sp_reason (fst x) = [] \<and> (fst x) \<lparr> sp_reason := [] \<rparr> = fst x" if "x \<in> set (vw_ports v)" for x
    using assms that by (cases "fst x") (fastforce simp: wf_view_def list_all_iff)
  then show ?thesis
    by (auto simp: shows_view_def view_reading_def enrich_stp_reasons_def list_all_iff r comp_def)
qed

text \<open>What ParseSTPVlanBlock reads of the output of a switch, field by field and port by port.  The
  root port is the one thing that is lost.\<close>

lemma stp_output_read_back:
  assumes "wf_view v"
  shows "read_vlan_block (show_spanning_tree v) (int (vw_vlan v)) =
    enrich_stp_reasons \<lparr> sr_vlan = int (vw_vlan v),
      sr_root_id = itoa (int (vw_root_prio v)) @ ''.'' @ vw_root_addr v,
      sr_bridge_id = itoa (int (vw_prio v)) @ ''.'' @ vw_addr v,
      sr_is_root = (vw_root_prio v = vw_prio v \<and> vw_root_addr v = vw_addr v),
      sr_root_cost = (case vw_to_root v of None \<Rightarrow> 0 | Some (cost, _) \<Rightarrow> int cost),
      sr_root_port = [], sr_ports = map fst (vw_ports v) \<rparr>"
  using parse_shown_view [OF assms] by (simp only: view_reading_def)

definition demo_view :: stp_view where
  "demo_view = \<lparr> vw_vlan = 10, vw_root_prio = 24586, vw_root_addr = ''aabb.cc00.0100'', vw_prio = 32778, vw_addr = ''aabb.cc00.0200'',
     vw_to_root = Some (100, 1, ''Ethernet0/0''),
     vw_ports = [(\<lparr> sp_iface = ''Et0/0'', sp_norm = ''et0/0'', sp_role = RoleRoot, sp_state = StateFWD, sp_cost = 100, sp_prio = 128, sp_blocked = False, sp_reason = [] \<rparr>, 1),
       (\<lparr> sp_iface = ''Et0/1'', sp_norm = ''et0/1'', sp_role = RoleAltn, sp_state = StateBLK, sp_cost = 100, sp_prio = 128, sp_blocked = True, sp_reason = [] \<rparr>, 2)] \<rparr>"

lemma demo_view_wf: "wf_view demo_view"
proof -
  have "norm_iface ''Et0/0'' = ''et0/0''" "norm_iface ''Et0/1'' = ''et0/1''" by code_simp+
  then show ?thesis
    by (simp add: wf_view_def demo_view_def plain_word_def port_name_def visible_def int_range_def)
qed

lemma stp_output_read_back_witness:
  "sr_is_root (read_vlan_block (show_spanning_tree demo_view) (int (vw_vlan demo_view))) = False \<and>
   map sp_role (sr_ports (read_vlan_block (show_spanning_tree demo_view) (int (vw_vlan demo_view)))) = [RoleRoot, RoleAltn]"
proof -
  have w: "wf_view demo_view" by (rule demo_view_wf)
  show ?thesis unfolding stp_output_read_back [OF w] by (simp add: demo_view_def enrich_stp_reasons_def)
qed

section \<open>Whatever the output is\<close>

lemma parse_port_line_blocked:
  "port_of_line line = Some p \<Longrightarrow>
     sp_blocked p = (sp_role p = RoleAltn \<or> sp_role p = RoleBack \<or> sp_state p = StateBLK) \<and> sp_reason p = [] \<and>
     sp_norm p = norm_iface (sp_iface p)"
  by (auto simp: port_of_line_def Let_def split: if_splits option.splits)

lemma scan_line_ports: "sc_ports (read_line s line) = sc_ports s \<or> (\<exists>p. port_of_line line = Some p \<and> sc_ports (read_line s line) = sc_ports s @ [p])"
proof -
  have st: "sc_ports (read_stanza t s) = sc_ports s" for t by (simp add: read_stanza_def Let_def)
  show ?thesis
    unfolding read_line_def Let_def by (cases "port_of_line line") (simp_all add: st)
qed

lemma scan_ports_from: "p \<in> set (sc_ports (foldl read_line s ls)) \<Longrightarrow> p \<in> set (sc_ports s) \<or> (\<exists>l \<in> set ls. port_of_line l = Some p)"
proof (induction ls arbitrary: s)
  case (Cons l ls)
  then show ?case using scan_line_ports [of s l] by fastforce
qed simp

lemma port_reason_not_Nil: "port_reason rp rc p \<noteq> []"
  by (cases "sp_role p") (simp_all add: port_reason_def altn_reason_def back_reason_def blocking_reason_def)

text \<open>A port is blocked exactly if its role or state says so, and exactly the blocked ports have an explanation.\<close>

lemma stp_ports_explained:
  assumes "p \<in> set (sr_ports (read_block b))"
  shows "sp_blocked p = (sp_role p = RoleAltn \<or> sp_role p = RoleBack \<or> sp_state p = StateBLK)" and "sp_blocked p = (sp_reason p \<noteq> [])"
proof -
  obtain q rp rc where q: "q \<in> set (sc_ports (foldl read_line scan_start (sb_lines b)))"
      and p: "p = (if sp_blocked q then q \<lparr> sp_reason := port_reason rp rc q \<rparr> else q)"
    using assms by (auto simp: read_block_def enrich_stp_reasons_def Let_def split: if_splits)
  from q obtain l where "port_of_line l = Some q" using scan_ports_from by (fastforce simp: scan_start_def)
  note parse_port_line_blocked [OF this]
  then show "sp_blocked p = (sp_role p = RoleAltn \<or> sp_role p = RoleBack \<or> sp_state p = StateBLK)" "sp_blocked p = (sp_reason p \<noteq> [])"
    using p port_reason_not_Nil by (auto split: if_splits)
qed

text \<open>A VLAN is enumerated at most once, and none with the number 0.\<close>

lemma vlans_of_blocks_distinct:
  "distinct (map sv_id (read_vlans seen names bs)) \<and> set (map sv_id (read_vlans seen names bs)) \<inter> insert 0 seen = {}"
  by (induction seen names bs rule: read_vlans.induct) auto

lemma stp_vlans_distinct: "distinct (map sv_id (read_stp_vlans out brief)) \<and> 0 \<notin> set (map sv_id (read_stp_vlans out brief))"
  using vlans_of_blocks_distinct [of "{}"] unfolding read_stp_vlans_def by fastforce

text \<open>The line of a real switch that names the root port is not read: the result has no root port, and
  the explanations fall back on the row with the role Root.\<close>

lemma root_port_line_not_read:
  "via_port ''Port        1 (Ethernet0/0)'' = []"
  by code_simp

end
