(* ===== verification/Painter_Routes.thy ===== *)
theory Painter_Routes
  imports Painter_Text "HOL-Library.Monad_Syntax"
begin

text \<open>
  Reading the OSPF and EIGRP decisions of a router (painter/ospf.go, eigrp.go).
\<close>

section \<open>OSPF\<close>

text \<open>What each parser reads, as a total function; the parsers as they are written come after.\<close>

record ospf_neighbor =
  on_id :: string
  on_state :: string
  on_role :: string
  on_address :: string
  on_iface :: string
  on_norm :: string

record ospf_route =
  or_prefix :: string
  or_next_hop :: string
  or_iface :: string
  or_norm :: string
  or_cost :: int

definition route_zero :: ospf_route where
  "route_zero = \<lparr> or_prefix = [], or_next_hop = [], or_iface = [], or_norm = [], or_cost = 0 \<rparr>"

definition split_state :: "string \<Rightarrow> string \<times> string" where
  "split_state s =
     (case cut_byte CHR ''/'' s of
        Some (state, role) \<Rightarrow> (state, if role = ''-'' then [] else role)
      | None \<Rightarrow> (s, []))"

text \<open>A line of the scan, without its carriage return and surrounding space, unless it is skipped.\<close>

definition data_line :: "string \<Rightarrow> string option" where
  "data_line raw =
     (let trimmed = trim_space (trim_right_set raw [cr])
      in if trimmed = [] \<or> is_err_line trimmed then None else Some trimmed)"

definition neighbor_of_line :: "string \<Rightarrow> ospf_neighbor option" where
  "neighbor_of_line raw =
     (case data_line raw of
        None \<Rightarrow> None
      | Some trimmed \<Rightarrow>
          let f = go_fields trimmed
          in if has_prefix trimmed ''Neighbor ID'' \<or> length f < 6 \<or> \<not> looks_like_id (f ! 0) then None
             else Some \<lparr> on_id = f ! 0, on_state = fst (split_state (f ! 2)), on_role = snd (split_state (f ! 2)),
               on_address = f ! (length f - 2), on_iface = f ! (length f - 1), on_norm = norm_iface (f ! (length f - 1)) \<rparr>)"

definition neighbors_of :: "string \<Rightarrow> ospf_neighbor list" where
  "neighbors_of out = List.map_filter neighbor_of_line (text_lines out)"

definition is_route_line :: "string \<Rightarrow> bool" where
  "is_route_line s = (case go_fields s of f # _ \<Rightarrow> f = ''O'' | [] \<Rightarrow> False)"

text \<open>The loops over the fields keep the last bracket and the last hop after a via.\<close>

definition cost_step :: "int \<Rightarrow> string \<Rightarrow> int" where
  "cost_step cost tok =
     (if has_prefix tok ''['' \<and> contains_sub tok ''/''
      then case cut_byte CHR ''/'' (trim_set tok ''[]'') of Some (_, m) \<Rightarrow> painter_atoi m | None \<Rightarrow> cost
      else cost)"

definition via_word :: "string list \<Rightarrow> string \<Rightarrow> nat \<Rightarrow> string" where
  "via_word f hop i = (if f ! i = ''via'' \<and> i + 1 < length f then trim_right_set (f ! (i + 1)) '','' else hop)"

definition hop_of :: "string list \<Rightarrow> string" where
  "hop_of f = foldl (via_word f) [] [0..<length f]"

definition route_of_line :: "string \<Rightarrow> ospf_route" where
  "route_of_line s =
     (let f = go_fields s
      in case filter looks_like_prefix f of
           [] \<Rightarrow> route_zero
         | p # _ \<Rightarrow>
             let name = (if looks_like_iface (last f) then last f else [])
             in \<lparr> or_prefix = p, or_next_hop = hop_of f, or_iface = name,
                  or_norm = (if name = [] then [] else norm_iface name), or_cost = foldl cost_step 0 f \<rparr>)"

definition route_wanted :: "string \<Rightarrow> string \<Rightarrow> ospf_route option" where
  "route_wanted dest raw =
     (case data_line raw of
        None \<Rightarrow> None
      | Some trimmed \<Rightarrow>
          if \<not> is_route_line trimmed then None
          else let r = route_of_line trimmed
               in if or_prefix r = [] \<or> dest \<noteq> [] \<and> \<not> prefix_matches (or_prefix r) dest then None else Some r)"

definition route_of :: "string \<Rightarrow> string \<Rightarrow> ospf_route" where
  "route_of out dest =
     (case List.map_filter (route_wanted dest) (text_lines out) of [] \<Rightarrow> route_zero | r # _ \<Rightarrow> r)"

section \<open>EIGRP\<close>

record eigrp_path =
  ep_next_hop :: string
  ep_iface :: string
  ep_norm :: string
  ep_fd :: int
  ep_rd :: int
  ep_successor :: bool
  ep_feasible :: bool

record eigrp_result =
  er_prefix :: string
  er_fd :: int
  er_paths :: "eigrp_path list"
  er_next_hop :: string

definition eigrp_empty :: "eigrp_result \<Rightarrow> bool" where
  "eigrp_empty r \<longleftrightarrow> er_paths r = [] \<and> er_next_hop r = []"

definition header_of_line :: "string \<Rightarrow> eigrp_path option" where
  "header_of_line line =
     (let f = go_fields line
      in if length f < 2 then None
         else if \<not> looks_like_id (trim_right_set (f ! 0) '','') then None
         else let name = (if has_prefix (f ! 1) ''('' \<and> looks_like_iface (trim_set (f ! 1) ''(),'') then trim_set (f ! 1) ''(),'' else [])
              in Some \<lparr> ep_next_hop = trim_right_set (f ! 0) '','', ep_iface = name,
                   ep_norm = (if name = [] then [] else norm_iface name), ep_fd = 0, ep_rd = 0, ep_successor = False, ep_feasible = False \<rparr>)"

record eigrp_scan =
  es_prefix :: string
  es_fd :: int
  es_done :: "eigrp_path list"
  es_cur :: "eigrp_path option"

definition eigrp_start :: eigrp_scan where
  "eigrp_start = \<lparr> es_prefix = [], es_fd = 0, es_done = [], es_cur = None \<rparr>"

definition eigrp_flush :: "eigrp_scan \<Rightarrow> eigrp_scan" where
  "eigrp_flush s = (case es_cur s of None \<Rightarrow> s | Some p \<Rightarrow> s \<lparr> es_done := es_done s @ [p], es_cur := None \<rparr>)"

text \<open>The metric of a descriptor block, as the pair in its parentheses.\<close>

definition composite_metric :: "string \<Rightarrow> (string \<times> string) option" where
  "composite_metric trimmed =
     (case cut_sub ''Composite metric is ('' trimmed of
        None \<Rightarrow> None
      | Some (_, inner) \<Rightarrow> (case cut_byte CHR '')'' inner of
            None \<Rightarrow> None
          | Some (pair, _) \<Rightarrow> cut_byte CHR ''/'' pair))"

definition read_eigrp_line :: "eigrp_scan \<Rightarrow> string \<Rightarrow> eigrp_scan" where
  "read_eigrp_line s raw =
     (case data_line raw of
        None \<Rightarrow> s
      | Some trimmed \<Rightarrow>
          (case cut_sub ''Topology entry for '' trimmed of
             Some (_, rest) \<Rightarrow> (case go_fields rest of [] \<Rightarrow> s | f # _ \<Rightarrow> s \<lparr> es_prefix := f \<rparr>)
           | None \<Rightarrow>
          (case cut_sub ''FD is '' trimmed of
             Some (_, rest) \<Rightarrow> (case go_fields rest of [] \<Rightarrow> s | f # _ \<Rightarrow> s \<lparr> es_fd := painter_atoi64 (trim_right_set f '','') \<rparr>)
           | None \<Rightarrow>
          (case header_of_line trimmed of
             Some p \<Rightarrow> (eigrp_flush s) \<lparr> es_cur := Some p \<rparr>
           | None \<Rightarrow>
          (case (es_cur s, composite_metric trimmed) of
             (Some p, Some (fd, rd)) \<Rightarrow> s \<lparr> es_cur := Some (p \<lparr> ep_fd := painter_atoi64 fd, ep_rd := painter_atoi64 rd \<rparr>) \<rparr>
           | _ \<Rightarrow> s)))))"

definition least_fd_step :: "int \<Rightarrow> eigrp_path \<Rightarrow> int" where
  "least_fd_step entry p = (if ep_fd p > 0 \<and> (entry = 0 \<or> ep_fd p < entry) then ep_fd p else entry)"

definition classify_path :: "int \<Rightarrow> eigrp_path \<Rightarrow> eigrp_path" where
  "classify_path entry p =
     (if entry > 0 \<and> ep_fd p = entry then p \<lparr> ep_successor := True \<rparr>
      else if entry > 0 \<and> ep_rd p > 0 \<and> ep_rd p < entry then p \<lparr> ep_feasible := True \<rparr>
      else p)"

definition next_hop_step :: "int \<Rightarrow> string \<Rightarrow> eigrp_path \<Rightarrow> string" where
  "next_hop_step entry hop p = (if entry > 0 \<and> ep_fd p = entry \<and> hop = [] then ep_next_hop p else hop)"

definition classify_eigrp_paths :: "eigrp_result \<Rightarrow> eigrp_result" where
  "classify_eigrp_paths r =
     (let entry = (if er_fd r = 0 then foldl least_fd_step 0 (er_paths r) else er_fd r)
      in r \<lparr> er_fd := entry, er_paths := map (classify_path entry) (er_paths r),
             er_next_hop := foldl (next_hop_step entry) (er_next_hop r) (er_paths r) \<rparr>)"

definition topology_of :: "string \<Rightarrow> eigrp_result" where
  "topology_of out =
     (let s = eigrp_flush (foldl read_eigrp_line eigrp_start (text_lines out))
      in classify_eigrp_paths \<lparr> er_prefix = es_prefix s, er_fd = es_fd s, er_paths = es_done s, er_next_hop = [] \<rparr>)"

section \<open>The parsers as they are written\<close>

text \<open>The functions of ospf.go and eigrp.go with every index expression checked: None is the panic of an
  index out of range.  Each of them, whatever its input, returns what its reading above says.\<close>

definition parse_neighbor_line :: "string \<Rightarrow> ospf_neighbor option option" where
  "parse_neighbor_line raw =
     (case data_line raw of
        None \<Rightarrow> Some None
      | Some trimmed \<Rightarrow>
          if has_prefix trimmed ''Neighbor ID'' then Some None
          else let f = go_fields trimmed
          in if length f < 6 then Some None
             else do {
               nid \<leftarrow> at f 0;
               (if \<not> looks_like_id nid then Some None
                else do {
                  st \<leftarrow> at f 2;
                  addr \<leftarrow> at f (length f - 2);
                  name \<leftarrow> at f (length f - 1);
                  Some (Some \<lparr> on_id = nid, on_state = fst (split_state st), on_role = snd (split_state st),
                    on_address = addr, on_iface = name, on_norm = norm_iface name \<rparr>) }) })"

definition parse_ospf_neighbors :: "string \<Rightarrow> ospf_neighbor list option" where
  "parse_ospf_neighbors out = filter_checked parse_neighbor_line (text_lines out)"

definition ospf_route_line :: "string \<Rightarrow> bool option" where
  "ospf_route_line s = (let f = go_fields s in if length f > 0 then map_option (\<lambda>w. w = ''O'') (at f 0) else Some False)"

definition via_step :: "string list \<Rightarrow> string \<Rightarrow> nat \<Rightarrow> string option" where
  "via_step f hop i = do {
     tok \<leftarrow> at f i;
     (if tok = ''via'' \<and> i + 1 < length f then map_option (\<lambda>w. trim_right_set w '','') (at f (i + 1)) else Some hop) }"

definition parse_route_line :: "string \<Rightarrow> ospf_route option" where
  "parse_route_line s =
     (let f = go_fields s
      in case filter looks_like_prefix f of
           [] \<Rightarrow> Some route_zero
         | p # _ \<Rightarrow> do {
             hop \<leftarrow> fold_checked (via_step f) [] [0..<length f];
             w \<leftarrow> at f (length f - 1);
             let name = (if looks_like_iface w then w else [])
             in Some \<lparr> or_prefix = p, or_next_hop = hop, or_iface = name,
                  or_norm = (if name = [] then [] else norm_iface name), or_cost = foldl cost_step 0 f \<rparr> })"

definition wanted_route :: "string \<Rightarrow> string \<Rightarrow> ospf_route option option" where
  "wanted_route dest raw =
     (case data_line raw of
        None \<Rightarrow> Some None
      | Some trimmed \<Rightarrow> do {
          is_route \<leftarrow> ospf_route_line trimmed;
          (if \<not> is_route then Some None
           else do {
             r \<leftarrow> parse_route_line trimmed;
             Some (if or_prefix r = [] \<or> dest \<noteq> [] \<and> \<not> prefix_matches (or_prefix r) dest then None else Some r) }) })"

definition parse_ospf_route :: "string \<Rightarrow> string \<Rightarrow> ospf_route option" where
  "parse_ospf_route out dest =
     map_option (\<lambda>r. case r of None \<Rightarrow> route_zero | Some rt \<Rightarrow> rt) (first_checked (wanted_route dest) (text_lines out))"

definition parse_block_header :: "string \<Rightarrow> eigrp_path option option" where
  "parse_block_header line =
     (let f = go_fields line
      in if length f < 2 then Some None
         else do {
           w0 \<leftarrow> at f 0;
           (if \<not> looks_like_id (trim_right_set w0 '','') then Some None
            else do {
              w1 \<leftarrow> at f 1;
              let name = (if has_prefix w1 ''('' \<and> looks_like_iface (trim_set w1 ''(),'') then trim_set w1 ''(),'' else [])
              in Some (Some \<lparr> ep_next_hop = trim_right_set w0 '','', ep_iface = name,
                   ep_norm = (if name = [] then [] else norm_iface name), ep_fd = 0, ep_rd = 0,
                   ep_successor = False, ep_feasible = False \<rparr>) }) })"

definition eigrp_line :: "eigrp_scan \<Rightarrow> string \<Rightarrow> eigrp_scan option" where
  "eigrp_line s raw =
     (case data_line raw of
        None \<Rightarrow> Some s
      | Some trimmed \<Rightarrow>
          (case cut_sub ''Topology entry for '' trimmed of
             Some (_, rest) \<Rightarrow>
               let f = go_fields rest in if length f > 0 then map_option (\<lambda>w. s \<lparr> es_prefix := w \<rparr>) (at f 0) else Some s
           | None \<Rightarrow>
          (case cut_sub ''FD is '' trimmed of
             Some (_, rest) \<Rightarrow>
               let f = go_fields rest
               in if length f > 0 then map_option (\<lambda>w. s \<lparr> es_fd := painter_atoi64 (trim_right_set w '','') \<rparr>) (at f 0) else Some s
           | None \<Rightarrow>
          (case parse_block_header trimmed of
             None \<Rightarrow> None
           | Some (Some p) \<Rightarrow> Some ((eigrp_flush s) \<lparr> es_cur := Some p \<rparr>)
           | Some None \<Rightarrow>
          Some (case (es_cur s, composite_metric trimmed) of
             (Some p, Some (fd, rd)) \<Rightarrow> s \<lparr> es_cur := Some (p \<lparr> ep_fd := painter_atoi64 fd, ep_rd := painter_atoi64 rd \<rparr>) \<rparr>
           | _ \<Rightarrow> s)))))"

definition parse_eigrp_topology :: "string \<Rightarrow> eigrp_result option" where
  "parse_eigrp_topology out =
     map_option (\<lambda>s. let s1 = eigrp_flush s
         in classify_eigrp_paths \<lparr> er_prefix = es_prefix s1, er_fd = es_fd s1, er_paths = es_done s1, er_next_hop = [] \<rparr>)
       (fold_checked eigrp_line eigrp_start (text_lines out))"

lemma parse_neighbor_line_checked: "parse_neighbor_line raw = Some (neighbor_of_line raw)"
proof (cases "data_line raw")
  case (Some t)
  show ?thesis
  proof (cases "length (go_fields t) < 6")
    case False
    then have "go_fields t \<noteq> []" by auto
    then show ?thesis using False Some by (simp add: parse_neighbor_line_def neighbor_of_line_def Let_def)
  qed (simp add: Some parse_neighbor_line_def neighbor_of_line_def Let_def)
qed (simp add: parse_neighbor_line_def neighbor_of_line_def)

lemma parse_ospf_neighbors_checked: "parse_ospf_neighbors out = Some (neighbors_of out)"
  by (simp add: parse_ospf_neighbors_def neighbors_of_def filter_checked_Some [OF parse_neighbor_line_checked])

lemma ospf_route_line_checked: "ospf_route_line s = Some (is_route_line s)"
  by (auto simp: ospf_route_line_def is_route_line_def Let_def split: list.split)

lemma via_fold_checked:
  "k \<le> length f \<Longrightarrow> fold_checked (via_step f) hop [i..<k] = Some (foldl (via_word f) hop [i..<k])"
proof (induction "k - i" arbitrary: i hop)
  case (Suc n)
  then have s: "[i..<k] = i # [Suc i..<k]" "i < length f" by (simp_all add: upt_rec)
  have "via_step f hop i = Some (via_word f hop i)" using s(2) by (simp add: via_step_def via_word_def)
  then show ?case using Suc.hyps(1) [of "Suc i"] Suc.hyps(2) Suc.prems by (simp add: s(1))
qed simp

lemma parse_route_line_checked: "parse_route_line s = Some (route_of_line s)"
proof (cases "filter looks_like_prefix (go_fields s)")
  case (Cons p ps)
  then have "go_fields s \<noteq> []" by auto
  then have "at (go_fields s) (length (go_fields s) - 1) = Some (last (go_fields s))" by (simp add: last_conv_nth)
  then show ?thesis using Cons by (simp add: parse_route_line_def route_of_line_def hop_of_def via_fold_checked Let_def)
qed (simp add: parse_route_line_def route_of_line_def)

lemma wanted_route_checked: "wanted_route dest raw = Some (route_wanted dest raw)"
  by (simp add: wanted_route_def route_wanted_def ospf_route_line_checked parse_route_line_checked Let_def split: option.split)

lemma parse_ospf_route_checked: "parse_ospf_route out dest = Some (route_of out dest)"
  by (simp add: parse_ospf_route_def route_of_def first_checked_Some [OF wanted_route_checked] split: list.split)

lemma parse_block_header_checked: "parse_block_header line = Some (header_of_line line)"
proof (cases "length (go_fields line) < 2")
  case False
  then have "go_fields line \<noteq> []" by auto
  then show ?thesis using False by (simp add: parse_block_header_def header_of_line_def Let_def)
qed (simp add: parse_block_header_def header_of_line_def)

lemma eigrp_line_checked: "eigrp_line s raw = Some (read_eigrp_line s raw)"
  by (simp add: eigrp_line_def read_eigrp_line_def parse_block_header_checked Let_def split: option.split list.split prod.split)

lemma eigrp_lines_checked: "fold_checked eigrp_line s ls = Some (foldl read_eigrp_line s ls)"
  by (rule fold_checked_Some) (rule eigrp_line_checked)

lemma parse_eigrp_topology_checked: "parse_eigrp_topology out = Some (topology_of out)"
  by (simp add: parse_eigrp_topology_def topology_of_def eigrp_lines_checked)

section \<open>What the classification says\<close>

definition raw_path :: "eigrp_path \<Rightarrow> bool" where
  "raw_path p \<longleftrightarrow> \<not> ep_successor p \<and> \<not> ep_feasible p \<and> looks_like_id (ep_next_hop p)"

lemma block_header_raw: "header_of_line line = Some p \<Longrightarrow> raw_path p"
  by (auto simp: header_of_line_def raw_path_def Let_def split: if_splits)

definition scan_raw :: "eigrp_scan \<Rightarrow> bool" where
  "scan_raw s \<longleftrightarrow> list_all raw_path (es_done s) \<and> (case es_cur s of None \<Rightarrow> True | Some p \<Rightarrow> raw_path p)"

lemma flush_raw [simp]: "scan_raw s \<Longrightarrow> scan_raw (eigrp_flush s)"
  by (auto simp: scan_raw_def eigrp_flush_def split: option.splits)

lemma flush_done: "scan_raw s \<Longrightarrow> list_all raw_path (es_done (eigrp_flush s))"
  by (auto simp: scan_raw_def eigrp_flush_def split: option.splits)

lemma line_raw: "scan_raw s \<Longrightarrow> scan_raw (read_eigrp_line s raw)"
proof -
  assume s: "scan_raw s"
  note cur = scan_raw_def raw_path_def
  have b: "scan_raw ((eigrp_flush s) \<lparr> es_cur := Some p \<rparr>)" if "header_of_line t = Some p" for t p
    using flush_done [OF s] block_header_raw [OF that] by (simp add: scan_raw_def)
  have c: "scan_raw (s \<lparr> es_cur := Some (p \<lparr> ep_fd := x, ep_rd := y \<rparr>) \<rparr>)" if "es_cur s = Some p" for p x y
    using s that by (simp add: cur)
  have d: "scan_raw (s \<lparr> es_prefix := x \<rparr>)" "scan_raw (s \<lparr> es_fd := y \<rparr>)" for x y
    using s by (simp_all add: scan_raw_def)
  show ?thesis
    unfolding read_eigrp_line_def by (auto split: option.split list.split intro: s b c d)
qed

lemma scan_lines_raw: "scan_raw s \<Longrightarrow> scan_raw (foldl read_eigrp_line s ls)"
  by (induction ls arbitrary: s) (auto intro: line_raw)

lemma least_fd_step_fold:
  assumes "0 \<le> e"
  shows "let m = foldl least_fd_step e ps; fds = {f \<in> insert e (set (map ep_fd ps)). f > 0}
         in m = (if fds = {} then 0 else Min fds)"
  using assms
proof (induction ps arbitrary: e)
  case Nil
  then have "{f \<in> insert e (set (map ep_fd [])). f > 0} = (if e > 0 then {e} else {})" by auto
  with Nil show ?case by (simp only: Let_def) simp
next
  case (Cons p ps)
  define e' where "e' = least_fd_step e p"
  have e': "0 \<le> e'" using Cons.prems by (simp add: e'_def least_fd_step_def)
  define A where "A = {f \<in> set (map ep_fd ps). f > 0}"
  have fin: "finite A" by (simp add: A_def)
  have split: "{f \<in> insert x (set (map ep_fd ps)). f > 0} = (if x > 0 then insert x A else A)" for x
    by (auto simp: A_def)
  have split2: "{f \<in> insert e (set (map ep_fd (p # ps))). f > 0} =
      (if e > 0 then {e} else {}) \<union> (if ep_fd p > 0 then {ep_fd p} else {}) \<union> A"
    by (auto simp: A_def)
  show ?case
    using Cons.IH [OF e'] Cons.prems unfolding Let_def split split2 foldl.simps e'_def [symmetric]
    by (cases "A = {}"; cases "e > 0"; cases "ep_fd p > 0") (auto simp: e'_def least_fd_step_def Min_insert fin min_def)
qed

lemma next_hop_fold:
  assumes "list_all raw_path ps"
  shows "foldl (next_hop_step e) h ps =
    (if h \<noteq> [] then h else case filter (\<lambda>p. e > 0 \<and> ep_fd p = e) ps of [] \<Rightarrow> [] | p # _ \<Rightarrow> ep_next_hop p)"
  using assms
proof (induction ps arbitrary: h)
  case (Cons p ps)
  have "ep_next_hop p \<noteq> []" using Cons.prems by (auto simp: raw_path_def looks_like_id_def split_on_def)
  then show ?case using Cons by (auto simp: next_hop_step_def)
qed simp

lemma classify_path_spec:
  assumes "raw_path p"
  defines "c \<equiv> \<lambda>e. classify_path e p"
  shows "ep_next_hop (c e) = ep_next_hop p" and "ep_iface (c e) = ep_iface p" and "ep_fd (c e) = ep_fd p" and "ep_rd (c e) = ep_rd p"
    and "ep_successor (c e) \<longleftrightarrow> e > 0 \<and> ep_fd p = e"
    and "ep_feasible (c e) \<longleftrightarrow> \<not> (e > 0 \<and> ep_fd p = e) \<and> 0 < ep_rd p \<and> ep_rd p < e"
  using assms(1) by (auto simp: c_def classify_path_def raw_path_def)

lemma flush_keeps [simp]: "es_fd (eigrp_flush s) = es_fd s" "es_prefix (eigrp_flush s) = es_prefix s"
  by (simp_all add: eigrp_flush_def split: option.split)

definition printed :: "eigrp_path \<Rightarrow> string \<times> string \<times> int \<times> int" where
  "printed p = (ep_next_hop p, ep_iface p, ep_fd p, ep_rd p)"

text \<open>C20. How an EIGRP topology entry is classified, whatever the output; blocks are the routing descriptor
  blocks the parser met in it, in order. A result comes back and lists exactly these, with the next hops,
  interfaces and metrics that were printed. The feasible distance is the one the entry prints, or failing
  that the least positive distance of a path. The first path at that distance, if there is one, is marked
  as a successor and gives the next hop; otherwise there is no next hop; a path at any other distance is
  never a successor, and no path is both successor and feasible successor. A path at another distance
  with a positive reported distance is a feasible successor exactly if its reported distance is below the
  feasible distance. (Of further paths at the feasible distance, and of a reported distance of zero,
  nothing is said.)\<close>

theorem eigrp_classified:
  assumes "fold_checked eigrp_line eigrp_start (text_lines out) = Some s" and "blocks = es_done (eigrp_flush s)"
    and "distances = {f \<in> set (map ep_fd blocks). f > 0}"
  shows "\<exists>r. parse_eigrp_topology out = Some r \<and>
      map printed (er_paths r) = map printed blocks \<and>
      er_fd r = (if es_fd s = 0 \<and> distances \<noteq> {} then Min distances else es_fd s) \<and>
      (case filter (\<lambda>p. 0 < er_fd r \<and> ep_fd p = er_fd r) (er_paths r) of
         [] \<Rightarrow> er_next_hop r = []
       | p # _ \<Rightarrow> ep_successor p \<and> er_next_hop r = ep_next_hop p) \<and>
      list_all (\<lambda>p. (ep_successor p \<longrightarrow> ep_fd p = er_fd r) \<and> \<not> (ep_successor p \<and> ep_feasible p) \<and>
        (ep_fd p \<noteq> er_fd r \<and> 0 < ep_rd p \<longrightarrow> ep_feasible p = (ep_rd p < er_fd r))) (er_paths r)"
proof -
  define r where "r = topology_of out"
  define e where "e = er_fd r"
  have sc: "s = foldl read_eigrp_line eigrp_start (text_lines out)" using assms(1) by (simp add: eigrp_lines_checked)
  have "scan_raw eigrp_start" by (simp add: scan_raw_def eigrp_start_def)
  then have raw: "list_all raw_path blocks" unfolding assms(2) sc by (intro flush_done scan_lines_raw)
  have r: "er_fd r = (if es_fd s = 0 then foldl least_fd_step 0 blocks else es_fd s)"
      "er_paths r = map (classify_path e) blocks" "er_next_hop r = foldl (next_hop_step e) [] blocks"
    unfolding e_def by (simp_all add: r_def topology_of_def sc [symmetric] assms(2) classify_eigrp_paths_def Let_def)
  have M: "{f \<in> insert 0 (set (map ep_fd blocks)). f > 0} = distances" by (auto simp: assms(3))
  have "foldl least_fd_step 0 blocks = (if distances = {} then 0 else Min distances)"
    by (rule least_fd_step_fold [of 0 blocks, unfolded Let_def M]) simp
  then have fd: "er_fd r = (if es_fd s = 0 \<and> distances \<noteq> {} then Min distances else es_fd s)"
    using r(1) by auto
  have same: "map printed (er_paths r) = map printed blocks"
    by (simp add: r(2) printed_def classify_path_def)
  have at_fd: "filter (\<lambda>p. 0 < e \<and> ep_fd p = e) (er_paths r) = map (classify_path e) (filter (\<lambda>p. 0 < e \<and> ep_fd p = e) blocks)"
    by (auto simp: r(2) filter_map comp_def classify_path_def intro!: arg_cong [where f = "map _"] filter_cong)
  have first: "case filter (\<lambda>p. 0 < e \<and> ep_fd p = e) (er_paths r) of
         [] \<Rightarrow> er_next_hop r = []
       | p # _ \<Rightarrow> ep_successor p \<and> er_next_hop r = ep_next_hop p"
  proof (cases "filter (\<lambda>p. 0 < e \<and> ep_fd p = e) blocks")
    case Nil
    then show ?thesis using next_hop_fold [OF raw, of e "[]"] by (simp add: at_fd r(3))
  next
    case (Cons p ps)
    then have "0 < e \<and> ep_fd p = e" by (metis (mono_tags) filter_eq_ConsD)
    moreover have "er_next_hop r = ep_next_hop p"
      using Cons next_hop_fold [OF raw, of e "[]"] by (simp add: r(3))
    ultimately show ?thesis unfolding at_fd Cons by (simp add: classify_path_def)
  qed
  have "list_all (\<lambda>p. (ep_successor p \<longrightarrow> ep_fd p = e) \<and> \<not> (ep_successor p \<and> ep_feasible p) \<and>
        (ep_fd p \<noteq> e \<and> 0 < ep_rd p \<longrightarrow> ep_feasible p = (ep_rd p < e))) (er_paths r)"
    unfolding r(2) list_all_iff using raw by (auto simp: list_all_iff classify_path_spec)
  then show ?thesis
    using same fd first unfolding e_def by (intro exI [of _ r]) (simp add: r_def parse_eigrp_topology_checked)
qed

definition demo_topology :: string where
  "demo_topology = join_with [nl]
     [''IP-EIGRP (AS 1): Topology entry for 10.0.0.0/24'',
      ''  State is Passive, Query origin flag is 1, 1 Successor(s), FD is 30'',
      ''  Routing Descriptor Blocks:'',
      ''  10.0.12.2 (Ethernet0/0), from 10.0.12.2, Send flag is 0x0'',
      ''      Composite metric is (30/28), route is Internal'',
      ''  10.0.13.3 (Ethernet0/1), from 10.0.13.3, Send flag is 0x0'',
      ''      Composite metric is (35/28), route is Internal'']"

lemma eigrp_classified_witness:
  "\<exists>r. parse_eigrp_topology demo_topology = Some r \<and> er_fd r = 30 \<and> er_next_hop r = ''10.0.12.2''"
proof -
  define s where "s = foldl read_eigrp_line eigrp_start (text_lines demo_topology)"
  define blocks where "blocks = es_done (eigrp_flush s)"
  have v: "es_fd s = 30" "map printed blocks =
      [(''10.0.12.2'', ''Ethernet0/0'', 30, 28), (''10.0.13.3'', ''Ethernet0/1'', 35, 28)]"
    unfolding blocks_def s_def by code_simp+
  obtain r where r: "parse_eigrp_topology demo_topology = Some r" "map printed (er_paths r) = map printed blocks"
      "er_fd r = 30"
      "case filter (\<lambda>p. 0 < er_fd r \<and> ep_fd p = er_fd r) (er_paths r) of
         [] \<Rightarrow> er_next_hop r = [] | p # _ \<Rightarrow> ep_successor p \<and> er_next_hop r = ep_next_hop p"
    using eigrp_classified [OF eigrp_lines_checked [of eigrp_start "text_lines demo_topology", folded s_def] blocks_def refl] v(1)
    by auto
  obtain p q where "er_paths r = [p, q]" "printed p = (''10.0.12.2'', ''Ethernet0/0'', 30, 28)"
    using r(2) v(2) by (auto simp: map_eq_Cons_conv)
  then show ?thesis using r(1,3,4) by (auto simp: printed_def)
qed

section \<open>What a router prints\<close>

definition show_neighbor :: "ospf_neighbor \<times> nat \<times> string \<Rightarrow> string" where
  "show_neighbor x = (case x of (n, pri, dead) \<Rightarrow>
     column 16 (on_id n) @ column 6 (itoa (int pri)) @
     (if on_role n = [] then column 9 (on_state n @ ''/'') @ column 7 ''-'' else column 16 (on_state n @ ''/'' @ on_role n)) @
     column 12 dead @ column 16 (on_address n) @ on_iface n)"

definition neighbor_head :: string where
  "neighbor_head = ''Neighbor ID     Pri   State           Dead Time   Address         Interface''"

definition show_ospf_neighbors :: "(ospf_neighbor \<times> nat \<times> string) list \<Rightarrow> string" where
  "show_ospf_neighbors ns = join_with [nl] (neighbor_head # map show_neighbor ns)"

definition wf_neighbor :: "ospf_neighbor \<times> nat \<times> string \<Rightarrow> bool" where
  "wf_neighbor x = (case x of (n, pri, dead) \<Rightarrow>
     looks_like_id (on_id n) \<and> visible (on_state n) \<and> CHR ''/'' \<notin> set (on_state n) \<and> on_role n \<noteq> ''-'' \<and>
     (on_role n = [] \<or> visible (on_role n)) \<and> visible dead \<and> visible (on_address n) \<and> visible (on_iface n) \<and>
     on_norm n = norm_iface (on_iface n))"

lemma parse_show_neighbor:
  assumes "wf_neighbor x"
  shows "neighbor_of_line (show_neighbor x) = Some (fst x)" and "one_line (show_neighbor x)"
proof -
  obtain n pri dead where x: "x = (n, pri, dead)" by (cases x)
  have w: "looks_like_id (on_id n)" "visible (on_state n)" "CHR ''/'' \<notin> set (on_state n)" "visible dead"
      "visible (on_address n)" "visible (on_iface n)" "on_norm n = norm_iface (on_iface n)"
    using assms by (simp_all add: wf_neighbor_def x)
  define F where "F = (if on_role n = [] then [on_state n @ ''/'', ''-''] else [on_state n @ ''/'' @ on_role n])"
  have vF: "list_all visible F"
    using assms w(2) by (auto simp: F_def wf_neighbor_def x intro: visible_append)
  have f: "go_fields (show_neighbor x) = on_id n # itoa (int pri) # F @ [dead, on_address n, on_iface n]"
    using w vF looks_like_id_word(1) [OF w(1)] unfolding show_neighbor_def x prod.case F_def
    by (cases "on_role n = []") (simp_all add: go_fields_visible(1))
  have o: "one_line (show_neighbor x)"
    using w vF looks_like_id_word(1) [OF w(1)] unfolding show_neighbor_def x prod.case F_def
    using assms by (cases "on_role n = []") (simp_all add: char_names wf_neighbor_def x)
  then show "one_line (show_neighbor x)" .
  obtain t where t: "show_neighbor x = (on_id n @ t) @ on_iface n" by (simp add: show_neighbor_def x column_def)
  have v: "visible (on_id n)" "is_digit (hd (on_id n))" using looks_like_id_word [OF w(1)] by simp_all
  have ts: "trim_space (show_neighbor x) = show_neighbor x" using v w(6) unfolding t by (intro trim_ends) simp_all
  obtain c cs where c: "on_id n = c # cs" "c \<noteq> CHR ''%''" "c \<noteq> CHR ''N''"
  proof -
    have "\<not> is_digit CHR ''%''" "\<not> is_digit CHR ''N''" by code_simp+
    then show thesis using v that by (cases "on_id n") auto
  qed
  have d: "data_line (show_neighbor x) = Some (show_neighbor x)"
    unfolding data_line_def one_line_cr [OF o] ts Let_def is_err_line_def ts using c by (simp add: t)
  have "split_state (F ! 0) = (on_state n, on_role n)"
    using cut_byte_append [OF w(3), of "on_role n"] cut_byte_append [OF w(3), of "[]"] assms
    by (auto simp: F_def split_state_def wf_neighbor_def x)
  moreover have "F \<noteq> []" by (simp add: F_def)
  moreover have "\<not> has_prefix (show_neighbor x) ''Neighbor ID''" using c by (simp add: t)
  ultimately show "neighbor_of_line (show_neighbor x) = Some (fst x)"
    using w(1,7) unfolding neighbor_of_line_def d option.case f Let_def
    by (cases n) (auto simp: x nth_append neq_Nil_conv)
qed

text \<open>C30. What ParseOSPFNeighbors reads is the table the router printed: for any list of adjacencies
  whose columns are words (an identifier the parser accepts as one, a state without a slash), laid
  out in the columns of IOS under its heading, it returns every adjacency in order, with the
  identifier, the state, the role (none where IOS prints a dash), the address and the interface,
  and no index of the parser is out of range.\<close>

theorem ospf_neighbors_read_back:
  assumes "list_all wf_neighbor ns"
  shows "parse_ospf_neighbors (show_ospf_neighbors ns) = Some (map fst ns)"
proof -
  have h: "one_line neighbor_head" "neighbor_of_line neighbor_head = None" by code_simp+
  have l: "neighbor_of_line (show_neighbor x) = Some (fst x) \<and> one_line (show_neighbor x)" if "x \<in> set ns" for x
    using assms that parse_show_neighbor by (simp add: list_all_iff)
  have "text_lines (show_ospf_neighbors ns) = neighbor_head # map show_neighbor ns"
    unfolding show_ospf_neighbors_def by (rule split_join) (use h l in \<open>auto simp: one_line_def\<close>)
  moreover have "List.map_filter neighbor_of_line (map show_neighbor xs) = map fst xs" if "set xs \<subseteq> set ns" for xs
    using that l by (induction xs) (auto simp: List.map_filter_def)
  ultimately show ?thesis by (simp add: parse_ospf_neighbors_checked neighbors_of_def map_filter_simps h)
qed

lemma ospf_neighbors_read_back_witness:
  "parse_ospf_neighbors (show_ospf_neighbors
     [(\<lparr> on_id = ''2.2.2.2'', on_state = ''FULL'', on_role = ''DR'', on_address = ''10.0.12.2'', on_iface = ''Ethernet0/0'', on_norm = ''ethernet0/0'' \<rparr>, 1, ''00:00:35''),
      (\<lparr> on_id = ''3.3.3.3'', on_state = ''FULL'', on_role = [], on_address = ''10.0.13.3'', on_iface = ''Serial1/0'', on_norm = ''serial1/0'' \<rparr>, 0, ''00:00:33'')]) =
   Some [\<lparr> on_id = ''2.2.2.2'', on_state = ''FULL'', on_role = ''DR'', on_address = ''10.0.12.2'', on_iface = ''Ethernet0/0'', on_norm = ''ethernet0/0'' \<rparr>,
    \<lparr> on_id = ''3.3.3.3'', on_state = ''FULL'', on_role = [], on_address = ''10.0.13.3'', on_iface = ''Serial1/0'', on_norm = ''serial1/0'' \<rparr>]"
  by (subst ospf_neighbors_read_back) code_simp+

text \<open>The destination test of ParseOSPFRoute gives up at the first zero octet of the network, also where
  more octets follow it.\<close>

lemma host_matches_other_network:
  "prefix_matches ''10.0.5.0/24'' ''10.9.9.9''"
  by code_simp

end
