(* ===== verification/Painter_Bgp.thy ===== *)
theory Painter_Bgp
  imports Painter_Text
begin

text \<open>
  Reading the BGP best-path decision of a router and explaining it (painter/bgp.go).  Index
  expressions the code does not guard are checked: None stands for a panic.
\<close>

section \<open>The result\<close>

record bgp_path =
  bp_next_hop :: string
  bp_as_path :: string
  bp_origin :: string
  bp_weight :: int
  bp_local_pref :: int
  bp_med :: int
  bp_best :: bool

record bgp_result =
  br_prefix :: string
  br_paths :: "bgp_path list"
  br_best_next_hop :: string
  br_reason :: string

definition bgp_empty :: "bgp_result \<Rightarrow> bool" where
  "bgp_empty r \<longleftrightarrow> br_paths r = []"

definition path_zero :: bgp_path where
  "path_zero = \<lparr> bp_next_hop = [], bp_as_path = [], bp_origin = [], bp_weight = 0, bp_local_pref = 0, bp_med = 0, bp_best = False \<rparr>"

section \<open>Lines\<close>

definition is_bgp_path_header :: "string \<Rightarrow> bool" where
  "is_bgp_path_header s =
     (let f = go_fields s in length f \<ge> 3 \<and> looks_like_id (f ! 0) \<and> f ! 1 = ''from'')"

definition is_bgp_as_path_line :: "string \<Rightarrow> bool" where
  "is_bgp_as_path_line s \<longleftrightarrow> s = ''Local'' \<or>
     (go_fields s \<noteq> [] \<and> list_all (\<lambda>tok. list_all is_digit (trim_right_set tok ''ie?'')) (go_fields s))"

definition origin_code :: "string \<Rightarrow> string option" where
  "origin_code word =
     (let w = to_lower word
      in if w = ''igp'' then Some ''i'' else if w = ''egp'' then Some ''e'' else if w = ''incomplete'' then Some ''?'' else None)"

text \<open>One token of an attribute line, with the tokens after it.\<close>

definition apply_attr :: "string \<Rightarrow> string list \<Rightarrow> bgp_path \<Rightarrow> bgp_path" where
  "apply_attr tok rest p =
     (if tok = ''best'' then p \<lparr> bp_best := True \<rparr>
      else case rest of
        [] \<Rightarrow> p
      | next # _ \<Rightarrow>
          if tok = ''Origin'' then (case origin_code next of Some c \<Rightarrow> p \<lparr> bp_origin := c \<rparr> | None \<Rightarrow> p)
          else if tok = ''metric'' then p \<lparr> bp_med := painter_atoi next \<rparr>
          else if tok = ''localpref'' then p \<lparr> bp_local_pref := painter_atoi next \<rparr>
          else if tok = ''weight'' then p \<lparr> bp_weight := painter_atoi next \<rparr>
          else p)"

fun apply_attrs :: "string list \<Rightarrow> bgp_path \<Rightarrow> bgp_path" where
  "apply_attrs [] p = p"
| "apply_attrs (tok # rest) p = apply_attrs rest (apply_attr tok rest p)"

definition apply_bgp_attrs :: "bgp_path \<Rightarrow> string \<Rightarrow> bgp_path" where
  "apply_bgp_attrs p line = apply_attrs (go_fields (replace_char CHR '','' CHR '' '' line)) p"

section \<open>The scan\<close>

record bgp_scan =
  bs_prefix :: string
  bs_done :: "bgp_path list"
  bs_cur :: "bgp_path option"
  bs_pending :: "string option"

definition bgp_start :: bgp_scan where
  "bgp_start = \<lparr> bs_prefix = [], bs_done = [], bs_cur = None, bs_pending = None \<rparr>"

definition bgp_flush :: "bgp_scan \<Rightarrow> bgp_scan" where
  "bgp_flush s = (case bs_cur s of None \<Rightarrow> s | Some p \<Rightarrow> s \<lparr> bs_done := bs_done s @ [p], bs_cur := None \<rparr>)"

definition bgp_line :: "bgp_scan \<Rightarrow> string \<Rightarrow> bgp_scan option" where
  "bgp_line s raw =
     (let trimmed = trim_space (trim_right_set raw [cr])
      in if trimmed = [] \<or> is_err_line trimmed then Some s
         else case cut_sub ''table entry for '' trimmed of
                Some (_, rest) \<Rightarrow>
                  map_option (\<lambda>f. s \<lparr> bs_prefix := trim_right_set f '','' \<rparr>) (at (go_fields rest) 0)
              | None \<Rightarrow>
                  if is_bgp_path_header trimmed then
                    map_option (\<lambda>hop. (bgp_flush s) \<lparr>
                        bs_cur := Some (path_zero \<lparr> bp_next_hop := hop, bp_as_path := (case bs_pending s of Some a \<Rightarrow> a | None \<Rightarrow> []) \<rparr>),
                        bs_pending := None \<rparr>) (at (go_fields trimmed) 0)
                  else if bs_cur s \<noteq> None \<and> has_prefix trimmed ''Origin'' then
                    Some (s \<lparr> bs_cur := map_option (\<lambda>p. apply_bgp_attrs p trimmed) (bs_cur s) \<rparr>)
                  else if is_bgp_as_path_line trimmed then Some (s \<lparr> bs_pending := Some trimmed \<rparr>)
                  else Some s)"

fun bgp_lines :: "bgp_scan \<Rightarrow> string list \<Rightarrow> bgp_scan option" where
  "bgp_lines s [] = Some s"
| "bgp_lines s (raw # ls) = (case bgp_line s raw of None \<Rightarrow> None | Some s' \<Rightarrow> bgp_lines s' ls)"

section \<open>The explanation\<close>

definition as_path_len :: "string \<Rightarrow> int" where
  "as_path_len s = (if s = [] \<or> s = ''Local'' then 0 else int (length (go_fields s)))"

definition origin_rank :: "string \<Rightarrow> int" where
  "origin_rank s = (if s = ''i'' then 0 else if s = ''e'' then 1 else if s = ''?'' then 2 else 3)"

definition origin_name :: "string \<Rightarrow> string" where
  "origin_name s = (if s = ''i'' then ''IGP'' else if s = ''e'' then ''EGP'' else if s = ''?'' then ''incomplete'' else s)"

text \<open>The attributes the explanation walks, in its order; of two paths the lower key wins.\<close>

datatype bgp_attr = Weight | LocalPref | PathLength | Origin | Med

fun attr_key :: "bgp_attr \<Rightarrow> bgp_path \<Rightarrow> int" where
  "attr_key Weight p = - bp_weight p"
| "attr_key LocalPref p = - bp_local_pref p"
| "attr_key PathLength p = as_path_len (bp_as_path p)"
| "attr_key Origin p = origin_rank (bp_origin p)"
| "attr_key Med p = bp_med p"

fun attr_reason :: "bgp_attr \<Rightarrow> bgp_path \<Rightarrow> bgp_path \<Rightarrow> string" where
  "attr_reason Weight best other = ''Best path: higher Weight ('' @ itoa (bp_weight best) @ '' vs '' @ itoa (bp_weight other)
     @ '') '' @ [CHR 0xE2, CHR 0x80, CHR 0x94] @ '' weight is the first BGP tiebreaker.''"
| "attr_reason LocalPref best other = ''Best path: higher Local Preference ('' @ itoa (bp_local_pref best) @ '' vs '' @ itoa (bp_local_pref other) @ '').''"
| "attr_reason PathLength best other = ''Best path: shorter AS-path ('' @ itoa (as_path_len (bp_as_path best)) @ '' vs '' @ itoa (as_path_len (bp_as_path other)) @ '' hops).''"
| "attr_reason Origin best other = ''Best path: lower Origin code ('' @ origin_name (bp_origin best) @ '' preferred over '' @ origin_name (bp_origin other) @ '').''"
| "attr_reason Med best other = ''Best path: lower MED ('' @ itoa (bp_med best) @ '' vs '' @ itoa (bp_med other) @ '').''"

definition bgp_attrs :: "bgp_attr list" where
  "bgp_attrs = [Weight, LocalPref, PathLength, Origin, Med]"

text \<open>The comparison of one rival: the first attribute on which the best path strictly wins.\<close>

definition win_reason :: "bgp_path \<Rightarrow> bgp_path \<Rightarrow> string option" where
  "win_reason best other =
     (if bp_weight best > bp_weight other then Some (attr_reason Weight best other)
      else if bp_local_pref best > bp_local_pref other then Some (attr_reason LocalPref best other)
      else if as_path_len (bp_as_path best) < as_path_len (bp_as_path other) then Some (attr_reason PathLength best other)
      else if origin_rank (bp_origin best) < origin_rank (bp_origin other) then Some (attr_reason Origin best other)
      else if bp_med best < bp_med other then Some (attr_reason Med best other)
      else None)"

text \<open>The first path marked best, and the others in their order.\<close>

fun split_best :: "bgp_path list \<Rightarrow> (bgp_path \<times> bgp_path list) option" where
  "split_best [] = None"
| "split_best (p # ps) =
     (if bp_best p then Some (p, ps) else map_option (\<lambda>(b, others). (b, p # others)) (split_best ps))"

definition only_reason :: string where
  "only_reason = ''Only one valid path is available, so it is selected as best.''"

definition other_reason :: string where
  "other_reason = ''Best path selected by BGP tiebreak (eBGP over iBGP / lowest router-id).''"

definition bgp_reason :: "bgp_path list \<Rightarrow> string" where
  "bgp_reason paths =
     (case split_best paths of
        None \<Rightarrow> []
      | Some (best, others) \<Rightarrow>
          if others = [] then only_reason
          else case List.map_filter (win_reason best) others of [] \<Rightarrow> other_reason | r # _ \<Rightarrow> r)"

definition parse_bgp :: "string \<Rightarrow> bgp_result option" where
  "parse_bgp out =
     map_option (\<lambda>s. let paths = bs_done (bgp_flush s)
         in \<lparr> br_prefix = bs_prefix s, br_paths = paths,
              br_best_next_hop = (case split_best paths of Some (b, _) \<Rightarrow> bp_next_hop b | None \<Rightarrow> []),
              br_reason = bgp_reason paths \<rparr>)
       (bgp_lines bgp_start (text_lines out))"

section \<open>No panic\<close>

lemma cut_sub_rest:
  "trim_space s \<noteq> [] \<Longrightarrow> cut_sub (sub @ '' '') (trim_space s) = Some (a, rest) \<Longrightarrow> go_fields rest \<noteq> []"
proof -
  assume ne: "trim_space s \<noteq> []" and c: "cut_sub (sub @ '' '') (trim_space s) = Some (a, rest)"
  from cut_sub_Some [OF c] have eq: "trim_space s = a @ (sub @ '' '') @ rest" .
  have "\<not> is_space (last (trim_space s))" using ne by (rule trim_space_last)
  then have "rest \<noteq> []" unfolding eq by (cases rest) auto
  moreover from this have "last rest = last (trim_space s)" unfolding eq by simp
  ultimately show "go_fields rest \<noteq> []"
    using \<open>\<not> is_space (last (trim_space s))\<close> last_in_set [of rest] by (auto simp: go_fields_eq_Nil)
qed

lemma bgp_line_total: "bgp_line s raw \<noteq> None"
proof -
  define t where "t = trim_space (trim_right_set raw [cr])"
  have a: "at (go_fields rest) 0 \<noteq> None" if "t \<noteq> []" "cut_sub ''table entry for '' t = Some (x, rest)" for x rest
    using cut_sub_rest [of "trim_right_set raw [cr]" "''table entry for''" x rest] that
    by (cases "go_fields rest") (simp_all add: t_def at_def)
  have b: "at (go_fields t) 0 \<noteq> None" if "is_bgp_path_header t"
    using that by (cases "go_fields t") (simp_all add: is_bgp_path_header_def at_def)
  show ?thesis
    unfolding bgp_line_def t_def [symmetric] Let_def using a b by (auto split: option.split)
qed

lemma bgp_lines_total: "\<exists>s'. bgp_lines s ls = Some s'"
  by (induction s ls rule: bgp_lines.induct) (use bgp_line_total in \<open>auto split: option.split\<close>)

text \<open>ParseBGP never panics: whatever the console printed, every index into the fields of a line is in
  range, and a result comes back.\<close>

theorem parse_bgp_total: "\<exists>r. parse_bgp out = Some r"
  using bgp_lines_total by (auto simp: parse_bgp_def)

section \<open>What the explanation says\<close>

definition deciding :: "bgp_path \<Rightarrow> bgp_path \<Rightarrow> bgp_attr option" where
  "deciding a b = find (\<lambda>x. attr_key x a \<noteq> attr_key x b) bgp_attrs"

text \<open>The decision process of a router up to the five attributes: the first on which two paths differ
  decides.\<close>

definition at_least_as_good :: "bgp_path \<Rightarrow> bgp_path \<Rightarrow> bool" where
  "at_least_as_good a b \<longleftrightarrow> (case deciding a b of None \<Rightarrow> True | Some x \<Rightarrow> attr_key x a < attr_key x b)"

lemma win_reason_deciding:
  "at_least_as_good best other \<Longrightarrow> win_reason best other = map_option (\<lambda>x. attr_reason x best other) (deciding best other)"
  by (auto simp: at_least_as_good_def deciding_def win_reason_def bgp_attrs_def split: if_splits)

text \<open>C21. Take a path marked best that the router may have chosen: it is no worse than any rival in the
  order of the decision process, and one and the same attribute decides against each of them. Then the
  explanation is right: it names that attribute, with the values of the best path and of the first rival
  listed; and if none of the five attributes tells the best path from any rival, it falls back on the
  later tie breaks. (Where different attributes decide against different rivals, the explanation only
  speaks of the first rival that differs.)\<close>

theorem bgp_reason_decides:
  assumes "split_best paths = Some (best, rival # rivals)"
    and "\<forall>other \<in> set (rival # rivals). at_least_as_good best other \<and> deciding best other = d"
  shows "bgp_reason paths = (case d of None \<Rightarrow> other_reason | Some a \<Rightarrow> attr_reason a best rival)"
proof -
  have w: "win_reason best other = map_option (\<lambda>x. attr_reason x best other) d" if "other \<in> set (rival # rivals)" for other
    using assms(2) that win_reason_deciding by metis
  show ?thesis
  proof (cases d)
    case None
    then have "List.map_filter (win_reason best) (rival # rivals) = []"
      using w by (auto simp: List.map_filter_def filter_empty_conv)
    then show ?thesis using None by (simp add: bgp_reason_def assms(1))
  next
    case (Some a)
    then show ?thesis using w [of rival] by (simp add: bgp_reason_def assms(1) map_filter_simps)
  qed
qed

lemma bgp_reason_decides_witness:
  "bgp_reason [path_zero \<lparr> bp_next_hop := ''10.0.12.2'', bp_as_path := ''100 200'' \<rparr>, path_zero \<lparr> bp_next_hop := ''10.0.13.3'', bp_as_path := ''300'', bp_best := True \<rparr>] =
   ''Best path: shorter AS-path (1 vs 2 hops).''"
proof -
  have l: "as_path_len ''300'' = 1" "as_path_len ''100 200'' = 2" by code_simp+
  have d: "deciding (path_zero \<lparr> bp_next_hop := ''10.0.13.3'', bp_as_path := ''300'', bp_best := True \<rparr>)
      (path_zero \<lparr> bp_next_hop := ''10.0.12.2'', bp_as_path := ''100 200'' \<rparr>) = Some PathLength"
    by (simp add: deciding_def bgp_attrs_def path_zero_def l)
  have i: "itoa 1 = ''1''" "itoa 2 = ''2''" by code_simp+
  show ?thesis
    by (subst bgp_reason_decides [where best = "path_zero \<lparr> bp_next_hop := ''10.0.13.3'', bp_as_path := ''300'', bp_best := True \<rparr>"
          and rival = "path_zero \<lparr> bp_next_hop := ''10.0.12.2'', bp_as_path := ''100 200'' \<rparr>" and rivals = "[]" and d = "Some PathLength"])
      (simp_all add: d at_least_as_good_def l i, simp_all add: path_zero_def l i)
qed

text \<open>With several rivals the attribute is the one that decides against the first of them, not the highest
  that decides against any.\<close>

lemma reason_of_first_rival:
  "bgp_reason [path_zero \<lparr> bp_weight := 100, bp_best := True \<rparr>, path_zero \<lparr> bp_weight := 100, bp_med := 5 \<rparr>, path_zero] =
   ''Best path: lower MED (0 vs 5).''"
proof -
  have i: "itoa 0 = ''0''" "itoa 5 = ''5''" by code_simp+
  show ?thesis by (simp add: bgp_reason_def path_zero_def map_filter_simps win_reason_def as_path_len_def origin_rank_def i)
qed

section \<open>What a router prints\<close>

definition origin_word :: "string \<Rightarrow> string" where
  "origin_word c = (if c = ''i'' then ''IGP'' else if c = ''e'' then ''EGP'' else ''incomplete'')"

definition show_path :: "bgp_path \<Rightarrow> string list" where
  "show_path p =
     [''  '' @ bp_as_path p,
      ''    '' @ bp_next_hop p @ '' from '' @ bp_next_hop p @ '' (1.1.1.1)'',
      ''      Origin '' @ origin_word (bp_origin p) @ '', metric '' @ itoa (bp_med p) @ '', localpref '' @ itoa (bp_local_pref p) @
        (if bp_weight p = 0 then [] else '', weight '' @ itoa (bp_weight p)) @ '', valid, external'' @ (if bp_best p then '', best'' else [])]"

definition show_bgp :: "string \<Rightarrow> bgp_path list \<Rightarrow> string" where
  "show_bgp prefix paths = join_with [nl]
     ([''BGP routing table entry for '' @ prefix @ '', version 5'',
       ''Paths: ('' @ itoa (int (length paths)) @ '' available, table default)'',
       ''  Not advertised to any peer''] @ concat (map show_path paths))"

definition wf_path :: "bgp_path \<Rightarrow> bool" where
  "wf_path p \<longleftrightarrow> looks_like_id (bp_next_hop p) \<and>
     (bp_as_path p = ''Local'' \<or>
      (let asns = split_on CHR '' '' (bp_as_path p) in list_all (\<lambda>a. a \<noteq> [] \<and> list_all is_digit a) asns)) \<and>
     bp_origin p \<in> {''i'', ''e'', ''?''} \<and> int_range (bp_med p) \<and> int_range (bp_local_pref p) \<and> int_range (bp_weight p)"

lemma go_fields_word_space:
  "visible w \<Longrightarrow> go_fields (w @ '' '' @ s) = w # go_fields s"
  by (simp add: go_fields_visible)

lemma go_fields_word_spaces:
  "visible w \<Longrightarrow> go_fields (w @ ''  '' @ s) = w # go_fields s"
  by (simp add: go_fields_visible)

lemma replace_char_simps [simp]:
  "replace_char x y [] = []" "replace_char x y (c # s) = (if c = x then y else c) # replace_char x y s"
  "replace_char x y (a @ b) = replace_char x y a @ replace_char x y b"
  by (simp_all add: replace_char_def)

lemma replace_char_absent: "x \<notin> set s \<Longrightarrow> replace_char x y s = s"
  by (auto simp: replace_char_def intro: map_idI)

lemma attr_tokens:
  assumes o: "visible (origin_word c)" "CHR '','' \<notin> set (origin_word c)"
  shows "go_fields (replace_char CHR '','' CHR '' '' (''Origin '' @ origin_word c @ '', metric '' @ itoa m @ '', localpref '' @ itoa l @
        (if w = 0 then [] else '', weight '' @ itoa w) @ '', valid, external'' @ (if b then '', best'' else []))) =
    [''Origin'', origin_word c, ''metric'', itoa m, ''localpref'', itoa l] @ (if w = 0 then [] else [''weight'', itoa w]) @
    [''valid'', ''external''] @ (if b then [''best''] else [])"
proof -
  have n: "CHR '','' \<notin> set (itoa k)" for k by (rule not_in_itoa; simp)
  have v: "visible ''Origin''" "visible ''metric''" "visible ''localpref''" "visible ''weight''" "visible ''valid''" "visible ''external''" "visible ''best''"
    by code_simp+
  define T where "T = ''valid'' @ ''  '' @ (if b then ''external'' @ ''  '' @ ''best'' else ''external'')"
  have t: "go_fields T = [''valid'', ''external''] @ (if b then [''best''] else [])"
  proof -
    have "go_fields (''valid'' @ ''  '' @ ''external'' @ ''  '' @ ''best'') = [''valid'', ''external'', ''best'']"
      "go_fields (''valid'' @ ''  '' @ ''external'') = [''valid'', ''external'']" by code_simp+
    then show ?thesis unfolding T_def by (cases b) simp_all
  qed
  define U where "U = (if w = 0 then T else ''weight'' @ '' '' @ itoa w @ ''  '' @ T)"
  have u: "go_fields U = (if w = 0 then [] else [''weight'', itoa w]) @ go_fields T"
  proof (cases "w = 0")
    case False
    have "go_fields (''weight'' @ '' '' @ itoa w @ ''  '' @ T) = ''weight'' # itoa w # go_fields T"
      by (simp only: go_fields_word_spaces go_fields_word_space v visible_itoa)
    with False show ?thesis by (simp add: U_def)
  qed (simp add: U_def)
  have eq: "replace_char CHR '','' CHR '' '' (''Origin '' @ origin_word c @ '', metric '' @ itoa m @ '', localpref '' @ itoa l @
        (if w = 0 then [] else '', weight '' @ itoa w) @ '', valid, external'' @ (if b then '', best'' else [])) =
      ''Origin'' @ '' '' @ origin_word c @ ''  '' @ ''metric'' @ '' '' @ itoa m @ ''  '' @ ''localpref'' @ '' '' @ itoa l @ ''  '' @ U"
    using n o(2) by (simp add: replace_char_absent U_def T_def)
  have "go_fields (''Origin'' @ '' '' @ origin_word c @ ''  '' @ ''metric'' @ '' '' @ itoa m @ ''  '' @ ''localpref'' @ '' '' @ itoa l @ ''  '' @ U) =
      ''Origin'' # origin_word c # ''metric'' # itoa m # ''localpref'' # itoa l # go_fields U"
    by (simp only: go_fields_word_space go_fields_word_spaces v o(1) visible_itoa)
  then show ?thesis unfolding eq u t by simp
qed

lemma apply_shown_attrs:
  assumes "wf_path p"
  shows "apply_attrs ([''Origin'', origin_word (bp_origin p), ''metric'', itoa (bp_med p), ''localpref'', itoa (bp_local_pref p)] @
      (if bp_weight p = 0 then [] else [''weight'', itoa (bp_weight p)]) @ [''valid'', ''external''] @ (if bp_best p then [''best''] else []))
      (path_zero \<lparr> bp_next_hop := bp_next_hop p, bp_as_path := bp_as_path p \<rparr>) = p"
proof -
  have "origin_code (origin_word (bp_origin p)) = Some (bp_origin p)"
  proof -
    have "bp_origin p = ''i'' \<or> bp_origin p = ''e'' \<or> bp_origin p = ''?''" using assms by (auto simp: wf_path_def)
    then show ?thesis by (elim disjE; simp only:; code_simp)
  qed
  moreover have w: "itoa k \<noteq> ''best'' \<and> itoa k \<noteq> ''Origin'' \<and> itoa k \<noteq> ''metric'' \<and> itoa k \<noteq> ''localpref'' \<and> itoa k \<noteq> ''weight''" for k
  proof -
    have n: "CHR ''t'' \<notin> set (itoa k)" "CHR ''r'' \<notin> set (itoa k)" by (rule not_in_itoa; simp)+
    show ?thesis by (intro conjI notI; insert n; simp del: not_in_itoa)
  qed
  moreover have "origin_word c \<noteq> ''best'' \<and> origin_word c \<noteq> ''Origin'' \<and> origin_word c \<noteq> ''metric'' \<and> origin_word c \<noteq> ''localpref'' \<and> origin_word c \<noteq> ''weight''" for c
    by (simp add: origin_word_def)
  ultimately show ?thesis
    using assms by (cases p) (auto simp: apply_attr_def wf_path_def path_zero_def painter_atoi_itoa split: list.splits)
qed

lemma cut_sub_skip: "c \<notin> set a \<Longrightarrow> cut_sub (c # sub) (a @ s) = map_option (\<lambda>(x, y). (a @ x, y)) (cut_sub (c # sub) s)"
  by (induction a) (auto simp: option.map_comp comp_def split_def option.map_ident_strong)

lemma digit_facts: "is_digit c \<Longrightarrow> \<not> is_space c \<and> c \<notin> set ''%tfOLie?,''"
proof -
  assume d: "is_digit c"
  have "\<not> is_digit x" if "x \<in> set ''%tfOLie?,''" for x
    using that unfolding list.set insert_iff empty_iff by (elim disjE FalseE; hypsubst) code_simp+
  moreover have "\<not> is_space c" using d by (auto simp: is_digit_def digit_val_def is_space_def Let_def split: if_splits)
  ultimately show ?thesis using d by blast
qed

lemma join_spaced:
  "(\<And>w. w \<in> set ws \<Longrightarrow> visible w) \<Longrightarrow> go_fields (join_with '' '' ws) = ws"
  by (induction "'' ''" ws rule: join_with.induct) (simp_all add: go_fields_visible)

lemma id_no_word:
  assumes "looks_like_id s"
  shows "CHR ''t'' \<notin> set s" and "hd s \<noteq> CHR ''%''" and "hd s \<noteq> CHR ''O''"
proof -
  have c: "c = CHR ''.'' \<or> is_digit c" if "c \<in> set (join_with ''.'' ws)" "\<forall>p \<in> set ws. list_all is_digit p" for c ws
    using that by (induction "''.''" ws rule: join_with.induct) (auto simp: list_all_iff)
  have "list_all is_digit p" if "p \<in> set (split_on CHR ''.'' s)" for p
    using assms that by (auto simp: looks_like_id_def list_all_iff Let_def)
  then have "c = CHR ''.'' \<or> is_digit c" if "c \<in> set s" for c
    using c [of c "split_on CHR ''.'' s"] that by (simp add: join_split)
  moreover have "s \<noteq> []" using assms by (auto simp: looks_like_id_def split_on_def)
  moreover have "\<not> is_digit CHR ''t''" "\<not> is_digit CHR ''%''" "\<not> is_digit CHR ''O''" by code_simp+
  ultimately have "CHR ''t'' \<notin> set s \<and> CHR ''%'' \<notin> set s \<and> CHR ''O'' \<notin> set s \<and> hd s \<in> set s" by fastforce
  then show "CHR ''t'' \<notin> set s" "hd s \<noteq> CHR ''%''" "hd s \<noteq> CHR ''O''" by auto
qed

text \<open>The three lines of a path.\<close>

lemma as_path_line:
  assumes "wf_path p"
  shows "bgp_line s (''  '' @ bp_as_path p) = Some (s \<lparr> bs_pending := Some (bp_as_path p) \<rparr>)" and "one_line (''  '' @ bp_as_path p)"
proof -
  define a where "a = bp_as_path p"
  have ln: "a \<noteq> [] \<and> one_line a \<and> trim_space a = a \<and> cut_sub ''table entry for '' a = None \<and> \<not> is_bgp_path_header a \<and>
      \<not> is_err_line a \<and> \<not> has_prefix a ''Origin'' \<and> is_bgp_as_path_line a"
  proof (cases "a = ''Local''")
    case True
    show ?thesis unfolding True by code_simp
  next
    case False
    define ws where "ws = split_on CHR '' '' a"
    have w: "w \<noteq> [] \<and> list_all is_digit w" if "w \<in> set ws" for w
      using assms False that by (simp add: wf_path_def a_def [symmetric] ws_def list_all_iff)
    have a: "a = join_with '' '' ws" by (simp add: ws_def join_split)
    have v: "visible w" if "w \<in> set ws" for w using w [OF that] digit_facts by (auto simp: visible_def list_all_iff)
    have f: "go_fields a = ws" unfolding a by (rule join_spaced) (rule v)
    obtain w0 rest where ws: "ws = w0 # rest" by (cases ws) (auto simp: ws_def)
    have all: "c = CHR '' '' \<or> is_digit c" if "c \<in> set (join_with '' '' vs)" "\<forall>w \<in> set vs. list_all is_digit w" for c vs
      using that by (induction "'' ''" vs rule: join_with.induct) (auto simp: list_all_iff)
    have ac: "c = CHR '' '' \<or> is_digit c" if "c \<in> set a" for c using all [of c ws] that w unfolding a by blast
    have h: "hd a = hd w0 \<and> a \<noteq> []" using w [of w0] unfolding a ws by (cases rest) auto
    have l: "join_with '' '' vs \<noteq> [] \<and> last (join_with '' '' vs) = last (last vs)" if "vs \<noteq> []" "\<forall>w \<in> set vs. w \<noteq> []" for vs
      using that by (induction "'' ''" vs rule: join_with.induct) auto
    have "is_digit (hd a)" using h w [of w0] ws by (auto simp: list_all_iff)
    have "last ws \<in> set ws" using ws by simp
    then have "last ws \<noteq> []" "list_all is_digit (last ws)" using w by simp_all
    then have "is_digit (last (last ws))" by (simp add: list_all_iff)
    moreover have "last a = last (last ws)" unfolding a using l [of ws] w ws by simp
    ultimately have "is_digit (last a)" by simp
    have nd: "\<not> (x = CHR '' '' \<or> is_digit x)" if "x \<in> {cr, nl, CHR ''t'', CHR ''%''}" for x
      using that unfolding insert_iff empty_iff by (elim disjE FalseE; hypsubst) code_simp+
    have na: "x \<notin> set a" if "x \<in> {cr, nl, CHR ''t'', CHR ''%''}" for x using ac [of x] nd [OF that] by blast
    have o: "one_line a" unfolding one_line_def using na by simp
    have t: "trim_space a = a" using h \<open>is_digit (hd a)\<close> \<open>is_digit (last a)\<close> digit_facts by (intro trim_ends) auto
    have c: "cut_sub ''table entry for '' a = None"
      using na by (intro cut_sub_absent) simp
    have n: "\<not> is_bgp_path_header a"
    proof -
      have "ws ! 1 \<noteq> ''from''" if "length ws \<ge> 3"
        using w [of "ws ! 1"] that digit_facts [of "CHR ''f''"] by (auto simp: list_all_iff)
      then show ?thesis unfolding is_bgp_path_header_def f Let_def by auto
    qed
    have e: "\<not> is_err_line a" "\<not> has_prefix a ''Origin''"
      using h \<open>is_digit (hd a)\<close> digit_facts unfolding is_err_line_def t by (cases a; auto)+
    have "trim_right_set w ''ie?'' = w" if "w \<in> set ws" for w
      using w [OF that] digit_facts [of "last w"] by (intro trim_right_set_idle) (auto simp: list_all_iff)
    then have "is_bgp_as_path_line a" using w ws by (simp add: is_bgp_as_path_line_def f list_all_iff)
    with h o t c n e show ?thesis by simp
  qed
  have "trim_right_set (''  '' @ a) [cr] = ''  '' @ a" using ln by (intro one_line_cr) (simp add: char_names)
  moreover have "trim_space (''  '' @ a) = a" using ln by simp
  ultimately show "bgp_line s (''  '' @ bp_as_path p) = Some (s \<lparr> bs_pending := Some (bp_as_path p) \<rparr>)"
    using ln unfolding bgp_line_def a_def [symmetric] by (simp only: Let_def option.case simp_thms if_False if_True)
  show "one_line (''  '' @ bp_as_path p)" using ln by (simp add: a_def [symmetric] char_names)
qed

lemma header_line:
  assumes id: "looks_like_id h"
  shows "bgp_line s (''    '' @ h @ '' from '' @ h @ '' (1.1.1.1)'') = Some ((bgp_flush s) \<lparr>
      bs_cur := Some (path_zero \<lparr> bp_next_hop := h, bp_as_path := (case bs_pending s of Some a \<Rightarrow> a | None \<Rightarrow> []) \<rparr>), bs_pending := None \<rparr>)"
    and "one_line (''    '' @ h @ '' from '' @ h @ '' (1.1.1.1)'')"
proof -
  define L where "L = h @ '' '' @ ''from'' @ '' '' @ h @ '' '' @ ''(1.1.1.1)''"
  have v: "visible h" "visible ''from''" "visible ''(1.1.1.1)''" using looks_like_id_word [OF id] by (simp_all add: visible_def)
  have f: "go_fields L = [h, ''from'', h, ''(1.1.1.1)'']"
    unfolding L_def by (simp only: go_fields_word_space go_fields_visible(1) v)
  have hd: "hd L = hd h" "L \<noteq> []" using v(1) by (simp_all add: L_def)
  have o: "one_line L" using v by (simp add: L_def char_names)
  have t: "trim_space L = L" using v(1) hd by (intro trim_ends) (simp_all add: L_def)
  have c: "cut_sub ''table entry for '' L = None"
    using id_no_word(1) [OF id] by (intro cut_sub_absent) (simp add: L_def)
  have e: "\<not> is_err_line L" unfolding is_err_line_def t using hd id_no_word(2) [OF id] by (cases L) auto
  have h: "is_bgp_path_header L" by (simp add: is_bgp_path_header_def f id)
  have eq: "''    '' @ h @ '' from '' @ h @ '' (1.1.1.1)'' = ''    '' @ L" by (simp add: L_def)
  have "trim_right_set (''    '' @ L) [cr] = ''    '' @ L" using o by (intro one_line_cr) (simp add: char_names)
  moreover have "trim_space (''    '' @ L) = L" using t by simp
  moreover have "at (go_fields L) 0 = Some h" by (simp add: f at_def)
  ultimately show "bgp_line s (''    '' @ h @ '' from '' @ h @ '' (1.1.1.1)'') = Some ((bgp_flush s) \<lparr>
      bs_cur := Some (path_zero \<lparr> bp_next_hop := h, bp_as_path := (case bs_pending s of Some a \<Rightarrow> a | None \<Rightarrow> []) \<rparr>), bs_pending := None \<rparr>)"
    using hd c e h unfolding bgp_line_def eq by (simp only: Let_def option.case simp_thms if_False if_True option.map)
  show "one_line (''    '' @ h @ '' from '' @ h @ '' (1.1.1.1)'')" unfolding eq using o by (simp add: char_names)
qed

lemma attr_line:
  assumes w: "wf_path p" and c: "bs_cur s = Some (path_zero \<lparr> bp_next_hop := bp_next_hop p, bp_as_path := bp_as_path p \<rparr>)"
  shows "bgp_line s (show_path p ! 2) = Some (s \<lparr> bs_cur := Some p \<rparr>)" and "one_line (show_path p ! 2)"
proof -
  define L where "L = ''Origin '' @ origin_word (bp_origin p) @ '', metric '' @ itoa (bp_med p) @ '', localpref '' @ itoa (bp_local_pref p) @
        (if bp_weight p = 0 then [] else '', weight '' @ itoa (bp_weight p)) @ '', valid, external'' @ (if bp_best p then '', best'' else [])"
  have ov: "visible (origin_word x)" "CHR '','' \<notin> set (origin_word x)" for x by (simp_all add: origin_word_def)
  have eq: "show_path p ! 2 = ''      '' @ L" by (simp add: show_path_def L_def)
  have o: "one_line L" using ov by (simp add: L_def char_names)
  obtain r where r: "L = ''Origin '' @ r" by (simp add: L_def)
  have "last L = CHR ''l'' \<or> last L = CHR ''t''" by (cases "bp_best p") (simp_all add: L_def)
  moreover have "hd L = CHR ''O''" "L \<noteq> []" by (simp_all add: r)
  ultimately have t: "trim_space L = L" by (intro trim_ends) auto
  have tok: "go_fields (replace_char CHR '','' CHR '' '' L) =
    [''Origin'', origin_word (bp_origin p), ''metric'', itoa (bp_med p), ''localpref'', itoa (bp_local_pref p)] @
      (if bp_weight p = 0 then [] else [''weight'', itoa (bp_weight p)]) @ [''valid'', ''external''] @ (if bp_best p then [''best''] else [])"
    unfolding L_def by (rule attr_tokens [OF ov])
  have a: "apply_bgp_attrs (path_zero \<lparr> bp_next_hop := bp_next_hop p, bp_as_path := bp_as_path p \<rparr>) L = p"
    unfolding apply_bgp_attrs_def tok by (rule apply_shown_attrs [OF w])
  have n: "\<not> is_bgp_path_header L"
  proof -
    have "go_fields L ! 0 = ''Origin''" unfolding r using go_fields_word_space [of "''Origin''" r] by (simp add: visible_def)
    moreover have "\<not> looks_like_id ''Origin''" by code_simp
    ultimately show ?thesis by (simp add: is_bgp_path_header_def)
  qed
  have c0: "cut_sub ''table entry for '' L = None"
    using w unfolding wf_path_def L_def
    by (cases "bp_weight p = 0"; cases "bp_best p") (auto simp: origin_word_def cut_sub_skip)
  have e: "\<not> is_err_line L" unfolding is_err_line_def t by (simp add: r)
  have h: "has_prefix L ''Origin''" by (simp add: r)
  have "trim_right_set (''      '' @ L) [cr] = ''      '' @ L" using o by (intro one_line_cr) (simp add: char_names)
  moreover have "trim_space (''      '' @ L) = L" using t by simp
  moreover have "L \<noteq> []" by (simp add: r)
  ultimately show "bgp_line s (show_path p ! 2) = Some (s \<lparr> bs_cur := Some p \<rparr>)"
    using c0 e h n c a unfolding bgp_line_def eq
    by (simp only: Let_def option.case simp_thms if_False if_True option.map option.distinct)
  show "one_line (show_path p ! 2)" unfolding eq using o by (simp add: char_names)
qed

text \<open>One path, then all of them.\<close>

lemma bgp_lines_append: "bgp_lines s (a @ b) = (case bgp_lines s a of None \<Rightarrow> None | Some s' \<Rightarrow> bgp_lines s' b)"
  by (induction s a rule: bgp_lines.induct) (auto split: option.split)

lemma path_lines:
  assumes "wf_path p"
  shows "bgp_lines s (show_path p) = Some ((bgp_flush s) \<lparr> bs_cur := Some p, bs_pending := None \<rparr>)"
    and "\<And>l. l \<in> set (show_path p) \<Longrightarrow> one_line l"
proof -
  let ?q = "path_zero \<lparr> bp_next_hop := bp_next_hop p, bp_as_path := bp_as_path p \<rparr>"
  let ?t = "(bgp_flush s) \<lparr> bs_cur := Some ?q, bs_pending := None \<rparr>"
  have id: "looks_like_id (bp_next_hop p)" using assms by (simp add: wf_path_def)
  have ls: "show_path p = [''  '' @ bp_as_path p, ''    '' @ bp_next_hop p @ '' from '' @ bp_next_hop p @ '' (1.1.1.1)'', show_path p ! 2]"
    by (simp add: show_path_def)
  have c: "bs_cur ?t = Some ?q" by simp
  note l = as_path_line(1) [OF assms, of s] as_path_line(2) [OF assms]
    header_line(1) [OF id, of "s \<lparr> bs_pending := Some (bp_as_path p) \<rparr>"] header_line(2) [OF id]
    attr_line(1) [OF assms c] attr_line(2) [OF assms c]
  have "(bgp_flush (s \<lparr> bs_pending := Some (bp_as_path p) \<rparr>)) \<lparr> bs_cur := Some ?q, bs_pending := None \<rparr> = ?t"
    by (simp add: bgp_flush_def split: option.split)
  then have h: "bgp_line (s \<lparr> bs_pending := Some (bp_as_path p) \<rparr>)
      (''    '' @ bp_next_hop p @ '' from '' @ bp_next_hop p @ '' (1.1.1.1)'') = Some ?t"
    unfolding l(3) by simp
  have "bgp_lines s (show_path p) = Some (?t \<lparr> bs_cur := Some p \<rparr>)"
    by (subst ls) (simp only: bgp_lines.simps l(1) h l(5) option.case)
  then show "bgp_lines s (show_path p) = Some ((bgp_flush s) \<lparr> bs_cur := Some p, bs_pending := None \<rparr>)" by simp
  have "one_line (show_path p ! 2)" using l(6) by simp
  then show "\<And>k. k \<in> set (show_path p) \<Longrightarrow> one_line k" using l(2,4) by (subst (asm) ls) (simp only: list.set insert_iff empty_iff; blast)
qed

lemma all_path_lines:
  assumes "list_all wf_path ps"
  shows "\<exists>s'. bgp_lines s (concat (map show_path ps)) = Some s' \<and> bs_prefix s' = bs_prefix s \<and>
    bs_done (bgp_flush s') = bs_done (bgp_flush s) @ ps"
  using assms
proof (induction ps arbitrary: s)
  case (Cons p ps)
  let ?t = "(bgp_flush s) \<lparr> bs_cur := Some p, bs_pending := None \<rparr>"
  have p: "bs_prefix ?t = bs_prefix s" "bs_done (bgp_flush ?t) = bs_done (bgp_flush s) @ [p]"
    by (simp_all add: bgp_flush_def split: option.split)
  obtain s' where "bgp_lines ?t (concat (map show_path ps)) = Some s'" "bs_prefix s' = bs_prefix ?t"
      "bs_done (bgp_flush s') = bs_done (bgp_flush ?t) @ ps"
    using Cons.IH [of ?t] Cons.prems by auto
  then show ?case using p Cons.prems path_lines(1) [of p s] by (simp add: bgp_lines_append)
qed simp

lemma prefix_line:
  assumes "visible prefix" and "last prefix \<noteq> CHR '',''"
  shows "bgp_line s (''BGP routing table entry for '' @ prefix @ '', version 5'') = Some (s \<lparr> bs_prefix := prefix \<rparr>)"
proof -
  define L where "L = ''BGP routing table entry for '' @ prefix @ '', version 5''"
  have v: "visible (prefix @ '','')" using assms(1) by simp
  have o: "one_line L" using assms(1) by (simp add: L_def char_names)
  have t: "trim_space L = L" by (intro trim_ends) (simp_all add: L_def)
  have c: "cut_sub ''table entry for '' L = Some (''BGP routing '', prefix @ '', version 5'')" by (simp add: L_def)
  have "go_fields ((prefix @ '','') @ '' '' @ ''version 5'') = (prefix @ '','') # go_fields ''version 5''"
    by (rule go_fields_word_space [OF v])
  then have f: "go_fields (prefix @ '', version 5'') = (prefix @ '','') # go_fields ''version 5''" by simp
  have "trim_right_set (prefix @ '','') '','' = trim_right_set prefix '',''" by (rule trim_right_set_append) simp
  also have "\<dots> = prefix" using assms(2) by (intro trim_right_set_idle) simp
  finally have p: "trim_right_set (prefix @ '','') '','' = prefix" .
  have e: "\<not> is_err_line L" "L \<noteq> []" unfolding is_err_line_def t by (simp_all add: L_def)
  show ?thesis
    unfolding bgp_line_def L_def [symmetric] one_line_cr [OF o] t Let_def c option.case prod.case f
    using e p by (simp add: at_def)
qed

lemma count_line:
  "bs_cur s = None \<Longrightarrow> bgp_line s (''Paths: ('' @ itoa n @ '' available, table default)'') = Some s"
  "one_line (''Paths: ('' @ itoa n @ '' available, table default)'')"
proof -
  define L where "L = ''Paths: ('' @ itoa n @ '' available, table default)''"
  show o: "one_line (''Paths: ('' @ itoa n @ '' available, table default)'')" by (simp add: char_names)
  have t: "trim_space L = L" by (intro trim_ends) (simp_all add: L_def)
  have c: "cut_sub ''table entry for '' L = None" by (simp add: L_def cut_sub_skip)
  have f: "go_fields L = ''Paths:'' # go_fields (''('' @ itoa n @ '' available, table default)'')"
    using go_fields_word_space [of "''Paths:''" "''('' @ itoa n @ '' available, table default)''"] by (simp add: L_def)
  have "\<not> looks_like_id ''Paths:''" "\<not> list_all is_digit (trim_right_set ''Paths:'' ''ie?'')" by code_simp+
  then have n: "\<not> is_bgp_path_header L" "\<not> is_bgp_as_path_line L"
    unfolding is_bgp_path_header_def is_bgp_as_path_line_def f Let_def by (simp_all add: L_def)
  have e: "\<not> is_err_line L" "L \<noteq> []" unfolding is_err_line_def t by (simp_all add: L_def)
  show "bs_cur s = None \<Longrightarrow> bgp_line s (''Paths: ('' @ itoa n @ '' available, table default)'') = Some s"
    unfolding bgp_line_def L_def [symmetric] one_line_cr [OF o, folded L_def] t Let_def c option.case
    using e n by simp
qed

lemma advertised_line:
  "bs_cur s = None \<Longrightarrow> bgp_line s ''  Not advertised to any peer'' = Some s"
proof -
  have "trim_right_set ''  Not advertised to any peer'' [cr] = ''  Not advertised to any peer''" "trim_space ''  Not advertised to any peer'' = ''Not advertised to any peer''"
    "\<not> is_err_line ''Not advertised to any peer''" "cut_sub ''table entry for '' ''Not advertised to any peer'' = None"
    "\<not> is_bgp_path_header ''Not advertised to any peer''" "\<not> is_bgp_as_path_line ''Not advertised to any peer''" by code_simp+
  then show "bs_cur s = None \<Longrightarrow> ?thesis" by (simp add: bgp_line_def Let_def)
qed

text \<open>What ParseBGP reads is what the router printed: the prefix, every path with its attributes in
  order, the next hop of the one marked best, and the explanation computed from them.\<close>

theorem bgp_read_back:
  assumes "visible prefix" and "last prefix \<noteq> CHR '',''" and "list_all wf_path paths"
  shows "parse_bgp (show_bgp prefix paths) = Some \<lparr> br_prefix = prefix, br_paths = paths,
    br_best_next_hop = (case split_best paths of Some (b, _) \<Rightarrow> bp_next_hop b | None \<Rightarrow> []), br_reason = bgp_reason paths \<rparr>"
proof -
  let ?h = "[''BGP routing table entry for '' @ prefix @ '', version 5'',
       ''Paths: ('' @ itoa (int (length paths)) @ '' available, table default)'', ''  Not advertised to any peer'']"
  have "one_line l" if "l \<in> set (?h @ concat (map show_path paths))" for l
  proof -
    have "one_line (''BGP routing table entry for '' @ prefix @ '', version 5'')" "one_line ''  Not advertised to any peer''"
      using assms(1) by (simp_all add: char_names)
    then show ?thesis using that count_line(2) [of "int (length paths)"] path_lines(2) assms(3)
      unfolding set_append list.set Un_iff insert_iff empty_iff set_concat set_map by (auto simp only: list_all_iff)
  qed
  then have lines: "text_lines (show_bgp prefix paths) = ?h @ concat (map show_path paths)"
    unfolding show_bgp_def by (intro split_join) (auto simp: one_line_def)
  have "bgp_lines bgp_start ?h = Some (bgp_start \<lparr> bs_prefix := prefix \<rparr>)"
    by (simp only: bgp_lines.simps prefix_line [OF assms(1,2)] option.case)
      (subst count_line(1) advertised_line; simp add: bgp_start_def)+
  moreover obtain s' where "bgp_lines (bgp_start \<lparr> bs_prefix := prefix \<rparr>) (concat (map show_path paths)) = Some s'"
      "bs_prefix s' = prefix" "bs_done (bgp_flush s') = paths"
    using all_path_lines [OF assms(3), of "bgp_start \<lparr> bs_prefix := prefix \<rparr>"] by (auto simp: bgp_start_def bgp_flush_def)
  ultimately show ?thesis unfolding parse_bgp_def lines bgp_lines_append by simp
qed

lemma bgp_read_back_witness:
  "parse_bgp (show_bgp ''10.0.0.0/24''
      [\<lparr> bp_next_hop = ''10.0.12.2'', bp_as_path = ''100 200'', bp_origin = ''i'', bp_weight = 0, bp_local_pref = 100, bp_med = 0, bp_best = False \<rparr>,
       \<lparr> bp_next_hop = ''10.0.13.3'', bp_as_path = ''Local'', bp_origin = ''?'', bp_weight = 32768, bp_local_pref = 100, bp_med = 7, bp_best = True \<rparr>]) \<noteq> None"
  by (subst bgp_read_back)
    (simp_all add: visible_def wf_path_def int_range_def looks_like_id_def split_on_def Let_def is_digit_def digit_val_def is_space_def)

end
