(* ===== verification/Painter_Collect.thy ===== *)
theory Painter_Collect
  imports Server_Lab Console_Script Painter_Stp Painter_Routes Painter_Bgp
begin

text \<open>
  The painter's two handlers (server/painter_collect_linux.go, painter_linux.go, handlers.go): a show
  command run on the console of each targeted node, its output parsed, and the answer of one entry
  per node.  The scrapes run in parallel, one console each and no shared state, so the model
  runs them one after another.  What a console does during a call is a parameter: the session of
  the k-th entry and the command, or none if its turn cannot be claimed.
\<close>

type_synonym consoles = "nat \<Rightarrow> string \<Rightarrow> exec_session option"

record painter_args =
  pa_lab :: string
  pa_proto :: string
  pa_dest :: string
  pa_vlan :: int
  pa_nodes :: "int list option"

record painter_node =
  pn_node :: int
  pn_running :: bool
  pn_hint :: string
  pn_stp :: "stp_result option"
  pn_ospf :: "(ospf_neighbor list \<times> ospf_route option) option"
  pn_eigrp :: "eigrp_result option"
  pn_bgp :: "bgp_result option"

record painter_result =
  pr_proto :: string
  pr_dest :: string
  pr_vlan :: int
  pr_nodes :: "painter_node list"

datatype painter_error = Unknown_Proto string | Vlan_Required | No_Painter_Lab serve_error

definition blank_entry :: "int \<Rightarrow> painter_node" where
  "blank_entry i = \<lparr> pn_node = i, pn_running = False, pn_hint = [], pn_stp = None, pn_ospf = None, pn_eigrp = None, pn_bgp = None \<rparr>"

definition not_running_hint :: "string \<Rightarrow> string" where
  "not_running_hint purpose = ''node is not running '' @ [CHR 0xE2, CHR 0x80, CHR 0x94] @ '' start the lab to '' @ purpose"

definition run_show :: "'k server \<Rightarrow> consoles \<Rightarrow> nat \<Rightarrow> int \<Rightarrow> string \<Rightarrow> string exec_result" where
  "run_show s con k i cmd =
     (case sv_nodes s i of
        None \<Rightarrow> Inl (''node '' @ itoa i @ '' is not running'')
      | Some nr \<Rightarrow>
          if ln_proc nr = None \<or> mstate (ln_machine nr) \<noteq> StateRunning then Inl (''node '' @ itoa i @ '' is not running'')
          else case con k cmd of
                 None \<Rightarrow> Inl (''node '' @ itoa i @ '' has no console'')
               | Some session \<Rightarrow> fst (run_exec cmd session))"

text \<open>One node.  The outer option is a panic of a parser.\<close>

definition collect_stp :: "'k server \<Rightarrow> consoles \<Rightarrow> nat \<Rightarrow> int \<Rightarrow> int \<Rightarrow> painter_node \<Rightarrow> painter_node exec_result option" where
  "collect_stp s con k i vlan pn =
     (case run_show s con k i (''show spanning-tree vlan '' @ itoa vlan) of
        Inl e \<Rightarrow> Some (Inl e)
      | Inr out \<Rightarrow>
          map_option (\<lambda>st. if stp_empty st
                then Inr (pn \<lparr> pn_hint := ''no spanning-tree data for this VLAN (not configured on this node, L3-only, or still converging)'' \<rparr>)
                else Inr (pn \<lparr> pn_stp := Some st \<rparr>))
            (parse_stp_vlan_block out vlan))"

definition collect_ospf :: "'k server \<Rightarrow> consoles \<Rightarrow> nat \<Rightarrow> int \<Rightarrow> string \<Rightarrow> painter_node \<Rightarrow> painter_node exec_result option" where
  "collect_ospf s con k i dest pn =
     (case run_show s con k i ''show ip ospf neighbor'' of
        Inl e \<Rightarrow> Some (Inl e)
      | Inr out \<Rightarrow> do {
          nbrs \<leftarrow> parse_ospf_neighbors out;
          route \<leftarrow> (if dest = [] then Some None
                   else case run_show s con k i (''show ip route '' @ dest) of
                          Inl _ \<Rightarrow> Some None
                        | Inr rt \<Rightarrow> map_option (\<lambda>r. if or_next_hop r = [] then None else Some r) (parse_ospf_route rt dest));
          Some (if nbrs = [] \<and> route = None then Inr (pn \<lparr> pn_hint := ''no OSPF neighbors (not configured or still converging)'' \<rparr>)
                else Inr (pn \<lparr> pn_ospf := Some (nbrs, route) \<rparr>)) })"

definition collect_eigrp :: "'k server \<Rightarrow> consoles \<Rightarrow> nat \<Rightarrow> int \<Rightarrow> string \<Rightarrow> painter_node \<Rightarrow> painter_node exec_result option" where
  "collect_eigrp s con k i dest pn =
     (if dest = [] then Some (Inr (pn \<lparr> pn_hint := ''select a destination to trace the EIGRP path'' \<rparr>))
      else case run_show s con k i (''show ip eigrp topology '' @ dest) of
        Inl e \<Rightarrow> Some (Inl e)
      | Inr out \<Rightarrow>
          map_option (\<lambda>e. if eigrp_empty e then Inr (pn \<lparr> pn_hint := ''no EIGRP topology entry for this destination'' \<rparr>)
                          else Inr (pn \<lparr> pn_eigrp := Some e \<rparr>)) (parse_eigrp_topology out))"

definition collect_bgp :: "'k server \<Rightarrow> consoles \<Rightarrow> nat \<Rightarrow> int \<Rightarrow> string \<Rightarrow> painter_node \<Rightarrow> painter_node exec_result option" where
  "collect_bgp s con k i dest pn =
     (if dest = [] then Some (Inr (pn \<lparr> pn_hint := ''select a destination prefix to show the BGP best path'' \<rparr>))
      else case run_show s con k i (''show ip bgp '' @ dest) of
        Inl e \<Rightarrow> Some (Inl e)
      | Inr out \<Rightarrow>
          map_option (\<lambda>b. if bgp_empty b then Inr (pn \<lparr> pn_hint := ''prefix not in the BGP table on this node'' \<rparr>)
                          else Inr (pn \<lparr> pn_bgp := Some b \<rparr>)) (parse_bgp out))"

definition collect_node :: "'k server \<Rightarrow> consoles \<Rightarrow> nat \<Rightarrow> int \<Rightarrow> string \<Rightarrow> string \<Rightarrow> int \<Rightarrow> painter_node \<Rightarrow> painter_node exec_result option" where
  "collect_node s con k i proto dest vlan pn =
     (if proto = ''stp'' then collect_stp s con k i vlan pn
      else if proto = ''ospf'' then collect_ospf s con k i dest pn
      else if proto = ''eigrp'' then collect_eigrp s con k i dest pn
      else if proto = ''bgp'' then collect_bgp s con k i dest pn
      else Some (Inl ''unknown painter proto''))"

definition is_iol :: "'k server \<Rightarrow> int \<Rightarrow> bool" where
  "is_iol s i \<longleftrightarrow> (case find_node (the_lab s) i of None \<Rightarrow> False | Some n \<Rightarrow> node_kind n = KindIOL)"

definition has_process :: "'k server \<Rightarrow> int \<Rightarrow> bool" where
  "has_process s i \<longleftrightarrow> (case sv_nodes s i of None \<Rightarrow> False | Some nr \<Rightarrow> ln_proc nr \<noteq> None)"

definition collect_entry :: "'k server \<Rightarrow> consoles \<Rightarrow> string \<Rightarrow> string \<Rightarrow> int \<Rightarrow> nat \<times> int \<Rightarrow> painter_node option" where
  "collect_entry s con proto dest vlan ki =
     (case ki of (k, i) \<Rightarrow>
        let pn = blank_entry i
        in if \<not> is_iol s i then Some (pn \<lparr> pn_hint := ''node has no IOS console'' \<rparr>)
           else if \<not> has_process s i then Some (pn \<lparr> pn_hint := not_running_hint ''paint live protocol state'' \<rparr>)
           else let run = pn \<lparr> pn_running := True \<rparr>
                in map_option (\<lambda>r. case r of
                       Inl _ \<Rightarrow> run \<lparr> pn_hint := ''could not read live protocol state (still converging or console busy)'' \<rparr>
                     | Inr pn' \<Rightarrow> pn') (collect_node s con k i proto dest vlan run))"

fun all_some :: "'a option list \<Rightarrow> 'a list option" where
  "all_some [] = Some []"
| "all_some (x # xs) = (case (x, all_some xs) of (Some y, Some ys) \<Rightarrow> Some (y # ys) | _ \<Rightarrow> None)"

definition painter_targets :: "'k server \<Rightarrow> painter_args \<Rightarrow> int list" where
  "painter_targets s args =
     (case pa_nodes args of
        Some ids \<Rightarrow> ids
      | None \<Rightarrow> map node_id (filter (\<lambda>n. node_kind n = KindIOL) (nodes (the_doc s))))"

definition painter_collect :: "'k server \<Rightarrow> consoles \<Rightarrow> painter_args \<Rightarrow> painter_result option" where
  "painter_collect s con args =
     (let proto = to_lower (trim_space (pa_proto args)); ids = painter_targets s args
      in map_option (\<lambda>es. \<lparr> pr_proto = proto, pr_dest = pa_dest args,
             pr_vlan = (if proto = ''stp'' then pa_vlan args else 0), pr_nodes = es \<rparr>)
           (all_some (map (collect_entry s con proto (pa_dest args) (pa_vlan args)) (enumerate 0 ids))))"

definition handle_painter_collect :: "consoles \<Rightarrow> painter_args \<Rightarrow> 'k server \<Rightarrow> (painter_error, painter_result) result option" where
  "handle_painter_collect con args s =
     (if pa_proto args \<notin> {''stp'', ''ospf'', ''eigrp'', ''bgp''} then Some (Inl (Unknown_Proto (pa_proto args)))
      else if pa_proto args = ''stp'' \<and> pa_vlan args \<le> 0 then Some (Inl Vlan_Required)
      else case current_lab (pa_lab args) s of
             Some e \<Rightarrow> Some (Inl (No_Painter_Lab e))
           | None \<Rightarrow> map_option Inr (painter_collect s con args))"

section \<open>The VLANs of a node\<close>

record vlans_result =
  vr_node :: int
  vr_running :: bool
  vr_vlans :: "stp_vlan list"
  vr_hint :: string

definition painter_stp_vlans :: "'k server \<Rightarrow> consoles \<Rightarrow> int \<Rightarrow> vlans_result option" where
  "painter_stp_vlans s con i =
     (let r = \<lparr> vr_node = i, vr_running = False, vr_vlans = [], vr_hint = [] \<rparr>
      in if \<not> is_iol s i then Some (r \<lparr> vr_hint := ''node has no IOS console'' \<rparr>)
         else if \<not> has_process s i then Some (r \<lparr> vr_hint := not_running_hint ''enumerate live STP VLANs'' \<rparr>)
         else case run_show s con 0 i ''show spanning-tree'' of
                Inl _ \<Rightarrow> Some (r \<lparr> vr_running := True, vr_hint := ''could not read live STP state (console busy)'' \<rparr>)
              | Inr out \<Rightarrow>
                  let brief = (case run_show s con 0 i ''show vlan brief'' of Inl _ \<Rightarrow> [] | Inr b \<Rightarrow> b)
                  in map_option (\<lambda>vs. r \<lparr> vr_running := True, vr_vlans := vs,
                         vr_hint := (if vs = [] then ''no spanning-tree VLANs on this node (L3-only or STP not configured)'' else []) \<rparr>)
                       (parse_stp_vlans out brief))"

definition handle_painter_stp_vlans :: "consoles \<Rightarrow> string \<Rightarrow> int \<Rightarrow> 'k server \<Rightarrow> (painter_error, vlans_result) result option" where
  "handle_painter_stp_vlans con lid i s =
     (case current_lab lid s of
        Some e \<Rightarrow> Some (Inl (No_Painter_Lab e))
      | None \<Rightarrow> map_option Inr (painter_stp_vlans s con i))"

lemma painter_stp_vlans_total: "handle_painter_stp_vlans con lid i s \<noteq> None"
  by (auto simp: handle_painter_stp_vlans_def painter_stp_vlans_def parse_stp_vlans_checked Let_def
      split: option.split sum.split)

section \<open>Nothing is made up\<close>

definition came_from :: "'k server \<Rightarrow> consoles \<Rightarrow> nat \<Rightarrow> int \<Rightarrow> string \<Rightarrow> (string \<Rightarrow> bool) \<Rightarrow> bool" where
  "came_from s con k i cmd P \<longleftrightarrow> (case run_show s con k i cmd of Inl _ \<Rightarrow> False | Inr out \<Rightarrow> P out)"

text \<open>What an entry may say: a node runs exactly if it is an IOL node with a process; an entry without
  data has a hint; and data is what the parser of the requested protocol made of the output of the
  show command on the console of this very node.\<close>

definition truthful :: "'k server \<Rightarrow> consoles \<Rightarrow> painter_args \<Rightarrow> nat \<Rightarrow> painter_node \<Rightarrow> bool" where
  "truthful s con args k e \<longleftrightarrow>
     pn_running e = (is_iol s (pn_node e) \<and> has_process s (pn_node e)) \<and>
     (pn_hint e = []) = (pn_stp e \<noteq> None \<or> pn_ospf e \<noteq> None \<or> pn_eigrp e \<noteq> None \<or> pn_bgp e \<noteq> None) \<and>
     (case pn_stp e of None \<Rightarrow> True | Some st \<Rightarrow> pa_proto args = ''stp'' \<and>
        came_from s con k (pn_node e) (''show spanning-tree vlan '' @ itoa (pa_vlan args)) (\<lambda>out. parse_stp_vlan_block out (pa_vlan args) = Some st)) \<and>
     (case pn_ospf e of None \<Rightarrow> True | Some (nbrs, route) \<Rightarrow> pa_proto args = ''ospf'' \<and>
        came_from s con k (pn_node e) ''show ip ospf neighbor'' (\<lambda>out. parse_ospf_neighbors out = Some nbrs) \<and>
        (case route of None \<Rightarrow> True | Some rt \<Rightarrow>
           came_from s con k (pn_node e) (''show ip route '' @ pa_dest args) (\<lambda>out. parse_ospf_route out (pa_dest args) = Some rt))) \<and>
     (case pn_eigrp e of None \<Rightarrow> True | Some r \<Rightarrow> pa_proto args = ''eigrp'' \<and>
        came_from s con k (pn_node e) (''show ip eigrp topology '' @ pa_dest args) (\<lambda>out. parse_eigrp_topology out = Some r)) \<and>
     (case pn_bgp e of None \<Rightarrow> True | Some r \<Rightarrow> pa_proto args = ''bgp'' \<and>
        came_from s con k (pn_node e) (''show ip bgp '' @ pa_dest args) (\<lambda>out. parse_bgp out = Some r))"

lemma all_some_Some: "all_some xs = Some ys \<Longrightarrow> map Some ys = xs"
proof (induction xs arbitrary: ys)
  case (Cons x xs)
  from Cons.prems obtain z zs where "x = Some z" "all_some xs = Some zs" "ys = z # zs"
    by (simp split: option.splits)
  then show ?case using Cons.IH [of zs] by simp
qed simp

lemma all_some_total: "list_all (\<lambda>x. x \<noteq> None) xs \<Longrightarrow> all_some xs \<noteq> None"
  by (induction xs) auto

lemmas parsers_checked = parse_stp_vlan_block_checked parse_ospf_neighbors_checked parse_ospf_route_checked
  parse_eigrp_topology_checked

lemma collect_node_total: "collect_node s con k i proto dest vlan pn \<noteq> None"
proof -
  have "parse_bgp out \<noteq> None" for out using bgp_lines_total by (auto simp: parse_bgp_def)
  then show ?thesis
    by (simp add: collect_node_def collect_stp_def collect_ospf_def collect_eigrp_def collect_bgp_def parsers_checked split: sum.split)
qed

lemma collect_entry_total: "collect_entry s con proto dest vlan ki \<noteq> None"
  by (cases ki) (simp add: collect_entry_def Let_def collect_node_total [simplified])

lemma proto_lower:
  "p \<in> {''stp'', ''ospf'', ''eigrp'', ''bgp''} \<Longrightarrow> to_lower (trim_space p) = p"
  unfolding insert_iff empty_iff by (elim disjE FalseE; hypsubst) code_simp+

lemma collect_node_truthful:
  assumes "collect_node s con k i (pa_proto args) (pa_dest args) (pa_vlan args) ((blank_entry i) \<lparr> pn_running := True \<rparr>) = Some (Inr e)"
    and "is_iol s i" and "has_process s i"
  shows "truthful s con args k e \<and> pn_node e = i"
proof -
  have t: "pn_node ((blank_entry i) \<lparr> pn_running := True \<rparr>) = i" by (simp add: blank_entry_def)
  consider "pa_proto args = ''stp''" | "pa_proto args = ''ospf''" | "pa_proto args = ''eigrp''" | "pa_proto args = ''bgp''"
    using assms(1) by (auto simp: collect_node_def split: if_splits)
  then show ?thesis
  proof cases
    case 1
    then show ?thesis using assms
      by (auto simp: collect_node_def collect_stp_def truthful_def came_from_def parsers_checked blank_entry_def Let_def split: sum.splits if_splits)
  next
    case 2
    then show ?thesis using assms
      by (auto simp: collect_node_def collect_ospf_def truthful_def came_from_def parsers_checked blank_entry_def Let_def split: sum.splits if_splits)
  next
    case 3
    then show ?thesis using assms
      by (auto simp: collect_node_def collect_eigrp_def truthful_def came_from_def parsers_checked blank_entry_def Let_def split: sum.splits if_splits)
  next
    case 4
    then show ?thesis using assms
      by (auto simp: collect_node_def collect_bgp_def truthful_def came_from_def blank_entry_def Let_def split: sum.splits if_splits)
  qed
qed

lemma collect_entry_truthful:
  assumes "collect_entry s con (pa_proto args) (pa_dest args) (pa_vlan args) (k, i) = Some e"
  shows "truthful s con args k e \<and> pn_node e = i"
proof (cases "is_iol s i \<and> has_process s i")
  case False
  then show ?thesis using assms
    by (auto simp: collect_entry_def truthful_def blank_entry_def not_running_hint_def Let_def split: if_splits)
next
  case True
  then obtain r where r: "collect_node s con k i (pa_proto args) (pa_dest args) (pa_vlan args) ((blank_entry i) \<lparr> pn_running := True \<rparr>) = Some r"
      and e: "e = (case r of Inl _ \<Rightarrow> ((blank_entry i) \<lparr> pn_running := True \<rparr>) \<lparr> pn_hint := ''could not read live protocol state (still converging or console busy)'' \<rparr> | Inr pn' \<Rightarrow> pn')"
    using assms by (auto simp: collect_entry_def Let_def)
  show ?thesis
  proof (cases r)
    case (Inl x)
    then show ?thesis using True e by (simp add: truthful_def blank_entry_def)
  next
    case (Inr y)
    then show ?thesis using collect_node_truthful [of s con k i args y] True e r by simp
  qed
qed

lemma painter_collect_entries:
  assumes "handle_painter_collect con args s = Some (Inr r)"
  shows "map (collect_entry s con (pa_proto args) (pa_dest args) (pa_vlan args)) (enumerate 0 (painter_targets s args)) = map Some (pr_nodes r)"
proof -
  have p: "pa_proto args \<in> {''stp'', ''ospf'', ''eigrp'', ''bgp''}" and c: "painter_collect s con args = Some r"
    using assms by (auto simp: handle_painter_collect_def split: if_splits option.splits)
  from c show ?thesis
    unfolding painter_collect_def proto_lower [OF p] Let_def by (auto dest: all_some_Some)
qed

lemma painter_collect_total: "painter_collect s con args \<noteq> None"
proof -
  have "list_all (\<lambda>x. x \<noteq> None) (map (collect_entry s con p d v) xs)" for p d v xs
    by (simp add: list_all_iff collect_entry_total [simplified])
  then show ?thesis
    unfolding painter_collect_def Let_def using all_some_total by fastforce
qed

text \<open>C19. The painter answers, and never makes anything up: whatever the consoles send, every collect
  request, other than one with an empty list of nodes, comes back without an index out of range in any
  parser. If it is accepted it has one entry for each node it names, in order, or without a list one for
  each IOL node of the lab, the stopped ones marked as not running. Each entry is truthful: it has
  protocol data or a hint, and data is what the parser of that protocol read from what that node's own
  console printed. (An empty list is not taken as no list.)\<close>

theorem painter_never_fabricates:
  assumes "pa_nodes args \<noteq> Some []"
  shows "case handle_painter_collect con args s of
     None \<Rightarrow> False
   | Some (Inl _) \<Rightarrow> True
   | Some (Inr r) \<Rightarrow>
       map pn_node (pr_nodes r) =
         (case pa_nodes args of
            Some ids \<Rightarrow> ids
          | None \<Rightarrow> map node_id (filter (\<lambda>n. node_kind n = KindIOL) (nodes (the_doc s)))) \<and>
       list_all (\<lambda>(k, e). truthful s con args k e) (enumerate 0 (pr_nodes r))"
proof -
  have total: "handle_painter_collect con args s \<noteq> None"
    using painter_collect_total [of s con args] by (auto simp: handle_painter_collect_def split: option.split)
  show ?thesis
  proof (cases "\<exists>r. handle_painter_collect con args s = Some (Inr r)")
    case True
    then obtain r where r: "handle_painter_collect con args s = Some (Inr r)" by blast
    note m = painter_collect_entries [OF r]
    have len: "length (pr_nodes r) = length (painter_targets s args)" using arg_cong [OF m, of length] by simp
    have e: "truthful s con args k (pr_nodes r ! k) \<and> pn_node (pr_nodes r ! k) = painter_targets s args ! k"
      if "k < length (pr_nodes r)" for k
      using collect_entry_truthful [of s con args k "painter_targets s args ! k" "pr_nodes r ! k"]
        arg_cong [OF m, of "\<lambda>l. l ! k"] that len by (simp add: nth_enumerate_eq)
    then have "map pn_node (pr_nodes r) = painter_targets s args" using len by (intro nth_equalityI) auto
    moreover have "list_all (\<lambda>(k, e). truthful s con args k e) (enumerate 0 (pr_nodes r))"
      using e by (auto simp: list_all_length nth_enumerate_eq)
    ultimately show ?thesis using r by (simp add: painter_targets_def)
  next
    case False
    then obtain e where "handle_painter_collect con args s = Some (Inl e)" using total by (metis not_Some_eq sumE)
    then show ?thesis by simp
  qed
qed

section \<open>From the console to the canvas\<close>

definition stp_command :: "int \<Rightarrow> string" where
  "stp_command vlan = ''show spanning-tree vlan '' @ itoa vlan"

definition shown_lines :: "stp_view \<Rightarrow> string list" where
  "shown_lines v = show_vlan (vw_vlan v) # show_head v @ map show_port (vw_ports v)"

lemma stp_command_usual: "usual_command (stp_command n)"
proof -
  have "trim_space (stp_command n) = stp_command n" by (intro trim_ends) (simp_all add: stp_command_def)
  then show ?thesis by (simp add: usual_command_def) (simp add: stp_command_def char_names)
qed

lemma do_stp_command: "hd (do_prefix p @ stp_command n) \<in> {CHR ''s'', CHR ''d''}" "last (do_prefix p @ stp_command n) \<noteq> CHR ''r''"
proof -
  show "hd (do_prefix p @ stp_command n) \<in> {CHR ''s'', CHR ''d''}" by (simp add: do_prefix_def stp_command_def)
  have "CHR ''r'' \<notin> set (itoa n)" by (rule not_in_itoa; simp)
  then have "last (itoa n) \<noteq> CHR ''r''" using last_in_set [of "itoa n"] by fastforce
  then show "last (do_prefix p @ stp_command n) \<noteq> CHR ''r''" by (simp add: stp_command_def)
qed

lemma shown_lines_plain:
  assumes "wf_view v"
  shows "plain_output (do_prefix p @ stp_command n) (shown_lines v)"
proof -
  have v: "vw_vlan v < 2 ^ 31" using assms by (simp add: wf_view_def)
  define D where "D = replicate (4 - length (dec_digits (vw_vlan v))) CHR ''0'' @ dec_digits (vw_vlan v)"
  note D = vlan_digits [OF v, folded D_def]
  have s: "show_vlan (vw_vlan v) = ''VLAN'' @ D" by (simp add: show_vlan_def D_def)
  then have vis: "visible (show_vlan (vw_vlan v))" using D(2) by (simp add: visible_def)
  have t: "trim_space (show_vlan (vw_vlan v)) = show_vlan (vw_vlan v)" using D(2) unfolding s by (intro trim_ends) simp_all
  have "is_digit (last D)"
  proof -
    have "last D = last (dec_digits (vw_vlan v))" by (simp add: D_def)
    then show ?thesis using is_digit_dec [of "last (dec_digits (vw_vlan v))" "vw_vlan v"] by simp
  qed
  moreover have "\<not> is_digit CHR ''>''" "\<not> is_digit CHR ''#''" by code_simp+
  ultimately have l: "last D \<noteq> CHR ''>''" "last D \<noteq> CHR ''#''" by auto
  have np: "has_prompt_suffix (show_vlan (vw_vlan v)) = None"
  proof -
    have "last (show_vlan (vw_vlan v)) \<notin> set [CHR '' '', tab, cr, nl]"
      using visible_last [OF vis] by (auto simp: char_names)
    then have r: "trim_right_set (show_vlan (vw_vlan v)) [CHR '' '', tab, cr, nl] = show_vlan (vw_vlan v)"
      by (intro trim_right_set_idle) simp
    have "nl \<notin> set (show_vlan (vw_vlan v))" using visible_one_line [OF vis] by (simp add: one_line_def)
    then have "trim_space (last_line (show_vlan (vw_vlan v))) = show_vlan (vw_vlan v)" using t by (simp add: last_line_at)
    moreover have "last (show_vlan (vw_vlan v)) = last D" using D(2) by (simp add: s)
    ultimately show ?thesis unfolding has_prompt_suffix_def r Let_def using vis l by simp
  qed
  have first: "trim_space (show_vlan (vw_vlan v)) \<noteq> do_prefix p @ stp_command n"
  proof
    assume "trim_space (show_vlan (vw_vlan v)) = do_prefix p @ stp_command n"
    then have e: "show_vlan (vw_vlan v) = do_prefix p @ stp_command n" unfolding t .
    have "hd (do_prefix p @ stp_command n) = CHR ''V''" unfolding e [symmetric] s by simp
    then show False using do_stp_command(1) [of p n] by auto
  qed
  have rest: "one_line l \<and> trim_space l \<noteq> do_prefix p @ stp_command n \<and> CHR '' '' \<in> set (trim_space l)"
    if "l \<in> set (show_head v @ map show_port (vw_ports v))" for l
    using body_lines [OF assms that] do_stp_command [of p n] by (auto simp: body_line_def)
  show ?thesis
    using rest first np visible_one_line [OF vis] by (auto simp: plain_output_def shown_lines_def list_all_iff)
qed

lemma trim_shown:
  assumes "wf_view v"
  shows "trim_set (join_with [nl] (shown_lines v)) [nl] = show_spanning_tree v"
proof -
  have e: "show_spanning_tree v = join_with [nl] (shown_lines v)" by (simp add: show_spanning_tree_def shown_lines_def)
  obtain ls where ls: "shown_lines v = show_vlan (vw_vlan v) # ls" "ls \<noteq> []" by (simp add: shown_lines_def show_head_def)
  then have h: "hd (join_with [nl] (shown_lines v)) = CHR ''V''" "join_with [nl] (shown_lines v) \<noteq> []"
    by (cases ls; simp add: show_vlan_def)+
  have last_join: "last (join_with [nl] ws) = last (last ws)" if "ws \<noteq> []" "last ws \<noteq> []" for ws
    using that
  proof (induction "[nl]" ws rule: join_with.induct)
    case (3 x y xs)
    then have "join_with [nl] (y # xs) \<noteq> []" by (cases xs) auto
    then show ?case using 3 by simp
  qed auto
  have lm: "last (shown_lines v) \<in> set (show_head v @ map show_port (vw_ports v))"
    using ls by (simp add: shown_lines_def)
  have b: "one_line (last (shown_lines v))" "last (shown_lines v) \<noteq> []"
    using body_lines [OF assms lm] by (auto simp: body_line_def trim_space_def)
  then have "last (last (shown_lines v)) \<noteq> nl" using last_in_set [OF b(2)] unfolding one_line_def by metis
  then have l: "last (join_with [nl] (shown_lines v)) \<noteq> nl" using last_join b(2) ls(1) by simp
  have "trim_left_set (join_with [nl] (shown_lines v)) [nl] = join_with [nl] (shown_lines v)"
    using h by (cases "join_with [nl] (shown_lines v)") (auto simp: trim_left_set_def char_names)
  then show ?thesis using l unfolding trim_set_def e by (simp add: trim_right_set_idle)
qed

text \<open>C18. From the console to the canvas. In an accepted collect of the spanning tree of a VLAN, take any
  targeted IOL node that runs, and let its console, at any privileged prompt, answer the probe and the
  pager command in one read each, and "show spanning-tree vlan n" with what a switch prints for its view
  of the tree, in any cuts none of which but the last already ends in something that looks like a prompt.
  Then the node's entry shows that view: VLAN, root id, bridge id, root cost and every port with its role,
  state, cost and priority, the blocked ones with an explanation; and the node wears the crown exactly if
  its own bridge id is that of the root. (The root port printed in the stanza of the root is not read,
  and nothing is said of it.)\<close>

theorem stp_painted:
  assumes "handle_painter_collect con args s = Some (Inr r)" and "pa_proto args = ''stp''"
    and "k < length (painter_targets s args)" and "painter_targets s args ! k = i"
    and "is_iol s i" and "sv_nodes s i = Some nr" and "ln_proc nr \<noteq> None" and "mstate (ln_machine nr) = StateRunning"
    and "wf_view v" and "pa_vlan args = int (vw_vlan v)"
    and "con k (stp_command (pa_vlan args)) = Some session" and "exec_prompt p"
    and "answers p (stp_command (pa_vlan args)) (shown_lines v) session"
  shows "\<exists>st. pn_stp (pr_nodes r ! k) = Some st \<and> shows_view v st"
proof -
  have "fst (run_exec (stp_command (pa_vlan args)) session) = Inr (show_spanning_tree v)"
    using run_exec_answered [OF assms(12) stp_command_usual shown_lines_plain [OF assms(9)] assms(13)] trim_shown [OF assms(9)] by simp
  then have sh: "run_show s con k i (stp_command (pa_vlan args)) = Inr (show_spanning_tree v)"
    using assms(6,7,8,11) by (simp add: run_show_def)
  have "\<not> stp_empty (view_reading v)"
    by (simp add: stp_empty_def view_reading_def enrich_stp_reasons_def)
  then have c: "collect_stp s con k i (pa_vlan args) pn = Some (Inr (pn \<lparr> pn_stp := Some (view_reading v) \<rparr>))" for pn
    using sh parse_shown_view [OF assms(9)] by (simp add: collect_stp_def stp_command_def assms(10) parse_stp_vlan_block_checked)
  note m = painter_collect_entries [OF assms(1)]
  have len: "length (pr_nodes r) = length (painter_targets s args)" using arg_cong [OF m, of length] by simp
  have "collect_entry s con (pa_proto args) (pa_dest args) (pa_vlan args) (k, i) = Some (pr_nodes r ! k)"
    using arg_cong [OF m, of "\<lambda>l. l ! k"] assms(3,4) len by (simp add: nth_enumerate_eq)
  moreover have "has_process s i" using assms(6,7) by (simp add: has_process_def)
  ultimately have "pr_nodes r ! k = (blank_entry i) \<lparr> pn_running := True, pn_stp := Some (view_reading v) \<rparr>"
    using assms(2,5) c by (simp add: collect_entry_def collect_node_def Let_def)
  then show ?thesis using view_reading_shows [OF assms(9)] by simp
qed

text \<open>A lab of one switch, running, whose console is at the prompt SW1# and answers in one piece.\<close>

definition demo_switch :: live_node where
  "demo_switch = \<lparr> ln_console = 9000, ln_machine = \<lparr> mstate = StateRunning, entered = [] \<rparr>, ln_proc = Some 7, ln_image = [],
     ln_ram = 0, ln_subnet = 0, ln_ports = (0, 0) \<rparr>"

definition demo_server :: "unit server" where
  "demo_server = \<lparr> sv_world = \<lparr> fw_kernel = (), fw_lab = new_fabric_lab one_node_lab [0 \<mapsto> demo_switch], fw_timers = [], fw_next = 0,
       fw_current = True, fw_events = [] \<rparr>,
     sv_loaded = True, sv_nodes = [0 \<mapsto> demo_switch], sv_captures = Map.empty, sv_bcaps = Map.empty,
     sv_console = new_port_allocator 9000 1000, sv_capture = new_port_allocator 5500 1000, sv_udp = new_port_allocator 10000 20000,
     sv_subnets = new_subnet_allocator, sv_images = Map.empty, sv_files = Map.empty \<rparr>"

definition demo_args :: painter_args where
  "demo_args = \<lparr> pa_lab = [], pa_proto = ''stp'', pa_dest = [], pa_vlan = 10, pa_nodes = None \<rparr>"

definition demo_consoles :: consoles where
  "demo_consoles k cmd = Some \<lparr> es_sent = [], es_writes = None, es_buf = [],
     es_in = Chunk ([cr] @ nl # ''SW1#'') # Chunk (reply ''terminal length 0'' [] ''SW1#'') #
       map Chunk [reply cmd (shown_lines demo_view) ''SW1#''] \<rparr>"

lemma demo_collected: "\<exists>r. handle_painter_collect demo_consoles demo_args demo_server = Some (Inr r)"
proof -
  have "handle_painter_collect demo_consoles demo_args demo_server = map_option Inr (painter_collect demo_server demo_consoles demo_args)"
    by (simp add: handle_painter_collect_def demo_args_def current_lab_def) (simp add: demo_server_def)
  then show ?thesis using painter_collect_total [of demo_server demo_consoles demo_args] by auto
qed

lemma stp_painted_witness:
  "\<exists>r st. handle_painter_collect demo_consoles demo_args demo_server = Some (Inr r) \<and>
     pn_stp (pr_nodes r ! 0) = Some st \<and> shows_view demo_view st \<and> \<not> sr_is_root st"
proof -
  have d: "the_doc demo_server = one_node_lab" by (simp add: demo_server_def new_fabric_lab_def)
  obtain r where r: "handle_painter_collect demo_consoles demo_args demo_server = Some (Inr r)" using demo_collected by blast
  have t: "painter_targets demo_server demo_args = [0]"
    unfolding painter_targets_def demo_args_def d by (simp add: one_node_lab_def)
  have i: "is_iol demo_server 0"
    unfolding is_iol_def find_node_def d by (simp add: one_node_lab_def)
  have n: "sv_nodes demo_server 0 = Some demo_switch" "ln_proc demo_switch \<noteq> None" "mstate (ln_machine demo_switch) = StateRunning"
    by (simp_all add: demo_server_def demo_switch_def)
  have w: "wf_view demo_view" by (rule demo_view_wf)
  have v: "pa_vlan demo_args = int (vw_vlan demo_view)" "pa_proto demo_args = ''stp''" by (simp_all add: demo_args_def demo_view_def)
  have p: "exec_prompt ''SW1#''" "do_prefix ''SW1#'' = []" by code_simp+
  define c where "c = stp_command (pa_vlan demo_args)"
  define S where "S = \<lparr> es_sent = [], es_writes = None, es_buf = [],
     es_in = Chunk ([cr] @ nl # ''SW1#'') # Chunk (reply ''terminal length 0'' [] ''SW1#'') #
       map Chunk [reply c (shown_lines demo_view) ''SW1#''] \<rparr>"
  have s: "demo_consoles 0 c = Some S" by (simp add: demo_consoles_def S_def)
  have "\<not> complete_reply c []" by (simp add: complete_reply_def command_output_def normal_lines_def split_on_def replace_char_def)
  then have a: "answers ''SW1#'' c (shown_lines demo_view) S"
    unfolding answers_def p(2) S_def
    by (intro conjI exI [of _ "[cr]"] exI [of _ "[reply c (shown_lines demo_view) ''SW1#'']"]) simp_all
  have "\<exists>st. pn_stp (pr_nodes r ! 0) = Some st \<and> shows_view demo_view st"
    by (rule stp_painted [OF r v(2) _ _ i n w v(1) s [unfolded c_def] p(1) a [unfolded c_def]]) (simp_all add: t)
  moreover have "\<not> (vw_root_prio demo_view = vw_prio demo_view \<and> vw_root_addr demo_view = vw_addr demo_view)"
    by (simp add: demo_view_def)
  ultimately show ?thesis using r by (auto simp: shows_view_def)
qed

lemma painter_never_fabricates_witness:
  "\<exists>r. handle_painter_collect demo_consoles demo_args demo_server = Some (Inr r) \<and> map pn_node (pr_nodes r) = [0]"
proof -
  obtain r where r: "handle_painter_collect demo_consoles demo_args demo_server = Some (Inr r)" using demo_collected by blast
  have d: "the_doc demo_server = one_node_lab" by (simp add: demo_server_def new_fabric_lab_def)
  have n: "pa_nodes demo_args = None" by (simp add: demo_args_def)
  have "pa_nodes demo_args \<noteq> Some []" by (simp add: n)
  note f = painter_never_fabricates [OF this, where con = demo_consoles and s = demo_server]
  have "map pn_node (pr_nodes r) = map node_id (filter (\<lambda>n. node_kind n = KindIOL) (nodes (the_doc demo_server)))"
    using f by (simp only: r n option.case sum.case)
  also have "\<dots> = [0]" unfolding d by (simp add: one_node_lab_def)
  finally have "map pn_node (pr_nodes r) = [0]" .
  with r show ?thesis by (intro exI [of _ r] conjI)
qed

end
