(* ===== verification/Tap_Owner.thy ===== *)
theory Tap_Owner
  imports Fabric_Plan "HOL-Library.AList"
begin

text \<open>
  Ownership of kernel tap devices across labs (server/tapowner.go) together with
  the pump bookkeeping that funnels through it: labBridge.close and
  evictTapBridge (server/bridgeplan.go), the static-tap loop and the orphan sweep
  of startFabric, evictStaticTaps and the pump part of teardownFabric
  (server/fabric_linux.go).

  Pointers are identities: a lab is a number, a bridge is its index in the list of
  all bridges ever created.  A Go map that the code ranges over is an association
  list with distinct keys, whose order stands for the order the range visits.
  Whether a device exists and whether EnsureTap and iouyap.NewTap succeed are
  arguments.  The operations are whole calls: the interleaving of two servers
  between two critical sections of one call is not modelled.
\<close>

record lab_bridge =
  bridge_path :: string
  bridge_tap :: string

type_synonym lab_ref = nat
type_synonym bridge_ref = nat

record pumps =
  all_bridges :: "lab_bridge list"
  shut :: "bridge_ref list"
  tap_owners :: "string \<rightharpoonup> lab_ref \<times> bridge_ref"
  tap_bridges :: "lab_ref \<Rightarrow> (string \<times> bridge_ref) list"

definition tap_of :: "pumps \<Rightarrow> bridge_ref \<Rightarrow> string" where
  "tap_of s b = bridge_tap (all_bridges s ! b)"

definition path_of :: "pumps \<Rightarrow> bridge_ref \<Rightarrow> string" where
  "path_of s b = bridge_path (all_bridges s ! b)"

definition no_pumps :: pumps where
  "no_pumps = \<lparr> all_bridges = [], shut = [], tap_owners = Map.empty, tap_bridges = (\<lambda>_. []) \<rparr>"

section \<open>The registry (tapowner.go)\<close>

definition claim_tap :: "string \<Rightarrow> lab_ref \<Rightarrow> bridge_ref \<Rightarrow> pumps \<Rightarrow> (lab_ref \<times> bridge_ref) option \<times> pumps" where
  "claim_tap name ll b s =
     (if name = [] then (None, s)
      else let prev = tap_owners s name;
               s' = s \<lparr> tap_owners := (tap_owners s)(name \<mapsto> (ll, b)) \<rparr>
           in (case prev of
                 None \<Rightarrow> (None, s')
               | Some (l, b') \<Rightarrow> if b' = b then (None, s') else (Some (l, b'), s')))"

definition release_tap :: "string \<Rightarrow> bridge_ref \<Rightarrow> pumps \<Rightarrow> pumps" where
  "release_tap name b s =
     (if name = [] then s
      else case tap_owners s name of
             Some (l, b') \<Rightarrow> if b' = b then s \<lparr> tap_owners := (tap_owners s)(name := None) \<rparr> else s
           | None \<Rightarrow> s)"

definition tap_claimed_by_other_lab :: "string \<Rightarrow> lab_ref \<Rightarrow> pumps \<Rightarrow> bool" where
  "tap_claimed_by_other_lab name ll s =
     (if name = [] then False
      else case tap_owners s name of None \<Rightarrow> False | Some (l, b) \<Rightarrow> l \<noteq> ll)"

definition close_bridge :: "bridge_ref \<Rightarrow> pumps \<Rightarrow> pumps" where
  "close_bridge b s = (let s' = release_tap (tap_of s b) b s in s' \<lparr> shut := b # shut s' \<rparr>)"

definition forget_path :: "lab_ref \<Rightarrow> string \<Rightarrow> pumps \<Rightarrow> pumps" where
  "forget_path ll p s = s \<lparr> tap_bridges := (tap_bridges s)(ll := AList.delete p (tap_bridges s ll)) \<rparr>"

definition evict_foreign_tap_claim :: "string \<Rightarrow> lab_ref \<Rightarrow> pumps \<Rightarrow> pumps" where
  "evict_foreign_tap_claim name ll s =
     (if name = [] then s
      else case tap_owners s name of
             None \<Rightarrow> s
           | Some (l, b) \<Rightarrow>
               if l = ll then s
               else let s1 = s \<lparr> tap_owners := (tap_owners s)(name := None) \<rparr>;
                        s2 = (if map_of (tap_bridges s1 l) (path_of s1 b) = Some b
                              then forget_path l (path_of s1 b) s1 else s1)
                    in close_bridge b s2)"

definition link_tap_claimed_elsewhere :: "lab_ref \<Rightarrow> plan \<Rightarrow> endpoint list \<Rightarrow> pumps \<Rightarrow> string option" where
  "link_tap_claimed_elsewhere ll taps eps s =
     Option.bind (find (\<lambda>ep. case tap_for_endpoint taps ep of
                               None \<Rightarrow> False
                             | Some t \<Rightarrow> tap_claimed_by_other_lab (tap_dev t) ll s) eps)
       (\<lambda>ep. map_option tap_dev (tap_for_endpoint taps ep))"

section \<open>Pumps of a lab\<close>

definition evict_tap_bridge :: "lab_ref \<Rightarrow> string \<Rightarrow> bridge_ref \<Rightarrow> pumps \<Rightarrow> pumps" where
  "evict_tap_bridge ll p b s =
     (if map_of (tap_bridges s ll) p = Some b then close_bridge b (forget_path ll p s) else s)"

text \<open>The body shared by the loops that close a pump and delete its entry.\<close>

definition drop_pump :: "lab_ref \<Rightarrow> string \<times> bridge_ref \<Rightarrow> pumps \<Rightarrow> pumps" where
  "drop_pump ll e s = forget_path ll (fst e) (close_bridge (snd e) s)"

definition drop_pumps :: "(string \<times> bridge_ref \<Rightarrow> bool) \<Rightarrow> lab_ref \<Rightarrow> pumps \<Rightarrow> pumps" where
  "drop_pumps P ll s = fold (drop_pump ll) (filter P (tap_bridges s ll)) s"

definition start_pump :: "lab_ref \<Rightarrow> string \<Rightarrow> string \<Rightarrow> pumps \<Rightarrow> pumps" where
  "start_pump ll p name s =
     (let b = length (all_bridges s);
          s1 = s \<lparr> all_bridges := all_bridges s @ [\<lparr> bridge_path = p, bridge_tap = name \<rparr>],
                   tap_bridges := (tap_bridges s)(ll := AList.update p b (tap_bridges s ll)) \<rparr>
      in snd (claim_tap name ll b s1))"

definition realise_tap :: "bool \<Rightarrow> bool \<Rightarrow> lab_ref \<Rightarrow> string \<Rightarrow> string \<Rightarrow> pumps \<Rightarrow> pumps" where
  "realise_tap exists ok ll p name s =
     (case map_of (tap_bridges s ll) p of
        Some lb \<Rightarrow>
          if tap_of s lb = name \<and> exists then s
          else let s1 = drop_pump ll (p, lb) s;
                   s2 = drop_pumps (\<lambda>(q, g). q \<noteq> p \<and> tap_of s1 g = name) ll s1;
                   s3 = evict_foreign_tap_claim name ll s2
               in if ok then start_pump ll p name s3 else s3
      | None \<Rightarrow>
          let s2 = drop_pumps (\<lambda>(q, g). q \<noteq> p \<and> tap_of s g = name) ll s;
              s3 = evict_foreign_tap_claim name ll s2
          in if ok then start_pump ll p name s3 else s3)"

definition sweep_orphans :: "string list \<Rightarrow> lab_ref \<Rightarrow> pumps \<Rightarrow> pumps" where
  "sweep_orphans live ll = drop_pumps (\<lambda>(q, g). q \<notin> set live) ll"

definition evict_static_taps :: "string list \<Rightarrow> lab_ref \<Rightarrow> pumps \<Rightarrow> pumps" where
  "evict_static_taps names ll s =
     (if names = [] then s
      else let bs = filter (\<lambda>(q, g). tap_of s g \<in> set names) (tap_bridges s ll)
           in fold close_bridge (map snd bs) (fold (forget_path ll) (map fst bs) s))"

definition teardown_pumps :: "lab_ref \<Rightarrow> pumps \<Rightarrow> pumps" where
  "teardown_pumps ll s =
     fold close_bridge (map snd (tap_bridges s ll)) (s \<lparr> tap_bridges := (tap_bridges s)(ll := []) \<rparr>)"

datatype pump_event =
    Realise bool bool lab_ref string string
  | Exited lab_ref string bridge_ref
  | Sweep "string list" lab_ref
  | Evict_Static "string list" lab_ref
  | Teardown lab_ref

fun pump_step :: "pump_event \<Rightarrow> pumps \<Rightarrow> pumps" where
  "pump_step (Realise exists ok ll p name) s = realise_tap exists ok ll p name s"
| "pump_step (Exited ll p b) s = evict_tap_bridge ll p b s"
| "pump_step (Sweep live ll) s = sweep_orphans live ll s"
| "pump_step (Evict_Static names ll) s = evict_static_taps names ll s"
| "pump_step (Teardown ll) s = teardown_pumps ll s"

definition run_pumps :: "pump_event list \<Rightarrow> pumps" where
  "run_pumps es = fold pump_step es no_pumps"

text \<open>startFabric only realises the taps of a plan, whose names are never empty.\<close>

fun named_event :: "pump_event \<Rightarrow> bool" where
  "named_event (Realise exists ok ll p name) = (name \<noteq> [])"
| "named_event e = True"

definition is_open :: "pumps \<Rightarrow> bridge_ref \<Rightarrow> bool" where
  "is_open s b \<longleftrightarrow> b < length (all_bridges s) \<and> b \<notin> set (shut s)"

section \<open>The ownership invariant\<close>

definition pumps_inv :: "pumps \<Rightarrow> bool" where
  "pumps_inv s \<longleftrightarrow>
     (\<forall>ll. distinct (map fst (tap_bridges s ll))) \<and>
     (\<forall>ll p b. (p, b) \<in> set (tap_bridges s ll) \<longrightarrow>
        is_open s b \<and> path_of s b = p \<and> tap_of s b \<noteq> [] \<and> tap_owners s (tap_of s b) = Some (ll, b)) \<and>
     (\<forall>n ll b. tap_owners s n = Some (ll, b) \<longrightarrow>
        tap_of s b = n \<and> (path_of s b, b) \<in> set (tap_bridges s ll)) \<and>
     (\<forall>b. is_open s b \<longrightarrow> (\<exists>ll p. (p, b) \<in> set (tap_bridges s ll))) \<and>
     set (shut s) \<subseteq> {..<length (all_bridges s)}"

lemma pumps_invD:
  assumes "pumps_inv s"
  shows "distinct (map fst (tap_bridges s ll))"
    and "(p, b) \<in> set (tap_bridges s ll) \<Longrightarrow> is_open s b"
    and "(p, b) \<in> set (tap_bridges s ll) \<Longrightarrow> path_of s b = p"
    and "(p, b) \<in> set (tap_bridges s ll) \<Longrightarrow> tap_of s b \<noteq> []"
    and "(p, b) \<in> set (tap_bridges s ll) \<Longrightarrow> tap_owners s (tap_of s b) = Some (ll, b)"
    and "tap_owners s n = Some (ll, b) \<Longrightarrow> tap_of s b = n"
    and "tap_owners s n = Some (ll, b) \<Longrightarrow> (path_of s b, b) \<in> set (tap_bridges s ll)"
    and "is_open s b \<Longrightarrow> \<exists>ll p. (p, b) \<in> set (tap_bridges s ll)"
    and "set (shut s) \<subseteq> {..<length (all_bridges s)}"
  using assms unfolding pumps_inv_def by blast+

lemma pumps_inv_initial: "pumps_inv no_pumps"
  by (simp add: pumps_inv_def no_pumps_def is_open_def)

text \<open>Frame facts of the two primitive effects.\<close>

lemma release_tap_frame [simp]:
  "all_bridges (release_tap n b s) = all_bridges s" "shut (release_tap n b s) = shut s"
  "tap_bridges (release_tap n b s) = tap_bridges s"
  by (auto simp: release_tap_def split: option.splits)

lemma close_bridge_frame [simp]:
  "all_bridges (close_bridge b s) = all_bridges s" "shut (close_bridge b s) = b # shut s"
  "tap_bridges (close_bridge b s) = tap_bridges s" "tap_of (close_bridge b s) = tap_of s"
  "path_of (close_bridge b s) = path_of s"
  by (simp_all add: close_bridge_def Let_def tap_of_def path_of_def fun_eq_iff)

lemma forget_path_frame [simp]:
  "all_bridges (forget_path ll p s) = all_bridges s" "shut (forget_path ll p s) = shut s"
  "tap_owners (forget_path ll p s) = tap_owners s" "tap_of (forget_path ll p s) = tap_of s"
  "path_of (forget_path ll p s) = path_of s"
  "tap_bridges (forget_path ll p s) = (tap_bridges s)(ll := AList.delete p (tap_bridges s ll))"
  by (simp_all add: forget_path_def tap_of_def path_of_def fun_eq_iff)

lemma close_bridge_owners:
  "tap_owners (close_bridge b s) =
     (if tap_of s b \<noteq> [] \<and> (\<exists>l. tap_owners s (tap_of s b) = Some (l, b))
      then (tap_owners s)(tap_of s b := None) else tap_owners s)"
  by (auto simp: close_bridge_def Let_def release_tap_def split: option.splits)

lemma forget_close_commute: "forget_path ll p (close_bridge b s) = close_bridge b (forget_path ll p s)"
  by (simp add: close_bridge_def release_tap_def forget_path_def tap_of_def Let_def split: option.splits)

lemma drop_pump_frame [simp]:
  "all_bridges (drop_pump ll e s) = all_bridges s" "shut (drop_pump ll e s) = snd e # shut s"
  "tap_of (drop_pump ll e s) = tap_of s" "path_of (drop_pump ll e s) = path_of s"
  "tap_bridges (drop_pump ll e s) = (tap_bridges s)(ll := AList.delete (fst e) (tap_bridges s ll))"
  by (simp_all add: drop_pump_def)

lemma set_alist_delete: "distinct (map fst xs) \<Longrightarrow> (p, b) \<in> set xs \<Longrightarrow> set (AList.delete p xs) = set xs - {(p, b)}"
  by (auto simp: AList.delete_eq dest: eq_key_imp_eq_value)

lemma drop_pump_inv:
  assumes "pumps_inv s" and e: "(p, b) \<in> set (tap_bridges s ll)"
  shows "pumps_inv (drop_pump ll (p, b) s)"
    and "tap_owners (drop_pump ll (p, b) s) = (tap_owners s)(tap_of s b := None)"
    and "set (tap_bridges (drop_pump ll (p, b) s) ll) = set (tap_bridges s ll) - {(p, b)}"
proof -
  note D = pumps_invD [OF assms(1)]
  have own: "tap_owners s (tap_of s b) = Some (ll, b)" and ne: "tap_of s b \<noteq> []"
    using D(4,5) e by blast+
  show o: "tap_owners (drop_pump ll (p, b) s) = (tap_owners s)(tap_of s b := None)"
    using own ne by (simp add: drop_pump_def close_bridge_owners)
  show set: "set (tap_bridges (drop_pump ll (p, b) s) ll) = set (tap_bridges s ll) - {(p, b)}"
    using set_alist_delete [OF D(1) e] by simp
  have only: "l = ll \<and> q = p" if "(q, b) \<in> set (tap_bridges s l)" for l q
    using D(5) [OF that] D(3) [OF that] D(3) [OF e] own by simp
  have sub: "set (tap_bridges (drop_pump ll (p, b) s) l) = set (tap_bridges s l) - {(p, b)}" for l
    using set only by (cases "l = ll") auto
  show "pumps_inv (drop_pump ll (p, b) s)"
    unfolding pumps_inv_def
  proof (intro conjI allI impI)
    fix l show "distinct (map fst (tap_bridges (drop_pump ll (p, b) s) l))"
      using D(1) by (simp add: AList.distinct_delete)
  next
    fix l q c assume "(q, c) \<in> set (tap_bridges (drop_pump ll (p, b) s) l)"
    then have m: "(q, c) \<in> set (tap_bridges s l)" and "(q, c) \<noteq> (p, b)" using sub by auto
    then have "c \<noteq> b" using only by blast
    then show "is_open (drop_pump ll (p, b) s) c" using D(2) [OF m] by (simp add: is_open_def)
    show "path_of (drop_pump ll (p, b) s) c = q" "tap_of (drop_pump ll (p, b) s) c \<noteq> []"
      using D(3,4) [OF m] by simp_all
    have "tap_of s c \<noteq> tap_of s b" using D(5) [OF m] own \<open>c \<noteq> b\<close> by auto
    then show "tap_owners (drop_pump ll (p, b) s) (tap_of (drop_pump ll (p, b) s) c) = Some (l, c)"
      using D(5) [OF m] by (simp add: o)
  next
    fix n l c assume "tap_owners (drop_pump ll (p, b) s) n = Some (l, c)"
    then have m: "tap_owners s n = Some (l, c)" and "n \<noteq> tap_of s b" by (auto simp: o split: if_splits)
    then show "tap_of (drop_pump ll (p, b) s) c = n" using D(6) by simp
    have "c \<noteq> b" using D(6) [OF m] \<open>n \<noteq> tap_of s b\<close> by auto
    then show "(path_of (drop_pump ll (p, b) s) c, c) \<in> set (tap_bridges (drop_pump ll (p, b) s) l)"
      using D(7) [OF m] sub [of l] by simp
  next
    fix c assume "is_open (drop_pump ll (p, b) s) c"
    then have "is_open s c" "c \<noteq> b" by (auto simp: is_open_def)
    then show "\<exists>l q. (q, c) \<in> set (tap_bridges (drop_pump ll (p, b) s) l)"
      using D(8) sub by fastforce
  next
    show "set (shut (drop_pump ll (p, b) s)) \<subseteq> {..<length (all_bridges (drop_pump ll (p, b) s))}"
      using D(9) D(2) [OF e] by (simp add: is_open_def)
  qed
qed

lemma drop_pump_list:
  assumes "pumps_inv s" and "set xs \<subseteq> set (tap_bridges s ll)" and "distinct xs"
  shows "pumps_inv (fold (drop_pump ll) xs s) \<and>
     set (tap_bridges (fold (drop_pump ll) xs s) ll) = set (tap_bridges s ll) - set xs \<and>
     (\<forall>l. l \<noteq> ll \<longrightarrow> tap_bridges (fold (drop_pump ll) xs s) l = tap_bridges s l) \<and>
     all_bridges (fold (drop_pump ll) xs s) = all_bridges s \<and>
     shut (fold (drop_pump ll) xs s) = rev (map snd xs) @ shut s"
  using assms
proof (induction xs arbitrary: s)
  case (Cons e xs)
  obtain p b where e: "e = (p, b)" by (cases e)
  have m: "(p, b) \<in> set (tap_bridges s ll)" using Cons.prems(2) e by simp
  note d = drop_pump_inv [OF Cons.prems(1) m]
  have "set xs \<subseteq> set (tap_bridges (drop_pump ll (p, b) s) ll)"
    using d(3) Cons.prems(2,3) e by auto
  from Cons.IH [OF d(1) this] Cons.prems(3) d(3) show ?case by (auto simp: e)
qed simp

lemma drop_pumps_inv:
  assumes "pumps_inv s"
  shows "pumps_inv (drop_pumps P ll s)"
    and "set (tap_bridges (drop_pumps P ll s) ll) = {e \<in> set (tap_bridges s ll). \<not> P e}"
    and "l \<noteq> ll \<Longrightarrow> tap_bridges (drop_pumps P ll s) l = tap_bridges s l"
    and "all_bridges (drop_pumps P ll s) = all_bridges s"
    and "set (shut (drop_pumps P ll s)) = set (shut s) \<union> snd ` {e \<in> set (tap_bridges s ll). P e}"
proof -
  have "distinct (filter P (tap_bridges s ll))"
    using pumps_invD(1) [OF assms] by (metis distinct_filter distinct_map)
  note d = drop_pump_list [OF assms _ this, of ll, folded drop_pumps_def]
  show "pumps_inv (drop_pumps P ll s)"
    "set (tap_bridges (drop_pumps P ll s) ll) = {e \<in> set (tap_bridges s ll). \<not> P e}"
    "l \<noteq> ll \<Longrightarrow> tap_bridges (drop_pumps P ll s) l = tap_bridges s l"
    "all_bridges (drop_pumps P ll s) = all_bridges s"
    "set (shut (drop_pumps P ll s)) = set (shut s) \<union> snd ` {e \<in> set (tap_bridges s ll). P e}"
    using d by auto
qed

lemma map_of_entry:
  assumes "pumps_inv s"
  shows "map_of (tap_bridges s ll) p = Some b \<longleftrightarrow> (p, b) \<in> set (tap_bridges s ll)"
  using pumps_invD(1) [OF assms] by simp

lemma evict_tap_bridge_eq:
  "evict_tap_bridge ll p b s =
     (if map_of (tap_bridges s ll) p = Some b then drop_pump ll (p, b) s else s)"
  by (simp add: evict_tap_bridge_def drop_pump_def forget_close_commute)

lemma evict_foreign_eq:
  assumes "pumps_inv s"
  shows "evict_foreign_tap_claim name ll s =
     (case tap_owners s name of
        None \<Rightarrow> s
      | Some (l, b) \<Rightarrow> if l = ll then s else drop_pump l (path_of s b, b) s)"
proof (cases "tap_owners s name")
  case None
  then show ?thesis by (simp add: evict_foreign_tap_claim_def)
next
  case (Some e)
  obtain l b where e: "e = (l, b)" by (cases e)
  have own: "tap_owners s name = Some (l, b)" using Some e by simp
  have t: "tap_of s b = name" and m: "(path_of s b, b) \<in> set (tap_bridges s l)"
    using pumps_invD(6,7) [OF assms own] by simp_all
  have "name \<noteq> []" using pumps_invD(4) [OF assms m] t by simp
  define s1 where "s1 = s \<lparr> tap_owners := (tap_owners s)(name := None) \<rparr>"
  have "close_bridge b (forget_path l (path_of s b) s1) = drop_pump l (path_of s b, b) s"
    using own t \<open>name \<noteq> []\<close>
    by (simp add: drop_pump_def forget_close_commute [symmetric] s1_def close_bridge_def
        release_tap_def tap_of_def forget_path_def)
  moreover have "map_of (tap_bridges s1 l) (path_of s1 b) = Some b"
    using map_of_entry [OF assms] m by (simp add: s1_def path_of_def)
  moreover have "path_of s1 b = path_of s b" by (simp add: s1_def path_of_def)
  ultimately show ?thesis
    using own \<open>name \<noteq> []\<close> by (simp add: evict_foreign_tap_claim_def Let_def s1_def [symmetric])
qed

lemma evict_foreign_inv:
  assumes "pumps_inv s"
  shows "pumps_inv (evict_foreign_tap_claim name ll s)"
    and "tap_owners (evict_foreign_tap_claim name ll s) name =
       (case tap_owners s name of None \<Rightarrow> None | Some (l, b) \<Rightarrow> if l = ll then Some (l, b) else None)"
    and "tap_bridges (evict_foreign_tap_claim name ll s) ll = tap_bridges s ll"
    and "all_bridges (evict_foreign_tap_claim name ll s) = all_bridges s"
    and "set (shut s) \<subseteq> set (shut (evict_foreign_tap_claim name ll s))"
proof -
  have step: "pumps_inv (drop_pump l (path_of s b, b) s)"
    "tap_owners (drop_pump l (path_of s b, b) s) name = None"
    if "tap_owners s name = Some (l, b)" for l b
    using drop_pump_inv(1,2) [OF assms pumps_invD(7) [OF assms that]] pumps_invD(6) [OF assms that]
    by simp_all
  show "pumps_inv (evict_foreign_tap_claim name ll s)"
    "tap_owners (evict_foreign_tap_claim name ll s) name =
       (case tap_owners s name of None \<Rightarrow> None | Some (l, b) \<Rightarrow> if l = ll then Some (l, b) else None)"
    "tap_bridges (evict_foreign_tap_claim name ll s) ll = tap_bridges s ll"
    "all_bridges (evict_foreign_tap_claim name ll s) = all_bridges s"
    "set (shut s) \<subseteq> set (shut (evict_foreign_tap_claim name ll s))"
    using step assms unfolding evict_foreign_eq [OF assms] by (auto split: option.splits)
qed

lemma start_pump_inv:
  assumes I: "pumps_inv s" and free: "tap_owners s name = None" and new: "map_of (tap_bridges s ll) p = None"
    and name: "name \<noteq> []"
  shows "pumps_inv (start_pump ll p name s)"
    and "tap_owners (start_pump ll p name s) = (tap_owners s)(name \<mapsto> (ll, length (all_bridges s)))"
    and "all_bridges (start_pump ll p name s) = all_bridges s @ [\<lparr> bridge_path = p, bridge_tap = name \<rparr>]"
    and "shut (start_pump ll p name s) = shut s"
proof -
  define t where "t = start_pump ll p name s"
  define b where "b = length (all_bridges s)"
  note D = pumps_invD [OF I]
  have upd: "AList.update p c xs = xs @ [(p, c)]" if "map_of xs p = None" for c :: nat and xs
    using that by (induction xs) auto
  show o: "tap_owners (start_pump ll p name s) = (tap_owners s)(name \<mapsto> (ll, length (all_bridges s)))"
    and a: "all_bridges (start_pump ll p name s) = all_bridges s @ [\<lparr> bridge_path = p, bridge_tap = name \<rparr>]"
    and sh: "shut (start_pump ll p name s) = shut s"
    using free name by (simp_all add: start_pump_def claim_tap_def Let_def)
  have tb: "tap_bridges t = (tap_bridges s)(ll := tap_bridges s ll @ [(p, b)])"
    using free name new by (simp add: t_def start_pump_def claim_tap_def Let_def upd b_def)
  have ot: "tap_owners t = (tap_owners s)(name \<mapsto> (ll, b))"
    by (simp add: t_def o b_def)
  have old: "tap_of t c = tap_of s c" "path_of t c = path_of s c" if "c < b" for c
    using that a by (simp_all add: tap_of_def path_of_def t_def b_def nth_append)
  have nw: "tap_of t b = name" "path_of t b = p"
    using a by (simp_all add: tap_of_def path_of_def t_def b_def)
  have op: "is_open t c \<longleftrightarrow> is_open s c \<or> c = b" for c
    using D(9) by (auto simp: is_open_def t_def a sh b_def)
  have lt: "c < b" if "(q, c) \<in> set (tap_bridges s l)" for q c l
    using D(2) [OF that] by (simp add: is_open_def b_def)
  have "pumps_inv t"
    unfolding pumps_inv_def
  proof (intro conjI allI impI)
    fix l show "distinct (map fst (tap_bridges t l))"
      using D(1) new by (auto simp: tb map_of_eq_None_iff)
  next
    fix l q c assume "(q, c) \<in> set (tap_bridges t l)"
    then consider "(q, c) \<in> set (tap_bridges s l)" | "l = ll" "q = p" "c = b"
      by (auto simp: tb split: if_splits)
    then have "is_open t c \<and> path_of t c = q \<and> tap_of t c \<noteq> [] \<and> tap_owners t (tap_of t c) = Some (l, c)"
    proof cases
      case 1
      have "tap_of s c \<noteq> name" using D(5) [OF 1] free by auto
      then show ?thesis
        using D(2,3,4,5) [OF 1] old [OF lt [OF 1]] op by (simp add: ot)
    next
      case 2
      then show ?thesis using nw op name by (simp add: ot)
    qed
    then show "is_open t c" "path_of t c = q" "tap_of t c \<noteq> []" "tap_owners t (tap_of t c) = Some (l, c)"
      by simp_all
  next
    fix n l c assume "tap_owners t n = Some (l, c)"
    then have "tap_owners s n = Some (l, c) \<or> n = name \<and> l = ll \<and> c = b"
      by (simp add: ot split: if_splits)
    then consider "tap_owners s n = Some (l, c)" | "n = name" "l = ll" "c = b"
      by blast
    then have "tap_of t c = n \<and> (path_of t c, c) \<in> set (tap_bridges t l)"
    proof cases
      case 1
      have m: "(path_of s c, c) \<in> set (tap_bridges s l)" by (rule D(7) [OF 1])
      then show ?thesis using D(6) [OF 1] old [OF lt [OF m]] by (cases "l = ll") (simp_all add: tb)
    next
      case 2
      then show ?thesis using nw by (simp add: tb)
    qed
    then show "tap_of t c = n" "(path_of t c, c) \<in> set (tap_bridges t l)" by simp_all
  next
    fix c assume "is_open t c"
    then consider "is_open s c" | "c = b" using op by blast
    then show "\<exists>l q. (q, c) \<in> set (tap_bridges t l)"
    proof cases
      case 1
      then obtain l q where "(q, c) \<in> set (tap_bridges s l)" using D(8) by blast
      then have "(q, c) \<in> set (tap_bridges t l)" by (cases "l = ll") (simp_all add: tb)
      then show ?thesis by blast
    next
      case 2
      then have "(p, c) \<in> set (tap_bridges t ll)" by (simp add: tb)
      then show ?thesis by blast
    qed
  next
    show "set (shut t) \<subseteq> {..<length (all_bridges t)}" using D(9) by (auto simp: t_def a sh)
  qed
  then show "pumps_inv (start_pump ll p name s)" by (simp add: t_def)
qed

text \<open>Before the new pump is opened, nothing owns the device and the path is free.\<close>

lemma realise_prepares:
  fixes name :: string
  assumes I: "pumps_inv s" and free: "map_of (tap_bridges s ll) p = None"
  defines "s' \<equiv> evict_foreign_tap_claim name ll (drop_pumps (\<lambda>(q, g). q \<noteq> p \<and> tap_of s g = name) ll s)"
  shows "pumps_inv s'" and "tap_owners s' name = None" and "map_of (tap_bridges s' ll) p = None"
    and "all_bridges s' = all_bridges s" and "set (shut s) \<subseteq> set (shut s')"
proof -
  let ?s2 = "drop_pumps (\<lambda>(q, g). q \<noteq> p \<and> tap_of s g = name) ll s"
  note d = drop_pumps_inv [OF I, where P = "\<lambda>(q, g). q \<noteq> p \<and> tap_of s g = name" and ll = ll]
  note f = evict_foreign_inv [OF d(1), of name ll, folded s'_def]
  have "tap_of u = tap_of s" if "all_bridges u = all_bridges s" for u
    by (simp add: tap_of_def that fun_eq_iff)
  note tap = this [OF d(4)]
  show "pumps_inv s'" by (rule f(1))
  show "all_bridges s' = all_bridges s" using f(4) d(4) by simp
  show "set (shut s) \<subseteq> set (shut s')" using f(5) d(5) by auto
  have no: "(p, b) \<notin> set (tap_bridges s ll)" for b
    using free map_of_entry [OF I] by (metis option.distinct(1))
  have no2: "(p, b) \<notin> set (tap_bridges ?s2 ll)" for b
    using no d(2) by blast
  have "map_of (tap_bridges ?s2 ll) p = None"
    using no2 map_of_entry [OF d(1)] by (metis option.exhaust)
  then show "map_of (tap_bridges s' ll) p = None"
    unfolding f(3) .
  have "False" if "tap_owners ?s2 name = Some (ll, b)" for b
  proof -
    have m: "(path_of ?s2 b, b) \<in> set (tap_bridges ?s2 ll)" and n: "tap_of ?s2 b = name"
      using pumps_invD(6,7) [OF d(1) that] by simp_all
    have "path_of ?s2 b \<noteq> p" using m no2 by metis
    then show False using m n d(2) tap by auto
  qed
  then show "tap_owners s' name = None"
    using f(2) by (auto split: option.splits)
qed

lemma realise_cases:
  assumes "pumps_inv s" and "name \<noteq> []"
  obtains (keep) b where "map_of (tap_bridges s ll) p = Some b" "tap_of s b = name"
      "realise_tap exists ok ll p name s = s"
  | (fresh) s' where "pumps_inv s'" "tap_owners s' name = None" "map_of (tap_bridges s' ll) p = None"
      "all_bridges s' = all_bridges s" "set (shut s) \<subseteq> set (shut s')"
      "realise_tap exists ok ll p name s = (if ok then start_pump ll p name s' else s')"
proof (cases "map_of (tap_bridges s ll) p")
  case None
  show ?thesis
    by (rule fresh [OF realise_prepares [OF assms(1) None, where name = name]])
       (simp add: realise_tap_def None Let_def)
next
  case (Some lb)
  show ?thesis
  proof (cases "tap_of s lb = name \<and> exists")
    case True
    then show ?thesis using keep Some by (simp add: realise_tap_def)
  next
    case False
    have m: "(p, lb) \<in> set (tap_bridges s ll)" using Some map_of_entry [OF assms(1)] by blast
    note d = drop_pump_inv [OF assms(1) m]
    have "map_of (tap_bridges (drop_pump ll (p, lb) s) ll) p = None"
      by (simp add: AList.delete_conv)
    note p = realise_prepares [OF d(1) this, where name = name]
    show ?thesis
      by (rule fresh [OF p(1,2,3)]) (use p(4,5) False in \<open>auto simp: realise_tap_def Some Let_def\<close>)
  qed
qed

lemma close_fold_forget:
  "close_bridge b (fold (forget_path ll) ps s) = fold (forget_path ll) ps (close_bridge b s)"
  by (induction ps arbitrary: s) (simp_all add: forget_close_commute)

lemma fold_close_after_forget:
  "fold close_bridge (map snd xs) (fold (forget_path ll) (map fst xs) s) = fold (drop_pump ll) xs s"
  by (induction xs arbitrary: s) (simp_all add: close_fold_forget drop_pump_def forget_close_commute)

lemma forget_all_paths:
  "fold (forget_path ll) (map fst (tap_bridges s ll)) s = s \<lparr> tap_bridges := (tap_bridges s)(ll := []) \<rparr>"
proof -
  have "fold (forget_path ll) ps s = s \<lparr> tap_bridges := (tap_bridges s)(ll := filter (\<lambda>e. fst e \<notin> set ps) (tap_bridges s ll)) \<rparr>" for ps
  proof (induction ps arbitrary: s)
    case (Cons p ps)
    have "filter (\<lambda>e. fst e \<notin> set ps) (AList.delete p xs) = filter (\<lambda>e. fst e \<notin> set (p # ps)) xs" for xs :: "(string \<times> nat) list"
      by (induction xs) auto
    then show ?case by (simp add: Cons.IH) (simp add: forget_path_def cong: if_cong)
  qed (simp add: fun_upd_idem)
  moreover have "filter (\<lambda>e. fst e \<notin> fst ` set xs) xs = []" for xs :: "(string \<times> nat) list"
    by (simp add: filter_empty_conv)
  ultimately show ?thesis by simp
qed

lemma teardown_pumps_eq: "teardown_pumps ll s = drop_pumps (\<lambda>_. True) ll s"
  by (simp add: teardown_pumps_def drop_pumps_def forget_all_paths [symmetric] fold_close_after_forget)

lemma evict_static_taps_eq:
  "evict_static_taps names ll s =
     (if names = [] then s else drop_pumps (\<lambda>(q, g). tap_of s g \<in> set names) ll s)"
  by (simp add: evict_static_taps_def drop_pumps_def fold_close_after_forget Let_def)

lemma pump_step_inv:
  assumes "pumps_inv s" and "named_event e"
  shows "pumps_inv (pump_step e s)"
proof (cases e)
  case (Realise exists ok ll p name)
  then have "name \<noteq> []" using assms(2) by simp
  with assms(1) show ?thesis
    by (cases rule: realise_cases [where ll = ll and p = p and exists = exists and ok = ok and name = name])
       (auto simp: Realise start_pump_inv assms(1) \<open>name \<noteq> []\<close>)
next
  case (Exited ll p b)
  then show ?thesis
    using assms(1) drop_pump_inv(1) map_of_entry [OF assms(1)] by (auto simp: evict_tap_bridge_eq)
qed (use assms(1) in \<open>simp_all add: sweep_orphans_def evict_static_taps_eq teardown_pumps_eq drop_pumps_inv\<close>)

lemma fold_pump_step_inv:
  "pumps_inv s \<Longrightarrow> list_all named_event es \<Longrightarrow> pumps_inv (fold pump_step es s)"
  by (induction es arbitrary: s) (simp_all add: pump_step_inv)

lemma run_pumps_inv: "list_all named_event es \<Longrightarrow> pumps_inv (run_pumps es)"
  unfolding run_pumps_def by (rule fold_pump_step_inv [OF pumps_inv_initial])

section \<open>Properties\<close>

text \<open>C35. After any sequence of fabric starts, pump exits, orphan sweeps, static-tap evictions
  and teardowns by any number of labs, the open pump on a kernel tap device is unique, and the
  registry names exactly that pump together with a lab that tracks it under its netio path.\<close>

theorem one_pump_per_device:
  assumes "list_all named_event es" and "s = run_pumps es" and "is_open s b"
  shows "(\<forall>c. is_open s c \<and> tap_of s c = tap_of s b \<longrightarrow> c = b) \<and>
     (\<exists>ll. tap_owners s (tap_of s b) = Some (ll, b) \<and> map_of (tap_bridges s ll) (path_of s b) = Some b)"
proof -
  note I = run_pumps_inv [OF assms(1), folded assms(2)]
  have own: "\<exists>ll. tap_owners s (tap_of s d) = Some (ll, d) \<and> (path_of s d, d) \<in> set (tap_bridges s ll)"
    if op: "is_open s d" for d
  proof -
    obtain ll p where m: "(p, d) \<in> set (tap_bridges s ll)" using pumps_invD(8) [OF I op] by blast
    then show ?thesis using pumps_invD(3,5) [OF I m] by blast
  qed
  have reg: "\<exists>ll. tap_owners s (tap_of s b) = Some (ll, b) \<and> map_of (tap_bridges s ll) (path_of s b) = Some b"
    using own [OF assms(3)] unfolding map_of_entry [OF I] .
  have "c = b" if c: "is_open s c \<and> tap_of s c = tap_of s b" for c
  proof -
    obtain l where l: "tap_owners s (tap_of s b) = Some (l, b)" using own [OF assms(3)] by blast
    obtain k where k: "tap_owners s (tap_of s c) = Some (k, c)" using own c by blast
    show "c = b" using l k c by simp
  qed
  then show ?thesis using reg by blast
qed

theorem one_pump_per_device_witness:
  "let s = run_pumps [Realise False True 0 ''p512'' ''iol1_0'', Realise True True 1 ''p512'' ''iol1_0'']
   in is_open s 1 \<and> \<not> is_open s 0 \<and> (\<exists>ll. tap_owners s (tap_of s 1) = Some (ll, 1))"
proof -
  let ?es = "[Realise False True 0 ''p512'' ''iol1_0'', Realise True True 1 ''p512'' ''iol1_0'']"
  let ?p = "\<lparr> bridge_path = ''p512'', bridge_tap = ''iol1_0'' \<rparr>"
  have first: "realise_tap ex True ll p name s = start_pump ll p name (evict_foreign_tap_claim name ll s)"
    if "tap_bridges s ll = []" for ex ll p name s
    using that by (simp add: realise_tap_def drop_pumps_def)
  have r1: "realise_tap False True 0 ''p512'' ''iol1_0'' no_pumps =
      \<lparr> all_bridges = [?p], shut = [], tap_owners = [''iol1_0'' \<mapsto> (0, 0)],
        tap_bridges = (\<lambda>_. [])(0 := [(''p512'', 0)]) \<rparr>"
    by (simp add: first no_pumps_def evict_foreign_tap_claim_def start_pump_def claim_tap_def)
  have r: "run_pumps ?es = realise_tap True True 1 ''p512'' ''iol1_0'' (realise_tap False True 0 ''p512'' ''iol1_0'' no_pumps)"
    by (simp add: run_pumps_def)
  have "all_bridges (run_pumps ?es) = [?p, ?p] \<and> shut (run_pumps ?es) = [0]"
    unfolding r r1
    by (simp add: first start_pump_def claim_tap_def evict_foreign_tap_claim_def
        close_bridge_def release_tap_def forget_path_def tap_of_def path_of_def)
  then have "is_open (run_pumps ?es) 1" "\<not> is_open (run_pumps ?es) 0"
    by (simp_all add: is_open_def)
  then have o: "is_open (run_pumps ?es) 1 \<and> \<not> is_open (run_pumps ?es) 0" by simp
  show ?thesis
    using one_pump_per_device [of ?es "run_pumps ?es" 1] o by (auto simp: Let_def)
qed

text \<open>Realising a tap takes the device over: unless the lab already runs the pump on an
  existing device, success leaves one fresh open pump registered for the lab under the path,
  and every other pump that was open on the device, whatever lab opened it, is shut.\<close>

theorem realise_takes_over:
  assumes "list_all named_event es" and "s = run_pumps es" and "name \<noteq> []"
    and "s' = realise_tap exists True ll p name s"
  shows "(\<exists>b. tap_owners s' name = Some (ll, b) \<and> map_of (tap_bridges s' ll) p = Some b \<and> is_open s' b \<and>
            (\<forall>c. is_open s' c \<and> tap_of s' c = name \<longrightarrow> c = b)) \<and>
         (map_of (tap_bridges s ll) p = None \<longrightarrow>
            (\<forall>c. is_open s c \<and> tap_of s c = name \<longrightarrow> c \<in> set (shut s')))"
proof -
  note I = run_pumps_inv [OF assms(1), folded assms(2)]
  have I': "pumps_inv s'"
    using pump_step_inv [OF I, of "Realise exists True ll p name"] assms(3,4) by simp
  have only: "c = b" if "tap_owners s' name = Some (ll, b)" "is_open s' c" "tap_of s' c = name" for b c
    using pumps_invD(8) [OF I' that(2)] pumps_invD(5) [OF I'] that by fastforce
  show ?thesis
    using I assms(3)
  proof (cases rule: realise_cases [where ll = ll and p = p and exists = exists and ok = True])
    case (keep b)
    then have s': "s' = s" using assms(4) by simp
    have m: "(p, b) \<in> set (tap_bridges s ll)" using keep map_of_entry [OF I] by blast
    then show ?thesis
      using pumps_invD(2,5) [OF I m] keep only s' by auto
  next
    case (fresh s1)
    then have s': "s' = start_pump ll p name s1" using assms(4) by simp
    note st = start_pump_inv [OF fresh(1,2,3) assms(3), folded s']
    let ?b = "length (all_bridges s1)"
    have own: "tap_owners s' name = Some (ll, ?b)" by (simp add: st(2))
    have t: "path_of s' ?b = p" by (simp add: path_of_def st(3))
    have m: "(p, ?b) \<in> set (tap_bridges s' ll)" using pumps_invD(7) [OF I' own] t by simp
    have old: "c \<in> set (shut s')" if "is_open s c" "tap_of s c = name" for c
    proof (rule ccontr)
      assume "c \<notin> set (shut s')"
      moreover have "c < ?b" using that(1) fresh(4) by (simp add: is_open_def)
      ultimately have "is_open s' c" "tap_of s' c = name"
        using that(2) fresh(4) st(3) by (simp_all add: is_open_def tap_of_def nth_append)
      then show False using only [OF own] \<open>c < ?b\<close> by simp
    qed
    show ?thesis
      using own m map_of_entry [OF I'] pumps_invD(2) [OF I' m] only [OF own] old by blast
  qed
qed

theorem realise_takes_over_witness:
  "let s = run_pumps [Realise False True 0 ''p512'' ''iol1_0'']; s' = realise_tap True True 1 ''p512'' ''iol1_0'' s
   in \<exists>b. tap_owners s' ''iol1_0'' = Some (1, b) \<and> is_open s' b"
proof -
  let ?es = "[Realise False True 0 ''p512'' ''iol1_0'']"
  show ?thesis
    using realise_takes_over [of ?es "run_pumps ?es" "''iol1_0''" _ True 1 "''p512''"]
    unfolding Let_def by fastforce
qed

end
