(* ===== verification/Go_Crypto.thy ===== *)
theory Go_Crypto
  imports Prelude
begin

text \<open>
  What the program uses of Go's crypto packages: MD5 (crypto/md5, RFC 1321) and HMAC over it
  (crypto/hmac, RFC 2104).  The mask interface at the end is what its clients rely on when
  they hide bytes under a mask derived from a key: the launcher's WebSocket frames and the
  bodies of TACACS+ packets interpret it.
\<close>

section \<open>MD5\<close>

definition md5_table :: "32 word list" where
  "md5_table = [
     0xD76AA478, 0xE8C7B756, 0x242070DB, 0xC1BDCEEE, 0xF57C0FAF, 0x4787C62A, 0xA8304613, 0xFD469501,
     0x698098D8, 0x8B44F7AF, 0xFFFF5BB1, 0x895CD7BE, 0x6B901122, 0xFD987193, 0xA679438E, 0x49B40821,
     0xF61E2562, 0xC040B340, 0x265E5A51, 0xE9B6C7AA, 0xD62F105D, 0x02441453, 0xD8A1E681, 0xE7D3FBC8,
     0x21E1CDE6, 0xC33707D6, 0xF4D50D87, 0x455A14ED, 0xA9E3E905, 0xFCEFA3F8, 0x676F02D9, 0x8D2A4C8A,
     0xFFFA3942, 0x8771F681, 0x6D9D6122, 0xFDE5380C, 0xA4BEEA44, 0x4BDECFA9, 0xF6BB4B60, 0xBEBFBC70,
     0x289B7EC6, 0xEAA127FA, 0xD4EF3085, 0x04881D05, 0xD9D4D039, 0xE6DB99E5, 0x1FA27CF8, 0xC4AC5665,
     0xF4292244, 0x432AFF97, 0xAB9423A7, 0xFC93A039, 0x655B59C3, 0x8F0CCC92, 0xFFEFF47D, 0x85845DD1,
     0x6FA87E4F, 0xFE2CE6E0, 0xA3014314, 0x4E0811A1, 0xF7537E82, 0xBD3AF235, 0x2AD7D2BB, 0xEB86D391]"

definition md5_shift :: "nat \<Rightarrow> nat" where
  "md5_shift i =
     (if i < 16 then [7, 12, 17, 22] else if i < 32 then [5, 9, 14, 20]
      else if i < 48 then [4, 11, 16, 23] else [6, 10, 15, 21]) ! (i mod 4)"

definition md5_index :: "nat \<Rightarrow> nat" where
  "md5_index i =
     (if i < 16 then i else if i < 32 then (5 * i + 1) mod 16
      else if i < 48 then (3 * i + 5) mod 16 else (7 * i) mod 16)"

definition md5_mix :: "nat \<Rightarrow> 32 word \<Rightarrow> 32 word \<Rightarrow> 32 word \<Rightarrow> 32 word" where
  "md5_mix i b c d =
     (if i < 16 then (b AND c) OR (NOT b AND d)
      else if i < 32 then (d AND b) OR (NOT d AND c)
      else if i < 48 then b XOR c XOR d
      else c XOR (b OR NOT d))"

type_synonym md5_state = "32 word \<times> 32 word \<times> 32 word \<times> 32 word"

definition md5_round :: "32 word list \<Rightarrow> nat \<Rightarrow> md5_state \<Rightarrow> md5_state" where
  "md5_round m i = (\<lambda>(a, b, c, d).
     (d, b + word_rotl (md5_shift i) (a + md5_mix i b c d + md5_table ! i + m ! md5_index i), b, c))"

fun words_le :: "bytes \<Rightarrow> 32 word list" where
  "words_le (b0 # b1 # b2 # b3 # bs) = le32 b0 b1 b2 b3 # words_le bs"
| "words_le bs = []"

definition md5_block :: "bytes \<Rightarrow> md5_state \<Rightarrow> md5_state" where
  "md5_block block = (\<lambda>(a, b, c, d).
     case fold (md5_round (words_le block)) [0..<64] (a, b, c, d) of
       (a', b', c', d') \<Rightarrow> (a + a', b + b', c + c', d + d'))"

fun md5_blocks :: "bytes \<Rightarrow> md5_state \<Rightarrow> md5_state" where
  "md5_blocks bs st = (if length bs < 64 then st else md5_blocks (drop 64 bs) (md5_block (take 64 bs) st))"

declare md5_blocks.simps [simp del]

definition md5_padded :: "bytes \<Rightarrow> bytes" where
  "md5_padded bs =
     (let bits = of_nat (8 * length bs) :: 64 word
      in bs @ 0x80 # replicate ((119 - length bs mod 64) mod 64) 0
         @ put_le32 (ucast bits) @ put_le32 (ucast (drop_bit 32 bits)))"

definition md5 :: "bytes \<Rightarrow> bytes" where
  "md5 bs =
     (case md5_blocks (md5_padded bs) (0x67452301, 0xEFCDAB89, 0x98BADCFE, 0x10325476) of
        (a, b, c, d) \<Rightarrow> put_le32 a @ put_le32 b @ put_le32 c @ put_le32 d)"

lemma length_md5 [simp]: "length (md5 bs) = 16"
  by (simp add: md5_def split: prod.split)

text \<open>The padding fills whole blocks, so no byte of a message is left out of its digest.\<close>

lemma md5_padded_blocks: "64 dvd length (md5_padded bs)"
proof -
  define q r where "q = length bs div 64" and "r = length bs mod 64"
  have n: "length bs = 64 * q + r" and r: "r < 64" by (simp_all add: q_def r_def)
  have "64 dvd 64 * q + r + 9 + (119 - r) mod 64"
  proof (cases "r \<le> 55")
    case True
    then have "(119 - r) mod 64 = 55 - r" by (simp add: le_mod_geq)
    then have "64 * q + r + 9 + (119 - r) mod 64 = 64 * (q + 1)" using True by simp
    then show ?thesis by (metis dvd_triv_left)
  next
    case False
    then have "64 * q + r + 9 + (119 - r) mod 64 = 64 * (q + 2)" using r by simp
    then show ?thesis by (metis dvd_triv_left)
  qed
  moreover have "length (md5_padded bs) = 64 * q + r + 9 + (119 - r) mod 64"
    unfolding md5_padded_def Let_def r_def [symmetric] by (simp add: n)
  ultimately show ?thesis by simp
qed

section \<open>HMAC\<close>

definition hmac_key :: "bytes \<Rightarrow> bytes" where
  "hmac_key key = (let k = (if length key > 64 then md5 key else key) in k @ replicate (64 - length k) 0)"

definition hmac_md5 :: "bytes \<Rightarrow> bytes \<Rightarrow> bytes" where
  "hmac_md5 key msg =
     (let k = hmac_key key
      in md5 (map (\<lambda>b. b XOR 0x5C) k @ md5 (map (\<lambda>b. b XOR 0x36) k @ msg)))"

lemma length_hmac_md5 [simp]: "length (hmac_md5 key msg) = 16"
  by (simp add: hmac_md5_def Let_def)

section \<open>Hiding bytes under a mask\<close>

locale byte_mask =
  fixes hide :: "'k \<Rightarrow> bytes \<Rightarrow> bytes"
  assumes hide_length: "length (hide k bs) = length bs"
    and hide_twice: "hide k (hide k bs) = bs"
begin

lemma hide_eq_iff: "hide k bs = cs \<longleftrightarrow> bs = hide k cs"
  using hide_twice by metis

lemma hide_inject: "hide k bs = hide k cs \<longleftrightarrow> bs = cs"
  using hide_twice by metis

lemma hide_Nil: "hide k [] = []"
  using hide_length [of k "[]"] by simp

lemma hide_onto: "\<exists>bs. length bs = length cs \<and> hide k bs = cs"
  using hide_twice hide_length by metis

end

definition xor_bytes :: "bytes \<Rightarrow> bytes \<Rightarrow> bytes" where
  "xor_bytes bs pad = map2 (XOR) bs pad"

lemma length_xor_bytes [simp]: "length (xor_bytes bs pad) = min (length bs) (length pad)"
  by (simp add: xor_bytes_def)

lemma xor_bytes_twice: "length bs \<le> length pad \<Longrightarrow> xor_bytes (xor_bytes bs pad) pad = bs"
  by (rule nth_equalityI) (simp_all add: xor_bytes_def xor.assoc)

end
