(* ===== verification/Ws_Frame.thy ===== *)
theory Ws_Frame
  imports Go_Crypto
begin

text \<open>
  WebSocket framing (RFC 6455): the server's Conn in ws/ws.go and the launcher's client in
  tools/iolab-launcher/wsclient.go, over the bytes of their connection.  The opening
  handshake is HTTP and is not modelled.

  A connection is the bytes that are still to arrive before end of file, the bytes written
  so far, and whether it was closed or writing to it fails.
\<close>

section \<open>Frames\<close>

abbreviation (input) op_continuation :: byte where "op_continuation \<equiv> 0x0"
abbreviation (input) op_text :: byte where "op_text \<equiv> 0x1"
abbreviation (input) op_binary :: byte where "op_binary \<equiv> 0x2"
abbreviation (input) op_close :: byte where "op_close \<equiv> 0x8"
abbreviation (input) op_ping :: byte where "op_ping \<equiv> 0x9"
abbreviation (input) op_pong :: byte where "op_pong \<equiv> 0xA"

definition max_frame_size :: nat where
  "max_frame_size = 16 * 1024 * 1024"

datatype ws_error =
    Ws_EOF | Not_Masked | Frame_Too_Large nat | Nonzero_RSV | Unexpected_Continuation | Message_Too_Large nat
  | Unexpected_Opcode byte | Ws_Closed | Write_Failed | Fragmented byte | Make_Panic nat

text \<open>io.ReadFull, which leaves nothing behind when it fails.\<close>

definition read_full :: "nat \<Rightarrow> bytes \<Rightarrow> bytes option \<times> bytes" where
  "read_full n bs = (if n \<le> length bs then (Some (take n bs), drop n bs) else (None, []))"

record frame_header =
  fh_fin :: bool
  fh_opcode :: byte
  fh_masked :: bool
  fh_length :: "64 word"
  fh_key :: bytes

definition read_length :: "byte \<Rightarrow> bytes \<Rightarrow> 64 word option \<times> bytes" where
  "read_length len7 bs =
     (if len7 = 126 then (case read_full 2 bs of
        (None, r) \<Rightarrow> (None, r) | (Some ext, r) \<Rightarrow> (Some (ucast (be16 (ext ! 0) (ext ! 1))), r))
      else if len7 = 127 then (case read_full 8 bs of
        (None, r) \<Rightarrow> (None, r) | (Some ext, r) \<Rightarrow> (Some (be64 ext), r))
      else (Some (ucast len7), bs))"

definition read_frame_header :: "bytes \<Rightarrow> (ws_error, frame_header) result \<times> bytes" where
  "read_frame_header bs =
     (case read_full 2 bs of
        (None, r) \<Rightarrow> (Inl Ws_EOF, r)
      | (Some b, r) \<Rightarrow>
          if b ! 0 AND 0x70 \<noteq> 0 then (Inl Nonzero_RSV, r)
          else case read_length (b ! 1 AND 0x7F) r of
                 (None, r1) \<Rightarrow> (Inl Ws_EOF, r1)
               | (Some len, r1) \<Rightarrow>
                   let h = \<lparr> fh_fin = (b ! 0 AND 0x80 \<noteq> 0), fh_opcode = b ! 0 AND 0x0F, fh_masked = (b ! 1 AND 0x80 \<noteq> 0),
                             fh_length = len, fh_key = [0, 0, 0, 0] \<rparr>
                   in if fh_masked h
                      then (case read_full 4 r1 of
                              (None, r2) \<Rightarrow> (Inl Ws_EOF, r2) | (Some mk, r2) \<Rightarrow> (Inr (h \<lparr> fh_key := mk \<rparr>), r2))
                      else (Inr h, r1))"

fun unmask_from :: "nat \<Rightarrow> bytes \<Rightarrow> bytes \<Rightarrow> bytes" where
  "unmask_from i key [] = []"
| "unmask_from i key (b # bs) = (b XOR key ! (i mod 4)) # unmask_from (Suc i) key bs"

definition unmask :: "bytes \<Rightarrow> bytes \<Rightarrow> bytes" where
  "unmask data key = unmask_from 0 key data"

lemma read_full_length: "read_full n bs = (Some a, r) \<Longrightarrow> length a = n \<and> bs = a @ r"
  by (auto simp: read_full_def split: if_splits)

lemma read_full_append [simp]: "length a = n \<Longrightarrow> read_full n (a @ r) = (Some a, r)"
  by (simp add: read_full_def)

lemma read_length_shrinks: "read_length l bs = (Some len, r) \<Longrightarrow> length r \<le> length bs"
  by (auto simp: read_length_def read_full_def split: if_splits)

lemma read_frame_header_shrinks: "read_frame_header bs = (Inr h, r) \<Longrightarrow> length r < length bs"
  by (auto simp: read_frame_header_def Let_def dest!: read_full_length read_length_shrinks
      split: prod.splits option.splits if_splits)

section \<open>The server's connection\<close>

function read_frame_from :: "byte \<Rightarrow> bytes \<Rightarrow> bool \<Rightarrow> bytes \<Rightarrow> (ws_error, byte \<times> bytes) result \<times> bytes" where
  "read_frame_from message_op payload first bs =
     (case read_frame_header bs of
        (Inl e, r) \<Rightarrow> (Inl e, r)
      | (Inr h, r) \<Rightarrow>
          if \<not> fh_masked h then (Inl Not_Masked, r)
          else if unat (fh_length h) > max_frame_size then (Inl (Frame_Too_Large (unat (fh_length h))), r)
          else case read_full (unat (fh_length h)) r of
                 (None, r1) \<Rightarrow> (Inl Ws_EOF, r1)
               | (Some d, r1) \<Rightarrow>
                   let data = unmask d (fh_key h)
                   in if fh_opcode h = op_ping \<or> fh_opcode h = op_pong \<or> fh_opcode h = op_close
                      then (Inr (fh_opcode h, data), r1)
                      else if first \<and> fh_opcode h = op_continuation then (Inl Unexpected_Continuation, r1)
                      else let op = (if first then fh_opcode h else message_op);
                               all = payload @ data
                           in if length all > max_frame_size then (Inl (Message_Too_Large (length all)), r1)
                              else if fh_fin h then (Inr (op, all), r1)
                              else read_frame_from op all False r1)"
  by pat_completeness auto
termination
  by (relation "measure (\<lambda>(_, _, _, bs). length bs)")
    (auto dest!: read_frame_header_shrinks [OF sym] read_full_length [OF sym])

declare read_frame_from.simps [simp del]

definition read_frame :: "bytes \<Rightarrow> (ws_error, byte \<times> bytes) result \<times> bytes" where
  "read_frame bs = read_frame_from 0 [] True bs"

record ws_conn =
  wc_in :: bytes
  wc_out :: bytes
  wc_closed :: bool
  wc_broken :: bool

definition length_bytes :: "nat \<Rightarrow> bytes" where
  "length_bytes n =
     (if n < 126 then [of_nat n]
      else if n \<le> 0xFFFF then 126 # put_be16 (of_nat n)
      else 127 # put_be64 (of_nat n))"

definition server_frame :: "byte \<Rightarrow> bytes \<Rightarrow> bytes" where
  "server_frame op payload = (0x80 OR op) # length_bytes (length payload) @ payload"

definition write_frame :: "byte \<Rightarrow> bytes \<Rightarrow> ws_conn \<Rightarrow> ws_error option \<times> ws_conn" where
  "write_frame op payload c =
     (if wc_closed c then (Some Ws_Closed, c)
      else if wc_broken c then (Some Write_Failed, c)
      else (None, c \<lparr> wc_out := wc_out c @ server_frame op payload \<rparr>))"

definition write_message :: "byte \<Rightarrow> bytes \<Rightarrow> ws_conn \<Rightarrow> ws_error option \<times> ws_conn" where
  "write_message op payload c = (if wc_closed c then (Some Ws_Closed, c) else write_frame op payload c)"

definition write_close :: "16 word \<Rightarrow> bytes \<Rightarrow> ws_conn \<Rightarrow> ws_error option \<times> ws_conn" where
  "write_close code reason c =
     (if wc_closed c then (Some Ws_Closed, c) else write_frame op_close (put_be16 code @ reason) c)"

text \<open>ReadMessage: a message, the peer's close frame (io.EOF), or an error.\<close>

datatype ws_read = Message byte bytes | Peer_Closed bytes | Failed ws_error

lemma read_frame_from_shrinks: "read_frame_from mop p first bs = (Inr x, r) \<Longrightarrow> length r < length bs"
proof (induction mop p first bs rule: read_frame_from.induct)
  case (1 mop p first bs)
  note step = "1.prems" [unfolded read_frame_from.simps [of mop p first bs]]
  obtain h r0 where h: "read_frame_header bs = (Inr h, r0)" using step by (auto split: prod.splits sum.splits)
  obtain d r1 where d: "read_full (unat (fh_length h)) r0 = (Some d, r1)"
    using step h by (auto split: prod.splits option.splits if_splits)
  have l: "length r1 < length bs" using read_frame_header_shrinks [OF h] read_full_length [OF d] by simp
  from step h d have "r = r1 \<or> (\<exists>op all. read_frame_from op all False r1 = (Inr x, r) \<and>
      (read_frame_from op all False r1 = (Inr x, r) \<longrightarrow> length r < length r1))"
    using "1.IH" [OF h [symmetric] refl _ _ d [symmetric] refl refl]
    by (auto simp: Let_def split: if_splits)
  then show ?case using l by auto
qed

function read_message :: "ws_conn \<Rightarrow> ws_read \<times> ws_conn" where
  "read_message c =
     (case read_frame (wc_in c) of
        (Inl e, r) \<Rightarrow> (Failed e, c \<lparr> wc_in := r \<rparr>)
      | (Inr (op, payload), r) \<Rightarrow>
          let c1 = c \<lparr> wc_in := r \<rparr>
          in if op = op_ping
             then (case write_frame op_pong payload c1 of
                     (Some e, c2) \<Rightarrow> (Failed e, c2) | (None, c2) \<Rightarrow> read_message c2)
             else if op = op_pong then read_message c1
             else if op = op_close then (Peer_Closed payload, snd (write_frame op_close payload c1))
             else if op = op_text \<or> op = op_binary then (Message op payload, c1)
             else (Failed (Unexpected_Opcode op), c1))"
  by pat_completeness auto
termination
  by (relation "measure (\<lambda>c. length (wc_in c))")
    (auto simp: read_frame_def write_frame_def dest!: read_frame_from_shrinks [OF sym] split: if_splits)

declare read_message.simps [simp del]

section \<open>The launcher's client\<close>

definition client_frame :: "byte \<Rightarrow> bytes \<Rightarrow> bytes option \<Rightarrow> bytes" where
  "client_frame opcode payload mkey =
     (let bit = (if mkey = None then 0 else 0x80) :: byte;
          n = length payload;
          hdr = (0x80 OR (opcode AND 0x0F)) #
            (if n \<le> 125 then [bit OR of_nat n]
             else if n \<le> 0xFFFF then (bit OR 126) # put_be16 (of_nat n)
             else (bit OR 127) # put_be64 (of_nat n))
      in case mkey of
           None \<Rightarrow> hdr @ payload
         | Some key \<Rightarrow> hdr @ key @ unmask payload key)"

definition client_read_frame :: "bytes \<Rightarrow> (ws_error, byte \<times> bytes) result \<times> bytes" where
  "client_read_frame bs =
     (case read_full 2 bs of
        (None, r) \<Rightarrow> (Inl Ws_EOF, r)
      | (Some b, r) \<Rightarrow>
          let opcode = b ! 0 AND 0x0F
          in if b ! 0 AND 0x80 = 0 then (Inl (Fragmented opcode), r)
             else case read_length (b ! 1 AND 0x7F) r of
                    (None, r1) \<Rightarrow> (Inl Ws_EOF, r1)
                  | (Some len, r1) \<Rightarrow>
                      (case (if b ! 1 AND 0x80 \<noteq> 0 then read_full 4 r1 else (Some [0, 0, 0, 0], r1)) of
                         (None, r2) \<Rightarrow> (Inl Ws_EOF, r2)
                       | (Some key, r2) \<Rightarrow>
                           if 2 ^ 48 \<le> unat len then (Inl (Make_Panic (unat len)), r2)
                           else case read_full (unat len) r2 of
                                  (None, r3) \<Rightarrow> (Inl Ws_EOF, r3)
                                | (Some p, r3) \<Rightarrow> (Inr (opcode, if b ! 1 AND 0x80 \<noteq> 0 then unmask p key else p), r3)))"

section \<open>What is on the wire\<close>

text \<open>A masked frame as RFC 6455 lays it out, and a message cut into fragments with their keys.\<close>

definition wire_frame :: "bool \<Rightarrow> byte \<Rightarrow> bytes \<Rightarrow> bytes \<Rightarrow> bytes" where
  "wire_frame fin op key payload =
     (let n = length payload
      in ((if fin then 0x80 else 0) OR op) #
         (if n < 126 then [0x80 OR of_nat n]
          else if n < 2 ^ 16 then 0xFE # put_be16 (of_nat n)
          else 0xFF # put_be64 (of_nat n)) @ key @ unmask payload key)"

fun wire_message :: "byte \<Rightarrow> (bytes \<times> bytes) list \<Rightarrow> bytes" where
  "wire_message op [] = []"
| "wire_message op [(key, p)] = wire_frame True op key p"
| "wire_message op ((key, p) # f # fs) = wire_frame False op key p @ wire_message op_continuation (f # fs)"

section \<open>Lemmas\<close>

lemma client_frame_wire: "op AND 0x0F = op \<Longrightarrow> client_frame op payload (Some key) = wire_frame True op key payload"
  by (simp add: client_frame_def wire_frame_def Let_def)

lemma unmask_from_length [simp]: "length (unmask_from i key bs) = length bs"
  by (induction i key bs rule: unmask_from.induct) auto

lemma unmask_length [simp]: "length (unmask bs key) = length bs"
  by (simp add: unmask_def)

lemma unmask_from_twice: "unmask_from i key (unmask_from i key bs) = bs"
  by (induction i key bs rule: unmask_from.induct) (simp_all add: xor.assoc)

lemma unmask_twice [simp]: "unmask (unmask bs key) key = bs"
  by (simp add: unmask_def unmask_from_twice)

interpretation ws_mask: byte_mask "\<lambda>key bs. unmask bs key"
  by unfold_locales simp_all

lemma be64_put_be64 [simp]: "be64 (put_be64 w) = w"
proof -
  have "be64 (put_be64 w) = push_bit 32 (ucast (ucast (drop_bit 32 w) :: 32 word)) OR ucast (ucast w :: 32 word)"
    by (simp add: be64_def put_be64_def put_be32_def)
  also have "\<dots> = w" by (rule bit_word_eqI) (auto simp: bit_simps)
  finally show ?thesis .
qed

lemma small_byte: "n < 126 \<Longrightarrow> unat (of_nat n :: byte) = n"
  by (simp add: unat_of_nat take_bit_nat_eq_self)

lemma byte_low7: "n < 126 \<Longrightarrow> (of_nat n :: byte) AND 0x7F = of_nat n"
proof -
  assume n: "n < 126"
  have "(of_nat n :: byte) AND 0x7F = take_bit 7 (of_nat n)" by (simp add: take_bit_eq_mask mask_eq_exp_minus_1)
  also have "\<dots> = of_nat n"
    using n by (simp add: word_unat_eq_iff unsigned_take_bit_eq unat_of_nat take_bit_nat_eq_self)
  finally show ?thesis .
qed

lemma masked_bits:
  "(0x80 OR w) AND 0x7F = w AND 0x7F" "(0x80 OR w) AND 0x80 \<noteq> 0" for w :: byte
proof -
  show "(0x80 OR w) AND 0x7F = w AND 0x7F" by (simp add: bit.conj_disj_distrib2)
  have "(0x80 OR w) AND 0x80 = 0x80" by (simp add: bit.conj_disj_distrib2 or.commute bit.disj_conj_distrib)
  then show "(0x80 OR w) AND 0x80 \<noteq> 0" by simp
qed

text \<open>The three length forms read back.\<close>

lemma read_length_form:
  assumes "n < 2 ^ 64"
  shows "n < 126 \<Longrightarrow> read_length (of_nat n) r = (Some (of_nat n), r)"
    "n < 2 ^ 16 \<Longrightarrow> read_length 126 (put_be16 (of_nat n) @ r) = (Some (of_nat n), r)"
    "read_length 127 (put_be64 (of_nat n) @ r) = (Some (of_nat n), r)"
proof -
  show "read_length (of_nat n) r = (Some (of_nat n), r)" if n: "n < 126"
  proof -
    have "(of_nat n :: byte) \<noteq> 126" "(of_nat n :: byte) \<noteq> 127"
      using small_byte [OF n] n by (auto simp: word_unat_eq_iff)
    moreover have "(ucast (of_nat n :: byte) :: 64 word) = of_nat n"
      using n by (simp add: word_unat_eq_iff unat_of_nat take_bit_nat_eq_self unsigned_ucast_eq)
    ultimately show ?thesis by (simp add: read_length_def)
  qed
  show "read_length 126 (put_be16 (of_nat n) @ r) = (Some (of_nat n), r)" if n: "n < 2 ^ 16"
  proof -
    have "(ucast (of_nat n :: 16 word) :: 64 word) = of_nat n"
      using n by (simp add: word_unat_eq_iff unat_of_nat take_bit_nat_eq_self unsigned_ucast_eq)
    then show ?thesis by (simp add: read_length_def) (simp add: put_be16_def)
  qed
  show "read_length 127 (put_be64 (of_nat n) @ r) = (Some (of_nat n), r)"
    by (simp add: read_length_def)
qed

abbreviation (input) opcodes :: "byte set" where "opcodes \<equiv> {0, 1, 2, 8, 9, 10}"

lemma op_bits:
  assumes "op \<in> opcodes"
  shows "(0x80 OR op) AND 0x70 = 0" "op AND 0x70 = 0" "(0x80 OR op) AND 0x80 \<noteq> 0" "op AND 0x80 = 0"
    "(0x80 OR op) AND 0x0F = op" "op AND 0x0F = op"
  using assms by auto

lemma header_wire:
  assumes "op \<in> opcodes" and "length key = 4" and n: "length payload < 2 ^ 64"
  shows "read_frame_header (wire_frame fin op key payload @ rest) =
    (Inr \<lparr> fh_fin = fin, fh_opcode = op, fh_masked = True, fh_length = of_nat (length payload), fh_key = key \<rparr>,
     unmask payload key @ rest)"
proof -
  let ?n = "length payload" and ?b = "(if fin then 0x80 else 0) OR op"
  have b: "?b AND 0x70 = 0" "(?b AND 0x80 \<noteq> 0) = fin" "?b AND 0x0F = op" using op_bits [OF assms(1)] by simp_all
  have "\<exists>c len. wire_frame fin op key payload @ rest = [?b, c] @ (len @ key @ unmask payload key @ rest) \<and>
    c AND 0x80 \<noteq> 0 \<and> (\<forall>r. read_length (c AND 0x7F) (len @ r) = (Some (of_nat ?n), r))"
  proof -
    consider "?n < 126" | "126 \<le> ?n" "?n < 2 ^ 16" | "2 ^ 16 \<le> ?n" by linarith
    then show ?thesis
    proof cases
      case 1
      then show ?thesis
        using read_length_form(1) [OF n 1] byte_low7 [OF 1]
        by (intro exI [of _ "0x80 OR of_nat ?n"] exI [of _ "[]"]) (simp_all add: wire_frame_def Let_def masked_bits)
    next
      case 2
      have "\<not> ?n < 126" using 2 by simp
      then have "wire_frame fin op key payload @ rest = [?b, 0xFE] @ (put_be16 (of_nat ?n) @ key @ unmask payload key @ rest)"
        unfolding wire_frame_def Let_def if_not_P [OF \<open>\<not> ?n < 126\<close>] if_P [OF 2(2)] by simp
      then show ?thesis
        using read_length_form(2) [OF n 2(2)] by (intro exI [of _ "0xFE :: byte"] exI [of _ "put_be16 (of_nat ?n)"]) simp
    next
      case 3
      have "\<not> ?n < 126" "\<not> ?n < 2 ^ 16" using 3 by simp_all
      then have "wire_frame fin op key payload @ rest = [?b, 0xFF] @ (put_be64 (of_nat ?n) @ key @ unmask payload key @ rest)"
        unfolding wire_frame_def Let_def if_not_P [OF \<open>\<not> ?n < 126\<close>] if_not_P [OF \<open>\<not> ?n < 2 ^ 16\<close>] by simp
      then show ?thesis
        using read_length_form(3) [OF n] by (intro exI [of _ "0xFF :: byte"] exI [of _ "put_be64 (of_nat ?n)"]) simp
    qed
  qed
  then obtain c len where w: "wire_frame fin op key payload @ rest = [?b, c] @ (len @ key @ unmask payload key @ rest)"
    and c: "c AND 0x80 \<noteq> 0" and l: "\<And>r. read_length (c AND 0x7F) (len @ r) = (Some (of_nat ?n), r)" by blast
  have r: "read_full 2 ([?b, c] @ r) = (Some [?b, c], r)" for r by (rule read_full_append) simp
  show ?thesis unfolding w read_frame_header_def r by (simp add: b c l assms(2) Let_def)
qed

lemma max_frame_size_bound: "n \<le> max_frame_size \<Longrightarrow> n < 2 ^ 64" "n \<le> max_frame_size \<Longrightarrow> unat (of_nat n :: 64 word) = n"
  by (simp_all add: max_frame_size_def unat_of_nat take_bit_nat_eq_self)

lemma read_from_wire:
  assumes "op \<in> opcodes" and "length key = 4" and p: "length p \<le> max_frame_size"
  shows "read_frame_from message_op acc first (wire_frame fin op key p @ rest) =
    (if op = op_ping \<or> op = op_pong \<or> op = op_close then (Inr (op, p), rest)
     else if first \<and> op = op_continuation then (Inl Unexpected_Continuation, rest)
     else if length (acc @ p) > max_frame_size then (Inl (Message_Too_Large (length (acc @ p))), rest)
     else if fin then (Inr (if first then op else message_op, acc @ p), rest)
     else read_frame_from (if first then op else message_op) (acc @ p) False rest)"
  unfolding read_frame_from.simps [of message_op acc first "wire_frame fin op key p @ rest"]
    header_wire [OF assms(1,2) max_frame_size_bound(1) [OF p]]
  using p by (simp add: max_frame_size_bound(2) [OF p] Let_def)

lemma read_from_fragments:
  assumes "fs \<noteq> []" and "\<forall>(key, p) \<in> set fs. length key = 4"
    and "length acc + length (concat (map snd fs)) \<le> max_frame_size"
  shows "read_frame_from message_op acc False (wire_message op_continuation fs @ rest) =
    (Inr (message_op, acc @ concat (map snd fs)), rest)"
  using assms
proof (induction "0 :: byte" fs arbitrary: acc rule: wire_message.induct)
  case (2 key p)
  then show ?case by (simp add: read_from_wire)
next
  case (3 key p f fs)
  then show ?case by (simp add: read_from_wire)
qed simp

lemma read_frame_message:
  assumes "op \<in> {op_text, op_binary}" and "fs \<noteq> []" and "\<forall>(key, p) \<in> set fs. length key = 4"
    and "length (concat (map snd fs)) \<le> max_frame_size"
  shows "read_frame (wire_message op fs @ rest) = (Inr (op, concat (map snd fs)), rest)"
proof -
  obtain key p fs' where fs: "fs = (key, p) # fs'" using assms(2) by (cases fs) auto
  show ?thesis
  proof (cases fs')
    case Nil
    then show ?thesis using assms fs by (auto simp: read_frame_def read_from_wire)
  next
    case (Cons f gs)
    have "read_frame (wire_message op fs @ rest) = read_frame_from op p False (wire_message op_continuation fs' @ rest)"
      using assms fs Cons by (cases f) (auto simp: read_frame_def read_from_wire)
    also have "\<dots> = (Inr (op, p @ concat (map snd fs')), rest)"
      by (rule read_from_fragments) (use assms fs Cons in auto)
    finally show ?thesis using fs by simp
  qed
qed

definition ping_frames :: "(bytes \<times> bytes) list \<Rightarrow> bytes" where
  "ping_frames pings = concat (map (\<lambda>(key, p). wire_frame True op_ping key p) pings)"

lemma read_message_pings:
  assumes "\<not> wc_closed c" "\<not> wc_broken c" and "\<forall>(key, p) \<in> set pings. length key = 4 \<and> length p \<le> max_frame_size"
  shows "read_message (c \<lparr> wc_in := ping_frames pings @ bs \<rparr>) =
    read_message (c \<lparr> wc_in := bs, wc_out := wc_out c @ concat (map (\<lambda>(_, p). server_frame op_pong p) pings) \<rparr>)"
  using assms
proof (induction pings arbitrary: c)
  case (Cons x pings)
  obtain key p where x: "x = (key, p)" by force
  let ?c = "c \<lparr> wc_out := wc_out c @ server_frame op_pong p \<rparr>"
  have "read_message (c \<lparr> wc_in := ping_frames (x # pings) @ bs \<rparr>) = read_message (?c \<lparr> wc_in := ping_frames pings @ bs \<rparr>)"
    by (subst read_message.simps)
      (use Cons.prems x in \<open>cases c; simp add: ping_frames_def read_frame_def read_from_wire write_frame_def\<close>)
  also have "\<dots> = read_message (?c \<lparr> wc_in := bs, wc_out := wc_out ?c @ concat (map (\<lambda>(_, p). server_frame op_pong p) pings) \<rparr>)"
    by (rule Cons.IH) (use Cons.prems x in auto)
  finally show ?case using x by simp
qed (simp add: ping_frames_def)

lemma length_bytes_form:
  assumes n: "n < 2 ^ 64"
  shows "\<exists>c len. length_bytes n = c # len \<and> c AND 0x80 = 0 \<and> (\<forall>r. read_length (c AND 0x7F) (len @ r) = (Some (of_nat n), r))"
proof -
  consider "n < 126" | "\<not> n < 126" "n \<le> 0xFFFF" | "\<not> n < 126" "\<not> n \<le> 0xFFFF" by linarith
  then show ?thesis
  proof cases
    case 1
    have "(of_nat n :: byte) AND 0x80 = (of_nat n AND 0x7F) AND 0x80" using byte_low7 [OF 1] by simp
    also have "\<dots> = 0" by (simp add: and.assoc)
    finally show ?thesis using 1 read_length_form(1) [OF n 1] byte_low7 [OF 1] by (auto simp: length_bytes_def)
  next
    case 2
    then show ?thesis using read_length_form(2) [OF n]
      by (intro exI [of _ "126 :: byte"] exI [of _ "put_be16 (of_nat n)"]) (simp add: length_bytes_def)
  next
    case 3
    then show ?thesis using read_length_form(3) [OF n]
      by (intro exI [of _ "127 :: byte"] exI [of _ "put_be64 (of_nat n)"]) (simp add: length_bytes_def)
  qed
qed

lemma client_reads_server:
  assumes op: "op \<in> opcodes" and n: "length p < 2 ^ 48"
  shows "client_read_frame (server_frame op p @ rest) = (Inr (op, p), rest)"
proof -
  have n64: "length p < 2 ^ 64" and u: "unat (of_nat (length p) :: 64 word) = length p"
    using n by (simp_all add: unat_of_nat take_bit_nat_eq_self)
  obtain c len where l: "length_bytes (length p) = c # len" and c: "c AND 0x80 = 0"
    and r: "\<And>r. read_length (c AND 0x7F) (len @ r) = (Some (of_nat (length p)), r)"
    using length_bytes_form [OF n64] by blast
  have w: "server_frame op p @ rest = [0x80 OR op, c] @ (len @ p @ rest)" by (simp add: server_frame_def l)
  have h: "read_full 2 ([0x80 OR op, c] @ r) = (Some [0x80 OR op, c], r)" for r by (rule read_full_append) simp
  show ?thesis unfolding w client_read_frame_def h using op_bits [OF op] n by (simp add: c r u Let_def)
qed

text \<open>No message that ReadMessage returns is longer than the limit.\<close>

lemma read_frame_from_bounded:
  "read_frame_from mop acc first bs = (Inr (op, p), r) \<Longrightarrow> length p \<le> max_frame_size"
proof (induction mop acc first bs rule: read_frame_from.induct)
  case (1 mop acc first bs)
  note step = "1.prems" [unfolded read_frame_from.simps [of mop acc first bs]]
  obtain h r0 where h: "read_frame_header bs = (Inr h, r0)" using step by (auto split: prod.splits sum.splits)
  obtain d r1 where d: "read_full (unat (fh_length h)) r0 = (Some d, r1)" and b: "unat (fh_length h) \<le> max_frame_size"
    using step h by (auto split: prod.splits option.splits if_splits)
  have "length (unmask d (fh_key h)) \<le> max_frame_size" using read_full_length [OF d] b by simp
  then show ?case
    using step h d "1.IH" [OF h [symmetric] refl _ _ d [symmetric] refl refl]
    by (auto simp: Let_def split: if_splits)
qed

lemma read_message_cases:
  "read_message c = (Message op p, c') \<Longrightarrow> length p \<le> max_frame_size \<and> op \<in> {op_text, op_binary}"
proof (induction c rule: read_message.induct)
  case (1 c)
  note step = "1.prems" [unfolded read_message.simps [of c]]
  obtain o2 q r where f: "read_frame (wc_in c) = (Inr (o2, q), r)" using step by (auto split: prod.splits sum.splits)
  have b: "length q \<le> max_frame_size" using f by (simp add: read_frame_def read_frame_from_bounded)
  show ?case
    using step f b "1.IH" [OF f [symmetric] refl refl refl]
    by (auto simp: Let_def split: if_splits prod.splits option.splits)
qed

section \<open>Properties\<close>

text \<open>C9. Whatever pings a client sends first and however it cuts a message into masked fragments,
  ReadMessage returns the message whole, answers every ping with a pong of the same payload in order,
  and leaves exactly the bytes that follow the message.\<close>

theorem client_message_reaches_server:
  assumes "\<not> wc_closed c" and "\<not> wc_broken c"
    and "\<forall>(key, p) \<in> set pings. length key = 4 \<and> length p \<le> max_frame_size"
    and "op \<in> {op_text, op_binary}" and "frags \<noteq> []" and "\<forall>(key, p) \<in> set frags. length key = 4"
    and "length (concat (map snd frags)) \<le> max_frame_size"
  shows "read_message (c \<lparr> wc_in := ping_frames pings @ wire_message op frags @ rest \<rparr>) =
    (Message op (concat (map snd frags)),
     c \<lparr> wc_in := rest, wc_out := wc_out c @ concat (map (\<lambda>(_, p). server_frame op_pong p) pings) \<rparr>)"
  unfolding read_message_pings [OF assms(1-3)]
  by (subst read_message.simps) (use assms(4) in \<open>auto simp: read_frame_message [OF assms(4-7)]\<close>)

text \<open>The two ends of the control channel understand each other: the text frame the launcher
  writes is the message the supervisor reads, and the frame the supervisor writes is the one the launcher
  reads, each leaving exactly the bytes that follow.\<close>

theorem launcher_and_server_talk:
  assumes "length key = 4" and "length p \<le> max_frame_size" and "length q < 2 ^ 48"
  shows "read_message (c \<lparr> wc_in := client_frame op_text p (Some key) @ rest \<rparr>) = (Message op_text p, c \<lparr> wc_in := rest \<rparr>) \<and>
    client_read_frame (server_frame op_text q @ rest) = (Inr (op_text, q), rest)"
proof
  have "read_frame (client_frame op_text p (Some key) @ rest) = (Inr (op_text, p), rest)"
    using read_frame_message [of op_text "[(key, p)]" rest] assms by (simp add: client_frame_wire)
  then show "read_message (c \<lparr> wc_in := client_frame op_text p (Some key) @ rest \<rparr>) = (Message op_text p, c \<lparr> wc_in := rest \<rparr>)"
    by (subst read_message.simps) simp
  show "client_read_frame (server_frame op_text q @ rest) = (Inr (op_text, q), rest)"
    by (rule client_reads_server) (use assms in simp_all)
qed

text \<open>However long the peer claims its frames are and however many it strings together, a message
  the server returns is a text or binary message of at most 16 MiB.\<close>

theorem read_message_bounded:
  assumes "read_message c = (Message op p, c')"
  shows "length p \<le> max_frame_size \<and> op \<in> {op_text, op_binary}"
  by (rule read_message_cases [OF assms])

text \<open>A ping between two fragments of a message, which RFC 6455 allows, loses the message: the
  ping is answered, the fragment already read is forgotten, and the next fragment is an error.\<close>

theorem interleaved_ping_loses_message:
  assumes "length k1 = 4" "length k2 = 4" "length k3 = 4" and "\<not> wc_closed c" "\<not> wc_broken c"
    and "length p \<le> max_frame_size" "length q \<le> max_frame_size" "length r \<le> max_frame_size"
  shows "read_message (c \<lparr> wc_in := wire_frame False op_text k1 p @ wire_frame True op_ping k2 q @
      wire_frame True op_continuation k3 r @ rest \<rparr>) =
    (Failed Unexpected_Continuation, c \<lparr> wc_in := rest, wc_out := wc_out c @ server_frame op_pong q \<rparr>)"
proof -
  have 1: "read_frame (wire_frame False op_text k1 p @ wire_frame True op_ping k2 q @ rest') = (Inr (op_ping, q), rest')" for rest'
    using assms by (simp add: read_frame_def read_from_wire)
  have 2: "read_frame (wire_frame True op_continuation k3 r @ rest) = (Inl Unexpected_Continuation, rest)"
    using assms by (simp add: read_frame_def read_from_wire)
  show ?thesis
    by (subst read_message.simps, simp add: 1 write_frame_def assms)
      (subst read_message.simps, cases c, simp add: 2)
qed

section \<open>Witnesses\<close>

definition fresh_conn :: "bytes \<Rightarrow> ws_conn" where
  "fresh_conn bs = \<lparr> wc_in = bs, wc_out = [], wc_closed = False, wc_broken = False \<rparr>"

lemma fresh_conn_simps [simp]:
  "wc_in (fresh_conn bs) = bs" "wc_out (fresh_conn bs) = []" "\<not> wc_closed (fresh_conn bs)" "\<not> wc_broken (fresh_conn bs)"
  "fresh_conn bs \<lparr> wc_in := cs \<rparr> = fresh_conn cs"
  by (simp_all add: fresh_conn_def)

theorem client_message_reaches_server_witness:
  "fst (read_message (fresh_conn (ping_frames [([1, 2, 3, 4], [7])] @ wire_message 1 [([1, 2, 3, 4], [104]), ([5, 6, 7, 8], [105])] @ [0])))
     = Message 1 [104, 105]"
  using client_message_reaches_server [of "fresh_conn []" "[([1, 2, 3, 4], [7])]" 1 "[([1, 2, 3, 4], [104]), ([5, 6, 7, 8], [105])]" "[0]"]
  by (simp add: max_frame_size_def)

theorem launcher_and_server_talk_witness:
  "fst (read_message (fresh_conn (client_frame 1 [123, 125] (Some [9, 9, 9, 9])))) = Message 1 [123, 125]"
  using launcher_and_server_talk [where key = "[9, 9, 9, 9]" and p = "[123, 125]" and q = "[]" and c = "fresh_conn []" and rest = "[]"] by (simp add: max_frame_size_def)

theorem read_message_bounded_witness: "length ([123, 125] :: bytes) \<le> max_frame_size"
proof -
  have "read_message (fresh_conn (wire_frame True 1 [9, 9, 9, 9] [123, 125])) = (Message 1 [123, 125], fresh_conn [])"
    using read_frame_message [of 1 "[([9, 9, 9, 9], [123, 125])]" "[]"]
    by (subst read_message.simps) (simp add: max_frame_size_def)
  from read_message_bounded [OF this] show ?thesis by blast
qed

theorem interleaved_ping_loses_message_witness:
  "fst (read_message (fresh_conn (wire_frame False 1 [1, 2, 3, 4] [104] @ wire_frame True 9 [1, 2, 3, 4] [] @
     wire_frame True 0 [1, 2, 3, 4] [105]))) = Failed Unexpected_Continuation"
  using interleaved_ping_loses_message [of "[1, 2, 3, 4]" "[1, 2, 3, 4]" "[1, 2, 3, 4]" "fresh_conn []" "[104]" "[]" "[105]" "[]"]
  by (simp add: max_frame_size_def)

end
