(* ===== verification/Tacacs_Wire.thy ===== *)
theory Tacacs_Wire
  imports Go_Crypto
begin

text \<open>
  The TACACS+ packets of the aaa tool pack (RFC 8907; tacacs_wire.go): the header, the
  obfuscation of a body, and the seven body formats.  An error is its text, because the
  server sends some of them to the client.  Every index the code makes lies behind a length
  check, which the definitions keep.
\<close>

section \<open>Headers and packets\<close>

abbreviation (input) tacacs_authen :: byte where "tacacs_authen \<equiv> 0x01"
abbreviation (input) tacacs_author :: byte where "tacacs_author \<equiv> 0x02"
abbreviation (input) tacacs_acct :: byte where "tacacs_acct \<equiv> 0x03"

record tacacs_header =
  th_version :: byte
  th_type :: byte
  th_seq :: byte
  th_flags :: byte
  th_session :: "32 word"
  th_length :: "32 word"

record tacacs_packet =
  tp_header :: tacacs_header
  tp_body :: bytes

definition encode_tacacs_header :: "tacacs_header \<Rightarrow> (string, bytes) result" where
  "encode_tacacs_header h =
     (if drop_bit 4 (th_version h) \<noteq> 0xC \<or> th_version h AND 0x0F > 1 then Inl ''unsupported TACACS+ version''
      else if th_type h < tacacs_authen \<or> th_type h > tacacs_acct then Inl ''unsupported TACACS+ packet type''
      else if th_seq h = 0 \<or> th_seq h = 255 then Inl ''invalid TACACS+ sequence number''
      else if th_flags h AND NOT 0x05 \<noteq> 0 then Inl ''invalid TACACS+ flags''
      else if th_length h > 65535 then Inl ''TACACS+ body is too large''
      else Inr ([th_version h, th_type h, th_seq h, th_flags h] @ put_be32 (th_session h) @ put_be32 (th_length h)))"

definition hex_byte :: "byte \<Rightarrow> string" where
  "hex_byte b = (let n = unat b; d = (\<lambda>i. ''0123456789abcdef'' ! i)
     in if n < 16 then [d n] else [d (n div 16), d (n mod 16)])"

definition decode_tacacs_header :: "bytes \<Rightarrow> (string, tacacs_header) result" where
  "decode_tacacs_header d =
     (if length d < 12 then Inl ''TACACS+ header is shorter than 12 bytes''
      else let h = \<lparr> th_version = d ! 0, th_type = d ! 1, th_seq = d ! 2, th_flags = d ! 3,
                     th_session = be32 (d ! 4) (d ! 5) (d ! 6) (d ! 7),
                     th_length = be32 (d ! 8) (d ! 9) (d ! 10) (d ! 11) \<rparr>
        in if drop_bit 4 (th_version h) \<noteq> 0xC
           then Inl (''unsupported TACACS+ major version 0x'' @ hex_byte (drop_bit 4 (th_version h)))
           else if th_version h AND 0x0F > 1
           then Inl (''unsupported TACACS+ minor version '' @ itoa (uint (th_version h AND 0x0F)))
           else if th_type h < tacacs_authen \<or> th_type h > tacacs_acct
           then Inl (''unsupported TACACS+ packet type 0x'' @ hex_byte (th_type h))
           else if th_seq h = 0 \<or> th_seq h = 255 then Inl ''invalid TACACS+ sequence number''
           else if th_flags h AND NOT 0x05 \<noteq> 0 then Inl ''invalid TACACS+ flags''
           else if th_length h > 65535 then Inl ''TACACS+ body is too large''
           else Inr h)"

function pad_loop :: "bytes \<Rightarrow> nat \<Rightarrow> bytes \<Rightarrow> bytes \<Rightarrow> bytes" where
  "pad_loop seed len pad previous =
     (if length pad < len then
        (let d = md5 (seed @ previous) in pad_loop seed len (pad @ d) d)
      else take len pad)"
  by pat_completeness auto
termination
  by (relation "measure (\<lambda>(_, len, pad, _). len - length pad)") auto

declare pad_loop.simps [simp del]

definition tacacs_pad :: "32 word \<Rightarrow> bytes \<Rightarrow> byte \<Rightarrow> byte \<Rightarrow> nat \<Rightarrow> bytes" where
  "tacacs_pad session key version seq len =
     (if len = 0 then [] else pad_loop (put_be32 session @ key @ [version, seq]) len [] [])"

definition encode_tacacs_packet :: "tacacs_header \<Rightarrow> bytes \<Rightarrow> bytes \<Rightarrow> (string, bytes) result" where
  "encode_tacacs_packet h0 plaintext key =
     (if length plaintext > 65535 then Inl ''TACACS+ body is too large''
      else let h = h0 \<lparr> th_length := of_nat (length plaintext) \<rparr>
        in case encode_tacacs_header h of
             Inl e \<Rightarrow> Inl e
           | Inr header \<Rightarrow>
               Inr (header @ xor_bytes plaintext
                 (tacacs_pad (th_session h) key (th_version h) (th_seq h) (length plaintext))))"

definition refused_unencrypted :: string where
  "refused_unencrypted =
     ''client sent unencrypted body '' @ [char_of (0xE2 :: nat), char_of (0x80 :: nat), char_of (0x94 :: nat)] @ '' refusing''"

definition decode_tacacs_packet :: "bytes \<Rightarrow> bytes \<Rightarrow> (string, tacacs_packet) result" where
  "decode_tacacs_packet d key =
     (case decode_tacacs_header d of
        Inl e \<Rightarrow> Inl e
      | Inr h \<Rightarrow>
          if length d \<noteq> 12 + unat (th_length h) then Inl ''TACACS+ packet length does not match its header''
          else if th_flags h AND 0x01 \<noteq> 0 then Inl refused_unencrypted
          else if length key = 0 then Inl ''TACACS+ shared key is empty''
          else Inr \<lparr> tp_header = h, tp_body = xor_bytes (drop 12 d)
                 (tacacs_pad (th_session h) key (th_version h) (th_seq h) (unat (th_length h))) \<rparr>)"

definition validate_request_version :: "tacacs_packet \<Rightarrow> string option" where
  "validate_request_version p =
     (if th_version (tp_header p) AND 0x0F = 0 then None
      else Some ''TACACS+ minor version 1 is unsupported by the ASCII-only server'')"

section \<open>Bodies\<close>

definition valid_authen_type :: "byte \<Rightarrow> bool" where
  "valid_authen_type v \<longleftrightarrow> v = 0x01 \<or> v = 0x02 \<or> v = 0x03 \<or> v = 0x05 \<or> v = 0x06"

abbreviation (input) authen_pass :: byte where "authen_pass \<equiv> 0x01"
abbreviation (input) authen_fail :: byte where "authen_fail \<equiv> 0x02"
abbreviation (input) authen_get_user :: byte where "authen_get_user \<equiv> 0x04"
abbreviation (input) authen_get_pass :: byte where "authen_get_pass \<equiv> 0x05"
abbreviation (input) authen_error :: byte where "authen_error \<equiv> 0x07"

definition valid_authen_status :: "byte \<Rightarrow> bool" where
  "valid_authen_status v \<longleftrightarrow> v = authen_pass \<or> v = authen_fail \<or> v = 0x03 \<or> v = authen_get_user
     \<or> v = authen_get_pass \<or> v = 0x06 \<or> v = authen_error \<or> v = 0x21"

definition valid_author_status :: "byte \<Rightarrow> bool" where
  "valid_author_status v \<longleftrightarrow> v = 0x01 \<or> v = 0x02 \<or> v = 0x10 \<or> v = 0x11 \<or> v = 0x21"

definition valid_acct_status :: "byte \<Rightarrow> bool" where
  "valid_acct_status v \<longleftrightarrow> v = 0x01 \<or> v = 0x02 \<or> v = 0x21"

definition valid_acct_flags :: "byte \<Rightarrow> bool" where
  "valid_acct_flags f \<longleftrightarrow> f AND NOT 0x0E = 0 \<and> (f = 0x02 \<or> f = 0x04 \<or> f = 0x08 \<or> f = 0x0A)"

record authen_start =
  as_action :: byte
  as_priv :: byte
  as_type :: byte
  as_service :: byte
  as_user :: string
  as_port :: string
  as_addr :: string
  as_data :: string

record authen_reply =
  ar_status :: byte
  ar_flags :: byte
  ar_msg :: string
  ar_data :: string

record authen_continue =
  ac_msg :: string
  ac_data :: string
  ac_flags :: byte

record author_request =
  aq_method :: byte
  aq_priv :: byte
  aq_type :: byte
  aq_service :: byte
  aq_user :: string
  aq_port :: string
  aq_addr :: string
  aq_args :: "string list"

record author_reply =
  ap_status :: byte
  ap_msg :: string
  ap_data :: string
  ap_args :: "string list"

record acct_request = author_request +
  cq_flags :: byte

record acct_reply =
  cr_status :: byte
  cr_msg :: string
  cr_data :: string

definition byte_lengths :: "string list \<Rightarrow> (string, bytes) result" where
  "byte_lengths vs =
     (if list_all (\<lambda>v. length v \<le> 255) vs then Inr (map (\<lambda>v. of_nat (length v)) vs)
      else Inl ''TACACS+ request field is too long'')"

definition joined :: "string list \<Rightarrow> bytes" where
  "joined vs = concat (map to_bytes vs)"

text \<open>The loop that cuts the data of a body into its fields: the lengths still to be cut and
  the bytes from the current offset on.\<close>

fun take_fields :: "nat list \<Rightarrow> bytes \<Rightarrow> (string list \<times> bytes) option" where
  "take_fields [] r = Some ([], r)"
| "take_fields (n # ns) r =
     (if n > length r then None
      else map_option (\<lambda>(vs, r'). (of_bytes (take n r) # vs, r')) (take_fields ns (drop n r)))"

definition all_fields :: "nat list \<Rightarrow> bytes \<Rightarrow> (string, string list) result" where
  "all_fields ns r =
     (case take_fields ns r of
        None \<Rightarrow> Inl ''TACACS+ field length exceeds body''
      | Some (vs, r') \<Rightarrow> if r' \<noteq> [] then Inl ''TACACS+ fields do not consume the body'' else Inr vs)"

definition decode_fixed_length_strings :: "bytes \<Rightarrow> nat \<Rightarrow> nat \<Rightarrow> nat \<Rightarrow> nat \<Rightarrow> (string, string list) result" where
  "decode_fixed_length_strings body lo width n doff =
     (if width = 0 \<or> n = 0 \<or> lo + n * width > length body then Inl ''TACACS+ length fields are truncated''
      else if lo + n * width > doff then Inl ''invalid TACACS+ length field region''
      else if doff > length body then Inl ''TACACS+ data starts past body''
      else if width = 1 then all_fields (map (\<lambda>i. unat (body ! (lo + i))) [0..<n]) (drop doff body)
      else if width = 2 then all_fields (map (\<lambda>i. unat (be16 (body ! (lo + i * 2)) (body ! (lo + i * 2 + 1)))) [0..<n]) (drop doff body)
      else Inl ''unsupported TACACS+ length width'')"

definition decode_request_parts :: "bytes \<Rightarrow> nat \<Rightarrow> nat \<Rightarrow> nat \<Rightarrow> nat \<Rightarrow> (string, string list) result" where
  "decode_request_parts body base cnt argl doff =
     (if cnt \<ge> length body then Inl ''TACACS+ argument count is truncated''
      else let args = unat (body ! cnt)
        in if base + 3 > length body \<or> argl + args > length body \<or> doff > length body
           then Inl ''TACACS+ request lengths are truncated''
           else all_fields (map (\<lambda>i. unat (body ! (base + i))) [0..<3] @ map (\<lambda>i. unat (body ! (argl + i))) [0..<args])
             (drop doff body))"

definition valid_action :: "byte \<Rightarrow> bool" where
  "valid_action a \<longleftrightarrow> a = 0x01 \<or> a = 0x02 \<or> a = 0x04"

definition encode_authen_start :: "authen_start \<Rightarrow> (string, bytes) result" where
  "encode_authen_start s =
     (let strings = [as_user s, as_port s, as_addr s, as_data s]
      in case byte_lengths strings of
           Inl e \<Rightarrow> Inl e
         | Inr lengths \<Rightarrow>
             if \<not> valid_action (as_action s) then Inl ''invalid AUTHEN action''
             else if \<not> valid_authen_type (as_type s) then Inl ''invalid AUTHEN type''
             else Inr ([as_action s, as_priv s, as_type s, as_service s] @ lengths @ joined strings))"

definition decode_authen_start :: "bytes \<Rightarrow> (string, authen_start) result" where
  "decode_authen_start body =
     (if length body < 8 then Inl ''AUTHEN START is shorter than 8 bytes''
      else if \<not> valid_action (body ! 0) then Inl ''invalid AUTHEN action''
      else if \<not> valid_authen_type (body ! 2) then Inl ''invalid AUTHEN type''
      else case decode_fixed_length_strings body 4 1 4 8 of
             Inl e \<Rightarrow> Inl e
           | Inr vs \<Rightarrow> Inr \<lparr> as_action = body ! 0, as_priv = body ! 1, as_type = body ! 2, as_service = body ! 3,
               as_user = vs ! 0, as_port = vs ! 1, as_addr = vs ! 2, as_data = vs ! 3 \<rparr>)"

definition encode_authen_reply :: "authen_reply \<Rightarrow> (string, bytes) result" where
  "encode_authen_reply r =
     (if \<not> valid_authen_status (ar_status r) then Inl ''invalid AUTHEN reply status''
      else if ar_flags r AND NOT 0x01 \<noteq> 0 then Inl ''invalid AUTHEN reply flags''
      else if ar_status r = authen_get_pass \<and> ar_flags r AND 0x01 = 0 then Inl ''GETPASS must set NOECHO''
      else if length (ar_msg r) > 65535 \<or> length (ar_data r) > 65535 then Inl ''AUTHEN reply string is too large''
      else Inr ([ar_status r, ar_flags r] @ put_be16 (of_nat (length (ar_msg r))) @ put_be16 (of_nat (length (ar_data r)))
        @ joined [ar_msg r, ar_data r]))"

definition decode_authen_reply :: "bytes \<Rightarrow> (string, authen_reply) result" where
  "decode_authen_reply body =
     (if length body < 6 then Inl ''AUTHEN REPLY is shorter than 6 bytes''
      else if \<not> valid_authen_status (body ! 0) \<or> body ! 1 AND NOT 0x01 \<noteq> 0 then Inl ''invalid AUTHEN reply fields''
      else case decode_fixed_length_strings body 2 2 2 6 of
             Inl e \<Rightarrow> Inl e
           | Inr vs \<Rightarrow>
               if body ! 0 = authen_get_pass \<and> body ! 1 AND 0x01 = 0 then Inl ''GETPASS without NOECHO''
               else Inr \<lparr> ar_status = body ! 0, ar_flags = body ! 1, ar_msg = vs ! 0, ar_data = vs ! 1 \<rparr>)"

definition encode_authen_continue :: "authen_continue \<Rightarrow> (string, bytes) result" where
  "encode_authen_continue c =
     (if length (ac_msg c) > 65535 \<or> length (ac_data c) > 65535 then Inl ''AUTHEN CONTINUE string is too large''
      else if ac_flags c AND NOT 0x01 \<noteq> 0 then Inl ''invalid AUTHEN CONTINUE flags''
      else Inr (put_be16 (of_nat (length (ac_msg c))) @ put_be16 (of_nat (length (ac_data c))) @ [ac_flags c]
        @ joined [ac_msg c, ac_data c]))"

definition decode_authen_continue :: "bytes \<Rightarrow> (string, authen_continue) result" where
  "decode_authen_continue body =
     (if length body < 5 then Inl ''AUTHEN CONTINUE is shorter than 5 bytes''
      else if body ! 4 AND NOT 0x01 \<noteq> 0 then Inl ''invalid AUTHEN CONTINUE flags''
      else case decode_fixed_length_strings body 0 2 2 5 of
             Inl e \<Rightarrow> Inl e
           | Inr vs \<Rightarrow> Inr \<lparr> ac_msg = vs ! 0, ac_data = vs ! 1, ac_flags = body ! 4 \<rparr>)"

definition encode_author_request :: "author_request \<Rightarrow> (string, bytes) result" where
  "encode_author_request r =
     (if \<not> valid_authen_type (aq_type r) then Inl ''invalid AUTHOR authentication type''
      else if length (aq_args r) > 255 then Inl ''too many AUTHOR arguments''
      else let parts = [aq_user r, aq_port r, aq_addr r] @ aq_args r
        in case byte_lengths parts of
             Inl e \<Rightarrow> Inl e
           | Inr lengths \<Rightarrow>
               Inr ([aq_method r, aq_priv r, aq_type r, aq_service r] @ take 3 lengths @ [of_nat (length (aq_args r))]
                 @ drop 3 lengths @ joined parts))"

definition decode_author_request :: "bytes \<Rightarrow> (string, author_request) result" where
  "decode_author_request body =
     (if length body < 8 then Inl ''AUTHOR REQUEST is shorter than 8 bytes''
      else if \<not> valid_authen_type (body ! 2) then Inl ''invalid AUTHOR authentication type''
      else case decode_request_parts body 4 7 8 (8 + unat (body ! 7)) of
             Inl e \<Rightarrow> Inl e
           | Inr vs \<Rightarrow> Inr \<lparr> aq_method = body ! 0, aq_priv = body ! 1, aq_type = body ! 2, aq_service = body ! 3,
               aq_user = vs ! 0, aq_port = vs ! 1, aq_addr = vs ! 2, aq_args = drop 3 vs \<rparr>)"

definition encode_author_reply :: "author_reply \<Rightarrow> (string, bytes) result" where
  "encode_author_reply r =
     (if \<not> valid_author_status (ap_status r) then Inl ''invalid AUTHOR reply status''
      else if length (ap_args r) > 255 \<or> length (ap_msg r) > 65535 \<or> length (ap_data r) > 65535
      then Inl ''AUTHOR reply is too large''
      else case byte_lengths (ap_args r) of
             Inl e \<Rightarrow> Inl e
           | Inr lengths \<Rightarrow>
               Inr ([ap_status r, of_nat (length (ap_args r))] @ put_be16 (of_nat (length (ap_msg r)))
                 @ put_be16 (of_nat (length (ap_data r))) @ lengths @ joined (ap_msg r # ap_data r # ap_args r)))"

definition decode_author_reply :: "bytes \<Rightarrow> (string, author_reply) result" where
  "decode_author_reply body =
     (if length body < 6 then Inl ''AUTHOR REPLY is shorter than 6 bytes''
      else if \<not> valid_author_status (body ! 0) then Inl ''invalid AUTHOR reply status''
      else let args = unat (body ! 1);
               ml = unat (be16 (body ! 2) (body ! 3));
               dl = unat (be16 (body ! 4) (body ! 5))
        in if 6 + args > length body then Inl ''AUTHOR REPLY argument lengths are truncated''
           else let r = drop (6 + args) body
             in if ml > length r then Inl ''AUTHOR REPLY server message exceeds body''
                else if dl > length r - ml then Inl ''AUTHOR REPLY data exceeds body''
                else case take_fields (map (\<lambda>i. unat (body ! (6 + i))) [0..<args]) (drop (ml + dl) r) of
                       None \<Rightarrow> Inl ''AUTHOR REPLY argument exceeds body''
                     | Some (vs, r') \<Rightarrow>
                         if r' \<noteq> [] then Inl ''AUTHOR REPLY fields do not consume the body''
                         else Inr \<lparr> ap_status = body ! 0, ap_msg = of_bytes (take ml r),
                                    ap_data = of_bytes (take dl (drop ml r)), ap_args = vs \<rparr>)"

definition encode_acct_request :: "acct_request \<Rightarrow> (string, bytes) result" where
  "encode_acct_request r =
     (if length (aq_args r) > 255 then Inl ''too many ACCT arguments''
      else let parts = [aq_user r, aq_port r, aq_addr r] @ aq_args r
        in case byte_lengths parts of
             Inl e \<Rightarrow> Inl e
           | Inr lengths \<Rightarrow>
               Inr ([cq_flags r, aq_method r, aq_priv r, aq_type r, aq_service r] @ take 3 lengths
                 @ [of_nat (length (aq_args r))] @ drop 3 lengths @ joined parts))"

definition decode_acct_request :: "bytes \<Rightarrow> (string, acct_request) result" where
  "decode_acct_request body =
     (if length body < 9 then Inl ''ACCT REQUEST is shorter than 9 bytes''
      else if \<not> valid_authen_type (body ! 3) then Inl ''invalid ACCT authentication type''
      else case decode_request_parts body 5 8 9 (9 + unat (body ! 8)) of
             Inl e \<Rightarrow> Inl e
           | Inr vs \<Rightarrow> Inr \<lparr> aq_method = body ! 1, aq_priv = body ! 2, aq_type = body ! 3, aq_service = body ! 4,
               aq_user = vs ! 0, aq_port = vs ! 1, aq_addr = vs ! 2, aq_args = drop 3 vs, cq_flags = body ! 0 \<rparr>)"

definition encode_acct_reply :: "acct_reply \<Rightarrow> (string, bytes) result" where
  "encode_acct_reply r =
     (if \<not> valid_acct_status (cr_status r) then Inl ''invalid ACCT reply status''
      else if length (cr_msg r) > 65535 \<or> length (cr_data r) > 65535 then Inl ''ACCT reply is too large''
      else Inr (put_be16 (of_nat (length (cr_msg r))) @ put_be16 (of_nat (length (cr_data r))) @ [cr_status r]
        @ joined [cr_msg r, cr_data r]))"

definition decode_acct_reply :: "bytes \<Rightarrow> (string, acct_reply) result" where
  "decode_acct_reply body =
     (if length body < 5 then Inl ''ACCT REPLY is shorter than 5 bytes''
      else if \<not> valid_acct_status (body ! 4) then Inl ''invalid ACCT reply status''
      else let ml = unat (be16 (body ! 0) (body ! 1));
               dl = unat (be16 (body ! 2) (body ! 3));
               r = drop 5 body
        in if ml > length r then Inl ''ACCT REPLY server message exceeds body''
           else if dl > length r - ml then Inl ''ACCT REPLY data exceeds body''
           else if drop (ml + dl) r \<noteq> [] then Inl ''ACCT REPLY fields do not consume the body''
           else Inr \<lparr> cr_status = body ! 4, cr_msg = of_bytes (take ml r), cr_data = of_bytes (take dl (drop ml r)) \<rparr>)"

section \<open>The codecs are inverses\<close>

text \<open>What a user of a wire format relies on: a body is accepted exactly if it is the encoding of
  the message it is read as.\<close>

locale wire_codec =
  fixes enc :: "'a \<Rightarrow> (string, bytes) result"
    and dec :: "bytes \<Rightarrow> (string, 'a) result"
    and valid :: "'a \<Rightarrow> bool"
  assumes dec_iff: "dec b = Inr x \<longleftrightarrow> valid x \<and> enc x = Inr b"
begin

lemma dec_enc: "valid x \<Longrightarrow> enc x = Inr b \<Longrightarrow> dec b = Inr x"
  by (simp add: dec_iff)

lemma enc_dec: "dec b = Inr x \<Longrightarrow> enc x = Inr b"
  by (simp add: dec_iff)

lemma enc_inject:
  assumes "valid x" "enc x = Inr b" and "valid y" "enc y = Inr b" shows "x = y"
proof -
  have "dec b = Inr x" "dec b = Inr y" using assms by (auto intro: dec_enc)
  then show ?thesis by simp
qed

lemma dec_inject:
  assumes "dec b = Inr x" and "dec c = Inr x" shows "b = c"
proof -
  have "enc x = Inr b" "enc x = Inr c" using assms by (auto intro: enc_dec)
  then show ?thesis by simp
qed

end

lemma joined_simps [simp]: "joined [] = []" "joined (v # vs) = to_bytes v @ joined vs"
  by (simp_all add: joined_def)

lemma take_fields_Some: "take_fields ns r = Some (vs, r') \<longleftrightarrow> map length vs = ns \<and> r = joined vs @ r'"
proof (induction ns r arbitrary: vs rule: take_fields.induct)
  case (2 n ns r)
  show ?case
  proof (cases "n > length r")
    case True
    then show ?thesis by (auto simp: map_eq_Cons_conv)
  next
    case False
    then have "take_fields (n # ns) r = Some (vs, r') \<longleftrightarrow>
        (\<exists>ws. vs = of_bytes (take n r) # ws \<and> take_fields ns (drop n r) = Some (ws, r'))" by auto
    also have "\<dots> \<longleftrightarrow> (\<exists>ws. vs = of_bytes (take n r) # ws \<and> map length ws = ns \<and> drop n r = joined ws @ r')"
      using "2.IH" [OF False] by simp
    also have "\<dots> \<longleftrightarrow> map length vs = n # ns \<and> r = joined vs @ r'"
    proof
      assume "\<exists>ws. vs = of_bytes (take n r) # ws \<and> map length ws = ns \<and> drop n r = joined ws @ r'"
      then obtain ws where w: "vs = of_bytes (take n r) # ws" "map length ws = ns" "drop n r = joined ws @ r'" by blast
      have "r = take n r @ drop n r" by simp
      then show "map length vs = n # ns \<and> r = joined vs @ r'" using w False by simp
    next
      assume "map length vs = n # ns \<and> r = joined vs @ r'"
      then show "\<exists>ws. vs = of_bytes (take n r) # ws \<and> map length ws = ns \<and> drop n r = joined ws @ r'"
        by (auto simp: map_eq_Cons_conv)
    qed
    finally show ?thesis .
  qed
qed auto

lemma all_fields_Inr: "all_fields ns r = Inr vs \<longleftrightarrow> map length vs = ns \<and> r = joined vs"
  using take_fields_Some [of ns r vs "[]"] by (auto simp: all_fields_def split: option.splits)

lemma byte_length [simp]: "length v \<le> 255 \<Longrightarrow> unat (of_nat (length v) :: byte) = length v"
  by (simp add: unat_of_nat take_bit_nat_eq_self)

lemma be16_length [simp]: "length v \<le> 65535 \<Longrightarrow> unat (of_nat (length v) :: 16 word) = length v"
  by (simp add: unat_of_nat take_bit_nat_eq_self)

lemma byte_le_255 [simp]: "unat (b :: byte) \<le> 255"
  using unsigned_less [of b, where ?'a = nat] by simp

lemma be16_le [simp]: "unat (w :: 16 word) \<le> 65535"
  using unsigned_less [of w, where ?'a = nat] by simp

lemma byte_gt_255 [simp]: "255 < unat (b :: byte) \<longleftrightarrow> False"
  by (simp add: not_less)

lemma be16_gt [simp]: "65535 < unat (w :: 16 word) \<longleftrightarrow> False"
  by (simp add: not_less)

lemma length_4E:
  assumes "4 \<le> length b"
  obtains b0 b1 b2 b3 r where "b = b0 # b1 # b2 # b3 # r"
  using assms by (auto simp: Suc_le_length_iff numeral_eq_Suc)

lemma length_5E:
  assumes "5 \<le> length b"
  obtains b0 b1 b2 b3 b4 r where "b = b0 # b1 # b2 # b3 # b4 # r"
  using assms by (auto simp: Suc_le_length_iff numeral_eq_Suc)

lemma length_6E:
  assumes "6 \<le> length b"
  obtains b0 b1 b2 b3 b4 b5 r where "b = b0 # b1 # b2 # b3 # b4 # b5 # r"
  using assms by (auto simp: Suc_le_length_iff numeral_eq_Suc)

lemma length_8E:
  assumes "8 \<le> length b"
  obtains b0 b1 b2 b3 b4 b5 b6 b7 r where "b = b0 # b1 # b2 # b3 # b4 # b5 # b6 # b7 # r"
  using assms by (auto simp: Suc_le_length_iff numeral_eq_Suc)

lemma upt_small: "[0..<2] = [0, 1]" "[0..<3] = [0, 1, 2]" "[0..<4] = [0, 1, 2, 3]"
  by (simp_all add: upt_conv_Cons)

lemma fields_caseE:
  assumes "(case all_fields ns r of Inl e \<Rightarrow> Inl e | Inr vs \<Rightarrow> f vs) = Inr x"
  obtains vs where "map length vs = ns" and "r = joined vs" and "f vs = Inr x"
proof (cases "all_fields ns r")
  case (Inr vs)
  then have "map length vs = ns" "r = joined vs" using all_fields_Inr by blast+
  then show ?thesis using that assms Inr by simp
qed (use assms in simp)

lemma all_fields_joined: "all_fields (map length vs) (joined vs) = Inr vs"
  by (simp add: all_fields_Inr)

lemma authen_start_fields:
  "decode_fixed_length_strings (a # p # t # sv # l0 # l1 # l2 # l3 # r) 4 1 4 8 =
     all_fields [unat l0, unat l1, unat l2, unat l3] r"
  by (simp add: decode_fixed_length_strings_def upt_small)

lemma decode_authen_start_iff: "decode_authen_start b = Inr x \<longleftrightarrow> encode_authen_start x = Inr b"
proof
  assume d: "decode_authen_start b = Inr x"
  then have "8 \<le> length b" by (auto simp: decode_authen_start_def split: if_splits)
  then obtain b0 b1 b2 b3 b4 b5 b6 b7 r where b: "b = b0 # b1 # b2 # b3 # b4 # b5 # b6 # b7 # r" by (rule length_8E)
  have ok: "valid_action b0" "valid_authen_type b2"
    using d b by (auto simp: decode_authen_start_def split: if_splits)
  then have "(case all_fields [unat b4, unat b5, unat b6, unat b7] r of Inl e \<Rightarrow> Inl e | Inr vs \<Rightarrow>
      Inr \<lparr> as_action = b0, as_priv = b1, as_type = b2, as_service = b3,
        as_user = vs ! 0, as_port = vs ! 1, as_addr = vs ! 2, as_data = vs ! 3 \<rparr>) = Inr x"
    using d unfolding b decode_authen_start_def authen_start_fields by (simp cong: sum.case_cong)
  then show "encode_authen_start x = Inr b"
    by (rule fields_caseE)
      (auto simp: map_eq_Cons_conv encode_authen_start_def byte_lengths_def b ok Let_def)
next
  assume "encode_authen_start x = Inr b"
  then show "decode_authen_start b = Inr x"
    using all_fields_joined [of "[as_user x, as_port x, as_addr x, as_data x]"]
    by (auto simp: encode_authen_start_def byte_lengths_def decode_authen_start_def Let_def
        authen_start_fields [simplified] split: if_splits)
qed

interpretation authen_start_codec: wire_codec encode_authen_start decode_authen_start "\<lambda>_. True"
  by unfold_locales (simp add: decode_authen_start_iff)

lemma be16_of_length [simp]: "length v = unat (be16 a b) \<Longrightarrow> put_be16 (of_nat (length v)) = [a, b]"
  by simp

lemma authen_reply_fields:
  "decode_fixed_length_strings (s # f # m0 # m1 # d0 # d1 # r) 2 2 2 6 =
     all_fields [unat (be16 m0 m1), unat (be16 d0 d1)] r"
  by (simp add: decode_fixed_length_strings_def upt_small)

lemma decode_authen_reply_iff: "decode_authen_reply b = Inr x \<longleftrightarrow> encode_authen_reply x = Inr b"
proof
  assume d: "decode_authen_reply b = Inr x"
  then have "6 \<le> length b" by (auto simp: decode_authen_reply_def split: if_splits)
  then obtain s f m0 m1 d0 d1 r where b: "b = s # f # m0 # m1 # d0 # d1 # r" by (rule length_6E)
  have ok: "valid_authen_status s" "f AND NOT 1 = 0"
    using d b by (auto simp: decode_authen_reply_def split: if_splits)
  then have "(case all_fields [unat (be16 m0 m1), unat (be16 d0 d1)] r of Inl e \<Rightarrow> Inl e | Inr vs \<Rightarrow>
      if s = authen_get_pass \<and> f AND 1 = 0 then Inl ''GETPASS without NOECHO''
      else Inr \<lparr> ar_status = s, ar_flags = f, ar_msg = vs ! 0, ar_data = vs ! 1 \<rparr>) = Inr x"
    using d unfolding b decode_authen_reply_def authen_reply_fields by (simp cong: sum.case_cong if_cong)
  then show "encode_authen_reply x = Inr b"
    by (rule fields_caseE) (auto simp: map_eq_Cons_conv encode_authen_reply_def b ok [simplified] split: if_splits)
next
  assume "encode_authen_reply x = Inr b"
  then show "decode_authen_reply b = Inr x"
    using all_fields_joined [of "[ar_msg x, ar_data x]"]
    by (auto simp: encode_authen_reply_def decode_authen_reply_def authen_reply_fields [simplified] put_be16_def
        split: if_splits)
qed

interpretation authen_reply_codec: wire_codec encode_authen_reply decode_authen_reply "\<lambda>_. True"
  by unfold_locales (simp add: decode_authen_reply_iff)

lemma authen_continue_fields:
  "decode_fixed_length_strings (m0 # m1 # d0 # d1 # f # r) 0 2 2 5 =
     all_fields [unat (be16 m0 m1), unat (be16 d0 d1)] r"
  by (simp add: decode_fixed_length_strings_def upt_small)

lemma decode_authen_continue_iff: "decode_authen_continue b = Inr x \<longleftrightarrow> encode_authen_continue x = Inr b"
proof
  assume d: "decode_authen_continue b = Inr x"
  then have "5 \<le> length b" by (auto simp: decode_authen_continue_def split: if_splits)
  then obtain m0 m1 d0 d1 f r where b: "b = m0 # m1 # d0 # d1 # f # r" by (rule length_5E)
  have ok: "f AND NOT 1 = 0"
    using d b by (auto simp: decode_authen_continue_def split: if_splits)
  then have "(case all_fields [unat (be16 m0 m1), unat (be16 d0 d1)] r of Inl e \<Rightarrow> Inl e | Inr vs \<Rightarrow>
      Inr \<lparr> ac_msg = vs ! 0, ac_data = vs ! 1, ac_flags = f \<rparr>) = Inr x"
    using d unfolding b decode_authen_continue_def authen_continue_fields by (simp cong: sum.case_cong)
  then show "encode_authen_continue x = Inr b"
    by (rule fields_caseE) (auto simp: map_eq_Cons_conv encode_authen_continue_def b ok [simplified])
next
  assume "encode_authen_continue x = Inr b"
  then show "decode_authen_continue b = Inr x"
    using all_fields_joined [of "[ac_msg x, ac_data x]"]
    by (auto simp: encode_authen_continue_def decode_authen_continue_def authen_continue_fields [simplified] put_be16_def
        split: if_splits)
qed

interpretation authen_continue_codec: wire_codec encode_authen_continue decode_authen_continue "\<lambda>_. True"
  by unfold_locales (simp add: decode_authen_continue_iff)

lemma map_nth_take: "k \<le> length xs \<Longrightarrow> map ((!) xs) [0..<k] = take k xs"
  by (simp add: list_eq_iff_nth_eq)

lemma request_parts_fields:
  assumes k: "length pre = k" and "c = k + 3" and "l = k + 4" and "d = k + 4 + unat n"
  shows "decode_request_parts (pre @ u # p # a # n # rest) k c l d =
     (if unat n > length rest then Inl ''TACACS+ request lengths are truncated''
      else all_fields (map unat ([u, p, a] @ take (unat n) rest)) (drop (unat n) rest))"
proof -
  have "map (\<lambda>i. unat ((pre @ u # p # a # n # rest) ! (k + 4 + i))) [0..<unat n] = map unat (take (unat n) rest)"
    if "unat n \<le> length rest"
    using that k by (auto simp: list_eq_iff_nth_eq nth_append)
  moreover have "map (\<lambda>i. unat ((pre @ u # p # a # n # rest) ! (k + i))) [0..<3] = [unat u, unat p, unat a]"
    using k by (simp add: upt_small nth_append)
  moreover have "drop (k + 4 + unat n) (pre @ u # p # a # n # rest) = drop (unat n) rest"
    using k by (simp add: eval_nat_numeral)
  ultimately show ?thesis using assms by (simp add: decode_request_parts_def Let_def nth_append)
qed

lemma lengths_of_bytes: "map length vs = map unat (bs :: bytes) \<Longrightarrow> map (\<lambda>v. of_nat (length v)) vs = bs"
proof -
  assume "map length vs = map unat bs"
  then have "map (of_nat :: nat \<Rightarrow> byte) (map length vs) = map of_nat (map unat bs)" by (rule arg_cong)
  then show ?thesis by (simp add: comp_def)
qed

lemma lengths_fit: "map length vs = map unat (bs :: bytes) \<Longrightarrow> list_all (\<lambda>v. length v \<le> 255) vs"
  by (induction vs arbitrary: bs) (auto simp: map_eq_Cons_conv)

lemma bytes_of_lengths: "list_all (\<lambda>v. length v \<le> 255) vs \<Longrightarrow> map (\<lambda>v. unat (of_nat (length v) :: byte)) vs = map length vs"
  by (induction vs) auto

lemma length_9E:
  assumes "9 \<le> length b"
  obtains b0 b1 b2 b3 b4 b5 b6 b7 b8 r where "b = b0 # b1 # b2 # b3 # b4 # b5 # b6 # b7 # b8 # r"
  using assms by (auto simp: Suc_le_length_iff numeral_eq_Suc)

lemma request_case:
  assumes "(case (if unat (n :: byte) > length rest then Inl e
      else all_fields (map unat ([u, p, a] @ take (unat n) rest)) (drop (unat n) rest)) of
      Inl e \<Rightarrow> Inl e | Inr vs \<Rightarrow> Inr (f (vs ! 0) (vs ! 1) (vs ! 2) (drop 3 vs))) = Inr x"
  obtains us po ad args where "x = f us po ad args" and "length us = unat u" and "length po = unat p"
    and "length ad = unat a" and "length args = unat n" and "map (\<lambda>v. of_nat (length v)) args = take (unat n) rest"
    and "list_all (\<lambda>v. length v \<le> 255) args" and "rest = take (unat n) rest @ joined (us # po # ad # args)"
proof -
  have n: "unat n \<le> length rest" using assms by (auto split: if_splits)
  then obtain vs where v: "map length vs = map unat ([u, p, a] @ take (unat n) rest)" "drop (unat n) rest = joined vs"
    "f (vs ! 0) (vs ! 1) (vs ! 2) (drop 3 vs) = x"
  proof -
    have "(case all_fields (map unat ([u, p, a] @ take (unat n) rest)) (drop (unat n) rest) of
        Inl e \<Rightarrow> Inl e | Inr vs \<Rightarrow> Inr (f (vs ! 0) (vs ! 1) (vs ! 2) (drop 3 vs))) = Inr x"
      using assms n by (simp only: not_less [symmetric] if_False)
    then show ?thesis by (rule fields_caseE) (rule that, simp_all)
  qed
  then obtain us po ad args where e: "vs = us # po # ad # args" "length us = unat u" "length po = unat p" "length ad = unat a"
      "map length args = map unat (take (unat n) rest)"
    by (auto simp: map_eq_Cons_conv)
  have l: "length args = unat n" using arg_cong [OF e(5), of length] n by simp
  have "rest = take (unat n) rest @ joined (us # po # ad # args)"
    using v(2) e(1) append_take_drop_id [of "unat n" rest] by simp
  with e l v(3) show ?thesis
    by (intro that) (simp_all add: lengths_of_bytes lengths_fit)
qed

lemma request_case_joined:
  assumes "length args \<le> 255" and "list_all (\<lambda>v. length v \<le> 255) (us # po # ad # args)"
    and "rest = map (\<lambda>v. of_nat (length v)) args @ joined (us # po # ad # args)"
  shows "(if unat (of_nat (length args) :: byte) > length rest then Inl e
      else all_fields (map unat ([of_nat (length us), of_nat (length po), of_nat (length ad)] @
        take (unat (of_nat (length args) :: byte)) rest)) (drop (unat (of_nat (length args) :: byte)) rest)) =
    Inr (us # po # ad # args)"
  using all_fields_joined [of "us # po # ad # args"] assms by (simp add: comp_def bytes_of_lengths)

lemma decode_author_request_iff: "decode_author_request b = Inr x \<longleftrightarrow> encode_author_request x = Inr b"
proof
  assume d: "decode_author_request b = Inr x"
  then have "8 \<le> length b" by (auto simp: decode_author_request_def split: if_splits)
  then obtain m pr t s u p a n rest where b: "b = m # pr # t # s # u # p # a # n # rest" by (rule length_8E)
  have ok: "valid_authen_type t"
    using d b by (auto simp: decode_author_request_def split: if_splits)
  have f: "decode_request_parts (m # pr # t # s # u # p # a # n # rest) 4 7 8 (8 + unat n) =
     (if unat n > length rest then Inl ''TACACS+ request lengths are truncated''
      else all_fields (map unat ([u, p, a] @ take (unat n) rest)) (drop (unat n) rest))"
    using request_parts_fields [of "[m, pr, t, s]" 4 7 8 "8 + unat n" n u p a rest] by simp
  have "(case (if unat n > length rest then Inl ''TACACS+ request lengths are truncated''
      else all_fields (map unat ([u, p, a] @ take (unat n) rest)) (drop (unat n) rest)) of
      Inl e \<Rightarrow> Inl e | Inr vs \<Rightarrow> Inr ((\<lambda>us po ad args. \<lparr> aq_method = m, aq_priv = pr, aq_type = t, aq_service = s,
               aq_user = us, aq_port = po, aq_addr = ad, aq_args = args \<rparr>) (vs ! 0) (vs ! 1) (vs ! 2) (drop 3 vs))) = Inr x"
    using d ok f unfolding b decode_author_request_def by (simp cong: sum.case_cong)
  then show "encode_author_request x = Inr b"
  proof (rule request_case)
    fix us po ad args
    assume x: "x = \<lparr> aq_method = m, aq_priv = pr, aq_type = t, aq_service = s, aq_user = us, aq_port = po, aq_addr = ad, aq_args = args \<rparr>"
      and l: "length us = unat u" "length po = unat p" "length ad = unat a" "length args = unat n"
      "map (\<lambda>v. of_nat (length v)) args = take (unat n) rest" "list_all (\<lambda>v. length v \<le> 255) args"
      and r: "rest = take (unat n) rest @ joined (us # po # ad # args)"
    show ?thesis
      using l r by (simp add: x b ok encode_author_request_def byte_lengths_def Let_def)
  qed
next
  assume e: "encode_author_request x = Inr b"
  define rest where "rest = map (\<lambda>v. of_nat (length v)) (aq_args x) @ joined (aq_user x # aq_port x # aq_addr x # aq_args x)"
  have ok: "valid_authen_type (aq_type x)" "length (aq_args x) \<le> 255"
      "list_all (\<lambda>v. length v \<le> 255) (aq_user x # aq_port x # aq_addr x # aq_args x)"
    and b: "b = [aq_method x, aq_priv x, aq_type x, aq_service x] @ of_nat (length (aq_user x)) # of_nat (length (aq_port x))
      # of_nat (length (aq_addr x)) # of_nat (length (aq_args x)) # rest"
    using e by (auto simp: encode_author_request_def byte_lengths_def rest_def Let_def split: if_splits)
  have "decode_request_parts b 4 7 8 (8 + unat (b ! 7)) = Inr (aq_user x # aq_port x # aq_addr x # aq_args x)"
    unfolding b
    by (subst request_parts_fields [where n = "of_nat (length (aq_args x))"])
      (simp_all add: request_case_joined [OF ok(2,3) rest_def, simplified])
  moreover have "8 \<le> length b" "b ! 0 = aq_method x" "b ! 1 = aq_priv x" "b ! 2 = aq_type x" "b ! 3 = aq_service x"
    by (simp_all add: b)
  ultimately show "decode_author_request b = Inr x"
    using ok(1) by (simp add: decode_author_request_def)
qed

interpretation author_request_codec: wire_codec encode_author_request decode_author_request "\<lambda>_. True"
  by unfold_locales (simp add: decode_author_request_iff)

lemma decode_acct_request_iff:
  "decode_acct_request b = Inr x \<longleftrightarrow> valid_authen_type (aq_type x) \<and> encode_acct_request x = Inr b"
proof
  assume d: "decode_acct_request b = Inr x"
  then have "9 \<le> length b" by (auto simp: decode_acct_request_def split: if_splits)
  then obtain fl m pr t s u p a n rest where b: "b = fl # m # pr # t # s # u # p # a # n # rest" by (rule length_9E)
  have ok: "valid_authen_type t"
    using d b by (auto simp: decode_acct_request_def split: if_splits)
  have f: "decode_request_parts (fl # m # pr # t # s # u # p # a # n # rest) 5 8 9 (9 + unat n) =
     (if unat n > length rest then Inl ''TACACS+ request lengths are truncated''
      else all_fields (map unat ([u, p, a] @ take (unat n) rest)) (drop (unat n) rest))"
    using request_parts_fields [of "[fl, m, pr, t, s]" 5 8 9 "9 + unat n" n u p a rest] by simp
  have "(case (if unat n > length rest then Inl ''TACACS+ request lengths are truncated''
      else all_fields (map unat ([u, p, a] @ take (unat n) rest)) (drop (unat n) rest)) of
      Inl e \<Rightarrow> Inl e | Inr vs \<Rightarrow> Inr ((\<lambda>us po ad args. \<lparr> aq_method = m, aq_priv = pr, aq_type = t, aq_service = s,
               aq_user = us, aq_port = po, aq_addr = ad, aq_args = args, cq_flags = fl \<rparr>)
               (vs ! 0) (vs ! 1) (vs ! 2) (drop 3 vs))) = Inr x"
    using d ok f unfolding b decode_acct_request_def by (simp cong: sum.case_cong)
  then show "valid_authen_type (aq_type x) \<and> encode_acct_request x = Inr b"
  proof (rule request_case)
    fix us po ad args
    assume x: "x = \<lparr> aq_method = m, aq_priv = pr, aq_type = t, aq_service = s, aq_user = us, aq_port = po, aq_addr = ad,
        aq_args = args, cq_flags = fl \<rparr>"
      and l: "length us = unat u" "length po = unat p" "length ad = unat a" "length args = unat n"
      "map (\<lambda>v. of_nat (length v)) args = take (unat n) rest" "list_all (\<lambda>v. length v \<le> 255) args"
      and r: "rest = take (unat n) rest @ joined (us # po # ad # args)"
    show ?thesis
      using l r by (simp add: x b ok encode_acct_request_def byte_lengths_def Let_def)
  qed
next
  assume e: "valid_authen_type (aq_type x) \<and> encode_acct_request x = Inr b"
  define rest where "rest = map (\<lambda>v. of_nat (length v)) (aq_args x) @ joined (aq_user x # aq_port x # aq_addr x # aq_args x)"
  have ok: "length (aq_args x) \<le> 255" "list_all (\<lambda>v. length v \<le> 255) (aq_user x # aq_port x # aq_addr x # aq_args x)"
    and b: "b = [cq_flags x, aq_method x, aq_priv x, aq_type x, aq_service x] @ of_nat (length (aq_user x))
      # of_nat (length (aq_port x)) # of_nat (length (aq_addr x)) # of_nat (length (aq_args x)) # rest"
    using e by (auto simp: encode_acct_request_def byte_lengths_def rest_def Let_def split: if_splits)
  have "decode_request_parts b 5 8 9 (9 + unat (b ! 8)) = Inr (aq_user x # aq_port x # aq_addr x # aq_args x)"
    unfolding b
    by (subst request_parts_fields [where n = "of_nat (length (aq_args x))"])
      (simp_all add: request_case_joined [OF ok rest_def, simplified])
  moreover have "9 \<le> length b" "b ! 0 = cq_flags x" "b ! 1 = aq_method x" "b ! 2 = aq_priv x" "b ! 3 = aq_type x"
      "b ! 4 = aq_service x"
    by (simp_all add: b)
  ultimately show "decode_acct_request b = Inr x"
    using e by (simp add: decode_acct_request_def)
qed

interpretation acct_request_codec: wire_codec encode_acct_request decode_acct_request "\<lambda>x. valid_authen_type (aq_type x)"
  by unfold_locales (simp add: decode_acct_request_iff)

lemma take_take_drop: "take a xs @ take b (drop a xs) @ drop (a + b) xs = xs"
  using append_take_drop_id [of b "drop a xs"] by (simp add: add.commute)

lemma decode_acct_reply_iff: "decode_acct_reply b = Inr x \<longleftrightarrow> encode_acct_reply x = Inr b"
proof
  assume d: "decode_acct_reply b = Inr x"
  then have "5 \<le> length b" by (auto simp: decode_acct_reply_def split: if_splits)
  then obtain m0 m1 d0 d1 s r where b: "b = m0 # m1 # d0 # d1 # s # r" by (rule length_5E)
  define ml dl where "ml = unat (be16 m0 m1)" and "dl = unat (be16 d0 d1)"
  have ok: "valid_acct_status s" "ml \<le> length r" "dl \<le> length r - ml" "drop (ml + dl) r = []"
    and x: "x = \<lparr> cr_status = s, cr_msg = of_bytes (take ml r), cr_data = of_bytes (take dl (drop ml r)) \<rparr>"
    using d by (auto simp: b decode_acct_reply_def Let_def ml_def dl_def split: if_splits)
  have "r = take ml r @ take dl (drop ml r)" using ok(4) by simp
  moreover have "length (take ml r) = ml" "length (take dl (drop ml r)) = dl" using ok by simp_all
  ultimately show "encode_acct_reply x = Inr b"
    using ok(1) by (simp add: x b encode_acct_reply_def ml_def dl_def del: length_take take_append)
next
  assume "encode_acct_reply x = Inr b"
  then have ok: "valid_acct_status (cr_status x)" "length (cr_msg x) \<le> 65535" "length (cr_data x) \<le> 65535"
    and b: "b = put_be16 (of_nat (length (cr_msg x))) @ put_be16 (of_nat (length (cr_data x))) @ [cr_status x]
      @ joined [cr_msg x, cr_data x]"
    by (auto simp: encode_acct_reply_def split: if_splits)
  have "drop 5 b = joined [cr_msg x, cr_data x]" by (simp add: b put_be16_def)
  moreover have "be16 (b ! 0) (b ! 1) = of_nat (length (cr_msg x))" "be16 (b ! 2) (b ! 3) = of_nat (length (cr_data x))"
      "b ! 4 = cr_status x" "5 \<le> length b"
    by (simp_all add: b put_be16_def)
  ultimately show "decode_acct_reply b = Inr x"
    using ok by (simp add: decode_acct_reply_def Let_def del: drop_drop)
qed

interpretation acct_reply_codec: wire_codec encode_acct_reply decode_acct_reply "\<lambda>_. True"
  by unfold_locales (simp add: decode_acct_reply_iff)

lemma decode_author_reply_iff: "decode_author_reply b = Inr x \<longleftrightarrow> encode_author_reply x = Inr b"
proof
  assume d: "decode_author_reply b = Inr x"
  then have "6 \<le> length b" by (auto simp: decode_author_reply_def split: if_splits)
  then obtain s n m0 m1 d0 d1 r where b: "b = s # n # m0 # m1 # d0 # d1 # r" by (rule length_6E)
  define ml dl k where "ml = unat (be16 m0 m1)" and "dl = unat (be16 d0 d1)" and "k = unat n"
  have dr: "drop (6 + k) b = drop k r" by (simp add: b eval_nat_numeral)
  have th: "map (\<lambda>i. unat (b ! (6 + i))) [0..<k] = map unat (take k r)" if "k \<le> length r"
    using that by (auto simp: b list_eq_iff_nth_eq)
  have ok: "valid_author_status s" "k \<le> length r" "ml \<le> length (drop k r)" "dl \<le> length (drop k r) - ml"
    using d by (auto simp: b decode_author_reply_def Let_def ml_def dl_def k_def split: if_splits)
  then obtain vs where t: "take_fields (map unat (take k r)) (drop (ml + dl) (drop k r)) = Some (vs, [])"
    and x: "x = \<lparr> ap_status = s, ap_msg = of_bytes (take ml (drop k r)),
       ap_data = of_bytes (take dl (drop ml (drop k r))), ap_args = vs \<rparr>"
    using d th dr unfolding b
    by (auto simp: decode_author_reply_def Let_def ml_def [symmetric] dl_def [symmetric] k_def [symmetric]
        simp del: drop_drop split: if_splits option.splits prod.splits)
  from t have v: "map length vs = map unat (take k r)" "drop (ml + dl) (drop k r) = joined vs"
    by (simp_all add: take_fields_Some del: drop_drop)
  have "length vs = k" using arg_cong [OF v(1), of length] ok(2) by simp
  moreover have "r = take k r @ take ml (drop k r) @ take dl (drop ml (drop k r)) @ joined vs"
    using take_take_drop [of ml "drop k r" dl] v(2) append_take_drop_id [of k r] by (simp del: drop_drop)
  moreover have "length (take ml (drop k r)) = ml" "length (take dl (drop ml (drop k r))) = dl" using ok by simp_all
  ultimately show "encode_author_reply x = Inr b"
    using ok(1) lengths_of_bytes [OF v(1)] lengths_fit [OF v(1)]
    by (simp add: x b encode_author_reply_def byte_lengths_def ml_def dl_def k_def del: length_take length_drop take_append)
next
  assume "encode_author_reply x = Inr b"
  then have ok: "valid_author_status (ap_status x)" "length (ap_args x) \<le> 255" "length (ap_msg x) \<le> 65535"
      "length (ap_data x) \<le> 65535" "list_all (\<lambda>v. length v \<le> 255) (ap_args x)"
    and b: "b = [ap_status x, of_nat (length (ap_args x))] @ put_be16 (of_nat (length (ap_msg x))) @
      put_be16 (of_nat (length (ap_data x))) @ map (\<lambda>v. of_nat (length v)) (ap_args x) @ joined (ap_msg x # ap_data x # ap_args x)"
    by (auto simp: encode_author_reply_def byte_lengths_def split: if_splits)
  have "map (\<lambda>i. unat (b ! (6 + i))) [0..<length (ap_args x)] = map length (ap_args x)"
  proof (rule nth_equalityI)
    fix i assume "i < length (map (\<lambda>i. unat (b ! (6 + i))) [0..<length (ap_args x)])"
    then have i: "i < length (ap_args x)" by simp
    then have "b ! (6 + i) = of_nat (length (ap_args x ! i))" by (simp add: b put_be16_def nth_append)
    moreover have "length (ap_args x ! i) \<le> 255" using ok(5) i by (simp add: list_all_length)
    ultimately show "map (\<lambda>i. unat (b ! (6 + i))) [0..<length (ap_args x)] ! i = map length (ap_args x) ! i"
      using i by simp
  qed simp
  moreover have "drop (6 + length (ap_args x)) b = joined (ap_msg x # ap_data x # ap_args x)"
    by (simp add: b put_be16_def eval_nat_numeral)
  moreover have "take_fields (map length (ap_args x)) (joined (ap_args x)) = Some (ap_args x, [])"
    by (simp add: take_fields_Some)
  moreover have "b ! 0 = ap_status x" "b ! 1 = of_nat (length (ap_args x))" "be16 (b ! 2) (b ! 3) = of_nat (length (ap_msg x))"
      "be16 (b ! 4) (b ! 5) = of_nat (length (ap_data x))" "6 + length (ap_args x) \<le> length b"
    by (simp_all add: b put_be16_def)
  ultimately show "decode_author_reply b = Inr x"
    using ok by (simp add: decode_author_reply_def Let_def)
qed

interpretation author_reply_codec: wire_codec encode_author_reply decode_author_reply "\<lambda>_. True"
  by unfold_locales (simp add: decode_author_reply_iff)

section \<open>Packets\<close>

lemma length_pad_loop [simp]: "length (pad_loop seed len pad previous) = len"
proof (induction seed len pad previous rule: pad_loop.induct)
  case (1 seed len pad previous)
  then show ?case by (subst pad_loop.simps) (simp add: Let_def)
qed

lemma length_tacacs_pad [simp]: "length (tacacs_pad session key version seq len) = len"
  by (simp add: tacacs_pad_def)

interpretation tacacs_mask: byte_mask "\<lambda>(session, key, version, seq) bs. xor_bytes bs (tacacs_pad session key version seq (length bs))"
  by unfold_locales (auto simp: xor_bytes_twice)

lemma length_12E:
  assumes "12 \<le> length d"
  obtains b0 b1 b2 b3 b4 b5 b6 b7 b8 b9 b10 b11 r
    where "d = b0 # b1 # b2 # b3 # b4 # b5 # b6 # b7 # b8 # b9 # b10 # b11 # r"
  using assms by (auto simp: Suc_le_length_iff numeral_eq_Suc)

lemma put_be32_be32 [simp]: "put_be32 (be32 a b c d) = [a, b, c, d]"
proof -
  let ?w = "be32 a b c d"
  have "ucast (drop_bit 24 ?w) = a" "ucast (drop_bit 16 ?w) = b" "ucast (drop_bit 8 ?w) = c" "ucast ?w = d"
    unfolding be32_def by (rule bit_word_eqI, auto simp: bit_simps dest: bit_imp_le_length)+
  then show ?thesis by (simp add: put_be32_def)
qed

lemma header_roundtrip:
  assumes "encode_tacacs_header h = Inr w"
  shows "length w = 12 \<and> decode_tacacs_header (w @ r) = Inr h"
  using assms by (auto simp: encode_tacacs_header_def decode_tacacs_header_def put_be32_def Let_def split: if_splits)

lemma header_canonical:
  assumes "decode_tacacs_header d = Inr h"
  shows "12 \<le> length d \<and> encode_tacacs_header h = Inr (take 12 d) \<and> th_length h \<le> 65535"
proof -
  have "12 \<le> length d" using assms by (auto simp: decode_tacacs_header_def split: if_splits)
  then show ?thesis
    using assms by (elim length_12E)
      (auto simp: encode_tacacs_header_def decode_tacacs_header_def Let_def split: if_splits)
qed

lemma body_length_fits [simp]: "length bs \<le> 65535 \<Longrightarrow> unat (of_nat (length bs) :: 32 word) = length bs"
  by (simp add: unat_of_nat take_bit_nat_eq_self)

definition sendable :: "bytes \<Rightarrow> tacacs_packet \<Rightarrow> bool" where
  "sendable key p \<longleftrightarrow> key \<noteq> [] \<and> th_flags (tp_header p) AND 0x01 = 0 \<and>
     th_length (tp_header p) = of_nat (length (tp_body p))"

lemma packet_roundtrip:
  assumes "sendable key p" and "encode_tacacs_packet (tp_header p) (tp_body p) key = Inr d"
  shows "decode_tacacs_packet d key = Inr p"
proof -
  define h where "h = tp_header p"
  define n where "n = length (tp_body p)"
  have n: "n \<le> 65535" and h: "h \<lparr> th_length := of_nat n \<rparr> = h"
    using assms by (auto simp: encode_tacacs_packet_def sendable_def n_def h_def split: if_splits)
  then obtain w where w: "encode_tacacs_header h = Inr w"
    and d: "d = w @ xor_bytes (tp_body p) (tacacs_pad (th_session h) key (th_version h) (th_seq h) n)"
    using assms(2) by (auto simp: encode_tacacs_packet_def n_def h_def Let_def split: sum.splits)
  have "length w = 12" "decode_tacacs_header d = Inr h"
    using header_roundtrip [OF w] d by simp_all
  moreover have "th_length h = of_nat n" "th_flags h AND 0x01 = 0" "key \<noteq> []"
    using assms(1) by (simp_all add: sendable_def h_def n_def)
  moreover have "unat (of_nat n :: 32 word) = n" using n by (simp add: n_def)
  ultimately show ?thesis
    by (simp add: decode_tacacs_packet_def d n_def xor_bytes_twice) (simp add: h_def)
qed

lemma packet_canonical:
  assumes "decode_tacacs_packet d key = Inr p"
  shows "sendable key p \<and> encode_tacacs_packet (tp_header p) (tp_body p) key = Inr d"
proof -
  obtain h where h: "decode_tacacs_header d = Inr h"
    using assms by (auto simp: decode_tacacs_packet_def split: sum.splits)
  define pad where "pad = tacacs_pad (th_session h) key (th_version h) (th_seq h) (unat (th_length h))"
  have p: "length d = 12 + unat (th_length h)" "th_flags h AND 0x01 = 0" "key \<noteq> []"
      "p = \<lparr> tp_header = h, tp_body = xor_bytes (drop 12 d) pad \<rparr>"
    using assms h by (auto simp: decode_tacacs_packet_def pad_def split: if_splits)
  have l: "length (xor_bytes (drop 12 d) pad) = unat (th_length h)" "length pad = length (drop 12 d)"
    by (simp_all add: p(1) pad_def)
  have "unat (th_length h) \<le> 65535" using header_canonical [OF h] by (simp add: word_le_nat_alt)
  moreover have "h \<lparr> th_length := th_length h \<rparr> = h" by simp
  ultimately have "encode_tacacs_packet h (xor_bytes (drop 12 d) pad) key = Inr (take 12 d @ drop 12 d)"
    using header_canonical [OF h] l unfolding encode_tacacs_packet_def
    by (simp add: Let_def xor_bytes_twice flip: pad_def)
  then show ?thesis using p l(1) by (simp add: sendable_def)
qed

interpretation tacacs_packet_codec: wire_codec "\<lambda>p. encode_tacacs_packet (tp_header p) (tp_body p) key"
    "\<lambda>d. decode_tacacs_packet d key" "sendable key" for key
  by unfold_locales (use packet_roundtrip packet_canonical in blast)

section \<open>Properties\<close>

text \<open>C10. The server accepts exactly the byte strings that are the encoding of a packet: with a key and a
  body sent obfuscated, decoding recovers the header and the body that were encoded, and nothing else
  decodes.\<close>

theorem tacacs_packet_canonical:
  "decode_tacacs_packet d key = Inr p \<longleftrightarrow>
     key \<noteq> [] \<and> th_flags (tp_header p) AND 0x01 = 0 \<and> th_length (tp_header p) = of_nat (length (tp_body p)) \<and>
     encode_tacacs_packet (tp_header p) (tp_body p) key = Inr d"
  using tacacs_packet_codec.dec_iff [of d key p] by (simp add: sendable_def)

text \<open>C11. Every decoder of a TACACS+ body is the inverse of its encoder, errors included: a body decodes to
  a message exactly if it is the message's encoding (for an accounting request, with one of the
  authentication types the decoder knows).\<close>

theorem tacacs_bodies_canonical:
  "(decode_authen_start b = Inr start \<longleftrightarrow> encode_authen_start start = Inr b) \<and>
   (decode_authen_continue b = Inr cont \<longleftrightarrow> encode_authen_continue cont = Inr b) \<and>
   (decode_authen_reply b = Inr reply \<longleftrightarrow> encode_authen_reply reply = Inr b) \<and>
   (decode_author_request b = Inr author \<longleftrightarrow> encode_author_request author = Inr b) \<and>
   (decode_author_reply b = Inr granted \<longleftrightarrow> encode_author_reply granted = Inr b) \<and>
   (decode_acct_request b = Inr acct \<longleftrightarrow> valid_authen_type (aq_type acct) \<and> encode_acct_request acct = Inr b) \<and>
   (decode_acct_reply b = Inr noted \<longleftrightarrow> encode_acct_reply noted = Inr b)"
  using authen_start_codec.dec_iff [of b start] authen_continue_codec.dec_iff [of b cont]
    authen_reply_codec.dec_iff [of b reply] author_request_codec.dec_iff [of b author]
    author_reply_codec.dec_iff [of b granted] acct_request_codec.dec_iff [of b acct] acct_reply_codec.dec_iff [of b noted]
  by simp

end
