(* ===== verification/Tacacs.thy ===== *)
theory Tacacs
  imports Tacacs_Wire Go_Text
begin

text \<open>
  The TACACS+ server of the aaa tool pack (tacacs.go, the configuration in config.go and
  the forms of server.go that change it, the attempt ring of radius.go): what it does on
  one connection, over the bytes that arrive on it.  A connection is the bytes still to
  arrive before a read fails, the bytes written so far, and how many more bytes its peer
  takes before a write fails with the error tc_fault.  Every request takes a fresh snapshot
  of the configuration, which other connections and the settings form may have changed.

  tc_heard and tc_said are bookkeeping for the statements: the packets that were accepted
  and the replies that were written in full.
\<close>

section \<open>Configuration and attempts\<close>

record aaa_user =
  us_name :: string
  us_password :: string
  us_service :: string
  us_tacacs_service :: string
  us_priv :: int

record aaa_config =
  cf_secret :: string
  cf_tacacs_key :: string
  cf_clients :: "(string \<times> string) list"
  cf_users :: "aaa_user list"
  cf_protocol :: string

definition default_config :: aaa_config where
  "default_config = \<lparr> cf_secret = ''labsecret'', cf_tacacs_key = [], cf_clients = [], cf_users = [], cf_protocol = ''both'' \<rparr>"

text \<open>Store.Load, after the file was read and parsed.\<close>

definition loaded_config :: "aaa_config \<Rightarrow> aaa_config" where
  "loaded_config c = c
     \<lparr> cf_secret := (if cf_secret c = [] then cf_secret default_config else cf_secret c),
       cf_protocol := (if cf_protocol c \<noteq> ''radius'' \<and> cf_protocol c \<noteq> ''tacacs'' \<and> cf_protocol c \<noteq> ''both''
         then ''both'' else cf_protocol c),
       cf_users := map (\<lambda>u. if us_tacacs_service u = [] then u \<lparr> us_tacacs_service := ''shell'' \<rparr> else u) (cf_users c) \<rparr>"

text \<open>The handlers of the forms: what they store, which stays in effect when writing the file fails.\<close>

definition save_settings :: "string \<Rightarrow> string \<Rightarrow> string \<Rightarrow> aaa_config \<Rightarrow> aaa_config" where
  "save_settings secret key protocol c =
     (let p = to_lower (trim_space protocol)
      in c \<lparr> cf_secret := secret, cf_tacacs_key := key,
             cf_protocol := (if p = ''radius'' \<or> p = ''tacacs'' \<or> p = ''both'' then p else cf_protocol c) \<rparr>)"

definition add_user :: "string \<Rightarrow> string \<Rightarrow> string \<Rightarrow> string \<Rightarrow> int \<Rightarrow> aaa_config \<Rightarrow> aaa_config" where
  "add_user username password service tacacs_service priv c =
     (let t = trim_space tacacs_service
      in c \<lparr> cf_users := cf_users c @ [\<lparr> us_name = username, us_password = password, us_service = service,
               us_tacacs_service = (if t = [] then ''shell'' else t), us_priv = priv \<rparr>] \<rparr>)"

definition delete_user :: "string \<Rightarrow> aaa_config \<Rightarrow> aaa_config option" where
  "delete_user index c =
     (case atoi index of
        None \<Rightarrow> None
      | Some i \<Rightarrow> if i < 0 \<or> i \<ge> int (length (cf_users c)) then None
          else Some (c \<lparr> cf_users := take (nat i) (cf_users c) @ drop (Suc (nat i)) (cf_users c) \<rparr>))"

record attempt =
  at_remote :: string
  at_user :: string
  at_result :: string
  at_message :: string

record attempt_ring =
  rg_items :: "attempt list"
  rg_max :: nat

definition new_ring :: "int \<Rightarrow> attempt_ring" where
  "new_ring m = \<lparr> rg_items = [], rg_max = (if m < 1 then 100 else nat m) \<rparr>"

definition ring_add :: "attempt \<Rightarrow> attempt_ring \<Rightarrow> attempt_ring" where
  "ring_add a r =
     (let items = rg_items r @ [a]
      in r \<lparr> rg_items := (if length items > rg_max r then drop (length items - rg_max r) items else items) \<rparr>)"

definition find_user :: "aaa_user list \<Rightarrow> string \<Rightarrow> string \<Rightarrow> aaa_user option" where
  "find_user users name password = find (\<lambda>u. us_name u = name \<and> us_password u = password) users"

definition find_user_by_name :: "aaa_user list \<Rightarrow> string \<Rightarrow> aaa_user option" where
  "find_user_by_name users name = find (\<lambda>u. us_name u = name) users"

definition tacacs_key :: "aaa_config \<Rightarrow> bytes \<times> bool" where
  "tacacs_key c = (let key = (if cf_tacacs_key c = [] then cf_secret c else cf_tacacs_key c) in (to_bytes key, key \<noteq> []))"

section \<open>The connection\<close>

record tacacs_conn =
  tc_in :: bytes
  tc_out :: bytes
  tc_room :: "nat option"
  tc_fault :: string
  tc_remote :: string
  tc_ring :: attempt_ring
  tc_heard :: "tacacs_packet list"
  tc_said :: "(tacacs_header \<times> bytes) list"

definition conn_write :: "bytes \<Rightarrow> tacacs_conn \<Rightarrow> string option \<times> tacacs_conn" where
  "conn_write bs c =
     (case tc_room c of
        None \<Rightarrow> (None, c \<lparr> tc_out := tc_out c @ bs \<rparr>)
      | Some k \<Rightarrow>
          if length bs \<le> k then (None, c \<lparr> tc_out := tc_out c @ bs, tc_room := Some (k - length bs) \<rparr>)
          else (Some (tc_fault c), c \<lparr> tc_out := tc_out c @ take k bs, tc_room := Some 0 \<rparr>))"

definition record_attempt :: "string \<Rightarrow> string \<Rightarrow> string \<Rightarrow> tacacs_conn \<Rightarrow> tacacs_conn" where
  "record_attempt user res message c = c \<lparr> tc_ring :=
     ring_add \<lparr> at_remote = tc_remote c, at_user = user, at_result = res, at_message = message \<rparr> (tc_ring c) \<rparr>"

definition write_reply_with_key :: "tacacs_header \<Rightarrow> bytes \<Rightarrow> bytes \<Rightarrow> tacacs_conn \<Rightarrow> string option \<times> tacacs_conn" where
  "write_reply_with_key req key body c =
     (if th_seq req \<ge> 254 then (Some ''TACACS+ sequence number would wrap'', c)
      else let h = req \<lparr> th_seq := th_seq req + 1, th_flags := 0 \<rparr>
        in case encode_tacacs_packet h body key of
             Inl e \<Rightarrow> (Some e, c)
           | Inr d \<Rightarrow> (case conn_write d c of
                 (Some e, c') \<Rightarrow> (Some e, c')
               | (None, c') \<Rightarrow> (None, c' \<lparr> tc_said := tc_said c' @ [(h, body)] \<rparr>)))"

definition write_reply :: "tacacs_header \<Rightarrow> aaa_config \<Rightarrow> bytes \<Rightarrow> tacacs_conn \<Rightarrow> string option \<times> tacacs_conn" where
  "write_reply req cfg body c =
     (let (key, ok) = tacacs_key cfg
      in if \<not> ok then (Some ''no TACACS+ key configured; refusing to send a reply'', c)
         else write_reply_with_key req key body c)"

definition write_encoded :: "tacacs_header \<Rightarrow> aaa_config \<Rightarrow> (string, bytes) result \<Rightarrow> tacacs_conn \<Rightarrow> string option \<times> tacacs_conn" where
  "write_encoded req cfg r c = (case r of Inl e \<Rightarrow> (Some e, c) | Inr body \<Rightarrow> write_reply req cfg body c)"

abbreviation write_authen :: "tacacs_header \<Rightarrow> aaa_config \<Rightarrow> authen_reply \<Rightarrow> tacacs_conn \<Rightarrow> string option \<times> tacacs_conn" where
  "write_authen req cfg r \<equiv> write_encoded req cfg (encode_authen_reply r)"

abbreviation write_author :: "tacacs_header \<Rightarrow> aaa_config \<Rightarrow> author_reply \<Rightarrow> tacacs_conn \<Rightarrow> string option \<times> tacacs_conn" where
  "write_author req cfg r \<equiv> write_encoded req cfg (encode_author_reply r)"

abbreviation write_acct :: "tacacs_header \<Rightarrow> aaa_config \<Rightarrow> acct_reply \<Rightarrow> tacacs_conn \<Rightarrow> string option \<times> tacacs_conn" where
  "write_acct req cfg r \<equiv> write_encoded req cfg (encode_acct_reply r)"

definition write_error :: "tacacs_header \<Rightarrow> bytes \<Rightarrow> string \<Rightarrow> tacacs_conn \<Rightarrow> string option \<times> tacacs_conn" where
  "write_error req key cause c =
     (case (if th_type req = tacacs_authen then encode_authen_reply \<lparr> ar_status = authen_error, ar_flags = 0,
              ar_msg = ''TACACS+ request rejected: '' @ cause, ar_data = [] \<rparr>
            else if th_type req = tacacs_author then encode_author_reply \<lparr> ap_status = 0x11,
              ap_msg = ''TACACS+ request rejected'', ap_data = [], ap_args = [] \<rparr>
            else if th_type req = tacacs_acct then encode_acct_reply \<lparr> cr_status = 0x02, cr_msg = [], cr_data = [] \<rparr>
            else Inr []) of
        Inl e \<Rightarrow> (Some e, c)
      | Inr body \<Rightarrow> write_reply_with_key req key body c)"

section \<open>Sessions\<close>

datatype authen_stage = Stage_Start | Need_Username | Need_Password

record tacacs_session =
  ts_initialized :: bool
  ts_session_id :: "32 word"
  ts_version :: byte
  ts_last_seq :: byte
  ts_stage :: authen_stage
  ts_username :: string

definition new_session :: tacacs_session where
  "new_session = \<lparr> ts_initialized = False, ts_session_id = 0, ts_version = 0, ts_last_seq = 0,
     ts_stage = Stage_Start, ts_username = [] \<rparr>"

definition accept_header :: "tacacs_header \<Rightarrow> tacacs_session \<Rightarrow> (string, tacacs_session) result" where
  "accept_header h s =
     (if th_seq h mod 2 = 0 then Inl ''client sequence number must be odd''
      else if \<not> ts_initialized s then
        (if th_seq h \<noteq> 1 then Inl (''first client sequence number is '' @ itoa (uint (th_seq h)) @ '', want 1'')
         else Inr (s \<lparr> ts_initialized := True, ts_session_id := th_session h, ts_version := th_version h,
                ts_last_seq := th_seq h \<rparr>))
      else if th_session h \<noteq> ts_session_id s then Inl ''session ID changed during a connection''
      else if th_version h \<noteq> ts_version s then Inl ''TACACS+ version changed during a connection''
      else if ts_last_seq s \<ge> 253 \<or> th_seq h \<noteq> ts_last_seq s + 2
      then Inl (''out-of-order client sequence number '' @ itoa (uint (th_seq h)) @ '' after '' @ itoa (uint (ts_last_seq s)))
      else Inr (s \<lparr> ts_last_seq := th_seq h \<rparr>))"

type_synonym handled = "bool \<times> string option \<times> tacacs_session \<times> tacacs_conn"

definition replied :: "bool \<Rightarrow> tacacs_session \<Rightarrow> string option \<times> tacacs_conn \<Rightarrow> handled" where
  "replied final s r = (final, fst r, s, snd r)"

definition hex2 :: "byte \<Rightarrow> string" where
  "hex2 b = (if unat b < 16 then ''0'' @ hex_byte b else hex_byte b)"

definition get_pass :: authen_reply where
  "get_pass = \<lparr> ar_status = authen_get_pass, ar_flags = 0x01, ar_msg = ''Password: '', ar_data = [] \<rparr>"

definition handle_authen :: "tacacs_packet \<Rightarrow> aaa_config \<Rightarrow> tacacs_session \<Rightarrow> tacacs_conn \<Rightarrow> handled" where
  "handle_authen p cfg s c =
     (let req = tp_header p
      in if ts_stage s = Stage_Start then
        (case decode_authen_start (tp_body p) of
           Inl e \<Rightarrow> (True, Some e, s, c)
         | Inr start \<Rightarrow>
             let s1 = s \<lparr> ts_username := as_user start \<rparr>
             in if as_type start \<noteq> 0x01
                then let message = ''only ASCII login is supported (authen_type=0x'' @ hex2 (as_type start) @ '')''
                  in replied True s1 (write_authen req cfg \<lparr> ar_status = authen_fail, ar_flags = 0,
                       ar_msg = ''only ASCII login is supported'', ar_data = [] \<rparr>
                       (record_attempt (as_user start) ''reject'' message c))
                else if as_action start \<noteq> 0x01
                then let message = ''only ASCII LOGIN is supported''
                  in replied True s1 (write_authen req cfg \<lparr> ar_status = authen_fail, ar_flags = 0, ar_msg = message, ar_data = [] \<rparr>
                       (record_attempt (as_user start) ''reject'' message c))
                else if as_user start = []
                then replied False (s1 \<lparr> ts_stage := Need_Username \<rparr>) (write_authen req cfg
                       \<lparr> ar_status = authen_get_user, ar_flags = 0, ar_msg = ''Username: '', ar_data = [] \<rparr> c)
                else replied False (s1 \<lparr> ts_stage := Need_Password \<rparr>) (write_authen req cfg get_pass c))
      else case decode_authen_continue (tp_body p) of
             Inl e \<Rightarrow> (True, Some e, s, c)
           | Inr cont \<Rightarrow>
               if ac_flags cont AND 0x01 \<noteq> 0
               then (True, None, s, record_attempt (ts_username s) ''reject'' (''AUTHEN aborted: '' @ ac_data cont) c)
               else if ts_stage s = Need_Username
               then replied False (s \<lparr> ts_username := ac_msg cont, ts_stage := Need_Password \<rparr>) (write_authen req cfg get_pass c)
               else case find_user (cf_users cfg) (ts_username s) (ac_msg cont) of
                      None \<Rightarrow> replied True s (write_authen req cfg
                        \<lparr> ar_status = authen_fail, ar_flags = 0, ar_msg = ''Authentication failed'', ar_data = [] \<rparr>
                        (record_attempt (ts_username s) ''reject'' ''Authentication failed: invalid credentials'' c))
                    | Some user \<Rightarrow> replied True s (write_authen req cfg
                        \<lparr> ar_status = authen_pass, ar_flags = 0, ar_msg = ''Authentication successful'', ar_data = [] \<rparr>
                        (record_attempt (ts_username s) ''accept'' ''Authentication successful'' c)))"

definition equal_fold :: "string \<Rightarrow> string \<Rightarrow> bool" where
  "equal_fold a b \<longleftrightarrow> to_lower a = to_lower b"

definition tacacs_service :: "aaa_user \<Rightarrow> string" where
  "tacacs_service u = (if trim_space (us_tacacs_service u) = [] then ''shell'' else trim_space (us_tacacs_service u))"

fun author_service :: "string list \<Rightarrow> string option" where
  "author_service [] = None"
| "author_service (arg # args) =
     (case cut_byte CHR ''='' arg of
        Some (key, val) \<Rightarrow> if equal_fold key ''service'' then Some (trim_space val) else author_service args
      | None \<Rightarrow> author_service args)"

definition known_tacacs_service :: "string \<Rightarrow> bool" where
  "known_tacacs_service service \<longleftrightarrow> to_lower (trim_space service) \<in>
     {''shell'', ''ppp'', ''arap'', ''slip'', ''rlogin'', ''tty'', ''connection'', ''none''}"

definition author_failed :: author_reply where
  "author_failed = \<lparr> ap_status = 0x10, ap_msg = ''Authorization failed'', ap_data = [], ap_args = [] \<rparr>"

definition handle_author :: "tacacs_packet \<Rightarrow> aaa_config \<Rightarrow> tacacs_session \<Rightarrow> tacacs_conn \<Rightarrow> handled" where
  "handle_author p cfg s c =
     (let req = tp_header p
      in case decode_author_request (tp_body p) of
           Inl e \<Rightarrow> (True, Some e, s, c)
         | Inr q \<Rightarrow>
             let s1 = s \<lparr> ts_username := aq_user q \<rparr>
             in case find_user_by_name (cf_users cfg) (aq_user q) of
                  None \<Rightarrow> replied True s1 (write_author req cfg author_failed
                    (record_attempt (aq_user q) ''reject'' ''AUTHOR failed: unknown user'' c))
                | Some user \<Rightarrow>
                    case author_service (aq_args q) of
                      Some service \<Rightarrow>
                        if \<not> known_tacacs_service service
                        then replied True s1 (write_author req cfg \<lparr> ap_status = 0x01, ap_msg = [], ap_data = [], ap_args = [] \<rparr>
                          (record_attempt (aq_user q) ''accept'' ''AUTHOR accepted with no attributes: unknown service'' c))
                        else if \<not> equal_fold service (tacacs_service user)
                        then replied True s1 (write_author req cfg author_failed
                          (record_attempt (aq_user q) ''reject''
                            (''AUTHOR failed: service does not match the user'' @ [char_of (39 :: nat)] @ ''s TACACS+ service'') c))
                        else let argument = ''priv-lvl='' @ itoa (us_priv user)
                          in replied True s1 (write_author req cfg \<lparr> ap_status = 0x01, ap_msg = [], ap_data = [], ap_args = [argument] \<rparr>
                            (record_attempt (aq_user q) ''accept'' (''AUTHOR PASS_ADD: '' @ argument) c))
                    | None \<Rightarrow> replied True s1 (write_author req cfg \<lparr> ap_status = 0x01, ap_msg = [], ap_data = [], ap_args = [] \<rparr>
                        (record_attempt (aq_user q) ''accept'' ''AUTHOR accepted with no attributes: unknown service'' c)))"

definition acct_flag_names :: "byte \<Rightarrow> string list" where
  "acct_flag_names f =
     (if f AND 0x02 \<noteq> 0 then [''start''] else []) @ (if f AND 0x04 \<noteq> 0 then [''stop''] else []) @
     (if f AND 0x08 \<noteq> 0 then [''watchdog''] else [])"

definition handle_acct :: "tacacs_packet \<Rightarrow> aaa_config \<Rightarrow> tacacs_session \<Rightarrow> tacacs_conn \<Rightarrow> handled" where
  "handle_acct p cfg s c =
     (let req = tp_header p
      in case decode_acct_request (tp_body p) of
           Inl e \<Rightarrow> (True, Some e, s, c)
         | Inr q \<Rightarrow>
             let s1 = s \<lparr> ts_username := aq_user q \<rparr>
             in if \<not> valid_acct_flags (cq_flags q)
                then replied True s1 (write_acct req cfg \<lparr> cr_status = 0x02, cr_msg = [], cr_data = [] \<rparr>
                  (record_attempt (aq_user q) ''reject'' (''ACCT rejected: invalid flags 0x'' @ hex2 (cq_flags q)) c))
                else let message = ''ACCT '' @ join_with ''+'' (acct_flag_names (cq_flags q)) @
                       (if cq_flags q \<noteq> 0x08 \<and> aq_args q \<noteq> [] then '': '' @ join_with '', '' (aq_args q) else [])
                  in replied True s1 (write_acct req cfg \<lparr> cr_status = 0x01, cr_msg = [], cr_data = [] \<rparr>
                    (record_attempt (aq_user q) ''accept'' message c)))"

definition handle_tacacs_packet :: "tacacs_packet \<Rightarrow> aaa_config \<Rightarrow> tacacs_session \<Rightarrow> tacacs_conn \<Rightarrow> handled" where
  "handle_tacacs_packet p cfg s c =
     (if th_type (tp_header p) = tacacs_authen then handle_authen p cfg s c
      else if th_type (tp_header p) = tacacs_author then handle_author p cfg s c
      else if th_type (tp_header p) = tacacs_acct then handle_acct p cfg s c
      else (True, Some ''unsupported TACACS+ packet type'', s, c))"

section \<open>The loop of a connection\<close>

text \<open>io.ReadFull on the connection.\<close>

definition conn_read :: "nat \<Rightarrow> tacacs_conn \<Rightarrow> bytes option \<times> tacacs_conn" where
  "conn_read n c = (if length (tc_in c) < n then (None, c \<lparr> tc_in := [] \<rparr>)
     else (Some (take n (tc_in c)), c \<lparr> tc_in := drop n (tc_in c) \<rparr>))"

text \<open>One turn of the loop, None when the connection is done: answer_request is the part after the
  header and the body have been read.\<close>

definition answer_request :: "aaa_config \<Rightarrow> tacacs_session \<Rightarrow> tacacs_header \<Rightarrow> bytes \<Rightarrow> tacacs_conn
    \<Rightarrow> tacacs_session option \<times> tacacs_conn" where
  "answer_request cfg s header packet_bytes c =
     (case accept_header header s of
        Inl e \<Rightarrow> (None, snd (write_error header (fst (tacacs_key cfg)) e
          (record_attempt [] ''reject'' (''protocol error: '' @ e) c)))
      | Inr s1 \<Rightarrow>
          let (key, configured) = tacacs_key cfg
          in if \<not> configured
             then (None, record_attempt [] ''reject'' ''no TACACS+ key configured; refusing request'' c)
             else case decode_tacacs_packet packet_bytes key of
                    Inl e \<Rightarrow> (None, snd (write_error header key e (record_attempt [] ''reject'' e c)))
                  | Inr p \<Rightarrow>
                      case validate_request_version p of
                        Some e \<Rightarrow> (None, snd (write_error header key e (record_attempt [] ''reject'' e c)))
                      | None \<Rightarrow>
                          case handle_tacacs_packet p cfg s1 (c \<lparr> tc_heard := tc_heard c @ [p] \<rparr>) of
                            (final, Some e, s2, c3) \<Rightarrow>
                              (None, snd (write_error header key e (record_attempt (ts_username s2) ''reject'' e c3)))
                          | (final, None, s2, c3) \<Rightarrow> (if final then None else Some s2, c3))"

definition tacacs_turn :: "aaa_config \<Rightarrow> tacacs_session \<Rightarrow> tacacs_conn \<Rightarrow> tacacs_session option \<times> tacacs_conn" where
  "tacacs_turn cfg s c0 =
     (case conn_read 12 c0 of
        (None, c1) \<Rightarrow> (None, c1)
      | (Some hb, c1) \<Rightarrow>
          case decode_tacacs_header hb of
            Inl e \<Rightarrow> (None, c1)
          | Inr header \<Rightarrow>
              case conn_read (unat (th_length header)) c1 of
                (None, c2) \<Rightarrow> (None, c2)
              | (Some bb, c2) \<Rightarrow> answer_request cfg s header (hb @ bb) c2)"

text \<open>What writing a reply changes: the output grows, and tc_said by the reply if all of it was taken.\<close>

definition reply_header :: "tacacs_header \<Rightarrow> tacacs_header" where
  "reply_header req = req \<lparr> th_seq := th_seq req + 1, th_flags := 0 \<rparr>"

definition keeps_input :: "tacacs_conn \<Rightarrow> tacacs_conn \<Rightarrow> bool" where
  "keeps_input c c' \<longleftrightarrow> tc_in c' = tc_in c \<and> tc_heard c' = tc_heard c"

lemma keeps_input_refl [simp]: "keeps_input c c"
  by (simp add: keeps_input_def)

lemma keeps_input_trans: "keeps_input a b \<Longrightarrow> keeps_input b c \<Longrightarrow> keeps_input a c"
  by (simp add: keeps_input_def)

lemma conn_write_frame:
  "keeps_input c (snd (conn_write bs c)) \<and> tc_said (snd (conn_write bs c)) = tc_said c"
  by (simp add: conn_write_def keeps_input_def split: option.split)

lemma record_attempt_frame [simp]:
  "keeps_input c (record_attempt u r m c)" "tc_said (record_attempt u r m c) = tc_said c"
  "tc_in (record_attempt u r m c) = tc_in c" "tc_heard (record_attempt u r m c) = tc_heard c"
  "tc_out (record_attempt u r m c) = tc_out c" "tc_room (record_attempt u r m c) = tc_room c"
  by (simp_all add: record_attempt_def keeps_input_def)

lemma write_reply_with_key_frame:
  "keeps_input c (snd (write_reply_with_key req key body c)) \<and>
   (tc_said (snd (write_reply_with_key req key body c)) = tc_said c \<or>
    tc_said (snd (write_reply_with_key req key body c)) = tc_said c @ [(reply_header req, body)])"
proof (cases "th_seq req \<ge> 254")
  case True
  then show ?thesis by (simp add: write_reply_with_key_def)
next
  case False
  show ?thesis
  proof (cases "encode_tacacs_packet (reply_header req) body key")
    case (Inl e)
    then show ?thesis using False by (simp add: write_reply_with_key_def reply_header_def)
  next
    case (Inr d)
    obtain e c' where w: "conn_write d c = (e, c')" by fastforce
    then show ?thesis
      using conn_write_frame [of c d] False Inr
      by (cases e) (simp_all add: write_reply_with_key_def reply_header_def keeps_input_def)
  qed
qed

lemma write_encoded_frame:
  "keeps_input c (snd (write_encoded req cfg r c)) \<and>
   (tc_said (snd (write_encoded req cfg r c)) = tc_said c \<or>
    (\<exists>body. r = Inr body \<and> tc_said (snd (write_encoded req cfg r c)) = tc_said c @ [(reply_header req, body)]))"
  using write_reply_with_key_frame
  by (auto simp: write_encoded_def write_reply_def Let_def split: sum.split prod.split)

lemma write_error_frame: "keeps_input c (snd (write_error req key e c))"
  using write_reply_with_key_frame by (auto simp: write_error_def split: sum.split)

text \<open>A handler keeps the input, and a PASS it sends needs a matching user.\<close>

definition says_pass :: "tacacs_header \<times> bytes \<Rightarrow> bool" where
  "says_pass = (\<lambda>(h, body). th_type h = tacacs_authen \<and>
     (case decode_authen_reply body of Inl e \<Rightarrow> False | Inr r \<Rightarrow> ar_status r = authen_pass))"

definition no_new_pass :: "tacacs_conn \<Rightarrow> tacacs_conn \<Rightarrow> bool" where
  "no_new_pass c c' \<longleftrightarrow> (\<forall>x \<in> set (tc_said c'). says_pass x \<longrightarrow> x \<in> set (tc_said c))"

lemma no_new_pass_same: "tc_said c' = tc_said c \<Longrightarrow> no_new_pass c c'"
  by (simp add: no_new_pass_def)

lemma no_new_pass_trans: "no_new_pass a b \<Longrightarrow> no_new_pass b c \<Longrightarrow> no_new_pass a c"
  by (auto simp: no_new_pass_def)

lemma says_pass_reply:
  "encode_authen_reply r = Inr body \<Longrightarrow> says_pass (h, body) \<Longrightarrow> ar_status r = authen_pass"
  by (simp add: says_pass_def flip: decode_authen_reply_iff)

lemma write_encoded_no_pass:
  assumes "\<And>body. r = Inr body \<Longrightarrow> \<not> says_pass (reply_header req, body)"
  shows "no_new_pass c (snd (write_encoded req cfg r c))"
  using write_encoded_frame [of c req cfg r] assms by (auto simp: no_new_pass_def)

lemma write_authen_no_pass:
  "ar_status r \<noteq> authen_pass \<Longrightarrow> no_new_pass c (snd (write_authen req cfg r c))"
  by (rule write_encoded_no_pass) (use says_pass_reply in blast)

lemma reply_header_type [simp]: "th_type (reply_header h) = th_type h"
  by (simp add: reply_header_def)

lemma other_type_no_pass:
  "th_type req \<noteq> tacacs_authen \<Longrightarrow> no_new_pass c (snd (write_encoded req cfg r c))"
  by (rule write_encoded_no_pass) (simp add: says_pass_def)

lemma write_error_no_pass: "no_new_pass c (snd (write_error req key e c))"
proof -
  have w: "no_new_pass c (snd (write_reply_with_key req key body c))" if "\<not> says_pass (reply_header req, body)" for body
    using write_reply_with_key_frame [of c req key body] that by (auto simp: no_new_pass_def)
  show ?thesis
  proof (cases "th_type req = tacacs_authen")
    case True
    show ?thesis
    proof (cases "encode_authen_reply \<lparr> ar_status = authen_error, ar_flags = 0, ar_msg = ''TACACS+ request rejected: '' @ e, ar_data = [] \<rparr>")
      case (Inr body)
      have "\<not> says_pass (reply_header req, body)" using says_pass_reply [OF Inr] by auto
      then show ?thesis using True Inr w by (simp add: write_error_def)
    qed (simp add: write_error_def True no_new_pass_same)
  next
    case False
    then have "\<not> says_pass (reply_header req, body)" for body by (simp add: says_pass_def)
    then show ?thesis using False w by (auto simp: write_error_def no_new_pass_same split: sum.split)
  qed
qed

lemma replied_eq: "replied f s r = (final, e, s', c') \<longleftrightarrow> final = f \<and> e = fst r \<and> s' = s \<and> c' = snd r"
  by (auto simp: replied_def)

lemma keeps_recorded: "keeps_input c (snd (write_encoded req cfg r (record_attempt u t m c)))"
  using write_encoded_frame [of "record_attempt u t m c"] keeps_input_trans record_attempt_frame(1) by blast

lemma keeps_written: "keeps_input c (snd (write_encoded req cfg r c))"
  using write_encoded_frame by blast

lemma recorded_no_pass:
  "no_new_pass (record_attempt u t m c) c' \<Longrightarrow> no_new_pass c c'"
  by (simp add: no_new_pass_def)

lemma authen_recorded_no_pass:
  "ar_status r \<noteq> authen_pass \<Longrightarrow> no_new_pass c (snd (write_authen req cfg r (record_attempt u t m c)))"
  by (rule recorded_no_pass [OF write_authen_no_pass])

text \<open>What one handler does: it keeps the input; while the session goes on, the user's name is one
  the packet presented; and a PASS goes out only to the password of a configured user.\<close>

definition presents :: "string \<Rightarrow> tacacs_packet \<Rightarrow> bool" where
  "presents v p \<longleftrightarrow>
     (case decode_authen_start (tp_body p) of Inl e \<Rightarrow> False | Inr start \<Rightarrow> as_user start = v) \<or>
     (case decode_authen_continue (tp_body p) of Inl e \<Rightarrow> False | Inr cont \<Rightarrow> ac_msg cont = v)"

definition password_of :: "aaa_config \<Rightarrow> string \<Rightarrow> tacacs_packet \<Rightarrow> bool" where
  "password_of cfg name p \<longleftrightarrow>
     (case decode_authen_continue (tp_body p) of Inl e \<Rightarrow> False
      | Inr cont \<Rightarrow> \<exists>u \<in> set (cf_users cfg). us_name u = name \<and> us_password u = ac_msg cont)"

lemma find_user_Some: "find_user users name pw = Some u \<Longrightarrow> u \<in> set users \<and> us_name u = name \<and> us_password u = pw"
  by (auto simp: find_user_def find_Some_iff)

lemma handle_authen_start:
  assumes "handle_authen p cfg s c = (final, e, s', c')" and "ts_stage s = Stage_Start"
  shows "keeps_input c c' \<and> no_new_pass c c' \<and> (ts_stage s' = Need_Password \<longrightarrow> presents (ts_username s') p)"
proof (cases "decode_authen_start (tp_body p)")
  case (Inl e)
  then show ?thesis using assms by (auto simp: handle_authen_def no_new_pass_same)
next
  case (Inr start)
  then show ?thesis
    using assms keeps_recorded keeps_written
    by (auto simp: handle_authen_def replied_eq presents_def get_pass_def Let_def
        intro!: write_authen_no_pass authen_recorded_no_pass split: if_splits)
qed

lemma handle_authen_continue:
  assumes "handle_authen p cfg s c = (final, e, s', c')" and "ts_stage s \<noteq> Stage_Start"
  shows "keeps_input c c' \<and> (no_new_pass c c' \<or> ts_stage s = Need_Password \<and> password_of cfg (ts_username s) p) \<and>
    (\<not> final \<longrightarrow> ts_stage s' = Need_Password \<and> presents (ts_username s') p)"
proof (cases "decode_authen_continue (tp_body p)")
  case (Inl e)
  then show ?thesis using assms by (auto simp: handle_authen_def no_new_pass_same)
next
  case (Inr cont)
  show ?thesis
  proof (cases "ac_flags cont AND 0x01 \<noteq> 0 \<or> ts_stage s = Need_Username")
    case True
    then show ?thesis
      using assms Inr keeps_written
      by (auto simp: handle_authen_def replied_eq presents_def get_pass_def Let_def no_new_pass_same
          intro!: write_authen_no_pass split: if_splits)
  next
    case False
    then have stage: "ts_stage s = Need_Password" using assms(2) by (cases "ts_stage s") auto
    show ?thesis
    proof (cases "find_user (cf_users cfg) (ts_username s) (ac_msg cont)")
      case None
      then show ?thesis
        using assms Inr False keeps_recorded
        by (auto simp: handle_authen_def replied_eq Let_def intro!: authen_recorded_no_pass)
    next
      case (Some u)
      then have "password_of cfg (ts_username s) p"
        using Inr find_user_Some by (fastforce simp: password_of_def)
      then show ?thesis
        using assms Inr False Some keeps_recorded stage by (auto simp: handle_authen_def replied_eq Let_def)
    qed
  qed
qed

lemma handle_author_frame:
  assumes "handle_author p cfg s c = (final, e, s', c')" and "th_type (tp_header p) = tacacs_author"
  shows "keeps_input c c' \<and> no_new_pass c c' \<and> final"
proof -
  have n: "no_new_pass c (snd (write_encoded (tp_header p) cfg r (record_attempt u t m c)))" for r u t m
    by (rule recorded_no_pass [OF other_type_no_pass]) (simp add: assms(2))
  show ?thesis
    using assms(1)
    by (auto simp: handle_author_def replied_eq Let_def keeps_recorded n no_new_pass_same
        split: sum.splits option.splits if_splits)
qed

lemma handle_acct_frame:
  assumes "handle_acct p cfg s c = (final, e, s', c')" and "th_type (tp_header p) = tacacs_acct"
  shows "keeps_input c c' \<and> no_new_pass c c' \<and> final"
proof -
  have n: "no_new_pass c (snd (write_encoded (tp_header p) cfg r (record_attempt u t m c)))" for r u t m
    by (rule recorded_no_pass [OF other_type_no_pass]) (simp add: assms(2))
  show ?thesis
    using assms(1)
    by (auto simp: handle_acct_def replied_eq Let_def keeps_recorded n no_new_pass_same
        split: sum.splits if_splits)
qed

definition same_link :: "tacacs_session \<Rightarrow> tacacs_session \<Rightarrow> bool" where
  "same_link s s' \<longleftrightarrow> ts_initialized s' = ts_initialized s \<and> ts_session_id s' = ts_session_id s \<and>
     ts_version s' = ts_version s \<and> ts_last_seq s' = ts_last_seq s"

lemma handle_authen_link: "handle_authen p cfg s c = (final, e, s', c') \<Longrightarrow> same_link s s'"
  by (auto simp: handle_authen_def replied_eq same_link_def Let_def split: sum.splits option.splits if_splits)

lemma handle_author_link: "handle_author p cfg s c = (final, e, s', c') \<Longrightarrow> same_link s s'"
  by (auto simp: handle_author_def replied_eq same_link_def Let_def split: sum.splits option.splits if_splits)

lemma handle_acct_link: "handle_acct p cfg s c = (final, e, s', c') \<Longrightarrow> same_link s s'"
  by (auto simp: handle_acct_def replied_eq same_link_def Let_def split: sum.splits if_splits)

lemma handle_packet_frame:
  assumes "handle_tacacs_packet p cfg s c = (final, e, s', c')"
  shows "same_link s s'" and "keeps_input c c'"
    and "no_new_pass c c' \<or> ts_stage s = Need_Password \<and> password_of cfg (ts_username s) p"
    and "\<not> final \<Longrightarrow> ts_stage s' = Need_Password \<Longrightarrow> presents (ts_username s') p"
proof -
  consider (authen) "handle_authen p cfg s c = (final, e, s', c')"
    | (author) "th_type (tp_header p) = tacacs_author" "handle_author p cfg s c = (final, e, s', c')"
    | (acct) "th_type (tp_header p) = tacacs_acct" "handle_acct p cfg s c = (final, e, s', c')"
    | (other) "s' = s" "c' = c" "final"
    using assms by (auto simp: handle_tacacs_packet_def split: if_splits)
  then have "same_link s s' \<and> keeps_input c c' \<and>
      (no_new_pass c c' \<or> ts_stage s = Need_Password \<and> password_of cfg (ts_username s) p) \<and>
      (\<not> final \<longrightarrow> ts_stage s' = Need_Password \<longrightarrow> presents (ts_username s') p)"
  proof cases
    case authen
    then show ?thesis
      using handle_authen_link [OF authen] handle_authen_start [OF authen] handle_authen_continue [OF authen]
      by (cases "ts_stage s = Stage_Start") simp_all
  next
    case author
    then show ?thesis using handle_author_link [OF author(2)] handle_author_frame [OF author(2,1)] by simp
  next
    case acct
    then show ?thesis using handle_acct_link [OF acct(2)] handle_acct_frame [OF acct(2,1)] by simp
  next
    case other
    then show ?thesis by (simp add: same_link_def no_new_pass_same)
  qed
  then show "same_link s s'" "keeps_input c c'"
    "no_new_pass c c' \<or> ts_stage s = Need_Password \<and> password_of cfg (ts_username s) p"
    "\<not> final \<Longrightarrow> ts_stage s' = Need_Password \<Longrightarrow> presents (ts_username s') p" by simp_all
qed

lemma decode_header_append: "12 \<le> length hb \<Longrightarrow> decode_tacacs_header (hb @ r) = decode_tacacs_header hb"
  by (elim length_12E) (simp add: decode_tacacs_header_def)

lemma accept_header_stage: "accept_header h s = Inr s1 \<Longrightarrow> ts_stage s1 = ts_stage s \<and> ts_username s1 = ts_username s"
  by (auto simp: accept_header_def split: if_splits)

definition turn_ended :: "tacacs_conn \<Rightarrow> tacacs_conn \<Rightarrow> bool" where
  "turn_ended c c' \<longleftrightarrow> tc_heard c' = tc_heard c \<and> no_new_pass c c'"

definition turn_heard :: "aaa_config \<Rightarrow> tacacs_session \<Rightarrow> tacacs_conn \<Rightarrow> tacacs_session option \<Rightarrow> tacacs_conn \<Rightarrow> bool" where
  "turn_heard cfg s c r c' \<longleftrightarrow>
     (\<exists>p s1. accept_header (tp_header p) s = Inr s1 \<and> tc_heard c' = tc_heard c @ [p] \<and>
        (no_new_pass c c' \<or> ts_stage s = Need_Password \<and> password_of cfg (ts_username s) p) \<and>
        (case r of None \<Rightarrow> True
         | Some s' \<Rightarrow> same_link s1 s' \<and> (ts_stage s' = Need_Password \<longrightarrow> presents (ts_username s') p) \<and> tc_in c' = tc_in c))"

lemma write_error_ended: "turn_ended c (snd (write_error h key e (record_attempt u t m c)))"
  using write_error_frame [of "record_attempt u t m c" h key e] recorded_no_pass [OF write_error_no_pass]
  by (simp add: turn_ended_def keeps_input_def)

lemma record_ended: "turn_ended c (record_attempt u t m c)"
  by (simp add: turn_ended_def no_new_pass_same)

lemma handled_heard:
  assumes hd: "handle_tacacs_packet p cfg s1 (c \<lparr> tc_heard := tc_heard c @ [p] \<rparr>) = (final, e, s2, c3)"
    and a: "accept_header (tp_header p) s = Inr s1"
  shows "turn_heard cfg s c (if final then None else Some s2) c3"
    and "turn_heard cfg s c None (snd (write_error h key er (record_attempt u t m c3)))"
proof -
  note f = handle_packet_frame [OF hd]
  have st: "ts_stage s1 = ts_stage s" "ts_username s1 = ts_username s" using accept_header_stage [OF a] by simp_all
  have np: "no_new_pass c c3 \<or> ts_stage s = Need_Password \<and> password_of cfg (ts_username s) p"
    using f(3) by (auto simp: no_new_pass_def st)
  then show "turn_heard cfg s c (if final then None else Some s2) c3"
    using f a unfolding turn_heard_def by (intro exI [of _ p] exI [of _ s1]) (auto simp: keeps_input_def)
  have w: "turn_ended c3 (snd (write_error h key er (record_attempt u t m c3)))" by (rule write_error_ended)
  then show "turn_heard cfg s c None (snd (write_error h key er (record_attempt u t m c3)))"
    using f(2) a np unfolding turn_heard_def turn_ended_def
    by (intro exI [of _ p] exI [of _ s1]) (auto simp: keeps_input_def intro: no_new_pass_trans)
qed

lemma answer_request_cases:
  assumes "answer_request cfg s h pb c = (r, c')" and h: "decode_tacacs_header pb = Inr h"
  shows "turn_ended c c' \<and> r = None \<or> turn_heard cfg s c r c'"
proof (cases "accept_header h s")
  case (Inl e)
  then show ?thesis using assms(1) write_error_ended by (auto simp: answer_request_def)
next
  case (Inr s1)
  note a = Inr
  obtain key conf where k: "tacacs_key cfg = (key, conf)" by fastforce
  show ?thesis
  proof (cases "decode_tacacs_packet pb key")
    case (Inl e)
    then show ?thesis using assms(1) a k write_error_ended record_ended
      by (auto simp: answer_request_def split: if_splits)
  next
    case (Inr p)
    then have hp: "tp_header p = h" using h by (auto simp: decode_tacacs_packet_def split: if_splits)
    obtain final e s2 c3 where hd: "handle_tacacs_packet p cfg s1 (c \<lparr> tc_heard := tc_heard c @ [p] \<rparr>) = (final, e, s2, c3)"
      by (metis prod_cases4)
    show ?thesis
      using assms(1) a k Inr write_error_ended record_ended hd handled_heard [OF hd, of s] hp
      by (auto simp: answer_request_def split: if_splits option.splits)
  qed
qed

lemma conn_read_Some:
  "conn_read n c = (Some b, c') \<Longrightarrow> length b = n \<and> c' = c \<lparr> tc_in := drop n (tc_in c) \<rparr> \<and> tc_in c = b @ drop n (tc_in c)"
  by (auto simp: conn_read_def split: if_splits)

lemma conn_read_None: "conn_read n c = (None, c') \<Longrightarrow> c' = c \<lparr> tc_in := [] \<rparr>"
  by (auto simp: conn_read_def split: if_splits)

definition shrinks :: "tacacs_conn \<Rightarrow> tacacs_conn \<Rightarrow> bool" where
  "shrinks c c1 \<longleftrightarrow> tc_heard c1 = tc_heard c \<and> tc_said c1 = tc_said c \<and> length (tc_in c1) < length (tc_in c)"

lemma tacacs_turn_cases:
  assumes "tacacs_turn cfg s c = (r, c')"
  obtains (ended) "turn_ended c c'" "r = None"
    | (heard) c1 where "shrinks c c1" "turn_heard cfg s c1 r c'"
proof -
  obtain hb c1 where r1: "conn_read 12 c = (hb, c1)" by fastforce
  show thesis
  proof (cases "\<exists>b h. hb = Some b \<and> decode_tacacs_header b = Inr h")
    case False
    then have "c' = c1 \<and> r = None"
      using assms r1 by (auto simp: tacacs_turn_def split: option.splits sum.splits)
    then show thesis
      using r1 conn_read_None [of 12 c c1] conn_read_Some [of 12 c _ c1]
      by (intro ended) (cases hb; auto simp: turn_ended_def no_new_pass_def)+
  next
    case True
    then obtain b h where b: "hb = Some b" "decode_tacacs_header b = Inr h" by blast
    note s1 = conn_read_Some [OF r1 [unfolded b(1)]]
    obtain bb c2 where r2: "conn_read (unat (th_length h)) c1 = (bb, c2)" by fastforce
    have turn: "tacacs_turn cfg s c = (case bb of None \<Rightarrow> (None, c2) | Some d \<Rightarrow> answer_request cfg s h (b @ d) c2)"
      using r1 r2 b by (simp add: tacacs_turn_def split: option.split)
    show thesis
    proof (cases bb)
      case None
      then have "c2 = c1 \<lparr> tc_in := [] \<rparr>" using conn_read_None r2 by blast
      then have "tc_heard c2 = tc_heard c" "tc_said c2 = tc_said c" using s1 by simp_all
      then show thesis using turn assms None by (intro ended) (simp_all add: turn_ended_def no_new_pass_def)
    next
      case (Some d)
      have c1: "c1 = c \<lparr> tc_in := drop 12 (tc_in c) \<rparr>" and l: "length b = 12" using s1 by blast+
      have "length (tc_in c) = length (b @ drop 12 (tc_in c))" by (rule arg_cong [where f = length]) (use s1 in blast)
      then have "length (tc_in c1) < length (tc_in c)" using l c1 by simp
      moreover have "c2 = c1 \<lparr> tc_in := drop (unat (th_length h)) (tc_in c1) \<rparr>"
        using conn_read_Some [OF r2 [unfolded Some]] by blast
      ultimately have "shrinks c c2" using c1 by (simp add: shrinks_def)
      moreover have "decode_tacacs_header (b @ d) = Inr h" using l b(2) by (simp add: decode_header_append)
      then have "turn_ended c2 c' \<and> r = None \<or> turn_heard cfg s c2 r c'"
        using answer_request_cases [of cfg s h "b @ d" c2 r c'] turn assms Some by simp
      ultimately show thesis
        using ended heard by (auto simp: turn_ended_def shrinks_def no_new_pass_def)
    qed
  qed
qed

text \<open>handleConn: the k-th turn takes the k-th snapshot of the configuration.\<close>

function tacacs_serve :: "(nat \<Rightarrow> aaa_config) \<Rightarrow> nat \<Rightarrow> tacacs_session \<Rightarrow> tacacs_conn \<Rightarrow> tacacs_conn" where
  "tacacs_serve snap k s c =
     (case tacacs_turn (snap k) s c of
        (None, c') \<Rightarrow> c'
      | (Some s', c') \<Rightarrow> tacacs_serve snap (Suc k) s' c')"
  by pat_completeness auto
termination
proof (relation "measure (\<lambda>(_, _, _, c). length (tc_in c))")
  fix snap :: "nat \<Rightarrow> aaa_config" and k s c r c' s'
  assume "(r, c') = tacacs_turn (snap k) s c" and "r = Some s'"
  then show "((snap, Suc k, s', c'), snap, k, s, c) \<in> measure (\<lambda>(_, _, _, c). length (tc_in c))"
    using tacacs_turn_cases [of "snap k" s c r c'] by (fastforce simp: turn_heard_def shrinks_def)
qed simp

declare tacacs_serve.simps [simp del]

definition handle_conn :: "(nat \<Rightarrow> aaa_config) \<Rightarrow> tacacs_conn \<Rightarrow> tacacs_conn" where
  "handle_conn snap c = tacacs_serve snap 0 new_session c"

section \<open>What a connection keeps\<close>

text \<open>The packets heard so far carry one session id and the sequence numbers 1, 3, 5, ...\<close>

definition in_step :: "tacacs_session \<Rightarrow> tacacs_packet list \<Rightarrow> bool" where
  "in_step s ps \<longleftrightarrow>
     (if ts_initialized s then ps \<noteq> [] \<and> unat (ts_last_seq s) + 1 = 2 * length ps else ps = []) \<and>
     length ps \<le> 127 \<and> (\<forall>i < length ps. unat (th_seq (tp_header (ps ! i))) = 2 * i + 1) \<and>
     (\<forall>p \<in> set ps. th_session (tp_header p) = ts_session_id s)"

definition justified :: "(nat \<Rightarrow> aaa_config) \<Rightarrow> tacacs_packet list \<Rightarrow> bool" where
  "justified snap ps \<longleftrightarrow> (\<exists>k. \<exists>u \<in> set (cf_users (snap k)). (\<exists>p \<in> set ps. presents (us_name u) p) \<and>
     (\<exists>q \<in> set ps. \<exists>cont. decode_authen_continue (tp_body q) = Inr cont \<and> ac_msg cont = us_password u))"

definition conn_inv :: "(nat \<Rightarrow> aaa_config) \<Rightarrow> tacacs_session \<Rightarrow> tacacs_conn \<Rightarrow> bool" where
  "conn_inv snap s c \<longleftrightarrow> in_step s (tc_heard c) \<and>
     (ts_stage s = Need_Password \<longrightarrow> (\<exists>p \<in> set (tc_heard c). presents (ts_username s) p)) \<and>
     (\<forall>x \<in> set (tc_said c). says_pass x \<longrightarrow> justified snap (tc_heard c))"

lemma justified_more: "justified snap ps \<Longrightarrow> justified snap (ps @ qs)"
  by (auto simp: justified_def)

lemma accept_in_step:
  assumes "in_step s ps" and "accept_header (tp_header p) s = Inr s1"
  shows "in_step s1 (ps @ [p])"
proof (cases "ts_initialized s")
  case False
  then have "ps = []" "th_seq (tp_header p) = 1" "s1 = s \<lparr> ts_initialized := True, ts_session_id := th_session (tp_header p),
      ts_version := th_version (tp_header p), ts_last_seq := 1 \<rparr>"
    using assms by (auto simp: in_step_def accept_header_def split: if_splits)
  then show ?thesis by (simp add: in_step_def)
next
  case True
  define n where "n = length ps"
  have s: "unat (ts_last_seq s) + 1 = 2 * n" "\<forall>i < n. unat (th_seq (tp_header (ps ! i))) = 2 * i + 1"
      "\<forall>p \<in> set ps. th_session (tp_header p) = ts_session_id s"
    and a: "\<not> ts_last_seq s \<ge> 253" "th_seq (tp_header p) = ts_last_seq s + 2" "th_session (tp_header p) = ts_session_id s"
      "s1 = s \<lparr> ts_last_seq := th_seq (tp_header p) \<rparr>"
    using assms True by (auto simp: in_step_def accept_header_def n_def split: if_splits)
  have "unat (ts_last_seq s) < 253" using a(1) by (simp add: word_le_nat_alt)
  then have q: "unat (th_seq (tp_header p)) = unat (ts_last_seq s) + 2"
    by (simp add: a(2) unat_word_ariths)
  then have "length (ps @ [p]) \<le> 127" using s(1) \<open>unat (ts_last_seq s) < 253\<close> by (simp add: n_def)
  then show ?thesis
    using s a q True by (auto simp: in_step_def n_def nth_append less_Suc_eq)
qed

lemma in_step_link: "in_step s ps \<Longrightarrow> same_link s s' \<Longrightarrow> in_step s' ps"
  by (cases "ts_initialized s") (simp_all add: in_step_def same_link_def)

lemma turn_inv:
  assumes "conn_inv snap s c" and "tacacs_turn (snap k) s c = (r, c')"
  shows "\<exists>s1. in_step s1 (tc_heard c') \<and> (\<forall>x \<in> set (tc_said c'). says_pass x \<longrightarrow> justified snap (tc_heard c')) \<and>
    (case r of None \<Rightarrow> True | Some s' \<Rightarrow> conn_inv snap s' c')"
  using assms(2)
proof (cases rule: tacacs_turn_cases)
  case ended
  then show ?thesis using assms(1) by (auto simp: conn_inv_def turn_ended_def no_new_pass_def)
next
  case (heard c1)
  then obtain p s1 where a: "accept_header (tp_header p) s = Inr s1" and h: "tc_heard c' = tc_heard c @ [p]"
    and np: "no_new_pass c1 c' \<or> ts_stage s = Need_Password \<and> password_of (snap k) (ts_username s) p"
    and r: "case r of None \<Rightarrow> True | Some s' \<Rightarrow> same_link s1 s' \<and> (ts_stage s' = Need_Password \<longrightarrow> presents (ts_username s') p)"
    by (auto simp: turn_heard_def shrinks_def split: option.splits)
  have st: "in_step s1 (tc_heard c')" using accept_in_step [OF _ a] assms(1) h by (simp add: conn_inv_def)
  have j: "justified snap (tc_heard c')" if "x \<in> set (tc_said c')" "says_pass x" for x
    using np
  proof
    assume "no_new_pass c1 c'"
    then have "x \<in> set (tc_said c)" using that heard(1) by (simp add: no_new_pass_def shrinks_def)
    then have "justified snap (tc_heard c)" using assms(1) that by (auto simp: conn_inv_def)
    then show ?thesis using h by (simp add: justified_more)
  next
    assume pw: "ts_stage s = Need_Password \<and> password_of (snap k) (ts_username s) p"
    then obtain q where q: "q \<in> set (tc_heard c)" "presents (ts_username s) q" using assms(1) by (auto simp: conn_inv_def)
    obtain cont u where "decode_authen_continue (tp_body p) = Inr cont" "u \<in> set (cf_users (snap k))"
        "us_name u = ts_username s" "us_password u = ac_msg cont"
      using pw by (auto simp: password_of_def split: sum.splits)
    then show ?thesis using q h unfolding justified_def by (intro exI [of _ k] bexI [of _ u]) auto
  qed
  have "case r of None \<Rightarrow> True | Some s' \<Rightarrow> conn_inv snap s' c'"
    using r st j h in_step_link by (auto simp: conn_inv_def split: option.splits)
  then show ?thesis using st j by blast
qed

lemma serve_inv:
  assumes "conn_inv snap s c"
  shows "\<exists>s1. in_step s1 (tc_heard (tacacs_serve snap k s c)) \<and>
    (\<forall>x \<in> set (tc_said (tacacs_serve snap k s c)). says_pass x \<longrightarrow> justified snap (tc_heard (tacacs_serve snap k s c)))"
  using assms
proof (induction snap k s c rule: tacacs_serve.induct)
  case (1 snap k s c)
  obtain r c' where t: "tacacs_turn (snap k) s c = (r, c')" by fastforce
  show ?case
  proof (cases r)
    case None
    then have "tacacs_serve snap k s c = c'" using t by (simp add: tacacs_serve.simps [of snap k s c])
    then show ?thesis using turn_inv [OF "1.prems" t] by auto
  next
    case (Some s')
    then have "tacacs_serve snap k s c = tacacs_serve snap (Suc k) s' c'"
      using t by (simp add: tacacs_serve.simps [of snap k s c])
    then show ?thesis using turn_inv [OF "1.prems" t] Some "1.IH" [OF t [symmetric] Some] by auto
  qed
qed

lemma new_session_inv: "tc_heard c = [] \<Longrightarrow> tc_said c = [] \<Longrightarrow> conn_inv snap new_session c"
  by (simp add: conn_inv_def in_step_def new_session_def)

section \<open>A login\<close>

lemma encode_packet_ok:
  assumes "th_version h = 0xC0" and "th_type h \<noteq> 0" and "th_type h \<le> 3" and "th_seq h \<noteq> 0" and "th_seq h \<noteq> 255"
    and "th_flags h AND NOT 0x05 = 0" and "length body \<le> 65535"
  shows "\<exists>d. encode_tacacs_packet h body key = Inr d"
proof -
  have "(of_nat (length body) :: 32 word) \<le> 65535"
    using assms(7) by (simp add: word_le_nat_alt)
  then show ?thesis using assms
    by (simp add: encode_tacacs_packet_def encode_tacacs_header_def Let_def not_less)
qed

lemma encode_packet_length: "encode_tacacs_packet (h \<lparr> th_length := n \<rparr>) b key = encode_tacacs_packet h b key"
  by (simp add: encode_tacacs_packet_def)

lemma write_encoded_ok:
  assumes "tacacs_key cfg = (key, True)" and "tc_room c = None" and "th_seq req < 254"
    and "encode_tacacs_packet (reply_header req) body key = Inr d"
  shows "write_encoded req cfg (Inr body) c =
    (None, c \<lparr> tc_out := tc_out c @ d, tc_said := tc_said c @ [(reply_header req, body)] \<rparr>)"
  using assms by (simp add: write_encoded_def write_reply_def write_reply_with_key_def reply_header_def conn_write_def not_le)

lemma turn_packet:
  assumes "encode_tacacs_packet h b key = Inr d" and "th_flags h AND 0x01 = 0" and "th_version h = 0xC0"
    and key: "tacacs_key cfg = (key, True)" "key \<noteq> []"
    and "tc_in c = d @ r"
    and acc: "accept_header (h \<lparr> th_length := of_nat (length b) \<rparr>) s = Inr s1"
    and hd: "handle_tacacs_packet \<lparr> tp_header = h \<lparr> th_length := of_nat (length b) \<rparr>, tp_body = b \<rparr> cfg s1
      (c \<lparr> tc_in := r, tc_heard := tc_heard c @ [\<lparr> tp_header = h \<lparr> th_length := of_nat (length b) \<rparr>, tp_body = b \<rparr>] \<rparr>) =
      (final, None, s', c')"
  shows "tacacs_turn cfg s c = (if final then None else Some s', c')"
proof -
  define h' where "h' = h \<lparr> th_length := of_nat (length b) \<rparr>"
  have "sendable key \<lparr> tp_header = h', tp_body = b \<rparr>" using assms by (simp add: sendable_def h'_def)
  then have dp: "decode_tacacs_packet d key = Inr \<lparr> tp_header = h', tp_body = b \<rparr>"
    using tacacs_packet_codec.dec_enc [of key "\<lparr> tp_header = h', tp_body = b \<rparr>" d] assms(1)
    by (simp add: h'_def encode_packet_length)
  then have dh: "decode_tacacs_header d = Inr h'" and l: "length d = 12 + unat (th_length h')"
    by (auto simp: decode_tacacs_packet_def split: sum.splits if_splits)
  have "decode_tacacs_header (take 12 d) = Inr h'"
    using decode_header_append [of "take 12 d" "drop 12 d"] dh l by simp
  moreover have "conn_read 12 c = (Some (take 12 d), c \<lparr> tc_in := drop 12 d @ r \<rparr>)"
    using assms(6) l by (simp add: conn_read_def)
  moreover have "conn_read (unat (th_length h')) (c \<lparr> tc_in := drop 12 d @ r \<rparr>) = (Some (drop 12 d), c \<lparr> tc_in := r \<rparr>)"
    using l by (simp add: conn_read_def)
  ultimately have "tacacs_turn cfg s c = answer_request cfg s h' d (c \<lparr> tc_in := r \<rparr>)"
    by (simp add: tacacs_turn_def)
  moreover have "validate_request_version \<lparr> tp_header = h', tp_body = b \<rparr> = None"
    using assms(3) by (simp add: validate_request_version_def h'_def)
  ultimately show ?thesis
    using acc hd key dp by (simp add: answer_request_def h'_def [symmetric])
qed

definition login_header :: "32 word \<Rightarrow> byte \<Rightarrow> tacacs_header" where
  "login_header sid seq = \<lparr> th_version = 0xC0, th_type = tacacs_authen, th_seq = seq, th_flags = 0,
     th_session = sid, th_length = 0 \<rparr>"

lemma login_header_reply:
  "seq \<noteq> 0 \<Longrightarrow> seq \<noteq> 255 \<Longrightarrow> length body \<le> 65535 \<Longrightarrow> \<exists>d. encode_tacacs_packet (login_header sid seq) body key = Inr d"
  by (rule encode_packet_ok) (simp_all add: login_header_def)

definition verdict :: "aaa_config \<Rightarrow> string \<Rightarrow> string \<Rightarrow> authen_reply" where
  "verdict cfg name pw =
     (if \<exists>u \<in> set (cf_users cfg). us_name u = name \<and> us_password u = pw
      then \<lparr> ar_status = authen_pass, ar_flags = 0, ar_msg = ''Authentication successful'', ar_data = [] \<rparr>
      else \<lparr> ar_status = authen_fail, ar_flags = 0, ar_msg = ''Authentication failed'', ar_data = [] \<rparr>)"

lemma verdict_body: "\<exists>body. encode_authen_reply (verdict cfg name pw) = Inr body \<and> length body \<le> 65535"
  by (simp add: verdict_def encode_authen_reply_def valid_authen_status_def)

lemma get_pass_body: "\<exists>body. encode_authen_reply get_pass = Inr body \<and> length body \<le> 65535"
  by (simp add: get_pass_def encode_authen_reply_def valid_authen_status_def)

lemma reply_to_login: "seq + 1 = seq' \<Longrightarrow> encode_tacacs_packet (reply_header (login_header sid seq \<lparr> th_length := n \<rparr>)) body key =
    encode_tacacs_packet (login_header sid seq') body key"
  by (simp add: reply_header_def login_header_def encode_tacacs_packet_def)

lemma find_user_iff: "find_user users name pw = None \<longleftrightarrow> \<not> (\<exists>u \<in> set users. us_name u = name \<and> us_password u = pw)"
  by (auto simp: find_user_def find_None_iff)

text \<open>The two turns of a login.\<close>

lemma start_turn:
  assumes "ts_stage s = Stage_Start" and "decode_authen_start (tp_body p) = Inr start"
    and "as_action start = 0x01" "as_type start = 0x01" "as_user start \<noteq> []" and "th_type (tp_header p) = tacacs_authen"
    and "tacacs_key cfg = (key, True)" "tc_room c = None" "th_seq (tp_header p) < 254"
    and "encode_authen_reply get_pass = Inr g" "encode_tacacs_packet (reply_header (tp_header p)) g key = Inr d"
  shows "handle_tacacs_packet p cfg s c = (False, None, s \<lparr> ts_username := as_user start, ts_stage := Need_Password \<rparr>,
    c \<lparr> tc_out := tc_out c @ d, tc_said := tc_said c @ [(reply_header (tp_header p), g)] \<rparr>)"
  using assms by (simp add: handle_tacacs_packet_def handle_authen_def replied_def write_encoded_ok)

lemma password_turn:
  assumes "ts_stage s = Need_Password" and "decode_authen_continue (tp_body p) = Inr cont" and "ac_flags cont = 0"
    and "th_type (tp_header p) = tacacs_authen"
    and key: "tacacs_key cfg = (key, True)" and room: "tc_room c = None" and seq: "th_seq (tp_header p) < 254"
    and v: "encode_authen_reply (verdict cfg (ts_username s) (ac_msg cont)) = Inr v"
    and d: "encode_tacacs_packet (reply_header (tp_header p)) v key = Inr d"
  shows "\<exists>res msg. handle_tacacs_packet p cfg s c = (True, None, s, (record_attempt (ts_username s) res msg c)
     \<lparr> tc_out := tc_out c @ d, tc_said := tc_said c @ [(reply_header (tp_header p), v)] \<rparr>)"
proof -
  have room2: "tc_room (record_attempt u r m c) = None" for u r m using room by simp
  note w = write_encoded_ok [OF key room2 seq d]
  show ?thesis
  proof (cases "find_user (cf_users cfg) (ts_username s) (ac_msg cont)")
    case None
    then have "verdict cfg (ts_username s) (ac_msg cont) =
        \<lparr> ar_status = authen_fail, ar_flags = 0, ar_msg = ''Authentication failed'', ar_data = [] \<rparr>"
      using find_user_iff by (simp add: verdict_def)
    then show ?thesis
      using assms(1-4) v None w
      by (intro exI [of _ "''reject''"] exI [of _ "''Authentication failed: invalid credentials''"])
        (simp add: handle_tacacs_packet_def handle_authen_def replied_def)
  next
    case (Some u)
    then have "verdict cfg (ts_username s) (ac_msg cont) =
        \<lparr> ar_status = authen_pass, ar_flags = 0, ar_msg = ''Authentication successful'', ar_data = [] \<rparr>"
      using find_user_iff [of "cf_users cfg" "ts_username s" "ac_msg cont"] by (simp add: verdict_def)
    then show ?thesis
      using assms(1-4) v Some w
      by (intro exI [of _ "''accept''"] exI [of _ "''Authentication successful''"])
        (simp add: handle_tacacs_packet_def handle_authen_def replied_def)
  qed
qed

definition logged_in :: "aaa_config \<Rightarrow> bytes \<Rightarrow> 32 word \<Rightarrow> string \<Rightarrow> string \<Rightarrow> tacacs_conn \<Rightarrow> tacacs_conn \<Rightarrow> bool" where
  "logged_in cfg key sid name pw c c' \<longleftrightarrow>
     (\<exists>g v p2 p4. encode_authen_reply get_pass = Inr g \<and> encode_tacacs_packet (login_header sid 2) g key = Inr p2 \<and>
       encode_authen_reply (verdict cfg name pw) = Inr v \<and> encode_tacacs_packet (login_header sid 4) v key = Inr p4 \<and>
       tc_out c' = tc_out c @ p2 @ p4 \<and> (\<exists>h2 h4. th_type h4 = tacacs_authen \<and> tc_said c' = tc_said c @ [(h2, g), (h4, v)]))"

lemma login_dialogue:
  assumes key: "tacacs_key cfg = (key, True)" "key \<noteq> []" and room: "tc_room c = None"
    and start: "encode_authen_start start = Inr b1" "as_action start = 0x01" "as_type start = 0x01" "as_user start \<noteq> []"
    and cont: "encode_authen_continue cont = Inr b2" "ac_flags cont = 0"
    and d1: "encode_tacacs_packet (login_header sid 1) b1 key = Inr d1"
    and d2: "encode_tacacs_packet (login_header sid 3) b2 key = Inr d2"
    and inp: "tc_in c = d1 @ d2 @ rest"
  shows "logged_in cfg key sid (as_user start) (ac_msg cont) c (handle_conn (\<lambda>_. cfg) c)"
proof -
  obtain g where g: "encode_authen_reply get_pass = Inr g" "length g \<le> 65535" using get_pass_body by blast
  obtain v where v: "encode_authen_reply (verdict cfg (as_user start) (ac_msg cont)) = Inr v" "length v \<le> 65535"
    using verdict_body by blast
  obtain p2 where p2: "encode_tacacs_packet (login_header sid 2) g key = Inr p2" using login_header_reply [OF _ _ g(2)] by fastforce
  obtain p4 where p4: "encode_tacacs_packet (login_header sid 4) v key = Inr p4" using login_header_reply [OF _ _ v(2)] by fastforce
  define h1 h3 where "h1 = login_header sid 1 \<lparr> th_length := of_nat (length b1) \<rparr>"
    and "h3 = login_header sid 3 \<lparr> th_length := of_nat (length b2) \<rparr>"
  define s0 where "s0 = new_session \<lparr> ts_initialized := True, ts_session_id := sid, ts_version := 0xC0, ts_last_seq := 1 \<rparr>"
  define s1 where "s1 = s0 \<lparr> ts_username := as_user start, ts_stage := Need_Password \<rparr>"
  define c1 where "c1 = c \<lparr> tc_in := d2 @ rest, tc_heard := tc_heard c @ [\<lparr> tp_header = h1, tp_body = b1 \<rparr>],
      tc_out := tc_out c @ p2, tc_said := tc_said c @ [(reply_header h1, g)] \<rparr>"
  have h: "th_seq h1 < 254" "th_seq h3 < 254" "th_type h1 = tacacs_authen" "th_type h3 = tacacs_authen"
    by (simp_all add: h1_def h3_def login_header_def)
  have r2: "encode_tacacs_packet (reply_header h1) g key = Inr p2" and r4: "encode_tacacs_packet (reply_header h3) v key = Inr p4"
    using p2 p4 reply_to_login [of 1 2] reply_to_login [of 3 4] by (simp_all add: h1_def h3_def)
  have a1: "accept_header h1 new_session = Inr s0"
    by (simp add: accept_header_def new_session_def h1_def login_header_def s0_def)
  have "tacacs_turn cfg new_session c = (if False then None else Some s1, c1)"
    by (rule turn_packet [OF d1 _ _ key inp a1 [unfolded h1_def]], simp_all add: login_header_def flip: h1_def [unfolded login_header_def])
      (use start start_turn [of s0 "\<lparr> tp_header = h1, tp_body = b1 \<rparr>"] decode_authen_start_iff [of b1 start] h g r2 room key
        in \<open>simp add: s1_def c1_def s0_def new_session_def h1_def login_header_def\<close>)
  then have t1: "tacacs_turn cfg new_session c = (Some s1, c1)" by simp
  define c2 where "c2 = c1 \<lparr> tc_in := rest, tc_heard := tc_heard c1 @ [\<lparr> tp_header = h3, tp_body = b2 \<rparr>] \<rparr>"
  define s3 where "s3 = s1 \<lparr> ts_last_seq := 3 \<rparr>"
  have a3: "accept_header h3 s1 = Inr s3"
    by (simp add: accept_header_def new_session_def h3_def login_header_def s0_def s1_def s3_def word_le_nat_alt)
  have s3: "ts_stage s3 = Need_Password" "ts_username s3 = as_user start" by (simp_all add: s3_def s1_def)
  obtain res msg where "handle_tacacs_packet \<lparr> tp_header = h3, tp_body = b2 \<rparr> cfg s3 c2 =
      (True, None, s3, (record_attempt (as_user start) res msg c2)
        \<lparr> tc_out := tc_out c2 @ p4, tc_said := tc_said c2 @ [(reply_header h3, v)] \<rparr>)"
    using password_turn [of s3 "\<lparr> tp_header = h3, tp_body = b2 \<rparr>" cont cfg key c2 v p4] cont
      decode_authen_continue_iff [of b2 cont] h key room v r4 s3 by (auto simp: c2_def c1_def)
  then have "tacacs_turn cfg s1 c1 = (None, (record_attempt (as_user start) res msg c2)
        \<lparr> tc_out := tc_out c2 @ p4, tc_said := tc_said c2 @ [(reply_header h3, v)] \<rparr>)"
    using turn_packet [OF d2 _ _ key _ a3 [unfolded h3_def], where final = True and c = c1]
    by (simp add: h3_def login_header_def c2_def c1_def)
  then have "handle_conn (\<lambda>_. cfg) c = (record_attempt (as_user start) res msg c2)
        \<lparr> tc_out := tc_out c2 @ p4, tc_said := tc_said c2 @ [(reply_header h3, v)] \<rparr>"
    using t1 by (simp add: handle_conn_def tacacs_serve.simps [of _ 0 new_session] tacacs_serve.simps [of _ "Suc 0" s1])
  then show ?thesis
    using g v p2 p4 h(4) unfolding logged_in_def
    by (intro exI [of _ g] exI [of _ v] exI [of _ p2] exI [of _ p4]) (auto simp: c2_def c1_def record_attempt_def)
qed

section \<open>Properties\<close>

text \<open>C12. A login, byte for byte: a client that sends an ASCII START naming a user and a CONTINUE with a
  password, both sealed with the server's key, is asked for the password and then gets PASS if the
  configuration has a user with that name and password and FAIL otherwise, in packets 2 and 4 of its session.\<close>

theorem login_gets_verdict:
  assumes "tacacs_key cfg = (key, True)" "key \<noteq> []" "tc_room c = None"
    and "encode_authen_start start = Inr b1" "as_action start = 0x01" "as_type start = 0x01" "as_user start \<noteq> []"
    and "encode_authen_continue cont = Inr b2" "ac_flags cont = 0"
    and "encode_tacacs_packet (login_header sid 1) b1 key = Inr d1"
    and "encode_tacacs_packet (login_header sid 3) b2 key = Inr d2"
    and "tc_in c = d1 @ d2 @ rest"
  shows "\<exists>g v p2 p4. encode_authen_reply get_pass = Inr g \<and> encode_tacacs_packet (login_header sid 2) g key = Inr p2 \<and>
     encode_authen_reply (verdict cfg (as_user start) (ac_msg cont)) = Inr v \<and>
     encode_tacacs_packet (login_header sid 4) v key = Inr p4 \<and>
     tc_out (handle_conn (\<lambda>_. cfg) c) = tc_out c @ p2 @ p4"
  using login_dialogue [OF assms] unfolding logged_in_def by blast

text \<open>C13. Whatever bytes arrive and however the configuration changes meanwhile, a reply with status PASS is
  sent only if some snapshot has a user whose name a packet of this connection presented and whose
  password a CONTINUE of this connection carried.\<close>

theorem pass_needs_password:
  assumes "tc_heard c = []" "tc_said c = []"
    and "(h, body) \<in> set (tc_said (handle_conn snap c))" "th_type h = tacacs_authen"
    and "decode_authen_reply body = Inr r" "ar_status r = authen_pass"
  shows "\<exists>k. \<exists>u \<in> set (cf_users (snap k)). (\<exists>p \<in> set (tc_heard (handle_conn snap c)). presents (us_name u) p) \<and>
     (\<exists>q \<in> set (tc_heard (handle_conn snap c)). \<exists>cont. decode_authen_continue (tp_body q) = Inr cont \<and> ac_msg cont = us_password u)"
proof -
  have "says_pass (h, body)" using assms(4-6) by (simp add: says_pass_def)
  then have "justified snap (tc_heard (handle_conn snap c))"
    using serve_inv [OF new_session_inv [OF assms(1,2)], of snap 0] assms(3) unfolding handle_conn_def by blast
  then show ?thesis unfolding justified_def .
qed

text \<open>C14. One connection carries one session: at most 127 packets are accepted, numbered 1, 3, 5, ... with
  the same session id.\<close>

theorem requests_in_step:
  assumes "tc_heard c = []" "tc_said c = []"
  shows "length (tc_heard (handle_conn snap c)) \<le> 127 \<and>
    (\<forall>i < length (tc_heard (handle_conn snap c)). unat (th_seq (tp_header (tc_heard (handle_conn snap c) ! i))) = 2 * i + 1) \<and>
    (\<forall>p \<in> set (tc_heard (handle_conn snap c)). \<forall>q \<in> set (tc_heard (handle_conn snap c)).
       th_session (tp_header p) = th_session (tp_header q))"
  using serve_inv [OF new_session_inv [OF assms], of snap 0] by (auto simp: handle_conn_def in_step_def)

section \<open>Witnesses\<close>

definition bob_config :: aaa_config where
  "bob_config = add_user ''bob'' ''secret'' [] [] 15 default_config"

definition bob_start :: authen_start where
  "bob_start = \<lparr> as_action = 1, as_priv = 1, as_type = 1, as_service = 1, as_user = ''bob'', as_port = ''tty0'',
     as_addr = ''10.0.0.1'', as_data = [] \<rparr>"

definition bob_password :: authen_continue where
  "bob_password = \<lparr> ac_msg = ''secret'', ac_data = [], ac_flags = 0 \<rparr>"

definition bob_conn :: "bytes \<Rightarrow> tacacs_conn" where
  "bob_conn bs = \<lparr> tc_in = bs, tc_out = [], tc_room = None, tc_fault = ''reset'', tc_remote = ''10.0.0.1:1234'',
     tc_ring = new_ring 100, tc_heard = [], tc_said = [] \<rparr>"

lemma bob_key: "tacacs_key bob_config = (to_bytes ''labsecret'', True)"
  by (simp add: tacacs_key_def bob_config_def add_user_def default_config_def Let_def)

lemma bob_bodies: "\<exists>b. encode_authen_start bob_start = Inr b \<and> length b \<le> 65535"
  "\<exists>b. encode_authen_continue bob_password = Inr b \<and> length b \<le> 65535"
  by (simp_all add: encode_authen_start_def bob_start_def byte_lengths_def valid_action_def valid_authen_type_def
      encode_authen_continue_def bob_password_def)

lemma bob_verdict: "ar_status (verdict bob_config ''bob'' ''secret'') = authen_pass"
  by (simp add: verdict_def bob_config_def add_user_def default_config_def Let_def)

definition bob_sends :: "bytes \<Rightarrow> bytes \<Rightarrow> bool" where
  "bob_sends d1 d2 \<longleftrightarrow> (\<exists>b1 b2. encode_authen_start bob_start = Inr b1 \<and> encode_authen_continue bob_password = Inr b2 \<and>
     encode_tacacs_packet (login_header 7 1) b1 (to_bytes ''labsecret'') = Inr d1 \<and>
     encode_tacacs_packet (login_header 7 3) b2 (to_bytes ''labsecret'') = Inr d2)"

lemma bob_can_send: "\<exists>d1 d2. bob_sends d1 d2"
  using bob_bodies login_header_reply [of 1 _ 7 "to_bytes ''labsecret''"] login_header_reply [of 3 _ 7 "to_bytes ''labsecret''"]
  unfolding bob_sends_def by fastforce

lemma bob_logs_in:
  "bob_sends d1 d2 \<Longrightarrow> logged_in bob_config (to_bytes ''labsecret'') 7 ''bob'' ''secret'' (bob_conn (d1 @ d2))
     (handle_conn (\<lambda>_. bob_config) (bob_conn (d1 @ d2)))"
  unfolding bob_sends_def
  using login_dialogue [OF bob_key, of "bob_conn (d1 @ d2)" bob_start _ bob_password _ 7 d1 d2 "[]"]
  by (auto simp: bob_conn_def bob_start_def bob_password_def to_bytes_def)

theorem login_gets_verdict_witness:
  "\<exists>d1 d2 g v p2 p4. bob_sends d1 d2 \<and> encode_authen_reply get_pass = Inr g \<and>
     encode_tacacs_packet (login_header 7 2) g (to_bytes ''labsecret'') = Inr p2 \<and>
     encode_authen_reply (verdict bob_config ''bob'' ''secret'') = Inr v \<and>
     encode_tacacs_packet (login_header 7 4) v (to_bytes ''labsecret'') = Inr p4 \<and>
     tc_out (handle_conn (\<lambda>_. bob_config) (bob_conn (d1 @ d2))) = p2 @ p4"
proof -
  obtain d1 d2 where d: "bob_sends d1 d2" using bob_can_send by blast
  then obtain b1 b2 where b: "encode_authen_start bob_start = Inr b1" "encode_authen_continue bob_password = Inr b2"
    "encode_tacacs_packet (login_header 7 1) b1 (to_bytes ''labsecret'') = Inr d1"
    "encode_tacacs_packet (login_header 7 3) b2 (to_bytes ''labsecret'') = Inr d2" unfolding bob_sends_def by blast
  have n: "to_bytes ''labsecret'' \<noteq> []" by (simp add: to_bytes_def)
  have s: "as_action bob_start = 1" "as_type bob_start = 1" "as_user bob_start = ''bob''" "as_user bob_start \<noteq> []"
    "ac_msg bob_password = ''secret''" "ac_flags bob_password = 0" "tc_room (bob_conn (d1 @ d2)) = None"
    "tc_in (bob_conn (d1 @ d2)) = d1 @ d2 @ []" "tc_out (bob_conn (d1 @ d2)) = []"
    by (simp_all add: bob_start_def bob_password_def bob_conn_def)
  show ?thesis
    using login_gets_verdict [OF bob_key n s(7) b(1) s(1,2,4) b(2) s(6) b(3,4) s(8)] d unfolding s(3,5,9) append_Nil by blast
qed

theorem pass_needs_password_witness:
  "\<exists>d1 d2. bob_sends d1 d2 \<and> (\<exists>u \<in> set (cf_users bob_config).
     \<exists>q \<in> set (tc_heard (handle_conn (\<lambda>_. bob_config) (bob_conn (d1 @ d2)))).
     \<exists>cont. decode_authen_continue (tp_body q) = Inr cont \<and> ac_msg cont = us_password u)"
proof -
  obtain d1 d2 where d: "bob_sends d1 d2" using bob_can_send by blast
  have new: "tc_heard (bob_conn (d1 @ d2)) = []" "tc_said (bob_conn (d1 @ d2)) = []" by (simp_all add: bob_conn_def)
  obtain g v h2 h where v: "encode_authen_reply (verdict bob_config ''bob'' ''secret'') = Inr v" and t: "th_type h = tacacs_authen"
    and "tc_said (handle_conn (\<lambda>_. bob_config) (bob_conn (d1 @ d2))) = tc_said (bob_conn (d1 @ d2)) @ [(h2, g), (h, v)]"
    using bob_logs_in [OF d] unfolding logged_in_def by blast
  then have m: "(h, v) \<in> set (tc_said (handle_conn (\<lambda>_. bob_config) (bob_conn (d1 @ d2))))" by simp
  have "decode_authen_reply v = Inr (verdict bob_config ''bob'' ''secret'')" using v by (simp add: decode_authen_reply_iff)
  from pass_needs_password [OF new m t this bob_verdict] d show ?thesis by blast
qed

theorem requests_in_step_witness:
  "\<exists>d1 d2. bob_sends d1 d2 \<and> length (tc_heard (handle_conn (\<lambda>_. bob_config) (bob_conn (d1 @ d2)))) \<le> 127"
proof -
  obtain d1 d2 where d: "bob_sends d1 d2" using bob_can_send by blast
  have new: "tc_heard (bob_conn (d1 @ d2)) = []" "tc_said (bob_conn (d1 @ d2)) = []" by (simp_all add: bob_conn_def)
  from requests_in_step [OF new] d show ?thesis by blast
qed

end
