(* ===== verification/Radius.thy ===== *)
theory Radius
  imports Tacacs
begin

text \<open>
  The RADIUS server of the aaa tool pack (radius.go): the packet and its attributes, the
  hidden password, the Message-Authenticator, and the answer to an access request.  An index
  or slice outside its bytes, a panic in Go, is the value None.
\<close>

section \<open>Packets\<close>

record radius_attribute =
  ra_type :: byte
  ra_value :: bytes

record radius_packet =
  rp_code :: byte
  rp_identifier :: byte
  rp_authenticator :: bytes
  rp_attributes :: "radius_attribute list"

function parse_attributes :: "bytes \<Rightarrow> nat \<Rightarrow> nat \<Rightarrow> (string, radius_attribute list) result option" where
  "parse_attributes d len offset =
     (if offset < len then
        if offset + 2 > len then Some (Inl ''truncated attribute header'')
        else case at d (offset + 1) of
               None \<Rightarrow> None
             | Some al \<Rightarrow>
                 if unat al < 2 \<or> offset + unat al > len then Some (Inl ''invalid attribute length'')
                 else case (at d offset, slice d (offset + 2) (offset + unat al)) of
                        (Some t, Some v) \<Rightarrow>
                          map_option (map_sum id (\<lambda>as. \<lparr> ra_type = t, ra_value = v \<rparr> # as))
                            (parse_attributes d len (offset + unat al))
                      | _ \<Rightarrow> None
      else Some (Inr []))"
  by pat_completeness auto
termination
  by (relation "measure (\<lambda>(_, len, offset). len - offset)") auto

declare parse_attributes.simps [simp del]

definition parse_radius_packet :: "bytes \<Rightarrow> (string, radius_packet) result option" where
  "parse_radius_packet d =
     (if length d < 20 then Some (Inl ''packet shorter than RADIUS header'')
      else let len = unat (be16 (d ! 2) (d ! 3))
        in if len < 20 \<or> len > length d then Some (Inl ''invalid packet length'')
           else map_option (map_sum id (\<lambda>as. \<lparr> rp_code = d ! 0, rp_identifier = d ! 1,
               rp_authenticator = take 16 (drop 4 d), rp_attributes = as \<rparr>)) (parse_attributes d len 20))"

abbreviation (input) attr_user_name :: byte where "attr_user_name \<equiv> 1"
abbreviation (input) attr_user_password :: byte where "attr_user_password \<equiv> 2"
abbreviation (input) attr_message_auth :: byte where "attr_message_auth \<equiv> 80"

definition attribute :: "radius_attribute list \<Rightarrow> byte \<Rightarrow> radius_attribute option" where
  "attribute as t = find (\<lambda>a. ra_type a = t) as"

definition attribute_value :: "radius_attribute list \<Rightarrow> byte \<Rightarrow> bytes" where
  "attribute_value as t = (case attribute as t of None \<Rightarrow> [] | Some a \<Rightarrow> ra_value a)"

definition encode_attributes :: "radius_attribute list \<Rightarrow> bytes" where
  "encode_attributes as = concat (map (\<lambda>a. if length (ra_value a) > 253 then []
     else [ra_type a, of_nat (length (ra_value a) + 2)] @ ra_value a) as)"

section \<open>Passwords\<close>

function decode_blocks :: "bytes \<Rightarrow> bytes \<Rightarrow> bytes \<Rightarrow> bytes" where
  "decode_blocks secret previous cipher =
     (if cipher = [] then []
      else xor_bytes (take 16 cipher) (md5 (secret @ previous)) @ decode_blocks secret (take 16 cipher) (drop 16 cipher))"
  by pat_completeness auto
termination
  by (relation "measure (\<lambda>(_, _, cipher). length cipher)") auto

function encode_blocks :: "bytes \<Rightarrow> bytes \<Rightarrow> bytes \<Rightarrow> bytes" where
  "encode_blocks secret previous padded =
     (if padded = [] then []
      else let block = xor_bytes (take 16 padded) (md5 (secret @ previous))
        in block @ encode_blocks secret block (drop 16 padded))"
  by pat_completeness auto
termination
  by (relation "measure (\<lambda>(_, _, padded). length padded)") auto

declare decode_blocks.simps [simp del] encode_blocks.simps [simp del]

definition trim_zero_padding :: "bytes \<Rightarrow> bytes" where
  "trim_zero_padding v = rev (dropWhile ((=) 0) (rev v))"

definition decode_user_password :: "bytes \<Rightarrow> bytes \<Rightarrow> bytes \<Rightarrow> (string, string) result" where
  "decode_user_password cipher authenticator secret =
     (if length cipher = 0 \<or> length cipher mod 16 \<noteq> 0 then Inl ''password attribute is not a multiple of 16 bytes''
      else if length cipher > 128 then Inl ''password is longer than 128 bytes''
      else Inr (of_bytes (trim_zero_padding (decode_blocks secret authenticator cipher))))"

definition encode_user_password :: "string \<Rightarrow> bytes \<Rightarrow> bytes \<Rightarrow> bytes" where
  "encode_user_password password authenticator secret =
     (let plain = to_bytes password;
          len = (length plain div 16 + 1) * 16
      in encode_blocks secret authenticator (plain @ replicate (len - length plain) 0))"

section \<open>The Message-Authenticator\<close>

text \<open>The loop over a copy of the packet: the zeroed copy and the digest found, or None when the
  attributes are not well formed.\<close>

function scan_message_auth :: "bytes \<Rightarrow> nat \<Rightarrow> nat \<Rightarrow> bytes \<Rightarrow> (bytes \<times> bytes) option option" where
  "scan_message_auth copy len offset expected =
     (if offset < len then
        case at copy (offset + 1) of
          None \<Rightarrow> None
        | Some al \<Rightarrow>
            if unat al < 2 \<or> offset + unat al > len then Some None
            else case at copy offset of
                   None \<Rightarrow> None
                 | Some t \<Rightarrow>
                     if t = attr_message_auth
                     then if unat al \<noteq> 18 then Some None
                          else case slice copy (offset + 2) (offset + 18) of
                                 None \<Rightarrow> None
                               | Some e \<Rightarrow> scan_message_auth (put_at (offset + 2) (replicate 16 0) copy) len (offset + unat al) e
                     else scan_message_auth copy len (offset + unat al) expected
      else Some (Some (copy, expected)))"
  by pat_completeness auto
termination
  by (relation "measure (\<lambda>(_, len, offset, _). len - offset)") auto

declare scan_message_auth.simps [simp del]

definition verify_message_authenticator :: "bytes \<Rightarrow> bytes \<Rightarrow> bool option" where
  "verify_message_authenticator packet secret =
     (if length packet < 20 then Some False
      else let len = unat (be16 (packet ! 2) (packet ! 3))
        in if len < 20 \<or> len > length packet then Some False
           else case scan_message_auth (take len packet) len 20 [] of
                  None \<Rightarrow> None
                | Some None \<Rightarrow> Some False
                | Some (Some (copy, expected)) \<Rightarrow>
                    Some (length expected = 16 \<and> expected = hmac_md5 secret copy))"

section \<open>Answers\<close>

definition service_type :: "string \<Rightarrow> 32 word" where
  "service_type service =
     (let s = to_lower (trim_space service)
      in if s = ''admin'' \<or> s = ''administrative'' then 6 else if s = ''nas-prompt'' then 7 else 1)"

definition accept_attributes :: "aaa_user \<Rightarrow> radius_attribute list" where
  "accept_attributes u =
     \<lparr> ra_type = 6, ra_value = put_be32 (service_type (us_service u)) \<rparr> #
     (if us_priv u > 0 then
        let v = to_bytes (''shell:priv-lvl='' @ itoa (us_priv u))
        in [\<lparr> ra_type = 26, ra_value = put_be32 9 @ [1, of_nat (2 + length v)] @ v \<rparr>]
      else [])"

text \<open>A nil slice of attributes stands for the ones of a rejection.\<close>

definition response_for :: "radius_packet \<Rightarrow> byte \<Rightarrow> radius_attribute list option \<Rightarrow> bytes \<Rightarrow> bytes" where
  "response_for req code attrs secret =
     (let as = (case attrs of None \<Rightarrow> [\<lparr> ra_type = 18, ra_value = to_bytes ''Access-Reject'' \<rparr>] | Some as \<Rightarrow> as);
          body = encode_attributes as;
          head = [code, rp_identifier req] @ put_be16 (of_nat (20 + length body))
      in head @ md5 (head @ rp_authenticator req @ body @ secret) @ body)"

definition rejected :: "string \<Rightarrow> string \<Rightarrow> attempt" where
  "rejected user message = \<lparr> at_remote = [], at_user = user, at_result = ''reject'', at_message = message \<rparr>"

definition evaluate_access_request :: "bytes \<Rightarrow> aaa_config \<Rightarrow> (bytes \<times> attempt) option" where
  "evaluate_access_request d cfg =
     (case parse_radius_packet d of
        None \<Rightarrow> None
      | Some (Inl e) \<Rightarrow> Some ([], rejected [] (''malformed packet: '' @ e))
      | Some (Inr p) \<Rightarrow>
          let user = of_bytes (attribute_value (rp_attributes p) attr_user_name);
              secret = to_bytes (cf_secret cfg);
              no = (\<lambda>message. Some (response_for p 3 None secret, rejected user message))
          in if rp_code p \<noteq> 1 then Some ([], rejected user ''unsupported RADIUS code'')
             else if length secret = 0 then no ''shared secret is not configured''
             else case (case attribute (rp_attributes p) attr_message_auth of
                          None \<Rightarrow> Some True
                        | Some a \<Rightarrow> if length (ra_value a) \<noteq> 16 then Some False else verify_message_authenticator d secret) of
                    None \<Rightarrow> None
                  | Some False \<Rightarrow> no ''invalid Message-Authenticator''
                  | Some True \<Rightarrow>
                      case decode_user_password (attribute_value (rp_attributes p) attr_user_password) (rp_authenticator p) secret of
                        Inl e \<Rightarrow> no (''invalid User-Password: '' @ e)
                      | Inr password \<Rightarrow>
                          case find_user (cf_users cfg) user password of
                            None \<Rightarrow> no ''Access-Reject: invalid credentials''
                          | Some u \<Rightarrow> Some (response_for p 2 (Some (accept_attributes u)) secret,
                              \<lparr> at_remote = [], at_user = user, at_result = ''accept'', at_message = ''Access-Accept'' \<rparr>))"

definition radius_handle_packet :: "bytes \<Rightarrow> string \<Rightarrow> aaa_config \<Rightarrow> attempt_ring \<Rightarrow> (bytes \<times> attempt_ring) option" where
  "radius_handle_packet d remote cfg ring =
     map_option (\<lambda>(response, a). (response, ring_add (a \<lparr> at_remote := remote \<rparr>) ring)) (evaluate_access_request d cfg)"

definition build_access_request :: "byte \<Rightarrow> bytes \<Rightarrow> bytes \<Rightarrow> string \<Rightarrow> string \<Rightarrow> string \<Rightarrow> bytes" where
  "build_access_request ident authenticator0 random username password secret =
     (let authenticator = (if authenticator0 = replicate 16 0 then random else authenticator0);
          attrs = encode_attributes [\<lparr> ra_type = attr_user_name, ra_value = to_bytes username \<rparr>,
            \<lparr> ra_type = attr_user_password, ra_value = encode_user_password password authenticator (to_bytes secret) \<rparr>]
      in [1, ident] @ put_be16 (of_nat (20 + length attrs)) @ authenticator @ attrs)"

section \<open>The hidden password\<close>

lemma length_encode_blocks: "16 dvd length padded \<Longrightarrow> length (encode_blocks secret previous padded) = length padded"
proof (induction secret previous padded rule: encode_blocks.induct)
  case (1 secret previous padded)
  show ?case
  proof (cases "padded = []")
    case False
    then have "16 \<le> length padded" using "1.prems" by (simp add: dvd_imp_le)
    then show ?thesis using "1.IH" [OF False refl] "1.prems" False
      by (subst encode_blocks.simps) (simp add: Let_def dvd_minus_self)
  qed (simp add: encode_blocks.simps)
qed

lemma decode_encode_blocks:
  "16 dvd length padded \<Longrightarrow> decode_blocks secret previous (encode_blocks secret previous padded) = padded"
proof (induction secret previous padded rule: encode_blocks.induct)
  case (1 secret previous padded)
  show ?case
  proof (cases "padded = []")
    case False
    define block where "block = xor_bytes (take 16 padded) (md5 (secret @ previous))"
    have "16 \<le> length padded" using "1.prems" False by (simp add: dvd_imp_le)
    then have l: "length block = 16" and d: "16 dvd length (drop 16 padded)"
      using "1.prems" by (simp_all add: block_def dvd_minus_self)
    have e: "encode_blocks secret previous padded = block @ encode_blocks secret block (drop 16 padded)"
      using False by (subst encode_blocks.simps) (simp add: Let_def block_def)
    have "block \<noteq> []" using l by auto
    then have "decode_blocks secret previous (encode_blocks secret previous padded) =
        xor_bytes block (md5 (secret @ previous)) @ decode_blocks secret block (encode_blocks secret block (drop 16 padded))"
      unfolding e by (subst decode_blocks.simps) (simp add: l)
    also have "\<dots> = take 16 padded @ drop 16 padded"
      using "1.IH" [OF False refl] d \<open>16 \<le> length padded\<close> by (simp add: block_def xor_bytes_twice)
    finally show ?thesis by simp
  qed (simp add: encode_blocks.simps decode_blocks.simps)
qed

lemma trim_padded: "v = [] \<or> last v \<noteq> 0 \<Longrightarrow> trim_zero_padding (v @ replicate n 0) = v"
proof -
  assume v: "v = [] \<or> last v \<noteq> 0"
  have "dropWhile ((=) 0) (replicate n (0 :: byte) @ rev v) = rev v"
    using v by (induction n) (cases v rule: rev_cases; simp)+
  then show ?thesis by (simp add: trim_zero_padding_def)
qed

lemma padded_blocks: "length v + ((length v div 16 + 1) * 16 - length v) = (length v div 16 + 1) * 16"
proof -
  have "length v < (length v div 16 + 1) * 16" by presburger
  then show ?thesis by simp
qed

lemma password_roundtrip:
  assumes "length pw \<le> 127" and "pw = [] \<or> last pw \<noteq> char_of (0 :: nat)"
  shows "decode_user_password (encode_user_password pw authenticator secret) authenticator secret = Inr pw"
    and "length (encode_user_password pw authenticator secret) \<le> 128"
proof -
  define len where "len = (length pw div 16 + 1) * 16"
  define padded where "padded = to_bytes pw @ replicate (len - length pw) 0"
  have l: "length padded = len" using padded_blocks [of pw] by (simp add: padded_def len_def)
  then have dv: "16 dvd length padded" by (simp add: len_def)
  have e: "encode_user_password pw authenticator secret = encode_blocks secret authenticator padded"
    by (simp add: encode_user_password_def Let_def padded_def len_def)
  have el: "length (encode_blocks secret authenticator padded) = len" using length_encode_blocks [OF dv] l by simp
  have small: "0 < len" "len \<le> 128" "len mod 16 = 0" using assms(1) by (simp_all add: len_def)
  have "to_bytes pw = [] \<or> last (to_bytes pw) \<noteq> 0"
  proof (cases "pw = []")
    case False
    then have "last (to_bytes pw) = of_nat (of_char (last pw))" by (simp add: to_bytes_def last_map)
    moreover have "last pw = char_of (0 :: nat)" if "(of_nat (of_char (last pw)) :: byte) = 0"
      using of_to_bytes [of "[last pw]"] that by (simp add: to_bytes_def of_bytes_def)
    ultimately show ?thesis using assms(2) False by auto
  qed (simp add: to_bytes_def)
  then have "trim_zero_padding padded = to_bytes pw" by (simp add: padded_def trim_padded)
  then show "decode_user_password (encode_user_password pw authenticator secret) authenticator secret = Inr pw"
    using el small dv by (simp add: e decode_user_password_def decode_encode_blocks)
  show "length (encode_user_password pw authenticator secret) \<le> 128" using el small e by simp
qed

section \<open>No panic\<close>

lemma map_sum_elim: "map_sum id f s = Inr x \<Longrightarrow> (\<And>y. s = Inr y \<Longrightarrow> x = f y \<Longrightarrow> thesis) \<Longrightarrow> thesis"
  by (cases s) auto

definition attribute_fits :: "bytes \<Rightarrow> nat \<Rightarrow> nat \<Rightarrow> bool" where
  "attribute_fits d len offset \<longleftrightarrow> offset + 2 \<le> len \<and> 2 \<le> unat (d ! (offset + 1)) \<and> offset + unat (d ! (offset + 1)) \<le> len"

lemma parse_attributes_step:
  assumes "attribute_fits d len offset" and "len \<le> length d"
  shows "parse_attributes d len offset =
    map_option (map_sum id (\<lambda>as. \<lparr> ra_type = d ! offset,
        ra_value = take (unat (d ! (offset + 1)) - 2) (drop (offset + 2) d) \<rparr> # as))
      (parse_attributes d len (offset + unat (d ! (offset + 1))))"
  using assms by (subst parse_attributes.simps) (simp add: attribute_fits_def)

lemma parse_attributes_misfit:
  assumes "offset < len" and "\<not> attribute_fits d len offset" and "len \<le> length d"
  shows "\<exists>e. parse_attributes d len offset = Some (Inl e)"
  using assms by (subst parse_attributes.simps) (auto simp: attribute_fits_def)

lemma parse_attributes_total: "len \<le> length d \<Longrightarrow> parse_attributes d len offset \<noteq> None"
proof (induction "len - offset" arbitrary: offset rule: less_induct)
  case less
  show ?case
  proof (cases "offset < len")
    case True
    show ?thesis
    proof (cases "attribute_fits d len offset")
      case fits: True
      then have "len - (offset + unat (d ! (offset + 1))) < len - offset" unfolding attribute_fits_def by linarith
      then show ?thesis
        using less.hyps [of "offset + unat (d ! (offset + 1))"] less.prems parse_attributes_step [OF fits] by simp
    qed (use parse_attributes_misfit [OF True _ less.prems] in auto)
  qed (simp add: parse_attributes.simps)
qed

text \<open>Attributes that parse can be scanned: zeroing the value of one attribute does not touch the
  headers of the next ones.\<close>

lemma scan_total:
  assumes "parse_attributes d len offset = Some (Inr as)" and "len \<le> length d" and "length copy = len"
    and "\<And>i. offset \<le> i \<Longrightarrow> i < len \<Longrightarrow> copy ! i = d ! i"
  shows "scan_message_auth copy len offset expected \<noteq> None"
  using assms
proof (induction "len - offset" arbitrary: offset as copy expected rule: less_induct)
  case less
  show ?case
  proof (cases "offset < len")
    case False
    then show ?thesis by (subst scan_message_auth.simps) simp
  next
    case True
    then have fits: "attribute_fits d len offset" using parse_attributes_misfit [OF True] less.prems(1,2) by fastforce
    define al where "al = unat (d ! (offset + 1))"
    have al: "offset + 2 \<le> len" "2 \<le> al" "offset + al \<le> len" using fits by (simp_all add: attribute_fits_def al_def)
    obtain as' where as': "parse_attributes d len (offset + al) = Some (Inr as')"
      using less.prems(1,2) parse_attributes_step [OF fits] unfolding al_def
      by (cases "parse_attributes d len (offset + unat (d ! (offset + 1)))") (auto elim: map_sum_elim)
    have c: "unat (copy ! (offset + 1)) = al" using less.prems(4) [of "offset + 1"] al by (simp add: al_def)
    have rec: "scan_message_auth copy' len (offset + al) ex \<noteq> None"
      if "length copy' = len" "\<And>i. offset + al \<le> i \<Longrightarrow> i < len \<Longrightarrow> copy' ! i = d ! i" for copy' ex
      by (rule less.hyps [OF _ as' less.prems(2) that]) (use True al in auto)
    have zeroed: "put_at (offset + 2) (replicate 16 0) copy ! i = d ! i" if "al = 18" "offset + al \<le> i" "i < len" for i
      using that less.prems(3) less.prems(4) [of i] by (auto simp: put_at_def nth_append)
    have r1: "scan_message_auth copy len (offset + al) ex \<noteq> None" for ex
      by (rule rec) (use less.prems(3,4) in auto)
    have r2: "scan_message_auth (put_at (offset + 2) (replicate 16 0) copy) len (offset + al) ex \<noteq> None" if "al = 18" for ex
      by (rule rec) (use that zeroed al less.prems(3) in auto)
    show ?thesis
      using True al c less.prems(3) r1 r2 by (subst scan_message_auth.simps) (auto split: option.split)
  qed
qed

lemma verify_total:
  assumes "parse_radius_packet d = Some (Inr p)"
  shows "verify_message_authenticator d secret \<noteq> None"
proof -
  define len where "len = unat (be16 (d ! 2) (d ! 3))"
  have l: "20 \<le> length d" "20 \<le> len" "len \<le> length d"
    using assms by (auto simp: parse_radius_packet_def len_def Let_def split: if_splits)
  obtain as where "parse_attributes d len 20 = Some (Inr as)"
    using assms l by (cases "parse_attributes d len 20") (auto simp: parse_radius_packet_def len_def Let_def elim: map_sum_elim split: if_splits)
  then have "scan_message_auth (take len d) len 20 [] \<noteq> None"
    by (rule scan_total) (use l in auto)
  then show ?thesis using l by (auto simp: verify_message_authenticator_def len_def Let_def split: option.splits)
qed

lemma parse_total: "parse_radius_packet d \<noteq> None"
  using parse_attributes_total [of "unat (be16 (d ! 2) (d ! 3))" d 20] by (simp add: parse_radius_packet_def Let_def)

lemma evaluate_total: "evaluate_access_request d cfg \<noteq> None"
proof -
  consider e where "parse_radius_packet d = Some (Inl e)" | p where "parse_radius_packet d = Some (Inr p)"
    using parse_total [of d] by (cases "parse_radius_packet d") (auto, metis sum.exhaust)
  then show ?thesis
  proof cases
    case (2 p)
    then show ?thesis
      using verify_total [OF 2, of "to_bytes (cf_secret cfg)"]
      by (auto simp: evaluate_access_request_def Let_def split: option.splits bool.splits sum.splits)
  qed (simp add: evaluate_access_request_def)
qed

section \<open>A request of a client\<close>

lemma encode_attributes_Cons:
  "length (ra_value a) \<le> 253 \<Longrightarrow>
     encode_attributes (a # as) = [ra_type a, of_nat (length (ra_value a) + 2)] @ ra_value a @ encode_attributes as"
  by (simp add: encode_attributes_def)

lemma value_length [simp]: "length v \<le> 253 \<Longrightarrow> unat (of_nat (length v + 2) :: byte) = length v + 2"
  by (subst unat_of_nat) (simp add: take_bit_nat_eq_self)

lemma parse_encoded_attributes:
  "list_all (\<lambda>a. length (ra_value a) \<le> 253) as \<Longrightarrow>
     parse_attributes (pre @ encode_attributes as) (length pre + length (encode_attributes as)) (length pre) = Some (Inr as)"
proof (induction as arbitrary: pre)
  case Nil
  then show ?case by (simp add: encode_attributes_def parse_attributes.simps)
next
  case (Cons a as)
  define v where "v = ra_value a"
  define pre' where "pre' = pre @ [ra_type a, of_nat (length v + 2)] @ v"
  define d where "d = pre @ encode_attributes (a # as)"
  have v: "length v \<le> 253" using Cons.prems by (simp add: v_def)
  have d: "d = pre' @ encode_attributes as" using v by (simp add: d_def pre'_def encode_attributes_Cons v_def)
  have al: "unat (d ! (length pre + 1)) = length v + 2" using value_length [OF v] by (simp add: d pre'_def nth_append)
  have fits: "attribute_fits d (length d) (length pre)"
    unfolding attribute_fits_def al by (simp add: d pre'_def)
  have "parse_attributes d (length d) (length pre') = Some (Inr as)"
    using Cons.IH [of pre'] Cons.prems by (simp add: d)
  moreover have "length pre + unat (d ! (length pre + 1)) = length pre'" using al by (simp add: pre'_def)
  moreover have "d ! length pre = ra_type a" "take (length v) (drop (length pre + 2) d) = v"
    by (simp_all add: d pre'_def nth_append)
  ultimately have "parse_attributes d (length d) (length pre) = Some (Inr (\<lparr> ra_type = ra_type a, ra_value = v \<rparr> # as))"
    using parse_attributes_step [OF fits] al by simp
  moreover have "\<lparr> ra_type = ra_type a, ra_value = v \<rparr> = a" by (simp add: v_def)
  ultimately show ?case by (simp add: d_def)
qed

lemma parse_built:
  assumes "length authenticator = 16" and "list_all (\<lambda>a. length (ra_value a) \<le> 253) as"
    and "20 + length (encode_attributes as) < 65536"
  shows "parse_radius_packet ([code, ident] @ put_be16 (of_nat (20 + length (encode_attributes as))) @ authenticator
      @ encode_attributes as) =
    Some (Inr \<lparr> rp_code = code, rp_identifier = ident, rp_authenticator = authenticator, rp_attributes = as \<rparr>)"
proof -
  define n where "n = length (encode_attributes as)"
  define pre where "pre = [code, ident] @ put_be16 (of_nat (20 + n)) @ authenticator"
  have u: "unat (of_nat (20 + n) :: 16 word) = 20 + n"
    using assms(3) unfolding n_def by (subst unat_of_nat) (simp add: take_bit_nat_eq_self)
  have l: "length pre = 20" using assms(1) by (simp add: pre_def)
  have "parse_attributes (pre @ encode_attributes as) (20 + n) 20 = Some (Inr as)"
    using parse_encoded_attributes [OF assms(2), of pre] l by (simp add: n_def)
  moreover have "be16 ((pre @ encode_attributes as) ! 2) ((pre @ encode_attributes as) ! 3) = of_nat (20 + n)"
    by (simp add: pre_def put_be16_def)
  moreover have "(pre @ encode_attributes as) ! 0 = code" "(pre @ encode_attributes as) ! 1 = ident"
      "take 16 (drop 4 (pre @ encode_attributes as)) = authenticator"
    using assms(1) by (simp_all add: pre_def put_be16_def)
  ultimately have "parse_radius_packet (pre @ encode_attributes as) =
      Some (Inr \<lparr> rp_code = code, rp_identifier = ident, rp_authenticator = authenticator, rp_attributes = as \<rparr>)"
    using l u assms(1) by (simp add: parse_radius_packet_def Let_def n_def)
  then show ?thesis by (simp add: pre_def n_def)
qed

section \<open>Properties\<close>

text \<open>No datagram makes the RADIUS server panic: every index and slice of the parser, of the
  Message-Authenticator check and of the password decoder stays inside the packet.\<close>

theorem radius_never_panics: "radius_handle_packet d remote cfg ring \<noteq> None"
  using evaluate_total [of d cfg] by (simp add: radius_handle_packet_def)

text \<open>C15. An access request built by buildAccessRequest with the server's secret is answered with
  Access-Accept, under the request's identifier, if the configuration has a user with that name and
  password, and with Access-Reject otherwise; the attempt is recorded under the user's name.  This is
  for a secret that is not empty, an authenticator of 16 bytes that is not all zero, a name of at most
  253 bytes and a password of at most 127 bytes that does not end in a zero byte: a longer password is
  padded beyond the 128 bytes the server unmasks, and trailing zeros are taken for padding.\<close>

theorem radius_verdict:
  assumes "cf_secret cfg \<noteq> []" and "length authenticator = 16" and "authenticator \<noteq> replicate 16 0"
    and "length name \<le> 253" and "length pw \<le> 127" and "pw = [] \<or> last pw \<noteq> char_of (0 :: nat)"
  shows "\<exists>response a. evaluate_access_request (build_access_request ident authenticator random name pw (cf_secret cfg)) cfg =
      Some (response, a) \<and> response ! 1 = ident \<and> at_user a = name \<and>
      (if \<exists>u \<in> set (cf_users cfg). us_name u = name \<and> us_password u = pw
       then response ! 0 = 2 \<and> at_result a = ''accept'' else response ! 0 = 3 \<and> at_result a = ''reject'')"
proof -
  define secret where "secret = to_bytes (cf_secret cfg)"
  define hidden where "hidden = encode_user_password pw authenticator secret"
  define as where "as = [\<lparr> ra_type = attr_user_name, ra_value = to_bytes name \<rparr>, \<lparr> ra_type = attr_user_password, ra_value = hidden \<rparr>]"
  have h: "length hidden \<le> 128" "decode_user_password hidden authenticator secret = Inr pw"
    using password_roundtrip [OF assms(5,6)] by (simp_all add: hidden_def)
  have fit: "list_all (\<lambda>a. length (ra_value a) \<le> 253) as" using h(1) assms(4) by (simp add: as_def)
  have "length (encode_attributes as) = 4 + length name + length hidden"
    using h(1) assms(4) by (simp add: as_def encode_attributes_def)
  then have small: "20 + length (encode_attributes as) < 65536" using h(1) assms(4) by simp
  have built: "build_access_request ident authenticator random name pw (cf_secret cfg) =
      [1, ident] @ put_be16 (of_nat (20 + length (encode_attributes as))) @ authenticator @ encode_attributes as"
    using assms(3) by (simp add: build_access_request_def as_def hidden_def secret_def Let_def)
  have p: "parse_radius_packet (build_access_request ident authenticator random name pw (cf_secret cfg)) =
      Some (Inr \<lparr> rp_code = 1, rp_identifier = ident, rp_authenticator = authenticator, rp_attributes = as \<rparr>)"
    unfolding built by (rule parse_built [OF assms(2) fit small])
  have a: "attribute_value as attr_user_name = to_bytes name" "attribute_value as attr_user_password = hidden"
      "attribute as attr_message_auth = None"
    by (simp_all add: as_def attribute_value_def attribute_def)
  have s: "secret \<noteq> []" using assms(1) by (simp add: secret_def to_bytes_def)
  show ?thesis
    using p a s h(2) find_user_iff [of "cf_users cfg" name pw]
    by (cases "find_user (cf_users cfg) name pw")
      (simp_all add: evaluate_access_request_def secret_def [symmetric] rejected_def response_for_def Let_def)
qed

theorem radius_verdict_witness:
  "(\<exists>response a. evaluate_access_request (build_access_request 7 (replicate 16 1) [] ''bob'' ''secret'' ''labsecret'') bob_config =
      Some (response, a) \<and> response ! 0 = 2 \<and> at_result a = ''accept'') \<and>
   (\<exists>response a. evaluate_access_request (build_access_request 8 (replicate 16 1) [] ''bob'' ''guess'' ''labsecret'') bob_config =
      Some (response, a) \<and> response ! 0 = 3 \<and> at_result a = ''reject'')"
proof -
  have s: "cf_secret bob_config = ''labsecret''"
    by (simp add: bob_config_def add_user_def default_config_def Let_def)
  have u: "\<exists>u \<in> set (cf_users bob_config). us_name u = ''bob'' \<and> us_password u = ''secret''"
      "\<not> (\<exists>u \<in> set (cf_users bob_config). us_name u = ''bob'' \<and> us_password u = ''guess'')"
    by (simp_all add: bob_config_def add_user_def default_config_def Let_def)
  have z: "replicate 16 1 \<noteq> (replicate 16 0 :: bytes)" by (simp add: numeral_eq_Suc)
  have c: "CHR ''t'' \<noteq> char_of (0 :: nat)" "CHR ''s'' \<noteq> char_of (0 :: nat)" by code_simp+
  have "\<exists>response a. evaluate_access_request (build_access_request 7 (replicate 16 1) [] ''bob'' ''secret'' ''labsecret'') bob_config =
      Some (response, a) \<and> response ! 0 = 2 \<and> at_result a = ''accept''"
    using radius_verdict [of bob_config "replicate 16 1" "''bob''" "''secret''" 7 "[]"] u(1) z c unfolding s by auto
  moreover have "\<exists>response a. evaluate_access_request (build_access_request 8 (replicate 16 1) [] ''bob'' ''guess'' ''labsecret'') bob_config =
      Some (response, a) \<and> response ! 0 = 3 \<and> at_result a = ''reject''"
    using radius_verdict [of bob_config "replicate 16 1" "''bob''" "''guess''" 8 "[]"] u(2) z c unfolding s by auto
  ultimately show ?thesis by blast
qed

end
