(* ===== verification/Dhcp.thy ===== *)
theory Dhcp
  imports Allocators
begin

text \<open>
  The DHCP server of a NAT endpoint (extnet/dhcp.go, extnet/dhcp_linux.go): the codec, the
  leases, the reply policy and the frame around a reply.  A net.IP is its bytes, nil the
  empty list; a decoder that would index out of range gives None.
\<close>

section \<open>Addresses\<close>

type_synonym ip = bytes

definition v4_prefix :: bytes where
  "v4_prefix = replicate 10 0 @ [0xFF, 0xFF]"

definition to4 :: "ip \<Rightarrow> ip option" where
  "to4 ip = (if length ip = 4 then Some ip
     else if length ip = 16 \<and> take 12 ip = v4_prefix then Some (drop 12 ip) else None)"

definition ip_equal :: "ip \<Rightarrow> ip \<Rightarrow> bool" where
  "ip_equal a b =
     (if length a = length b then a = b
      else if length a = 4 \<and> length b = 16 then take 12 b = v4_prefix \<and> a = drop 12 b
      else if length a = 16 \<and> length b = 4 then take 12 a = v4_prefix \<and> drop 12 a = b
      else False)"

definition ipv4 :: "byte \<Rightarrow> byte \<Rightarrow> byte \<Rightarrow> byte \<Rightarrow> ip" where
  "ipv4 a b c d = v4_prefix @ [a, b, c, d]"

definition to4_or_zero :: "ip \<Rightarrow> ip" where
  "to4_or_zero ip = (case to4 ip of None \<Rightarrow> [0, 0, 0, 0] | Some v \<Rightarrow> v)"

definition ip_to_u32 :: "ip \<Rightarrow> 32 word" where
  "ip_to_u32 ip = (case to4 ip of None \<Rightarrow> 0 | Some v \<Rightarrow> be32 (v ! 0) (v ! 1) (v ! 2) (v ! 3))"

definition u32_to_ip :: "32 word \<Rightarrow> ip" where
  "u32_to_ip u = put_be32 u"

section \<open>The codec\<close>

definition dhcp_min_len :: nat where
  "dhcp_min_len = 240"

definition dhcp_magic :: "32 word" where
  "dhcp_magic = 0x63825363"

definition lease_seconds :: "32 word" where
  "lease_seconds = 3600"

definition dns_servers :: "ip list" where
  "dns_servers = [ipv4 1 1 1 1, ipv4 8 8 8 8]"

record packet =
  dp_op :: byte
  dp_xid :: "32 word"
  dp_flags :: "16 word"
  dp_ciaddr :: ip
  dp_yiaddr :: ip
  dp_giaddr :: ip
  dp_chaddr :: bytes
  dp_msg_type :: byte
  dp_req_ip :: ip

datatype dhcp_error = Too_Short nat | Bad_Magic

function parse_options :: "bytes \<Rightarrow> nat \<Rightarrow> byte \<Rightarrow> ip \<Rightarrow> (byte \<times> ip) option" where
  "parse_options opts i mt rq =
     (if i \<ge> length opts then Some (mt, rq)
      else case at opts i of
             None \<Rightarrow> None
           | Some code \<Rightarrow>
               if code = 255 then Some (mt, rq)
               else if code = 0 then parse_options opts (i + 1) mt rq
               else if i + 1 \<ge> length opts then Some (mt, rq)
               else case at opts (i + 1) of
                      None \<Rightarrow> None
                    | Some l \<Rightarrow>
                        let n = unat l
                        in if i + 2 + n > length opts then Some (mt, rq)
                           else case slice opts (i + 2) (i + 2 + n) of
                                  None \<Rightarrow> None
                                | Some val \<Rightarrow>
                                    parse_options opts (i + 2 + n)
                                      (if code = 53 \<and> n = 1 then val ! 0 else mt) (if code = 50 \<and> n = 4 then val else rq))"
  by pat_completeness auto
termination by (relation "measure (\<lambda>(opts, i, _, _). length opts - i)") auto

declare parse_options.simps [simp del]

definition decode_packet :: "bytes \<Rightarrow> (dhcp_error, packet) result option" where
  "decode_packet b =
     (if length b < dhcp_min_len then Some (Inl (Too_Short (length b)))
      else case be32_at b 236 of
             None \<Rightarrow> None
           | Some m \<Rightarrow>
               if m \<noteq> dhcp_magic then Some (Inl Bad_Magic)
               else (case (at b 0, be32_at b 4, be16_at b 10, slice b 12 16, slice b 16 20, slice b 24 28, slice b 28 34,
                           slice b 240 (length b)) of
                       (Some op, Some xid, Some flags, Some ci, Some yi, Some gi, Some ch, Some opts) \<Rightarrow>
                         map_option (\<lambda>(mt, rq). Inr \<lparr> dp_op = op, dp_xid = xid, dp_flags = flags, dp_ciaddr = ci, dp_yiaddr = yi,
                           dp_giaddr = gi, dp_chaddr = ch, dp_msg_type = mt, dp_req_ip = rq \<rparr>) (parse_options opts 0 0 [])
                     | _ \<Rightarrow> None))"

definition append_ip_opt :: "bytes \<Rightarrow> byte \<Rightarrow> ip \<Rightarrow> bytes" where
  "append_ip_opt opts code ip = opts @ [code, 4] @ to4_or_zero ip"

definition append_ips_opt :: "bytes \<Rightarrow> byte \<Rightarrow> ip list \<Rightarrow> bytes" where
  "append_ips_opt opts code ips = opts @ [code, of_nat (4 * length ips)] @ concat (map to4_or_zero ips)"

definition append_u32_opt :: "bytes \<Rightarrow> byte \<Rightarrow> 32 word \<Rightarrow> bytes" where
  "append_u32_opt opts code v = opts @ [code, 4] @ put_be32 v"

text \<open>copy into a four-byte slice.\<close>

definition copy4 :: "nat \<Rightarrow> ip option \<Rightarrow> bytes \<Rightarrow> bytes" where
  "copy4 i v buf = (case v of None \<Rightarrow> buf | Some bs \<Rightarrow> put_at i (take 4 bs) buf)"

definition encode_packet :: "packet \<Rightarrow> byte \<Rightarrow> ip \<Rightarrow> ip \<Rightarrow> bytes" where
  "encode_packet p msg_type server_ip mask4 =
     (let buf = put_at 0 [2, 1, 6, 0] (replicate dhcp_min_len 0);
          buf = put_at 4 (put_be32 (dp_xid p)) buf;
          buf = put_at 10 (put_be16 (dp_flags p)) buf;
          buf = copy4 16 (to4 (dp_yiaddr p)) buf;
          buf = copy4 20 (to4 server_ip) buf;
          buf = copy4 24 (to4 (dp_giaddr p)) buf;
          buf = (if length (dp_chaddr p) \<ge> 6 then put_at 28 (take 6 (dp_chaddr p)) buf else buf);
          buf = put_at 236 (put_be32 dhcp_magic) buf;
          opts = [53, 1, msg_type];
          opts = append_ip_opt opts 54 server_ip;
          opts = append_u32_opt opts 51 lease_seconds;
          opts = append_u32_opt opts 58 (lease_seconds div 2);
          opts = append_u32_opt opts 59 (lease_seconds * 7 div 8);
          opts = append_ip_opt opts 1 mask4;
          opts = append_ip_opt opts 3 server_ip;
          opts = append_ips_opt opts 6 dns_servers;
          opts = opts @ [255]
      in buf @ opts)"

section \<open>Policy and leases\<close>

definition dup4 :: "ip \<Rightarrow> ip" where
  "dup4 ip = to4_or_zero ip"

definition reply_shell :: "packet \<Rightarrow> ip \<Rightarrow> packet" where
  "reply_shell p yiaddr =
     \<lparr> dp_op = 0, dp_xid = dp_xid p, dp_flags = dp_flags p, dp_ciaddr = [], dp_yiaddr = dup4 yiaddr, dp_giaddr = dup4 (dp_giaddr p),
       dp_chaddr = dp_chaddr p, dp_msg_type = 0, dp_req_ip = [] \<rparr>"

definition handle_packet :: "packet \<Rightarrow> ip \<Rightarrow> (byte \<times> packet) option" where
  "handle_packet p offer =
     (if dp_msg_type p = 1 then Some (2, reply_shell p offer)
      else if dp_msg_type p = 3
      then (if dp_req_ip p \<noteq> [] \<and> \<not> ip_equal (dp_req_ip p) offer \<and> \<not> ip_equal (dp_ciaddr p) offer
            then Some (6, reply_shell p (ipv4 0 0 0 0)) else Some (5, reply_shell p offer))
      else None)"

text \<open>The binding of a client is filed under the printed form of its MAC.\<close>

definition hex2 :: "byte \<Rightarrow> string" where
  "hex2 b = [''0123456789abcdef'' ! (unat b div 16), ''0123456789abcdef'' ! (unat b mod 16)]"

fun mac_string :: "bytes \<Rightarrow> string" where
  "mac_string [] = []"
| "mac_string [b] = hex2 b"
| "mac_string (b # bs) = hex2 b @ CHR '':'' # mac_string bs"

record leaser =
  ls_next :: "32 word"
  ls_by_mac :: "string \<rightharpoonup> 32 word"
  ls_base :: "32 word"
  ls_end :: "32 word"

definition new_leaser :: "ip \<Rightarrow> ip \<Rightarrow> leaser" where
  "new_leaser start stop =
     \<lparr> ls_next = ip_to_u32 start, ls_by_mac = Map.empty, ls_base = ip_to_u32 start, ls_end = ip_to_u32 stop \<rparr>"

definition lease :: "bytes \<Rightarrow> leaser \<Rightarrow> ip \<times> leaser" where
  "lease mac l =
     (case ls_by_mac l (mac_string mac) of
        Some u \<Rightarrow> (u32_to_ip u, l)
      | None \<Rightarrow>
          let u = ls_next l
          in (u32_to_ip u, l \<lparr> ls_by_mac := (ls_by_mac l)(mac_string mac \<mapsto> u),
                ls_next := (if ls_end l \<le> u then ls_base l else u + 1) \<rparr>))"

section \<open>Frames\<close>

record dhcp_server =
  ds_ip :: ip
  ds_mask :: ip
  ds_leaser :: leaser
  ds_mac :: bytes

definition gateway_mac :: "ip \<Rightarrow> bytes" where
  "gateway_mac ip = [0x02, 0x00] @ take 4 (to4_or_zero ip)"

definition parse_dhcp :: "bytes \<Rightarrow> (packet \<times> bytes) option option" where
  "parse_dhcp frame =
     (if length frame < 14 + 20 + 8 then Some None
      else case be16_at frame 12 of None \<Rightarrow> None | Some et \<Rightarrow>
        if et \<noteq> 0x0800 then Some None
        else case (slice frame 6 12, slice frame 14 (length frame)) of
               (Some src, Some ip) \<Rightarrow>
                 (case at ip 0 of None \<Rightarrow> None | Some b0 \<Rightarrow>
                    let ihl = unat (b0 AND 0x0F) * 4
                    in if ihl < 20 \<or> length ip < ihl + 8 then Some None
                       else case at ip 9 of None \<Rightarrow> None | Some proto \<Rightarrow>
                         if proto \<noteq> 17 then Some None
                         else case slice ip ihl (length ip) of None \<Rightarrow> None | Some udp \<Rightarrow>
                           (case (be16_at udp 2, be16_at udp 4) of
                              (Some port, Some ulen) \<Rightarrow>
                                if port \<noteq> 67 then Some None
                                else if unat ulen < 8 \<or> length udp < unat ulen then Some None
                                else (case slice udp 8 (unat ulen) of None \<Rightarrow> None | Some b \<Rightarrow>
                                        (case decode_packet b of
                                           None \<Rightarrow> None
                                         | Some (Inl _) \<Rightarrow> Some None
                                         | Some (Inr p) \<Rightarrow> if dp_op p \<noteq> 1 then Some None else Some (Some (p, src))))
                            | _ \<Rightarrow> None))
             | _ \<Rightarrow> None)"

function fold_sum :: "nat \<Rightarrow> nat" where
  "fold_sum s = (if s < 65536 then s else fold_sum (s mod 65536 + s div 65536))"
  by pat_completeness auto
termination
proof (relation "measure id")
  fix s :: nat
  assume "\<not> s < 65536"
  moreover have "s = s div 65536 * 65536 + s mod 65536" by simp
  ultimately have "s mod 65536 + s div 65536 < s" by linarith
  then show "(s mod 65536 + s div 65536, s) \<in> measure id" by simp
qed simp

declare fold_sum.simps [simp del]

fun sum16 :: "bytes \<Rightarrow> nat" where
  "sum16 (a # b # bs) = unat (be16 a b) + sum16 bs"
| "sum16 _ = 0"

text \<open>The sum stays below 2 ^ 32 for a header of at most 65535 words.\<close>

definition ip_checksum :: "bytes \<Rightarrow> 16 word" where
  "ip_checksum hdr = NOT (of_nat (fold_sum (sum16 hdr)))"

definition build_frame :: "dhcp_server \<Rightarrow> bytes \<Rightarrow> ip \<Rightarrow> bytes \<Rightarrow> bool \<Rightarrow> bytes" where
  "build_frame d client_mac yiaddr payload broadcast =
     (let bcast = (broadcast \<or> to4 yiaddr = None \<or> to4 yiaddr = Some [0, 0, 0, 0]);
          dst_mac = (if bcast then replicate 6 0xFF else client_mac);
          dst_ip = (if bcast then replicate 4 0xFF else to4_or_zero yiaddr);
          eth = put_at 0 (take 6 dst_mac) (replicate 14 0);
          eth = put_at 6 (take 6 (ds_mac d)) eth;
          eth = put_at 12 (put_be16 0x0800) eth;
          ip = put_at 0 [0x45] (replicate 20 0);
          ip = put_at 2 (put_be16 (of_nat (20 + 8 + length payload))) ip;
          ip = put_at 8 [64, 17] ip;
          ip = copy4 12 (to4 (ds_ip d)) ip;
          ip = put_at 16 dst_ip ip;
          ip = put_at 10 (put_be16 (ip_checksum ip)) ip;
          udp = put_be16 67 @ put_be16 68 @ put_be16 (of_nat (8 + length payload)) @ [0, 0]
      in eth @ ip @ udp @ payload)"

text \<open>consume: the reply to send back, if any, and whether the frame was a DHCP request.\<close>

definition consume_frame :: "bytes \<Rightarrow> dhcp_server \<Rightarrow> (bytes option \<times> bool \<times> dhcp_server) option" where
  "consume_frame frame d =
     (case parse_dhcp frame of
        None \<Rightarrow> None
      | Some None \<Rightarrow> Some (None, False, d)
      | Some (Some (req, src)) \<Rightarrow>
          (case lease src (ds_leaser d) of
             (offer, l) \<Rightarrow>
               let d1 = d \<lparr> ds_leaser := l \<rparr>
               in case handle_packet req offer of
                    None \<Rightarrow> Some (None, True, d1)
                  | Some (reply_type, r) \<Rightarrow>
                      Some (Some (build_frame d src (dp_yiaddr r) (encode_packet r reply_type (ds_ip d) (ds_mask d))
                        (dp_flags req AND 0x8000 \<noteq> 0)), True, d1)))"

text \<open>The pool of subnet n runs from 172.31.n.100 to 172.31.n.199, the addresses ParseIP reads
  back from the strings of Subnet.\<close>

definition new_dhcp_server :: "ip \<Rightarrow> int \<Rightarrow> dhcp_server" where
  "new_dhcp_server gateway n =
     \<lparr> ds_ip = (case to4 gateway of None \<Rightarrow> [] | Some v \<Rightarrow> v), ds_mask = [255, 255, 255, 0],
       ds_leaser = new_leaser (ipv4 172 31 (of_int n) 100) (ipv4 172 31 (of_int n) 199), ds_mac = gateway_mac gateway \<rparr>"

section \<open>Lemmas\<close>

lemma parse_options_total: "parse_options opts i mt rq \<noteq> None"
proof (induction opts i mt rq rule: parse_options.induct)
  case (1 opts i mt rq)
  then show ?case by (subst parse_options.simps) (auto simp: Let_def at_def slice_def)
qed

lemma decode_packet_total: "decode_packet b \<noteq> None"
  using parse_options_total [of "drop 240 b" 0 0 "[]"]
  by (auto simp: decode_packet_def dhcp_min_len_def be32_at_def be16_at_def at_def slice_def)

lemma parse_dhcp_total: "parse_dhcp frame \<noteq> None"
  using decode_packet_total
  by (auto simp: parse_dhcp_def be16_at_def at_def slice_def Let_def decode_packet_total split: option.splits sum.splits)

lemma to4_length: "to4 ip = Some v \<Longrightarrow> length v = 4"
  by (auto simp: to4_def split: if_splits)

lemma to4_or_zero_length [simp]: "length (to4_or_zero ip) = 4"
  by (auto simp: to4_or_zero_def to4_length split: option.split)

lemma copy4_zero: "length a = i \<Longrightarrow> 4 \<le> n \<Longrightarrow> copy4 i (to4 ip) (a @ replicate n 0) = a @ to4_or_zero ip @ replicate (n - 4) 0"
proof (cases "to4 ip")
  case None
  assume "length a = i" "4 \<le> n"
  moreover obtain m where "n = 4 + m" using \<open>4 \<le> n\<close> le_Suc_ex by blast
  moreover have "replicate (4 + m) (0 :: byte) = [0, 0, 0, 0] @ replicate m 0" by (simp add: numeral_eq_Suc)
  ultimately show ?thesis using None by (simp add: copy4_def to4_or_zero_def)
next
  case (Some v)
  assume "length a = i" "4 \<le> n"
  then show ?thesis using Some to4_length [OF Some] by (simp add: copy4_def to4_or_zero_def put_at_def)
qed

lemma put_zero: "length a = i \<Longrightarrow> length bs \<le> n \<Longrightarrow> put_at i bs (a @ replicate n 0) = a @ bs @ replicate (n - length bs) 0"
  by (simp add: put_at_def)

definition header_bytes :: "packet \<Rightarrow> ip \<Rightarrow> bytes" where
  "header_bytes p srv = [2, 1, 6, 0] @ put_be32 (dp_xid p) @ [0, 0] @ put_be16 (dp_flags p) @ [0, 0, 0, 0] @ to4_or_zero (dp_yiaddr p) @
     to4_or_zero srv @ to4_or_zero (dp_giaddr p) @ take 6 (dp_chaddr p)"

definition option_bytes :: "byte \<Rightarrow> ip \<Rightarrow> ip \<Rightarrow> bytes" where
  "option_bytes t srv m4 = [53, 1, t] @ [54, 4] @ to4_or_zero srv @ [51, 4] @ put_be32 lease_seconds @ [58, 4] @ put_be32 (lease_seconds div 2) @
     [59, 4] @ put_be32 (lease_seconds * 7 div 8) @ [1, 4] @ to4_or_zero m4 @ [3, 4] @ to4_or_zero srv @
     [6, 8] @ concat (map to4_or_zero dns_servers) @ [255]"

lemma dhcp_encode_shape:
  assumes "6 \<le> length (dp_chaddr p)"
  shows "encode_packet p t srv m4 = header_bytes p srv @ replicate 202 0 @ put_be32 dhcp_magic @ option_bytes t srv m4"
proof -
  have 1: "put_at 0 [2, 1, 6, 0] (replicate dhcp_min_len 0) = [2, 1, 6, 0] @ replicate 236 (0 :: byte)"
    by (simp add: put_at_def dhcp_min_len_def)
  have 2: "put_at 4 (put_be32 (dp_xid p)) ([2, 1, 6, 0] @ replicate 236 0) = ([2, 1, 6, 0] @ put_be32 (dp_xid p)) @ replicate 232 0"
    by (subst put_zero) simp_all
  have z: "replicate (2 + n) (0 :: byte) = [0, 0] @ replicate n 0" for n by (simp add: numeral_eq_Suc)
  have 3: "put_at 10 (put_be16 (dp_flags p)) (([2, 1, 6, 0] @ put_be32 (dp_xid p)) @ replicate 232 0) =
     ([2, 1, 6, 0] @ put_be32 (dp_xid p) @ [0, 0] @ put_be16 (dp_flags p)) @ replicate 228 0"
    using z [of 230] put_zero [of "[2, 1, 6, 0] @ put_be32 (dp_xid p) @ [0, 0]" 10 "put_be16 (dp_flags p)" 230] by simp
  have z4: "replicate (4 + n) (0 :: byte) = [0, 0, 0, 0] @ replicate n 0" for n by (simp add: numeral_eq_Suc)
  let ?h = "[2, 1, 6, 0] @ put_be32 (dp_xid p) @ [0, 0] @ put_be16 (dp_flags p) @ [0, 0, 0, 0]"
  have 4: "copy4 16 (to4 (dp_yiaddr p)) (([2, 1, 6, 0] @ put_be32 (dp_xid p) @ [0, 0] @ put_be16 (dp_flags p)) @ replicate 228 0) =
      (?h @ to4_or_zero (dp_yiaddr p)) @ replicate 220 0"
    using z4 [of 224] copy4_zero [of ?h 16 224 "dp_yiaddr p"] by simp
  have 5: "copy4 20 (to4 srv) ((?h @ to4_or_zero (dp_yiaddr p)) @ replicate 220 0) =
      (?h @ to4_or_zero (dp_yiaddr p) @ to4_or_zero srv) @ replicate 216 0"
    using copy4_zero [of "?h @ to4_or_zero (dp_yiaddr p)" 20 220 srv] by simp
  have 6: "copy4 24 (to4 (dp_giaddr p)) ((?h @ to4_or_zero (dp_yiaddr p) @ to4_or_zero srv) @ replicate 216 0) =
      (?h @ to4_or_zero (dp_yiaddr p) @ to4_or_zero srv @ to4_or_zero (dp_giaddr p)) @ replicate 212 0"
    using copy4_zero [of "?h @ to4_or_zero (dp_yiaddr p) @ to4_or_zero srv" 24 216 "dp_giaddr p"] by simp
  have 7: "put_at 28 (take 6 (dp_chaddr p)) ((?h @ to4_or_zero (dp_yiaddr p) @ to4_or_zero srv @ to4_or_zero (dp_giaddr p)) @ replicate 212 0) =
      header_bytes p srv @ replicate 206 0"
    using assms by (subst put_zero) (simp_all add: header_bytes_def)
  have l: "length (header_bytes p srv) = 34" using assms by (simp add: header_bytes_def)
  have 8: "put_at 236 (put_be32 dhcp_magic) (header_bytes p srv @ replicate 206 0) = header_bytes p srv @ replicate 202 0 @ put_be32 dhcp_magic"
    by (simp add: put_at_def l)
  show ?thesis
    unfolding encode_packet_def Let_def 1 2 3 4 5 6 if_P [OF assms] 7 8
    by (simp add: option_bytes_def append_ip_opt_def append_ips_opt_def append_u32_opt_def dns_servers_def)
qed

lemma option_step:
  assumes "code \<noteq> 0" "code \<noteq> 255" and "length val = unat l"
  shows "parse_options (pre @ code # l # val @ rest) (length pre) mt rq =
    parse_options (pre @ code # l # val @ rest) (length (pre @ code # l # val))
      (if code = 53 \<and> unat l = 1 then val ! 0 else mt) (if code = 50 \<and> unat l = 4 then val else rq)"
proof -
  let ?o = "pre @ code # l # val @ rest"
  have "at ?o (length pre) = Some code" "at ?o (length pre + 1) = Some l"
    by (simp_all add: at_def nth_append)
  moreover have "slice ?o (length pre + 2) (length pre + 2 + unat l) = Some val"
    using assms(3) slice_append [of "pre @ [code, l]" "val @ rest" 0 "unat l"] by (simp add: slice_def)
  ultimately show ?thesis
    using assms by (subst parse_options.simps) (simp add: Let_def)
qed

text \<open>A list of options, and what the decoder makes of it.\<close>

definition tlv_bytes :: "(byte \<times> bytes) list \<Rightarrow> bytes" where
  "tlv_bytes tlvs = concat (map (\<lambda>(c, v). c # of_nat (length v) # v) tlvs)"

definition take_option :: "byte \<times> bytes \<Rightarrow> byte \<times> ip \<Rightarrow> byte \<times> ip" where
  "take_option = (\<lambda>(c, v) (mt, rq). (if c = 53 \<and> length v = 1 then v ! 0 else mt, if c = 50 \<and> length v = 4 then v else rq))"

lemma parse_tlvs:
  assumes "\<forall>(c, v) \<in> set tlvs. c \<noteq> 0 \<and> c \<noteq> 255 \<and> length v < 256"
  shows "parse_options (pre @ tlv_bytes tlvs @ 255 # rest) (length pre) mt rq = Some (fold take_option tlvs (mt, rq))"
  using assms
proof (induction tlvs arbitrary: pre mt rq)
  case Nil
  then show ?case by (subst parse_options.simps) (simp add: tlv_bytes_def at_def)
next
  case (Cons x tlvs)
  obtain c v where x: "x = (c, v)" by force
  have u: "unat (of_nat (length v) :: byte) = length v" using Cons.prems x by (simp add: unat_of_nat take_bit_nat_eq_self)
  have "parse_options (pre @ tlv_bytes (x # tlvs) @ 255 # rest) (length pre) mt rq =
      parse_options ((pre @ c # of_nat (length v) # v) @ tlv_bytes tlvs @ 255 # rest) (length (pre @ c # of_nat (length v) # v))
        (fst (take_option x (mt, rq))) (snd (take_option x (mt, rq)))"
    using Cons.prems x u option_step [of c v "of_nat (length v)" pre "tlv_bytes tlvs @ 255 # rest" mt rq]
    by (simp add: tlv_bytes_def take_option_def)
  also have "\<dots> = Some (fold take_option tlvs (take_option x (mt, rq)))"
    by (subst Cons.IH) (use Cons.prems in auto)
  finally show ?case by simp
qed

lemma parse_encoded: "parse_options (option_bytes t srv m4) 0 0 [] = Some (t, [])"
proof -
  let ?t = "[(53, [t]), (54, to4_or_zero srv), (51, put_be32 lease_seconds), (58, put_be32 (lease_seconds div 2)),
    (59, put_be32 (lease_seconds * 7 div 8)), (1, to4_or_zero m4), (3, to4_or_zero srv), (6, concat (map to4_or_zero dns_servers))]"
  have "option_bytes t srv m4 = [] @ tlv_bytes ?t @ 255 # []"
    by (simp add: option_bytes_def tlv_bytes_def dns_servers_def)
  then show ?thesis using parse_tlvs [of ?t "[]" "[]" 0 "[]"] by (simp add: dns_servers_def take_option_def)
qed

lemma decode_encode:
  assumes "length (dp_chaddr p) = 6"
  shows "decode_packet (encode_packet p t srv m4) = Some (Inr \<lparr> dp_op = 2, dp_xid = dp_xid p, dp_flags = dp_flags p,
     dp_ciaddr = [0, 0, 0, 0], dp_yiaddr = to4_or_zero (dp_yiaddr p), dp_giaddr = to4_or_zero (dp_giaddr p), dp_chaddr = dp_chaddr p,
     dp_msg_type = t, dp_req_ip = [] \<rparr>)"
proof -
  let ?b = "encode_packet p t srv m4" and ?x = "put_be32 (dp_xid p)" and ?f = "put_be16 (dp_flags p)"
  have e: "?b = header_bytes p srv @ replicate 202 0 @ put_be32 dhcp_magic @ option_bytes t srv m4"
    by (rule dhcp_encode_shape) (simp add: assms)
  have l: "length (header_bytes p srv) = 34" using assms by (simp add: header_bytes_def)
  have len: "240 \<le> length ?b" by (simp add: e l)
  have "be32_at ?b 236 = be32_at (put_be32 dhcp_magic @ option_bytes t srv m4) 0"
    using l by (simp add: e be32_at_def nth_append numeral_2_eq_2)
  then have m: "be32_at ?b 236 = Some dhcp_magic" by (simp add: be32_at_def put_be32_def)
  have x: "be32_at ?b 4 = Some (dp_xid p)"
    using len by (simp add: e header_bytes_def put_be32_def be32_at_def)
  have f: "be16_at ?b 10 = Some (dp_flags p)"
    using len by (simp add: e header_bytes_def put_be32_def put_be16_def be16_at_def)
  have o: "at ?b 0 = Some 2" using len by (simp add: e header_bytes_def)
  have sl: "slice ?b 12 16 = Some [0, 0, 0, 0]" "slice ?b 16 20 = Some (to4_or_zero (dp_yiaddr p))"
    "slice ?b 24 28 = Some (to4_or_zero (dp_giaddr p))" "slice ?b 28 34 = Some (dp_chaddr p)"
    "slice ?b 240 (length ?b) = Some (option_bytes t srv m4)"
    using len l assms by (simp_all add: slice_def e) (simp_all add: header_bytes_def put_be16_def put_be32_def)
  show ?thesis using len by (simp add: decode_packet_def dhcp_min_len_def m x f o sl parse_encoded)
qed

section \<open>Leases\<close>

lemma hex2_inject: "hex2 a = hex2 b \<longleftrightarrow> a = b"
proof
  assume h: "hex2 a = hex2 b"
  have d: "distinct ''0123456789abcdef''" by simp
  have l: "unat c div 16 < length ''0123456789abcdef''" "unat c mod 16 < length ''0123456789abcdef''" for c :: byte
    using unsigned_less [of c, where ?'a = nat] by simp_all
  have "unat a div 16 = unat b div 16" "unat a mod 16 = unat b mod 16"
    using h nth_eq_iff_index_eq [OF d l(1) l(1), of a b] nth_eq_iff_index_eq [OF d l(2) l(2), of a b]
    by (auto simp: hex2_def)
  then have "unat a = unat b" by (metis div_mult_mod_eq)
  then show "a = b" by (simp add: word_unat_eq_iff)
qed simp

lemma mac_string_inject: "mac_string a = mac_string b \<longleftrightarrow> a = b"
proof (induction a arbitrary: b rule: mac_string.induct)
  case 1
  show ?case by (cases b rule: mac_string.cases) (simp_all add: hex2_def)
next
  case (2 x)
  show ?case using hex2_inject [of x] by (cases b rule: mac_string.cases) (auto simp: hex2_def)
next
  case (3 x y zs)
  show ?case
  proof (cases b rule: mac_string.cases)
    case 1
    then show ?thesis by (simp add: hex2_def)
  next
    case (2 u)
    then show ?thesis by (simp add: hex2_def)
  next
    case (3 u v ws)
    then show ?thesis using "3.IH" [of "v # ws"] hex2_inject [of x u] by (auto simp: hex2_def)
  qed
qed

definition pool_size :: "leaser \<Rightarrow> nat" where
  "pool_size l = Suc (unat (ls_end l) - unat (ls_base l))"

text \<open>Addresses stay in the pool; until the pool has been handed out once they are consecutive.\<close>

definition lease_ok :: "leaser \<Rightarrow> bool" where
  "lease_ok l \<longleftrightarrow> ls_base l \<le> ls_next l \<and> ls_next l \<le> ls_end l \<and> finite (dom (ls_by_mac l)) \<and>
     (\<forall>u \<in> ran (ls_by_mac l). ls_base l \<le> u \<and> u \<le> ls_end l) \<and>
     (card (dom (ls_by_mac l)) < pool_size l \<longrightarrow>
        unat (ls_next l) = unat (ls_base l) + card (dom (ls_by_mac l)) \<and> (\<forall>u \<in> ran (ls_by_mac l). u < ls_next l)) \<and>
     (card (dom (ls_by_mac l)) \<le> pool_size l \<longrightarrow> inj_on (ls_by_mac l) (dom (ls_by_mac l)))"

lemma lease_bound: "ls_by_mac l (mac_string mac) = Some u \<Longrightarrow> lease mac l = (u32_to_ip u, l)"
  by (simp add: lease_def)

lemma lease_frame:
  "ls_base (snd (lease mac l)) = ls_base l" "ls_end (snd (lease mac l)) = ls_end l" "pool_size (snd (lease mac l)) = pool_size l"
  by (simp_all add: lease_def Let_def pool_size_def split: option.split)

lemma lease_binds: "\<exists>u. ls_by_mac (snd (lease mac l)) (mac_string mac) = Some u \<and> fst (lease mac l) = u32_to_ip u"
  by (auto simp: lease_def Let_def split: option.split)

lemma lease_keeps: "ls_by_mac l k = Some u \<Longrightarrow> ls_by_mac (snd (lease mac l)) k = Some u"
  by (auto simp: lease_def Let_def split: option.split)

lemma lease_dom: "dom (ls_by_mac (snd (lease mac l))) = insert (mac_string mac) (dom (ls_by_mac l))"
  by (auto simp: lease_def Let_def split: option.splits)

lemma lease_keeps_ok: "lease_ok l \<Longrightarrow> lease_ok (snd (lease mac l))"
proof (cases "ls_by_mac l (mac_string mac)")
  case (Some u)
  then show "lease_ok l \<Longrightarrow> ?thesis" by (simp add: lease_bound)
next
  case None
  assume ok: "lease_ok l"
  let ?u = "ls_next l" and ?k = "mac_string mac" and ?n = "card (dom (ls_by_mac l))"
  let ?nx = "if ls_end l \<le> ?u then ls_base l else ?u + 1"
  have l: "snd (lease mac l) = l \<lparr> ls_by_mac := (ls_by_mac l)(?k \<mapsto> ?u), ls_next := ?nx \<rparr>"
    using None by (simp add: lease_def Let_def)
  have b: "ls_base l \<le> ?u" "?u \<le> ls_end l" and fin: "finite (dom (ls_by_mac l))"
    and rg: "\<forall>u \<in> ran (ls_by_mac l). ls_base l \<le> u \<and> u \<le> ls_end l"
    using ok by (simp_all add: lease_ok_def)
  have k: "?k \<notin> dom (ls_by_mac l)" using None by auto
  have r: "ran ((ls_by_mac l)(?k \<mapsto> ?u)) = insert ?u (ran (ls_by_mac l))" using None by simp
  have ps: "pool_size (l \<lparr> ls_by_mac := m, ls_next := x \<rparr>) = pool_size l" for m x by (simp add: pool_size_def)
  have step: "unat (?u + 1) = Suc (unat ?u)" if "\<not> ls_end l \<le> ?u"
  proof -
    have "unat ?u < unat (ls_end l)" using that by (simp add: word_le_nat_alt)
    then have "unat ?u + 1 < 2 ^ 32" using unsigned_less [of "ls_end l", where ?'a = nat] by simp
    then show ?thesis by (simp add: unat_word_ariths)
  qed
  have 1: "ls_base l \<le> ?nx" "?nx \<le> ls_end l"
    using b step by (auto simp: word_le_nat_alt not_le)
  have 2: "unat ?nx = unat (ls_base l) + Suc ?n \<and> (\<forall>u \<in> insert ?u (ran (ls_by_mac l)). u < ?nx)" if c: "Suc ?n < pool_size l"
  proof -
    have u: "unat ?u = unat (ls_base l) + ?n" and old: "\<forall>u \<in> ran (ls_by_mac l). u < ?u"
      using ok that by (simp_all add: lease_ok_def)
    have e: "\<not> ls_end l \<le> ?u" using u c by (simp add: pool_size_def word_le_nat_alt)
    then have n: "unat ?nx = Suc (unat ?u)" using step by simp
    then show ?thesis using u old by (auto simp: word_less_nat_alt)
  qed
  have 3: "inj_on ((ls_by_mac l)(?k \<mapsto> ?u)) (insert ?k (dom (ls_by_mac l)))" if c: "Suc ?n \<le> pool_size l"
  proof -
    have old: "\<forall>u \<in> ran (ls_by_mac l). u < ?u" and i: "inj_on (ls_by_mac l) (dom (ls_by_mac l))"
      using ok c by (simp_all add: lease_ok_def)
    have "?u \<notin> ran (ls_by_mac l)" using old by auto
    then have "Some ?u \<notin> ls_by_mac l ` dom (ls_by_mac l)" by (auto simp: ran_def)
    moreover have "((ls_by_mac l)(?k \<mapsto> ?u)) ` dom (ls_by_mac l) = ls_by_mac l ` dom (ls_by_mac l)"
      using k by (intro image_cong) auto
    moreover have "inj_on ((ls_by_mac l)(?k \<mapsto> ?u)) (dom (ls_by_mac l))"
      using i k by (simp add: inj_on_def)
    ultimately show ?thesis using k by simp
  qed
  show "lease_ok (snd (lease mac l))"
    unfolding l lease_ok_def ps using 1 2 3 fin rg b
    by (simp add: r card_insert_disjoint [OF fin k] del: card_insert_if if_split)
qed

lemma new_leaser_ok: "ip_to_u32 start \<le> ip_to_u32 stop \<Longrightarrow> lease_ok (new_leaser start stop)"
  by (simp add: lease_ok_def new_leaser_def pool_size_def)

definition lease_all :: "bytes list \<Rightarrow> leaser \<Rightarrow> leaser" where
  "lease_all macs l = fold (\<lambda>mac l. snd (lease mac l)) macs l"

lemma lease_all_props:
  "lease_ok l \<Longrightarrow> lease_ok (lease_all macs l)" "pool_size (lease_all macs l) = pool_size l"
  "ls_base (lease_all macs l) = ls_base l" "ls_end (lease_all macs l) = ls_end l"
  "dom (ls_by_mac (lease_all macs l)) = mac_string ` set macs \<union> dom (ls_by_mac l)"
  "ls_by_mac l k = Some u \<Longrightarrow> ls_by_mac (lease_all macs l) k = Some u"
  by (induction macs arbitrary: l) (auto simp: lease_all_def lease_keeps_ok lease_frame lease_dom lease_keeps)

lemma u32_to_ip_inject: "u32_to_ip u = u32_to_ip v \<longleftrightarrow> u = v"
proof -
  have "be32 (u32_to_ip w ! 0) (u32_to_ip w ! 1) (u32_to_ip w ! 2) (u32_to_ip w ! 3) = w" for w
    by (simp add: u32_to_ip_def put_be32_def)
  then show ?thesis by metis
qed
text \<open>What a sequence of requests is answered, and what it leaves.\<close>

fun lease_answers :: "bytes list \<Rightarrow> leaser \<Rightarrow> ip list" where
  "lease_answers [] l = []"
| "lease_answers (mac # macs) l = fst (lease mac l) # lease_answers macs (snd (lease mac l))"

lemma lease_answers_length [simp]: "length (lease_answers macs l) = length macs"
  by (induction macs arbitrary: l) simp_all

text \<open>An answer is the binding its client has ever after.\<close>

lemma lease_answers_bound:
  "i < length macs \<Longrightarrow>
     \<exists>u. ls_by_mac (lease_all macs l) (mac_string (macs ! i)) = Some u \<and> lease_answers macs l ! i = u32_to_ip u"
proof (induction macs arbitrary: l i)
  case (Cons m ms)
  have all: "lease_all (m # ms) l = lease_all ms (snd (lease m l))" by (simp add: lease_all_def)
  show ?case
  proof (cases i)
    case 0
    obtain u where "ls_by_mac (snd (lease m l)) (mac_string m) = Some u" "fst (lease m l) = u32_to_ip u"
      using lease_binds by blast
    then show ?thesis using lease_all_props(6) [of "snd (lease m l)"] 0 by (auto simp: all)
  next
    case (Suc j)
    then show ?thesis using Cons by (simp add: all)
  qed
qed simp

lemma lease_again: "ls_by_mac l (mac_string mac) = Some u \<Longrightarrow> fst (lease mac l) = u32_to_ip u \<and> snd (lease mac l) = l"
  by (simp add: lease_def)

text \<open>The server over a sequence of frames.\<close>

definition serve_frame :: "bytes \<Rightarrow> dhcp_server \<Rightarrow> dhcp_server" where
  "serve_frame f d = (case consume_frame f d of None \<Rightarrow> d | Some (_, _, d') \<Rightarrow> d')"

lemma consume_total: "consume_frame f d \<noteq> None"
  using parse_dhcp_total by (auto simp: consume_frame_def Let_def split: option.splits prod.splits)

lemma serve_frame_leases:
  "ds_leaser (serve_frame f d) = ds_leaser d \<or> (\<exists>mac. ds_leaser (serve_frame f d) = snd (lease mac (ds_leaser d)))"
proof (cases "parse_dhcp f")
  case None
  then show ?thesis using parse_dhcp_total by simp
next
  case (Some r)
  show ?thesis
  proof (cases r)
    case None
    then show ?thesis using Some by (simp add: serve_frame_def consume_frame_def)
  next
    case (Some p)
    obtain req src where p: "p = (req, src)" by force
    have "ds_leaser (serve_frame f d) = snd (lease src (ds_leaser d))"
      using \<open>parse_dhcp f = Some r\<close> Some p
      by (simp add: serve_frame_def consume_frame_def Let_def split: prod.split option.split)
    then show ?thesis by blast
  qed
qed

lemma serve_frames_keep:
  "ls_by_mac (ds_leaser d) k = Some u \<Longrightarrow> ls_by_mac (ds_leaser (fold serve_frame fs d)) k = Some u"
proof (induction fs arbitrary: d)
  case (Cons f fs)
  have "ls_by_mac (ds_leaser (serve_frame f d)) k = Some u"
    using serve_frame_leases [of f d] lease_keeps [OF Cons.prems] Cons.prems by auto
  then show ?case using Cons.IH by simp
qed simp

lemma leased_is_v4: "to4_or_zero (fst (lease mac l)) = fst (lease mac l)" "fst (lease mac l) \<noteq> []"
  by (auto simp: lease_def Let_def u32_to_ip_def to4_or_zero_def to4_def put_be32_def split: option.splits)

section \<open>Properties\<close>

text \<open>A client that decodes a reply of the server reads back the transaction, the flags, the
  assigned and the relay address, its own hardware address and the message type.\<close>

theorem dhcp_roundtrip:
  assumes "length (dp_chaddr p) = 6"
  shows "decode_packet (encode_packet p t server_ip mask4) = Some (Inr \<lparr> dp_op = 2, dp_xid = dp_xid p, dp_flags = dp_flags p,
     dp_ciaddr = [0, 0, 0, 0], dp_yiaddr = to4_or_zero (dp_yiaddr p), dp_giaddr = to4_or_zero (dp_giaddr p), dp_chaddr = dp_chaddr p,
     dp_msg_type = t, dp_req_ip = [] \<rparr>)"
  by (rule decode_encode [OF assms])

text \<open>Whatever frames arrive in between, a client whose DISCOVER was answered and that then
  requests the offered address (or names none) gets an ACK for exactly that address.\<close>

theorem offered_address_is_acked:
  assumes "parse_dhcp f1 = Some (Some (p1, src))" and "dp_msg_type p1 = 1"
    and "parse_dhcp f2 = Some (Some (p2, src))" and "dp_msg_type p2 = 3"
    and "dp_req_ip p2 = [] \<or> dp_req_ip p2 = fst (lease src (ds_leaser d))"
  shows "\<exists>d2. consume_frame f2 (fold serve_frame fs (serve_frame f1 d)) =
    Some (Some (build_frame d2 src (fst (lease src (ds_leaser d)))
      (encode_packet (reply_shell p2 (fst (lease src (ds_leaser d)))) 5 (ds_ip d2) (ds_mask d2)) (dp_flags p2 AND 0x8000 \<noteq> 0)), True, d2)"
proof -
  let ?a = "fst (lease src (ds_leaser d))" and ?d1 = "serve_frame f1 d"
  let ?d2 = "fold serve_frame fs ?d1"
  have l: "ds_leaser ?d1 = snd (lease src (ds_leaser d))"
    using assms(1) by (simp add: serve_frame_def consume_frame_def Let_def split: prod.split option.split)
  obtain u where u: "ls_by_mac (ds_leaser ?d1) (mac_string src) = Some u" "?a = u32_to_ip u"
    using lease_binds [of src "ds_leaser d"] l by auto
  have "lease src (ds_leaser ?d2) = (?a, ds_leaser ?d2)"
    using lease_again [OF serve_frames_keep [OF u(1)]] u(2) by (simp add: prod_eq_iff)
  moreover have "handle_packet p2 ?a = Some (5, reply_shell p2 ?a)"
    using assms(4,5) by (auto simp: handle_packet_def ip_equal_def)
  ultimately show ?thesis
    using assms(3) by (simp add: consume_frame_def Let_def reply_shell_def dup4_def leased_is_v4)
qed

text \<open>C16. Over any sequence of requests every client is given an address of the pool the first
  time it asks and that same address every time after, and as long as there are no more clients
  than addresses no two clients are ever given the same one.\<close>

theorem leases_follow_clients:
  assumes "ip_to_u32 start \<le> ip_to_u32 stop"
    and "i < length macs" and "j < length macs" and "given = lease_answers macs (new_leaser start stop)"
  shows "(\<exists>u. given ! i = u32_to_ip u \<and> ip_to_u32 start \<le> u \<and> u \<le> ip_to_u32 stop) \<and>
    (macs ! i = macs ! j \<longrightarrow> given ! i = given ! j) \<and>
    (card (set macs) \<le> Suc (unat (ip_to_u32 stop) - unat (ip_to_u32 start)) \<and> given ! i = given ! j \<longrightarrow> macs ! i = macs ! j)"
proof -
  let ?init = "new_leaser start stop"
  let ?l = "lease_all macs ?init"
  note P = lease_all_props [where l = ?init and macs = macs]
  have ok: "lease_ok ?l" by (rule P(1) [OF new_leaser_ok [OF assms(1)]])
  obtain u where u: "ls_by_mac ?l (mac_string (macs ! i)) = Some u" "given ! i = u32_to_ip u"
    using lease_answers_bound [OF assms(2), of ?init] assms(4) by blast
  obtain v where v: "ls_by_mac ?l (mac_string (macs ! j)) = Some v" "given ! j = u32_to_ip v"
    using lease_answers_bound [OF assms(3), of ?init] assms(4) by blast
  have "u \<in> ran (ls_by_mac ?l)" using u(1) by (auto simp: ran_def)
  then have pool: "ip_to_u32 start \<le> u \<and> u \<le> ip_to_u32 stop"
    using ok P(3,4) by (simp add: lease_ok_def new_leaser_def)
  have "macs ! i = macs ! j"
    if few: "card (set macs) \<le> Suc (unat (ip_to_u32 stop) - unat (ip_to_u32 start))" and "given ! i = given ! j"
  proof -
    have d: "dom (ls_by_mac ?l) = mac_string ` set macs" using P(5) by (simp add: new_leaser_def)
    have c: "card (dom (ls_by_mac ?l)) = card (set macs)"
      unfolding d by (rule card_image) (simp add: inj_on_def mac_string_inject)
    have "pool_size ?l = Suc (unat (ip_to_u32 stop) - unat (ip_to_u32 start))"
      using P(2) by (simp add: pool_size_def new_leaser_def)
    then have inj: "inj_on (ls_by_mac ?l) (dom (ls_by_mac ?l))" using ok c few by (simp add: lease_ok_def)
    have "u = v" using that(2) u(2) v(2) by (simp add: u32_to_ip_inject)
    then have "mac_string (macs ! i) = mac_string (macs ! j)"
      using inj_onD [OF inj, of "mac_string (macs ! i)" "mac_string (macs ! j)"] u(1) v(1) by auto
    then show ?thesis by (simp add: mac_string_inject)
  qed
  then show ?thesis using u v pool by auto
qed

text \<open>No frame a node can send, of whatever length and content, makes the server index out of
  range: it is answered, consumed or passed on.\<close>

theorem consume_never_panics: "consume_frame frame d \<noteq> None"
  by (rule consume_total)

section \<open>Witnesses\<close>

definition sample_frame :: "byte \<Rightarrow> bytes" where
  "sample_frame t = replicate 6 0xFF @ [2, 0, 0, 0, 0, 7] @ put_be16 0x0800 @ [0x45] @ replicate 8 0 @ [17] @ replicate 10 0 @
     put_be16 68 @ put_be16 67 @ put_be16 252 @ [0, 0] @ [1, 1, 6, 0] @ replicate 232 0 @ put_be32 dhcp_magic @ [53, 1, t, 255]"

theorem dhcp_roundtrip_witness:
  "decode_packet (encode_packet (reply_shell \<lparr> dp_op = 1, dp_xid = 5, dp_flags = 0, dp_ciaddr = [0, 0, 0, 0], dp_yiaddr = [0, 0, 0, 0],
     dp_giaddr = [0, 0, 0, 0], dp_chaddr = [2, 0, 0, 0, 0, 7], dp_msg_type = 1, dp_req_ip = [] \<rparr> [172, 31, 1, 100]) 2 [172, 31, 1, 1] [255, 255, 255, 0])
   \<noteq> None"
  by (subst dhcp_roundtrip) (simp_all add: reply_shell_def)

theorem offered_address_is_acked_witness:
  "consume_frame (sample_frame 3) (serve_frame (sample_frame 1) (new_dhcp_server [172, 31, 1, 1] 1)) \<noteq> None"
proof -
  have "map_option (map_option (\<lambda>(p, src). (src, dp_msg_type p, dp_req_ip p))) (parse_dhcp (sample_frame 1)) = Some (Some ([2, 0, 0, 0, 0, 7], 1, []))"
    by code_simp
  then have 1: "\<exists>p. parse_dhcp (sample_frame 1) = Some (Some (p, [2, 0, 0, 0, 0, 7])) \<and> dp_msg_type p = 1" by auto
  have "map_option (map_option (\<lambda>(p, src). (src, dp_msg_type p, dp_req_ip p))) (parse_dhcp (sample_frame 3)) = Some (Some ([2, 0, 0, 0, 0, 7], 3, []))"
    by code_simp
  then have 3: "\<exists>p. parse_dhcp (sample_frame 3) = Some (Some (p, [2, 0, 0, 0, 0, 7])) \<and> dp_msg_type p = 3 \<and> dp_req_ip p = []" by auto
  from 1 3 offered_address_is_acked [where fs = "[]" and d = "new_dhcp_server [172, 31, 1, 1] 1"] show ?thesis by fastforce
qed

lemma leases_follow_clients_witness:
  "lease_answers [[1], [2], [1]] (new_leaser [172, 31, 1, 100] [172, 31, 1, 199]) ! 0 =
     lease_answers [[1], [2], [1]] (new_leaser [172, 31, 1, 100] [172, 31, 1, 199]) ! 2"
  using leases_follow_clients [OF _ _ _ refl, of "[172, 31, 1, 100]" "[172, 31, 1, 199]" 0 "[[1], [2], [1]]" 2]
  by (simp add: ip_to_u32_def to4_def be32_def)

end
