(* ===== verification/Dirstat.thy ===== *)
theory Dirstat
  imports Classify
begin

text \<open>
  The directional traffic classifier of a fabric link (dirstat/dirstat.go and the body of
  readLoop in dirstat_linux.go): frame counters per endpoint, and the attribution of one
  source MAC to each endpoint.  A method runs under the classifier's lock, so it is one step;
  a time is the reading of the monotonic clock in nanoseconds.
\<close>

section \<open>State\<close>

datatype attrib_state = AttribNone | AttribSingle | AttribAmbiguous

record candidate =
  ca_mac :: bytes
  ca_state :: attrib_state
  ca_first :: int
  ca_last :: int

record classifier =
  cl_counts :: "int \<times> string \<times> string \<rightharpoonup> 64 word"
  cl_endpoints :: "int set"
  cl_candidates :: "int \<rightharpoonup> candidate"
  cl_conflicts :: "(bytes \<times> int) list"

definition mac_ttl :: int where
  "mac_ttl = 5 * 60 * 1000000000"

definition max_conflict :: nat where
  "max_conflict = 32"

definition no_candidate :: candidate where
  "no_candidate = \<lparr> ca_mac = replicate 6 0, ca_state = AttribNone, ca_first = 0, ca_last = 0 \<rparr>"

fun add_endpoints :: "(int \<times> string) list \<Rightarrow> classifier \<Rightarrow> classifier" where
  "add_endpoints [] c = c"
| "add_endpoints ((i, dev) # ds) c =
     (if i < 0 \<or> i > 1 \<or> dev = [] then add_endpoints ds c
      else add_endpoints ds (c \<lparr> cl_endpoints := insert i (cl_endpoints c), cl_candidates := (cl_candidates c)(i \<mapsto> no_candidate) \<rparr>))"

definition new_classifier :: "(int \<times> string) list \<Rightarrow> classifier" where
  "new_classifier devs =
     add_endpoints devs \<lparr> cl_counts = Map.empty, cl_endpoints = {}, cl_candidates = Map.empty, cl_conflicts = [] \<rparr>"

section \<open>Operations\<close>

definition ensure_endpoint :: "int \<Rightarrow> classifier \<Rightarrow> classifier" where
  "ensure_endpoint ep c =
     (if ep < 0 \<or> ep > 1 then c
      else c \<lparr> cl_endpoints := insert ep (cl_endpoints c),
               cl_candidates := (case cl_candidates c ep of None \<Rightarrow> (cl_candidates c)(ep \<mapsto> no_candidate) | Some _ \<Rightarrow> cl_candidates c) \<rparr>)"

definition count_frame :: "int \<Rightarrow> string \<Rightarrow> string \<Rightarrow> classifier \<Rightarrow> classifier" where
  "count_frame ep label subtype c =
     (let c1 = ensure_endpoint ep c;
          k = (ep, label, subtype)
      in c1 \<lparr> cl_counts := (cl_counts c1)(k \<mapsto> (case cl_counts c1 k of None \<Rightarrow> 0 | Some n \<Rightarrow> n) + 1) \<rparr>)"

definition valid_source_mac :: "bytes \<Rightarrow> bool" where
  "valid_source_mac m \<longleftrightarrow> m ! 0 AND 1 = 0 \<and> list_ex (\<lambda>b. b \<noteq> 0) m"

definition in_conflict :: "bytes \<Rightarrow> classifier \<Rightarrow> bool" where
  "in_conflict m c \<longleftrightarrow> list_ex (\<lambda>(x, _). x = m) (cl_conflicts c)"

fun touch_conflict :: "bytes \<Rightarrow> int \<Rightarrow> (bytes \<times> int) list \<Rightarrow> (bytes \<times> int) list" where
  "touch_conflict m now [] = []"
| "touch_conflict m now ((x, t) # cs) = (if x = m then (x, now) # cs else (x, t) # touch_conflict m now cs)"

text \<open>The index of the first entry with the least time stamp.\<close>

fun oldest_from :: "nat \<Rightarrow> nat \<Rightarrow> int \<Rightarrow> (bytes \<times> int) list \<Rightarrow> nat" where
  "oldest_from i best t [] = best"
| "oldest_from i best t ((_, u) # cs) = (if u < t then oldest_from (Suc i) i u cs else oldest_from (Suc i) best t cs)"

definition oldest_conflict :: "(bytes \<times> int) list \<Rightarrow> nat" where
  "oldest_conflict cs = (case cs of [] \<Rightarrow> 0 | (_, t) # r \<Rightarrow> oldest_from 1 0 t r)"

definition add_conflict :: "bytes \<Rightarrow> int \<Rightarrow> classifier \<Rightarrow> classifier" where
  "add_conflict m now c =
     (if in_conflict m c then c \<lparr> cl_conflicts := touch_conflict m now (cl_conflicts c) \<rparr>
      else let cs = cl_conflicts c @ [(m, now)]
           in c \<lparr> cl_conflicts := (if length cs > max_conflict
                  then take (oldest_conflict cs) cs @ drop (Suc (oldest_conflict cs)) cs else cs) \<rparr>)"

definition expire :: "int \<Rightarrow> classifier \<Rightarrow> classifier" where
  "expire now c =
     c \<lparr> cl_candidates := (\<lambda>ep. map_option (\<lambda>a. if ca_state a \<noteq> AttribNone \<and> now - ca_last a > mac_ttl then no_candidate else a)
            (cl_candidates c ep)),
         cl_conflicts := filter (\<lambda>(_, t). now - t \<le> mac_ttl) (cl_conflicts c) \<rparr>"

definition set_candidate :: "int \<Rightarrow> candidate \<Rightarrow> classifier \<Rightarrow> classifier" where
  "set_candidate ep a c = c \<lparr> cl_candidates := (cl_candidates c)(ep \<mapsto> a) \<rparr>"

definition clear_candidate :: "int \<Rightarrow> classifier \<Rightarrow> classifier" where
  "clear_candidate ep c = set_candidate ep no_candidate (ensure_endpoint ep c)"

definition candidate_of :: "int \<Rightarrow> classifier \<Rightarrow> candidate" where
  "candidate_of ep c = (case cl_candidates c ep of None \<Rightarrow> no_candidate | Some a \<Rightarrow> a)"

definition make_ambiguous :: "int \<Rightarrow> candidate \<Rightarrow> candidate" where
  "make_ambiguous now a = a \<lparr> ca_mac := replicate 6 0, ca_state := AttribAmbiguous, ca_last := now \<rparr>"

definition observe_source :: "int \<Rightarrow> bytes \<Rightarrow> int \<Rightarrow> classifier \<Rightarrow> classifier" where
  "observe_source ep m now c =
     (if \<not> valid_source_mac m \<or> ep < 0 \<or> ep > 1 then c
      else let c = ensure_endpoint ep c; other = 1 - ep
           in if (case cl_candidates c other of None \<Rightarrow> False | Some a \<Rightarrow> ca_state a = AttribSingle \<and> ca_mac a = m)
              then let c1 = clear_candidate other (add_conflict m now c); a = candidate_of ep c1
                   in case ca_state a of
                        AttribSingle \<Rightarrow> if ca_mac a = m then clear_candidate ep c1 else set_candidate ep (make_ambiguous now a) c1
                      | AttribAmbiguous \<Rightarrow> set_candidate ep (a \<lparr> ca_last := now \<rparr>) c1
                      | AttribNone \<Rightarrow> c1
              else if in_conflict m c
              then let a = candidate_of ep c
                   in case ca_state a of
                        AttribSingle \<Rightarrow> if ca_mac a = m then clear_candidate ep c else c
                      | AttribAmbiguous \<Rightarrow> set_candidate ep (a \<lparr> ca_last := now \<rparr>) c
                      | AttribNone \<Rightarrow> c
              else let a = candidate_of ep c
                   in case ca_state a of
                        AttribNone \<Rightarrow> set_candidate ep \<lparr> ca_mac = m, ca_state = AttribSingle, ca_first = now, ca_last = now \<rparr> c
                      | AttribSingle \<Rightarrow> if ca_mac a = m then set_candidate ep (a \<lparr> ca_last := now \<rparr>) c
                                        else set_candidate ep (make_ambiguous now a) c
                      | AttribAmbiguous \<Rightarrow> set_candidate ep (a \<lparr> ca_last := now \<rparr>) c)"

text \<open>Attribution: an entry per endpoint in index order, with a MAC only where one is attributed.\<close>

definition attribution :: "int \<Rightarrow> classifier \<Rightarrow> (int \<times> attrib_state \<times> bytes option) list \<times> classifier" where
  "attribution now c =
     (let c1 = expire now c;
          entry = (\<lambda>ep. let a = candidate_of ep c1
                    in if ca_state a = AttribSingle \<and> \<not> in_conflict (ca_mac a) c1 then (ep, AttribSingle, Some (ca_mac a))
                       else if ca_state a = AttribSingle then (ep, AttribNone, None)
                       else (ep, ca_state a, None))
      in (map entry (filter (\<lambda>ep. ep \<in> cl_endpoints c1) [0, 1]), c1))"

text \<open>The body of readLoop for a frame that was received on the tap.\<close>

definition read_frame_bytes :: "int \<Rightarrow> bytes \<Rightarrow> int \<Rightarrow> classifier \<Rightarrow> classifier option" where
  "read_frame_bytes ep buf now c =
     (case classify_detailed buf of
        None \<Rightarrow> None
      | Some (label, subtype, _) \<Rightarrow>
          let c1 = count_frame ep label subtype c
          in Some (if 12 \<le> length buf then observe_source ep (take 6 (drop 6 buf)) now c1 else c1))"

section \<open>Lemmas\<close>

definition single :: "classifier \<Rightarrow> int \<Rightarrow> bytes \<Rightarrow> bool" where
  "single c ep m \<longleftrightarrow> (\<exists>a. cl_candidates c ep = Some a \<and> ca_state a = AttribSingle \<and> ca_mac a = m)"

lemma single_set_candidate:
  "single (set_candidate ep a c) e m \<longleftrightarrow> (if e = ep then ca_state a = AttribSingle \<and> ca_mac a = m else single c e m)"
  by (simp add: single_def set_candidate_def)

lemma no_candidate_state [simp]: "ca_state no_candidate = AttribNone"
  by (simp add: no_candidate_def)

lemma single_ensure [simp]: "single (ensure_endpoint ep c) e m = single c e m"
  by (auto simp: single_def ensure_endpoint_def split: option.splits)

lemma single_clear: "single (clear_candidate ep c) e m \<longleftrightarrow> e \<noteq> ep \<and> single c e m"
  by (simp add: clear_candidate_def single_set_candidate)

lemma conflicts_frame [simp]:
  "cl_conflicts (ensure_endpoint ep c) = cl_conflicts c" "cl_conflicts (set_candidate ep a c) = cl_conflicts c"
  "cl_conflicts (clear_candidate ep c) = cl_conflicts c" "cl_conflicts (count_frame ep l t c) = cl_conflicts c"
  by (simp_all add: ensure_endpoint_def set_candidate_def clear_candidate_def count_frame_def Let_def)

lemma in_conflict_frame [simp]:
  "in_conflict m (ensure_endpoint ep c) = in_conflict m c" "in_conflict m (set_candidate ep a c) = in_conflict m c"
  "in_conflict m (clear_candidate ep c) = in_conflict m c" "in_conflict m (count_frame ep l t c) = in_conflict m c"
  by (simp_all add: in_conflict_def)

lemma single_add_conflict [simp]: "single (add_conflict m now c) e x = single c e x"
  by (simp add: single_def add_conflict_def Let_def)

lemma touch_conflict_keys [simp]: "map fst (touch_conflict m now cs) = map fst cs"
  by (induction m now cs rule: touch_conflict.induct) auto

lemma in_conflict_keys: "in_conflict m c \<longleftrightarrow> m \<in> fst ` set (cl_conflicts c)"
  by (force simp: in_conflict_def list_ex_iff)

lemma touch_in_conflict: "fst ` set (touch_conflict m now cs) = fst ` set cs"
  by (metis list.set_map touch_conflict_keys)

lemma in_add_conflict: "in_conflict x (add_conflict m now c) \<Longrightarrow> in_conflict x c \<or> x = m"
  by (auto simp: in_conflict_keys add_conflict_def Let_def touch_in_conflict dest: in_set_takeD in_set_dropD split: if_splits)

lemma touch_conflict_length [simp]: "length (touch_conflict m now cs) = length cs"
  by (induction m now cs rule: touch_conflict.induct) auto

lemma oldest_from_bound: "oldest_from i best t xs < i + length xs \<or> oldest_from i best t xs = best"
  by (induction i best t xs rule: oldest_from.induct) auto

lemma oldest_conflict_bound: "cs \<noteq> [] \<Longrightarrow> oldest_conflict cs < length cs"
proof (cases cs)
  case (Cons x r)
  then show ?thesis using oldest_from_bound [of 1 0 "snd x" r] by (auto simp: oldest_conflict_def split: prod.split)
qed simp

lemma distinct_remove_at: "distinct xs \<Longrightarrow> distinct (take i xs @ drop (Suc i) xs)"
  by (simp add: set_take_disj_set_drop_if_distinct)

lemma distinct_keys_remove: "distinct (map fst cs) \<Longrightarrow> distinct (map fst (take i cs @ drop (Suc i) cs))"
  using distinct_remove_at [of "map fst cs" i] by (simp add: take_map drop_map)

lemma conflicts_ok:
  assumes "distinct (map fst (cl_conflicts c))" "length (cl_conflicts c) \<le> max_conflict"
  shows "distinct (map fst (cl_conflicts (add_conflict m now c))) \<and> length (cl_conflicts (add_conflict m now c)) \<le> max_conflict"
proof (cases "in_conflict m c")
  case True
  then show ?thesis using assms by (simp add: add_conflict_def)
next
  case False
  let ?cs = "cl_conflicts c @ [(m, now)]"
  have d: "distinct (map fst ?cs)" using assms False by (simp add: in_conflict_keys)
  let ?o = "oldest_conflict ?cs"
  have "?o < length ?cs" by (rule oldest_conflict_bound) simp
  moreover have "distinct (map fst (take ?o ?cs @ drop (Suc ?o) ?cs))"
    by (rule distinct_keys_remove [OF d])
  ultimately show ?thesis using d False assms(2) by (simp only: add_conflict_def Let_def if_False) auto
qed


text \<open>What one observation changes: the endpoint may gain the MAC, or the MAC becomes a conflict
  that nobody is attributed.\<close>

lemma candidate_single: "cl_candidates c ep \<noteq> None \<Longrightarrow> ca_state (candidate_of ep c) = AttribSingle \<Longrightarrow> single c ep (ca_mac (candidate_of ep c))"
  by (auto simp: single_def candidate_of_def)

lemma candidate_of_single: "single c ep m \<Longrightarrow> ca_state (candidate_of ep c) = AttribSingle \<and> ca_mac (candidate_of ep c) = m"
  by (auto simp: single_def candidate_of_def)

lemma candidate_of_single_iff: "single c ep m \<longleftrightarrow> ca_state (candidate_of ep c) = AttribSingle \<and> ca_mac (candidate_of ep c) = m"
  by (auto simp: single_def candidate_of_def split: option.splits)

lemma other_single: "(case cl_candidates c e of None \<Rightarrow> False | Some a \<Rightarrow> ca_state a = AttribSingle \<and> ca_mac a = m) \<longleftrightarrow> single c e m"
  by (auto simp: single_def split: option.split)

lemma observe_shared:
  fixes now :: int
  assumes v: "valid_source_mac m" "0 \<le> ep" "ep \<le> 1" and o: "single c (1 - ep) m"
  defines "r \<equiv> observe_source ep m now c"
  shows "single r e x \<Longrightarrow> single c e x \<and> e \<noteq> 1 - ep \<and> \<not> (e = ep \<and> x = m)"
    "cl_conflicts r = cl_conflicts (add_conflict m now c)"
proof -
  define c1 where "c1 = clear_candidate (1 - ep) (add_conflict m now (ensure_endpoint ep c))"
  define a where "a = candidate_of ep c1"
  have s: "single c1 ep y \<longleftrightarrow> ca_state a = AttribSingle \<and> ca_mac a = y" for y by (simp add: a_def candidate_of_single_iff)
  have r: "r = (case ca_state a of
      AttribSingle \<Rightarrow> if ca_mac a = m then clear_candidate ep c1 else set_candidate ep (make_ambiguous now a) c1
    | AttribAmbiguous \<Rightarrow> set_candidate ep (a \<lparr> ca_last := now \<rparr>) c1
    | AttribNone \<Rightarrow> c1)"
    using v o unfolding r_def observe_source_def Let_def other_single c1_def [symmetric] a_def [symmetric] by simp
  have c: "single c1 e x \<longleftrightarrow> single c e x \<and> e \<noteq> 1 - ep" for e x by (auto simp: c1_def single_clear)
  show "single c e x \<and> e \<noteq> 1 - ep \<and> \<not> (e = ep \<and> x = m)" if q: "single r e x"
  proof (cases "ca_state a")
    case AttribNone
    then show ?thesis using q r s c by auto
  next
    case AttribSingle
    then show ?thesis using q r s c by (auto simp: single_clear single_set_candidate make_ambiguous_def split: if_splits)
  next
    case AttribAmbiguous
    then show ?thesis using q r s c by (auto simp: single_set_candidate split: if_splits)
  qed
  have "cl_conflicts (add_conflict m now (ensure_endpoint ep c)) = cl_conflicts (add_conflict m now c)"
    by (simp add: add_conflict_def Let_def)
  then show "cl_conflicts r = cl_conflicts (add_conflict m now c)"
    unfolding r by (simp add: c1_def split: attrib_state.split)
qed

lemma observe_plain:
  fixes now :: int
  assumes v: "valid_source_mac m" "0 \<le> ep" "ep \<le> 1" and o: "\<not> single c (1 - ep) m"
  defines "r \<equiv> observe_source ep m now c"
  shows "single r e x \<Longrightarrow> (single c e x \<or> (e = ep \<and> x = m)) \<and> (in_conflict m c \<longrightarrow> \<not> (e = ep \<and> x = m))"
    "cl_conflicts r = cl_conflicts c"
proof -
  define c0 where "c0 = ensure_endpoint ep c"
  define a where "a = candidate_of ep c0"
  have s: "single c0 ep y \<longleftrightarrow> ca_state a = AttribSingle \<and> ca_mac a = y" for y by (simp add: a_def candidate_of_single_iff)
  have c: "single c0 e x = single c e x" "in_conflict x c0 = in_conflict x c" "cl_conflicts c0 = cl_conflicts c" for e x
    by (simp_all add: c0_def)
  have r: "r = (if in_conflict m c then (case ca_state a of
          AttribSingle \<Rightarrow> if ca_mac a = m then clear_candidate ep c0 else c0
        | AttribAmbiguous \<Rightarrow> set_candidate ep (a \<lparr> ca_last := now \<rparr>) c0
        | AttribNone \<Rightarrow> c0)
      else (case ca_state a of
          AttribNone \<Rightarrow> set_candidate ep \<lparr> ca_mac = m, ca_state = AttribSingle, ca_first = now, ca_last = now \<rparr> c0
        | AttribSingle \<Rightarrow> if ca_mac a = m then set_candidate ep (a \<lparr> ca_last := now \<rparr>) c0 else set_candidate ep (make_ambiguous now a) c0
        | AttribAmbiguous \<Rightarrow> set_candidate ep (a \<lparr> ca_last := now \<rparr>) c0))"
    using v o unfolding r_def observe_source_def Let_def other_single c0_def [symmetric] a_def [symmetric] c by simp
  show "(single c e x \<or> (e = ep \<and> x = m)) \<and> (in_conflict m c \<longrightarrow> \<not> (e = ep \<and> x = m))" if q: "single r e x"
  proof (cases "ca_state a")
    case AttribNone
    then show ?thesis using q r s c(1) by (auto simp: single_set_candidate split: if_splits)
  next
    case AttribSingle
    then show ?thesis using q r s c(1) by (auto simp: single_clear single_set_candidate make_ambiguous_def split: if_splits)
  next
    case AttribAmbiguous
    then show ?thesis using q r s c(1) by (auto simp: single_set_candidate split: if_splits)
  qed
  show "cl_conflicts r = cl_conflicts c" unfolding r by (simp add: c(3) split: attrib_state.split)
qed

lemma observe_ignored: "\<not> valid_source_mac m \<or> ep < 0 \<or> ep > 1 \<Longrightarrow> observe_source ep m now c = c"
  by (simp add: observe_source_def)

section \<open>What the attribution of a link rests on\<close>

text \<open>seen is the set of sources observed so far, with their endpoints.\<close>

definition attrib_ok :: "(int \<times> bytes) set \<Rightarrow> classifier \<Rightarrow> bool" where
  "attrib_ok seen c \<longleftrightarrow>
     (\<forall>m. \<not> (single c 0 m \<and> single c 1 m)) \<and>
     (\<forall>e m. single c e m \<longrightarrow> (e, m) \<in> seen \<and> valid_source_mac m \<and> \<not> in_conflict m c \<and> 0 \<le> e \<and> e \<le> 1) \<and>
     distinct (map fst (cl_conflicts c)) \<and> length (cl_conflicts c) \<le> max_conflict"

lemma observe_attrib_ok:
  assumes ok: "attrib_ok seen c"
  shows "attrib_ok (insert (ep, m) seen) (observe_source ep m now c)"
proof (cases "valid_source_mac m \<and> 0 \<le> ep \<and> ep \<le> 1")
  case False
  then have "observe_source ep m now c = c" by (intro observe_ignored) auto
  then show ?thesis using ok by (auto simp: attrib_ok_def)
next
  case True
  then have v: "valid_source_mac m" "0 \<le> ep" "ep \<le> 1" by auto
  let ?r = "observe_source ep m now c"
  have d: "distinct (map fst (cl_conflicts c))" "length (cl_conflicts c) \<le> max_conflict" using ok by (simp_all add: attrib_ok_def)
  show ?thesis
  proof (cases "single c (1 - ep) m")
    case True
    note S = observe_shared [OF v True, of now]
    have x: "x \<noteq> m" if q: "single ?r e x" for e x
    proof
      assume "x = m"
      then have "single c e x" "e \<noteq> 1 - ep" "e \<noteq> ep" using S(1) [OF q] by auto
      moreover have "0 \<le> e \<and> e \<le> 1" using ok calculation(1) by (auto simp: attrib_ok_def)
      ultimately show False using v by linarith
    qed
    have n: "single ?r e x \<Longrightarrow> \<not> in_conflict x ?r" for e x
      using S(1) [of e x] x [of e x] ok in_add_conflict [of x m now c]
      by (auto simp: attrib_ok_def in_conflict_keys S(2))
    have sub: "single ?r e x \<Longrightarrow> single c e x" for e x using S(1) by blast
    show ?thesis using sub n ok conflicts_ok [OF d, of m now] unfolding attrib_ok_def S(2) by blast
  next
    case False
    note S = observe_plain [OF v False, of now]
    have k: "in_conflict x ?r = in_conflict x c" for x by (simp add: in_conflict_keys S(2))
    have e: "ep = 0 \<or> ep = 1" using v by auto
    have one: "\<not> (single ?r 0 x \<and> single ?r 1 x)" for x
      using S(1) [of 0 x] S(1) [of 1 x] e False ok by (auto simp: attrib_ok_def)
    have "(e, x) \<in> insert (ep, m) seen \<and> valid_source_mac x \<and> \<not> in_conflict x c \<and> 0 \<le> e \<and> e \<le> 1" if "single ?r e x" for e x
      using S(1) [OF that] ok v by (auto simp: attrib_ok_def)
    then show ?thesis using ok one unfolding attrib_ok_def k S(2) by blast
  qed
qed


lemma single_count [simp]: "single (count_frame ep l t c) e m = single c e m"
proof -
  have "single (count_frame ep l t c) e m = single (ensure_endpoint ep c) e m"
    by (simp add: count_frame_def Let_def single_def)
  then show ?thesis by simp
qed

lemma expire_single: "single (expire now c) e m \<Longrightarrow> single c e m"
  by (auto simp: single_def expire_def split: if_splits)

lemma expire_attrib_ok: "attrib_ok seen c \<Longrightarrow> attrib_ok seen (expire now c)"
proof -
  assume ok: "attrib_ok seen c"
  have "in_conflict m (expire now c) \<Longrightarrow> in_conflict m c" for m by (auto simp: in_conflict_keys expire_def)
  moreover have "distinct (map fst (cl_conflicts (expire now c)))" "length (cl_conflicts (expire now c)) \<le> max_conflict"
    using ok le_trans [OF length_filter_le] by (auto simp: expire_def attrib_ok_def distinct_map_filter)
  ultimately show ?thesis using ok expire_single [of now c] unfolding attrib_ok_def by blast
qed

lemma new_attrib_ok: "attrib_ok {} (new_classifier devs)"
proof -
  have "(\<forall>e m. \<not> single (add_endpoints devs c) e m) \<and> cl_conflicts (add_endpoints devs c) = []"
    if "\<forall>e m. \<not> single c e m" "cl_conflicts c = []" for c
    using that
  proof (induction devs c rule: add_endpoints.induct)
    case (2 i dev ds c)
    have "\<not> single (c \<lparr> cl_endpoints := E, cl_candidates := (cl_candidates c)(i \<mapsto> no_candidate) \<rparr>) e m" for E e m
      using 2(3) by (simp add: single_def)
    then show ?case using 2 by simp
  qed simp
  from this [of "\<lparr> cl_counts = Map.empty, cl_endpoints = {}, cl_candidates = Map.empty, cl_conflicts = [] \<rparr>"]
  show ?thesis by (simp add: attrib_ok_def new_classifier_def single_def)
qed

text \<open>A history of a classifier: frames received on the taps, and reports asked for.\<close>

datatype tap_event = Received int bytes int | Reported int

definition tap_step :: "tap_event \<Rightarrow> classifier \<Rightarrow> classifier" where
  "tap_step ev c =
     (case ev of
        Received ep buf now \<Rightarrow> (case read_frame_bytes ep buf now c of None \<Rightarrow> c | Some c' \<Rightarrow> c')
      | Reported now \<Rightarrow> snd (attribution now c))"

lemma tap_step_simps:
  "tap_step (Received ep buf now) c = (case read_frame_bytes ep buf now c of None \<Rightarrow> c | Some c' \<Rightarrow> c')"
  "tap_step (Reported now) c = snd (attribution now c)"
  by (simp_all add: tap_step_def)

definition sources :: "tap_event list \<Rightarrow> (int \<times> bytes) set" where
  "sources evs = {(ep, take 6 (drop 6 buf)) |ep buf now. Received ep buf now \<in> set evs}"

lemma attrib_ok_mono: "attrib_ok seen c \<Longrightarrow> seen \<subseteq> seen' \<Longrightarrow> attrib_ok seen' c"
  by (auto simp: attrib_ok_def)

lemma read_frame_attrib_ok:
  assumes "attrib_ok seen c" and "read_frame_bytes ep buf now c = Some c'"
  shows "attrib_ok (insert (ep, take 6 (drop 6 buf)) seen) c'"
proof -
  obtain l t where "c' = (if 12 \<le> length buf then observe_source ep (take 6 (drop 6 buf)) now (count_frame ep l t c) else count_frame ep l t c)"
    using assms(2) by (auto simp: read_frame_bytes_def Let_def split: option.splits)
  moreover have ok: "attrib_ok seen (count_frame ep l t c)" using assms(1) by (simp add: attrib_ok_def)
  ultimately show ?thesis
    using observe_attrib_ok [OF ok, of ep "take 6 (drop 6 buf)" now] attrib_ok_mono [OF ok subset_insertI] by simp
qed

lemma history_attrib_ok: "attrib_ok (sources evs) (fold tap_step evs (new_classifier devs))"
proof (induction evs rule: rev_induct)
  case Nil
  then show ?case using new_attrib_ok by (simp add: sources_def)
next
  case (snoc ev evs)
  let ?c = "fold tap_step evs (new_classifier devs)"
  have sub: "sources evs \<subseteq> sources (evs @ [ev])" by (auto simp: sources_def)
  show ?case
  proof (cases ev)
    case (Received ep buf now)
    show ?thesis
    proof (cases "read_frame_bytes ep buf now ?c")
      case None
      then show ?thesis using attrib_ok_mono [OF snoc sub] Received by (simp add: tap_step_simps)
    next
      case (Some c')
      have "insert (ep, take 6 (drop 6 buf)) (sources evs) \<subseteq> sources (evs @ [ev])" using Received by (auto simp: sources_def)
      then show ?thesis using attrib_ok_mono [OF read_frame_attrib_ok [OF snoc Some]] Received Some by (simp add: tap_step_simps)
    qed
  next
    case (Reported now)
    then show ?thesis using attrib_ok_mono [OF expire_attrib_ok [OF snoc] sub]
      by (simp add: tap_step_simps attribution_def Let_def)
  qed
qed

section \<open>Properties\<close>

text \<open>C22. Whatever frames the two taps of a link carry, a report attributes a MAC to an endpoint
  exactly where it says single, only a unicast source that endpoint really sent, and never the same MAC
  to both endpoints.\<close>

theorem attribution_is_exclusive:
  assumes "fst (attribution now (fold tap_step evs (new_classifier devs))) = out"
  shows "\<forall>(ep, st, m) \<in> set out. (st = AttribSingle \<longleftrightarrow> m \<noteq> None) \<and>
    (\<forall>x. m = Some x \<longrightarrow> (ep, x) \<in> sources evs \<and> valid_source_mac x \<and> (\<forall>(ep', _, m') \<in> set out. m' = Some x \<longrightarrow> ep' = ep))"
proof -
  let ?c = "expire now (fold tap_step evs (new_classifier devs))"
  have ok: "attrib_ok (sources evs) ?c" by (rule expire_attrib_ok [OF history_attrib_ok])
  have e: "\<exists>ep \<in> {0, 1}. x = (ep, if ca_state (candidate_of ep ?c) = AttribSingle then (AttribSingle, Some (ca_mac (candidate_of ep ?c)))
      else (ca_state (candidate_of ep ?c), None))" if "x \<in> set out" for x
  proof -
    have "\<not> in_conflict (ca_mac (candidate_of ep ?c)) ?c" if "ca_state (candidate_of ep ?c) = AttribSingle" for ep
      using ok that candidate_of_single_iff [of ?c ep] by (auto simp: attrib_ok_def)
    then show ?thesis using \<open>x \<in> set out\<close> assms by (auto simp: attribution_def Let_def split: if_splits)
  qed
  have s: "single ?c ep x" if "(ep, st, Some x) \<in> set out" for ep st x
    using e [OF that] by (auto simp: candidate_of_single_iff split: if_splits)
  have st: "st = AttribSingle \<longleftrightarrow> m \<noteq> None" if "(ep, st, m) \<in> set out" for ep st m
    using e [OF that] by (auto split: if_splits)
  have u: "ep' = ep" if "single ?c ep x" "single ?c ep' x" for ep ep' x
  proof -
    have "0 \<le> ep \<and> ep \<le> 1" "0 \<le> ep' \<and> ep' \<le> 1" using ok that by (auto simp: attrib_ok_def)
    then have "ep = 0 \<or> ep = 1" "ep' = 0 \<or> ep' = 1" by linarith+
    then show ?thesis using ok that by (auto simp: attrib_ok_def)
  qed
  show ?thesis
  proof (rule ballI)
    fix y assume "y \<in> set out"
    moreover obtain ep st m where y: "y = (ep, st, m)" by (cases y)
    ultimately have o: "(ep, st, m) \<in> set out" by simp
    have "(ep, x) \<in> sources evs \<and> valid_source_mac x \<and> (\<forall>(ep', _, m') \<in> set out. m' = Some x \<longrightarrow> ep' = ep)" if m: "m = Some x" for x
    proof -
      have x: "single ?c ep x" using s o m by blast
      then have "(ep, x) \<in> sources evs \<and> valid_source_mac x" using ok by (auto simp: attrib_ok_def)
      moreover have "ep' = ep" if "(ep', st', Some x) \<in> set out" for ep' st' using u [OF x s [OF that]] .
      ultimately show ?thesis by auto
    qed
    then show "case y of (ep, st, m) \<Rightarrow> (st = AttribSingle \<longleftrightarrow> m \<noteq> None) \<and>
      (\<forall>x. m = Some x \<longrightarrow> (ep, x) \<in> sources evs \<and> valid_source_mac x \<and> (\<forall>(ep', _, m') \<in> set out. m' = Some x \<longrightarrow> ep' = ep))"
      using st [OF o] y by simp
  qed
qed

text \<open>The memory of a classifier is bounded and clean: at most 32 conflicting MACs are
  remembered, each once, and none of them is attributed to an endpoint.\<close>

theorem conflicts_bounded:
  "length (cl_conflicts (fold tap_step evs (new_classifier devs))) \<le> max_conflict \<and>
   distinct (map fst (cl_conflicts (fold tap_step evs (new_classifier devs)))) \<and>
   (\<forall>ep m. single (fold tap_step evs (new_classifier devs)) ep m \<longrightarrow> \<not> in_conflict m (fold tap_step evs (new_classifier devs)))"
  using history_attrib_ok [of evs devs] by (simp add: attrib_ok_def)

text \<open>An endpoint that sources two MACs is still attributed one of them when the other is in conflict.\<close>

lemma conflicted_source_stays_single:
  "fst (attribution 5 (observe_source 0 [2, 0, 0, 0, 0, 9] 4 (observe_source 0 [2, 0, 0, 0, 0, 1] 3
      (observe_source 0 [2, 0, 0, 0, 0, 9] 2 (observe_source 1 [2, 0, 0, 0, 0, 9] 1 (new_classifier [(0, ''a''), (1, ''b'')]))))))
    = [(0, AttribSingle, Some [2, 0, 0, 0, 0, 1]), (1, AttribNone, None)]"
  by code_simp

section \<open>Witnesses\<close>

definition sample_event :: tap_event where
  "sample_event = Received 0 (replicate 6 0xFF @ [2, 0, 0, 0, 0, 1, 0x08, 0x06]) 1"

theorem attribution_is_exclusive_witness: "(0, [2, 0, 0, 0, 0, 1]) \<in> sources [sample_event]"
proof -
  have "fst (attribution 2 (fold tap_step [sample_event] (new_classifier [(0, ''a''), (1, ''b'')]))) =
      [(0, AttribSingle, Some [2, 0, 0, 0, 0, 1]), (1, AttribNone, None)]"
    by code_simp
  from attribution_is_exclusive [OF this] show ?thesis by simp
qed

end
