(* ===== verification/Server_Start.thy ===== *)
theory Server_Start
  imports Server_Lab
begin

text \<open>
  Starting nodes (startNodes and its helpers in server/handlers.go, prepareLabDir and the
  NVRAM half of nvram_linux.go and nvram_common.go, setupVPCSFabric in fabric_linux.go),
  and the handlers built on it: lab.start, node.start, node.restart, lab.wipe,
  config.extract and status.

  The shared lab directory is part of the server's files, a map from paths; reading,
  writing, making a directory and removing fail when the env says so.
\<close>

section \<open>nvram_common.go\<close>

definition nvram_filename :: "int \<Rightarrow> string" where
  "nvram_filename i = (let ds = itoa (instance_id i) in ''nvram_'' @ replicate (5 - length ds) (CHR ''0'') @ ds)"

definition is_letter :: "char \<Rightarrow> bool" where
  "is_letter c = (let n = of_char c :: nat in (97 \<le> n \<and> n \<le> 122) \<or> (65 \<le> n \<and> n \<le> 90))"

definition is_digit_or_hyphen :: "char \<Rightarrow> bool" where
  "is_digit_or_hyphen c = (let n = of_char c :: nat in (48 \<le> n \<and> n \<le> 57) \<or> n = 45)"

fun sanitize_from :: "string \<Rightarrow> string \<Rightarrow> string" where
  "sanitize_from acc [] = acc"
| "sanitize_from acc (c # cs) =
     (if is_letter c then sanitize_from (acc @ [c]) cs
      else if is_digit_or_hyphen c then sanitize_from (if length acc > 0 then acc @ [c] else acc) cs
      else sanitize_from acc cs)"

definition sanitize_hostname :: "string \<Rightarrow> string" where
  "sanitize_hostname name = sanitize_from [] name"

definition nl :: string where
  "nl = [CHR 0x0A]"

definition default_startup_config :: "string \<Rightarrow> int \<Rightarrow> string" where
  "default_startup_config name i =
     (let host = (if sanitize_hostname name = [] then ''Node'' @ itoa i else sanitize_hostname name)
      in ''hostname '' @ host @ nl @ ''no ip domain lookup'' @ nl @ ''line con 0'' @ nl
         @ '' exec-timeout 0 0'' @ nl @ '' logging synchronous'' @ nl @ ''end'' @ nl)"

definition effective_startup_config :: "node \<Rightarrow> string" where
  "effective_startup_config n =
     (if startup_config n \<noteq> [] then startup_config n else default_startup_config (node_name n) (node_id n))"

section \<open>The shared lab directory\<close>

definition lab_dir :: "server_cfg \<Rightarrow> 'k server \<Rightarrow> string" where
  "lab_dir cfg s = cfg_run_dir cfg @ ''/'' @ lab_id (the_doc s)"

definition in_dir :: "string \<Rightarrow> string \<Rightarrow> string" where
  "in_dir d f = d @ ''/'' @ f"

definition write_file :: "'k env \<Rightarrow> string \<Rightarrow> bytes \<Rightarrow> 'k server \<Rightarrow> serve_error option \<times> 'k server" where
  "write_file E path bs s =
     (if ev_file_ok E path (fw_kernel (sv_world s)) then (None, s \<lparr> sv_files := (sv_files s)(path \<mapsto> bs) \<rparr>)
      else (Some (File_Failed path), s))"

definition inject_nvram :: "'k env \<Rightarrow> server_cfg \<Rightarrow> node \<Rightarrow> 'k server \<Rightarrow> serve_error option \<times> 'k server" where
  "inject_nvram E cfg n s =
     (let config = effective_startup_config n;
          data = encode_nvram (to_bytes config)
            \<lparr> ios_version = 0, private_text = [], image_size = nvram_kib_for (length config) * 1024 \<rparr>
      in write_file E (in_dir (lab_dir cfg s) (nvram_filename (node_id n))) data s)"

definition extract_nvram :: "'k env \<Rightarrow> server_cfg \<Rightarrow> int \<Rightarrow> 'k server \<Rightarrow> (serve_error, string) result" where
  "extract_nvram E cfg i s =
     (let path = in_dir (lab_dir cfg s) (nvram_filename i)
      in case sv_files s path of
           None \<Rightarrow> Inr []
         | Some bs \<Rightarrow>
             if \<not> ev_file_ok E path (fw_kernel (sv_world s)) then Inl (File_Failed path)
             else case decode_nvram bs of Inl e \<Rightarrow> Inl (Nvram_Undecodable e) | Inr c \<Rightarrow> Inr (of_bytes c))"

fun inject_all :: "'k env \<Rightarrow> server_cfg \<Rightarrow> int list \<Rightarrow> node list \<Rightarrow> 'k server \<Rightarrow> serve_error option \<times> 'k server" where
  "inject_all E cfg ids [] s = (None, s)"
| "inject_all E cfg ids (n # ns) s =
     (if node_kind n \<noteq> KindIOL then inject_all E cfg ids ns s
      else if ids \<noteq> [] \<and> node_id n \<notin> set ids then inject_all E cfg ids ns s
      else case inject_nvram E cfg n s of
             (Some e, s1) \<Rightarrow> (Some e, s1)
           | (None, s1) \<Rightarrow> inject_all E cfg ids ns s1)"

definition write_iourc :: "'k env \<Rightarrow> server_cfg \<Rightarrow> string \<Rightarrow> 'k server \<Rightarrow> serve_error option \<times> 'k server" where
  "write_iourc E cfg dir s =
     (case sv_files s (cfg_iourc cfg) of
        None \<Rightarrow> (None, s)
      | Some bs \<Rightarrow>
          if \<not> ev_file_ok E (cfg_iourc cfg) (fw_kernel (sv_world s)) then (Some (File_Failed (cfg_iourc cfg)), s)
          else write_file E (in_dir dir ''iourc'') bs s)"

definition netmap_for :: "'k env \<Rightarrow> 'k server \<Rightarrow> string" where
  "netmap_for E s = build_static (ev_entries E (static_netmap_entries (fl_taps (the_lab s))))"

definition prepare_lab_dir ::
  "'k env \<Rightarrow> 'k kernel \<Rightarrow> server_cfg \<Rightarrow> int list \<Rightarrow> 'k server \<Rightarrow> serve_error option \<times> 'k server" where
  "prepare_lab_dir E K cfg ids s =
     (let dir = lab_dir cfg s
      in if \<not> ev_file_ok E dir (fw_kernel (sv_world s)) then (Some (File_Failed dir), s)
         else case write_file E (in_dir dir ''NETMAP'') (to_bytes (netmap_for E s)) s of
                (Some e, s1) \<Rightarrow> (Some e, s1)
              | (None, s1) \<Rightarrow>
                  (case start_fabric E K ids s1 of
                     (Some e, s2) \<Rightarrow> (Some e, s2)
                   | (None, s2) \<Rightarrow>
                       (case write_iourc E cfg dir s2 of
                          (Some e, s3) \<Rightarrow> (Some e, s3)
                        | (None, s3) \<Rightarrow> inject_all E cfg ids (nodes (the_doc s3)) s3)))"

section \<open>Endpoints and processes\<close>

record started =
  sd_node :: int
  sd_console :: int
  sd_pid :: int
  sd_state :: nstate

record failure =
  sf_node :: int
  sf_error :: serve_error
  sf_state :: "nstate option"

record start_reply =
  sr_started :: "started list"
  sr_failed :: "failure list"

definition state_of :: "'k server \<Rightarrow> int \<Rightarrow> nstate" where
  "state_of s i = (case sv_nodes s i of None \<Rightarrow> StateStopped | Some n \<Rightarrow> mstate (ln_machine n))"

definition console_of :: "'k server \<Rightarrow> int \<Rightarrow> int" where
  "console_of s i = (case sv_nodes s i of None \<Rightarrow> 0 | Some n \<Rightarrow> ln_console n)"

definition report :: "'k server \<Rightarrow> int \<Rightarrow> int \<Rightarrow> int \<Rightarrow> started" where
  "report s i cp pid = \<lparr> sd_node = i, sd_console = cp, sd_pid = pid, sd_state = state_of s i \<rparr>"

text \<open>startFailure; the runtime is nil for an unknown node.\<close>

definition start_failure :: "'k server \<Rightarrow> int \<Rightarrow> bool \<Rightarrow> serve_error \<Rightarrow> failure" where
  "start_failure s i known e = \<lparr> sf_node = i, sf_error = e, sf_state = (if known then Some (state_of s i) else None) \<rparr>"

definition can_start :: "'k server \<Rightarrow> int \<Rightarrow> bool" where
  "can_start s i = can_transition (state_of s i) StateStarting"

definition attach_node :: "'k kernel \<Rightarrow> int \<Rightarrow> 'k server \<Rightarrow> fabric_failure option \<times> 'k server" where
  "attach_node K i = on_fabric_call (attach_fabric_for_node K i)"

definition start_extnet_node ::
  "'k env \<Rightarrow> 'k kernel \<Rightarrow> server_cfg \<Rightarrow> int \<Rightarrow> 'k server \<Rightarrow> (serve_error, started) result \<times> 'k server" where
  "start_extnet_node E K cfg i s =
     (if \<not> cfg_nat cfg then (Inl (Kind_Unsupported i), s)
      else if nr_extnet (rt_of s i) \<noteq> None then (Inr (report s i 0 0), s)
      else if \<not> can_start s i then (Inl (Not_Startable i), s)
      else let s1 = node_to StateStarting i s
           in case subnet_next (sv_subnets s1) of
                None \<Rightarrow> (Inl (Spawn_Failed i), node_to StateCrashed i s1)
              | Some (idx, pool) \<Rightarrow>
                  let s2 = s1 \<lparr> sv_subnets := pool \<rparr>
                  in case ev_route_iface E (fw_kernel (sv_world s2)) of
                       None \<Rightarrow> (Inl (Spawn_Failed i), node_to StateCrashed i (s2 \<lparr> sv_subnets := subnet_release idx (sv_subnets s2) \<rparr>))
                     | Some dev \<Rightarrow>
                         let s3 = upd_node i (\<lambda>n. n \<lparr> ln_subnet := idx \<rparr>) s2
                         in case ev_nat_start E i idx dev (fw_kernel (sv_world s3)) of
                              (None, k) \<Rightarrow> (Inl (Spawn_Failed i), node_to StateCrashed i (release_subnet i (on_kernel (\<lambda>_. k) s3)))
                            | (Some ep, k) \<Rightarrow>
                                let s4 = node_to StateRunning i
                                      (upd_rt i (\<lambda>r. r \<lparr> nr_extnet := Some ep \<rparr>) (on_kernel (\<lambda>_. k) s3))
                                in case attach_node K i s4 of
                                     (Some e, s5) \<Rightarrow>
                                       (Inl (Fabric_Failed e), node_to StateCrashed i (release_subnet i
                                          (upd_rt i (\<lambda>r. r \<lparr> nr_extnet := None \<rparr>)
                                            (on_kernel (case nr_extnet (rt_of s5 i) of None \<Rightarrow> id | Some ep' \<Rightarrow> ev_nat_close E ep') s5))))
                                   | (None, s5) \<Rightarrow> (Inr (report s5 i 0 0), s5))"

text \<open>The value Unmarshal leaves in a struct field: keys match case-insensitively, the last wins.\<close>

fun json_field :: "string \<Rightarrow> (string \<times> json) list \<Rightarrow> json option" where
  "json_field f [] = None"
| "json_field f ((k, v) # kvs) = (case json_field f kvs of Some w \<Rightarrow> Some w | None \<Rightarrow> if to_lower k = to_lower f then Some v else None)"

text \<open>The static address of a tool or PC: None when the JSON does not decode into the struct,
  Some None when there is no address.\<close>

definition net_config :: "json option \<Rightarrow> (string \<times> int \<times> string) option option" where
  "net_config j =
     (case j of
        None \<Rightarrow> Some None
      | Some JNull \<Rightarrow> Some None
      | Some (JObject kvs) \<Rightarrow>
          (let str = (\<lambda>f. case json_field f kvs of None \<Rightarrow> Some [] | Some v \<Rightarrow> json_string (Some v));
               num = (case json_field ''prefixLen'' kvs of
                        None \<Rightarrow> Some 0 | Some JNull \<Rightarrow> Some 0 | Some (JNumber t) \<Rightarrow> atoi t | _ \<Rightarrow> None)
           in case (str ''ip'', num, str ''gateway'') of
                (Some ip, Some len, Some gw) \<Rightarrow>
                  Some (if ip = [] then None else Some (ip, if len \<le> 0 \<or> len > 32 then 24 else len, gw))
              | _ \<Rightarrow> None)
      | _ \<Rightarrow> None)"

definition crash_with :: "int \<Rightarrow> serve_error \<Rightarrow> 'k server \<Rightarrow> (serve_error, started) result \<times> 'k server" where
  "crash_with i e s = (Inl e, node_to StateCrashed i s)"

definition start_tool_node ::
  "'k env \<Rightarrow> 'k kernel \<Rightarrow> server_cfg \<Rightarrow> node \<Rightarrow> int \<Rightarrow> 'k server \<Rightarrow> (serve_error, started) result \<times> 'k server" where
  "start_tool_node E K cfg n i s =
     (if \<not> cfg_tools cfg then (Inl (Kind_Unsupported i), s)
      else if nr_tool (rt_of s i) \<noteq> None then (Inr (report s i 0 0), s)
      else if \<not> can_start s i then (Inl (Not_Startable i), s)
      else let s1 = node_to StateStarting i s
           in case json_string (node_config n ''pack'') of
                None \<Rightarrow> crash_with i (Bad_Pack i) s1
              | Some pack \<Rightarrow>
                  if pack \<notin> set (cfg_packs cfg) then crash_with i (Unknown_Pack i pack) s1
                  else case net_config (node_config n ''net'') of
                         None \<Rightarrow> crash_with i (Bad_Tool_Config i) s1
                       | Some net \<Rightarrow>
                           (case ev_tool_start E \<lparr> tc_node = i, tc_pack = Some pack, tc_options = node_config n ''options'', tc_net = net \<rparr>
                                  (fw_kernel (sv_world s1)) of
                              (None, k) \<Rightarrow> crash_with i (Spawn_Failed i) (on_kernel (\<lambda>_. k) s1)
                            | (Some ep, k) \<Rightarrow>
                                let s2 = node_to StateRunning i (upd_rt i (\<lambda>r. r \<lparr> nr_tool := Some ep \<rparr>) (on_kernel (\<lambda>_. k) s1))
                                in case attach_node K i s2 of
                                     (Some e, s3) \<Rightarrow>
                                       crash_with i (Fabric_Failed e) (upd_rt i (\<lambda>r. r \<lparr> nr_tool := None \<rparr>)
                                         (on_kernel (case nr_tool (rt_of s3 i) of None \<Rightarrow> id | Some ep' \<Rightarrow> ev_tool_stop E ep') s3))
                                   | (None, s3) \<Rightarrow> (Inr (report s3 i 0 0), s3)))"

text \<open>Whether config.pc decodes into a PCState: nothing, null, or an object.\<close>

definition pc_config_ok :: "json option \<Rightarrow> bool" where
  "pc_config_ok j = (case j of None \<Rightarrow> True | Some JNull \<Rightarrow> True
     | Some (JObject kvs) \<Rightarrow>
         (case json_field ''dhcp'' kvs of None \<Rightarrow> True | Some JNull \<Rightarrow> True | Some (JBool _) \<Rightarrow> True | _ \<Rightarrow> False) \<and>
         (case json_field ''savedCommands'' kvs of None \<Rightarrow> True | Some JNull \<Rightarrow> True
          | Some (JArray vs) \<Rightarrow> list_all (\<lambda>v. json_string (Some v) \<noteq> None) vs | _ \<Rightarrow> False)
     | _ \<Rightarrow> False)"

definition start_pc_node ::
  "'k env \<Rightarrow> 'k kernel \<Rightarrow> server_cfg \<Rightarrow> node \<Rightarrow> int \<Rightarrow> 'k server \<Rightarrow> (serve_error, started) result \<times> 'k server" where
  "start_pc_node E K cfg n i s =
     (if \<not> cfg_tools cfg \<or> \<not> cfg_pc_pack cfg then (Inl (Kind_Unsupported i), s)
      else if nr_tool (rt_of s i) \<noteq> None then (Inr (report s i (console_of s i) 0), s)
      else if \<not> can_start s i then (Inl (Not_Startable i), s)
      else let s1 = node_to StateStarting i s
           in if \<not> pc_config_ok (node_config n ''pc'') then crash_with i (Bad_Tool_Config i) s1
              else case net_config (node_config n ''net'') of
                     None \<Rightarrow> crash_with i (Bad_Tool_Config i) s1
                   | Some net \<Rightarrow>
                       (case ev_tool_start E \<lparr> tc_node = i, tc_pack = None, tc_options = node_config n ''pc'', tc_net = net \<rparr>
                              (fw_kernel (sv_world s1)) of
                          (None, k) \<Rightarrow> crash_with i (Spawn_Failed i) (on_kernel (\<lambda>_. k) s1)
                        | (Some ep, k) \<Rightarrow>
                            if \<not> ev_cli_dial E i k then crash_with i (Spawn_Failed i) (on_kernel (\<lambda>_. ev_tool_stop E ep k) s1)
                            else if \<not> ev_listen E (console_of s1 i) k then crash_with i No_Port (on_kernel (\<lambda>_. ev_tool_stop E ep k) s1)
                            else let s2 = node_to StateRunning i (upd_node i (\<lambda>n. n \<lparr> ln_proc := Some 0 \<rparr>)
                                       (upd_rt i (\<lambda>r. r \<lparr> nr_tool := Some ep \<rparr>) (on_kernel (\<lambda>_. k) s1)))
                                 in case attach_node K i s2 of
                                      (Some e, s3) \<Rightarrow>
                                        crash_with i (Fabric_Failed e) (upd_rt i (\<lambda>r. r \<lparr> nr_tool := None \<rparr>)
                                          (on_kernel (case nr_tool (rt_of s3 i) of None \<Rightarrow> id | Some ep' \<Rightarrow> ev_tool_stop E ep')
                                            (kill_proc E i s3)))
                                    | (None, s3) \<Rightarrow> (Inr (report s3 i (console_of s3 i) 0), s3)))"

definition setup_vpcs_fabric ::
  "'k env \<Rightarrow> 'k kernel \<Rightarrow> server_cfg \<Rightarrow> int \<Rightarrow> 'k server \<Rightarrow> serve_error option \<times> 'k server" where
  "setup_vpcs_fabric E K cfg i s =
     (if nr_vtap (rt_of s i) then (None, s)
      else case port_next (sv_udp s) of
             None \<Rightarrow> (Some (Spawn_Failed i), s)
           | Some (bind, p1) \<Rightarrow>
               (case port_next p1 of
                  None \<Rightarrow> (Some (Spawn_Failed i), s \<lparr> sv_udp := port_release bind p1 \<rparr>)
                | Some (shim, p2) \<Rightarrow>
                    let nm = vtap_dev_name i;
                        back = (\<lambda>s. s \<lparr> sv_udp := port_release shim (port_release bind (sv_udp s)) \<rparr>);
                        k0 = fw_kernel (sv_world s);
                        s1 = s \<lparr> sv_udp := p2 \<rparr>
                    in case retry_transient_fabric (ensure_tap (kern_run K) nm (cfg_uid cfg)) k0 of
                         (Some e, _, _, k1) \<Rightarrow> (Some (Spawn_Failed i), back (on_kernel (\<lambda>_. k1) s1))
                       | (None, _, _, k1) \<Rightarrow>
                           let k2 = (if kern_exists K nm k0 \<and> kern_master K nm k1 \<noteq> None
                                     then snd (detach_dev (kern_run K) nm k1) else k1)
                           in case ev_shim_start E nm shim bind k2 of
                                (False, k3) \<Rightarrow>
                                  (Some (Spawn_Failed i), back (on_kernel (\<lambda>_. snd (delete_tap (kern_run K) nm k3)) s1))
                              | (True, k3) \<Rightarrow>
                                  (None, upd_node i (\<lambda>n. n \<lparr> ln_ports := (bind, shim) \<rparr>)
                                     (upd_rt i (\<lambda>r. r \<lparr> nr_vtap := True, nr_vtap_name := nm \<rparr>) (on_kernel (\<lambda>_. k3) s1)))))"

definition build_spec :: "server_cfg \<Rightarrow> node \<Rightarrow> int \<Rightarrow> 'k server \<Rightarrow> (serve_error, spec) result" where
  "build_spec cfg n i s =
     (let ports = (case sv_nodes s i of None \<Rightarrow> (0, 0) | Some nr \<Rightarrow> ln_ports nr);
          im = (case sv_nodes s i of None \<Rightarrow> [] | Some nr \<Rightarrow> ln_image nr);
          base = \<lparr> spec_node_id = i, image_path = [],
                   work_dir = (if node_kind_of s i = Some KindIOL then lab_dir cfg s
                               else in_dir (lab_dir cfg s) (CHR ''n'' # itoa i)), spec_ethernet = 0, spec_serial = 0,
                   spec_ram = node_ram n, console_port = console_of s i, nvram_kib = 0, vpcs_count = 0,
                   vpcs_udp_local = 0, vpcs_udp_remote = 0 \<rparr>
      in case node_kind n of
           KindIOL \<Rightarrow>
             (case sv_images s im of
                None \<Rightarrow> Inl (Image_Missing i)
              | Some info \<Rightarrow> Inr (base \<lparr> image_path := cfg_image_dir cfg @ ''/'' @ ii_filename info,
                  spec_ethernet := int_or (node_ethernet n) 1, spec_serial := int_or (node_serial n) 1,
                  spec_ram := iol_ram_for (node_ram n) (ii_class info),
                  nvram_kib := nvram_kib_for (length (effective_startup_config n)) \<rparr>))
         | KindVPCS \<Rightarrow> Inr (if nr_vtap (rt_of s i)
             then base \<lparr> vpcs_count := 1, vpcs_udp_local := fst ports, vpcs_udp_remote := snd ports \<rparr>
             else base \<lparr> vpcs_count := 1 \<rparr>)
         | _ \<Rightarrow> Inr base)"

text \<open>node.Spawn: what fails before the machine moves, then the start itself.\<close>

definition spawn :: "'k env \<Rightarrow> int \<Rightarrow> spec \<Rightarrow> 'k server \<Rightarrow> int option \<times> 'k server" where
  "spawn E i sp s =
     (case ev_spawn E sp (fw_kernel (sv_world s)) of
        (Setup_Failed, k) \<Rightarrow> (None, on_kernel (\<lambda>_. k) s)
      | (Fork_Failed, k) \<Rightarrow>
          if can_start s i then (None, node_to StateCrashed i (node_to StateStarting i (on_kernel (\<lambda>_. k) s)))
          else (None, s)
      | (Spawned pid, k) \<Rightarrow>
          if can_start s i then (Some pid, node_to StateStarting i (on_kernel (\<lambda>_. k) s)) else (None, s))"

definition vpcs_cleanup :: "'k env \<Rightarrow> 'k kernel \<Rightarrow> int \<Rightarrow> 'k server \<Rightarrow> 'k server" where
  "vpcs_cleanup E K i s =
     (if nr_vtap (rt_of s i) \<or> nr_vtap_name (rt_of s i) \<noteq> [] then teardown_vpcs E K i s else s)"

section \<open>startNodes\<close>

datatype start_step = Up started | Fatal serve_error bool | Soft serve_error

text \<open>From a spawned process to a running node.\<close>

definition promote_node :: "'k env \<Rightarrow> 'k kernel \<Rightarrow> int \<Rightarrow> int \<Rightarrow> 'k server \<Rightarrow> start_step \<times> 'k server" where
  "promote_node E K i pid s =
     (let s1 = upd_node i (\<lambda>n. n \<lparr> ln_proc := Some pid \<rparr>) s;
          s2 = (case ev_early_exit E pid (fw_kernel (sv_world s1)) of
                  None \<Rightarrow> s1
                | Some err \<Rightarrow> (case reap_decision False err of None \<Rightarrow> s1 | Some st \<Rightarrow> node_to st i s1))
      in if \<not> can_transition (state_of s2 i) StateRunning
         then (Soft (Exited_Early i), vpcs_cleanup E K i (kill_proc E i (node_to StateStopped i s2)))
         else let s3 = node_to StateRunning i s2
              in if \<not> nr_vtap (rt_of s3 i) then (Up (report s3 i (console_of s3 i) pid), s3)
                 else case attach_node K i s3 of
                        (Some e, s4) \<Rightarrow>
                          (Fatal (Fabric_Failed e) True,
                           node_to StateCrashed i (teardown_vpcs E K i (kill_proc E i (node_to StateStopped i s4))))
                      | (None, s4) \<Rightarrow> (Up (report s4 i (console_of s4 i) pid), s4))"

definition start_process ::
  "'k env \<Rightarrow> 'k kernel \<Rightarrow> server_cfg \<Rightarrow> node \<Rightarrow> int \<Rightarrow> 'k server \<Rightarrow> start_step \<times> 'k server" where
  "start_process E K cfg n i s =
     (case (if node_kind n = KindVPCS then setup_vpcs_fabric E K cfg i s else (None, s)) of
        (Some e, s1) \<Rightarrow> (Fatal e True, s1)
      | (None, s1) \<Rightarrow>
          (case build_spec cfg n i s1 of
             Inl e \<Rightarrow> (Fatal e True, vpcs_cleanup E K i s1)
           | Inr sp \<Rightarrow>
               (case spawn E i sp s1 of
                  (None, s2) \<Rightarrow> (Fatal (Spawn_Failed i) True, vpcs_cleanup E K i s2)
                | (Some pid, s2) \<Rightarrow> promote_node E K i pid s2)))"

definition live_process :: "'k server \<Rightarrow> int \<Rightarrow> bool" where
  "live_process s i \<longleftrightarrow> Option.bind (sv_nodes s i) ln_proc \<noteq> None \<and> state_of s i \<in> {StateStarting, StateRunning}"

definition of_endpoint :: "(serve_error, started) result \<times> 'k server \<Rightarrow> start_step \<times> 'k server" where
  "of_endpoint r = (case r of (Inl e, s) \<Rightarrow> (Fatal e True, s) | (Inr st, s) \<Rightarrow> (Up st, s))"

definition start_one ::
  "'k env \<Rightarrow> 'k kernel \<Rightarrow> server_cfg \<Rightarrow> int \<Rightarrow> 'k server \<Rightarrow> start_step \<times> 'k server" where
  "start_one E K cfg i s =
     (if sv_nodes s i = None then (Fatal (Unknown_Node i) False, s)
      else case find_node (the_lab s) i of
             None \<Rightarrow> (Fatal (Unknown_Node i) False, s)
           | Some n \<Rightarrow>
               if node_kind n \<in> {KindIOL, KindVPCS} \<and> live_process s i
               then (Up (report s i (console_of s i) (case Option.bind (sv_nodes s i) ln_proc of None \<Rightarrow> 0 | Some pid \<Rightarrow> pid)), s)
               else let s1 = (if node_kind n \<in> {KindIOL, KindVPCS} then upd_node i (\<lambda>n. n \<lparr> ln_proc := None \<rparr>) s else s)
                    in case node_kind n of
                         KindNAT \<Rightarrow> of_endpoint (start_extnet_node E K cfg i s1)
                       | KindTool \<Rightarrow> of_endpoint (start_tool_node E K cfg n i s1)
                       | KindPC \<Rightarrow> of_endpoint (start_pc_node E K cfg n i s1)
                       | _ \<Rightarrow> start_process E K cfg n i s1)"

fun start_each ::
  "'k env \<Rightarrow> 'k kernel \<Rightarrow> server_cfg \<Rightarrow> bool \<Rightarrow> int list \<Rightarrow> start_reply \<Rightarrow> 'k server
     \<Rightarrow> (serve_error, start_reply) result \<times> 'k server" where
  "start_each E K cfg single [] out s = (Inr out, s)"
| "start_each E K cfg single (i # is) out s =
     (case start_one E K cfg i s of
        (Up st, s1) \<Rightarrow> start_each E K cfg single is (out \<lparr> sr_started := sr_started out @ [st] \<rparr>) s1
      | (Fatal e known, s1) \<Rightarrow>
          if single then (Inl e, s1)
          else start_each E K cfg single is (out \<lparr> sr_failed := sr_failed out @ [start_failure s1 i known e] \<rparr>) s1
      | (Soft e, s1) \<Rightarrow>
          start_each E K cfg single is (out \<lparr> sr_failed := sr_failed out @ [start_failure s1 i True e] \<rparr>) s1)"

definition i386_refused :: "server_cfg \<Rightarrow> 'k server \<Rightarrow> int \<Rightarrow> bool" where
  "i386_refused cfg s i =
     (case (sv_nodes s i, find_node (the_lab s) i) of
        (Some nr, Some n) \<Rightarrow>
          if node_kind n \<noteq> KindIOL \<or> \<not> cfg_disable_i386 cfg then False
          else if live_process s i then False
          else (case sv_images s (ln_image nr) of None \<Rightarrow> False | Some info \<Rightarrow> ii_i386 info)
      | _ \<Rightarrow> False)"

definition preflight_iol_images :: "server_cfg \<Rightarrow> int list \<Rightarrow> 'k server \<Rightarrow> int list \<times> start_reply" where
  "preflight_iol_images cfg is s =
     (filter (\<lambda>i. \<not> i386_refused cfg s i) is,
      \<lparr> sr_started = [],
        sr_failed = map (\<lambda>i. start_failure s i True (I386_Disabled i)) (filter (i386_refused cfg s) is) \<rparr>)"

definition start_nodes ::
  "'k env \<Rightarrow> 'k kernel \<Rightarrow> server_cfg \<Rightarrow> int list \<Rightarrow> 'k server \<Rightarrow> (serve_error, start_reply) result \<times> 'k server" where
  "start_nodes E K cfg is s =
     (case preflight_iol_images cfg is s of
        (ids, out) \<Rightarrow>
          if ids = [] then (Inr out, s)
          else case arm_doc_captures s of
                 (False, s1) \<Rightarrow> (Inl No_Port, s1)
               | (True, s1) \<Rightarrow>
                   (case prepare_lab_dir E K cfg ids (refresh_fabric cfg s1) of
                      (Some e, s2) \<Rightarrow> (Inl e, s2)
                    | (None, s2) \<Rightarrow> start_each E K cfg (length is = 1) ids out s2))"

definition handle_lab_start ::
  "'k env \<Rightarrow> 'k kernel \<Rightarrow> server_cfg \<Rightarrow> string \<Rightarrow> int list option \<Rightarrow> 'k server
     \<Rightarrow> (serve_error, start_reply) result \<times> 'k server" where
  "handle_lab_start E K cfg lid sel s =
     (case current_lab lid s of Some e \<Rightarrow> (Inl e, s) | None \<Rightarrow> start_nodes E K cfg (target_ids sel s) s)"

definition handle_node_restart ::
  "'k env \<Rightarrow> 'k kernel \<Rightarrow> server_cfg \<Rightarrow> string \<Rightarrow> int \<Rightarrow> 'k server \<Rightarrow> (serve_error, start_reply) result \<times> 'k server" where
  "handle_node_restart E K cfg lid i s =
     (case current_lab lid s of Some e \<Rightarrow> (Inl e, s) | None \<Rightarrow> start_nodes E K cfg [i] (stop_node E K i s))"

fun wipe_nodes ::
  "'k env \<Rightarrow> 'k kernel \<Rightarrow> server_cfg \<Rightarrow> int list \<Rightarrow> int list \<Rightarrow> 'k server \<Rightarrow> (serve_error, int list) result \<times> 'k server" where
  "wipe_nodes E K cfg [] wiped s = (Inr wiped, s)"
| "wipe_nodes E K cfg (i # is) wiped s =
     (if sv_nodes s i = None then (Inl (Unknown_Node i), s)
      else let s1 = stop_node E K i s;
               path = in_dir (lab_dir cfg s1) (nvram_filename i)
           in if sv_files s1 path \<noteq> None \<and> \<not> ev_file_ok E path (fw_kernel (sv_world s1)) then (Inl (File_Failed path), s1)
              else wipe_nodes E K cfg is (wiped @ [i]) (s1 \<lparr> sv_files := (sv_files s1)(path := None) \<rparr>))"

definition handle_lab_wipe ::
  "'k env \<Rightarrow> 'k kernel \<Rightarrow> server_cfg \<Rightarrow> string \<Rightarrow> int list option \<Rightarrow> 'k server \<Rightarrow> (serve_error, int list) result \<times> 'k server" where
  "handle_lab_wipe E K cfg lid sel s =
     (case current_lab lid s of Some e \<Rightarrow> (Inl e, s) | None \<Rightarrow> wipe_nodes E K cfg (target_ids sel s) [] s)"

fun extract_all :: "'k env \<Rightarrow> server_cfg \<Rightarrow> int list \<Rightarrow> 'k server \<Rightarrow> (serve_error, (int \<times> string) list) result" where
  "extract_all E cfg [] s = Inr []"
| "extract_all E cfg (i # is) s =
     (case extract_nvram E cfg i s of
        Inl e \<Rightarrow> Inl e
      | Inr c \<Rightarrow> (case extract_all E cfg is s of Inl e \<Rightarrow> Inl e | Inr cs \<Rightarrow> Inr ((i, c) # cs)))"

definition handle_config_extract ::
  "'k env \<Rightarrow> server_cfg \<Rightarrow> string \<Rightarrow> int list option \<Rightarrow> 'k server \<Rightarrow> (serve_error, (int \<times> string) list) result" where
  "handle_config_extract E cfg lid sel s =
     (case current_lab lid s of Some e \<Rightarrow> Inl e | None \<Rightarrow> extract_all E cfg (target_ids sel s) s)"

section \<open>node.start, node.stop, pc.syncState, image.register, status\<close>

definition handle_node_start ::
  "'k env \<Rightarrow> 'k kernel \<Rightarrow> server_cfg \<Rightarrow> string \<Rightarrow> int \<Rightarrow> 'k server \<Rightarrow> (serve_error, start_reply) result \<times> 'k server" where
  "handle_node_start E K cfg lid i s =
     (case current_lab lid s of Some e \<Rightarrow> (Inl e, s) | None \<Rightarrow> start_nodes E K cfg [i] s)"

definition handle_node_stop :: "'k env \<Rightarrow> 'k kernel \<Rightarrow> string \<Rightarrow> int \<Rightarrow> 'k server \<Rightarrow> serve_error option \<times> 'k server" where
  "handle_node_stop E K lid i s =
     (case current_lab lid s of Some e \<Rightarrow> (Some e, s) | None \<Rightarrow> (None, stop_node E K i s))"

definition pc_sync_ids :: "'k env \<Rightarrow> int option \<Rightarrow> 'k server \<Rightarrow> int list" where
  "pc_sync_ids E sel s =
     (case sel of
        Some i \<Rightarrow> [i]
      | None \<Rightarrow> filter (\<lambda>i. nr_tool (rt_of s i) \<noteq> None \<and>
                  list_ex (\<lambda>n. node_id n = i \<and> node_kind n = KindPC) (nodes (the_doc s))) (node_ids E s))"

definition handle_pc_sync_state :: "'k env \<Rightarrow> string \<Rightarrow> int option \<Rightarrow> 'k server \<Rightarrow> serve_error option \<times> 'k server" where
  "handle_pc_sync_state E lid sel s =
     (case current_lab lid s of
        Some e \<Rightarrow> (Some e, s)
      | None \<Rightarrow> (None, fold (sync_pc_node E) (pc_sync_ids E sel s) s))"

definition register_image :: "string \<Rightarrow> image_info \<Rightarrow> 'k server \<Rightarrow> 'k server" where
  "register_image i info s = s \<lparr> sv_images := (sv_images s)(i \<mapsto> info) \<rparr>"

record status_node =
  st_id :: int
  st_state :: nstate
  st_console :: int
  st_pid :: int
  st_ram :: int
  st_image :: string

definition status_of_node :: "(tool_endpoint \<Rightarrow> int) \<Rightarrow> 'k server \<Rightarrow> node \<Rightarrow> status_node" where
  "status_of_node tool_pid s n =
     (let i = node_id n;
          pid = (case Option.bind (sv_nodes s i) ln_proc of None \<Rightarrow> 0 | Some p \<Rightarrow> p)
      in \<lparr> st_id = i, st_state = state_of s i, st_console = console_of s i,
           st_pid = (if pid = 0 then (case nr_tool (rt_of s i) of None \<Rightarrow> 0 | Some ep \<Rightarrow> tool_pid ep) else pid),
           st_ram = node_ram n, st_image = image_id_of n \<rparr>)"

definition handle_status :: "(tool_endpoint \<Rightarrow> int) \<Rightarrow> 'k server \<Rightarrow> string \<times> status_node list \<times> (int \<times> int option) list" where
  "handle_status tool_pid s =
     (if \<not> sv_loaded s then ([], [], [])
      else (lab_id (the_doc s), map (status_of_node tool_pid s) (nodes (the_doc s)),
            map (\<lambda>l. (link_id l, sv_captures s (link_id l))) (links (the_doc s))))"

end
