(* ===== verification/Server_Books.thy ===== *)
theory Server_Books
  imports Server_Start
begin

text \<open>
  What the nodes and links of the loaded lab hold: console ports, capture ports, udp port
  pairs and NAT subnets.  The holdings of a server state are a record of maps; a small
  relation of moves on holdings is the specification, and every handler is shown to be a
  sequence of moves, whatever the kernel, the processes and the files answer.
\<close>

section \<open>Holdings and moves\<close>

record holdings =
  h_rts :: "int set"
  h_console :: "int \<rightharpoonup> int"
  h_console_pool :: port_allocator
  h_captures :: "int \<rightharpoonup> int"
  h_bcaps :: "int \<rightharpoonup> int"
  h_capture_pool :: port_allocator
  h_ports :: "int \<rightharpoonup> int \<times> int"
  h_vtap :: "int \<Rightarrow> bool"
  h_vname :: "int \<Rightarrow> bool"
  h_udp_pool :: port_allocator
  h_subnet :: "int \<rightharpoonup> int"
  h_nat :: "int \<Rightarrow> bool"
  h_subnets :: subnet_allocator
  h_tool :: "int \<Rightarrow> bool"
  h_kind :: "int \<rightharpoonup> kind"
  h_loaded :: bool

inductive move :: "holdings \<Rightarrow> holdings \<Rightarrow> bool" where
  Nat_Up: "subnet_next (h_subnets h) = Some (n, pool) \<Longrightarrow> \<not> h_nat h i \<Longrightarrow> h_kind h i = Some KindNAT \<Longrightarrow>
     move h (h \<lparr> h_subnets := pool, h_subnet := (h_subnet h)(i \<mapsto> n), h_nat := (h_nat h)(i := True) \<rparr>)"
| Nat_Down: "h_subnet h i = Some n \<Longrightarrow> h_nat h i \<Longrightarrow>
     move h (h \<lparr> h_subnets := subnet_release n (h_subnets h), h_subnet := (h_subnet h)(i \<mapsto> 0), h_nat := (h_nat h)(i := False) \<rparr>)"
| Tool_Up: "\<not> h_tool h i \<Longrightarrow> h_kind h i = Some KindTool \<or> h_kind h i = Some KindPC \<Longrightarrow>
     move h (h \<lparr> h_tool := (h_tool h)(i := True) \<rparr>)"
| Tool_Down: "move h (h \<lparr> h_tool := (h_tool h)(i := False) \<rparr>)"
| Vpcs_Up: "port_next (h_udp_pool h) = Some (b, p1) \<Longrightarrow> port_next p1 = Some (c, p2) \<Longrightarrow> \<not> h_vtap h i \<Longrightarrow> h_kind h i = Some KindVPCS \<Longrightarrow>
     move h (h \<lparr> h_udp_pool := p2, h_ports := (h_ports h)(i \<mapsto> (b, c)), h_vtap := (h_vtap h)(i := True), h_vname := (h_vname h)(i := True) \<rparr>)"
| Vpcs_Down: "h_ports h i = Some (b, c) \<Longrightarrow> h_vtap h i \<Longrightarrow>
     move h (h \<lparr> h_udp_pool := port_release c (port_release b (h_udp_pool h)), h_ports := (h_ports h)(i \<mapsto> (0, 0)),
       h_vtap := (h_vtap h)(i := False), h_vname := (h_vname h)(i := False) \<rparr>)"
| Capture_Up: "port_next (h_capture_pool h) = Some (x, p) \<Longrightarrow> h_captures h l = None \<Longrightarrow> h_loaded h \<Longrightarrow>
     move h (h \<lparr> h_capture_pool := p, h_captures := (h_captures h)(l \<mapsto> x) \<rparr>)"
| Capture_Runs: "h_captures h l = Some x \<Longrightarrow> move h (h \<lparr> h_bcaps := (h_bcaps h)(l \<mapsto> x) \<rparr>)"
| Capture_Down: "h_captures h l = Some x \<Longrightarrow>
     move h (h \<lparr> h_capture_pool := port_release x (h_capture_pool h), h_captures := (h_captures h)(l := None),
       h_bcaps := (h_bcaps h)(l := None) \<rparr>)"
| Bcap_Down: "move h (h \<lparr> h_bcaps := m \<rparr>)" if "m \<subseteq>\<^sub>m h_bcaps h"
| Node_Up: "port_next (h_console_pool h) = Some (x, p) \<Longrightarrow> h_console h i = None \<Longrightarrow> h_loaded h \<Longrightarrow>
     move h (h \<lparr> h_console_pool := p, h_kind := (h_kind h)(i \<mapsto> kd), h_console := (h_console h)(i \<mapsto> x), h_rts := insert i (h_rts h),
       h_ports := (h_ports h)(i \<mapsto> (0, 0)), h_subnet := (h_subnet h)(i \<mapsto> 0),
       h_vtap := (h_vtap h)(i := False), h_vname := (h_vname h)(i := False), h_nat := (h_nat h)(i := False),
       h_tool := (h_tool h)(i := False) \<rparr>)"
| Node_Down: "h_console h i = Some x \<Longrightarrow> h_ports h i = Some (0, 0) \<Longrightarrow> h_subnet h i = Some 0 \<Longrightarrow> \<not> h_tool h i \<Longrightarrow>
     move h (h \<lparr> h_console_pool := port_release x (h_console_pool h), h_console := (h_console h)(i := None), h_kind := (h_kind h)(i := None),
       h_rts := h_rts h - {i}, h_ports := (h_ports h)(i := None), h_subnet := (h_subnet h)(i := None),
       h_vtap := (h_vtap h)(i := False), h_vname := (h_vname h)(i := False), h_nat := (h_nat h)(i := False),
       h_tool := (h_tool h)(i := False) \<rparr>)"

definition exact :: "('a \<rightharpoonup> int) \<Rightarrow> int set \<Rightarrow> bool" where
  "exact m T \<longleftrightarrow> (\<forall>x. x \<in> T \<longleftrightarrow> (\<exists>i. m i = Some x)) \<and>
     (\<forall>i j x. m i = Some x \<longrightarrow> m j = Some x \<longrightarrow> i = j)"

text \<open>A zero stands for nothing held.\<close>

definition nonzero :: "int option \<Rightarrow> int option" where
  "nonzero x = (case x of None \<Rightarrow> None | Some n \<Rightarrow> if n = 0 then None else Some n)"

definition udp_holder :: "(int \<rightharpoonup> int \<times> int) \<Rightarrow> int \<times> bool \<rightharpoonup> int" where
  "udp_holder m = (\<lambda>(i, second). nonzero (map_option (if second then snd else fst) (m i)))"

text \<open>L is what no node holds though the pool has handed it out.\<close>

definition console_books :: "int set \<Rightarrow> (int \<rightharpoonup> int) \<Rightarrow> port_allocator \<Rightarrow> int set \<Rightarrow> bool" where
  "console_books L m p R \<longleftrightarrow> exact m (taken_ports p - L) \<and> L \<subseteq> taken_ports p \<and> dom m = R \<and> finite R"

definition capture_books :: "(int \<rightharpoonup> int) \<Rightarrow> (int \<rightharpoonup> int) \<Rightarrow> port_allocator \<Rightarrow> bool" where
  "capture_books m running p \<longleftrightarrow> exact m (taken_ports p) \<and> running \<subseteq>\<^sub>m m \<and> finite (dom m)"

definition shim_ok :: "bool \<Rightarrow> (int \<times> int) option \<Rightarrow> bool" where
  "shim_ok up x = (case x of None \<Rightarrow> \<not> up | Some (b, c) \<Rightarrow> (if up then b \<noteq> 0 \<and> c \<noteq> 0 else b = 0 \<and> c = 0))"

definition udp_books ::
  "(int \<rightharpoonup> int \<times> int) \<Rightarrow> (int \<Rightarrow> bool) \<Rightarrow> (int \<Rightarrow> bool) \<Rightarrow> port_allocator \<Rightarrow> int set \<Rightarrow> bool" where
  "udp_books m up named p R \<longleftrightarrow>
     exact (udp_holder m) (taken_ports p) \<and> 0 < base_port p \<and> dom m = R \<and> (\<forall>i. named i = up i) \<and>
     (\<forall>i. shim_ok (up i) (m i))"

definition nat_books :: "(int \<rightharpoonup> int) \<Rightarrow> (int \<Rightarrow> bool) \<Rightarrow> subnet_allocator \<Rightarrow> int set \<Rightarrow> bool" where
  "nat_books m up T R \<longleftrightarrow>
     exact (\<lambda>i. nonzero (m i)) T \<and> dom m = R \<and> (\<forall>i. up i \<longleftrightarrow> nonzero (m i) \<noteq> None)"

definition kind_books ::
  "(int \<rightharpoonup> kind) \<Rightarrow> (int \<Rightarrow> bool) \<Rightarrow> (int \<Rightarrow> bool) \<Rightarrow> (int \<Rightarrow> bool) \<Rightarrow> int set \<Rightarrow> bool" where
  "kind_books m vt nt tn R \<longleftrightarrow>
     dom m = R \<and> (\<forall>i. vt i \<longrightarrow> m i = Some KindVPCS) \<and> (\<forall>i. nt i \<longrightarrow> m i = Some KindNAT) \<and>
     (\<forall>i. tn i \<longrightarrow> m i = Some KindTool \<or> m i = Some KindPC)"

definition idle_books :: "bool \<Rightarrow> int set \<Rightarrow> (int \<rightharpoonup> int) \<Rightarrow> bool" where
  "idle_books loaded R m \<longleftrightarrow> loaded \<or> (R = {} \<and> m = Map.empty)"

definition accounted :: "int set \<Rightarrow> holdings \<Rightarrow> bool" where
  "accounted L h \<longleftrightarrow>
     console_books L (h_console h) (h_console_pool h) (h_rts h) \<and>
     capture_books (h_captures h) (h_bcaps h) (h_capture_pool h) \<and>
     udp_books (h_ports h) (h_vtap h) (h_vname h) (h_udp_pool h) (h_rts h) \<and>
     nat_books (h_subnet h) (h_nat h) (h_subnets h) (h_rts h) \<and>
     kind_books (h_kind h) (h_vtap h) (h_nat h) (h_tool h) (h_rts h) \<and>
     idle_books (h_loaded h) (h_rts h) (h_captures h)"

section \<open>Moves keep the books\<close>

lemma exactI:
  "(\<And>x. x \<in> T \<Longrightarrow> \<exists>i. m i = Some x) \<Longrightarrow> (\<And>i x. m i = Some x \<Longrightarrow> x \<in> T) \<Longrightarrow>
     (\<And>i j x. m i = Some x \<Longrightarrow> m j = Some x \<Longrightarrow> i = j) \<Longrightarrow> exact m T"
  unfolding exact_def by blast

lemma exact_held: "exact m T \<Longrightarrow> m i = Some x \<Longrightarrow> x \<in> T"
  by (auto simp: exact_def)

lemma exact_inj: "exact m T \<Longrightarrow> m i = Some x \<Longrightarrow> m j = Some x \<Longrightarrow> i = j"
  unfolding exact_def by blast

lemma exact_holder: "exact m T \<Longrightarrow> x \<in> T \<Longrightarrow> \<exists>i. m i = Some x"
  by (auto simp: exact_def)

lemma exact_take:
  assumes e: "exact m T" and x: "x \<notin> T" and i: "m i = None"
  shows "exact (m(i \<mapsto> x)) (insert x T)"
proof (rule exactI)
  fix y assume "y \<in> insert x T"
  then show "\<exists>j. (m(i \<mapsto> x)) j = Some y"
    using exact_holder [OF e, of y] i by (cases "y = x") (auto, metis option.distinct(1))
next
  fix j y assume "(m(i \<mapsto> x)) j = Some y" then show "y \<in> insert x T"
    using exact_held [OF e] by (cases "j = i") auto
next
  fix j k y assume "(m(i \<mapsto> x)) j = Some y" "(m(i \<mapsto> x)) k = Some y"
  then show "j = k" using exact_held [OF e] exact_inj [OF e] x by (auto split: if_splits)
qed

lemma exact_give:
  assumes e: "exact m T" and i: "m i = Some x"
  shows "exact (m(i := None)) (T - {x})"
proof (rule exactI)
  fix y assume y: "y \<in> T - {x}"
  then obtain j where "m j = Some y" using exact_holder [OF e] by blast
  moreover have "j \<noteq> i" using calculation y i by auto
  ultimately show "\<exists>j. (m(i := None)) j = Some y" by auto
next
  fix j y assume "(m(i := None)) j = Some y"
  then show "y \<in> T - {x}" using exact_held [OF e] exact_inj [OF e i, of j] by (auto split: if_splits)
next
  fix j k y assume "(m(i := None)) j = Some y" "(m(i := None)) k = Some y"
  then show "j = k" using exact_inj [OF e] by (auto split: if_splits)
qed

lemma port_next_free:
  assumes "port_next p = Some (x, p')"
  shows "x \<notin> taken_ports p" "taken_ports p' = insert x (taken_ports p)" "base_port p \<le> x" "base_port p' = base_port p"
  using assms by (auto simp: port_next_def dest!: find_upto_Some split: option.splits)

lemma subnet_next_free:
  assumes "subnet_next p = Some (x, p')"
  shows "x \<notin> p" "p' = insert x p" "x \<noteq> 0"
  using assms by (auto simp: subnet_next_def dest!: find_upto_Some split: option.splits)

lemma port_release_simps [simp]:
  "taken_ports (port_release x p) = taken_ports p - {x}" "base_port (port_release x p) = base_port p"
  by (simp_all add: port_release_def)

lemma nonzero_simps [simp]:
  "nonzero None = None" "nonzero (Some 0) = None" "x \<noteq> 0 \<Longrightarrow> nonzero (Some x) = Some x"
  by (simp_all add: nonzero_def)

lemma nonzero_upd: "(\<lambda>i. nonzero ((m(j \<mapsto> x)) i)) = (\<lambda>i. nonzero (m i))(j := nonzero (Some x))"
  by auto

lemma nonzero_upd_None: "(\<lambda>i. nonzero ((m(j := None)) i)) = (\<lambda>i. nonzero (m i))(j := None)"
  by auto

lemma udp_holder_upd:
  "udp_holder (m(i \<mapsto> (b, c))) = (udp_holder m)((i, False) := nonzero (Some b), (i, True) := nonzero (Some c))"
  by (auto simp: udp_holder_def fun_eq_iff)

lemma udp_holder_drop: "udp_holder (m(i := None)) = (udp_holder m)((i, False) := None, (i, True) := None)"
  by (auto simp: udp_holder_def fun_eq_iff)

lemma udp_holder_None: "m i = None \<or> m i = Some (0, 0) \<Longrightarrow> udp_holder m (i, z) = None"
  by (auto simp: udp_holder_def)

lemma nat_books_up:
  assumes a: "nat_books m up T R" and n: "subnet_next T = Some (n, T')" and i: "\<not> up i" "m i \<noteq> None"
  shows "nat_books (m(i \<mapsto> n)) (up(i := True)) T' R"
proof -
  note N = subnet_next_free [OF n]
  have e: "exact (\<lambda>i. nonzero (m i)) T" and d: "dom m = R" and u: "\<And>i. up i \<longleftrightarrow> nonzero (m i) \<noteq> None"
    using a by (auto simp: nat_books_def)
  have "exact ((\<lambda>j. nonzero (m j))(i \<mapsto> n)) T'"
    unfolding N(2) by (rule exact_take [OF e N(1)]) (use u [of i] i(1) in simp)
  then show ?thesis
    using d u i(2) N(3) unfolding nat_books_def nonzero_upd by (auto simp: dom_def)
qed

lemma nat_books_down:
  assumes a: "nat_books m up T R" and n: "m i = Some n" and i: "up i"
  shows "nat_books (m(i \<mapsto> 0)) (up(i := False)) (subnet_release n T) R"
proof -
  have e: "exact (\<lambda>i. nonzero (m i)) T" and d: "dom m = R" and u: "\<And>i. up i \<longleftrightarrow> nonzero (m i) \<noteq> None"
    using a by (auto simp: nat_books_def)
  have "n \<noteq> 0" using u [of i] i n by (auto simp: nonzero_def split: if_splits)
  then have "exact ((\<lambda>j. nonzero (m j))(i := None)) (T - {n})"
    by (intro exact_give [OF e]) (simp add: n)
  then show ?thesis
    using d u n unfolding nat_books_def nonzero_upd by (auto simp: dom_def subnet_release_def)
qed

lemma shim_ok_simps [simp]:
  "shim_ok up None = (\<not> up)" "shim_ok True (Some (b, c)) = (b \<noteq> 0 \<and> c \<noteq> 0)" "shim_ok False (Some (b, c)) = (b = 0 \<and> c = 0)"
  by (simp_all add: shim_ok_def)

lemma udp_booksD:
  assumes "udp_books m up named p R"
  shows "exact (udp_holder m) (taken_ports p)" "0 < base_port p" "dom m = R" "named i = up i"
    "up i \<Longrightarrow> \<exists>b c. m i = Some (b, c) \<and> b \<noteq> 0 \<and> c \<noteq> 0" "\<not> up i \<Longrightarrow> m i = None \<or> m i = Some (0, 0)"
proof -
  have c: "shim_ok (up i) (m i)" using assms by (auto simp: udp_books_def)
  show "up i \<Longrightarrow> \<exists>b c. m i = Some (b, c) \<and> b \<noteq> 0 \<and> c \<noteq> 0" "\<not> up i \<Longrightarrow> m i = None \<or> m i = Some (0, 0)"
    using c by (auto simp: shim_ok_def split: option.splits if_splits)
qed (use assms in \<open>auto simp: udp_books_def\<close>)

lemma udp_books_up:
  assumes a: "udp_books m up named p R" and p: "port_next p = Some (b, p1)" "port_next p1 = Some (c, p2)"
    and i: "\<not> up i" "m i \<noteq> None"
  shows "udp_books (m(i \<mapsto> (b, c))) (up(i := True)) (named(i := True)) p2 R"
proof -
  note B = port_next_free [OF p(1)] and C = port_next_free [OF p(2)] and U = udp_booksD [OF a]
  have none: "m i = None \<or> m i = Some (0, 0)" by (rule U(6) [OF i(1)])
  have nz: "b \<noteq> 0" "c \<noteq> 0" using B C U(2) by auto
  have e1: "exact ((udp_holder m)((i, False) \<mapsto> b)) (taken_ports p1)"
    unfolding B(2) by (rule exact_take [OF U(1) B(1)]) (use none in \<open>auto simp: udp_holder_None\<close>)
  have "exact ((udp_holder m)((i, False) \<mapsto> b, (i, True) \<mapsto> c)) (taken_ports p2)"
    unfolding C(2) by (rule exact_take [OF e1 C(1)]) (use none in \<open>auto simp: udp_holder_None\<close>)
  then show ?thesis
    using a U(2,3) B(4) C(4) i nz unfolding udp_books_def udp_holder_upd by (auto simp: dom_def)
qed

lemma udp_books_down:
  assumes a: "udp_books m up named p R" and m: "m i = Some (b, c)" and i: "up i"
  shows "udp_books (m(i \<mapsto> (0, 0))) (up(i := False)) (named(i := False)) (port_release c (port_release b p)) R"
proof -
  note U = udp_booksD [OF a]
  have nz: "b \<noteq> 0" "c \<noteq> 0" using U(5) [OF i] m by auto
  have e1: "exact ((udp_holder m)((i, False) := None)) (taken_ports p - {b})"
    by (rule exact_give [OF U(1)]) (use nz m in \<open>simp add: udp_holder_def\<close>)
  have "exact ((udp_holder m)((i, False) := None, (i, True) := None)) (taken_ports p - {b} - {c})"
    by (rule exact_give [OF e1]) (use nz m in \<open>simp add: udp_holder_def\<close>)
  then show ?thesis
    using a U(2,3) m i unfolding udp_books_def udp_holder_upd by (auto simp: dom_def)
qed

text \<open>A node that holds nothing comes and goes without a trace in these two books.\<close>

lemma empty_books:
  assumes "udp_books m up named p R" and "nat_books s nats T R"
  shows "i \<notin> R \<Longrightarrow> udp_books (m(i \<mapsto> (0, 0))) (up(i := False)) (named(i := False)) p (insert i R)"
    and "i \<notin> R \<Longrightarrow> nat_books (s(i \<mapsto> 0)) (nats(i := False)) T (insert i R)"
    and "m i = Some (0, 0) \<Longrightarrow> udp_books (m(i := None)) (up(i := False)) (named(i := False)) p (R - {i})"
    and "s i = Some 0 \<Longrightarrow> nat_books (s(i := None)) (nats(i := False)) T (R - {i})"
proof -
  have drop: "udp_holder (m(i := None)) = udp_holder m" if "m i = None \<or> m i = Some (0, 0)"
    using that by (auto simp: udp_holder_def fun_eq_iff)
  have zero: "udp_holder (m(i \<mapsto> (0, 0))) = udp_holder m" if "m i = None \<or> m i = Some (0, 0)"
    using that by (auto simp: udp_holder_def fun_eq_iff)
  have nz: "(\<lambda>j. nonzero ((s(i := x)) j)) = (\<lambda>j. nonzero (s j))" if "nonzero (s i) = None" "nonzero x = None" for x
    using that by auto
  show "udp_books (m(i \<mapsto> (0, 0))) (up(i := False)) (named(i := False)) p (insert i R)" if "i \<notin> R"
  proof -
    have "m i = None" using assms(1) that by (auto simp: udp_books_def)
    then show ?thesis using assms(1) zero unfolding udp_books_def by simp
  qed
  show "nat_books (s(i \<mapsto> 0)) (nats(i := False)) T (insert i R)" if "i \<notin> R"
  proof -
    have "s i = None" using assms(2) that by (auto simp: nat_books_def)
    then show ?thesis using assms(2) nz [of "Some 0"] unfolding nat_books_def by simp
  qed
  show "udp_books (m(i := None)) (up(i := False)) (named(i := False)) p (R - {i})" if "m i = Some (0, 0)"
    using assms(1) that drop unfolding udp_books_def by auto
  show "nat_books (s(i := None)) (nats(i := False)) T (R - {i})" if "s i = Some 0"
    using assms(2) that nz [of None] unfolding nat_books_def by auto
qed

lemma console_books_up:
  assumes a: "console_books L m p R" and n: "port_next p = Some (x, p')" and i: "m i = None"
  shows "console_books L (m(i \<mapsto> x)) p' (insert i R)"
proof -
  have e: "exact m (taken_ports p - L)" and l: "L \<subseteq> taken_ports p" and x: "x \<notin> L"
    using a port_next_free(1) [OF n] by (auto simp: console_books_def)
  have "insert x (taken_ports p) - L = insert x (taken_ports p - L)" using x by auto
  then show ?thesis
    using exact_take [OF e, of x i] port_next_free [OF n] a i l by (auto simp: console_books_def)
qed

lemma console_books_down:
  assumes a: "console_books L m p R" and i: "m i = Some x"
  shows "console_books L (m(i := None)) (port_release x p) (R - {i})"
proof -
  have e: "exact m (taken_ports p - L)" and l: "L \<subseteq> taken_ports p" using a by (auto simp: console_books_def)
  have x: "x \<notin> L" using exact_held [OF e i] by simp
  have "taken_ports p - {x} - L = taken_ports p - L - {x}" by auto
  then show ?thesis using exact_give [OF e i] a l x by (auto simp: console_books_def)
qed

lemma capture_books_simps:
  assumes "capture_books m r p"
  shows "port_next p = Some (x, p') \<Longrightarrow> m l = None \<Longrightarrow> capture_books (m(l \<mapsto> x)) r p'"
    and "m l = Some x \<Longrightarrow> capture_books m (r(l \<mapsto> x)) p"
    and "m l = Some x \<Longrightarrow> capture_books (m(l := None)) (r(l := None)) (port_release x p)"
    and "r' \<subseteq>\<^sub>m r \<Longrightarrow> capture_books m r' p"
proof -
  have e: "exact m (taken_ports p)" and r: "r \<subseteq>\<^sub>m m" and fin: "finite (dom m)"
    using assms by (simp_all add: capture_books_def)
  show "capture_books (m(l \<mapsto> x)) r p'" if "port_next p = Some (x, p')" "m l = None"
  proof -
    have "m \<subseteq>\<^sub>m m(l \<mapsto> x)" using that(2) by (auto simp: map_le_def)
    then have "r \<subseteq>\<^sub>m m(l \<mapsto> x)" by (rule map_le_trans [OF r])
    then show ?thesis
      using exact_take [OF e, of x l] port_next_free [OF that(1)] that(2) fin by (simp add: capture_books_def)
  qed
  show "capture_books m (r(l \<mapsto> x)) p" if "m l = Some x"
    using e r that fin by (auto simp: capture_books_def map_le_def)
  show "capture_books (m(l := None)) (r(l := None)) (port_release x p)" if "m l = Some x"
    using exact_give [OF e that] r fin by (auto simp: capture_books_def map_le_def)
  show "capture_books m r' p" if "r' \<subseteq>\<^sub>m r"
    using e r that map_le_trans fin by (auto simp: capture_books_def)
qed

lemma kind_books_simps:
  assumes "kind_books m v a t R"
  shows "m i = Some KindVPCS \<Longrightarrow> kind_books m (v(i := True)) a t R" "m i = Some KindNAT \<Longrightarrow> kind_books m v (a(i := True)) t R"
    "kind_books m (v(i := False)) a t R" "kind_books m v (a(i := False)) t R"
    "kind_books (m(i \<mapsto> kd)) (v(i := False)) (a(i := False)) (t(i := False)) (insert i R)"
    "kind_books (m(i := None)) (v(i := False)) (a(i := False)) (t(i := False)) (R - {i})"
    "m i = Some KindTool \<or> m i = Some KindPC \<Longrightarrow> kind_books m v a (t(i := True)) R" "kind_books m v a (t(i := False)) R"
  using assms by (auto simp: kind_books_def)

lemma idle_books_simps:
  "loaded \<Longrightarrow> idle_books loaded R m" "idle_books loaded R m \<Longrightarrow> idle_books loaded R (m(l := None))"
  "idle_books loaded R m \<Longrightarrow> idle_books loaded (R - {i}) m"
  by (auto simp: idle_books_def)

lemma books_in_R:
  "nat_books m up T R \<Longrightarrow> kind_books kd v a t R \<Longrightarrow> kd i = Some x \<Longrightarrow> m i \<noteq> None"
  "udp_books po up named p R \<Longrightarrow> kind_books kd v a t R \<Longrightarrow> kd i = Some x \<Longrightarrow> po i \<noteq> None"
  "console_books L m' p' R \<Longrightarrow> m' i = None \<Longrightarrow> i \<notin> R"
  unfolding nat_books_def udp_books_def kind_books_def console_books_def by blast+

lemma move_accounted:
  assumes m: "move h h'" and a: "accounted L h"
  shows "accounted L h'"
proof -
  note A = a [unfolded accounted_def]
  note R = books_in_R(1) [of "h_subnet h" "h_nat h" "h_subnets h" "h_rts h"]
    books_in_R(2) [of "h_ports h" "h_vtap h" "h_vname h" "h_udp_pool h" "h_rts h"]
    books_in_R(3) [of L "h_console h" "h_console_pool h" "h_rts h"]
  show ?thesis
    using m
  proof cases
    case (Nat_Up n pool i)
    then show ?thesis using A R(1) nat_books_up kind_books_simps(2) by (auto simp: accounted_def)
  next
    case (Vpcs_Up b p1 c p2 i)
    then show ?thesis using A R(2) udp_books_up kind_books_simps(1) by (auto simp: accounted_def)
  next
    case (Tool_Up i)
    then show ?thesis using A kind_books_simps(7) by (auto simp: accounted_def)
  next
    case (Node_Up x p i kd)
    then show ?thesis
      using A R(3) console_books_up empty_books(1,2) kind_books_simps(5) by (auto simp: accounted_def idle_books_def)
  next
    case (Node_Down i x)
    then show ?thesis
      using A console_books_down empty_books(3,4) kind_books_simps(6) idle_books_simps(3) by (auto simp: accounted_def)
  qed (use A in \<open>auto simp: accounted_def intro: nat_books_down udp_books_down capture_books_simps kind_books_simps
      idle_books_simps\<close>)
qed

lemma moves_accounted: "move\<^sup>*\<^sup>* h h' \<Longrightarrow> accounted L h \<Longrightarrow> accounted L h'"
  by (induction rule: rtranclp_induct) (auto intro: move_accounted)

end
