(* ===== verification/Server_Holdings.thy ===== *)
theory Server_Holdings
  imports Server_Books
begin

text \<open>
  Every handler of the server is a sequence of the moves of Server_Books on the holdings of
  the loaded lab, whatever the kernel, the processes and the files answer; the reachable
  states of the server keep the books.
\<close>

section \<open>The holdings of a server state\<close>

definition holdings_of :: "'k server \<Rightarrow> holdings" where
  "holdings_of s = \<lparr>
     h_rts = dom (fl_nodes (the_lab s)),
     h_console = (\<lambda>i. map_option ln_console (sv_nodes s i)), h_console_pool = sv_console s,
     h_captures = sv_captures s, h_bcaps = sv_bcaps s, h_capture_pool = sv_capture s,
     h_ports = (\<lambda>i. map_option ln_ports (sv_nodes s i)),
     h_vtap = (\<lambda>i. nr_vtap (rt_of s i)), h_vname = (\<lambda>i. nr_vtap_name (rt_of s i) \<noteq> []), h_udp_pool = sv_udp s,
     h_subnet = (\<lambda>i. map_option ln_subnet (sv_nodes s i)), h_nat = (\<lambda>i. nr_extnet (rt_of s i) \<noteq> None),
     h_subnets = sv_subnets s, h_tool = (\<lambda>i. nr_tool (rt_of s i) \<noteq> None),
     h_kind = (\<lambda>i. Option.bind (sv_nodes s i) (\<lambda>_. node_kind_of s i)), h_loaded = sv_loaded s \<rparr>"

section \<open>What the fabric and the faults leave alone\<close>

definition shape :: "node_runtime \<Rightarrow> bool \<times> bool \<times> bool \<times> string" where
  "shape r = (nr_extnet r = None, nr_tool r = None, nr_vtap r, nr_vtap_name r)"

definition same_shapes :: "fabric_lab \<Rightarrow> fabric_lab \<Rightarrow> bool" where
  "same_shapes ll ll' \<longleftrightarrow> (\<forall>i. map_option shape (fl_nodes ll' i) = map_option shape (fl_nodes ll i))"

lemma same_shapes_refl [simp]: "same_shapes ll ll"
  by (simp add: same_shapes_def)

lemma same_shapes_eq: "fl_nodes ll' = fl_nodes ll \<Longrightarrow> same_shapes ll ll'"
  by (simp add: same_shapes_def)

lemma same_shapes_trans: "same_shapes a b \<Longrightarrow> same_shapes b c \<Longrightarrow> same_shapes a c"
  by (simp add: same_shapes_def)

lemma same_shapes_set:
  "running_nat ll i = Some e \<Longrightarrow> same_shapes ll (set_extnet i e' ll)" "running_tool ll i = Some d \<Longrightarrow> same_shapes ll (set_tool i d' ll)"
  by (auto simp: same_shapes_def shape_def running_nat_def running_tool_def set_extnet_def set_tool_def option.map_comp comp_def
      split: option.splits Option.bind_splits)

lemma attach_endpoint_shapes:
  "attach_endpoint K br lid ep k ll = (r, k', ll') \<Longrightarrow> same_shapes ll ll'"
  by (auto simp: attach_endpoint_def Let_def same_shapes_set split: option.splits prod.splits kind.splits if_splits)

lemma attach_endpoints_shapes:
  "attach_endpoints K br lid eps k ll = (r, k', ll') \<Longrightarrow> same_shapes ll ll'"
proof (induction eps arbitrary: k ll)
  case (Cons ep eps)
  obtain q k1 ll1 where q: "attach_endpoint K br lid ep k ll = (q, k1, ll1)" by (metis prod_cases3)
  show ?case using Cons q attach_endpoint_shapes [OF q] by (auto split: option.splits intro: same_shapes_trans)
qed simp

lemma mark_attached_shapes [simp]: "same_shapes ll (mark_attached K l k ll)"
  by (rule same_shapes_eq) (simp add: mark_attached_def open_link_dirstat_def open_link_slow_tee_def Let_def)

lemma attach_fabric_link_shapes:
  assumes "attach_fabric_link K l k ll = (r, k', ll')"
  shows "same_shapes ll ll'"
  using assms attach_endpoints_shapes
  by (fastforce simp: attach_fabric_link_def Let_def intro: same_shapes_trans split: sum.splits option.splits prod.splits)

lemma detach_endpoint_shapes:
  "detach_endpoint K ep k ll = (k', ll') \<Longrightarrow> same_shapes ll ll'"
  by (auto simp: detach_endpoint_def Let_def same_shapes_set split: option.splits prod.splits kind.splits if_splits)

lemma down_targets_shapes:
  "down_targets K l br f ds k ll = (r, k', ll') \<Longrightarrow> same_shapes ll ll'"
proof (induction ds arbitrary: k ll)
  case (Cons e ds)
  obtain i d where e: "e = (i, d)" by (cases e)
  obtain k1 ll1 where d: "detach_fabric_endpoint K l i k ll = (k1, ll1)" by fastforce
  obtain q k2 ll2 where a: "attach_fabric_endpoint K l i br k ll = (q, k2, ll2)" by (metis prod_cases3)
  have "same_shapes ll ll1" using d by (auto simp: detach_fabric_endpoint_def dest: detach_endpoint_shapes split: if_splits)
  moreover have "same_shapes ll ll2" using a by (auto simp: attach_fabric_endpoint_def dest: attach_endpoint_shapes split: if_splits)
  ultimately show ?case using Cons e d a by (auto split: if_splits option.splits intro: same_shapes_trans)
qed simp

lemma reconcile_down_shapes:
  assumes "reconcile_fabric_link_down K l f k ll = (r, k', ll')"
  shows "same_shapes ll ll'"
  using assms down_targets_shapes
  by (fastforce simp: reconcile_fabric_link_down_def Let_def intro: same_shapes_trans split: sum.splits option.splits prod.splits)

lemma detach_endpoints_shapes:
  "detach_endpoints K eps k ll = (k', ll') \<Longrightarrow> same_shapes ll ll'"
proof (induction eps arbitrary: k ll)
  case (Cons ep eps)
  obtain k1 ll1 where d: "detach_endpoint K ep k ll = (k1, ll1)" by fastforce
  show ?case using Cons d detach_endpoint_shapes [OF d] by (auto intro: same_shapes_trans)
qed simp

lemma detach_fabric_link_shapes:
  assumes "detach_fabric_link K l k ll = (k', ll')"
  shows "same_shapes ll ll'"
proof -
  obtain k1 ll1 k2 ll2 where d: "detach_endpoints K (endpoints l) k1 ll1 = (k2, ll2)"
    and a: "fl_nodes ll1 = fl_nodes ll" and b: "fl_nodes ll' = fl_nodes ll2"
    using assms by (fastforce simp: detach_fabric_link_def unwire_link_def Let_def split: prod.splits)
  show ?thesis using detach_endpoints_shapes [OF d] a b by (simp add: same_shapes_def)
qed

lemma realise_link_shapes:
  assumes "realise_link K l k ll = (r, k', ll')"
  shows "same_shapes ll ll'"
  using assms
  by (auto simp: realise_link_def dest: attach_fabric_link_shapes reconcile_down_shapes split: option.splits prod.splits bool.splits if_splits)

lemma attach_node_links_shapes:
  "attach_node_links K nid ok ls k ll = (r, k', ll') \<Longrightarrow> same_shapes ll ll'"
proof (induction ls arbitrary: k ll)
  case (Cons l ls)
  obtain q k1 ll1 where q: "realise_link K l k ll = (q, k1, ll1)" by (metis prod_cases3)
  show ?case using Cons q realise_link_shapes [OF q] by (auto split: if_splits option.splits intro: same_shapes_trans)
qed simp

section \<open>Steps that move nothing\<close>

lemma rt_shape:
  assumes "same_shapes (the_lab s) (the_lab s')"
  shows "shape (rt_of s' i) = shape (rt_of s i)"
  using assms [unfolded same_shapes_def, rule_format, of i]
  by (cases "fl_nodes (the_lab s) i"; cases "fl_nodes (the_lab s') i") (auto simp: rt_of_def)

lemma same_shapes_dom: "same_shapes a b \<Longrightarrow> dom (fl_nodes b) = dom (fl_nodes a)"
  unfolding same_shapes_def dom_def by (metis option.map_disc_iff)

definition same_kinds :: "fabric_lab \<Rightarrow> fabric_lab \<Rightarrow> bool" where
  "same_kinds ll ll' \<longleftrightarrow> (\<forall>i. map_option node_kind (find_node ll' i) = map_option node_kind (find_node ll i))"

lemma same_kinds_nodes: "nodes (fl_doc ll') = nodes (fl_doc ll) \<Longrightarrow> same_kinds ll ll'"
  by (simp add: same_kinds_def find_node_def)

lemma same_kinds_doc: "fl_doc ll' = fl_doc ll \<Longrightarrow> same_kinds ll ll'"
  by (simp add: same_kinds_nodes)

lemma holdings_world:
  assumes "same_shapes (the_lab s) (fw_lab w)" and k: "same_kinds (the_lab s) (fw_lab w)"
  shows "holdings_of (s \<lparr> sv_world := w \<rparr>) = holdings_of s"
proof -
  let ?s = "s \<lparr> sv_world := w \<rparr>"
  have r: "shape (rt_of ?s i) = shape (rt_of s i)" for i
    by (rule rt_shape) (use assms in simp)
  have "nr_vtap (rt_of ?s i) = nr_vtap (rt_of s i)" "nr_vtap_name (rt_of ?s i) = nr_vtap_name (rt_of s i)"
    "(nr_extnet (rt_of ?s i) = None) = (nr_extnet (rt_of s i) = None)"
    "(nr_tool (rt_of ?s i) = None) = (nr_tool (rt_of s i) = None)" for i
    using r [of i] by (simp_all add: shape_def)
  moreover have "node_kind_of ?s i = node_kind_of s i" for i using k by (simp add: node_kind_of_def same_kinds_def)
  ultimately show ?thesis using same_shapes_dom [OF assms(1)] by (simp add: holdings_of_def)
qed

lemma holdings_on_world:
  "same_shapes (the_lab s) (fw_lab (f (sv_world s))) \<Longrightarrow> same_kinds (the_lab s) (fw_lab (f (sv_world s))) \<Longrightarrow>
     holdings_of (on_world f s) = holdings_of s"
  unfolding on_world_def by (rule holdings_world)

lemma holdings_on_kernel [simp]: "holdings_of (on_kernel f s) = holdings_of s"
  unfolding on_kernel_def by (rule holdings_on_world) (simp_all add: same_kinds_doc)

lemma holdings_on_lab:
  "fl_nodes (f (the_lab s)) = fl_nodes (the_lab s) \<Longrightarrow> same_kinds (the_lab s) (f (the_lab s)) \<Longrightarrow>
     holdings_of (on_lab f s) = holdings_of s"
  unfolding on_lab_def by (rule holdings_on_world) (simp_all add: same_shapes_eq same_kinds_def find_node_def)

lemma kind_frame [simp]:
  "node_kind_of (s \<lparr> sv_nodes := m \<rparr>) = node_kind_of s" "node_kind_of (s \<lparr> sv_captures := c \<rparr>) = node_kind_of s"
  "node_kind_of (s \<lparr> sv_bcaps := c \<rparr>) = node_kind_of s" "node_kind_of (s \<lparr> sv_console := p \<rparr>) = node_kind_of s"
  "node_kind_of (s \<lparr> sv_capture := p \<rparr>) = node_kind_of s" "node_kind_of (s \<lparr> sv_udp := p \<rparr>) = node_kind_of s"
  "node_kind_of (s \<lparr> sv_subnets := T \<rparr>) = node_kind_of s" "node_kind_of (s \<lparr> sv_files := g \<rparr>) = node_kind_of s"
  "node_kind_of (on_kernel h s) = node_kind_of s" "node_kind_of (upd_node i u s) = node_kind_of s"
  "node_kind_of (upd_rt i v s) = node_kind_of s"
  by (simp_all add: fun_eq_iff node_kind_of_def find_node_def on_kernel_def on_lab_def on_world_def upd_node_def upd_rt_def)

lemma bind_const_map [simp]: "Option.bind (map_option f x) (\<lambda>_. y) = Option.bind x (\<lambda>_. y)"
  by (cases x) simp_all

lemma find_node_doc: "find_node ll i = find (\<lambda>n. node_id n = i) (nodes (fl_doc ll))"
  by (simp add: find_node_def)

lemma holdings_upd_node:
  assumes "\<And>n. ln_console (f n) = ln_console n" "\<And>n. ln_ports (f n) = ln_ports n" "\<And>n. ln_subnet (f n) = ln_subnet n"
  shows "holdings_of (upd_node i f s) = holdings_of s"
  using assms by (auto simp: holdings_of_def upd_node_def rt_of_def option.map_comp comp_def fun_eq_iff)

lemma holdings_node_to [simp]: "holdings_of (node_to st i s) = holdings_of s"
  unfolding node_to_def by (rule holdings_upd_node) simp_all

lemma holdings_kill_proc [simp]: "holdings_of (kill_proc E i s) = holdings_of s"
  by (auto simp: kill_proc_def holdings_upd_node split: option.splits)

lemma holdings_proc [simp]: "holdings_of (upd_node i (\<lambda>n. n \<lparr> ln_proc := p \<rparr>) s) = holdings_of s"
  "holdings_of (upd_node i (\<lambda>n. n \<lparr> ln_image := im \<rparr>) s) = holdings_of s"
  by (rule holdings_upd_node; simp)+

lemma holdings_delete_tap [simp]: "holdings_of (delete_tap_verified K nm s) = holdings_of s"
  by (simp add: delete_tap_verified_def)

lemma merge_pc_find:
  "map_option node_kind (find (\<lambda>n. node_id n = j) (merge_pc_state i st ns)) = map_option node_kind (find (\<lambda>n. node_id n = j) ns)"
  by (induction ns) auto

lemma merge_pc_kinds:
  "map_option node_kind (find_node (ll \<lparr> fl_doc := (fl_doc ll) \<lparr> nodes := merge_pc_state i st (nodes (fl_doc ll)) \<rparr> \<rparr>) j) =
     map_option node_kind (find_node ll j)"
  by (simp add: find_node_doc merge_pc_find)

lemma holdings_sync_pc [simp]: "holdings_of (sync_pc_node E i s) = holdings_of s"
  by (auto simp: sync_pc_node_def same_kinds_def merge_pc_kinds intro!: holdings_on_lab split: option.splits)

lemma holdings_refresh [simp]: "holdings_of (refresh_fabric cfg s) = holdings_of s"
  by (simp add: refresh_fabric_def holdings_on_lab same_kinds_doc)

lemma holdings_files [simp]: "holdings_of (s \<lparr> sv_files := f \<rparr>) = holdings_of s"
  by (simp add: holdings_of_def rt_of_def)

lemma world_nodes [simp]:
  "fl_nodes (fw_lab (put_fault i f w)) = fl_nodes (fw_lab w)" "fl_doc (fw_lab (put_fault i f w)) = fl_doc (fw_lab w)"
  "fl_nodes (fw_lab (stop_timer t w)) = fl_nodes (fw_lab w)" "fl_doc (fw_lab (stop_timer t w)) = fl_doc (fw_lab w)"
  by (cases "fw_timers w ! t"; cases "snd (fw_timers w ! t)"; simp add: put_fault_def stop_timer_def)+

lemma cancel_nodes [simp]:
  "fl_nodes (fw_lab (cancel_fault_timer i w)) = fl_nodes (fw_lab w)" "fl_doc (fw_lab (cancel_fault_timer i w)) = fl_doc (fw_lab w)"
  by (auto simp: cancel_fault_timer_def split: option.splits)

lemma teardown_fault_nodes [simp]:
  "fl_nodes (fw_lab (teardown_fault i w)) = fl_nodes (fw_lab w)" "fl_doc (fw_lab (teardown_fault i w)) = fl_doc (fw_lab w)"
  by (auto simp: teardown_fault_def split: option.splits)

lemma fold_nodes:
  "(\<And>x w. fl_nodes (fw_lab (f x w)) = fl_nodes (fw_lab w)) \<Longrightarrow> fl_nodes (fw_lab (fold f xs w)) = fl_nodes (fw_lab w)"
  "(\<And>x w. fl_doc (fw_lab (f x w)) = fl_doc (fw_lab w)) \<Longrightarrow> fl_doc (fw_lab (fold f xs w)) = fl_doc (fw_lab w)"
  by (induction xs arbitrary: w) auto

lemma holdings_cancel_node [simp]: "holdings_of (on_world (cancel_fault_timers_for_node i) s) = holdings_of s"
  "holdings_of (on_world (cancel_fault_timer l) s) = holdings_of s"
  "holdings_of (on_world (fold teardown_fault ids) s) = holdings_of s"
  "holdings_of (on_world activate_initial_faults s) = holdings_of s"
  "holdings_of (on_world (link_add_doc lk) s) = holdings_of s"
  by (rule holdings_on_world; intro same_shapes_eq same_kinds_nodes;
      simp add: cancel_fault_timers_for_node_def fold_nodes activate_initial_faults_def link_add_doc_def Let_def)+

lemma holdings_fabric_call:
  assumes "on_fabric_call g s = (r, s')"
    and "\<And>k ll r k' ll'. g k ll = (r, k', ll') \<Longrightarrow> same_shapes ll ll'"
    and "\<And>k ll r k' ll'. g k ll = (r, k', ll') \<Longrightarrow> fl_faults ll' = fl_faults ll \<and> fl_doc ll' = fl_doc ll"
  shows "holdings_of s' = holdings_of s"
  using assms by (auto simp: on_fabric_call_def on_fabric_def same_kinds_doc split: prod.splits intro!: holdings_world)

lemma holdings_attach_node: "attach_node K i s = (r, s') \<Longrightarrow> holdings_of s' = holdings_of s"
  unfolding attach_node_def
  by (erule holdings_fabric_call) (simp_all add: attach_fabric_for_node_def attach_node_links_shapes attach_node_links_doc)

lemma holdings_realise: "on_fabric_call (realise_link K l) s = (r, s') \<Longrightarrow> holdings_of s' = holdings_of s"
  by (erule holdings_fabric_call) (erule realise_link_shapes, erule realise_link_doc)

lemma unwire_link_doc:
  assumes "unwire_link K l k ll = (k', ll')"
  shows "same_shapes ll ll' \<and> fl_faults ll' = fl_faults ll \<and> fl_doc ll' = fl_doc ll"
proof -
  obtain k1 ll1 k2 ll2 where d: "detach_endpoints K (endpoints l) k1 ll1 = (k2, ll2)"
    and a: "fl_nodes ll1 = fl_nodes ll" "fl_faults ll1 = fl_faults ll" "fl_doc ll1 = fl_doc ll"
    and b: "fl_nodes ll' = fl_nodes ll2" "fl_faults ll' = fl_faults ll2" "fl_doc ll' = fl_doc ll2"
    using assms by (fastforce simp: unwire_link_def Let_def split: prod.splits)
  show ?thesis using detach_endpoints_shapes [OF d] detach_endpoints_doc [OF d] a b by (simp add: same_shapes_def)
qed

lemma holdings_unwire: "holdings_of (snd (on_fabric_call (\<lambda>k ll. (None, unwire_link K l k ll)) s)) = holdings_of s"
proof -
  obtain r s' where r: "on_fabric_call (\<lambda>k ll. (None, unwire_link K l k ll)) s = (r, s')" by fastforce
  have "holdings_of s' = holdings_of s"
    by (rule holdings_fabric_call [OF r]) (auto dest: unwire_link_doc)
  then show ?thesis using r by simp
qed

section \<open>Stopping and tearing down\<close>

abbreviation moves :: "'k server \<Rightarrow> 'k server \<Rightarrow> bool" where
  "moves s s' \<equiv> move\<^sup>*\<^sup>* (holdings_of s) (holdings_of s')"

lemma moves_trans: "moves a b \<Longrightarrow> moves b c \<Longrightarrow> moves a c"
  by (rule rtranclp_trans)

lemma moves_eq: "holdings_of s' = holdings_of s \<Longrightarrow> moves s s'"
  by simp

lemma moves_one: "move (holdings_of s) h \<Longrightarrow> holdings_of s' = h \<Longrightarrow> moves s s'"
  by auto

lemma rt_of_upd_rt: "rt_of (upd_rt i f s) j = (if j = i \<and> fl_nodes (the_lab s) i \<noteq> None then f (rt_of s i) else rt_of s j)"
  by (auto simp: rt_of_def upd_rt_def on_lab_def on_world_def split: option.splits)

lemma upd_rt_frame [simp]:
  "sv_nodes (upd_rt i f s) = sv_nodes s" "sv_console (upd_rt i f s) = sv_console s" "sv_captures (upd_rt i f s) = sv_captures s"
  "sv_bcaps (upd_rt i f s) = sv_bcaps s" "sv_capture (upd_rt i f s) = sv_capture s" "sv_udp (upd_rt i f s) = sv_udp s"
  "sv_subnets (upd_rt i f s) = sv_subnets s" "dom (fl_nodes (the_lab (upd_rt i f s))) = dom (fl_nodes (the_lab s))"
  "sv_loaded (upd_rt i f s) = sv_loaded s"
  by (auto simp: upd_rt_def on_lab_def on_world_def dom_def split: if_splits)

lemma upd_rt_nodes: "fl_nodes (the_lab (upd_rt i f s)) = (fl_nodes (the_lab s))(i := map_option f (fl_nodes (the_lab s) i))"
  by (simp add: upd_rt_def on_lab_def on_world_def)

lemma holdings_upd_rt:
  assumes "fl_nodes (the_lab s) i \<noteq> None"
  shows "holdings_of (upd_rt i f s) = (holdings_of s) \<lparr>
    h_vtap := (h_vtap (holdings_of s))(i := nr_vtap (f (rt_of s i))),
    h_vname := (h_vname (holdings_of s))(i := nr_vtap_name (f (rt_of s i)) \<noteq> []),
    h_nat := (h_nat (holdings_of s))(i := nr_extnet (f (rt_of s i)) \<noteq> None),
    h_tool := (h_tool (holdings_of s))(i := nr_tool (f (rt_of s i)) \<noteq> None) \<rparr>"
  using assms by (auto simp: holdings_of_def rt_of_upd_rt fun_eq_iff)

lemma holdings_tool:
  "holdings_of (upd_rt i (\<lambda>r. r \<lparr> nr_tool := t \<rparr>) s) = (holdings_of s)
     \<lparr> h_tool := (h_tool (holdings_of s))(i := fl_nodes (the_lab s) i \<noteq> None \<and> t \<noteq> None) \<rparr>"
proof (cases "fl_nodes (the_lab s) i")
  case (Some r)
  then have "fl_nodes (the_lab s) i \<noteq> None" by simp
  from holdings_upd_rt [OF this, of "\<lambda>r. r \<lparr> nr_tool := t \<rparr>"] Some show ?thesis
    by simp (simp add: holdings_of_def fun_upd_idem)
next
  case None
  then have "fl_nodes (the_lab (upd_rt i (\<lambda>r. r \<lparr> nr_tool := t \<rparr>) s)) = fl_nodes (the_lab s)"
    by (simp add: upd_rt_nodes fun_upd_idem)
  then have "rt_of (upd_rt i (\<lambda>r. r \<lparr> nr_tool := t \<rparr>) s) = rt_of s" by (simp add: rt_of_def fun_eq_iff)
  moreover have "\<not> h_tool (holdings_of s) i" using None by (simp add: holdings_of_def rt_of_def blank_rt_def)
  ultimately show ?thesis using None by (simp add: holdings_of_def fun_upd_idem)
qed

lemma tool_down_moves: "moves s (upd_rt i (\<lambda>r. r \<lparr> nr_tool := None \<rparr>) s)"
  by (rule moves_one [OF Tool_Down [of "holdings_of s" i]]) (simp add: holdings_tool)

lemma rt_frame [simp]:
  "rt_of (on_kernel f s) = rt_of s" "rt_of (upd_node i g s) = rt_of s" "rt_of (node_to st i s) = rt_of s"
  "rt_of (kill_proc E i s) = rt_of s" "rt_of (s \<lparr> sv_udp := p \<rparr>) = rt_of s" "rt_of (delete_tap_verified K nm s) = rt_of s"
  by (auto simp: fun_eq_iff rt_of_def on_kernel_def on_world_def upd_node_def node_to_def kill_proc_def delete_tap_verified_def
      split: option.splits)

lemma node_frame [simp]:
  "sv_nodes (on_kernel f s) = sv_nodes s" "sv_nodes (on_world g s) = sv_nodes s" "sv_nodes (delete_tap_verified K nm s) = sv_nodes s"
  "fl_nodes (the_lab (on_kernel f s)) = fl_nodes (the_lab s)" "fl_nodes (the_lab (upd_node i h s)) = fl_nodes (the_lab s)"
  "fl_nodes (the_lab (node_to st i s)) = fl_nodes (the_lab s)" "fl_nodes (the_lab (kill_proc E i s)) = fl_nodes (the_lab s)"
  "fl_nodes (the_lab (delete_tap_verified K nm s)) = fl_nodes (the_lab s)" "sv_udp (on_kernel f s) = sv_udp s"
  "sv_subnets (on_kernel f s) = sv_subnets s" "sv_udp (delete_tap_verified K nm s) = sv_udp s"
  "sv_console (on_kernel f s) = sv_console s" "sv_captures (on_kernel f s) = sv_captures s"
  "sv_bcaps (on_kernel f s) = sv_bcaps s" "sv_capture (on_kernel f s) = sv_capture s" "sv_loaded (on_kernel f s) = sv_loaded s"
  by (auto simp: on_kernel_def on_world_def delete_tap_verified_def upd_node_def node_to_def kill_proc_def split: option.splits)

lemma dom_nodes: "accounted L (holdings_of s) \<Longrightarrow> dom (fl_nodes (the_lab s)) = dom (sv_nodes s)"
proof -
  assume "accounted L (holdings_of s)"
  then have "dom (h_console (holdings_of s)) = h_rts (holdings_of s)" by (simp add: accounted_def console_books_def)
  then show ?thesis by (auto simp: holdings_of_def dom_def)
qed

lemma fl_node_Some: "accounted L (holdings_of s) \<Longrightarrow> sv_nodes s i \<noteq> None \<Longrightarrow> fl_nodes (the_lab s) i \<noteq> None"
  using dom_nodes by blast

lemma holdings_subnet:
  assumes "sv_nodes s i \<noteq> None"
  shows "holdings_of (upd_node i (\<lambda>n. n \<lparr> ln_subnet := x \<rparr>) (s \<lparr> sv_subnets := T \<rparr>)) =
    (holdings_of s) \<lparr> h_subnet := (h_subnet (holdings_of s))(i \<mapsto> x), h_subnets := T \<rparr>"
  using assms by (auto simp: holdings_of_def upd_node_def rt_of_def fun_eq_iff)

lemma holdings_ports:
  assumes "sv_nodes s i \<noteq> None"
  shows "holdings_of (upd_node i (\<lambda>n. n \<lparr> ln_ports := x \<rparr>) (s \<lparr> sv_udp := p \<rparr>)) =
    (holdings_of s) \<lparr> h_ports := (h_ports (holdings_of s))(i \<mapsto> x), h_udp_pool := p \<rparr>"
  using assms by (auto simp: holdings_of_def upd_node_def rt_of_def fun_eq_iff)

lemma holdings_fields:
  "h_subnet (holdings_of s) i = map_option ln_subnet (sv_nodes s i)" "h_nat (holdings_of s) i \<longleftrightarrow> nr_extnet (rt_of s i) \<noteq> None"
  "h_ports (holdings_of s) i = map_option ln_ports (sv_nodes s i)" "h_vtap (holdings_of s) i = nr_vtap (rt_of s i)"
  "h_vname (holdings_of s) i \<longleftrightarrow> nr_vtap_name (rt_of s i) \<noteq> []" "h_subnets (holdings_of s) = sv_subnets s"
  "h_udp_pool (holdings_of s) = sv_udp s" "h_console (holdings_of s) i = map_option ln_console (sv_nodes s i)"
  "h_console_pool (holdings_of s) = sv_console s" "h_captures (holdings_of s) = sv_captures s"
  "h_bcaps (holdings_of s) = sv_bcaps s" "h_capture_pool (holdings_of s) = sv_capture s"
  "h_rts (holdings_of s) = dom (fl_nodes (the_lab s))" "h_kind (holdings_of s) i = Option.bind (sv_nodes s i) (\<lambda>_. node_kind_of s i)"
  "h_loaded (holdings_of s) = sv_loaded s" "h_tool (holdings_of s) i \<longleftrightarrow> nr_tool (rt_of s i) \<noteq> None"
  by (simp_all add: holdings_of_def)

lemma accounted_node:
  assumes "accounted L (holdings_of s)"
  shows "nr_extnet (rt_of s i) \<noteq> None \<longleftrightarrow> nonzero (map_option ln_subnet (sv_nodes s i)) \<noteq> None"
    and "nr_vtap_name (rt_of s i) \<noteq> [] \<longleftrightarrow> nr_vtap (rt_of s i)"
    and "shim_ok (nr_vtap (rt_of s i)) (map_option ln_ports (sv_nodes s i))"
  using assms by (auto simp: accounted_def nat_books_def udp_books_def holdings_fields)

text \<open>Closing a NAT endpoint, and tearing a shim down.\<close>

lemma nat_down_moves:
  assumes a: "accounted L (holdings_of s)" and e: "nr_extnet (rt_of s i) \<noteq> None"
  shows "moves s (release_subnet i (upd_rt i (\<lambda>r. r \<lparr> nr_extnet := None \<rparr>) s))"
proof -
  obtain n where i: "sv_nodes s i = Some n" using accounted_node(1) [OF a, of i] e by (cases "sv_nodes s i") auto
  let ?s = "upd_rt i (\<lambda>r. r \<lparr> nr_extnet := None \<rparr>) s"
  have rt: "fl_nodes (the_lab s) i \<noteq> None" using fl_node_Some [OF a] i by simp
  have nz: "ln_subnet n \<noteq> 0" using accounted_node(1) [OF a, of i] e i by (auto simp: nonzero_def split: if_splits)
  have "holdings_of (release_subnet i ?s) = (holdings_of ?s)
      \<lparr> h_subnet := (h_subnet (holdings_of ?s))(i \<mapsto> 0), h_subnets := subnet_release (ln_subnet n) (sv_subnets s) \<rparr>"
    using i nz holdings_subnet [of ?s i 0] by (simp add: release_subnet_def)
  also have "\<dots> = (holdings_of s) \<lparr> h_subnets := subnet_release (ln_subnet n) (h_subnets (holdings_of s)),
      h_subnet := (h_subnet (holdings_of s))(i \<mapsto> 0), h_nat := (h_nat (holdings_of s))(i := False) \<rparr>"
    unfolding holdings_upd_rt [OF rt] by (simp add: holdings_of_def fun_eq_iff)
  finally show ?thesis
    by (intro moves_one [OF Nat_Down [of "holdings_of s" i "ln_subnet n"]]) (simp_all add: holdings_fields i e)
qed

lemma release_udp_eq: "release_udp p s = s \<lparr> sv_udp := (if p \<noteq> 0 then port_release p (sv_udp s) else sv_udp s) \<rparr>"
  by (simp add: release_udp_def)

lemma vpcs_down_moves:
  assumes a: "accounted L (holdings_of s)" and v: "nr_vtap (rt_of s i)"
  shows "moves s (teardown_vpcs E K i s)"
proof -
  obtain n where i: "sv_nodes s i = Some n" using accounted_node(3) [OF a, of i] v by (cases "sv_nodes s i") auto
  have rt: "fl_nodes (the_lab s) i \<noteq> None" using fl_node_Some [OF a] i by simp
  obtain b c where p: "ln_ports n = (b, c)" by fastforce
  have nz: "b \<noteq> 0" "c \<noteq> 0" using accounted_node(3) [OF a, of i] v i p by auto
  have name: "nr_vtap_name (rt_of s i) \<noteq> []" using accounted_node(2) [OF a] v by simp
  let ?nm = "nr_vtap_name (rt_of s i)"
  define s1 where "s1 = upd_rt i (\<lambda>r. r \<lparr> nr_vtap := False \<rparr>) (on_kernel (ev_shim_close E ?nm) s)"
  define s2 where "s2 = upd_rt i (\<lambda>r. r \<lparr> nr_vtap_name := [] \<rparr>) (delete_tap_verified K ?nm s1)"
  obtain y where y: "fl_nodes (the_lab s) i = Some y" using rt by blast
  have h2: "holdings_of s2 = (holdings_of s) \<lparr> h_vtap := (h_vtap (holdings_of s))(i := False),
      h_vname := (h_vname (holdings_of s))(i := False) \<rparr>"
    using y by (auto simp: s2_def s1_def delete_tap_verified_def holdings_of_def rt_of_upd_rt upd_rt_nodes fun_eq_iff)
  have n1: "sv_udp s1 = sv_udp s" "sv_nodes s1 = sv_nodes s" by (simp_all add: s1_def)
  have n2: "sv_udp s2 = sv_udp s" "sv_nodes s2 i \<noteq> None" using n1 i by (simp_all add: s2_def)
  have eq: "teardown_vpcs E K i s = upd_node i (\<lambda>n. n \<lparr> ln_ports := (0, 0) \<rparr>)
      (s2 \<lparr> sv_udp := port_release c (port_release b (sv_udp s)) \<rparr>)"
    using v name i p nz n2(1)
    by (simp add: teardown_vpcs_def Let_def s1_def [symmetric] s2_def [symmetric] release_udp_eq)
  have "holdings_of (teardown_vpcs E K i s) = (holdings_of s)
      \<lparr> h_udp_pool := port_release c (port_release b (h_udp_pool (holdings_of s))), h_ports := (h_ports (holdings_of s))(i \<mapsto> (0, 0)),
        h_vtap := (h_vtap (holdings_of s))(i := False), h_vname := (h_vname (holdings_of s))(i := False) \<rparr>"
    unfolding eq holdings_ports [OF n2(2)] h2 by (simp add: holdings_fields)
  then show ?thesis
    by (intro moves_one [OF Vpcs_Down [of "holdings_of s" i b c]]) (simp_all add: holdings_fields i p v)
qed

lemma shim_cleanup_moves:
  assumes "accounted L (holdings_of s)"
  shows "moves s (if nr_vtap (rt_of s i) \<or> nr_vtap_name (rt_of s i) \<noteq> [] then teardown_vpcs E K i s else s)"
  using vpcs_down_moves [OF assms] accounted_node(2) [OF assms, of i] by auto

lemma stop_node_moves:
  assumes a: "accounted L (holdings_of s)"
  shows "moves s (stop_node E K i s)"
proof (cases "sv_nodes s i")
  case (Some nr)
  let ?s = "on_world (cancel_fault_timers_for_node i) s"
  have a': "accounted L (holdings_of ?s)" using a by simp
  show ?thesis
  proof (cases "nr_extnet (rt_of ?s i)")
    case (Some ep)
    then show ?thesis
      using nat_down_moves [of L "on_kernel (ev_nat_close E ep) ?s" i] a' \<open>sv_nodes s i = Some nr\<close>
      by (simp add: stop_node_def Let_def)
  next
    case None
    show ?thesis
    proof (cases "nr_tool (rt_of ?s i)")
      case (Some ep)
      let ?t = "on_kernel (ev_tool_stop E ep) (kill_proc E i (if node_kind_of ?s i = Some KindPC then sync_pc_node E i ?s else ?s))"
      have "holdings_of ?t = holdings_of s" by simp
      then have "moves s (upd_rt i (\<lambda>r. r \<lparr> nr_tool := None \<rparr>) ?t)" using tool_down_moves [of ?t i] by (simp only:)
      then show ?thesis using Some None \<open>sv_nodes s i = Some nr\<close> by (auto simp: stop_node_def Let_def split: if_splits)
    next
      case no_tool: None
      let ?s1 = "kill_proc E i (node_to StateStopped i ?s)"
      have "moves ?s1 (if nr_vtap (rt_of ?s1 i) \<or> nr_vtap_name (rt_of ?s1 i) \<noteq> [] then teardown_vpcs E K i ?s1 else ?s1)"
        by (rule shim_cleanup_moves [of L]) (use a' in simp)
      then show ?thesis using None no_tool \<open>sv_nodes s i = Some nr\<close> by (simp add: stop_node_def Let_def)
    qed
  qed
qed (simp add: stop_node_def)

lemma fold_moves:
  assumes "\<And>x t. accounted L (holdings_of t) \<Longrightarrow> moves t (f x t)" and "accounted L (holdings_of s)"
  shows "moves s (fold f xs s)"
  using assms(2)
proof (induction xs arbitrary: s)
  case (Cons x xs)
  have m: "moves s (f x s)" by (rule assms(1) [OF Cons.prems])
  show ?case using m Cons.IH [OF moves_accounted [OF m Cons.prems]] by (auto intro: rtranclp_trans)
qed simp

lemma fold_holdings: "(\<And>x t. holdings_of (f x t) = holdings_of t) \<Longrightarrow> holdings_of (fold f xs s) = holdings_of s"
  by (induction xs arbitrary: s) auto

lemma teardown_node_moves:
  assumes a: "accounted L (holdings_of s)"
  shows "moves s (teardown_node E K i s)"
proof -
  define s1 where "s1 = (case nr_tool (rt_of s i) of None \<Rightarrow> s
      | Some ep \<Rightarrow> upd_rt i (\<lambda>r. r \<lparr> nr_tool := None \<rparr>) (on_kernel (ev_tool_stop E ep) s))"
  have m: "moves s s1"
    using tool_down_moves [of "on_kernel (ev_tool_stop E _) s" i] by (auto simp: s1_def split: option.splits)
  then show ?thesis
    using shim_cleanup_moves [OF moves_accounted [OF m a], of i E K]
    unfolding teardown_node_def Let_def s1_def [symmetric] by (rule rtranclp_trans)
qed

lemma holdings_bcaps: "holdings_of (s \<lparr> sv_bcaps := m \<rparr>) = (holdings_of s) \<lparr> h_bcaps := m \<rparr>"
  by (simp add: holdings_of_def rt_of_def)

lemma holdings_bcaps_same: "(holdings_of s) \<lparr> h_bcaps := sv_bcaps s \<rparr> = holdings_of s"
  by (simp add: holdings_of_def)

lemma holdings_stop_capture:
  "holdings_of (stop_bridge_capture E l s) = (holdings_of s) \<lparr> h_bcaps := (sv_bcaps s)(l := None) \<rparr>"
proof (cases "sv_bcaps s l")
  case None
  then have "(sv_bcaps s)(l := None) = sv_bcaps s" by auto
  then show ?thesis using None by (simp add: stop_bridge_capture_def holdings_bcaps_same)
next
  case (Some p)
  then show ?thesis by (simp add: stop_bridge_capture_def holdings_bcaps)
qed

lemma holdings_delete_bridge [simp]: "holdings_of (delete_bridge_verified K l s) = holdings_of s"
  by (simp add: delete_bridge_verified_def split: sum.splits)

lemma teardown_fabric_moves:
  assumes a: "accounted L (holdings_of s)"
  shows "moves s (teardown_fabric E K s)"
proof -
  let ?att = "ev_range E (set (filter (fl_attached (the_lab s)) (map link_id (links (the_doc s)))))"
  let ?caps = "map (\<lambda>l. case sv_bcaps s l of None \<Rightarrow> 0 | Some p \<Rightarrow> p) (ev_range E (dom (sv_bcaps s)))"
  define s1 where "s1 = on_world (fold teardown_fault (ev_range E (dom (faults_of (sv_world s))))) s"
  define s2 where "s2 = on_lab (\<lambda>ll. ll \<lparr> fl_attached := (\<lambda>_. False), fl_dirstats := Map.empty, fl_slowtees := Map.empty \<rparr>)
    (s1 \<lparr> sv_bcaps := Map.empty \<rparr>)"
  define s3 where "s3 = on_kernel (\<lambda>k. ev_close_pumps E None (fold (ev_capture_stop E) ?caps k)) s2"
  define s4 where "s4 = fold (\<lambda>l s. let s' = on_world (cancel_fault_timer (link_id l)) s
      in on_kernel (\<lambda>k. snd (clear_link_netem K l k (the_lab s'))) s') (links (the_doc s3)) s3"
  define s6 where "s6 = fold (delete_tap_verified K) (ev_tap_names E (fl_taps (the_lab s)))
    (fold (delete_bridge_verified K) ?att s4)"
  have h6: "holdings_of s6 = holdings_of s4" by (simp add: s6_def fold_holdings)
  have h4: "holdings_of s4 = holdings_of s3" unfolding s4_def by (rule fold_holdings) (simp add: Let_def)
  have h3: "holdings_of s3 = holdings_of s2" by (simp add: s3_def)
  have h2: "holdings_of s2 = (holdings_of s) \<lparr> h_bcaps := Map.empty \<rparr>"
    by (simp add: s2_def s1_def holdings_on_lab same_kinds_doc holdings_bcaps)
  have m: "moves s s6" by (rule moves_one [OF Bcap_Down [of Map.empty]]) (simp_all add: h6 h4 h3 h2)
  have "teardown_fabric E K s = fold (teardown_node E K) (ev_range E (dom (sv_nodes s))) s6"
    by (simp add: teardown_fabric_def Let_def s6_def s4_def s3_def s2_def s1_def)
  moreover have "moves s6 (fold (teardown_node E K) (ev_range E (dom (sv_nodes s))) s6)"
    by (rule fold_moves [OF teardown_node_moves moves_accounted [OF m a]])
  ultimately show ?thesis using m by (simp add: rtranclp_trans [of move])
qed

section \<open>Captures\<close>

lemma capture_frame [simp]:
  "sv_bcaps (on_world g s) = sv_bcaps s" "sv_bcaps (upd_node i f s) = sv_bcaps s" "sv_bcaps (release_udp p s) = sv_bcaps s"
  "sv_bcaps (delete_tap_verified K nm s) = sv_bcaps s" "sv_captures (on_world g s) = sv_captures s"
  "sv_captures (upd_node i f s) = sv_captures s" "sv_captures (release_udp p s) = sv_captures s"
  "sv_captures (delete_tap_verified K nm s) = sv_captures s" "sv_loaded (on_world g s) = sv_loaded s"
  "sv_loaded (upd_node i f s) = sv_loaded s" "sv_loaded (release_udp p s) = sv_loaded s"
  by (simp_all add: on_world_def upd_node_def release_udp_def delete_tap_verified_def)

lemma fold_frame: "(\<And>x t. v (f x t) = v t) \<Longrightarrow> v (fold f xs s) = v s"
  by (induction xs arbitrary: s) auto

lemma teardown_bcaps: "sv_bcaps (teardown_fabric E K s) = Map.empty"
proof -
  have v: "sv_bcaps (teardown_vpcs E K i t) = sv_bcaps t" for i t
    by (simp add: teardown_vpcs_def Let_def split: option.splits)
  have n: "sv_bcaps (teardown_node E K i t) = sv_bcaps t" for i t
    by (simp add: teardown_node_def Let_def v split: option.splits)
  have b: "sv_bcaps (delete_bridge_verified K i t) = sv_bcaps t" for i t
    by (simp add: delete_bridge_verified_def split: sum.splits)
  show ?thesis
    by (simp add: teardown_fabric_def Let_def fold_frame [where v = sv_bcaps] n b on_lab_def)
qed

text \<open>Captures that do not run are given back one by one.\<close>

abbreviation give_back :: "(int \<rightharpoonup> int) \<Rightarrow> int list \<Rightarrow> port_allocator \<Rightarrow> port_allocator" where
  "give_back m ls p \<equiv> fold (\<lambda>i p. case m i of None \<Rightarrow> p | Some cp \<Rightarrow> port_release cp p) ls p"

lemma give_back_moves:
  assumes "distinct ls" and "\<And>l. l \<in> set ls \<Longrightarrow> m l \<noteq> None \<and> b l = None"
  shows "move\<^sup>*\<^sup>* (h \<lparr> h_captures := m, h_bcaps := b, h_capture_pool := p \<rparr>)
    (h \<lparr> h_captures := fold (\<lambda>i m. m(i := None)) ls m, h_bcaps := b, h_capture_pool := give_back m ls p \<rparr>)"
  using assms
proof (induction ls arbitrary: m p)
  case (Cons l ls)
  obtain x where x: "m l = Some x" using Cons.prems(2) by auto
  have bl: "b(l := None) = b" using Cons.prems(2) by auto
  let ?m = "m(l := None)" and ?p = "port_release x p"
  have first: "move (h \<lparr> h_captures := m, h_bcaps := b, h_capture_pool := p \<rparr>)
      (h \<lparr> h_captures := ?m, h_bcaps := b, h_capture_pool := ?p \<rparr>)"
    using Capture_Down [of "h \<lparr> h_captures := m, h_bcaps := b, h_capture_pool := p \<rparr>" l x] x bl by (cases h) simp
  have same: "give_back ?m ls ?p = give_back m ls ?p"
    using Cons.prems(1) by (intro fold_cong) auto
  have "move\<^sup>*\<^sup>* (h \<lparr> h_captures := ?m, h_bcaps := b, h_capture_pool := ?p \<rparr>)
    (h \<lparr> h_captures := fold (\<lambda>i m. m(i := None)) ls ?m, h_bcaps := b, h_capture_pool := give_back ?m ls ?p \<rparr>)"
    using Cons.prems by (intro Cons.IH) auto
  then have "move\<^sup>*\<^sup>* (h \<lparr> h_captures := ?m, h_bcaps := b, h_capture_pool := ?p \<rparr>)
    (h \<lparr> h_captures := fold (\<lambda>i m. m(i := None)) (l # ls) m, h_bcaps := b, h_capture_pool := give_back m (l # ls) p \<rparr>)"
    unfolding same by (simp add: x del: fun_upd_apply)
  then show ?case by (rule converse_rtranclp_into_rtranclp [where r = move, OF first])
qed simp

lemma fold_drop: "fold (\<lambda>i m. m(i := None)) ls m = m |` (- set ls)"
  by (induction ls arbitrary: m) (auto simp: fun_eq_iff restrict_map_def)

definition go_range :: "(int set \<Rightarrow> int list) \<Rightarrow> bool" where
  "go_range f \<longleftrightarrow> (\<forall>S. finite S \<longrightarrow> set (f S) = S \<and> distinct (f S))"

lemma holdings_capture_fields:
  "holdings_of (s \<lparr> sv_captures := m, sv_capture := p \<rparr>) = (holdings_of s) \<lparr> h_captures := m, h_capture_pool := p \<rparr>"
  by (simp add: holdings_of_def rt_of_def node_kind_of_def)

lemma finite_captures: "accounted L (holdings_of s) \<Longrightarrow> finite (dom (sv_captures s))"
  by (simp add: accounted_def capture_books_def holdings_fields)

lemma holdings_captures_same: "(holdings_of s) \<lparr> h_captures := sv_captures s, h_bcaps := sv_bcaps s, h_capture_pool := sv_capture s \<rparr> = holdings_of s"
  by (simp add: holdings_of_def)

lemma release_captures_moves:
  assumes a: "accounted L (holdings_of s)" and b: "sv_bcaps s = Map.empty" and g: "go_range (ev_range E)"
  shows "moves s (release_captures E s)"
proof -
  let ?m = "sv_captures s" and ?p = "sv_capture s"
  let ?ls = "ev_range E (dom ?m)"
  have r: "set ?ls = dom ?m" "distinct ?ls" using g finite_captures [OF a] by (auto simp: go_range_def)
  have e: "fold (\<lambda>i m. m(i := None)) ?ls ?m = Map.empty" unfolding fold_drop r by (auto simp: restrict_map_def dom_def)
  have "move\<^sup>*\<^sup>* ((holdings_of s) \<lparr> h_captures := ?m, h_bcaps := Map.empty, h_capture_pool := ?p \<rparr>)
    ((holdings_of s) \<lparr> h_captures := fold (\<lambda>i m. m(i := None)) ?ls ?m, h_bcaps := Map.empty, h_capture_pool := give_back ?m ?ls ?p \<rparr>)"
    by (rule give_back_moves) (use r in auto)
  moreover have "(holdings_of s) \<lparr> h_captures := ?m, h_bcaps := Map.empty, h_capture_pool := ?p \<rparr> = holdings_of s"
    using holdings_captures_same [of s] b by simp
  moreover have "holdings_of (release_captures E s) =
      (holdings_of s) \<lparr> h_captures := Map.empty, h_bcaps := Map.empty, h_capture_pool := give_back ?m ?ls ?p \<rparr>"
    unfolding release_captures_def holdings_capture_fields using b by (simp add: holdings_of_def)
  ultimately show ?thesis by (simp add: e)
qed

lemma release_captures_none: "sv_captures (release_captures E s) = Map.empty"
  by (simp add: release_captures_def)

lemma arm_links_moves:
  assumes "arm_links ls m p added = (ok, m', p')" and "b \<subseteq>\<^sub>m m" and "distinct added"
    and "\<And>l. l \<in> set added \<Longrightarrow> m l \<noteq> None \<and> b l = None" and "h_loaded h"
  shows "move\<^sup>*\<^sup>* (h \<lparr> h_captures := m, h_bcaps := b, h_capture_pool := p \<rparr>)
    (h \<lparr> h_captures := m', h_bcaps := b, h_capture_pool := p' \<rparr>)"
  using assms
proof (induction ls arbitrary: m p added)
  case (Cons l ls)
  consider "arm_links ls m p added = (ok, m', p')"
    | "m (link_id l) = None" "port_next p = None" "m' = fold (\<lambda>i m. m(i := None)) added m" "p' = give_back m added p"
    | cp q where "m (link_id l) = None" "port_next p = Some (cp, q)"
        "arm_links ls (m(link_id l \<mapsto> cp)) q (added @ [link_id l]) = (ok, m', p')"
    using Cons.prems(1) by (auto split: if_splits option.splits)
  then show ?case
  proof cases
    case 1
    show ?thesis by (rule Cons.IH [OF 1 Cons.prems(2-)])
  next
    case 2
    then show ?thesis using give_back_moves [OF Cons.prems(3,4)] by simp
  next
    case (3 cp q)
    let ?i = "link_id l"
    have bi: "b ?i = None" using Cons.prems(2) 3(1) by (metis domIff map_le_def)
    have le: "m \<subseteq>\<^sub>m m(?i \<mapsto> cp)" using 3(1) by (auto simp: map_le_def)
    have first: "move (h \<lparr> h_captures := m, h_bcaps := b, h_capture_pool := p \<rparr>)
        (h \<lparr> h_captures := m(?i \<mapsto> cp), h_bcaps := b, h_capture_pool := q \<rparr>)"
      using Capture_Up [of "h \<lparr> h_captures := m, h_bcaps := b, h_capture_pool := p \<rparr>" cp q ?i] 3 Cons.prems(5)
      by (cases h) simp
    have "move\<^sup>*\<^sup>* (h \<lparr> h_captures := m(?i \<mapsto> cp), h_bcaps := b, h_capture_pool := q \<rparr>)
        (h \<lparr> h_captures := m', h_bcaps := b, h_capture_pool := p' \<rparr>)"
    proof (rule Cons.IH [OF 3(3)])
      show "b \<subseteq>\<^sub>m m(?i \<mapsto> cp)" by (rule map_le_trans [OF Cons.prems(2) le])
      show "distinct (added @ [?i])" using Cons.prems(3) Cons.prems(4) [of ?i] 3(1) by auto
      show "\<And>l'. l' \<in> set (added @ [?i]) \<Longrightarrow> (m(?i \<mapsto> cp)) l' \<noteq> None \<and> b l' = None" using Cons.prems(4) bi by auto
    qed (rule Cons.prems(5))
    then show ?thesis using first by (rule converse_rtranclp_into_rtranclp [rotated])
  qed
qed simp

lemma arm_doc_captures_moves:
  assumes a: "accounted L (holdings_of s)" and eq: "arm_doc_captures s = (ok, s')" and ld: "sv_loaded s"
  shows "moves s s'"
proof -
  obtain m p where m: "arm_links (links (the_doc s)) (sv_captures s) (sv_capture s) [] = (ok, m, p)"
    and s': "s' = s \<lparr> sv_captures := m, sv_capture := p \<rparr>"
    using eq by (auto simp: arm_doc_captures_def split: prod.splits)
  have "move\<^sup>*\<^sup>* ((holdings_of s) \<lparr> h_captures := sv_captures s, h_bcaps := sv_bcaps s, h_capture_pool := sv_capture s \<rparr>)
    ((holdings_of s) \<lparr> h_captures := m, h_bcaps := sv_bcaps s, h_capture_pool := p \<rparr>)"
    using a ld by (intro arm_links_moves [OF m]) (auto simp: accounted_def capture_books_def holdings_fields)
  moreover have "holdings_of s' = (holdings_of s) \<lparr> h_captures := m, h_bcaps := sv_bcaps s, h_capture_pool := p \<rparr>"
    unfolding s' holdings_capture_fields by (simp add: holdings_of_def)
  ultimately show ?thesis unfolding holdings_captures_same by simp
qed

lemma start_bridge_capture_cases:
  assumes "start_bridge_capture E l cp s = (r, s')"
  obtains x where "sv_bcaps s l = Some x" "r = Some x" "s' = s"
  | "r = None" "s' = s"
  | k where "r = None" "s' = on_kernel (\<lambda>_. k) s"
  | k where "sv_bcaps s l = None" "r = Some cp" "s' = on_kernel (\<lambda>_. k) s \<lparr> sv_bcaps := (sv_bcaps s)(l \<mapsto> cp) \<rparr>"
proof (cases "sv_bcaps s l")
  case None
  show ?thesis
  proof (cases "bridge_name l")
    case (Inr br)
    obtain ok k where k: "ev_capture_start E br cp (fw_kernel (sv_world s)) = (ok, k)" by fastforce
    then have "if ok then r = Some cp \<and> s' = on_kernel (\<lambda>_. k) s \<lparr> sv_bcaps := (sv_bcaps s)(l \<mapsto> cp) \<rparr>
        else r = None \<and> s' = on_kernel (\<lambda>_. k) s"
      using assms None Inr by (auto simp: start_bridge_capture_def Let_def split: if_splits)
    then show ?thesis using that(3) [of k] that(4) [of k] None by (cases ok) simp_all
  next
    case (Inl e)
    then have "r = None" "s' = s" using assms None by (simp_all add: start_bridge_capture_def)
    then show ?thesis by (rule that(2))
  qed
next
  case (Some x)
  then have "r = Some x" "s' = s" using assms by (simp_all add: start_bridge_capture_def)
  then show ?thesis by (rule that(1) [OF Some])
qed

lemma start_bridge_capture_moves:
  assumes eq: "start_bridge_capture E l cp s = (r, s')" and c: "sv_captures s l = Some cp" and b: "sv_bcaps s \<subseteq>\<^sub>m sv_captures s"
  shows "moves s s' \<and> (r = None \<or> r = Some cp) \<and> sv_captures s' = sv_captures s"
  using eq
proof (cases rule: start_bridge_capture_cases)
  case (1 x)
  then have "x = cp" using b c by (metis domI map_le_def option.inject)
  then show ?thesis using 1 by simp
next
  case (4 k)
  have "moves s s'"
    by (rule moves_one [OF Capture_Runs [of "holdings_of s" l cp]]) (simp_all add: 4 holdings_bcaps holdings_fields c)
  then show ?thesis using 4 by simp
qed simp_all

lemma bcaps_le: "accounted L (holdings_of s) \<Longrightarrow> sv_bcaps s \<subseteq>\<^sub>m sv_captures s"
  by (simp add: accounted_def capture_books_def holdings_fields)

text \<open>capture.start and capture.stop.\<close>

lemma port_next_release: "port_next p = Some (x, q) \<Longrightarrow> port_release x q = p"
  by (auto simp: port_next_def port_release_def dest!: find_upto_Some split: option.splits)

lemma subnet_next_release: "subnet_next T = Some (x, U) \<Longrightarrow> subnet_release x U = T"
  by (auto simp: subnet_next_def subnet_release_def dest!: find_upto_Some split: option.splits)

lemma handle_capture_start_moves:
  assumes a: "accounted L (holdings_of s)"
  shows "moves s (snd (handle_capture_start E labid l s))"
proof (cases "current_lab labid s = None \<and> find_link (the_lab s) l \<noteq> None")
  case True
  then have ld: "sv_loaded s" by (auto simp: current_lab_def split: if_splits)
  note b = bcaps_le [OF a]
  show ?thesis
  proof (cases "sv_captures s l")
    case (Some cp)
    obtain r s' where r: "start_bridge_capture E l cp s = (r, s')" by fastforce
    note m = start_bridge_capture_moves [OF r Some b]
    have "(sv_captures s')(l \<mapsto> cp) = sv_captures s'" using m Some by (simp add: fun_upd_idem)
    then have id: "s' \<lparr> sv_captures := (sv_captures s')(l \<mapsto> cp) \<rparr> = s'" by simp
    have "r = None \<or> r = Some cp" using m by simp
    then have "snd (handle_capture_start E labid l s) = s'"
      using True Some r id by (auto simp: handle_capture_start_def)
    then show ?thesis using m by simp
  next
    case None
    show ?thesis
    proof (cases "port_next (sv_capture s)")
      case (Some y)
      then obtain cp q where p: "port_next (sv_capture s) = Some (cp, q)" by (cases y) auto
      let ?s = "s \<lparr> sv_capture := q \<rparr>"
      obtain r s' where r: "start_bridge_capture E l cp ?s = (r, s')" by fastforce
      have nb: "sv_bcaps s l = None" using b None by (metis domIff map_le_def)
      have undo: "holdings_of (?s \<lparr> sv_capture := port_release cp q \<rparr>) = holdings_of s"
        using port_next_release [OF p] by simp
      let ?h = "(holdings_of s) \<lparr> h_capture_pool := q, h_captures := (sv_captures s)(l \<mapsto> cp) \<rparr>"
      have up: "move (holdings_of s) ?h"
        using Capture_Up [of "holdings_of s" cp q l] p None ld by (simp add: holdings_fields)
      have runs: "move ?h (?h \<lparr> h_bcaps := (sv_bcaps s)(l \<mapsto> cp) \<rparr>)"
        using Capture_Runs [of ?h l cp] by (simp add: holdings_fields)
      have res: "handle_capture_start E labid l s = (case r of
          None \<Rightarrow> (Inl (Capture_Failed l), s' \<lparr> sv_capture := port_release cp (sv_capture s') \<rparr>)
        | Some x \<Rightarrow> (Inr x, s' \<lparr> sv_captures := (sv_captures s')(l \<mapsto> x) \<rparr>))"
        using True None p r by (auto simp: handle_capture_start_def split: option.splits)
      show ?thesis
        using r
      proof (cases rule: start_bridge_capture_cases)
        case (1 x) then show ?thesis using nb by simp
      next
        case 2 then show ?thesis using res undo by simp
      next
        case (3 k)
        have "holdings_of (on_kernel (\<lambda>_. k) ?s \<lparr> sv_capture := port_release cp q \<rparr>) =
            holdings_of (on_kernel (\<lambda>_. k) (?s \<lparr> sv_capture := port_release cp q \<rparr>))"
          by (cases s) (simp add: on_kernel_def on_world_def)
        then show ?thesis using res undo 3 by simp
      next
        case (4 k)
        have "holdings_of (snd (handle_capture_start E labid l s)) = ?h \<lparr> h_bcaps := (sv_bcaps s)(l \<mapsto> cp) \<rparr>"
          using res 4 by (simp add: holdings_of_def rt_of_def node_kind_of_def on_kernel_def on_world_def)
        then show ?thesis using up runs by (metis converse_rtranclp_into_rtranclp r_into_rtranclp)
      qed
    qed (use True None in \<open>auto simp: handle_capture_start_def\<close>)
  qed
next
  case False
  then have "snd (handle_capture_start E labid l s) = s"
    by (cases "current_lab labid s"; cases "find_link (the_lab s) l") (simp_all add: handle_capture_start_def)
  then show ?thesis by simp
qed

lemma handle_capture_stop_moves:
  assumes a: "accounted L (holdings_of s)"
  shows "moves s (snd (handle_capture_stop E labid l s))"
proof (cases "current_lab labid s")
  case ok: None
  note b = bcaps_le [OF a]
  show ?thesis
  proof (cases "sv_captures s l")
    case None
    then have "sv_bcaps s l = None" using b by (metis domIff map_le_def)
    then show ?thesis using ok None by (simp add: handle_capture_stop_def stop_bridge_capture_def)
  next
    case (Some cp)
    have "holdings_of (snd (handle_capture_stop E labid l s)) = (holdings_of s)
        \<lparr> h_capture_pool := port_release cp (sv_capture s), h_captures := (sv_captures s)(l := None), h_bcaps := (sv_bcaps s)(l := None) \<rparr>"
    proof (cases "sv_bcaps s l")
      case None
      then have "(sv_bcaps s)(l := None) = sv_bcaps s" by auto
      then show ?thesis
        using ok Some None by (simp add: handle_capture_stop_def stop_bridge_capture_def holdings_of_def rt_of_def node_kind_of_def)
    qed (use ok Some in \<open>simp add: handle_capture_stop_def stop_bridge_capture_def holdings_of_def rt_of_def node_kind_of_def\<close>)
    then show ?thesis
      using Capture_Down [of "holdings_of s" l cp] Some by (simp add: holdings_fields r_into_rtranclp)
  qed
qed (simp add: handle_capture_stop_def)

section \<open>Starting\<close>

lemma fabric_links_pass_moves:
  assumes "accounted L (holdings_of s)" and "fabric_links_pass E K ids ok ls s = (r, s')"
  shows "moves s s'"
  using assms
proof (induction ls arbitrary: s)
  case (Cons l ls)
  show ?case
  proof (cases "\<not> is_fabric_link l ok \<or> (ids \<noteq> [] \<and> fl_attached (the_lab s) (link_id l) \<and> \<not> link_touches_any l ids)")
    case True
    then show ?thesis using Cons by (auto split: if_splits)
  next
    case False
    obtain q s1 where q: "on_fabric_call (realise_link K l) s = (q, s1)" by fastforce
    have h1: "holdings_of s1 = holdings_of s" by (rule holdings_realise [OF q])
    have a1: "accounted L (holdings_of s1)" using Cons.prems(1) h1 by simp
    show ?thesis
    proof (cases "q = None \<and> (\<exists>cp. sv_captures s1 (link_id l) = Some cp \<and> cp \<noteq> 0 \<and> sv_bcaps s1 (link_id l) = None)")
      case True
      then obtain cp where cp: "sv_captures s1 (link_id l) = Some cp" "cp \<noteq> 0" "sv_bcaps s1 (link_id l) = None" by blast
      obtain u s2 where u: "start_bridge_capture E (link_id l) cp s1 = (u, s2)" by fastforce
      have m: "moves s1 s2" using start_bridge_capture_moves [OF u cp(1) bcaps_le [OF a1]] by simp
      have "r = Some (Capture_Failed (link_id l)) \<and> s' = s2 \<or> fabric_links_pass E K ids ok ls s2 = (r, s')"
        using Cons.prems(2) \<open>\<not> (\<not> is_fabric_link l ok \<or> _)\<close> q u cp True by (auto split: option.splits)
      then show ?thesis
        using m h1 Cons.IH [OF moves_accounted [OF m a1]] by (auto intro: rtranclp_trans)
    next
      case nocap: False
      have "s' = s1 \<or> fabric_links_pass E K ids ok ls s1 = (r, s')"
        using Cons.prems(2) \<open>\<not> (\<not> is_fabric_link l ok \<or> _)\<close> q nocap by (auto split: option.splits if_splits)
      then show ?thesis using h1 Cons.IH [OF a1] by auto
    qed
  qed
qed simp

lemma start_fabric_moves:
  assumes a: "accounted L (holdings_of s)" and eq: "start_fabric E K ids s = (r, s')"
  shows "moves s s'"
proof -
  define s1 where "s1 = on_world activate_initial_faults s"
  obtain ok k where k: "ev_static_taps E (fl_taps (the_lab s1)) (fw_kernel (sv_world s1)) = (ok, k)" by fastforce
  define s2 where "s2 = on_kernel (\<lambda>_. k) s1"
  have h: "holdings_of s2 = holdings_of s" by (simp add: s2_def s1_def)
  have a2: "accounted L (holdings_of s2)" using a h by simp
  have "s' = s2 \<or> fabric_links_pass E K ids (fabric_nodes (the_doc s2)) (links (the_doc s2)) s2 = (r, s')"
    using eq k by (auto simp: start_fabric_def Let_def s1_def [symmetric] s2_def [symmetric] split: if_splits)
  then show ?thesis using h fabric_links_pass_moves [OF a2] by auto
qed

lemma holdings_write_file: "write_file E path bs s = (r, s') \<Longrightarrow> holdings_of s' = holdings_of s"
  by (auto simp: write_file_def split: if_splits)

lemma holdings_inject_all: "inject_all E cfg ids ns s = (r, s') \<Longrightarrow> holdings_of s' = holdings_of s"
proof (induction ns arbitrary: s)
  case (Cons n ns)
  obtain q s1 where q: "inject_nvram E cfg n s = (q, s1)" by fastforce
  have "holdings_of s1 = holdings_of s" using q by (auto simp: inject_nvram_def Let_def dest: holdings_write_file)
  then show ?case using Cons q by (auto split: if_splits option.splits)
qed simp

lemma holdings_write_iourc: "write_iourc E cfg dir s = (r, s') \<Longrightarrow> holdings_of s' = holdings_of s"
  by (auto simp: write_iourc_def dest: holdings_write_file split: if_splits option.splits)

lemma prepare_lab_dir_moves:
  assumes a: "accounted L (holdings_of s)" and eq: "prepare_lab_dir E K cfg ids s = (r, s')"
  shows "moves s s'"
proof -
  obtain q1 s1 where 1: "write_file E (in_dir (lab_dir cfg s) ''NETMAP'') (to_bytes (netmap_for E s)) s = (q1, s1)" by fastforce
  obtain q2 s2 where 2: "start_fabric E K ids s1 = (q2, s2)" by fastforce
  obtain q3 s3 where 3: "write_iourc E cfg (lab_dir cfg s) s2 = (q3, s3)" by fastforce
  obtain q4 s4 where 4: "inject_all E cfg ids (nodes (the_doc s3)) s3 = (q4, s4)" by fastforce
  have h1: "holdings_of s1 = holdings_of s" by (rule holdings_write_file [OF 1])
  have m2: "moves s1 s2" by (rule start_fabric_moves [OF _ 2]) (use a h1 in simp)
  have h3: "holdings_of s3 = holdings_of s2" by (rule holdings_write_iourc [OF 3])
  have h4: "holdings_of s4 = holdings_of s3" by (rule holdings_inject_all [OF 4])
  have "s' = s \<or> s' = s1 \<or> s' = s2 \<or> s' = s3 \<or> s' = s4"
    using eq 1 2 3 4 by (auto simp: prepare_lab_dir_def Let_def split: if_splits option.splits)
  then show ?thesis using h1 m2 h3 h4 by auto
qed

lemma loaded_node:
  assumes a: "accounted L (holdings_of s)" and i: "sv_nodes s i = Some n"
  shows "node_kind_of s i \<noteq> None"
proof -
  have d: "dom (h_kind (holdings_of s)) = dom (h_console (holdings_of s))"
    using a by (auto simp: accounted_def kind_books_def console_books_def)
  have "i \<in> dom (h_console (holdings_of s))" unfolding domIff by (simp add: holdings_fields i)
  then have "h_kind (holdings_of s) i \<noteq> None" unfolding d [symmetric] domIff .
  then show ?thesis using i by (simp add: holdings_fields)
qed

lemma idle_subnet:
  assumes "accounted L (holdings_of s)" and "nr_extnet (rt_of s i) = None" and "sv_nodes s i = Some n"
  shows "ln_subnet n = 0"
  using accounted_node(1) [OF assms(1), of i] assms(2,3) by (auto simp: nonzero_def split: if_splits)

lemma upd_node_id: "sv_nodes s i = Some n \<Longrightarrow> f n = n \<Longrightarrow> upd_node i f s = s"
  by (simp add: upd_node_def fun_upd_idem)

lemma holdings_subnets: "holdings_of (s \<lparr> sv_subnets := T \<rparr>) = (holdings_of s) \<lparr> h_subnets := T \<rparr>"
  by (simp add: holdings_of_def rt_of_def)

lemma holdings_ln_subnet:
  "sv_nodes s i \<noteq> None \<Longrightarrow> holdings_of (upd_node i (\<lambda>n. n \<lparr> ln_subnet := x \<rparr>) s) =
     (holdings_of s) \<lparr> h_subnet := (h_subnet (holdings_of s))(i \<mapsto> x) \<rparr>"
  using holdings_subnet [of s i x "sv_subnets s"] by (cases s) (simp add: holdings_of_def)

lemma pool_frame [simp]:
  "sv_subnets (upd_node i f s) = sv_subnets s" "sv_udp (upd_node i f s) = sv_udp s" "sv_console (upd_node i f s) = sv_console s"
  "sv_subnets (on_world g s) = sv_subnets s" "sv_udp (on_world g s) = sv_udp s" "sv_console (on_world g s) = sv_console s"
  "sv_subnets (node_to st i s) = sv_subnets s" "sv_udp (node_to st i s) = sv_udp s" "node_kind_of (node_to st i s) = node_kind_of s"
  "sv_nodes (node_to st i s) j = None \<longleftrightarrow> sv_nodes s j = None" "sv_nodes (upd_node i f s) j = None \<longleftrightarrow> sv_nodes s j = None"
  by (simp_all add: upd_node_def on_world_def node_to_def node_kind_of_def find_node_def)

lemma holdings_nat_up:
  assumes a: "accounted L (holdings_of s)" and n: "sv_nodes s i = Some n" and k: "node_kind_of s i = Some KindNAT"
    and p: "subnet_next (sv_subnets s) = Some (idx, pool)" and e: "nr_extnet (rt_of s i) = None"
    and h: "holdings_of s' = (holdings_of s)
      \<lparr> h_subnets := pool, h_subnet := (h_subnet (holdings_of s))(i \<mapsto> idx), h_nat := (h_nat (holdings_of s))(i := True) \<rparr>"
  shows "moves s s'"
  by (rule moves_one [OF Nat_Up [of "holdings_of s" idx pool i] h]) (use assms in \<open>simp_all add: holdings_fields\<close>)

lemma rt_of_exists: "accounted L (holdings_of s) \<Longrightarrow> sv_nodes s i = Some n \<Longrightarrow> fl_nodes (the_lab s) i \<noteq> None"
  using fl_node_Some [of L s i] by simp

lemma subnets_drop [simp]:
  "s \<lparr> sv_subnets := T, sv_subnets := U \<rparr> = s \<lparr> sv_subnets := U \<rparr>"
  "node_to st i (s \<lparr> sv_subnets := T \<rparr>) = (node_to st i s) \<lparr> sv_subnets := T \<rparr>"
  "on_kernel g (s \<lparr> sv_subnets := T \<rparr>) = (on_kernel g s) \<lparr> sv_subnets := T \<rparr>"
  by (cases s; simp add: node_to_def upd_node_def on_kernel_def on_world_def)+

lemma start_extnet_moves:
  assumes a: "accounted L (holdings_of s)" and n: "sv_nodes s i = Some n" and kd: "node_kind_of s i = Some KindNAT"
  shows "moves s (snd (start_extnet_node E K cfg i s))"
proof (cases "\<not> cfg_nat cfg \<or> nr_extnet (rt_of s i) \<noteq> None \<or> \<not> can_start s i")
  case True
  then have "snd (start_extnet_node E K cfg i s) = s" by (auto simp: start_extnet_node_def)
  then show ?thesis by simp
next
  case False
  then have go: "cfg_nat cfg" "nr_extnet (rt_of s i) = None" "can_start s i" by auto
  define s1 where "s1 = node_to StateStarting i s"
  have h1: "holdings_of s1 = holdings_of s" by (simp add: s1_def)
  show ?thesis
  proof (cases "subnet_next (sv_subnets s)")
    case None
    then show ?thesis using go by (simp add: start_extnet_node_def)
  next
    case (Some y)
    then obtain idx pool where p: "subnet_next (sv_subnets s) = Some (idx, pool)" by (cases y) auto
    note undo = subnet_next_release [OF p] and nz = subnet_next_free(3) [OF p]
    define s2 where "s2 = s1 \<lparr> sv_subnets := pool \<rparr>"
    have p1: "subnet_next (sv_subnets s1) = Some (idx, pool)" using p by (simp add: s1_def)
    show ?thesis
    proof (cases "ev_route_iface E (fw_kernel (sv_world s1))")
      case None
      have "holdings_of (node_to StateCrashed i s1 \<lparr> sv_subnets := subnet_release idx pool \<rparr>) = holdings_of s"
        by (simp add: undo holdings_subnets h1) (simp add: holdings_of_def)
      then show ?thesis
        using go p1 None by (simp add: start_extnet_node_def Let_def s1_def [symmetric] s2_def [symmetric])
    next
      case (Some dev)
      define s3 where "s3 = upd_node i (\<lambda>n. n \<lparr> ln_subnet := idx \<rparr>) s2"
      obtain r k where k: "ev_nat_start E i idx dev (fw_kernel (sv_world s3)) = (r, k)" by fastforce
      have n2: "sv_nodes s2 i \<noteq> None" using n by (simp add: s2_def s1_def)
      have h3: "holdings_of s3 = (holdings_of s) \<lparr> h_subnets := pool, h_subnet := (h_subnet (holdings_of s))(i \<mapsto> idx) \<rparr>"
        by (simp add: s3_def holdings_ln_subnet [OF n2]) (simp add: s2_def holdings_subnets h1)
      show ?thesis
      proof (cases r)
        case None
        let ?t = "on_kernel (\<lambda>_. k) s3"
        obtain m where m: "sv_nodes ?t i = Some m" "ln_subnet m = idx"
          using n2 by (auto simp: s3_def upd_node_def)
        have t: "sv_subnets ?t = pool" by (simp add: s3_def s2_def)
        have "holdings_of (release_subnet i ?t) = (holdings_of s3)
            \<lparr> h_subnet := (h_subnet (holdings_of s3))(i \<mapsto> 0), h_subnets := subnet_release idx pool \<rparr>"
          using m nz t holdings_subnet [of ?t i 0 "subnet_release idx pool"] by (simp add: release_subnet_def)
        also have "\<dots> = holdings_of s"
          using idle_subnet [OF a go(2) n] n unfolding h3 undo by (simp add: holdings_of_def fun_upd_idem)
        finally show ?thesis
          using go p1 Some None k
          by (simp add: start_extnet_node_def Let_def s1_def [symmetric] s2_def [symmetric] s3_def [symmetric])
      next
        case (Some ep)
        define s4 where "s4 = node_to StateRunning i (upd_rt i (\<lambda>r. r \<lparr> nr_extnet := Some ep \<rparr>) (on_kernel (\<lambda>_. k) s3))"
        have rt: "fl_nodes (the_lab (on_kernel (\<lambda>_. k) s3)) i \<noteq> None"
          using rt_of_exists [OF a n] by (simp add: s3_def s2_def s1_def)
        have rts: "rt_of s3 i = rt_of s i" by (simp add: s3_def s2_def s1_def rt_of_def)
        have h4: "holdings_of s4 = (holdings_of s) \<lparr> h_subnets := pool, h_subnet := (h_subnet (holdings_of s))(i \<mapsto> idx),
            h_nat := (h_nat (holdings_of s))(i := True) \<rparr>"
          by (simp add: s4_def holdings_upd_rt [OF rt] rts h3) (simp add: holdings_of_def fun_upd_idem)
        have m4: "moves s s4" by (rule holdings_nat_up [OF a n kd p go(2) h4])
        obtain q s5 where q: "attach_node K i s4 = (q, s5)" by fastforce
        have h5: "holdings_of s5 = holdings_of s4" by (rule holdings_attach_node [OF q])
        show ?thesis
        proof (cases q)
          case None
          then show ?thesis
            using go p1 \<open>ev_route_iface _ _ = Some dev\<close> Some k q m4 h5
            by (simp add: start_extnet_node_def Let_def s1_def [symmetric] s2_def [symmetric] s3_def [symmetric] s4_def [symmetric])
        next
          case (Some e)
          define t where "t = on_kernel (case nr_extnet (rt_of s5 i) of None \<Rightarrow> id | Some ep' \<Rightarrow> ev_nat_close E ep') s5"
          have ht: "holdings_of t = holdings_of s4" by (simp add: t_def h5)
          have "h_nat (holdings_of t) i" by (simp add: ht h4)
          then have "nr_extnet (rt_of t i) \<noteq> None" by (simp add: holdings_fields)
          then have "moves t (release_subnet i (upd_rt i (\<lambda>r. r \<lparr> nr_extnet := None \<rparr>) t))"
            using nat_down_moves [of L t i] moves_accounted [OF m4 a] ht by simp
          then have "moves s4 (node_to StateCrashed i (release_subnet i (upd_rt i (\<lambda>r. r \<lparr> nr_extnet := None \<rparr>) t)))" using ht by simp
          then show ?thesis
            using go p1 \<open>ev_route_iface _ _ = Some dev\<close> \<open>r = Some ep\<close> Some k q m4
            by (simp add: start_extnet_node_def Let_def s1_def [symmetric] s2_def [symmetric] s3_def [symmetric] s4_def [symmetric]
                t_def [symmetric] rtranclp_trans [of move])
        qed
      qed
    qed
  qed
qed

lemma holdings_crash_with: "holdings_of (snd (crash_with i e s)) = holdings_of s"
  by (simp add: crash_with_def)

text \<open>A tool endpoint comes up, and goes down again when the fabric does not attach it.\<close>

lemma tool_up_moves:
  assumes a: "accounted L (holdings_of s)" and i: "sv_nodes s i = Some nr" and t: "nr_tool (rt_of s i) = None"
    and k: "node_kind_of s i = Some KindTool \<or> node_kind_of s i = Some KindPC"
  shows "moves s (upd_rt i (\<lambda>r. r \<lparr> nr_tool := Some ep \<rparr>) s)"
proof (rule moves_one [OF Tool_Up [of "holdings_of s" i]])
  show "\<not> h_tool (holdings_of s) i" using t by (simp add: holdings_fields)
  show "h_kind (holdings_of s) i = Some KindTool \<or> h_kind (holdings_of s) i = Some KindPC"
    using k i by (simp add: holdings_fields)
  show "holdings_of (upd_rt i (\<lambda>r. r \<lparr> nr_tool := Some ep \<rparr>) s) = (holdings_of s) \<lparr> h_tool := (h_tool (holdings_of s))(i := True) \<rparr>"
    using fl_node_Some [OF a, of i] i by (simp add: holdings_tool)
qed

lemma tool_session_moves:
  assumes a: "accounted L (holdings_of s)" and i: "sv_nodes s i = Some nr" and t: "nr_tool (rt_of s i) = None"
    and k: "node_kind_of s i = Some KindTool \<or> node_kind_of s i = Some KindPC"
    and s1: "holdings_of s1 = holdings_of s" "node_kind_of s1 = node_kind_of s" "rt_of s1 = rt_of s" "sv_nodes s1 i \<noteq> None"
    and u: "holdings_of u = holdings_of (upd_rt i (\<lambda>r. r \<lparr> nr_tool := Some ep \<rparr>) s1)"
    and q: "attach_node K i u = (q, s3)"
  shows "moves s s3" and "holdings_of v = holdings_of s3 \<Longrightarrow> moves s (upd_rt i (\<lambda>r. r \<lparr> nr_tool := None \<rparr>) v)"
proof -
  obtain m where m: "sv_nodes s1 i = Some m" using s1(4) by auto
  have "moves s1 (upd_rt i (\<lambda>r. r \<lparr> nr_tool := Some ep \<rparr>) s1)"
    by (rule tool_up_moves [OF _ m]) (use a t k s1 in simp_all)
  then show m3: "moves s s3" using s1(1) u holdings_attach_node [OF q] by simp
  show "moves s (upd_rt i (\<lambda>r. r \<lparr> nr_tool := None \<rparr>) v)" if "holdings_of v = holdings_of s3"
    using m3 tool_down_moves [of v i] that by (simp add: rtranclp_trans [of move])
qed

lemma start_tool_moves:
  assumes a: "accounted L (holdings_of s)" and i: "sv_nodes s i = Some nr"
    and kd: "node_kind_of s i = Some KindTool \<or> node_kind_of s i = Some KindPC"
    and s': "s' = snd (start_tool_node E K cfg n i s)"
  shows "moves s s'"
proof (cases "nr_tool (rt_of s i) = None")
  case True
  have up: "moves s s3" "moves s (upd_rt i (\<lambda>r. r \<lparr> nr_tool := None \<rparr>) (on_kernel g s3))"
    if q: "attach_node K i (node_to StateRunning i
      (upd_rt i (\<lambda>r. r \<lparr> nr_tool := Some ep \<rparr>) (on_kernel (\<lambda>_. k) (node_to StateStarting i s)))) = (q, s3)" for ep k q s3 g
    by (rule tool_session_moves [OF a i True kd _ _ _ _ _ q, of "on_kernel (\<lambda>_. k) (node_to StateStarting i s)" ep];
        simp add: i)+
  show ?thesis
    unfolding s' start_tool_node_def Let_def crash_with_def by (auto intro: up split: option.split prod.split)
next
  case False
  then have "s' = s" using s' by (auto simp: start_tool_node_def)
  then show ?thesis by simp
qed

lemma start_pc_moves:
  assumes a: "accounted L (holdings_of s)" and i: "sv_nodes s i = Some nr"
    and kd: "node_kind_of s i = Some KindTool \<or> node_kind_of s i = Some KindPC"
    and s': "s' = snd (start_pc_node E K cfg n i s)"
  shows "moves s s'"
proof (cases "nr_tool (rt_of s i) = None")
  case True
  have up: "moves s s3" "moves s (upd_rt i (\<lambda>r. r \<lparr> nr_tool := None \<rparr>) (on_kernel g (kill_proc E i s3)))"
    if q: "attach_node K i (node_to StateRunning i (upd_node i (\<lambda>n. n \<lparr> ln_proc := Some 0 \<rparr>)
      (upd_rt i (\<lambda>r. r \<lparr> nr_tool := Some ep \<rparr>) (on_kernel (\<lambda>_. k) (node_to StateStarting i s))))) = (q, s3)" for ep k q s3 g
    by (rule tool_session_moves [OF a i True kd _ _ _ _ _ q, of "on_kernel (\<lambda>_. k) (node_to StateStarting i s)" ep];
        simp add: i)+
  show ?thesis
    unfolding s' start_pc_node_def Let_def crash_with_def by (auto intro: up split: option.split prod.split)
next
  case False
  then have "s' = s" using s' by (auto simp: start_pc_node_def)
  then show ?thesis by simp
qed

text \<open>A VPCS shim takes its two ports, or gives back what it took.\<close>

lemma udp_frame [simp]:
  "on_kernel g (s \<lparr> sv_udp := p \<rparr>) = (on_kernel g s) \<lparr> sv_udp := p \<rparr>"
  "s \<lparr> sv_udp := p, sv_udp := q \<rparr> = s \<lparr> sv_udp := q \<rparr>"
  by (cases s; simp add: on_kernel_def on_world_def)+

lemma holdings_udp: "holdings_of (s \<lparr> sv_udp := p \<rparr>) = (holdings_of s) \<lparr> h_udp_pool := p \<rparr>"
  by (simp add: holdings_of_def rt_of_def)

lemma holdings_udp_same: "holdings_of (s \<lparr> sv_udp := sv_udp t \<rparr>) = holdings_of s" if "sv_udp t = sv_udp s"
  using that by (simp add: holdings_of_def rt_of_def)

lemma setup_vpcs_moves:
  assumes a: "accounted L (holdings_of s)" and n: "sv_nodes s i = Some n" and kd: "node_kind_of s i = Some KindVPCS"
  shows "moves s (snd (setup_vpcs_fabric E K cfg i s))"
proof (cases "nr_vtap (rt_of s i)")
  case True
  then show ?thesis by (simp add: setup_vpcs_fabric_def)
next
  case no_shim: False
  show ?thesis
  proof (cases "port_next (sv_udp s)")
    case None
    then show ?thesis using no_shim by (simp add: setup_vpcs_fabric_def)
  next
    case (Some y)
    then obtain b p1 where b: "port_next (sv_udp s) = Some (b, p1)" by (cases y) auto
    show ?thesis
    proof (cases "port_next p1")
      case None
      then show ?thesis using no_shim b port_next_release [OF b] by (simp add: setup_vpcs_fabric_def)
    next
      case (Some y)
      then obtain c p2 where c: "port_next p1 = Some (c, p2)" by (cases y) auto
      note B = port_next_free [OF b] and C = port_next_free [OF c]
      have undo: "port_release c (port_release b p2) = sv_udp s"
      proof -
        have "port_release c (port_release b p2) = port_release b (port_release c p2)"
          by (simp add: port_release_def set_diff_eq conj_ac)
        then show ?thesis using port_next_release [OF b] port_next_release [OF c] by simp
      qed
      let ?nm = "vtap_dev_name i"
      define k0 where "k0 = fw_kernel (sv_world s)"
      obtain r1 x1 x2 k1 where r1: "retry_transient_fabric (ensure_tap (kern_run K) ?nm (cfg_uid cfg)) k0 = (r1, x1, x2, k1)"
        by (metis prod_cases4)
      define k2 where "k2 = (if kern_exists K ?nm k0 \<and> kern_master K ?nm k1 \<noteq> None
          then snd (detach_dev (kern_run K) ?nm k1) else k1)"
      obtain ok k3 where ok: "ev_shim_start E ?nm c b k2 = (ok, k3)" by fastforce
      have res: "snd (setup_vpcs_fabric E K cfg i s) =
        (case r1 of
           Some e \<Rightarrow> on_kernel (\<lambda>_. k1) s \<lparr> sv_udp := sv_udp s \<rparr>
         | None \<Rightarrow> if ok
             then upd_node i (\<lambda>n. n \<lparr> ln_ports := (b, c) \<rparr>)
               (upd_rt i (\<lambda>r. r \<lparr> nr_vtap := True, nr_vtap_name := ?nm \<rparr>) (on_kernel (\<lambda>_. k3) s \<lparr> sv_udp := p2 \<rparr>))
             else on_kernel (\<lambda>_. snd (delete_tap (kern_run K) ?nm k3)) s \<lparr> sv_udp := sv_udp s \<rparr>)"
        using no_shim b c r1 ok undo
        by (cases "kern_exists K ?nm k0 \<and> kern_master K ?nm k1 \<noteq> None"; cases r1; cases ok)
          (auto simp: setup_vpcs_fabric_def Let_def k0_def [symmetric] k2_def)
      have same: "holdings_of (on_kernel g s \<lparr> sv_udp := sv_udp s \<rparr>) = holdings_of s" for g
        using holdings_udp_same [of s "on_kernel g s"] by simp
      show ?thesis
      proof (cases "r1 = None \<and> ok")
        case False
        then show ?thesis using res same by (cases r1) auto
      next
        case True
        let ?t = "on_kernel (\<lambda>_. k3) s \<lparr> sv_udp := p2 \<rparr>"
        let ?u = "upd_rt i (\<lambda>r. r \<lparr> nr_vtap := True, nr_vtap_name := ?nm \<rparr>) ?t"
        have rt: "fl_nodes (the_lab ?t) i \<noteq> None" using rt_of_exists [OF a n] by simp
        have nm: "?nm \<noteq> []" by (simp add: vtap_dev_name_def)
        have e: "nr_extnet (rt_of s i) = None"
          using a kd n by (auto simp: accounted_def kind_books_def holdings_fields)
        have hu: "holdings_of ?u = (holdings_of s) \<lparr> h_udp_pool := p2, h_vtap := (h_vtap (holdings_of s))(i := True),
            h_vname := (h_vname (holdings_of s))(i := True) \<rparr>"
          using nm by (simp add: holdings_upd_rt [OF rt] holdings_udp) (simp add: holdings_of_def fun_upd_idem)
        have "holdings_of (upd_node i (\<lambda>n. n \<lparr> ln_ports := (b, c) \<rparr>) ?u) = (holdings_of s) \<lparr> h_udp_pool := p2,
            h_ports := (h_ports (holdings_of s))(i \<mapsto> (b, c)), h_vtap := (h_vtap (holdings_of s))(i := True),
            h_vname := (h_vname (holdings_of s))(i := True) \<rparr>"
        proof -
          have "holdings_of (upd_node i (\<lambda>n. n \<lparr> ln_ports := (b, c) \<rparr>) (?u \<lparr> sv_udp := p2 \<rparr>)) =
              (holdings_of ?u) \<lparr> h_ports := (h_ports (holdings_of ?u))(i \<mapsto> (b, c)), h_udp_pool := p2 \<rparr>"
            by (rule holdings_ports) (simp add: n)
          moreover have "?u \<lparr> sv_udp := p2 \<rparr> = ?u" by simp
          ultimately show ?thesis unfolding hu by simp
        qed
        then have "moves s (upd_node i (\<lambda>n. n \<lparr> ln_ports := (b, c) \<rparr>) ?u)"
          by (intro moves_one [OF Vpcs_Up [of "holdings_of s" b p1 c p2 i]])
            (simp_all add: holdings_fields b c no_shim n kd)
        then show ?thesis using res True by simp
      qed
    qed
  qed
qed

lemma holdings_spawn: "spawn E i sp s = (r, s') \<Longrightarrow> holdings_of s' = holdings_of s"
  by (auto simp: spawn_def split: prod.splits spawn_outcome.splits if_splits)

lemma vpcs_cleanup_moves: "accounted L (holdings_of s) \<Longrightarrow> moves s (vpcs_cleanup E K i s)"
  unfolding vpcs_cleanup_def by (rule shim_cleanup_moves)

lemma promote_moves:
  assumes a: "accounted L (holdings_of s)" and eq: "promote_node E K i pid s = (r, s')"
  shows "moves s s'"
proof -
  define s1 where "s1 = upd_node i (\<lambda>n. n \<lparr> ln_proc := Some pid \<rparr>) s"
  define s2 where "s2 = (case ev_early_exit E pid (fw_kernel (sv_world s1)) of
      None \<Rightarrow> s1 | Some err \<Rightarrow> (case reap_decision False err of None \<Rightarrow> s1 | Some st \<Rightarrow> node_to st i s1))"
  have h2: "holdings_of s2 = holdings_of s" by (auto simp: s2_def s1_def split: option.splits)
  show ?thesis
  proof (cases "can_transition (state_of s2 i) StateRunning")
    case False
    let ?t = "kill_proc E i (node_to StateStopped i s2)"
    have "s' = vpcs_cleanup E K i ?t" using eq False by (simp add: promote_node_def Let_def s1_def [symmetric] s2_def [symmetric])
    moreover have "moves ?t (vpcs_cleanup E K i ?t)" by (rule vpcs_cleanup_moves [of L]) (use a h2 in simp)
    ultimately show ?thesis using h2 by simp
  next
    case True
    define s3 where "s3 = node_to StateRunning i s2"
    have h3: "holdings_of s3 = holdings_of s" by (simp add: s3_def h2)
    obtain q s4 where q: "attach_node K i s3 = (q, s4)" by fastforce
    have h4: "holdings_of s4 = holdings_of s" using holdings_attach_node [OF q] h3 by simp
    let ?t = "kill_proc E i (node_to StateStopped i s4)"
    have res: "s' = (if \<not> nr_vtap (rt_of s3 i) then s3 else if q = None then s4 else node_to StateCrashed i (teardown_vpcs E K i ?t))"
      using eq True q by (auto simp: promote_node_def Let_def s1_def [symmetric] s2_def [symmetric] s3_def [symmetric] split: option.splits)
    have "moves ?t (teardown_vpcs E K i ?t)" if "nr_vtap (rt_of s3 i)"
    proof (rule vpcs_down_moves [of L])
      have "h_vtap (holdings_of ?t) i" using that h3 h4 holdings_fields(4) [of s3 i] by simp
      then show "nr_vtap (rt_of ?t i)" by (simp only: holdings_fields)
    qed (use a h4 in simp)
    then show ?thesis using res h3 h4 by auto
  qed
qed

lemma start_process_moves:
  assumes a: "accounted L (holdings_of s)" and n: "sv_nodes s i = Some nr" and kd: "node_kind_of s i = Some (node_kind n)"
    and eq: "start_process E K cfg n i s = (r, s')"
  shows "moves s s'"
proof -
  obtain q s1 where q: "(if node_kind n = KindVPCS then setup_vpcs_fabric E K cfg i s else (None, s)) = (q, s1)" by fastforce
  have m1: "moves s s1" using q setup_vpcs_moves [OF a n, of E K cfg] kd by (auto split: if_splits)
  have a1: "accounted L (holdings_of s1)" by (rule moves_accounted [OF m1 a])
  show ?thesis
  proof (cases "\<exists>sp. q = None \<and> build_spec cfg n i s1 = Inr sp")
    case False
    then have "s' = s1 \<or> s' = vpcs_cleanup E K i s1"
      using eq unfolding start_process_def q by (auto split: option.splits sum.splits)
    then show ?thesis using m1 vpcs_cleanup_moves [OF a1] by (auto intro: rtranclp_trans)
  next
    case True
    then obtain sp where sp: "q = None" "build_spec cfg n i s1 = Inr sp" by blast
    obtain p s2 where p: "spawn E i sp s1 = (p, s2)" by fastforce
    have h2: "holdings_of s2 = holdings_of s1" by (rule holdings_spawn [OF p])
    have a2: "accounted L (holdings_of s2)" using a1 h2 by simp
    have "(p = None \<and> s' = vpcs_cleanup E K i s2) \<or> (\<exists>pid. promote_node E K i pid s2 = (r, s'))"
      using eq sp p unfolding start_process_def q by (auto split: option.splits)
    then have "moves s2 s'" using vpcs_cleanup_moves [OF a2] promote_moves [OF a2] by blast
    then show ?thesis using m1 h2 by (simp add: rtranclp_trans [of move])
  qed
qed

lemma of_endpoint_snd: "of_endpoint p = (r, s') \<Longrightarrow> s' = snd p"
  by (auto simp: of_endpoint_def split: prod.splits sum.splits)

lemma start_one_moves:
  assumes a: "accounted L (holdings_of s)" and eq: "start_one E K cfg i s = (r, s')"
  shows "moves s s'"
proof (cases "\<exists>nr n. sv_nodes s i = Some nr \<and> find_node (the_lab s) i = Some n")
  case False
  then have "s' = s" using eq by (auto simp: start_one_def split: option.splits if_splits)
  then show ?thesis by simp
next
  case True
  then obtain nr n where n: "sv_nodes s i = Some nr" "find_node (the_lab s) i = Some n" by blast
  show ?thesis
  proof (cases "node_kind n \<in> {KindIOL, KindVPCS} \<and> live_process s i")
    case True
    then have "s' = s" using eq n by (simp add: start_one_def)
    then show ?thesis by simp
  next
    case False
    define s1 where "s1 = (if node_kind n \<in> {KindIOL, KindVPCS} then upd_node i (\<lambda>n. n \<lparr> ln_proc := None \<rparr>) s else s)"
    have h1: "holdings_of s1 = holdings_of s" by (simp add: s1_def)
    have a1: "accounted L (holdings_of s1)" using a h1 by simp
    have "node_kind_of s1 = node_kind_of s" by (simp add: s1_def)
    then have kd: "node_kind_of s1 i = Some (node_kind n)" using n by (simp add: node_kind_of_def)
    obtain nr1 where n1: "sv_nodes s1 i = Some nr1"
      using n by (cases "node_kind n \<in> {KindIOL, KindVPCS}") (simp_all add: s1_def upd_node_def)
    have "(node_kind n = KindNAT \<and> s' = snd (start_extnet_node E K cfg i s1)) \<or>
        (node_kind n = KindTool \<and> s' = snd (start_tool_node E K cfg n i s1)) \<or>
        (node_kind n = KindPC \<and> s' = snd (start_pc_node E K cfg n i s1)) \<or>
        start_process E K cfg n i s1 = (r, s')"
      using eq n False unfolding start_one_def s1_def [symmetric]
      by (cases "node_kind n") (auto simp: s1_def dest: of_endpoint_snd)
    then have "moves s1 s'"
      using start_extnet_moves [OF a1 n1, of E K cfg] start_tool_moves [OF a1 n1, of s' E K cfg n]
        start_pc_moves [OF a1 n1, of s' E K cfg n] start_process_moves [OF a1 n1 kd] kd by auto
    then show ?thesis using h1 by simp
  qed
qed

lemma start_each_moves:
  assumes "accounted L (holdings_of s)" and "start_each E K cfg single is out s = (r, s')"
  shows "moves s s'"
  using assms
proof (induction "is" arbitrary: s out)
  case (Cons i "is")
  obtain q s1 where q: "start_one E K cfg i s = (q, s1)" by fastforce
  have m1: "moves s s1" by (rule start_one_moves [OF Cons.prems(1) q])
  have a1: "accounted L (holdings_of s1)" by (rule moves_accounted [OF m1 Cons.prems(1)])
  have "s' = s1 \<or> (\<exists>out'. start_each E K cfg single is out' s1 = (r, s'))"
    using Cons.prems(2) q by (auto split: start_step.splits if_splits)
  then show ?case using m1 Cons.IH [OF a1] by (auto intro: rtranclp_trans)
qed simp

lemma start_nodes_moves:
  assumes a: "accounted L (holdings_of s)" and ld: "sv_loaded s" and eq: "start_nodes E K cfg is s = (r, s')"
  shows "moves s s'"
proof -
  obtain ids out where p: "preflight_iol_images cfg is s = (ids, out)" by fastforce
  obtain ok s1 where c: "arm_doc_captures s = (ok, s1)" by fastforce
  have m1: "moves s s1" by (rule arm_doc_captures_moves [OF a c ld])
  have a1: "accounted L (holdings_of (refresh_fabric cfg s1))" using moves_accounted [OF m1 a] by simp
  obtain q s2 where q: "prepare_lab_dir E K cfg ids (refresh_fabric cfg s1) = (q, s2)" by fastforce
  have m2: "moves s1 s2" using prepare_lab_dir_moves [OF a1 q] by simp
  have a2: "accounted L (holdings_of s2)" by (rule moves_accounted [OF m2 moves_accounted [OF m1 a]])
  have "s' = s \<or> s' = s1 \<or> s' = s2 \<or> start_each E K cfg (length is = 1) ids out s2 = (r, s')"
    using eq p c q by (auto simp: start_nodes_def split: if_splits option.splits bool.splits)
  then show ?thesis using m1 m2 start_each_moves [OF a2] by (auto intro: rtranclp_trans)
qed

section \<open>The handlers\<close>

lemma current_loaded: "current_lab lid s = None \<Longrightarrow> sv_loaded s"
  by (simp add: current_lab_def split: if_splits)

lemma stop_loaded: "sv_loaded (stop_node E K i s) = sv_loaded s" if "accounted L (holdings_of s)"
proof -
  have k: "move h h' \<Longrightarrow> h_loaded h' = h_loaded h" for h h' by (auto elim: move.cases)
  have "move\<^sup>*\<^sup>* h h' \<Longrightarrow> h_loaded h' = h_loaded h" for h h' by (induction rule: rtranclp_induct) (auto simp: k)
  from this [OF stop_node_moves [OF that]] show ?thesis by (simp add: holdings_fields)
qed

lemma lab_start_moves:
  "accounted L (holdings_of s) \<Longrightarrow> moves s (snd (handle_lab_start E K cfg lid sel s))"
  by (cases "start_nodes E K cfg (target_ids sel s) s")
    (auto simp: handle_lab_start_def dest: current_loaded start_nodes_moves split: option.splits)

lemma node_restart_moves:
  assumes a: "accounted L (holdings_of s)"
  shows "moves s (snd (handle_node_restart E K cfg lid i s))"
proof (cases "current_lab lid s")
  case None
  note m = stop_node_moves [OF a, of E K i]
  obtain r s' where r: "start_nodes E K cfg [i] (stop_node E K i s) = (r, s')" by fastforce
  have "moves (stop_node E K i s) s'"
    by (rule start_nodes_moves [OF moves_accounted [OF m a] _ r]) (use stop_loaded [OF a] current_loaded [OF None] in simp)
  then show ?thesis using None m r by (simp add: handle_node_restart_def rtranclp_trans [of move])
qed (simp add: handle_node_restart_def)

lemma wipe_nodes_moves:
  "accounted L (holdings_of s) \<Longrightarrow> wipe_nodes E K cfg is w s = (r, s') \<Longrightarrow> moves s s'"
proof (induction "is" arbitrary: s w)
  case (Cons i "is")
  note m = stop_node_moves [OF Cons.prems(1), of E K i]
  note a = moves_accounted [OF m Cons.prems(1)]
  let ?t = "stop_node E K i s"
  have "s' = s \<or> s' = ?t \<or> (\<exists>f w'. wipe_nodes E K cfg is w' (?t \<lparr> sv_files := f \<rparr>) = (r, s'))"
    using Cons.prems(2) by (auto simp: Let_def split: if_splits)
  then show ?case using m Cons.IH [of "?t \<lparr> sv_files := _ \<rparr>"] a by (auto intro: rtranclp_trans)
qed simp

lemma lab_wipe_moves: "accounted L (holdings_of s) \<Longrightarrow> moves s (snd (handle_lab_wipe E K cfg lid sel s))"
  by (cases "wipe_nodes E K cfg (target_ids sel s) [] s")
    (auto simp: handle_lab_wipe_def dest: wipe_nodes_moves split: option.splits)

lemma lab_stop_moves:
  assumes a: "accounted L (holdings_of s)" and g: "go_range (ev_range E)"
  shows "moves s (snd (handle_lab_stop E K lid sel s))"
proof (cases "current_lab lid s")
  case None
  define s1 where "s1 = fold (stop_node E K) (target_ids sel s) s"
  have m1: "moves s s1" unfolding s1_def by (rule fold_moves [OF stop_node_moves a])
  note a1 = moves_accounted [OF m1 a]
  note m2 = teardown_fabric_moves [OF a1, of E K]
  note m3 = release_captures_moves [OF moves_accounted [OF m2 a1] teardown_bcaps g]
  have "moves s (release_captures E (teardown_fabric E K s1))" by (rule rtranclp_trans [OF m1 rtranclp_trans [OF m2 m3]])
  then show ?thesis using None m1 by (auto simp: handle_lab_stop_def Let_def s1_def)
qed (simp add: handle_lab_stop_def)

lemma lab_reap_moves:
  assumes a: "accounted L (holdings_of s)" and g: "go_range (ev_range E)"
  shows "moves s (snd (handle_lab_reap E K s))"
proof -
  define s1 where "s1 = fold (stop_node E K) (node_ids E s) s"
  have m1: "moves s s1" unfolding s1_def by (rule fold_moves [OF stop_node_moves a])
  note a1 = moves_accounted [OF m1 a]
  note m2 = teardown_fabric_moves [OF a1, of E K]
  note m3 = release_captures_moves [OF moves_accounted [OF m2 a1] teardown_bcaps g]
  have "moves s (release_captures E (teardown_fabric E K s1))" by (rule rtranclp_trans [OF m1 rtranclp_trans [OF m2 m3]])
  then show ?thesis by (simp add: handle_lab_reap_def s1_def)
qed

lemma validate_distinct: "validate doc = None \<Longrightarrow> distinct (map node_id (nodes doc))"
  by (auto simp: validate_def validate_nodes_Inr split: if_splits sum.splits)

lemma find_snoc: "find P (xs @ [x]) = (case find P xs of None \<Rightarrow> if P x then Some x else None | Some y \<Rightarrow> Some y)"
  by (induction xs) auto

lemma node_add_moves:
  assumes a: "accounted L (holdings_of s)"
  shows "moves s (snd (handle_node_add lid n s))"
proof (cases "current_lab lid s = None \<and> sv_nodes s (node_id n) = None \<and>
    validate ((the_doc s) \<lparr> nodes := nodes (the_doc s) @ [n] \<rparr>) = None \<and> port_next (sv_console s) \<noteq> None")
  case True
  then obtain cp p where p: "port_next (sv_console s) = Some (cp, p)" by auto
  let ?i = "node_id n"
  have ld: "sv_loaded s" using True by (auto dest: current_loaded)
  have new: "find (\<lambda>m. node_id m = ?i) (nodes (the_doc s)) = None"
  proof -
    have "distinct (map node_id (nodes (the_doc s) @ [n]))" 
      using True validate_distinct [of "(the_doc s) \<lparr> nodes := nodes (the_doc s) @ [n] \<rparr>"] by simp
    then have "\<forall>m \<in> set (nodes (the_doc s)). node_id m \<noteq> node_id n" by (simp add: image_iff) metis
    then show ?thesis by (simp add: find_None_iff)
  qed
  define s' where "s' = on_lab (\<lambda>ll. ll \<lparr> fl_doc := (fl_doc ll) \<lparr> nodes := nodes (fl_doc ll) @ [n] \<rparr>,
      fl_nodes := (fl_nodes ll)(?i \<mapsto> blank_rt) \<rparr>)
    (s \<lparr> sv_console := p, sv_nodes := (sv_nodes s)(?i \<mapsto> new_live_node (sv_images s) n cp) \<rparr>)"
  have kinds: "node_kind_of s' i = (if i = ?i then Some (node_kind n) else node_kind_of s i)" for i
    using new by (auto simp: s'_def node_kind_of_def find_node_doc on_lab_def on_world_def find_snoc split: option.split)
  have rts: "rt_of s' i = (if i = ?i then blank_rt else rt_of s i)" for i
    by (simp add: s'_def rt_of_def on_lab_def on_world_def)
  have dm: "dom (fl_nodes (the_lab s')) = insert ?i (dom (fl_nodes (the_lab s)))"
    by (simp add: s'_def on_lab_def on_world_def)
  have "holdings_of s' = (holdings_of s) \<lparr> h_console_pool := p, h_kind := (h_kind (holdings_of s))(?i \<mapsto> node_kind n),
      h_console := (h_console (holdings_of s))(?i \<mapsto> cp), h_rts := insert ?i (h_rts (holdings_of s)),
      h_ports := (h_ports (holdings_of s))(?i \<mapsto> (0, 0)), h_subnet := (h_subnet (holdings_of s))(?i \<mapsto> 0),
      h_vtap := (h_vtap (holdings_of s))(?i := False), h_vname := (h_vname (holdings_of s))(?i := False),
      h_nat := (h_nat (holdings_of s))(?i := False), h_tool := (h_tool (holdings_of s))(?i := False) \<rparr>"
    by (simp add: holdings_of_def kinds rts dm fun_eq_iff)
      (simp add: s'_def on_lab_def on_world_def new_live_node_def blank_rt_def split: prod.split)
  then have "moves s s'"
    by (intro moves_one [OF Node_Up [of "holdings_of s" cp p ?i "node_kind n"]]) (simp_all add: holdings_fields p True ld)
  moreover have "snd (handle_node_add lid n s) = s'" using True p by (simp add: handle_node_add_def s'_def)
  ultimately show ?thesis by simp
next
  case False
  then have "snd (handle_node_add lid n s) = s" by (auto simp: handle_node_add_def split: option.split)
  then show ?thesis by simp
qed

text \<open>A stopped node holds nothing but its console port.\<close>

lemma rt_release [simp]: "rt_of (release_subnet i s) = rt_of s" "rt_of (on_world (cancel_fault_timers_for_node i) s) = rt_of s"
  "rt_of (release_udp p s) = rt_of s" "rt_of (sync_pc_node E i s) = rt_of s"
  by (auto simp: release_subnet_def fun_eq_iff rt_of_def upd_node_def on_world_def cancel_fault_timers_for_node_def fold_nodes
      release_udp_def sync_pc_node_def on_lab_def split: option.split)

lemma sync_pc_nodes [simp]: "fl_nodes (the_lab (sync_pc_node E i s)) = fl_nodes (the_lab s)"
  by (simp add: sync_pc_node_def on_lab_def on_world_def split: option.split)

lemma teardown_vpcs_rt:
  "rt_of (teardown_vpcs E K i s) j = (if j = i \<and> fl_nodes (the_lab s) i \<noteq> None
     then (rt_of s i) \<lparr> nr_vtap := False, nr_vtap_name := [] \<rparr> else rt_of s j)"
proof (cases "fl_nodes (the_lab s) i")
  case (Some r)
  then show ?thesis
    by (auto simp: teardown_vpcs_def Let_def rt_of_upd_rt upd_rt_nodes delete_tap_verified_def)
next
  case None
  then have "rt_of s i = blank_rt" by (simp add: rt_of_def)
  then show ?thesis using None by (simp add: teardown_vpcs_def Let_def blank_rt_def)
qed

lemma stop_node_idle:
  assumes a: "accounted L (holdings_of s)" and i: "sv_nodes s i = Some n"
  shows "nr_extnet (rt_of (stop_node E K i s) i) = None \<and> nr_tool (rt_of (stop_node E K i s) i) = None \<and>
     \<not> nr_vtap (rt_of (stop_node E K i s) i)"
proof -
  have rt: "fl_nodes (the_lab s) i \<noteq> None" using fl_node_Some [OF a, of i] i by simp
  have b: "kind_books (h_kind (holdings_of s)) (h_vtap (holdings_of s)) (h_nat (holdings_of s)) (h_tool (holdings_of s)) (h_rts (holdings_of s))"
    using a by (simp add: accounted_def)
  have x: "nr_extnet (rt_of s i) \<noteq> None \<Longrightarrow> nr_tool (rt_of s i) = None \<and> \<not> nr_vtap (rt_of s i)"
    "nr_tool (rt_of s i) \<noteq> None \<Longrightarrow> \<not> nr_vtap (rt_of s i)"
    using b unfolding kind_books_def holdings_fields by auto
  let ?s = "on_world (cancel_fault_timers_for_node i) s"
  have rt': "fl_nodes (the_lab ?s) i \<noteq> None" using rt by (simp add: on_world_def cancel_fault_timers_for_node_def fold_nodes)
  show ?thesis
    using i x rt rt' accounted_node(2) [OF a, of i]
    by (auto simp: stop_node_def Let_def rt_of_upd_rt teardown_vpcs_rt split: option.split)
qed

lemma stop_node_frame:
  "sv_console (stop_node E K i s) = sv_console s"
  "map_option ln_console (sv_nodes (stop_node E K i s) j) = map_option ln_console (sv_nodes s j)"
proof -
  have u: "(\<And>n. ln_console (f n) = ln_console n) \<Longrightarrow>
      map_option ln_console (sv_nodes (upd_node i f t) j) = map_option ln_console (sv_nodes t j)" for f i j and t :: "'a server"
    by (auto simp: upd_node_def option.map_comp comp_def)
  have r: "sv_console (release_subnet i t) = sv_console t"
    "map_option ln_console (sv_nodes (release_subnet i t) j) = map_option ln_console (sv_nodes t j)" for t :: "'a server"
    by (auto simp: release_subnet_def u split: option.split)
  have n: "sv_console (node_to st i t) = sv_console t"
    "map_option ln_console (sv_nodes (node_to st i t) j) = map_option ln_console (sv_nodes t j)" for st and t :: "'a server"
    by (simp_all add: node_to_def u)
  have k: "sv_console (kill_proc E i t) = sv_console t"
    "map_option ln_console (sv_nodes (kill_proc E i t) j) = map_option ln_console (sv_nodes t j)" for t :: "'a server"
    by (auto simp: kill_proc_def u split: option.split)
  have p: "sv_console (sync_pc_node E i t) = sv_console t" "sv_nodes (sync_pc_node E i t) = sv_nodes t" for t :: "'a server"
    by (simp_all add: sync_pc_node_def on_lab_def split: option.split)
  have v: "sv_console (teardown_vpcs E K i t) = sv_console t"
    "map_option ln_console (sv_nodes (teardown_vpcs E K i t) j) = map_option ln_console (sv_nodes t j)" for t :: "'a server"
    by (simp_all add: teardown_vpcs_def Let_def u release_udp_def delete_tap_verified_def)
  show "sv_console (stop_node E K i s) = sv_console s"
    "map_option ln_console (sv_nodes (stop_node E K i s) j) = map_option ln_console (sv_nodes s j)"
    by (auto simp: stop_node_def Let_def r n k p v split: option.split)
qed

lemma holdings_detach_link:
  "holdings_of (detach_link E K l s) = (holdings_of s) \<lparr> h_bcaps := (sv_bcaps s)(link_id l := None) \<rparr>"
proof -
  let ?s2 = "on_kernel (\<lambda>k. snd (clear_link_netem K l k (the_lab (on_world (cancel_fault_timer (link_id l)) s))))
    (on_world (cancel_fault_timer (link_id l)) s)"
  have h2: "holdings_of ?s2 = holdings_of s" by simp
  then have b2: "sv_bcaps ?s2 = sv_bcaps s" by (metis holdings_fields(11))
  have "holdings_of (stop_bridge_capture E (link_id l) ?s2) =
      (holdings_of ?s2) \<lparr> h_bcaps := (sv_bcaps ?s2)(link_id l := None) \<rparr>"
    by (rule holdings_stop_capture)
  then show ?thesis by (simp add: detach_link_def Let_def holdings_unwire h2 b2)
qed

lemma drop_links_holdings:
  "drop_links E K i ok ls s = (kept, s') \<Longrightarrow>
     sv_bcaps s' \<subseteq>\<^sub>m sv_bcaps s \<and> holdings_of s' = (holdings_of s) \<lparr> h_bcaps := sv_bcaps s' \<rparr>"
proof (induction ls arbitrary: s kept s')
  case (Cons l ls)
  let ?t = "if is_fabric_link l ok then detach_link E K l s else s"
  have t: "holdings_of ?t = (holdings_of s) \<lparr> h_bcaps := sv_bcaps ?t \<rparr> \<and> sv_bcaps ?t \<subseteq>\<^sub>m sv_bcaps s"
  proof (cases "is_fabric_link l ok")
    case True
    have "sv_bcaps (detach_link E K l s) = (sv_bcaps s)(link_id l := None)"
      using arg_cong [OF holdings_detach_link [of E K l s], of h_bcaps] by (simp add: holdings_fields)
    then show ?thesis using True holdings_detach_link [of E K l s] by (simp add: map_le_def)
  qed (simp add: holdings_bcaps_same)
  show ?case
  proof (cases "list_ex (\<lambda>ep. ep_node ep = i) (endpoints l)")
    case True
    then have "drop_links E K i ok ls ?t = (kept, s')" using Cons.prems by simp
    note IH = Cons.IH [OF this]
    have "holdings_of s' = (holdings_of s) \<lparr> h_bcaps := sv_bcaps s' \<rparr>"
      by (subst conjunct2 [OF IH], subst conjunct1 [OF t]) simp
    then show ?thesis using IH t map_le_trans by blast
  next
    case False
    obtain k' t' where d: "drop_links E K i ok ls s = (k', t')" by fastforce
    then show ?thesis using Cons.IH [OF d] Cons.prems False by simp
  qed
qed (simp add: holdings_bcaps_same)

lemma holdings_evict: "holdings_of (evict_tap_devices E K names s) = holdings_of s"
  by (simp add: evict_tap_devices_def fold_holdings)

lemma find_filter_id:
  "find (\<lambda>m. node_id m = j) (filter (\<lambda>m. node_id m \<noteq> i) ns) = (if j = i then None else find (\<lambda>m. node_id m = j) ns)"
  by (induction ns) auto

lemma node_remove_moves:
  assumes a: "accounted L (holdings_of s)"
  shows "moves s (snd (handle_node_remove E K cfg lid i s))"
proof (cases "current_lab lid s = None \<and> sv_nodes s i \<noteq> None")
  case True
  then obtain nr where i: "sv_nodes s i = Some nr" by auto
  define s1 where "s1 = stop_node E K i s"
  have m1: "moves s s1" unfolding s1_def by (rule stop_node_moves [OF a])
  note a1 = moves_accounted [OF m1 a]
  obtain nr1 where i1: "sv_nodes s1 i = Some nr1" "ln_console nr1 = ln_console nr"
    using stop_node_frame(2) [of E K i s i] i by (auto simp: s1_def)
  have idle: "nr_extnet (rt_of s1 i) = None" "nr_tool (rt_of s1 i) = None" "\<not> nr_vtap (rt_of s1 i)"
    using stop_node_idle [OF a i] by (simp_all add: s1_def)
  have zero: "ln_subnet nr1 = 0" "ln_ports nr1 = (0, 0)"
    using accounted_node(1,3) [OF a1, of i] idle i1 by (auto simp: nonzero_def shim_ok_def split: if_splits prod.splits)
  define s2 where "s2 = s1 \<lparr> sv_console := port_release (ln_console nr) (sv_console s1) \<rparr>"
  obtain kept s3 where d: "drop_links E K i (fabric_nodes (the_doc s1)) (links (the_doc s1)) s2 = (kept, s3)" by fastforce
  have h2: "holdings_of s2 = (holdings_of s1) \<lparr> h_console_pool := port_release (ln_console nr) (sv_console s1) \<rparr>"
    by (simp add: s2_def holdings_of_def rt_of_def)
  define hb where "hb = (holdings_of s1) \<lparr> h_bcaps := sv_bcaps s3 \<rparr>"
  have le: "sv_bcaps s3 \<subseteq>\<^sub>m h_bcaps (holdings_of s1)"
    using drop_links_holdings [OF d] by (simp add: s2_def holdings_fields)
  have down: "move (holdings_of s1) hb" unfolding hb_def by (rule Bcap_Down [OF le])
  have h3: "holdings_of s3 = hb \<lparr> h_console_pool := port_release (ln_console nr) (sv_console s1) \<rparr>"
    unfolding hb_def by (subst conjunct2 [OF drop_links_holdings [OF d]], subst h2) simp
  define doc where "doc = (the_doc s1) \<lparr> links := kept, nodes := filter (\<lambda>n. node_id n \<noteq> i) (nodes (the_doc s1)) \<rparr>"
  define s4 where "s4 = on_lab (\<lambda>ll. ll \<lparr> fl_doc := doc, fl_nodes := (fl_nodes ll)(i := None) \<rparr>)
    (s3 \<lparr> sv_nodes := (sv_nodes s3)(i := None) \<rparr>)"
  have res: "snd (handle_node_remove E K cfg lid i s) =
      refresh_fabric cfg (evict_tap_devices E K (ev_tap_names E ((fl_taps (the_lab s)) |` {i})) s4)"
    using True i d unfolding handle_node_remove_def
    by (simp add: Let_def s1_def [symmetric] s2_def [symmetric] doc_def [symmetric] s4_def [symmetric])
  have kinds: "node_kind_of s4 j = (if j = i then None else node_kind_of s1 j)" for j
    by (simp add: s4_def doc_def s2_def node_kind_of_def find_node_doc on_lab_def on_world_def find_filter_id)
  have rts: "rt_of s4 j = (if j = i then blank_rt else rt_of s3 j)" for j
    by (simp add: s4_def rt_of_def on_lab_def on_world_def)
  have dm: "dom (fl_nodes (the_lab s4)) = dom (fl_nodes (the_lab s3)) - {i}"
    by (simp add: s4_def on_lab_def on_world_def)
  have n4: "sv_nodes s4 = (sv_nodes s3)(i := None)" "sv_console s4 = sv_console s3" "sv_captures s4 = sv_captures s3"
    "sv_bcaps s4 = sv_bcaps s3" "sv_capture s4 = sv_capture s3" "sv_udp s4 = sv_udp s3" "sv_subnets s4 = sv_subnets s3"
    "sv_loaded s4 = sv_loaded s3"
    by (simp_all add: s4_def on_lab_def on_world_def)
  have kd3: "Option.bind (sv_nodes s3 j) (\<lambda>_. node_kind_of s4 j) = Option.bind (sv_nodes s1 j) (\<lambda>_. node_kind_of s1 j)"
    if "j \<noteq> i" for j
  proof -
    have "map_option ln_console (sv_nodes s3 j) = map_option ln_console (sv_nodes s1 j)"
      using arg_cong [OF h3, of "\<lambda>h. h_console h j"] by (simp add: holdings_fields hb_def)
    then show ?thesis using that by (cases "sv_nodes s3 j"; cases "sv_nodes s1 j") (simp_all add: kinds)
  qed
  have "holdings_of s4 = (holdings_of s3) \<lparr> h_kind := (h_kind (holdings_of s1))(i := None),
      h_console := (h_console (holdings_of s3))(i := None), h_rts := h_rts (holdings_of s3) - {i},
      h_ports := (h_ports (holdings_of s3))(i := None), h_subnet := (h_subnet (holdings_of s3))(i := None),
      h_vtap := (h_vtap (holdings_of s3))(i := False), h_vname := (h_vname (holdings_of s3))(i := False),
      h_nat := (h_nat (holdings_of s3))(i := False), h_tool := (h_tool (holdings_of s3))(i := False) \<rparr>"
    by (simp add: holdings_of_def [of s4] rts dm n4 fun_eq_iff) (auto simp: holdings_of_def blank_rt_def fun_eq_iff kd3)
  then have "holdings_of s4 = hb \<lparr> h_console_pool := port_release (ln_console nr) (h_console_pool hb),
      h_console := (h_console hb)(i := None), h_kind := (h_kind hb)(i := None),
      h_rts := h_rts hb - {i}, h_ports := (h_ports hb)(i := None),
      h_subnet := (h_subnet hb)(i := None), h_vtap := (h_vtap hb)(i := False),
      h_vname := (h_vname hb)(i := False), h_nat := (h_nat hb)(i := False),
      h_tool := (h_tool hb)(i := False) \<rparr>"
    unfolding h3 by (simp add: holdings_fields hb_def)
  then have "move hb (holdings_of s4)"
    using Node_Down [of hb i "ln_console nr"] by (simp add: hb_def holdings_fields i1 zero idle)
  then have "moves s1 s4" using down by (meson converse_rtranclp_into_rtranclp rtranclp.rtrancl_refl)
  then show ?thesis unfolding res using m1 by (simp add: holdings_evict rtranclp_trans [of move])
next
  case False
  then have "snd (handle_node_remove E K cfg lid i s) = s" by (auto simp: handle_node_remove_def split: option.split)
  then show ?thesis by simp
qed

lemma set_doc_image_find:
  "map_option node_kind (find (\<lambda>n. node_id n = j) (set_doc_image i im ns)) = map_option node_kind (find (\<lambda>n. node_id n = j) ns)"
  by (induction ns) (auto split: option.split)

lemma set_image_moves: "moves s (snd (handle_node_set_image lid i im s))"
proof -
  have "holdings_of (on_lab (\<lambda>ll. ll \<lparr> fl_doc := (fl_doc ll) \<lparr> nodes := set_doc_image i im (nodes (fl_doc ll)) \<rparr> \<rparr>)
      (upd_node i (\<lambda>n. n \<lparr> ln_image := im \<rparr>) s)) = holdings_of s"
    by (subst holdings_on_lab) (simp_all add: same_kinds_def find_node_doc set_doc_image_find)
  then show ?thesis by (auto simp: handle_node_set_image_def split: option.split)
qed

lemma link_add_moves:
  assumes a: "accounted L (holdings_of s)"
  shows "moves s (snd (handle_link_add E K cfg lid l s))"
proof (cases "current_lab lid s")
  case None
  let ?t = "refresh_fabric cfg (on_world (link_add_doc l) s)"
  obtain r s' where r: "start_fabric E K [] ?t = (r, s')" by fastforce
  have "accounted L (holdings_of ?t)" using a by simp
  from start_fabric_moves [OF this r] show ?thesis using None r by (simp add: handle_link_add_def)
qed (simp add: handle_link_add_def)

text \<open>Fault edits, timers and callbacks touch no node.\<close>

definition keeps_nodes :: "'k fault_world \<Rightarrow> 'k fault_world \<Rightarrow> bool" where
  "keeps_nodes w w' \<longleftrightarrow> same_shapes (fw_lab w) (fw_lab w') \<and> nodes (fl_doc (fw_lab w')) = nodes (fl_doc (fw_lab w))"

lemma keeps_refl [simp]: "keeps_nodes w w"
  by (simp add: keeps_nodes_def)

lemma keeps_trans: "keeps_nodes a b \<Longrightarrow> keeps_nodes b c \<Longrightarrow> keeps_nodes a c"
  by (auto simp: keeps_nodes_def intro: same_shapes_trans)

lemma keeps_same:
  "fl_nodes (fw_lab w') = fl_nodes (fw_lab w) \<Longrightarrow> nodes (fl_doc (fw_lab w')) = nodes (fl_doc (fw_lab w)) \<Longrightarrow> keeps_nodes w w'"
  by (simp add: keeps_nodes_def same_shapes_eq)

lemma holdings_keeps: "keeps_nodes (sv_world s) w \<Longrightarrow> holdings_of (s \<lparr> sv_world := w \<rparr>) = holdings_of s"
  by (rule holdings_world) (auto simp: keeps_nodes_def intro: same_kinds_nodes)

lemma arm_timer_nodes [simp]:
  "fl_nodes (fw_lab (arm_timer c i p w)) = fl_nodes (fw_lab w)" "fl_doc (fw_lab (arm_timer c i p w)) = fl_doc (fw_lab w)"
  by (simp_all add: arm_timer_def Let_def)

lemma world_steps_nodes [simp]:
  "fl_nodes (fw_lab (emit_link_fault i r w)) = fl_nodes (fw_lab w)" "fl_doc (fw_lab (emit_link_fault i r w)) = fl_doc (fw_lab w)"
  "fl_nodes (fw_lab (deactivate_if i p w)) = fl_nodes (fw_lab w)" "fl_doc (fw_lab (deactivate_if i p w)) = fl_doc (fw_lab w)"
  "fl_nodes (fw_lab (schedule_fault_expiry i p d w)) = fl_nodes (fw_lab w)"
  "fl_doc (fw_lab (schedule_fault_expiry i p d w)) = fl_doc (fw_lab w)"
  "fl_nodes (fw_lab (schedule_fault_activation i p q w)) = fl_nodes (fw_lab w)"
  "fl_doc (fw_lab (schedule_fault_activation i p q w)) = fl_doc (fw_lab w)"
  "fl_nodes (fw_lab (set_link_fault i f w)) = fl_nodes (fw_lab w)"
  "nodes (fl_doc (fw_lab (set_link_fault i f w))) = nodes (fl_doc (fw_lab w))"
  by (simp_all add: emit_link_fault_def deactivate_if_def schedule_fault_expiry_def schedule_fault_activation_def set_link_fault_def
      split: option.split prod.split)

lemma keeps_on_fabric:
  assumes "on_fabric g w = (r, w')" and "\<And>k ll r k' ll'. g k ll = (r, k', ll') \<Longrightarrow> same_shapes ll ll'"
    and "\<And>k ll r k' ll'. g k ll = (r, k', ll') \<Longrightarrow> fl_faults ll' = fl_faults ll \<and> fl_doc ll' = fl_doc ll"
  shows "keeps_nodes w w'"
  using assms by (auto simp: on_fabric_def keeps_nodes_def split: prod.splits)

lemma apply_shapes: "apply_active_fault K l k ll = (r, k', ll') \<Longrightarrow> same_shapes ll ll'"
  by (auto simp: apply_active_fault_def dest: reconcile_down_shapes split: option.splits prod.splits bool.splits if_splits)

lemma clear_shapes: "clear_fault_effect K l k ll = (r, k', ll') \<Longrightarrow> same_shapes ll ll'"
  by (auto simp: clear_fault_effect_def dest: attach_fabric_link_shapes split: option.splits prod.splits bool.splits if_splits)

lemma keeps_apply: "on_fabric (apply_active_fault K l) w = (r, w') \<Longrightarrow> keeps_nodes w w'"
  by (erule keeps_on_fabric) (erule apply_shapes, erule apply_active_fault_doc)

lemma keeps_clear: "on_fabric (clear_fault_effect K l) w = (r, w') \<Longrightarrow> keeps_nodes w w'"
  by (erule keeps_on_fabric) (erule clear_shapes, erule clear_fault_effect_doc)

lemma keeps_after: "fl_nodes (fw_lab w') = fl_nodes (fw_lab u) \<Longrightarrow> nodes (fl_doc (fw_lab w')) = nodes (fl_doc (fw_lab u)) \<Longrightarrow>
   keeps_nodes w u \<Longrightarrow> keeps_nodes w w'"
  by (auto simp: keeps_nodes_def same_shapes_def)

lemma keeps_before: "fl_nodes (fw_lab u) = fl_nodes (fw_lab w) \<Longrightarrow> nodes (fl_doc (fw_lab u)) = nodes (fl_doc (fw_lab w)) \<Longrightarrow>
   keeps_nodes u w' \<Longrightarrow> keeps_nodes w w'"
  by (auto simp: keeps_nodes_def same_shapes_def)

lemma keeps_install:
  assumes eq: "install_fault K args l old p f w = (r, w')"
  shows "keeps_nodes w w'"
proof -
  let ?i = "link_id l"
  define active where "active = (fa_after args \<le> 0)"
  define w5 where "w5 = put_fault ?i (Some \<lparr> af_fault = Some (p, f), af_active = active, af_timer = None \<rparr>) w"
  obtain r6 w6 where 6: "(if active then on_fabric (apply_active_fault K l) w5
      else (None, schedule_fault_activation ?i p (fa_for args) w5)) = (r6, w6)" by fastforce
  have k6: "keeps_nodes w w6"
  proof -
    have "keeps_nodes w5 w6" using 6 keeps_apply by (auto simp: keeps_same split: if_splits)
    then show ?thesis by (rule keeps_before [rotated 2]) (simp_all add: w5_def)
  qed
  define w7 where "w7 = put_fault ?i old (set_link_fault ?i (link_fault_def l) w6)"
  obtain r8 w8 where 8: "on_fabric (apply_active_fault K l) w7 = (r8, w8)" by fastforce
  have k7: "keeps_nodes w w7" by (rule keeps_after [OF _ _ k6]) (simp_all add: w7_def)
  have k8: "keeps_nodes w w8" by (rule keeps_trans [OF k7 keeps_apply [OF 8]])
  show ?thesis
  proof (cases r6)
    case None
    then show ?thesis
      using eq unfolding install_fault_def Let_def active_def [symmetric] w5_def [symmetric] 6
      by (auto intro!: keeps_after [OF _ _ k6])
  next
    case (Some e)
    then have "w' = (if was_active old then w8 else w7)"
      using eq 8 unfolding install_fault_def Let_def active_def [symmetric] w5_def [symmetric] 6
      by (simp add: w7_def split: if_splits)
    then show ?thesis using k7 k8 by simp
  qed
qed

lemma keeps_replace:
  assumes eq: "replace_fault K args l w = (r, w')"
  shows "keeps_nodes w w'"
proof -
  let ?i = "link_id l"
  define old where "old = clone_fault (fw_next w) (faults_of w ?i)"
  define w1 where "w1 = cancel_fault_timer ?i (w \<lparr> fw_next := fw_next w + 1 \<rparr>)"
  define w2 where "w2 = w1 \<lparr> fw_next := fw_next w1 + 1 \<rparr>"
  obtain r3 w3 where 3: "(if was_active old then on_fabric (clear_fault_effect K l) w2 else (None, w2)) = (r3, w3)" by fastforce
  have "keeps_nodes w2 w3" using 3 keeps_clear by (auto split: if_splits)
  then have k3: "keeps_nodes w w3" by (rule keeps_before [rotated 2]) (simp_all add: w2_def w1_def)
  define w4 where "w4 = set_link_fault ?i (fa_fault args) w3"
  have k4: "keeps_nodes w w4" by (rule keeps_after [OF _ _ k3]) (simp_all add: w4_def)
  show ?thesis
  proof (cases r3)
    case (Some e)
    then show ?thesis
      using eq k3 unfolding replace_fault_def Let_def old_def [symmetric] w1_def [symmetric] w2_def [symmetric] 3 by simp
  next
    case None
    note unf = replace_fault_def Let_def old_def [symmetric] w1_def [symmetric] w2_def [symmetric] 3
    show ?thesis
    proof (cases "fa_fault args")
      case None
      then show ?thesis using eq \<open>r3 = None\<close> unfolding unf by (auto intro!: keeps_after [OF _ _ k3])
    next
      case (Some f)
      then have "install_fault K args l old (fw_next w1) f w4 = (r, w')" using eq \<open>r3 = None\<close> unfolding unf by (simp add: w4_def)
      then show ?thesis by (rule keeps_trans [OF k4 keeps_install])
    qed
  qed
qed

lemma keeps_expire: "keeps_nodes w (expire_callback K foreign i p w)"
proof -
  define w1 where "w1 = put_fault i (map_option (\<lambda>f. f \<lparr> af_timer := None, af_active := False \<rparr>) (faults_of w i)) w"
  have k1: "keeps_nodes w w1" by (rule keeps_same) (simp_all add: w1_def)
  have k2: "keeps_nodes w w2" if "on_fabric (clear_fault_effect K l) w1 = (e, w2)" for l e w2
    by (rule keeps_trans [OF k1 keeps_clear [OF that]])
  show ?thesis
    using k1 by (auto simp: expire_callback_def Let_def w1_def [symmetric] intro: keeps_after [OF _ _ k1] keeps_after [OF _ _ k2]
        split: option.split prod.split)
qed

lemma keeps_activate: "keeps_nodes w (activate_callback K foreign i p q w)"
proof -
  define w1 where "w1 = put_fault i (map_option (\<lambda>f. f \<lparr> af_active := True, af_timer := None \<rparr>) (faults_of w i)) w"
  have k1: "keeps_nodes w w1" by (rule keeps_same) (simp_all add: w1_def)
  have k2: "keeps_nodes w w2" if "on_fabric (apply_active_fault K l) w1 = (e, w2)" for l e w2
    by (rule keeps_trans [OF k1 keeps_apply [OF that]])
  show ?thesis
    using k1 by (auto simp: activate_callback_def Let_def w1_def [symmetric] intro: keeps_after [OF _ _ k1] keeps_after [OF _ _ k2]
        split: option.split prod.split)
qed

lemma keeps_timers: "keeps_nodes w (fire_timer t w)" "keeps_nodes w (run_timer K foreign t w)"
proof -
  show "keeps_nodes w (fire_timer t w)"
    by (rule keeps_same) (simp_all add: fire_timer_def split: prod.split timer_state.split)
  have "keeps_nodes w (run_callback K foreign c (w \<lparr> fw_timers := ts \<rparr>))" for c ts
    by (rule keeps_before [of "w \<lparr> fw_timers := ts \<rparr>"])
      (simp_all add: run_callback_def keeps_expire keeps_activate split: timer_call.split)
  then show "keeps_nodes w (run_timer K foreign t w)"
    by (auto simp: run_timer_def split: prod.split timer_state.split)
qed

lemma link_set_fault_moves: "moves s (snd (serve_link_set_fault K cfg lid args s))"
proof -
  obtain r w where r: "handle_link_set_fault K (cfg_tmp cfg) (cfg_uid cfg) args (sv_world s) = (r, w)" by fastforce
  have "keeps_nodes (sv_world s) w"
    using r keeps_replace by (auto simp: handle_link_set_fault_def split: option.splits if_splits)
  then show ?thesis using r by (auto simp: serve_link_set_fault_def holdings_keeps split: option.split sum.split)
qed

lemma timer_moves: "moves s (on_world (fire_timer t) s)" "moves s (on_world (run_timer K foreign t) s)"
  by (simp_all add: on_world_def holdings_keeps [OF keeps_timers(1)] holdings_keeps [OF keeps_timers(2)])

lemma link_remove_moves:
  assumes a: "accounted L (holdings_of s)"
  shows "moves s (snd (handle_link_remove E K cfg lid l s))"
proof -
  have "keeps_nodes w (forget_link l w)" for w :: "'a fault_world"
    unfolding forget_link_def Let_def by (auto intro: keeps_same)
  then have f: "holdings_of (on_world (forget_link l) t) = holdings_of t" for t :: "'a server"
    by (simp add: on_world_def holdings_keeps)
  have "(sv_bcaps s)(link_id l := None) \<subseteq>\<^sub>m h_bcaps (holdings_of s)"
    by (simp add: holdings_fields map_le_def)
  from Bcap_Down [OF this] have "moves s (detach_link E K l s)"
    by (simp add: holdings_detach_link r_into_rtranclp)
  then show ?thesis by (simp add: handle_link_remove_def Let_def f split: option.split)
qed

section \<open>lab.load and the reachable states\<close>

text \<open>A lab that adopts keeps every node's kind.\<close>

lemma same_topology_nodes:
  assumes t: "same_topology a b" and d: "distinct (map node_id (nodes b))"
  shows "distinct (map node_id (nodes a))" and "set (map node_id (nodes b)) = set (map node_id (nodes a))"
    and "nb \<in> set (nodes b) \<Longrightarrow> \<exists>na \<in> set (nodes a). node_id na = node_id nb \<and> same_node_shape na nb"
proof -
  let ?m = "\<lambda>ns. map (\<lambda>n. (node_id n, n)) ns"
  define an where "an = map_of (rev (?m (nodes a)))"
  have len: "length (nodes a) = length (nodes b)" using t by (auto simp: same_topology_def split: if_splits)
  have sh: "\<exists>na \<in> set (nodes a). node_id na = node_id nb \<and> same_node_shape na nb" if "nb \<in> set (nodes b)" for nb
  proof -
    have "case an (node_id nb) of None \<Rightarrow> False | Some na \<Rightarrow> same_node_shape na nb"
      using t that unfolding same_topology_def Let_def an_def [symmetric] list_all_iff by (auto split: if_splits)
    then obtain na where "an (node_id nb) = Some na" "same_node_shape na nb" by (cases "an (node_id nb)") auto
    moreover have "na \<in> set (nodes a) \<and> node_id na = node_id nb"
      using calculation(1) unfolding an_def by (auto dest!: map_of_SomeD)
    ultimately show ?thesis by blast
  qed
  have sub: "set (map node_id (nodes b)) \<subseteq> set (map node_id (nodes a))"
  proof
    fix i assume "i \<in> set (map node_id (nodes b))"
    then obtain nb where "nb \<in> set (nodes b)" "node_id nb = i" by auto
    then obtain na where "na \<in> set (nodes a)" "node_id na = i" using sh [of nb] by metis
    then show "i \<in> set (map node_id (nodes a))" by auto
  qed
  have "card (set (map node_id (nodes b))) = length (nodes a)" using distinct_card [OF d] len by simp
  moreover have "card (set (map node_id (nodes a))) \<le> length (nodes a)" using card_length [of "map node_id (nodes a)"] by simp
  ultimately show "set (map node_id (nodes b)) = set (map node_id (nodes a))"
    and "distinct (map node_id (nodes a))"
    using card_mono [OF _ sub] card_subset_eq [OF _ sub] card_distinct [of "map node_id (nodes a)"] by (simp_all add: le_antisym)
  show "nb \<in> set (nodes b) \<Longrightarrow> \<exists>na \<in> set (nodes a). node_id na = node_id nb \<and> same_node_shape na nb" by (rule sh)
qed

lemma same_node_shape_kind: "same_node_shape a b \<Longrightarrow> node_kind a = node_kind b"
  by (simp add: same_node_shape_def split: if_splits)

lemma find_by_id:
  assumes "distinct (map node_id ns)" and "n \<in> set ns"
  shows "find (\<lambda>m. node_id m = node_id n) ns = Some n"
  using assms by (induction ns) (auto simp: image_iff)

lemma same_topology_kinds:
  assumes t: "same_topology a b" and d: "distinct (map node_id (nodes b))"
  shows "map_option node_kind (find (\<lambda>n. node_id n = i) (nodes b)) = map_option node_kind (find (\<lambda>n. node_id n = i) (nodes a))"
proof (cases "find (\<lambda>n. node_id n = i) (nodes b)")
  case (Some nb)
  then have nb: "nb \<in> set (nodes b)" "node_id nb = i" by (auto simp: find_Some_iff)
  then obtain na where na: "na \<in> set (nodes a)" "node_id na = i" "same_node_shape na nb"
    using same_topology_nodes(3) [OF t d] by blast
  have "find (\<lambda>n. node_id n = i) (nodes a) = Some na"
    using find_by_id [OF same_topology_nodes(1) [OF t d] na(1)] na(2) by simp
  then show ?thesis using Some same_node_shape_kind [OF na(3)] by simp
next
  case None
  then have "i \<notin> set (map node_id (nodes b))" by (auto simp: find_None_iff)
  then have "i \<notin> set (map node_id (nodes a))" unfolding same_topology_nodes(2) [OF t d] .
  then have "find (\<lambda>n. node_id n = i) (nodes a) = None" by (auto simp: find_None_iff)
  then show ?thesis using None by simp
qed

lemma adopt_holdings:
  assumes "try_adopt_load E doc s = (r, s')" and "validate doc = None"
  shows "holdings_of s' = holdings_of s \<and> sv_loaded s' = sv_loaded s \<and> sv_console s' = sv_console s"
proof -
  have "s' = s \<or> (same_topology (the_doc s) doc \<and> s' = on_lab (\<lambda>ll. ll \<lparr> fl_doc := doc \<rparr>) s)"
    using assms(1) by (auto simp: try_adopt_load_def Let_def split: if_splits)
  moreover have "holdings_of (on_lab (\<lambda>ll. ll \<lparr> fl_doc := doc \<rparr>) s) = holdings_of s" if t: "same_topology (the_doc s) doc"
    by (rule holdings_on_lab) (simp_all add: same_kinds_def find_node_doc same_topology_kinds [OF t validate_distinct [OF assms(2)]])
  ultimately show ?thesis by (auto simp: on_lab_def)
qed

text \<open>The console ports of the new nodes.\<close>

lemma load_nodes_books:
  assumes "load_nodes im ns m p = (r, q)" and "exact (\<lambda>i. map_option ln_console (m i)) (taken_ports p - T)" and "T \<subseteq> taken_ports p"
    and "distinct (map node_id ns)" and "dom m \<inter> node_id ` set ns = {}" and "finite (dom m)"
    and "\<And>i n. m i = Some n \<Longrightarrow> ln_ports n = (0, 0) \<and> ln_subnet n = 0"
  shows "taken_ports p \<subseteq> taken_ports q \<and>
    (\<forall>m'. r = Some m' \<longrightarrow> exact (\<lambda>i. map_option ln_console (m' i)) (taken_ports q - T) \<and> dom m' = dom m \<union> node_id ` set ns \<and>
       finite (dom m') \<and> (\<forall>i n. m' i = Some n \<longrightarrow> ln_ports n = (0, 0) \<and> ln_subnet n = 0))"
  using assms
proof (induction ns arbitrary: m p)
  case (Cons n ns)
  show ?case
  proof (cases "port_next p")
    case None
    then show ?thesis using Cons.prems(1) by auto
  next
    case (Some y)
    then obtain x p1 where p: "port_next p = Some (x, p1)" by (cases y) auto
    note P = port_next_free [OF p]
    let ?m = "m(node_id n \<mapsto> new_live_node im n x)"
    have nl: "ln_console (new_live_node im n x) = x" "ln_ports (new_live_node im n x) = (0, 0)" "ln_subnet (new_live_node im n x) = 0"
      by (simp_all add: new_live_node_def split: prod.split)
    have fresh: "m (node_id n) = None" using Cons.prems(5) by auto
    have c: "(\<lambda>i. map_option ln_console (?m i)) = (\<lambda>i. map_option ln_console (m i))(node_id n \<mapsto> x)"
      by (simp add: fun_eq_iff nl)
    have t1: "taken_ports p1 - T = insert x (taken_ports p - T)" using P Cons.prems(3) by auto
    have "taken_ports p1 \<subseteq> taken_ports q \<and>
      (\<forall>m'. r = Some m' \<longrightarrow> exact (\<lambda>i. map_option ln_console (m' i)) (taken_ports q - T) \<and> dom m' = dom ?m \<union> node_id ` set ns \<and>
         finite (dom m') \<and> (\<forall>i n. m' i = Some n \<longrightarrow> ln_ports n = (0, 0) \<and> ln_subnet n = 0))"
    proof (rule Cons.IH)
      show "load_nodes im ns ?m p1 = (r, q)" using Cons.prems(1) p by simp
      show "exact (\<lambda>i. map_option ln_console (?m i)) (taken_ports p1 - T)"
        unfolding c t1 by (rule exact_take [OF Cons.prems(2)]) (use P fresh in auto)
      show "T \<subseteq> taken_ports p1" using Cons.prems(3) P by auto
      show "distinct (map node_id ns)" "dom ?m \<inter> node_id ` set ns = {}" using Cons.prems(4,5) by auto
      show "finite (dom ?m)" using Cons.prems(6) by simp
      show "\<And>i n'. ?m i = Some n' \<Longrightarrow> ln_ports n' = (0, 0) \<and> ln_subnet n' = 0" using Cons.prems(7) nl by (auto split: if_splits)
    qed
    then show ?thesis using P(2) by auto
  qed
qed auto

text \<open>Idle nodes stay idle while others stop, and once the whole fabric is down.\<close>

definition idle_rt :: "node_runtime \<Rightarrow> bool" where
  "idle_rt r \<longleftrightarrow> nr_extnet r = None \<and> nr_tool r = None \<and> \<not> nr_vtap r"

lemma idle_blank [simp]: "idle_rt blank_rt"
  by (simp add: idle_rt_def blank_rt_def)

lemma idle_upd:
  "idle_rt (rt_of s j) \<Longrightarrow> idle_rt (rt_of (upd_rt i (\<lambda>r. r \<lparr> nr_extnet := None \<rparr>) s) j)"
  "idle_rt (rt_of s j) \<Longrightarrow> idle_rt (rt_of (upd_rt i (\<lambda>r. r \<lparr> nr_tool := None \<rparr>) s) j)"
  "idle_rt (rt_of s j) \<Longrightarrow> idle_rt (rt_of (teardown_vpcs E K i s) j)"
  by (auto simp: idle_rt_def rt_of_upd_rt teardown_vpcs_rt)

lemma stop_node_keeps_idle: "idle_rt (rt_of s j) \<Longrightarrow> idle_rt (rt_of (stop_node E K i s) j)"
  by (auto simp: stop_node_def Let_def idle_upd split: option.split)

lemma teardown_node_keeps_idle: "idle_rt (rt_of s j) \<Longrightarrow> idle_rt (rt_of (teardown_node E K i s) j)"
  by (auto simp: teardown_node_def Let_def idle_upd split: option.split)

lemma fold_keeps: "(\<And>x t. P t \<Longrightarrow> P (f x t)) \<Longrightarrow> P s \<Longrightarrow> P (fold f xs s)"
  by (induction xs arbitrary: s) auto

lemma teardown_fabric_keeps_idle:
  assumes "idle_rt (rt_of s j)"
  shows "idle_rt (rt_of (teardown_fabric E K s) j)"
proof -
  have w: "idle_rt (rt_of t j) \<Longrightarrow> idle_rt (rt_of (on_world g t) j)" if "\<And>w. fl_nodes (fw_lab (g w)) = fl_nodes (fw_lab w)" for g and t :: "'a server"
    using that by (simp add: rt_of_def on_world_def)
  have b: "idle_rt (rt_of t j) \<Longrightarrow> idle_rt (rt_of (delete_bridge_verified K l t) j)" for l t
    by (simp add: delete_bridge_verified_def split: sum.split)
  have bc: "rt_of (t \<lparr> sv_bcaps := m \<rparr>) = rt_of t" for t :: "'a server" and m by (simp add: rt_of_def fun_eq_iff)
  show ?thesis
    unfolding teardown_fabric_def Let_def
    by (intro fold_keeps [where P = "\<lambda>t. idle_rt (rt_of t j)"] teardown_node_keeps_idle b)
      (use assms in \<open>simp_all add: on_lab_def w bc fold_nodes\<close>)
qed

end
