(* ===== verification/Server_Reach.thy ===== *)
theory Server_Reach
  imports Server_Holdings "HOL-Library.Multiset"
begin

text \<open>
  The server as a state machine: one request at a time, from a server with nothing loaded
  (New in server/server.go, and the verbs its register method serves).  Every step may meet
  another kernel, other processes and other range orders.  The ghost set L holds the console
  ports that a refused lab.load took and nobody gives back.
\<close>

section \<open>Requests\<close>

definition new_server :: "'k \<Rightarrow> 'k server" where
  "new_server k =
     \<lparr> sv_world = load_faults k (new_fabric_lab
         \<lparr> version = 1, lab_id = [], lab_name = [], nodes = [], links = [] \<rparr> Map.empty),
       sv_loaded = False, sv_nodes = Map.empty, sv_captures = Map.empty, sv_bcaps = Map.empty,
       sv_console = new_port_allocator 9000 1000, sv_capture = new_port_allocator 5500 1000,
       sv_udp = new_port_allocator 10000 20000, sv_subnets = new_subnet_allocator,
       sv_images = Map.empty, sv_files = Map.empty \<rparr>"

text \<open>The verbs that change state, and what happens without one: timers, exits, and shutdown.\<close>

datatype request =
    Lab_Load lab | Lab_Start string "int list option" | Lab_Stop string "int list option" | Lab_Reap
  | Lab_Wipe string "int list option" | Node_Start string int | Node_Stop string int | Node_Restart string int
  | Node_Add string node | Node_Remove string int | Node_Set_Image string int string
  | Link_Add string link | Link_Remove string link | Link_Set_Fault string fault_args
  | Capture_Start string int | Capture_Stop string int | PC_Sync string "int option"
  | Image_Register string image_info | Timer_Fires nat | Timer_Runs bool nat | Process_Exits int bool

definition serve :: "'k env \<Rightarrow> 'k kernel \<Rightarrow> server_cfg \<Rightarrow> request \<Rightarrow> 'k server \<Rightarrow> 'k server" where
  "serve E K cfg r s =
     (case r of
        Lab_Load doc \<Rightarrow> snd (handle_lab_load E K cfg doc s)
      | Lab_Start lid sel \<Rightarrow> snd (handle_lab_start E K cfg lid sel s)
      | Lab_Stop lid sel \<Rightarrow> snd (handle_lab_stop E K lid sel s)
      | Lab_Reap \<Rightarrow> snd (handle_lab_reap E K s)
      | Lab_Wipe lid sel \<Rightarrow> snd (handle_lab_wipe E K cfg lid sel s)
      | Node_Start lid i \<Rightarrow> snd (handle_node_start E K cfg lid i s)
      | Node_Stop lid i \<Rightarrow> snd (handle_node_stop E K lid i s)
      | Node_Restart lid i \<Rightarrow> snd (handle_node_restart E K cfg lid i s)
      | Node_Add lid n \<Rightarrow> snd (handle_node_add lid n s)
      | Node_Remove lid i \<Rightarrow> snd (handle_node_remove E K cfg lid i s)
      | Node_Set_Image lid i im \<Rightarrow> snd (handle_node_set_image lid i im s)
      | Link_Add lid l \<Rightarrow> snd (handle_link_add E K cfg lid l s)
      | Link_Remove lid l \<Rightarrow> snd (handle_link_remove E K cfg lid l s)
      | Link_Set_Fault lid args \<Rightarrow> snd (serve_link_set_fault K cfg lid args s)
      | Capture_Start lid l \<Rightarrow> snd (handle_capture_start E lid l s)
      | Capture_Stop lid l \<Rightarrow> snd (handle_capture_stop E lid l s)
      | PC_Sync lid sel \<Rightarrow> snd (handle_pc_sync_state E lid sel s)
      | Image_Register i info \<Rightarrow> register_image i info s
      | Timer_Fires t \<Rightarrow> on_world (fire_timer t) s
      | Timer_Runs foreign t \<Rightarrow> on_world (run_timer K foreign t) s
      | Process_Exits i err \<Rightarrow> (case reap_decision False err of None \<Rightarrow> s | Some st \<Rightarrow> node_to st i s))"

definition leaked :: "'k env \<Rightarrow> 'k kernel \<Rightarrow> server_cfg \<Rightarrow> request \<Rightarrow> 'k server \<Rightarrow> int set" where
  "leaked E K cfg r s =
     (case r of
        Lab_Load doc \<Rightarrow>
          (case handle_lab_load E K cfg doc s of
             (Inl _, s') \<Rightarrow> taken_ports (sv_console s') - taken_ports (sv_console s)
           | (Inr _, _) \<Rightarrow> {})
      | _ \<Rightarrow> {})"

inductive reaches :: "'k server \<Rightarrow> int set \<Rightarrow> bool" where
  reaches_new: "reaches (new_server k) {}"
| reaches_serve: "reaches s L \<Longrightarrow> go_range (ev_range E) \<Longrightarrow> reaches (serve E K cfg r s) (L \<union> leaked E K cfg r s)"

section \<open>Everything stopped\<close>

lemma accounted_nodes_finite: "accounted L (holdings_of s) \<Longrightarrow> finite (dom (sv_nodes s))"
proof -
  assume "accounted L (holdings_of s)"
  then have "finite (dom (h_console (holdings_of s)))" by (auto simp: accounted_def console_books_def)
  moreover have "dom (h_console (holdings_of s)) = dom (sv_nodes s)" by (auto simp: holdings_fields dom_def)
  ultimately show ?thesis by simp
qed

lemma node_ids_set: "accounted L (holdings_of s) \<Longrightarrow> go_range (ev_range E) \<Longrightarrow> set (node_ids E s) = dom (sv_nodes s)"
  by (simp add: node_ids_def go_range_def accounted_nodes_finite)

lemma rt_of_gone: "accounted L (holdings_of s) \<Longrightarrow> sv_nodes s j = None \<Longrightarrow> rt_of s j = blank_rt"
proof -
  assume a: "accounted L (holdings_of s)" and j: "sv_nodes s j = None"
  have "dom (fl_nodes (the_lab s)) = dom (sv_nodes s)" by (rule dom_nodes [OF a])
  then have "fl_nodes (the_lab s) j = None" using j by (auto simp: domIff)
  then show ?thesis by (simp add: rt_of_def)
qed

lemma stop_all_idle:
  assumes "accounted L (holdings_of s)" and "j \<in> set ids"
  shows "idle_rt (rt_of (fold (stop_node E K) ids s) j)"
  using assms
proof (induction ids arbitrary: s)
  case (Cons i ids)
  let ?t = "stop_node E K i s"
  have a: "accounted L (holdings_of ?t)" by (rule moves_accounted [OF stop_node_moves [OF Cons.prems(1)] Cons.prems(1)])
  show ?case
  proof (cases "j = i")
    case True
    have "idle_rt (rt_of ?t j)"
    proof (cases "sv_nodes s i")
      case None
      then show ?thesis using rt_of_gone [OF Cons.prems(1) None] True by (simp add: stop_node_def)
    next
      case (Some n)
      then show ?thesis using stop_node_idle [OF Cons.prems(1) Some] True by (simp add: idle_rt_def)
    qed
    then show ?thesis
      by (simp add: fold_keeps [where P = "\<lambda>t. idle_rt (rt_of t j)"] stop_node_keeps_idle)
  next
    case False
    then show ?thesis using Cons.IH [OF a] Cons.prems(2) by simp
  qed
qed simp

lemma idle_frees:
  assumes a: "accounted L (holdings_of s)" and q: "\<And>j. idle_rt (rt_of s j)"
  shows "taken_ports (sv_udp s) = {}" "sv_subnets s = {}"
    "sv_nodes s j = Some n \<Longrightarrow> ln_ports n = (0, 0) \<and> ln_subnet n = 0"
proof -
  have i: "\<not> nr_vtap (rt_of s j)" "nr_extnet (rt_of s j) = None" for j using q [of j] by (simp_all add: idle_rt_def)
  have u: "exact (udp_holder (h_ports (holdings_of s))) (taken_ports (sv_udp s))"
    using a by (simp add: accounted_def udp_books_def holdings_fields)
  have p: "map_option ln_ports (sv_nodes s j) = None \<or> map_option ln_ports (sv_nodes s j) = Some (0, 0)" for j
    using accounted_node(3) [OF a, of j] i(1) [of j] by (auto simp: shim_ok_def split: option.splits prod.splits)
  have "udp_holder (h_ports (holdings_of s)) (j, b) = None" for j b
    by (rule udp_holder_None) (use p [of j] in \<open>simp add: holdings_fields\<close>)
  then show "taken_ports (sv_udp s) = {}" using exact_holder [OF u] by fastforce
  have n: "exact (\<lambda>i. nonzero (h_subnet (holdings_of s) i)) (sv_subnets s)"
    using a by (simp add: accounted_def nat_books_def holdings_fields)
  have z: "nonzero (h_subnet (holdings_of s) j) = None" for j
    using accounted_node(1) [OF a, of j] i(2) [of j] by (simp add: holdings_fields)
  show "sv_subnets s = {}" using exact_holder [OF n] z by fastforce
  show "sv_nodes s j = Some n \<Longrightarrow> ln_ports n = (0, 0) \<and> ln_subnet n = 0"
    using p [of j] z [of j] by (auto simp: holdings_fields nonzero_def split: if_splits)
qed

text \<open>Stopping every node, then taking the fabric and the captures down.\<close>

definition quiesce :: "'k env \<Rightarrow> 'k kernel \<Rightarrow> int list \<Rightarrow> 'k server \<Rightarrow> 'k server" where
  "quiesce E K ids s = teardown_fabric E K (fold (stop_node E K) ids s)"

lemma quiesce_props:
  assumes a: "accounted L (holdings_of s)" and ids: "dom (sv_nodes s) \<subseteq> set ids"
  shows "moves s (quiesce E K ids s)" "accounted L (holdings_of (quiesce E K ids s))"
    "sv_bcaps (quiesce E K ids s) = Map.empty" "idle_rt (rt_of (quiesce E K ids s) j)"
proof -
  define s1 where "s1 = fold (stop_node E K) ids s"
  have m1: "moves s s1" unfolding s1_def by (rule fold_moves [OF stop_node_moves a])
  note a1 = moves_accounted [OF m1 a]
  note m2 = teardown_fabric_moves [OF a1, of E K]
  show m: "moves s (quiesce E K ids s)" unfolding quiesce_def s1_def [symmetric] by (rule rtranclp_trans [OF m1 m2])
  show "accounted L (holdings_of (quiesce E K ids s))" by (rule moves_accounted [OF m a])
  show "sv_bcaps (quiesce E K ids s) = Map.empty" by (simp add: quiesce_def teardown_bcaps)
  have "idle_rt (rt_of s1 j)"
  proof (cases "j \<in> set ids")
    case True
    then show ?thesis unfolding s1_def by (rule stop_all_idle [OF a])
  next
    case False
    then have "sv_nodes s j = None" using ids by auto
    then have "idle_rt (rt_of s j)" using rt_of_gone [OF a] by simp
    then show ?thesis unfolding s1_def
      by (simp add: fold_keeps [where P = "\<lambda>t. idle_rt (rt_of t j)"] stop_node_keeps_idle)
  qed
  then show "idle_rt (rt_of (quiesce E K ids s) j)"
    unfolding quiesce_def s1_def [symmetric] by (rule teardown_fabric_keeps_idle)
qed

lemma release_captures_frame:
  "rt_of (release_captures E s) = rt_of s" "sv_udp (release_captures E s) = sv_udp s"
  "sv_subnets (release_captures E s) = sv_subnets s" "sv_nodes (release_captures E s) = sv_nodes s"
  "sv_console (release_captures E s) = sv_console s" "sv_bcaps (release_captures E s) = sv_bcaps s"
  "sv_captures (release_captures E s) = Map.empty" "sv_images (release_captures E s) = sv_images s"
  by (simp_all add: release_captures_def rt_of_def fun_eq_iff)

lemma captures_free: "accounted L (holdings_of s) \<Longrightarrow> sv_captures s = Map.empty \<Longrightarrow> taken_ports (sv_capture s) = {}"
  by (auto simp: accounted_def capture_books_def holdings_fields exact_def)
section \<open>lab.load\<close>

lemma release_consoles:
  "\<exists>q. fold release_console ids s = s \<lparr> sv_console := q \<rparr> \<and>
     taken_ports q = taken_ports (sv_console s) - {x. \<exists>i \<in> set ids. map_option ln_console (sv_nodes s i) = Some x}"
proof (induction ids arbitrary: s)
  case (Cons i ids)
  show ?case
  proof (cases "sv_nodes s i")
    case None
    then show ?thesis using Cons.IH [of s] by (simp add: release_console_def)
  next
    case (Some n)
    let ?t = "s \<lparr> sv_console := port_release (ln_console n) (sv_console s) \<rparr>"
    obtain q where q: "fold release_console ids ?t = ?t \<lparr> sv_console := q \<rparr>"
      and tq: "taken_ports q = taken_ports (sv_console ?t) - {x. \<exists>i \<in> set ids. map_option ln_console (sv_nodes ?t i) = Some x}"
      using Cons.IH [of ?t] by blast
    have "fold release_console (i # ids) s = s \<lparr> sv_console := q \<rparr>"
      using q Some by (simp add: release_console_def)
    moreover have "taken_ports q = taken_ports (sv_console s) -
        {x. \<exists>j \<in> set (i # ids). map_option ln_console (sv_nodes s j) = Some x}"
      using tq Some by auto
    ultimately show ?thesis by blast
  qed
next
  case Nil
  show ?case by (rule exI [of _ "sv_console s"]) simp
qed

lemma with_console:
  "sv_nodes (s \<lparr> sv_console := q \<rparr>) = sv_nodes s" "rt_of (s \<lparr> sv_console := q \<rparr>) = rt_of s"
  by (simp_all add: rt_of_def fun_eq_iff)

lemma leak_accounted:
  assumes a: "accounted L (holdings_of s)" and t: "taken_ports (sv_console s) \<subseteq> taken_ports q"
  shows "accounted (L \<union> (taken_ports q - taken_ports (sv_console s))) (holdings_of (s \<lparr> sv_console := q \<rparr>))"
proof -
  let ?N = "taken_ports q - taken_ports (sv_console s)"
  have h: "holdings_of (s \<lparr> sv_console := q \<rparr>) = (holdings_of s) \<lparr> h_console_pool := q \<rparr>"
    by (simp add: holdings_of_def rt_of_def)
  have c: "console_books L (h_console (holdings_of s)) (sv_console s) (h_rts (holdings_of s))"
    using a by (simp add: accounted_def holdings_fields)
  have "taken_ports q - (L \<union> ?N) = taken_ports (sv_console s) - L" using t by auto
  then have "console_books (L \<union> ?N) (h_console (holdings_of s)) q (h_rts (holdings_of s))"
    using c t by (auto simp: console_books_def)
  then show ?thesis using a unfolding h accounted_def by simp
qed

text \<open>What is left of the old lab: the new nodes' console ports, and nothing else.\<close>

lemma discard_books:
  assumes a: "accounted L (holdings_of s)" and g: "go_range (ev_range E)"
  shows "taken_ports (sv_console (discard_lab E K s)) = L" "taken_ports (sv_udp (discard_lab E K s)) = {}"
    "sv_subnets (discard_lab E K s) = {}" "taken_ports (sv_capture (discard_lab E K s)) = {}"
    "base_port (sv_udp (discard_lab E K s)) = base_port (sv_udp s)"
proof -
  define s2 where "s2 = quiesce E K (node_ids E s) s"
  have ids: "dom (sv_nodes s) \<subseteq> set (node_ids E s)" by (simp add: node_ids_set [OF a g])
  note Q = quiesce_props [OF a ids, of E K, folded s2_def]
  obtain q where q: "fold release_console (node_ids E s2) s2 = s2 \<lparr> sv_console := q \<rparr>"
    and tq: "taken_ports q = taken_ports (sv_console s2) - {x. \<exists>i \<in> set (node_ids E s2). map_option ln_console (sv_nodes s2 i) = Some x}"
    using release_consoles by blast
  define s4 where "s4 = release_captures E (s2 \<lparr> sv_console := q \<rparr>)"
  have eq: "discard_lab E K s = s4"
    using q by (simp add: discard_lab_def Let_def s4_def s2_def quiesce_def)
  have c: "console_books L (h_console (holdings_of s2)) (sv_console s2) (h_rts (holdings_of s2))"
    using Q(2) by (simp add: accounted_def holdings_fields)
  then have e: "exact (h_console (holdings_of s2)) (taken_ports (sv_console s2) - L)" and l: "L \<subseteq> taken_ports (sv_console s2)"
    by (simp_all add: console_books_def)
  have "{x. \<exists>i \<in> set (node_ids E s2). map_option ln_console (sv_nodes s2 i) = Some x} = taken_ports (sv_console s2) - L"
  proof (rule set_eqI, rule iffI)
    fix x assume "x \<in> taken_ports (sv_console s2) - L"
    then obtain i where i: "h_console (holdings_of s2) i = Some x" using exact_holder [OF e] by blast
    then have "i \<in> set (node_ids E s2)" unfolding node_ids_set [OF Q(2) g] by (auto simp: holdings_fields)
    then show "x \<in> {x. \<exists>i \<in> set (node_ids E s2). map_option ln_console (sv_nodes s2 i) = Some x}"
      using i by (auto simp: holdings_fields)
  next
    fix x assume "x \<in> {x. \<exists>i \<in> set (node_ids E s2). map_option ln_console (sv_nodes s2 i) = Some x}"
    then show "x \<in> taken_ports (sv_console s2) - L" using exact_held [OF e] by (force simp: holdings_fields)
  qed
  then have tq': "taken_ports q = L" using tq l by auto
  show "taken_ports (sv_console (discard_lab E K s)) = L" by (simp add: eq s4_def release_captures_frame tq')
  show "taken_ports (sv_udp (discard_lab E K s)) = {}" "sv_subnets (discard_lab E K s) = {}"
    using idle_frees(1,2) [OF Q(2,4)] by (simp_all add: eq s4_def release_captures_frame)
  have "moves s2 (release_captures E s2)" by (rule release_captures_moves [OF Q(2,3) g])
  then have "accounted L (holdings_of (release_captures E s2))" by (rule moves_accounted [OF _ Q(2)])
  then have "taken_ports (sv_capture (release_captures E s2)) = {}" by (rule captures_free) (simp add: release_captures_frame)
  then show "taken_ports (sv_capture (discard_lab E K s)) = {}" by (simp add: eq s4_def release_captures_def)
  have b: "move h h' \<Longrightarrow> base_port (h_udp_pool h') = base_port (h_udp_pool h)" for h h'
    by (induction rule: move.induct) (auto, metis port_next_free(4))
  have "move\<^sup>*\<^sup>* h h' \<Longrightarrow> base_port (h_udp_pool h') = base_port (h_udp_pool h)" for h h'
    by (induction rule: rtranclp_induct) (auto simp: b)
  from this [OF Q(1)] show "base_port (sv_udp (discard_lab E K s)) = base_port (sv_udp s)"
    by (simp add: eq s4_def release_captures_frame holdings_fields)
qed

lemma initial_faults_nodes: "fl_nodes (fw_lab (load_faults k ll)) = fl_nodes ll" "fl_doc (fw_lab (load_faults k ll)) = fl_doc ll"
  by (simp_all add: load_faults_def split: prod.split)

lemma publish_accounted:
  assumes c: "exact (\<lambda>i. map_option ln_console (m i)) (taken_ports (sv_console s) - L)" and l: "L \<subseteq> taken_ports (sv_console s)"
    and d: "dom m = node_id ` set (nodes doc)" and fresh: "\<And>i n. m i = Some n \<Longrightarrow> ln_ports n = (0, 0) \<and> ln_subnet n = 0"
    and free: "taken_ports (sv_udp s) = {}" "sv_subnets s = {}" "taken_ports (sv_capture s) = {}" "0 < base_port (sv_udp s)"
  shows "accounted L (holdings_of (publish_lab doc m s))"
proof -
  let ?s = "publish_lab doc m s"
  have rt: "fl_nodes (the_lab ?s) = (\<lambda>i. map_option (\<lambda>_. blank_rt) (m i))" and doc: "the_doc ?s = doc"
    by (simp_all add: publish_lab_def initial_faults_nodes new_fabric_lab_def)
  have R: "dom (fl_nodes (the_lab ?s)) = dom m" by (auto simp: rt dom_def)
  have b: "rt_of ?s i = blank_rt" for i by (simp add: rt_of_def rt split: option.split)
  have po: "(\<lambda>i. map_option ln_ports (m i)) = (\<lambda>i. map_option (\<lambda>_. (0, 0)) (m i))"
    and su: "(\<lambda>i. map_option ln_subnet (m i)) = (\<lambda>i. map_option (\<lambda>_. 0) (m i))"
    using fresh by (auto simp: fun_eq_iff split: option.splits intro!: option.map_cong0)
  have k: "node_kind_of ?s i \<noteq> None" if "i \<in> dom m" for i
    using that d by (auto simp: node_kind_of_def find_node_doc doc find_None_iff)
  have "console_books L (h_console (holdings_of ?s)) (h_console_pool (holdings_of ?s)) (h_rts (holdings_of ?s))"
    using c l d by (simp add: holdings_of_def R console_books_def) (simp add: publish_lab_def dom_def)
  moreover have "capture_books (h_captures (holdings_of ?s)) (h_bcaps (holdings_of ?s)) (h_capture_pool (holdings_of ?s))"
    using free by (simp add: holdings_of_def capture_books_def publish_lab_def exact_def)
  moreover have "udp_books (h_ports (holdings_of ?s)) (h_vtap (holdings_of ?s)) (h_vname (holdings_of ?s)) (h_udp_pool (holdings_of ?s)) (h_rts (holdings_of ?s))"
  proof -
    have "udp_holder (\<lambda>i. map_option (\<lambda>_. (0, 0)) (m i)) x = None" for x
      by (cases x) (auto intro!: udp_holder_None split: option.splits)
    then have "exact (udp_holder (\<lambda>i. map_option ln_ports (m i))) {}" unfolding po by (simp add: exact_def)
    moreover have "shim_ok False (map_option ln_ports (m i))" for i using fresh [of i] by (cases "m i") auto
    ultimately show ?thesis using free by (simp add: holdings_of_def udp_books_def b R blank_rt_def) (simp add: publish_lab_def dom_def)
  qed
  moreover have "nat_books (h_subnet (holdings_of ?s)) (h_nat (holdings_of ?s)) (h_subnets (holdings_of ?s)) (h_rts (holdings_of ?s))"
  proof -
    have z: "nonzero (map_option ln_subnet (m i)) = None" for i using fresh [of i] by (cases "m i") auto
    then have "exact (\<lambda>i. nonzero (map_option ln_subnet (m i))) {}" by (simp add: exact_def)
    then show ?thesis using free z by (simp add: holdings_of_def nat_books_def b R blank_rt_def) (simp add: publish_lab_def dom_def)
  qed
  moreover have "kind_books (h_kind (holdings_of ?s)) (h_vtap (holdings_of ?s)) (h_nat (holdings_of ?s)) (h_tool (holdings_of ?s)) (h_rts (holdings_of ?s))"
  proof -
    have n: "sv_nodes ?s = m" by (simp add: publish_lab_def)
    have "dom (\<lambda>i. Option.bind (m i) (\<lambda>_. node_kind_of ?s i)) = dom m"
      using k by (auto simp: dom_def split: Option.bind_splits)
    then show ?thesis by (simp add: holdings_of_def kind_books_def b R n blank_rt_def)
  qed
  moreover have "idle_books (h_loaded (holdings_of ?s)) (h_rts (holdings_of ?s)) (h_captures (holdings_of ?s))"
    by (simp add: holdings_of_def idle_books_def publish_lab_def)
  ultimately show ?thesis unfolding accounted_def by (simp only: simp_thms)
qed

lemma lab_load_accounted:
  assumes a: "accounted L (holdings_of s)" and g: "go_range (ev_range E)"
    and eq: "handle_lab_load E K cfg doc s = (r, s')"
  shows "accounted (L \<union> leaked E K cfg (Lab_Load doc) s) (holdings_of s')"
proof -
  have bp: "0 < base_port (sv_udp t)" if "accounted M (holdings_of t)" for M and t :: "'a server"
    using that by (simp add: accounted_def udp_books_def holdings_fields)
  obtain ad s1 where ad: "try_adopt_load E doc s = (ad, s1)" by fastforce
  show ?thesis
  proof (cases "validate doc = None \<and> check_packs (cfg_packs cfg) (nodes doc) = None")
    case False
    then have "s' = s" "\<exists>e. r = Inl e" using eq by (auto simp: handle_lab_load_def split: option.splits)
    then show ?thesis using a eq by (auto simp: leaked_def)
  next
    case True
    then have v: "validate doc = None" by simp
    have h1: "holdings_of s1 = holdings_of s" "sv_console s1 = sv_console s" using adopt_holdings [OF ad v] by simp_all
    have a1: "accounted L (holdings_of s1)" using a h1 by simp
    show ?thesis
    proof (cases ad)
      case (Some ps)
      then have "s' = s1" "\<exists>x. r = Inr x" using eq True ad by (auto simp: handle_lab_load_def)
      then show ?thesis using a1 eq by (auto simp: leaked_def)
    next
      case None
      obtain mo p where ln: "load_nodes (sv_images s1) (nodes doc) Map.empty (sv_console s1) = (mo, p)" by fastforce
      let ?T = "taken_ports (sv_console s1)"
      have "taken_ports (sv_console s1) \<subseteq> taken_ports p \<and>
        (\<forall>m'. mo = Some m' \<longrightarrow> exact (\<lambda>i. map_option ln_console (m' i)) (taken_ports p - ?T) \<and>
           dom m' = dom Map.empty \<union> node_id ` set (nodes doc) \<and> finite (dom m') \<and>
           (\<forall>i n. m' i = Some n \<longrightarrow> ln_ports n = (0, 0) \<and> ln_subnet n = 0))"
        using load_nodes_books [OF ln, of ?T] by (simp add: exact_def validate_distinct [OF v])
      then have sub: "?T \<subseteq> taken_ports p"
        and new: "\<And>m'. mo = Some m' \<Longrightarrow> exact (\<lambda>i. map_option ln_console (m' i)) (taken_ports p - ?T) \<and>
           dom m' = node_id ` set (nodes doc) \<and> (\<forall>i n. m' i = Some n \<longrightarrow> ln_ports n = (0, 0) \<and> ln_subnet n = 0)"
        by auto
      let ?N = "taken_ports p - ?T" and ?s2 = "s1 \<lparr> sv_console := p \<rparr>"
      note leak = leak_accounted [OF a1 sub]
      show ?thesis
      proof (cases mo)
        case None
        then have "r = Inl No_Port" "s' = ?s2" using eq True ad ln \<open>ad = None\<close> by (simp_all add: handle_lab_load_def)
        then show ?thesis using leak eq h1(2) by (simp add: leaked_def)
      next
        case (Some m)
        let ?s3 = "if sv_loaded ?s2 then discard_lab E K ?s2 else ?s2"
        have res: "s' = publish_lab doc m ?s3" "\<exists>x. r = Inr x"
          using eq True ad ln \<open>ad = None\<close> Some by (auto simp: handle_lab_load_def Let_def)
        then have nl: "leaked E K cfg (Lab_Load doc) s = {}" using eq by (auto simp: leaked_def)
        have cb: "console_books L (h_console (holdings_of s1)) (sv_console s1) (h_rts (holdings_of s1))"
          using a1 by (simp add: accounted_def holdings_fields)
        then have LT: "L \<subseteq> ?T" by (simp add: console_books_def)
        have free: "taken_ports (sv_console ?s3) = L \<union> ?N" "taken_ports (sv_udp ?s3) = {}" "sv_subnets ?s3 = {}"
          "taken_ports (sv_capture ?s3) = {}" "0 < base_port (sv_udp ?s3)"
        proof -
          have "taken_ports (sv_console ?s3) = L \<union> ?N \<and> taken_ports (sv_udp ?s3) = {} \<and> sv_subnets ?s3 = {} \<and>
            taken_ports (sv_capture ?s3) = {} \<and> 0 < base_port (sv_udp ?s3)"
          proof (cases "sv_loaded ?s2")
            case True
            then show ?thesis using discard_books [OF leak g, of K] bp [OF leak] by (simp only: if_True simp_thms)
          next
            case False
            then have R: "h_rts (holdings_of s1) = {}" and c: "sv_captures s1 = Map.empty"
              using a1 by (simp_all add: accounted_def idle_books_def holdings_fields)
            have "h_console (holdings_of s1) = Map.empty" using cb R by (auto simp: console_books_def)
            then have "?T = L" using cb by (auto simp: console_books_def exact_def)
            moreover have "idle_rt (rt_of s1 j)" for j
              using R by (auto simp: holdings_fields rt_of_def dom_def split: option.split)
            ultimately show ?thesis
              using False idle_frees(1,2) [OF a1] captures_free [OF a1 c] bp [OF a1] sub by auto
          qed
          then show "taken_ports (sv_console ?s3) = L \<union> ?N" "taken_ports (sv_udp ?s3) = {}" "sv_subnets ?s3 = {}"
            "taken_ports (sv_capture ?s3) = {}" "0 < base_port (sv_udp ?s3)" by blast+
        qed
        have "L \<union> ?N - L = ?N" using LT by auto
        then have "accounted L (holdings_of s')"
          unfolding res(1) using new [OF Some] free by (intro publish_accounted) auto
        then show ?thesis using nl by simp
      qed
    qed
  qed
qed

section \<open>Every request\<close>

lemma pc_sync_moves: "moves s (snd (handle_pc_sync_state E lid sel s))"
  by (simp add: handle_pc_sync_state_def fold_holdings split: option.split)

lemma register_moves: "moves s (register_image i info s)"
  by (rule moves_eq) (simp add: register_image_def holdings_of_def rt_of_def node_kind_of_def)

lemma node_start_moves: "accounted L (holdings_of s) \<Longrightarrow> moves s (snd (handle_node_start E K cfg lid i s))"
  by (cases "start_nodes E K cfg [i] s")
    (auto simp: handle_node_start_def dest: current_loaded start_nodes_moves split: option.splits)

lemma node_stop_moves: "accounted L (holdings_of s) \<Longrightarrow> moves s (snd (handle_node_stop E K lid i s))"
  by (simp add: handle_node_stop_def stop_node_moves split: option.split)

lemma serve_moves:
  assumes a: "accounted L (holdings_of s)" and g: "go_range (ev_range E)" and r: "\<And>doc. r \<noteq> Lab_Load doc"
  shows "moves s (serve E K cfg r s)"
proof (cases r)
  case (Process_Exits i err)
  then show ?thesis by (auto simp: serve_def split: option.split)
qed (use r in \<open>simp_all add: serve_def lab_start_moves [OF a] lab_stop_moves [OF a g] lab_reap_moves [OF a g] lab_wipe_moves [OF a]
    node_start_moves [OF a] node_stop_moves [OF a] node_restart_moves [OF a] node_add_moves [OF a] node_remove_moves [OF a]
    set_image_moves link_add_moves [OF a] link_remove_moves [OF a] link_set_fault_moves handle_capture_start_moves [OF a]
    handle_capture_stop_moves [OF a] pc_sync_moves register_moves timer_moves\<close>)

lemma serve_accounted:
  assumes a: "accounted L (holdings_of s)" and g: "go_range (ev_range E)"
  shows "accounted (L \<union> leaked E K cfg r s) (holdings_of (serve E K cfg r s))"
proof (cases "\<exists>doc. r = Lab_Load doc")
  case True
  then obtain doc where r: "r = Lab_Load doc" by blast
  obtain x s' where eq: "handle_lab_load E K cfg doc s = (x, s')" by fastforce
  show ?thesis using lab_load_accounted [OF a g eq] by (simp add: r serve_def eq)
next
  case False
  then have "leaked E K cfg r s = {}" by (simp add: leaked_def split: request.split)
  then show ?thesis using moves_accounted [OF serve_moves [OF a g] a] False by simp
qed

lemma new_server_accounted: "accounted {} (holdings_of (new_server k))"
proof -
  have rt: "rt_of (new_server k) i = blank_rt" for i
    by (simp add: rt_of_def new_server_def initial_faults_nodes new_fabric_lab_def)
  have d: "dom (fl_nodes (the_lab (new_server k))) = {}"
    by (simp add: new_server_def initial_faults_nodes new_fabric_lab_def)
  show ?thesis
    by (simp add: accounted_def holdings_of_def rt d)
      (simp add: new_server_def console_books_def capture_books_def udp_books_def nat_books_def kind_books_def idle_books_def
        exact_def blank_rt_def udp_holder_def new_port_allocator_def new_subnet_allocator_def)
qed

section \<open>The books of a reachable server\<close>

lemma reaches_accounted: "reaches s L \<Longrightarrow> accounted L (holdings_of s)"
  by (induction rule: reaches.induct) (auto intro: new_server_accounted serve_accounted)

text \<open>A node's udp pair, and its subnet, while they are held.\<close>

definition udp_held :: "'k server \<Rightarrow> int \<times> bool \<rightharpoonup> int" where
  "udp_held s = (\<lambda>(i, second). if nr_vtap (rt_of s i)
     then map_option (\<lambda>n. (if second then snd else fst) (ln_ports n)) (sv_nodes s i) else None)"

definition subnet_held :: "'k server \<Rightarrow> int \<rightharpoonup> int" where
  "subnet_held s = (\<lambda>i. if nr_extnet (rt_of s i) = None then None else map_option ln_subnet (sv_nodes s i))"

lemma reaches_exact:
  assumes "reaches s L"
  shows "exact (\<lambda>i. map_option ln_console (sv_nodes s i)) (taken_ports (sv_console s) - L)"
    "exact (sv_captures s) (taken_ports (sv_capture s))"
    "exact (udp_held s) (taken_ports (sv_udp s))" "exact (subnet_held s) (sv_subnets s)"
proof -
  note a = reaches_accounted [OF assms]
  have "h_console (holdings_of s) = (\<lambda>i. map_option ln_console (sv_nodes s i))" by (simp add: holdings_fields fun_eq_iff)
  then show "exact (\<lambda>i. map_option ln_console (sv_nodes s i)) (taken_ports (sv_console s) - L)"
    using a by (simp add: accounted_def console_books_def holdings_fields)
  show "exact (sv_captures s) (taken_ports (sv_capture s))"
    using a by (simp add: accounted_def capture_books_def holdings_fields)
  have "udp_holder (h_ports (holdings_of s)) = udp_held s"
  proof (rule ext)
    fix x :: "int \<times> bool"
    show "udp_holder (h_ports (holdings_of s)) x = udp_held s x"
      using accounted_node(3) [OF a, of "fst x"]
      by (auto simp: udp_holder_def udp_held_def shim_ok_def nonzero_def holdings_fields split: option.splits prod.splits if_splits)
  qed
  then show "exact (udp_held s) (taken_ports (sv_udp s))"
    using a by (simp add: accounted_def udp_books_def holdings_fields)
  have "(\<lambda>i. nonzero (h_subnet (holdings_of s) i)) = subnet_held s"
  proof (rule ext)
    fix i
    show "nonzero (h_subnet (holdings_of s) i) = subnet_held s i"
      using accounted_node(1) [OF a, of i]
      by (auto simp: subnet_held_def nonzero_def holdings_fields split: option.splits if_splits)
  qed
  then show "exact (subnet_held s) (sv_subnets s)"
    using a by (simp add: accounted_def nat_books_def holdings_fields)
qed

lemma exact_ran: "exact m T \<Longrightarrow> T = ran m"
  by (auto simp: exact_def ran_def)

lemma exact_differ: "exact m T \<Longrightarrow> m i = Some x \<Longrightarrow> m j = Some y \<Longrightarrow> i \<noteq> j \<Longrightarrow> x \<noteq> y"
  using exact_inj by metis

lemma load_nodes_exhausts:
  "load_nodes images ns m p = (None, p') \<Longrightarrow> port_next p' = None \<and> taken_ports p \<subseteq> taken_ports p' \<and>
     base_port p' = base_port p \<and> max_port p' = max_port p"
proof (induction ns arbitrary: m p)
  case (Cons n ns)
  show ?case
  proof (cases "port_next p")
    case None
    then show ?thesis using Cons.prems by simp
  next
    case (Some r)
    then obtain cp q where q: "port_next p = Some (cp, q)" by (cases r) auto
    then have "q = p \<lparr> taken_ports := insert cp (taken_ports p) \<rparr>" by (auto simp: port_next_def split: option.splits)
    moreover have "load_nodes images ns (m(node_id n \<mapsto> new_live_node images n cp)) q = (None, p')" using Cons.prems q by simp
    note Cons.IH [OF this]
    ultimately show ?thesis by auto
  qed
qed simp

lemma port_next_None: "port_next p = None \<Longrightarrow> {base_port p ..< max_port p} \<subseteq> taken_ports p"
  by (auto simp: port_next_def find_upto_None split: option.splits)

lemma check_packs_error: "check_packs packs ns \<noteq> Some No_Port"
  by (induction ns) (auto split: option.splits)

lemma adopt_frame: "try_adopt_load E doc s = (r, t) \<Longrightarrow> sv_nodes t = sv_nodes s \<and> sv_console t = sv_console s"
  by (auto simp: try_adopt_load_def on_lab_def on_world_def Let_def split: if_splits)

lemma valid_ids: "validate doc = None \<Longrightarrow> n \<in> set (nodes doc) \<Longrightarrow> 0 \<le> node_id n"
  by (auto simp: validate_def validate_nodes_Inr node_wf_def split: sum.splits if_splits)

section \<open>The reply of a start\<close>

lemma report_node [simp]: "sd_node (report s i cp pid) = i"
  by (simp add: report_def)

lemma start_one_node: "start_one E K cfg i s = (Up st, s1) \<Longrightarrow> sd_node st = i"
  by (auto simp: start_one_def of_endpoint_def start_extnet_node_def start_tool_node_def start_pc_node_def crash_with_def
      start_process_def promote_node_def Let_def
      split: if_splits option.splits prod.splits sum.splits kind.splits)

definition answered :: "start_reply \<Rightarrow> int list" where
  "answered out = map sd_node (sr_started out) @ map sf_node (sr_failed out)"

lemma start_each_answers:
  "start_each E K cfg single is out s = (Inr out', s') \<Longrightarrow> mset (answered out') = mset (answered out) + mset is"
proof (induction "is" arbitrary: out s)
  case (Cons i "is")
  obtain r t where q: "start_one E K cfg i s = (r, t)" by fastforce
  have st: "r = Up st \<Longrightarrow> sd_node st = i" for st using start_one_node q by simp
  show ?case
  proof (cases r)
    case (Up st)
    then show ?thesis using Cons.IH [of "out \<lparr> sr_started := sr_started out @ [st] \<rparr>" t] Cons.prems q st
      by (simp add: answered_def)
  next
    case (Fatal e known)
    then show ?thesis using Cons.IH [of "out \<lparr> sr_failed := sr_failed out @ [start_failure t i known e] \<rparr>" t] Cons.prems q
      by (simp add: answered_def start_failure_def split: if_splits)
  next
    case (Soft e)
    then show ?thesis using Cons.IH [of "out \<lparr> sr_failed := sr_failed out @ [start_failure t i True e] \<rparr>" t] Cons.prems q
      by (simp add: answered_def start_failure_def)
  qed
qed simp

section \<open>Startup configurations on disk\<close>

lemma nvram_filename_inject:
  assumes "0 \<le> i" "0 \<le> j" and eq: "nvram_filename i = nvram_filename j"
  shows "i = j"
proof -
  have p: "parse_digits 0 (drop 6 (nvram_filename k)) = Some (nat (instance_id k))" if "0 \<le> k" for k
    using that by (simp add: nvram_filename_def Let_def parse_leading_zeros itoa_def instance_id_def)
  have "nat (instance_id i) = nat (instance_id j)" using p [OF assms(1)] p [OF assms(2)] eq by simp
  then show ?thesis using assms(1,2) by (simp add: instance_id_def)
qed

definition nvram_image :: "node \<Rightarrow> bytes" where
  "nvram_image n = (let config = effective_startup_config n
     in encode_nvram (to_bytes config)
          \<lparr> ios_version = 0, private_text = [], image_size = nvram_kib_for (length config) * 1024 \<rparr>)"

definition nvram_path :: "server_cfg \<Rightarrow> 'k server \<Rightarrow> int \<Rightarrow> string" where
  "nvram_path cfg s i = in_dir (lab_dir cfg s) (nvram_filename i)"

lemma nvram_path_inject: "0 \<le> i \<Longrightarrow> 0 \<le> j \<Longrightarrow> nvram_path cfg s i = nvram_path cfg s j \<Longrightarrow> i = j"
  using nvram_filename_inject by (simp add: nvram_path_def in_dir_def)

lemma decode_image:
  assumes "length (effective_startup_config n) < 2 ^ 32"
  shows "decode_nvram (nvram_image n) = Inr (to_bytes (effective_startup_config n))"
proof -
  let ?o = "\<lparr> ios_version = 0, private_text = [], image_size = nvram_kib_for (length (effective_startup_config n)) * 1024 \<rparr>"
  let ?c = "to_bytes (effective_startup_config n)"
  have len: "length ?c < 2 ^ 32" using assms by (simp add: to_bytes_def)
  obtain c ios rest where "encode_nvram ?c ?o = header_with c ios (length ?c) @ ?c @ rest"
    using encode_shape [of ?o ?c] by blast
  then show ?thesis using len by (simp add: nvram_image_def Let_def decode_header_with)
qed

lemma length_pad4: "length b \<le> length (pad4 b) \<and> length (pad4 b) \<le> length b + 3"
  by (auto simp: pad4_def Let_def)

lemma length_image: "int (length (nvram_image n)) = 1024 * nvram_kib_for (length (effective_startup_config n))"
proof -
  define c where "c = to_bytes (effective_startup_config n)"
  have len: "length c = length (effective_startup_config n)" by (simp add: c_def to_bytes_def)
  define buf where "buf = set_checksum 0 (startup_header_len + length c) (pad4 (startup_header default_ios_version (length c) @ c))"
  have h: "length (startup_header default_ios_version (length c)) = 36"
    by (simp add: startup_header_def put_be16_def put_be32_def)
  have "length buf = length (pad4 (startup_header default_ios_version (length c) @ c))"
  proof -
    have "6 \<le> length (pad4 (startup_header default_ios_version (length c) @ c))"
      using length_pad4 [of "startup_header default_ios_version (length c) @ c"] h by simp
    then show ?thesis by (simp add: buf_def set_checksum_def Let_def put_be16_def)
  qed
  then have b: "length buf \<le> length c + 39"
    using length_pad4 [of "startup_header default_ios_version (length c) @ c"] h by simp
  have k: "int (length c) + 1024 \<le> 1024 * nvram_kib_for (length c)"
    by (simp add: nvram_kib_for_def default_nvram_kib_def Let_def) linarith
  have "nvram_image n = buf @ replicate (nat (nvram_kib_for (length c) * 1024) - length buf) 0"
    using b k by (simp add: nvram_image_def Let_def encode_nvram_def buf_def [symmetric] c_def [symmetric] len [symmetric])
  then have "int (length (nvram_image n)) = int (length buf) + (1024 * nvram_kib_for (length c) - int (length buf))"
    using b k by (simp add: of_nat_diff)
  then show ?thesis by (simp add: len)
qed

lemma inject_nvram_Some:
  "inject_nvram E cfg n s = (None, s') \<Longrightarrow> s' = s \<lparr> sv_files := (sv_files s)(nvram_path cfg s (node_id n) \<mapsto> nvram_image n) \<rparr>"
  by (simp add: inject_nvram_def write_file_def nvram_path_def nvram_image_def Let_def split: if_splits)

lemma nvram_path_files [simp]: "nvram_path cfg (s \<lparr> sv_files := f \<rparr>) = nvram_path cfg s"
  by (simp add: nvram_path_def lab_dir_def fun_eq_iff)

lemma inject_all_files:
  assumes "inject_all E cfg ids ns s = (None, s')" and "distinct (map node_id ns)" and "\<And>m. m \<in> set ns \<Longrightarrow> 0 \<le> node_id m"
  shows "\<exists>f. s' = s \<lparr> sv_files := f \<rparr> \<and>
    (\<forall>n \<in> set ns. node_kind n = KindIOL \<longrightarrow> (ids = [] \<or> node_id n \<in> set ids) \<longrightarrow>
       f (nvram_path cfg s (node_id n)) = Some (nvram_image n)) \<and>
    (\<forall>i. 0 \<le> i \<longrightarrow> i \<notin> node_id ` set ns \<longrightarrow> f (nvram_path cfg s i) = sv_files s (nvram_path cfg s i))"
  using assms
proof (induction ns arbitrary: s)
  case Nil
  then show ?case by (intro exI [of _ "sv_files s"]) simp
next
  case (Cons n ns)
  show ?case
  proof (cases "node_kind n \<noteq> KindIOL \<or> (ids \<noteq> [] \<and> node_id n \<notin> set ids)")
    case True
    then have "inject_all E cfg ids ns s = (None, s')" using Cons.prems(1) by (auto split: if_splits)
    from Cons.IH [OF this] Cons.prems(2,3) obtain f where f: "s' = s \<lparr> sv_files := f \<rparr>"
      "\<forall>n \<in> set ns. node_kind n = KindIOL \<longrightarrow> (ids = [] \<or> node_id n \<in> set ids) \<longrightarrow>
         f (nvram_path cfg s (node_id n)) = Some (nvram_image n)"
      "\<forall>i. 0 \<le> i \<longrightarrow> i \<notin> node_id ` set ns \<longrightarrow> f (nvram_path cfg s i) = sv_files s (nvram_path cfg s i)" by auto
    then show ?thesis using True by (intro exI [of _ f]) auto
  next
    case False
    then obtain s1 where q: "inject_nvram E cfg n s = (None, s1)" and r: "inject_all E cfg ids ns s1 = (None, s')"
      using Cons.prems(1) by (auto split: if_splits prod.splits option.splits)
    note s1 = inject_nvram_Some [OF q]
    have id: "node_id n \<notin> node_id ` set ns" "0 \<le> node_id n" using Cons.prems(2,3) by auto
    obtain f where f: "s' = s1 \<lparr> sv_files := f \<rparr>"
      "\<forall>n \<in> set ns. node_kind n = KindIOL \<longrightarrow> (ids = [] \<or> node_id n \<in> set ids) \<longrightarrow>
         f (nvram_path cfg s (node_id n)) = Some (nvram_image n)"
      "\<forall>i. 0 \<le> i \<longrightarrow> i \<notin> node_id ` set ns \<longrightarrow> f (nvram_path cfg s i) = sv_files s1 (nvram_path cfg s i)"
      using Cons.IH [OF r] Cons.prems(2,3) by (auto simp: s1)
    have own: "f (nvram_path cfg s (node_id n)) = Some (nvram_image n)" using f(3) id by (simp add: s1)
    have "f (nvram_path cfg s i) = sv_files s (nvram_path cfg s i)" if "0 \<le> i" "i \<notin> node_id ` set (n # ns)" for i
      using f(3) that nvram_path_inject [of i "node_id n" cfg s] id(2) by (auto simp: s1)
    then show ?thesis using f(1,2) own by (intro exI [of _ f]) (auto simp: s1)
  qed
qed

lemma inject_all_ok: "(\<And>path k. ev_file_ok E path k) \<Longrightarrow> fst (inject_all E cfg ids ns s) = None"
proof (induction ns arbitrary: s)
  case (Cons n ns)
  obtain e t where q: "inject_nvram E cfg n s = (e, t)" by fastforce
  have "e = None" using q Cons.prems by (auto simp: inject_nvram_def write_file_def Let_def)
  then show ?case using Cons q by simp
qed simp

section \<open>Adoption\<close>

definition plan_shape :: "node \<Rightarrow> int \<times> kind \<times> int" where
  "plan_shape n = (node_id n, node_kind n, int_or (node_ethernet n) 1)"

lemma plan_nodes_shape: "map plan_shape ns = map plan_shape ms \<Longrightarrow> plan_nodes tmp uid ns used nxt out = plan_nodes tmp uid ms used nxt out"
proof (induction ns arbitrary: ms used nxt out)
  case (Cons n ns)
  then obtain m ms' where "ms = m # ms'" by (cases ms) auto
  then show ?case using Cons by (simp add: plan_shape_def split: prod.split)
qed simp

lemma same_topology_plan_shape:
  assumes t: "same_topology a b" and d: "distinct (map node_id (nodes b))" and x: "x \<in> set (nodes a)" "y \<in> set (nodes b)" "node_id x = node_id y"
  shows "plan_shape x = plan_shape y"
proof -
  obtain z where z: "z \<in> set (nodes a)" "node_id z = node_id y" "same_node_shape z y"
    using same_topology_nodes(3) [OF t d x(2)] by blast
  have "z = x"
    using find_by_id [OF same_topology_nodes(1) [OF t d] z(1)] find_by_id [OF same_topology_nodes(1) [OF t d] x(1)] z(2) x(3) by simp
  then show ?thesis using z x(3) by (auto simp: plan_shape_def same_node_shape_def split: if_splits)
qed

lemma same_topology_sorted:
  assumes t: "same_topology a b" and d: "distinct (map node_id (nodes b))"
  shows "map plan_shape (sort_key node_id (nodes a)) = map plan_shape (sort_key node_id (nodes b))"
proof -
  let ?a = "sort_key node_id (nodes a)" and ?b = "sort_key node_id (nodes b)"
  have "distinct (map node_id ?a)" "distinct (map node_id ?b)"
    using same_topology_nodes(1) [OF t d] d by (metis distinct_map distinct_sort set_sort)+
  moreover have "sorted (map node_id ?a)" "sorted (map node_id ?b)" by simp_all
  moreover have "set (map node_id ?a) = set (map node_id ?b)" using same_topology_nodes(2) [OF t d] by simp
  ultimately have ids: "map node_id ?a = map node_id ?b" by (metis sorted_distinct_set_unique)
  show ?thesis
  proof (rule nth_equalityI)
    show "length (map plan_shape ?a) = length (map plan_shape ?b)" using arg_cong [OF ids, of length] by simp
  next
    fix k assume "k < length (map plan_shape ?a)"
    then have k: "k < length ?a" "k < length ?b" using arg_cong [OF ids, of length] by simp_all
    have "node_id (?a ! k) = node_id (?b ! k)" using arg_cong [OF ids, of "\<lambda>xs. xs ! k"] k by simp
    moreover have "?a ! k \<in> set (nodes a)" "?b ! k \<in> set (nodes b)" using nth_mem [OF k(1)] nth_mem [OF k(2)] by simp_all
    ultimately show "map plan_shape ?a ! k = map plan_shape ?b ! k"
      using same_topology_plan_shape [OF t d] k by simp
  qed
qed

lemma same_topology_image:
  assumes t: "same_topology a b" and d: "distinct (map node_id (nodes b))"
  shows "f ` plan_shape ` set (nodes a) = f ` plan_shape ` set (nodes b)"
proof -
  have "plan_shape ` set (nodes a) = set (map plan_shape (sort_key node_id (nodes a)))" by simp
  also have "\<dots> = plan_shape ` set (nodes b)" unfolding same_topology_sorted [OF t d] by simp
  finally show ?thesis by simp
qed

lemma filter_image: "{x \<in> f ` S. P x} = f ` {y \<in> S. P (f y)}"
  by auto

lemma by_shape:
  "real_instances doc = instance_id ` fst ` {x \<in> plan_shape ` set (nodes doc). fst (snd x) = KindIOL}"
  "fabric_nodes doc = fst ` {x \<in> plan_shape ` set (nodes doc). fst (snd x) \<in> {KindIOL, KindNAT, KindVPCS, KindTool, KindPC}}"
  by (simp_all add: filter_image image_image real_instances_def fabric_nodes_def plan_shape_def)

section \<open>A server to start from\<close>

definition idle_env :: "toy env" where
  "idle_env = \<lparr>
     ev_range = sorted_list_of_set, ev_tap_names = (\<lambda>_. []), ev_entries = (\<lambda>_. []),
     ev_shim_start = (\<lambda>_ _ _ k. (True, k)), ev_shim_close = (\<lambda>_ k. k), ev_route_iface = (\<lambda>_. Some ''eth0''),
     ev_nat_start = (\<lambda>i n d k. (Some \<lparr> ne_dev = nat_tap_name i, ne_subnet = n, ne_default = d, ne_bridge = [], ne_closed = False \<rparr>, k)),
     ev_nat_close = (\<lambda>_ k. k), ev_tool_start = (\<lambda>_ k. (None, k)), ev_tool_stop = (\<lambda>_ k. k), ev_pc_state = (\<lambda>_ _. None),
     ev_cli_dial = (\<lambda>_ _. True), ev_listen = (\<lambda>_ _. True), ev_spawn = (\<lambda>_ k. (Spawned 100, k)), ev_kill = (\<lambda>_ k. k),
     ev_early_exit = (\<lambda>_ _. None), ev_close_pumps = (\<lambda>_ k. k), ev_static_taps = (\<lambda>_ k. (True, k)),
     ev_capture_start = (\<lambda>_ _ k. (True, k)), ev_capture_stop = (\<lambda>_ k. k), ev_file_ok = (\<lambda>_ _. True) \<rparr>"

definition idle_cfg :: server_cfg where
  "idle_cfg = \<lparr> cfg_image_dir = ''/images'', cfg_run_dir = ''/run'', cfg_iourc = ''/iourc'', cfg_tmp = ''/tmp'', cfg_uid = 1000,
     cfg_disable_i386 = False, cfg_nat = True, cfg_tools = True, cfg_packs = [], cfg_pc_pack = True \<rparr>"

definition small_node :: "int \<Rightarrow> kind \<Rightarrow> node" where
  "small_node i k = \<lparr> node_id = i, node_kind = k, node_name = ''R1'',
     node_image = (if k = KindIOL then Some \<lparr> image_id = ''img'', image_filename = ''img'', image_class = ClassUnknown \<rparr> else None), node_ram = 0,
     node_ethernet = None, node_serial = None, startup_config = [], node_config = Map.empty \<rparr>"

definition small_lab :: "node list \<Rightarrow> lab" where
  "small_lab ns = \<lparr> version = 1, lab_id = ''lab'', lab_name = ''lab'', nodes = ns, links = [] \<rparr>"

definition small_doc :: lab where
  "small_doc = small_lab [small_node 1 KindIOL, small_node 2 KindNAT]"

definition small_server :: "toy server" where
  "small_server = serve idle_env toy_kernel idle_cfg (Lab_Load small_doc)
     (new_server (pc_toy []))"

lemma idle_env_range: "go_range (ev_range idle_env)"
  by (simp add: go_range_def idle_env_def)

lemma port_nextI:
  assumes "base_port p \<le> x" "x < max_port p" "x \<notin> taken_ports p" "{base_port p..<x} \<subseteq> taken_ports p"
  shows "port_next p = Some (x, p \<lparr> taken_ports := insert x (taken_ports p) \<rparr>)"
proof (cases "find (\<lambda>port. port \<notin> taken_ports p) [base_port p..max_port p - 1]")
  case None
  then show ?thesis using assms by (auto simp: find_upto_None)
next
  case (Some y)
  have y: "y \<notin> taken_ports p" "base_port p \<le> y" "\<forall>z. base_port p \<le> z \<and> z < y \<longrightarrow> z \<in> taken_ports p"
    using find_upto_Some [OF Some] by auto
  have "y = x"
  proof (rule linorder_cases [of y x])
    assume "y < x" then show ?thesis using y assms(4) by auto
  next
    assume "x < y" then show ?thesis using y(3) assms(1,3) by auto
  qed simp
  then show ?thesis using Some by (simp add: port_next_def)
qed


lemma small_doc_valid: "validate small_doc = None"
  by (simp add: small_doc_def validate_def small_lab_def small_node_def validate_node_def validate_kind_def
    groups_out_of_range_def validate_instance_def instance_id_def max_iol_instance_def Let_def)

lemma small_doc_nodes:
  "nodes small_doc = [small_node 1 KindIOL, small_node 2 KindNAT]" "lab_id small_doc = ''lab''" "links small_doc = []"
  by (simp_all add: small_doc_def small_lab_def)

lemma small_loads:
  "load_nodes Map.empty (nodes small_doc) Map.empty (new_port_allocator 9000 1000) =
     (Some [1 \<mapsto> new_live_node Map.empty (small_node 1 KindIOL) 9000, 2 \<mapsto> new_live_node Map.empty (small_node 2 KindNAT) 9001],
      (new_port_allocator 9000 1000) \<lparr> taken_ports := {9001, 9000} \<rparr>)"
proof -
  have 1: "port_next (new_port_allocator 9000 1000) = Some (9000, (new_port_allocator 9000 1000) \<lparr> taken_ports := {9000} \<rparr>)"
    by (subst port_nextI [of _ 9000]) (simp_all add: new_port_allocator_def)
  have 2: "port_next ((new_port_allocator 9000 1000) \<lparr> taken_ports := {9000} \<rparr>) =
     Some (9001, (new_port_allocator 9000 1000) \<lparr> taken_ports := {9001, 9000} \<rparr>)"
    by (subst port_nextI [of _ 9001]) (auto simp: new_port_allocator_def)
  show ?thesis by (simp add: small_doc_nodes 1 2) (simp add: small_node_def)
qed

lemma small_doc_packs: "check_packs packs (nodes small_doc) = None"
  by (simp add: small_doc_nodes) (simp add: small_node_def)

lemma small_load_reply: "\<exists>out. handle_lab_load idle_env toy_kernel idle_cfg small_doc (new_server (pc_toy [])) = (Inr out, small_server)"
proof -
  have n: "sv_images (new_server k) = Map.empty" "sv_console (new_server k) = new_port_allocator 9000 1000"
    "sv_loaded (new_server k) = False" for k :: toy
    by (simp_all add: new_server_def)
  show ?thesis
    by (simp add: small_server_def serve_def handle_lab_load_def small_doc_valid small_doc_packs try_adopt_load_def n small_loads Let_def)
qed

lemma small_server_publish:
  "small_server = publish_lab small_doc
     [1 \<mapsto> new_live_node Map.empty (small_node 1 KindIOL) 9000, 2 \<mapsto> new_live_node Map.empty (small_node 2 KindNAT) 9001]
     (new_server (pc_toy []) \<lparr> sv_console := (new_port_allocator 9000 1000) \<lparr> taken_ports := {9001, 9000} \<rparr> \<rparr>)"
proof -
  have n: "sv_images (new_server k) = Map.empty" "sv_console (new_server k) = new_port_allocator 9000 1000"
    "sv_loaded (new_server k) = False" for k :: toy
    by (simp_all add: new_server_def)
  show ?thesis
    by (simp add: small_server_def serve_def handle_lab_load_def small_doc_valid small_doc_packs try_adopt_load_def n small_loads Let_def)
qed

lemma small_server_fields:
  "sv_loaded small_server" "the_doc small_server = small_doc"
  "sv_nodes small_server = [1 \<mapsto> new_live_node Map.empty (small_node 1 KindIOL) 9000, 2 \<mapsto> new_live_node Map.empty (small_node 2 KindNAT) 9001]"
  "taken_ports (sv_console small_server) = {9001, 9000}" "sv_images small_server = Map.empty" "rt_of small_server i = blank_rt"
  "sv_files small_server = Map.empty" "sv_subnets small_server = {}" "sv_captures small_server = Map.empty"
  by (simp_all add: small_server_publish publish_lab_def initial_faults_nodes new_fabric_lab_def rt_of_def new_server_def
    new_subnet_allocator_def)

lemma small_server_reached: "reaches small_server {}"
proof -
  have "leaked idle_env toy_kernel idle_cfg (Lab_Load small_doc) (new_server (pc_toy [])) = {}"
    using small_load_reply by (auto simp: leaked_def)
  then show ?thesis
    using reaches_serve [OF reaches_new [of "pc_toy []"] idle_env_range, of toy_kernel idle_cfg "Lab_Load small_doc"]
    by (simp add: small_server_def)
qed

text \<open>The same server once its NAT node runs.\<close>

definition nat_started :: "toy server" where
  "nat_started = serve idle_env toy_kernel idle_cfg (Node_Start [] 2) small_server"

lemma initial_frame: "fl_nodes (fw_lab (activate_initial_faults w)) = fl_nodes (fw_lab w)" "fl_doc (fw_lab (activate_initial_faults w)) = fl_doc (fw_lab w)"
  by (simp_all add: activate_initial_faults_def Let_def)

lemma small_prepared:
  "case prepare_lab_dir idle_env toy_kernel idle_cfg [2] (refresh_fabric idle_cfg small_server) of
     (e, t) \<Rightarrow> e = None \<and> the_doc t = small_doc \<and> fl_nodes (the_lab t) = fl_nodes (the_lab small_server) \<and>
       sv_nodes t = sv_nodes small_server \<and> sv_subnets t = {}"
  by (simp add: prepare_lab_dir_def refresh_fabric_def start_fabric_def write_iourc_def write_file_def on_lab_def on_world_def on_kernel_def small_server_fields small_doc_nodes Let_def idle_env_def idle_cfg_def
     netmap_for_def initial_frame small_node_def)

lemma nat_starts:
  "(\<exists>out. start_nodes idle_env toy_kernel idle_cfg [2] small_server = (Inr out, nat_started)) \<and> nr_extnet (rt_of nat_started 2) \<noteq> None"
proof -
  obtain t where t: "prepare_lab_dir idle_env toy_kernel idle_cfg [2] (refresh_fabric idle_cfg small_server) = (None, t)"
    "the_doc t = small_doc" "fl_nodes (the_lab t) = fl_nodes (the_lab small_server)" "sv_nodes t = sv_nodes small_server" "sv_subnets t = {}"
    using small_prepared by (auto split: prod.splits)
  have n: "fl_nodes (the_lab small_server) 2 = Some blank_rt"
    by (simp add: small_server_publish publish_lab_def initial_faults_nodes new_fabric_lab_def)
  have f: "find_node (the_lab t) 2 = Some (small_node 2 KindNAT)" "find_node (the_lab small_server) 2 = Some (small_node 2 KindNAT)"
    by (simp_all add: find_node_doc t small_server_fields small_doc_nodes) (simp_all add: small_node_def)
  have sn: "subnet_next {} = Some (1, {1})" by code_simp
  have arm: "arm_doc_captures small_server = (True, small_server)"
    by (simp add: arm_doc_captures_def small_server_fields small_doc_nodes)
  have pre: "preflight_iol_images idle_cfg [2] small_server = ([2], \<lparr> sr_started = [], sr_failed = [] \<rparr>)"
    by (simp add: preflight_iol_images_def i386_refused_def idle_cfg_def split: option.split)
  have cs: "can_start t 2"
    by (simp add: can_start_def state_of_def t small_server_fields new_live_node_def new_machine_def can_transition_def valid_transitions_def split: prod.split)
  have fn: "node_kind (small_node 2 KindNAT) = KindNAT" by (simp add: small_node_def)
  have rt: "rt_of t 2 = blank_rt" by (simp add: rt_of_def t n)
  have at: "attach_node K i u = (None, u)" if "links (the_doc u) = []" for K i and u :: "toy server"
    using that by (simp add: attach_node_def on_fabric_call_def on_fabric_def attach_fabric_for_node_def)
  have up: "\<exists>st u. start_one idle_env toy_kernel idle_cfg 2 t = (Up st, u) \<and> nr_extnet (rt_of u 2) \<noteq> None"
    by (simp add: start_one_def t(4) f small_server_fields fn of_endpoint_def start_extnet_node_def idle_cfg_def rt blank_rt_def cs
      Let_def t(5) sn idle_env_def at node_to_def upd_node_def upd_rt_def on_lab_def on_world_def on_kernel_def t(2,3) small_doc_nodes)
      (simp add: rt_of_def n)
  show ?thesis
    using up by (auto simp: nat_started_def serve_def handle_node_start_def current_lab_def small_server_fields start_nodes_def pre arm t(1))
qed

lemma nat_runs: "nr_extnet (rt_of nat_started 2) \<noteq> None"
  using nat_starts by blast

lemma nat_started_reached: "reaches nat_started {}"
  using reaches_serve [OF small_server_reached idle_env_range, of toy_kernel idle_cfg "Node_Start [] 2"]
  by (simp add: nat_started_def leaked_def)

end
