(* ===== verification/Spec2Isabelle.thy ===== *)
theory Spec2Isabelle
  imports Netio Classify Telnet Console_Input Console_Output Painter_Collect Tap_Owner Ws_Frame Radius Dhcp Dirstat Server_Reach
begin

text \<open>
  A verification library of iolbox, a network lab in one program: a supervisor that runs router
  images, virtual PCs and tool containers as nodes of a lab, wires them through Linux bridges, and
  serves a browser over a WebSocket.  The library models the Go code under src/.  Every definition
  translates a named function or type; the manifest beside the library gives the lines of each.

  How the program is put together.  A client sends one JSON request at a time to the supervisor
  (supervisor/internal/server).  A lab document (internal/lab) is validated and loaded; loading hands
  out console ports, starting a node hands out udp ports, subnets and kernel devices, and a link
  joins the taps of two nodes on a bridge (internal/fabric).  An IOL node is a process (internal/node)
  that boots from an NVRAM image (internal/nvram), reads a NETMAP file (internal/netmap) and exchanges
  netio datagrams that a pump moves to and from a tap (internal/iouyap).  Its console is a
  pty shared by a hub among telnet clients and scripts (internal/node/console_hub.go, internal/telnet).
  A nat node is a veth pair with a small DHCP server (internal/extnet), a pc or tool node a network
  namespace (internal/tool).  Frames on a link are classified and counted (internal/relay,
  internal/dirstat).  Tool packs are programs of their own that run inside tool nodes; of those the
  AAA server (runtime/files/tools/packs/aaa) is modelled.

  The theories, each importing those it calls.

    Prelude: bytes, encoding/binary, the functions of strings and strconv the program uses, checked
    indexing.  Go_Crypto: crypto/md5, HMAC, and the interface byte_mask.

    Netio (internal/iouyap: header.go, iouyap.go).  Netmap (internal/netmap).  Allocators
    (internal/node/ports.go, internal/extnet/extnet.go): the interfaces id_pool and reserving_pool,
    interpreted by both allocators.  Nvram (internal/nvram).  Lab_Doc (internal/lab).  Node_Machine
    (internal/node: state.go, argv.go, the process life of spawn_linux.go).  Classify (internal/relay/
    classify.go).  Telnet (internal/telnet).  Console_Input and Console_Output (the two halves of
    internal/node/console_hub.go).

    Fabric_Cmds (internal/fabric, server/fabric_retry.go), Fabric_Plan (server/fabric.go,
    bridgeplan.go), Fabric_Runtime (the links of server/fabric_linux.go, bridge side of the endpoints),
    Fabric_Fault (server/fabric_fault*.go) and Tap_Owner (server/tapowner.go): from the plan of taps to
    attached links, their faults and the pumps behind them.

    Server_Lab and Server_Start (server/handlers.go, loaded.go, nvram_*.go, pcstate.go): the loaded lab
    and every handler that changes it.  Server_Books: what the lab holds from the identifier pools, and
    a relation of moves that is their specification.  Server_Holdings: every handler is a
    sequence of moves.  Server_Reach: the server as a state machine over requests.

    Go_Text: more of package strings.  Console_Script (internal/consolescript): scripted commands on a
    shared router console.  Painter_Text, Painter_Stp, Painter_Routes, Painter_Bgp (internal/painter): what
    the show commands print, parsed.  Painter_Collect (server/painter_*linux.go): the handlers that run
    them on the consoles of a lab and answer with the parsed results.

    Ws_Frame (internal/ws, tools/iolab-launcher/wsclient.go).  Dhcp (internal/extnet/dhcp*.go).  Dirstat
    (internal/dirstat).  Tacacs_Wire, Tacacs and Radius (runtime/files/tools/packs/aaa/gui).

  What the lemmas show.  Codecs (Netio, Nvram, Dhcp, Ws_Frame, Tacacs_Wire, Radius): decoding inverts
  encoding, and no input makes a decoder index outside its bytes; the seven TACACS+ bodies and the sealed
  packet interpret the interface wire_codec.  Allocators and Server_*: an identifier is never held twice, and the
  pools hold exactly what the lab holds, in every reachable state.  State machines (Node_Machine,
  Fabric_Fault, Tap_Owner, Console_Input, Console_Output, Telnet, Tacacs): an invariant, one lemma per operation, and the
  consequence for runs of any length.  Console_Script, Painter_*: a command returns its output in every
  cut in which no read but the last ends like a prompt, a parser reads back what a router prints in the layout
  the code documents, no index of a parser is out of range (its functions return None for a Go panic; next to
  each stands a total reading it equals), and the answer of the painter holds nothing a console did not send; the layouts (show_spanning_tree, show_ospf_neighbors,
  show_bgp) are specifications of that output, not models of code.  Fabric_Runtime: what an attach, an impairment or an admin-down does to
  the devices, given what ip and tc are documented to do when they succeed and when they fail; a release that is
  refused and a list that cannot be read, which the code ignores, are part of the statements.  Lab_Doc: Validate accepts exactly the
  well-formed documents.

  Parameters.  The Linux kernel, processes, files and sockets answer through records of functions over
  an arbitrary state (kern, env); their documented behaviour is a named hypothesis (ip_laws, tc_laws, go_range), and a
  small instance satisfies it in the witnesses.  The order in which Go ranges over a map is such a parameter
  too.  Strings are lists of characters, one per byte; strings.ToLower, TrimSpace and EqualFold are those of
  ASCII text.  A float64 is a rational.

  Loops and bounds.  Every loop of the models terminates by a measure on what it consumes (bytes of a
  packet or a connection, entries of a list, retries left), so no fuel is used.  Machine integers are words where the code
  wraps (headers, checksums, sequence numbers, lease arithmetic) and int elsewhere, with the range of a Go
  int where it is parsed.

  Concurrency.  Where the code holds a lock over an operation, the operation is one step and histories
  interleave steps; where it gives the lock up inside, the pieces are steps of their own (Stop and the waiter
  of a node process in Node_Machine, with the three-second limit of Stop as an alternative of its last step;
  timers and their callbacks in Fabric_Fault; the turns of Console_Input).

  Not modelled.  The interleaving inside the other operations, which run under a lock or one at a time.  HTTP, JSON decoding, sockets, deadlines, file formats on disk, process spawning, namespaces and cgroups, packet
  capture files, the regular expressions of the interface MAC parser, statistics rates, the desktop launcher except its WebSocket client, and the other
  tool packs.  The manifest lists each of these parts with its reason.
\<close>

section \<open>The server\<close>

text \<open>C3. Every request other than lab.load, in any state with the books in order and whatever the
  kernel, the processes and the files answer, is a sequence of moves of the specification: it takes an
  identifier only from a pool that has it free and gives it to one holder, and gives back only what that
  holder has.\<close>

theorem every_request_moves:
  assumes "accounted L (holdings_of s)" and "go_range (ev_range E)" and "\<And>doc. r \<noteq> Lab_Load doc"
  shows "move\<^sup>*\<^sup>* (holdings_of s) (holdings_of (serve E K cfg r s))"
  using serve_moves [OF assms] .

theorem every_request_moves_witness:
  "move\<^sup>*\<^sup>* (holdings_of small_server) (holdings_of nat_started)"
  unfolding nat_started_def by (rule every_request_moves [OF reaches_accounted [OF small_server_reached] idle_env_range]) simp

text \<open>C1. After any history of requests, timers and exits from a new server, each pool has handed out
  exactly what the loaded lab holds: console ports (besides the set L that refused loads have leaked),
  capture ports, the udp pair of every VPCS shim that is up, and the subnet of every NAT that is up.\<close>

theorem nothing_is_lost:
  assumes "reaches s L"
  shows "taken_ports (sv_console s) - L = ran (\<lambda>i. map_option ln_console (sv_nodes s i)) \<and>
    taken_ports (sv_capture s) = ran (sv_captures s) \<and>
    taken_ports (sv_udp s) = ran (udp_held s) \<and> sv_subnets s = ran (subnet_held s)"
  using reaches_exact [OF assms, THEN exact_ran] by blast

theorem nothing_is_lost_witness:
  "taken_ports (sv_console small_server) = {9001, 9000} \<and> sv_subnets nat_started = ran (subnet_held nat_started) \<and>
    ran (\<lambda>i. map_option ln_console (sv_nodes small_server i)) = {9001, 9000}"
  using nothing_is_lost [OF small_server_reached] nothing_is_lost [OF nat_started_reached] small_server_fields(4) by simp

text \<open>C2. In a reachable server two nodes never have the same console port, the four udp ports of
  two VPCS shims are different, and two NAT endpoints have different subnets.\<close>

theorem nothing_is_shared:
  assumes "reaches s L" and "sv_nodes s i = Some n" and "sv_nodes s j = Some m" and "i \<noteq> j"
  shows "ln_console n \<noteq> ln_console m \<and>
    (nr_vtap (rt_of s i) \<and> nr_vtap (rt_of s j) \<longrightarrow> distinct [fst (ln_ports n), snd (ln_ports n), fst (ln_ports m), snd (ln_ports m)]) \<and>
    (nr_extnet (rt_of s i) \<noteq> None \<and> nr_extnet (rt_of s j) \<noteq> None \<longrightarrow> ln_subnet n \<noteq> ln_subnet m)"
proof (intro conjI impI)
  show "ln_console n \<noteq> ln_console m"
    by (rule exact_differ [OF reaches_exact(1) [OF assms(1)] _ _ assms(4)]) (simp_all add: assms(2,3))
next
  note u = exact_differ [OF reaches_exact(3) [OF assms(1)]]
  assume "nr_vtap (rt_of s i) \<and> nr_vtap (rt_of s j)"
  then have v: "udp_held s (i, False) = Some (fst (ln_ports n))" "udp_held s (i, True) = Some (snd (ln_ports n))"
    "udp_held s (j, False) = Some (fst (ln_ports m))" "udp_held s (j, True) = Some (snd (ln_ports m))"
    using assms(2,3) by (simp_all add: udp_held_def)
  show "distinct [fst (ln_ports n), snd (ln_ports n), fst (ln_ports m), snd (ln_ports m)]"
    using u [OF v(1,2)] u [OF v(1,3)] u [OF v(1,4)] u [OF v(2,3)] u [OF v(2,4)] u [OF v(3,4)] assms(4) by simp
next
  assume "nr_extnet (rt_of s i) \<noteq> None \<and> nr_extnet (rt_of s j) \<noteq> None"
  then show "ln_subnet n \<noteq> ln_subnet m"
    by (intro exact_differ [OF reaches_exact(4) [OF assms(1)] _ _ assms(4)]) (simp_all add: subnet_held_def assms(2,3))
qed

theorem nothing_is_shared_witness:
  "map_option ln_console (sv_nodes small_server 1) \<noteq> map_option ln_console (sv_nodes small_server 2)"
  using nothing_is_shared [OF small_server_reached, of 1 "new_live_node Map.empty (small_node 1 KindIOL) 9000" 2
      "new_live_node Map.empty (small_node 2 KindNAT) 9001"]
  by (simp add: small_server_fields)

text \<open>C5. In a reachable server a udp shim is up only for a VPCS node, a NAT endpoint only for a nat
  node, a tool endpoint only for a tool or pc node, and every running node is in the document.\<close>

theorem runtime_matches_kind:
  assumes "reaches s L"
  shows "(nr_vtap (rt_of s i) \<longrightarrow> node_kind_of s i = Some KindVPCS) \<and>
    (nr_extnet (rt_of s i) \<noteq> None \<longrightarrow> node_kind_of s i = Some KindNAT) \<and>
    (nr_tool (rt_of s i) \<noteq> None \<longrightarrow> node_kind_of s i \<in> {Some KindTool, Some KindPC}) \<and>
    (sv_nodes s i \<noteq> None \<longrightarrow> node_kind_of s i \<noteq> None)"
proof -
  note a = reaches_accounted [OF assms]
  have k: "h_kind (holdings_of s) i = Some k \<Longrightarrow> node_kind_of s i = Some k" for k
    by (simp add: holdings_fields split: Option.bind_splits)
  have "kind_books (h_kind (holdings_of s)) (h_vtap (holdings_of s)) (h_nat (holdings_of s)) (h_tool (holdings_of s)) (h_rts (holdings_of s))"
    using a by (simp add: accounted_def)
  then have "(nr_vtap (rt_of s i) \<longrightarrow> h_kind (holdings_of s) i = Some KindVPCS) \<and>
      (nr_extnet (rt_of s i) \<noteq> None \<longrightarrow> h_kind (holdings_of s) i = Some KindNAT) \<and>
      (nr_tool (rt_of s i) \<noteq> None \<longrightarrow> h_kind (holdings_of s) i = Some KindTool \<or> h_kind (holdings_of s) i = Some KindPC)"
    unfolding kind_books_def holdings_fields(2,4,16) by blast
  then show ?thesis using k loaded_node [OF a, of i] by auto
qed

theorem runtime_matches_kind_witness: "node_kind_of nat_started 2 = Some KindNAT"
  using runtime_matches_kind [OF nat_started_reached, of 2] nat_runs by simp

text \<open>C4. A lab.stop of the whole lab that is accepted leaves no udp port, subnet, capture port or
  bridge capture taken, and no endpoint or shim of any node up.\<close>

theorem full_stop_frees:
  assumes "reaches s L" and "go_range (ev_range E)" and "handle_lab_stop E K lid None s = (None, s')"
  shows "taken_ports (sv_udp s') = {} \<and> sv_subnets s' = {} \<and> taken_ports (sv_capture s') = {} \<and> sv_bcaps s' = Map.empty \<and>
    (\<forall>j. idle_rt (rt_of s' j))"
proof -
  note a = reaches_accounted [OF assms(1)]
  define s1 where "s1 = quiesce E K (target_ids None s) s"
  have s': "s' = release_captures E s1"
    using assms(3) by (auto simp: handle_lab_stop_def Let_def s1_def quiesce_def split: option.splits)
  have "dom (sv_nodes s) \<subseteq> set (target_ids None s)"
  proof
    fix i assume "i \<in> dom (sv_nodes s)"
    then have "node_kind_of s i \<noteq> None" using loaded_node [OF a] by blast
    then show "i \<in> set (target_ids None s)"
      by (auto simp: target_ids_def node_kind_of_def find_node_doc find_None_iff)
  qed
  note Q = quiesce_props [OF a this, of E K, folded s1_def]
  have b: "accounted L (holdings_of (release_captures E s1))"
    by (rule moves_accounted [OF release_captures_moves [OF Q(2,3) assms(2)] Q(2)])
  show ?thesis using idle_frees(1,2) [OF Q(2,4)] captures_free [OF b] Q(3,4)
    by (simp add: s' release_captures_frame)
qed

theorem full_stop_frees_witness:
  "sv_subnets (snd (handle_lab_stop idle_env toy_kernel [] None small_server)) = {}"
proof -
  have "handle_lab_stop idle_env toy_kernel [] None small_server =
      (None, snd (handle_lab_stop idle_env toy_kernel [] None small_server))"
    by (simp add: handle_lab_stop_def current_lab_def small_server_fields Let_def)
  from full_stop_frees [OF small_server_reached idle_env_range this] show ?thesis by simp
qed

text \<open>C8. A lab.load refused for want of a console port leaves every port of the range taken,
  although the nodes of the loaded lab are those it had before: the ports the refused document took are
  never given back.\<close>

theorem failed_load_exhausts_consoles:
  assumes "handle_lab_load E K cfg doc s = (Inl No_Port, s')"
  shows "{base_port (sv_console s) ..< max_port (sv_console s)} \<subseteq> taken_ports (sv_console s') \<and> sv_nodes s' = sv_nodes s"
proof -
  obtain x t where xt: "try_adopt_load E doc s = (x, t)" by fastforce
  obtain mo q where ln: "load_nodes (sv_images t) (nodes doc) Map.empty (sv_console t) = (mo, q)" by fastforce
  have "mo = None \<and> s' = t \<lparr> sv_console := q \<rparr>"
    using assms check_packs_error [of "cfg_packs cfg" "nodes doc"]
    by (auto simp: handle_lab_load_def xt ln Let_def split: option.splits)
  then show ?thesis
    using load_nodes_exhausts [of "sv_images t" "nodes doc" Map.empty "sv_console t" q] ln adopt_frame [OF xt]
      port_next_None [of q] by auto
qed

theorem failed_load_exhausts_consoles_witness:
  "9000 \<in> taken_ports (sv_console (snd (handle_lab_load idle_env toy_kernel idle_cfg small_doc
     ((new_server (pc_toy [])) \<lparr> sv_console := new_port_allocator 9000 1 \<rparr>))))"
proof -
  let ?s = "(new_server (pc_toy [])) \<lparr> sv_console := new_port_allocator 9000 1 \<rparr>"
  have 1: "port_next (new_port_allocator 9000 1) = Some (9000, (new_port_allocator 9000 1) \<lparr> taken_ports := {9000} \<rparr>)"
    by (subst port_nextI [of _ 9000]) (simp_all add: new_port_allocator_def)
  have 2: "port_next ((new_port_allocator 9000 1) \<lparr> taken_ports := {9000} \<rparr>) = None" by code_simp
  have "fst (load_nodes im (nodes small_doc) Map.empty (new_port_allocator 9000 1)) = None" for im
    by (simp add: small_doc_nodes 1 2)
  then have "fst (handle_lab_load idle_env toy_kernel idle_cfg small_doc ?s) = Inl No_Port"
    by (simp add: handle_lab_load_def small_doc_valid small_doc_packs try_adopt_load_def new_server_def Let_def split: prod.split option.split)
      (metis fst_conv option.distinct(1))
  then have "handle_lab_load idle_env toy_kernel idle_cfg small_doc ?s =
      (Inl No_Port, snd (handle_lab_load idle_env toy_kernel idle_cfg small_doc ?s))" by (simp add: prod_eq_iff)
  from failed_load_exhausts_consoles [OF this] show ?thesis by (auto simp: new_port_allocator_def)
qed

text \<open>C7. A document a running lab adopts (same topology) has the same static-tap plan, tap for tap
  and pseudo-instance for pseudo-instance, and the same fabric nodes as the document it replaces, so the
  kernel objects already there still fit.\<close>

theorem adoption_keeps_plan:
  assumes "validate doc = None" and "same_topology old doc"
  shows "compute_static_taps tmp old uid = compute_static_taps tmp doc uid \<and> fabric_nodes old = fabric_nodes doc"
proof -
  note d = validate_distinct [OF assms(1)]
  have img: "plan_shape ` set (nodes old) = plan_shape ` set (nodes doc)"
    using same_topology_image [OF assms(2) d, of "\<lambda>x. x"] by simp
  have "real_instances old = real_instances doc" "fabric_nodes old = fabric_nodes doc"
    unfolding by_shape img by (rule refl)+
  then show ?thesis
    unfolding compute_static_taps_def using plan_nodes_shape [OF same_topology_sorted [OF assms(2) d]] by simp
qed

theorem adoption_keeps_plan_witness:
  "compute_static_taps ''/tmp'' (small_doc \<lparr> nodes := rev (nodes small_doc) \<rparr>) 0 = compute_static_taps ''/tmp'' small_doc 0"
proof -
  have "same_topology (small_doc \<lparr> nodes := rev (nodes small_doc) \<rparr>) small_doc" by code_simp
  from adoption_keeps_plan [OF small_doc_valid this] show ?thesis by simp
qed

text \<open>C6. After the injection of startup configurations succeeds, config.extract of any selected IOL
  node returns the configuration it boots with (its own, or the generated default), and the file has the
  size the node is told to expect.\<close>

theorem config_extract_roundtrip:
  assumes "validate (the_doc s) = None" and "inject_all E cfg ids (nodes (the_doc s)) s = (None, s')"
    and "n \<in> set (nodes (the_doc s))" and "node_kind n = KindIOL" and "ids = [] \<or> node_id n \<in> set ids"
    and "length (effective_startup_config n) < 2 ^ 32"
    and "ev_file_ok E (in_dir (lab_dir cfg s') (nvram_filename (node_id n))) (fw_kernel (sv_world s'))"
  shows "extract_nvram E cfg (node_id n) s' = Inr (effective_startup_config n) \<and>
    map_option (\<lambda>bs. int (length bs)) (sv_files s' (in_dir (lab_dir cfg s') (nvram_filename (node_id n))))
      = Some (1024 * nvram_kib_for (length (effective_startup_config n)))"
proof -
  obtain f where f: "s' = s \<lparr> sv_files := f \<rparr>" "f (nvram_path cfg s (node_id n)) = Some (nvram_image n)"
    using inject_all_files [OF assms(2) validate_distinct [OF assms(1)] valid_ids [OF assms(1)]] assms(3-5) by blast
  show ?thesis using f assms(6,7) decode_image [OF assms(6)] length_image [of n]
    by (simp add: extract_nvram_def nvram_path_def lab_dir_def Let_def)
qed

theorem config_extract_roundtrip_witness:
  "extract_nvram idle_env idle_cfg 1 (snd (inject_all idle_env idle_cfg [] (nodes (the_doc small_server)) small_server))
     = Inr (effective_startup_config (small_node 1 KindIOL))"
proof -
  let ?s = "snd (inject_all idle_env idle_cfg [] (nodes (the_doc small_server)) small_server)"
  have s: "inject_all idle_env idle_cfg [] (nodes (the_doc small_server)) small_server = (None, ?s)"
    by (simp add: prod_eq_iff inject_all_ok idle_env_def)
  have l: "length (effective_startup_config (small_node 1 KindIOL)) < 2 ^ 32"
    by (simp add: effective_startup_config_def default_startup_config_def small_node_def Let_def sanitize_hostname_def is_letter_def
      is_digit_or_hyphen_def nl_def)
  have "validate (the_doc small_server) = None" by (simp add: small_server_fields small_doc_valid)
  from config_extract_roundtrip [OF this s, of "small_node 1 KindIOL"] l
  show ?thesis by (simp add: small_server_fields small_doc_nodes) (simp add: small_node_def idle_env_def)
qed

text \<open>A start that is answered lists every requested node exactly as often as it was requested,
  either as started or as failed.\<close>

theorem start_answers_every_node:
  assumes "start_nodes E K cfg is s = (Inr ans, s')"
  shows "mset (answered ans) = mset is"
proof -
  define ok where "ok = filter (\<lambda>i. \<not> i386_refused cfg s i) is"
  define no where "no = map (\<lambda>i. start_failure s i True (I386_Disabled i)) (filter (i386_refused cfg s) is)"
  have pre: "preflight_iol_images cfg is s = (ok, \<lparr> sr_started = [], sr_failed = no \<rparr>)"
    by (simp add: preflight_iol_images_def ok_def no_def)
  have sum: "mset (answered \<lparr> sr_started = [], sr_failed = no \<rparr>) + mset ok = mset is"
    using multiset_partition [of "mset is" "i386_refused cfg s"]
    by (simp add: answered_def ok_def no_def start_failure_def comp_def flip: mset_map)
  show ?thesis
  proof (cases "ok = []")
    case True
    then show ?thesis using assms sum by (simp add: start_nodes_def pre)
  next
    case False
    then obtain t where "start_each E K cfg (length is = 1) ok \<lparr> sr_started = [], sr_failed = no \<rparr> t = (Inr ans, s')"
      using assms by (auto simp: start_nodes_def pre split: prod.splits bool.splits option.splits)
    from start_each_answers [OF this] sum show ?thesis by simp
  qed
qed

theorem start_answers_every_node_witness:
  "\<exists>ans. start_nodes idle_env toy_kernel idle_cfg [2] small_server = (Inr ans, nat_started) \<and> mset (answered ans) = {#2#}"
proof -
  obtain ans where "start_nodes idle_env toy_kernel idle_cfg [2] small_server = (Inr ans, nat_started)" using nat_starts by blast
  from this start_answers_every_node [OF this] show ?thesis by auto
qed

end
